(* ===== verification/Outbox.thy ===== *)
theory Outbox
  imports Js_Prelude
begin

text \<open>
  The transactional outbox: \<open>src/core/outbox/outbox.ts\<close> (entries, the recorder),
  \<open>outbox-worker.ts\<close> (the worker), \<open>outbox.module.ts\<close> (the in-memory storage and the start-up
  sequence) and \<open>outbox.prisma.ts\<close> (the Postgres storage).

  The worker is written against the interface \<open>OutboxStorage\<close>; here that interface is a record of
  operations on a storage state \<open>'s\<close>, and the worker takes it as an argument.  The locale
  \<open>outbox_store\<close> states what a storage promises; both storages are interpretations of it.
  The clock readings of the code are arguments.  A dispatcher is the function that says for which
  entries its promise resolves.
\<close>

section \<open>Entries and the storage interface (outbox.ts)\<close>

record 'p outbox_entry =
  oe_id :: string
  oe_seq :: int
  oe_tenantId :: string
  oe_type :: string
  oe_payload :: 'p
  oe_occurredAt :: millis
  oe_processedAt :: "millis option"
  oe_claimedAt :: "millis option"
  oe_dispatchAttemptCount :: "int option"

datatype outbox_error = TypeRequired | DuplicateId

text \<open>
  \<open>st_entry s e\<close> is what a dispatcher sees when it is handed the batch element \<open>e\<close> in state \<open>s\<close>:
  the in-memory storage returns references to its own objects (so later mutations show), the
  Postgres storage returns copies of the selected rows.
\<close>

record ('s, 'p) outbox_storage =
  st_append :: "'p outbox_entry \<Rightarrow> 's \<Rightarrow> outbox_error + 's"
  st_claimBatch :: "int \<Rightarrow> millis \<Rightarrow> 's \<Rightarrow> 'p outbox_entry list \<times> 's"
  st_markProcessed :: "string \<Rightarrow> millis \<Rightarrow> 's \<Rightarrow> bool \<times> 's"
  st_incrementDispatchAttemptCount :: "string \<Rightarrow> 's \<Rightarrow> int \<times> 's"
  st_entry :: "'s \<Rightarrow> 'p outbox_entry \<Rightarrow> 'p outbox_entry"

section \<open>The recorder (outbox.ts)\<close>

record 'p record_input =
  ri_tenantId :: string
  ri_type :: string
  ri_payload :: 'p

record outbox_recorder =
  nextSeq :: int

definition new_recorder :: outbox_recorder where
  "new_recorder = \<lparr>nextSeq = 1\<rparr>"

definition initSeq :: "int \<Rightarrow> outbox_recorder \<Rightarrow> outbox_recorder" where
  "initSeq next r = (if next > nextSeq r then r\<lparr>nextSeq := next\<rparr> else r)"

text \<open>\<open>nextSeq++\<close> happens when the entry object is built, before the append can fail.\<close>

definition record_entry ::
  "('s, 'p) outbox_storage \<Rightarrow> string \<Rightarrow> millis \<Rightarrow> 'p record_input \<Rightarrow> outbox_recorder \<Rightarrow> 's
     \<Rightarrow> (outbox_error + 'p outbox_entry) \<times> outbox_recorder \<times> 's" where
  "record_entry ops uuid now input r s =
     (if \<not> truthy (ri_type input) then (Inl TypeRequired, r, s)
      else
        let entry = \<lparr>oe_id = uuid, oe_seq = nextSeq r, oe_tenantId = ri_tenantId input,
                     oe_type = ri_type input, oe_payload = ri_payload input,
                     oe_occurredAt = now, oe_processedAt = None, oe_claimedAt = None,
                     oe_dispatchAttemptCount = None\<rparr>;
            r' = r\<lparr>nextSeq := nextSeq r + 1\<rparr>
        in case st_append ops entry s of
             Inl e \<Rightarrow> (Inl e, r', s)
           | Inr s' \<Rightarrow> (Inr entry, r', s'))"

definition recorder_markProcessed ::
  "('s, 'p) outbox_storage \<Rightarrow> string \<Rightarrow> millis \<Rightarrow> 's \<Rightarrow> bool \<times> 's" where
  "recorder_markProcessed ops i now s = st_markProcessed ops i now s"

section \<open>The worker (outbox-worker.ts)\<close>

record 'p outbox_dispatcher =
  od_name :: string
  od_dispatch :: "'p outbox_entry \<Rightarrow> bool"

record worker_options =
  batchSize :: int
  maxAttempts :: "int option"

record worker_result =
  wr_processed :: nat
  wr_deadLettered :: nat

text \<open>
  A storage call of the worker resolves, or its promise rejects, and then its statement may or may not have taken
  effect before the connection broke (the flag).  Which calls of a tick reject is an argument of the worker.
\<close>

datatype storage_call = Resolves | Rejects bool

fun happened :: "storage_call \<Rightarrow> bool" where
  "happened Resolves = True"
| "happened (Rejects applied) = applied"

record io_faults =
  iof_claim :: storage_call
  iof_increment :: "string \<Rightarrow> storage_call"
  iof_mark :: "string \<Rightarrow> storage_call"

definition no_faults :: io_faults where
  "no_faults = \<lparr>iof_claim = Resolves, iof_increment = (\<lambda>_. Resolves), iof_mark = (\<lambda>_. Resolves)\<rparr>"

text \<open>How far the loop got with one batch element: its attempt was not counted (that call rejected), it was taken for
  dead, or it was handed to every dispatcher with these outcomes.  The list of outcomes is what the worker's loop
  did, kept for the statements below.\<close>

datatype entry_outcome = Uncounted | DeadLettered | Dispatched "bool list"

fun marks_processed :: "entry_outcome \<Rightarrow> bool" where
  "marks_processed Uncounted = False"
| "marks_processed DeadLettered = True"
| "marks_processed (Dispatched rs) = list_all (\<lambda>ok. ok) rs"

definition exceeds :: "int option \<Rightarrow> int \<Rightarrow> bool" where
  "exceeds cap n = (case cap of None \<Rightarrow> False | Some m \<Rightarrow> n > m)"

text \<open>The \<open>for (const entry of batch)\<close> loop.  \<open>batchAt\<close> is the snapshot \<open>processedAt\<close>, \<open>doneAt\<close>
  the clock reading after an entry's dispatchers finished.  A rejected storage call ends \<open>runOnce\<close> with that
  rejection (\<open>None\<close>) and leaves the rest of the batch as it is.\<close>

fun worker_loop ::
  "('s, 'p) outbox_storage \<Rightarrow> 'p outbox_dispatcher list \<Rightarrow> int option \<Rightarrow> millis \<Rightarrow> (string \<Rightarrow> millis) \<Rightarrow> io_faults
     \<Rightarrow> 'p outbox_entry list \<Rightarrow> 's \<Rightarrow> worker_result option \<times> (string \<times> entry_outcome) list \<times> 's" where
  "worker_loop ops ds cap batchAt doneAt f [] s =
     (Some \<lparr>wr_processed = 0, wr_deadLettered = 0\<rparr>, [], s)"
| "worker_loop ops ds cap batchAt doneAt f (e # es) s =
     (let (attemptCount, s1) = st_incrementDispatchAttemptCount ops (oe_id e) s
      in case iof_increment f (oe_id e) of
           Rejects applied \<Rightarrow> (None, [(oe_id e, Uncounted)], if applied then s1 else s)
         | Resolves \<Rightarrow>
             if exceeds cap attemptCount then
               let (_, s2) = st_markProcessed ops (oe_id e) batchAt s1
               in case iof_mark f (oe_id e) of
                    Rejects applied \<Rightarrow> (None, [(oe_id e, DeadLettered)], if applied then s2 else s1)
                  | Resolves \<Rightarrow>
                      let (r, os, s') = worker_loop ops ds cap batchAt doneAt f es s2
                      in (map_option (\<lambda>r. r\<lparr>wr_deadLettered := Suc (wr_deadLettered r)\<rparr>) r, (oe_id e, DeadLettered) # os, s')
             else
               let results = map (\<lambda>d. od_dispatch d (st_entry ops s1 e)) ds
               in if list_all (\<lambda>ok. ok) results then
                    let (_, s2) = st_markProcessed ops (oe_id e) (doneAt (oe_id e)) s1
                    in case iof_mark f (oe_id e) of
                         Rejects applied \<Rightarrow> (None, [(oe_id e, Dispatched results)], if applied then s2 else s1)
                       | Resolves \<Rightarrow>
                           let (r, os, s') = worker_loop ops ds cap batchAt doneAt f es s2
                           in (map_option (\<lambda>r. r\<lparr>wr_processed := Suc (wr_processed r)\<rparr>) r, (oe_id e, Dispatched results) # os, s')
                  else
                    let (r, os, s') = worker_loop ops ds cap batchAt doneAt f es s1
                    in (r, (oe_id e, Dispatched results) # os, s'))"

definition runOnce ::
  "('s, 'p) outbox_storage \<Rightarrow> 'p outbox_dispatcher list \<Rightarrow> worker_options \<Rightarrow> millis \<Rightarrow> millis
     \<Rightarrow> (string \<Rightarrow> millis) \<Rightarrow> io_faults \<Rightarrow> 's \<Rightarrow> worker_result option \<times> (string \<times> entry_outcome) list \<times> 's" where
  "runOnce ops ds opts claimAt batchAt doneAt f s =
     (let (batch, s1) = st_claimBatch ops (batchSize opts) claimAt s
      in case iof_claim f of
           Rejects applied \<Rightarrow> (None, [], if applied then s1 else s)
         | Resolves \<Rightarrow>
             if batch = [] then (Some \<lparr>wr_processed = 0, wr_deadLettered = 0\<rparr>, [], s1)
             else worker_loop ops ds (maxAttempts opts) batchAt doneAt f batch s1)"

section \<open>The in-memory storage (outbox.module.ts)\<close>

record 'p memory_outbox =
  mo_entries :: "'p outbox_entry list"
  mo_processed :: "string list"

definition empty_memory_outbox :: "'p memory_outbox" where
  "empty_memory_outbox = \<lparr>mo_entries = [], mo_processed = []\<rparr>"

definition mem_append :: "'p outbox_entry \<Rightarrow> 'p memory_outbox \<Rightarrow> outbox_error + 'p memory_outbox" where
  "mem_append e s = Inr (s\<lparr>mo_entries := mo_entries s @ [e]\<rparr>)"

text \<open>\<open>claimBatch\<close> returns references to the first \<open>limit\<close> entries that are not processed and stamps
  each of those objects: \<open>mem_stamp n\<close> is the array after the first \<open>n\<close> such entries were stamped.\<close>

fun mem_stamp :: "string list \<Rightarrow> millis \<Rightarrow> nat \<Rightarrow> 'p outbox_entry list \<Rightarrow> 'p outbox_entry list" where
  "mem_stamp processed now n [] = []"
| "mem_stamp processed now n (e # es) =
     (if n > 0 \<and> oe_id e \<notin> set processed
      then e\<lparr>oe_claimedAt := Some now\<rparr> # mem_stamp processed now (n - 1) es
      else e # mem_stamp processed now n es)"

definition mem_claimBatch ::
  "int \<Rightarrow> millis \<Rightarrow> 'p memory_outbox \<Rightarrow> 'p outbox_entry list \<times> 'p memory_outbox" where
  "mem_claimBatch limit now s =
     (let batch = slice0 limit (filter (\<lambda>e. oe_id e \<notin> set (mo_processed s)) (mo_entries s))
      in (map (\<lambda>e. e\<lparr>oe_claimedAt := Some now\<rparr>) batch,
          s\<lparr>mo_entries := mem_stamp (mo_processed s) now (length batch) (mo_entries s)\<rparr>))"

definition mem_markProcessed :: "string \<Rightarrow> millis \<Rightarrow> 'p memory_outbox \<Rightarrow> bool \<times> 'p memory_outbox" where
  "mem_markProcessed i t s =
     (if i \<in> set (mo_processed s) then (False, s)
      else (True, s\<lparr>mo_processed := mo_processed s @ [i]\<rparr>))"

text \<open>The first entry with the id is mutated in place.\<close>

fun bump_first :: "string \<Rightarrow> 'p outbox_entry list \<Rightarrow> 'p outbox_entry list" where
  "bump_first i [] = []"
| "bump_first i (e # es) =
     (if oe_id e = i
      then e\<lparr>oe_dispatchAttemptCount := Some (nullish (oe_dispatchAttemptCount e) 0 + 1)\<rparr> # es
      else e # bump_first i es)"

definition mem_incrementDispatchAttemptCount ::
  "string \<Rightarrow> 'p memory_outbox \<Rightarrow> int \<times> 'p memory_outbox" where
  "mem_incrementDispatchAttemptCount i s =
     (case find_first (\<lambda>e. oe_id e = i) (mo_entries s) of
        None \<Rightarrow> (0, s)
      | Some e \<Rightarrow> (nullish (oe_dispatchAttemptCount e) 0 + 1,
                   s\<lparr>mo_entries := bump_first i (mo_entries s)\<rparr>))"

definition mem_entry :: "'p memory_outbox \<Rightarrow> 'p outbox_entry \<Rightarrow> 'p outbox_entry" where
  "mem_entry s e = nullish (find_first (\<lambda>x. oe_id x = oe_id e) (mo_entries s)) e"

definition memory_storage :: "('p memory_outbox, 'p) outbox_storage" where
  "memory_storage = \<lparr>st_append = mem_append, st_claimBatch = mem_claimBatch,
     st_markProcessed = mem_markProcessed,
     st_incrementDispatchAttemptCount = mem_incrementDispatchAttemptCount,
     st_entry = mem_entry\<rparr>"

section \<open>The Postgres storage (outbox.prisma.ts)\<close>

text \<open>
  The table \<open>outbox_entries\<close> is a list of rows; a row is an entry with its
  \<open>dispatch_attempt_count\<close> (column default 0).  \<open>9999-12-31T23:59:59.999Z\<close> in milliseconds.
\<close>

definition INFLIGHT_SENTINEL :: millis where
  "INFLIGHT_SENTINEL = 253402300799999"

type_synonym 'p outbox_table = "'p outbox_entry list"

definition pg_append :: "'p outbox_entry \<Rightarrow> 'p outbox_table \<Rightarrow> outbox_error + 'p outbox_table" where
  "pg_append e t =
     (if oe_id e \<in> oe_id ` set t then Inl DuplicateId
      else Inr (t @ [e\<lparr>oe_dispatchAttemptCount := Some 0\<rparr>]))"

text \<open>\<open>SELECT \<dots> WHERE processed_at IS NULL ORDER BY seq ASC LIMIT $1\<close>.\<close>

definition pg_select :: "int \<Rightarrow> 'p outbox_table \<Rightarrow> 'p outbox_entry list" where
  "pg_select limit t =
     take (nat limit) (sort_by (\<lambda>a b. oe_seq a \<le> oe_seq b) (filter (\<lambda>e. oe_processedAt e = None) t))"

definition pg_claimBatch ::
  "int \<Rightarrow> millis \<Rightarrow> 'p outbox_table \<Rightarrow> 'p outbox_entry list \<times> 'p outbox_table" where
  "pg_claimBatch limit now t =
     (if limit \<le> 0 then ([], t)
      else
        let selected = pg_select limit t;
            ids = map oe_id selected;
            t' = (if length selected > 0
                  then update_where (\<lambda>e. oe_id e \<in> set ids \<and> oe_processedAt e = None)
                         (\<lambda>e. e\<lparr>oe_processedAt := Some INFLIGHT_SENTINEL, oe_claimedAt := Some now\<rparr>) t
                  else t)
        in (selected, t'))"

definition pg_incrementDispatchAttemptCount :: "string \<Rightarrow> 'p outbox_table \<Rightarrow> int \<times> 'p outbox_table" where
  "pg_incrementDispatchAttemptCount i t =
     (let t' = update_where (\<lambda>e. oe_id e = i)
                 (\<lambda>e. e\<lparr>oe_dispatchAttemptCount := Some (nullish (oe_dispatchAttemptCount e) 0 + 1)\<rparr>) t;
          rows = filter (\<lambda>e. oe_id e = i) t'
      in (case rows of [] \<Rightarrow> 0 | r # _ \<Rightarrow> nullish (oe_dispatchAttemptCount r) 0, t'))"

definition pg_markProcessed :: "string \<Rightarrow> millis \<Rightarrow> 'p outbox_table \<Rightarrow> bool \<times> 'p outbox_table" where
  "pg_markProcessed i at t =
     (let hit = (\<lambda>e. oe_id e = i \<and>
                     (oe_processedAt e = None \<or> oe_processedAt e = Some INFLIGHT_SENTINEL));
          affected = length (filter hit t)
      in (affected > 0, update_where hit (\<lambda>e. e\<lparr>oe_processedAt := Some at\<rparr>) t))"

definition pg_entry :: "'p outbox_table \<Rightarrow> 'p outbox_entry \<Rightarrow> 'p outbox_entry" where
  "pg_entry t e = e"

definition pg_storage :: "('p outbox_table, 'p) outbox_storage" where
  "pg_storage = \<lparr>st_append = pg_append, st_claimBatch = pg_claimBatch,
     st_markProcessed = pg_markProcessed,
     st_incrementDispatchAttemptCount = pg_incrementDispatchAttemptCount,
     st_entry = pg_entry\<rparr>"

definition maxSeq :: "'p outbox_table \<Rightarrow> int" where
  "maxSeq t = (case t of [] \<Rightarrow> 0 | e # es \<Rightarrow> foldr (\<lambda>x m. max (oe_seq x) m) es (oe_seq e))"

definition resetStaleSentinels :: "millis \<Rightarrow> 'p outbox_table \<Rightarrow> nat \<times> 'p outbox_table" where
  "resetStaleSentinels now t =
     (let stale = (\<lambda>e. oe_processedAt e = Some INFLIGHT_SENTINEL \<and>
                       (case oe_claimedAt e of None \<Rightarrow> False | Some c \<Rightarrow> c < now - 5 * 60 * 1000))
      in (length (filter stale t), update_where stale (\<lambda>e. e\<lparr>oe_processedAt := None\<rparr>) t))"

text \<open>\<open>OutboxWorkerLifecycle.onModuleInit\<close> with a database: sweep, then seed the recorder; the two
  \<open>try\<close> blocks are entered with the outcome of the database call (\<open>False\<close>: it threw, logged).\<close>

definition onModuleInit ::
  "bool \<Rightarrow> bool \<Rightarrow> millis \<Rightarrow> outbox_recorder \<Rightarrow> 'p outbox_table \<Rightarrow> outbox_recorder \<times> 'p outbox_table" where
  "onModuleInit resetOk maxOk now r t =
     (let t1 = (if resetOk then snd (resetStaleSentinels now t) else t);
          r1 = (if maxOk then initSeq (maxSeq t1 + 1) r else r)
      in (r1, t1))"

definition lifecycle_options :: worker_options where
  "lifecycle_options = \<lparr>batchSize = 50, maxAttempts = None\<rparr>"

section \<open>What a storage promises\<close>

text \<open>
  \<open>known s\<close> are the ids in the storage, \<open>finished s\<close> the ids whose entry carries a completion mark,
  \<open>attempts s i\<close> the persisted dispatch-attempt count, and \<open>stamp_ok t\<close> says that \<open>t\<close> is a
  completion stamp the storage can tell from its own markers.
\<close>

text \<open>The storage call that ended the tick, if one did.\<close>

definition call_rejected :: "io_faults \<Rightarrow> string \<times> entry_outcome \<Rightarrow> bool" where
  "call_rejected f p \<longleftrightarrow> snd p = Uncounted \<or> (marks_processed (snd p) \<and> iof_mark f (fst p) \<noteq> Resolves)"

locale outbox_store =
  fixes ops :: "('s, 'p) outbox_storage"
    and inv :: "'s \<Rightarrow> bool"
    and known :: "'s \<Rightarrow> string set"
    and finished :: "'s \<Rightarrow> string set"
    and attempts :: "'s \<Rightarrow> string \<Rightarrow> int"
    and stamp_ok :: "millis \<Rightarrow> bool"
  assumes claim_law:
    "inv s \<Longrightarrow> st_claimBatch ops n t s = (b, s') \<Longrightarrow>
       inv s' \<and> known s' = known s \<and> finished s' = finished s \<and> attempts s' = attempts s \<and>
       distinct (map oe_id b) \<and> oe_id ` set b \<subseteq> known s - finished s"
  and mark_law:
    "inv s \<Longrightarrow> stamp_ok t \<Longrightarrow> i \<in> known s - finished s \<Longrightarrow> st_markProcessed ops i t s = (ok, s') \<Longrightarrow>
       ok \<and> inv s' \<and> known s' = known s \<and> finished s' = insert i (finished s) \<and>
       attempts s' = attempts s"
  and mark_again_law:
    "inv s \<Longrightarrow> i \<in> finished s \<Longrightarrow> st_markProcessed ops i t s = (False, s)"
  and increment_law:
    "inv s \<Longrightarrow> i \<in> known s \<Longrightarrow> st_incrementDispatchAttemptCount ops i s = (n, s') \<Longrightarrow>
       n = attempts s i + 1 \<and> inv s' \<and> known s' = known s \<and> finished s' = finished s \<and>
       attempts s' = (attempts s)(i := attempts s i + 1)"
begin

text \<open>The effect of working through the entries \<open>es\<close>: what \<open>os\<close> logs is a prefix of them, the whole list unless a
  storage call rejected; the recorded results are the answers of the dispatchers for that very entry.\<close>

definition outcome_ok ::
  "'p outbox_dispatcher list \<Rightarrow> int option \<Rightarrow> io_faults \<Rightarrow> 'p outbox_entry list \<Rightarrow> 's \<Rightarrow> string \<times> entry_outcome \<Rightarrow> bool" where
  "outcome_ok ds cap f es s p \<longleftrightarrow>
     (snd p = Uncounted) = (iof_increment f (fst p) \<noteq> Resolves) \<and>
     (snd p \<noteq> Uncounted \<longrightarrow> (snd p = DeadLettered) = exceeds cap (attempts s (fst p) + 1)) \<and>
     (\<forall>rs. snd p = Dispatched rs \<longrightarrow> (\<exists>e\<in>set es. oe_id e = fst p \<and> (\<exists>s1. rs = map (\<lambda>d. od_dispatch d (st_entry ops s1 e)) ds)))"

definition loop_effect ::
  "'p outbox_dispatcher list \<Rightarrow> int option \<Rightarrow> io_faults \<Rightarrow> 'p outbox_entry list \<Rightarrow> 's \<Rightarrow> worker_result option
     \<Rightarrow> (string \<times> entry_outcome) list \<Rightarrow> 's \<Rightarrow> bool" where
  "loop_effect ds cap f es s r os s' \<longleftrightarrow>
     inv s' \<and> known s' = known s \<and>
     map fst os = take (length os) (map oe_id es) \<and> (r \<noteq> None \<longrightarrow> length os = length es) \<and>
     (r = None) = (\<exists>p\<in>set os. call_rejected f p) \<and>
     finished s' = finished s \<union> {i. \<exists>out. (i, out) \<in> set os \<and> marks_processed out \<and> happened (iof_mark f i)} \<and>
     attempts s' = (\<lambda>i. attempts s i + (if i \<in> fst ` set os \<and> happened (iof_increment f i) then 1 else 0)) \<and>
     (\<forall>p\<in>set os. outcome_ok ds cap f es s p) \<and>
     (\<forall>w. r = Some w \<longrightarrow> wr_deadLettered w = length (filter (\<lambda>p. snd p = DeadLettered) os) \<and>
       wr_processed w = length (filter (\<lambda>p. snd p \<noteq> DeadLettered \<and> marks_processed (snd p)) os))"

text \<open>One iteration: count the attempt, then mark the entry or leave it; the tick goes on or ends here.\<close>

lemma worker_loop_iteration:
  assumes inv: "inv s" and e: "oe_id e \<in> known s - finished s"
    and ok: "stamp_ok batchAt" "\<And>i. stamp_ok (doneAt i)"
    and run: "worker_loop ops ds cap batchAt doneAt f (e # es) s = (r, os, s')"
  obtains s2 o1 where
    "inv s2" "known s2 = known s"
    "attempts s2 = (attempts s)(oe_id e := attempts s (oe_id e) + (if happened (iof_increment f (oe_id e)) then 1 else 0))"
    "finished s2 = finished s \<union> (if marks_processed o1 \<and> happened (iof_mark f (oe_id e)) then {oe_id e} else {})"
    "outcome_ok ds cap f (e # es) s (oe_id e, o1)"
    "(call_rejected f (oe_id e, o1) \<and> r = None \<and> os = [(oe_id e, o1)] \<and> s' = s2) \<or>
     (\<not> call_rejected f (oe_id e, o1) \<and> (\<exists>r2 os2. worker_loop ops ds cap batchAt doneAt f es s2 = (r2, os2, s') \<and>
        os = (oe_id e, o1) # os2 \<and>
        r = map_option (\<lambda>w. \<lparr>wr_processed = wr_processed w + (if o1 \<noteq> DeadLettered \<and> marks_processed o1 then 1 else 0),
              wr_deadLettered = wr_deadLettered w + (if o1 = DeadLettered then 1 else 0)\<rparr>) r2))"
proof -
  obtain n s1 where inc: "st_incrementDispatchAttemptCount ops (oe_id e) s = (n, s1)" by fastforce
  note s1 = increment_law[OF inv _ inc]
  define rs where "rs = map (\<lambda>d. od_dispatch d (st_entry ops s1 e)) ds"
  define at where "at = (if exceeds cap n then batchAt else doneAt (oe_id e))"
  obtain b s2 where mk: "st_markProcessed ops (oe_id e) at s1 = (b, s2)" by fastforce
  obtain r2 os2 s3 where lp2: "worker_loop ops ds cap batchAt doneAt f es s2 = (r2, os2, s3)"
    by (metis prod_cases3)
  obtain r1 os1 s4 where lp1: "worker_loop ops ds cap batchAt doneAt f es s1 = (r1, os1, s4)"
    by (metis prod_cases3)
  have marked: "inv s2 \<and> known s2 = known s1 \<and> finished s2 = insert (oe_id e) (finished s1) \<and>
      attempts s2 = attempts s1"
    using mark_law[of s1 at "oe_id e" b s2] s1 e ok mk by (auto simp: at_def)
  have same: "map_option (\<lambda>w. \<lparr>wr_processed = wr_processed w, wr_deadLettered = Suc (wr_deadLettered w)\<rparr>) r2 =
      map_option (\<lambda>r. r\<lparr>wr_deadLettered := Suc (wr_deadLettered r)\<rparr>) r2"
    "map_option (\<lambda>w. \<lparr>wr_processed = Suc (wr_processed w), wr_deadLettered = wr_deadLettered w\<rparr>) r2 =
      map_option (\<lambda>r. r\<lparr>wr_processed := Suc (wr_processed r)\<rparr>) r2"
    "map_option (\<lambda>w. \<lparr>wr_processed = wr_processed w, wr_deadLettered = wr_deadLettered w\<rparr>) r1 = r1"
    by (cases r2; simp)+ (cases r1; simp)
  show thesis
  proof (cases "iof_increment f (oe_id e)")
    case (Rejects applied)
    show thesis
      by (rule that[of "if applied then s1 else s" Uncounted])
        (use run inc Rejects s1 e inv in \<open>auto simp: outcome_ok_def call_rejected_def split: if_splits\<close>)
  next
    case res: Resolves
    consider (dead) "exceeds cap n" | (all) "\<not> exceeds cap n" "list_all (\<lambda>ok. ok) rs"
      | (some) "\<not> exceeds cap n" "\<not> list_all (\<lambda>ok. ok) rs" by blast
    then show thesis
    proof cases
      case dead
      with res s1 e have o: "outcome_ok ds cap f (e # es) s (oe_id e, DeadLettered)" by (auto simp: outcome_ok_def)
      show thesis
      proof (cases "iof_mark f (oe_id e)")
        case Resolves
        then show thesis using run inc mk lp2 s1 e marked dead res o same
          by (intro that[of s2 DeadLettered]) (auto simp: at_def call_rejected_def)
      next
        case (Rejects applied)
        then show thesis using run inc mk s1 e marked dead res o
          by (intro that[of "if applied then s2 else s1" DeadLettered]) (auto simp: at_def call_rejected_def split: if_splits)
      qed
    next
      case all
      with res s1 e have o: "outcome_ok ds cap f (e # es) s (oe_id e, Dispatched rs)"
        by (auto simp: outcome_ok_def rs_def)
      show thesis
      proof (cases "iof_mark f (oe_id e)")
        case Resolves
        then show thesis using run inc mk lp2 s1 e marked all res o same
          by (intro that[of s2 "Dispatched rs"]) (auto simp: at_def rs_def Let_def call_rejected_def)
      next
        case (Rejects applied)
        then show thesis using run inc mk s1 e marked all res o
          by (intro that[of "if applied then s2 else s1" "Dispatched rs"])
            (auto simp: at_def rs_def Let_def call_rejected_def split: if_splits)
      qed
    next
      case some
      with res s1 e have o: "outcome_ok ds cap f (e # es) s (oe_id e, Dispatched rs)"
        by (auto simp: outcome_ok_def rs_def)
      then show thesis using run inc lp1 s1 e some res same
        by (intro that[of s1 "Dispatched rs"]) (auto simp: rs_def Let_def call_rejected_def)
    qed
  qed
qed

lemma worker_loop_effect:
  assumes "inv s" and "distinct (map oe_id es)" and "oe_id ` set es \<subseteq> known s - finished s"
    and "stamp_ok batchAt" and "\<And>i. stamp_ok (doneAt i)"
    and "worker_loop ops ds cap batchAt doneAt f es s = (r, os, s')"
  shows "loop_effect ds cap f es s r os s'"
  using assms
proof (induction es arbitrary: s r os s')
  case Nil
  then show ?case by (auto simp: loop_effect_def)
next
  case (Cons e es)
  have e: "oe_id e \<in> known s - finished s" using Cons.prems(3) by simp
  have notin: "oe_id e \<notin> oe_id ` set es" using Cons.prems(2) by auto
  obtain s2 o1 where step: "inv s2" "known s2 = known s"
    "attempts s2 = (attempts s)(oe_id e := attempts s (oe_id e) + (if happened (iof_increment f (oe_id e)) then 1 else 0))"
    "finished s2 = finished s \<union> (if marks_processed o1 \<and> happened (iof_mark f (oe_id e)) then {oe_id e} else {})"
    and o1: "outcome_ok ds cap f (e # es) s (oe_id e, o1)"
    and goes: "(call_rejected f (oe_id e, o1) \<and> r = None \<and> os = [(oe_id e, o1)] \<and> s' = s2) \<or>
     (\<not> call_rejected f (oe_id e, o1) \<and> (\<exists>r2 os2. worker_loop ops ds cap batchAt doneAt f es s2 = (r2, os2, s') \<and>
        os = (oe_id e, o1) # os2 \<and>
        r = map_option (\<lambda>w. \<lparr>wr_processed = wr_processed w + (if o1 \<noteq> DeadLettered \<and> marks_processed o1 then 1 else 0),
              wr_deadLettered = wr_deadLettered w + (if o1 = DeadLettered then 1 else 0)\<rparr>) r2))"
    by (rule worker_loop_iteration[OF Cons.prems(1) e Cons.prems(4-6)]) (rule that)
  from goes show ?case
  proof
    assume "call_rejected f (oe_id e, o1) \<and> r = None \<and> os = [(oe_id e, o1)] \<and> s' = s2"
    with step o1 show ?thesis by (auto simp: loop_effect_def)
  next
    assume "\<not> call_rejected f (oe_id e, o1) \<and> (\<exists>r2 os2. worker_loop ops ds cap batchAt doneAt f es s2 = (r2, os2, s') \<and>
        os = (oe_id e, o1) # os2 \<and>
        r = map_option (\<lambda>w. \<lparr>wr_processed = wr_processed w + (if o1 \<noteq> DeadLettered \<and> marks_processed o1 then 1 else 0),
              wr_deadLettered = wr_deadLettered w + (if o1 = DeadLettered then 1 else 0)\<rparr>) r2)"
    then obtain r2 os2 where c: "\<not> call_rejected f (oe_id e, o1)"
      and loop: "worker_loop ops ds cap batchAt doneAt f es s2 = (r2, os2, s')" and os: "os = (oe_id e, o1) # os2"
      and r: "r = map_option (\<lambda>w. \<lparr>wr_processed = wr_processed w + (if o1 \<noteq> DeadLettered \<and> marks_processed o1 then 1 else 0),
              wr_deadLettered = wr_deadLettered w + (if o1 = DeadLettered then 1 else 0)\<rparr>) r2"
      by blast
    have "loop_effect ds cap f es s2 r2 os2 s'"
    proof (rule Cons.IH[OF step(1) _ _ Cons.prems(4,5) loop])
      show "distinct (map oe_id es)" using Cons.prems(2) by simp
      have "oe_id ` set es \<subseteq> known s - finished s" using Cons.prems(3) by simp
      with notin show "oe_id ` set es \<subseteq> known s2 - finished s2"
        unfolding step(2,4) by (simp add: subset_Diff_insert)
    qed
    note IH = this[unfolded loop_effect_def]
    have ids: "fst ` set os2 \<subseteq> oe_id ` set es"
      using set_take_subset[of "length os2" "map oe_id es"] IH[THEN conjunct2, THEN conjunct2, THEN conjunct1]
      by (metis list.set_map)
    have "outcome_ok ds cap f (e # es) s p" if "p \<in> set os2" for p
    proof -
      have "outcome_ok ds cap f es s2 p" using IH that by blast
      moreover have "fst p \<noteq> oe_id e" using ids notin that by (metis image_eqI subsetD)
      ultimately show ?thesis using step(3) unfolding outcome_ok_def by (auto; blast)
    qed
    moreover have "attempts s' = (\<lambda>i. attempts s i + (if i \<in> fst ` set os \<and> happened (iof_increment f i) then 1 else 0))"
      using IH step(3) os ids notin by (auto simp: fun_eq_iff)
    moreover have "finished s' = finished s \<union> {i. \<exists>out. (i, out) \<in> set os \<and> marks_processed out \<and> happened (iof_mark f i)}"
      using IH step os by (auto split: if_splits)
    ultimately show ?thesis using IH step(1,2) os r c o1 unfolding loop_effect_def by (cases r2) auto
  qed
qed

lemma runOnce_effect:
  assumes "inv s" and "stamp_ok batchAt" and "\<And>i. stamp_ok (doneAt i)" and "iof_claim f = Resolves"
    and "st_claimBatch ops (batchSize opts) claimAt s = (batch, s1)"
    and "runOnce ops ds opts claimAt batchAt doneAt f s = (r, os, s')"
  shows "loop_effect ds (maxAttempts opts) f batch s r os s'"
proof -
  have c: "inv s1" "known s1 = known s" "finished s1 = finished s" "attempts s1 = attempts s"
    "distinct (map oe_id batch)" "oe_id ` set batch \<subseteq> known s1 - finished s1"
    using claim_law[OF assms(1,5)] by auto
  have "worker_loop ops ds (maxAttempts opts) batchAt doneAt f batch s1 = (r, os, s')"
    using assms(4-6) by (auto simp: runOnce_def split: if_splits)
  then have "loop_effect ds (maxAttempts opts) f batch s1 r os s'"
    by (rule worker_loop_effect[OF c(1,5,6) assms(2,3)])
  then show ?thesis unfolding loop_effect_def outcome_ok_def c(2-4) .
qed

end

section \<open>The two storages keep the promise\<close>

text \<open>The persisted attempt counter, as both storages read it.\<close>

definition attempts_of :: "'p outbox_entry list \<Rightarrow> string \<Rightarrow> int" where
  "attempts_of es i = nullish (map_of (map (\<lambda>e. (oe_id e, nullish (oe_dispatchAttemptCount e) 0)) es) i) 0"

lemma attempts_of_find:
  "attempts_of es i = (case find_first (\<lambda>e. oe_id e = i) es of None \<Rightarrow> 0
     | Some e \<Rightarrow> nullish (oe_dispatchAttemptCount e) 0)"
  by (cases "find_first (\<lambda>e. oe_id e = i) es")
    (simp_all add: attempts_of_def find_first_map_of[symmetric])

lemma attempts_of_cong:
  "map (\<lambda>e. (oe_id e, nullish (oe_dispatchAttemptCount e) 0)) es =
   map (\<lambda>e. (oe_id e, nullish (oe_dispatchAttemptCount e) 0)) es' \<Longrightarrow> attempts_of es = attempts_of es'"
  by (simp add: attempts_of_def fun_eq_iff)

lemma map_mem_stamp:
  "(\<And>e. g (e\<lparr>oe_claimedAt := Some now\<rparr>) = g e) \<Longrightarrow> map g (mem_stamp p now n es) = map g es"
  by (induction p now n es rule: mem_stamp.induct) auto

lemma map_bump_first:
  "(\<And>e v. g (e\<lparr>oe_dispatchAttemptCount := v\<rparr>) = g e) \<Longrightarrow> map g (bump_first i es) = map g es"
  by (induction es) auto

lemma attempts_of_bump_first:
  "i \<in> oe_id ` set es \<Longrightarrow> attempts_of (bump_first i es) = (attempts_of es)(i := attempts_of es i + 1)"
  by (induction es) (auto simp: attempts_of_def fun_eq_iff)

lemma distinct_map_slice0: "distinct (map f xs) \<Longrightarrow> distinct (map f (slice0 n xs))"
  by (simp add: slice0_def distinct_take take_map[symmetric])

definition memory_inv :: "'p memory_outbox \<Rightarrow> bool" where
  "memory_inv s = distinct (map oe_id (mo_entries s))"

definition memory_known :: "'p memory_outbox \<Rightarrow> string set" where
  "memory_known s = oe_id ` set (mo_entries s)"

lemma mem_claim_facts:
  assumes "memory_inv s" and "mem_claimBatch n t s = (b, s')"
  shows "map oe_id (mo_entries s') = map oe_id (mo_entries s)" and "mo_processed s' = mo_processed s"
    and "attempts_of (mo_entries s') = attempts_of (mo_entries s)"
    and "distinct (map oe_id b)" and "oe_id ` set b \<subseteq> memory_known s - set (mo_processed s)"
proof -
  let ?f = "filter (\<lambda>e. oe_id e \<notin> set (mo_processed s)) (mo_entries s)"
  have s': "mo_entries s' = mem_stamp (mo_processed s) t (length (slice0 n ?f)) (mo_entries s)"
      "mo_processed s' = mo_processed s"
    and b: "map oe_id b = map oe_id (slice0 n ?f)"
    using assms(2) by (auto simp: mem_claimBatch_def Let_def)
  show "map oe_id (mo_entries s') = map oe_id (mo_entries s)" and "mo_processed s' = mo_processed s"
    using s' by (simp_all add: map_mem_stamp)
  show "attempts_of (mo_entries s') = attempts_of (mo_entries s)"
    unfolding s' by (rule attempts_of_cong) (simp add: map_mem_stamp)
  show "distinct (map oe_id b)"
    unfolding b using assms(1) by (intro distinct_map_slice0 distinct_map_filter) (simp add: memory_inv_def)
  have "oe_id ` set b = oe_id ` set (slice0 n ?f)" using b by (metis list.set_map)
  also have "\<dots> \<subseteq> oe_id ` set ?f" by (intro image_mono set_slice0)
  finally show "oe_id ` set b \<subseteq> memory_known s - set (mo_processed s)"
    by (auto simp: memory_known_def)
qed

interpretation mem: outbox_store memory_storage memory_inv memory_known
  "\<lambda>s. set (mo_processed s)" "\<lambda>s. attempts_of (mo_entries s)" "\<lambda>_. True"
proof (unfold_locales, goal_cases)
  case (1 s n t b s')
  then have c: "memory_inv s" "mem_claimBatch n t s = (b, s')" by (simp_all add: memory_storage_def)
  note f = mem_claim_facts[OF c]
  have "memory_known s' = memory_known s"
    unfolding memory_known_def using f(1) by (metis list.set_map)
  with f c(1) show ?case by (simp add: memory_inv_def)
next
  case (2 s t i ok s')
  then have "ok" "s' = s\<lparr>mo_processed := mo_processed s @ [i]\<rparr>"
    by (simp_all add: memory_storage_def mem_markProcessed_def)
  with 2 show ?case by (simp add: memory_inv_def memory_known_def)
next
  case (3 s i t)
  then show ?case by (simp add: memory_storage_def mem_markProcessed_def)
next
  case (4 s i n s')
  then have i: "i \<in> oe_id ` set (mo_entries s)" by (simp add: memory_known_def)
  then obtain e where e: "find_first (\<lambda>e. oe_id e = i) (mo_entries s) = Some e"
    using find_first_ex[of i oe_id "mo_entries s"] by auto
  have ids: "map oe_id (bump_first i (mo_entries s)) = map oe_id (mo_entries s)"
    by (simp add: map_bump_first)
  then have "oe_id ` set (bump_first i (mo_entries s)) = oe_id ` set (mo_entries s)"
    by (metis list.set_map)
  moreover have "n = attempts_of (mo_entries s) i + 1"
      "s' = s\<lparr>mo_entries := bump_first i (mo_entries s)\<rparr>"
    using 4 e by (auto simp: memory_storage_def mem_incrementDispatchAttemptCount_def attempts_of_find)
  ultimately show ?case
    using 4(1) ids by (simp add: memory_inv_def memory_known_def attempts_of_bump_first[OF i])
qed

definition table_inv :: "'p outbox_table \<Rightarrow> bool" where
  "table_inv t = distinct (map oe_id t)"

definition is_final :: "'p outbox_entry \<Rightarrow> bool" where
  "is_final e = (oe_processedAt e \<noteq> None \<and> oe_processedAt e \<noteq> Some INFLIGHT_SENTINEL)"

definition table_known :: "'p outbox_table \<Rightarrow> string set" where
  "table_known t = oe_id ` set t"

definition table_finished :: "'p outbox_table \<Rightarrow> string set" where
  "table_finished t = oe_id ` {e \<in> set t. is_final e}"

lemma table_known_update_where:
  "(\<And>e. oe_id (f e) = oe_id e) \<Longrightarrow> table_known (update_where P f t) = table_known t"
  by (metis list.set_map map_update_where_frame table_known_def)

lemma table_inv_update_where:
  "(\<And>e. oe_id (f e) = oe_id e) \<Longrightarrow> table_inv (update_where P f t) = table_inv t"
  by (simp add: table_inv_def map_update_where_frame)

lemma table_row_unique:
  "table_inv t \<Longrightarrow> e \<in> set t \<Longrightarrow> e' \<in> set t \<Longrightarrow> oe_id e = oe_id e' \<Longrightarrow> e = e'"
  by (auto simp: table_inv_def distinct_map inj_on_def)

lemma table_finished_iff:
  assumes "table_inv t" and "e \<in> set t"
  shows "oe_id e \<in> table_finished t \<longleftrightarrow> is_final e"
proof
  assume "oe_id e \<in> table_finished t"
  then obtain e' where "e' \<in> set t" "is_final e'" "oe_id e = oe_id e'"
    by (auto simp: table_finished_def)
  with table_row_unique[OF assms(1,2)] show "is_final e" by simp
qed (use assms in \<open>simp add: table_finished_def\<close>)

lemma table_finished_Cons:
  "table_finished (e # t) = (if is_final e then {oe_id e} else {}) \<union> table_finished t"
  by (auto simp: table_finished_def)

lemma table_finished_update_where:
  "(\<And>e. oe_id (f e) = oe_id e) \<Longrightarrow> (\<And>e. P e \<Longrightarrow> is_final (f e) = is_final e) \<Longrightarrow>
   table_finished (update_where P f t) = table_finished t"
  by (induction t) (simp_all add: table_finished_Cons)

lemma set_pg_select: "e \<in> set (pg_select n t) \<Longrightarrow> e \<in> set t \<and> oe_processedAt e = None"
  by (auto simp: pg_select_def dest!: in_set_takeD)

lemma distinct_pg_select: "table_inv t \<Longrightarrow> distinct (map oe_id (pg_select n t))"
  unfolding pg_select_def table_inv_def take_map[symmetric]
  by (intro distinct_take) (simp add: distinct_map_filter)

lemma pg_claim_facts:
  fixes t :: "'p outbox_table"
  assumes "table_inv t" and "pg_claimBatch n now t = (b, t')"
  shows "table_inv t'" and "table_known t' = table_known t" and "attempts_of t' = attempts_of t"
    and "table_finished t' = table_finished t" and "distinct (map oe_id b)"
    and "\<And>e. e \<in> set b \<Longrightarrow> e \<in> set t \<and> oe_processedAt e = None"
proof -
  define P where "P = (\<lambda>e::'p outbox_entry. oe_id e \<in> oe_id ` set b \<and> oe_processedAt e = None)"
  define f where "f = (\<lambda>e::'p outbox_entry. e\<lparr>oe_processedAt := Some INFLIGHT_SENTINEL, oe_claimedAt := Some now\<rparr>)"
  have b: "b = (if n \<le> 0 then [] else pg_select n t)" and t': "t' = update_where P f t"
    using assms(2) by (auto simp: pg_claimBatch_def P_def f_def Let_def update_where_none split: if_splits)
  show "table_inv t'" "table_known t' = table_known t" "attempts_of t' = attempts_of t"
    using assms(1) unfolding t' f_def
    by (simp_all add: table_inv_update_where table_known_update_where)
      (rule attempts_of_cong, simp add: map_update_where_frame)
  show "table_finished t' = table_finished t"
    unfolding t' by (rule table_finished_update_where) (simp_all add: P_def f_def is_final_def)
  show "distinct (map oe_id b)" using assms(1) b by (simp add: distinct_pg_select)
  show "\<And>e. e \<in> set b \<Longrightarrow> e \<in> set t \<and> oe_processedAt e = None"
    using b by (auto dest: set_pg_select split: if_splits)
qed

lemma pg_mark_facts:
  fixes t :: "'p outbox_table"
  assumes "table_inv t" and "i \<in> table_known t - table_finished t" and "at \<noteq> INFLIGHT_SENTINEL"
    and "pg_markProcessed i at t = (ok, t')"
  shows "ok" and "table_inv t'" and "table_known t' = table_known t" and "attempts_of t' = attempts_of t"
    and "table_finished t' = insert i (table_finished t)"
proof -
  define hit where "hit = (\<lambda>e::'p outbox_entry. oe_id e = i \<and> \<not> is_final e)"
  define f where "f = (\<lambda>e::'p outbox_entry. e\<lparr>oe_processedAt := Some at\<rparr>)"
  have eq: "t' = update_where hit f t" "ok = (filter hit t \<noteq> [])"
    using assms(4) by (auto simp: pg_markProcessed_def hit_def f_def is_final_def Let_def)
  obtain e where e: "e \<in> set t" "hit e"
    using assms(2) by (auto simp: table_known_def table_finished_def hit_def)
  then show "ok" by (auto simp: eq filter_empty_conv)
  show "table_inv t'" "table_known t' = table_known t" "attempts_of t' = attempts_of t"
    using assms(1) unfolding eq f_def
    by (simp_all add: table_inv_update_where table_known_update_where)
      (rule attempts_of_cong, simp add: map_update_where_frame)
  have final: "is_final (f x)" "oe_id (f x) = oe_id x" for x
    using assms(3) by (simp_all add: f_def is_final_def)
  show "table_finished t' = insert i (table_finished t)"
  proof (intro equalityI subsetI)
    fix j assume "j \<in> table_finished t'"
    then obtain x where "x \<in> set t" "is_final (if hit x then f x else x)" "j = oe_id x"
      by (auto simp: table_finished_def eq set_update_where final)
    then show "j \<in> insert i (table_finished t)"
      by (cases "hit x") (auto simp: hit_def table_finished_def)
  next
    fix j assume "j \<in> insert i (table_finished t)"
    then obtain x where "x \<in> set t" "j = oe_id x" "hit x \<or> is_final x"
      using e by (auto simp: hit_def table_finished_def)
    then have "(if hit x then f x else x) \<in> set t'" "is_final (if hit x then f x else x)"
        "oe_id (if hit x then f x else x) = j"
      by (auto simp: eq set_update_where final)
    then show "j \<in> table_finished t'" unfolding table_finished_def by blast
  qed
qed

lemma pg_increment_facts:
  fixes t :: "'p outbox_table"
  assumes "table_inv t" and "i \<in> table_known t"
    and "pg_incrementDispatchAttemptCount i t = (n, t')"
  shows "n = attempts_of t i + 1" and "table_inv t'" and "table_known t' = table_known t"
    and "table_finished t' = table_finished t" and "attempts_of t' = (attempts_of t)(i := attempts_of t i + 1)"
proof -
  define f where "f = (\<lambda>e::'p outbox_entry. e\<lparr>oe_dispatchAttemptCount := Some (nullish (oe_dispatchAttemptCount e) 0 + 1)\<rparr>)"
  have t': "t' = update_where (\<lambda>e. oe_id e = i) f t"
    and n: "n = (case filter (\<lambda>e. oe_id e = i) t' of [] \<Rightarrow> 0 | r # _ \<Rightarrow> nullish (oe_dispatchAttemptCount r) 0)"
    using assms(3) by (auto simp: pg_incrementDispatchAttemptCount_def f_def Let_def)
  have idf: "oe_id (f e) = oe_id e" for e by (simp add: f_def)
  show inv: "table_inv t'" "table_known t' = table_known t"
    using assms(1) unfolding t' by (simp_all add: table_inv_update_where table_known_update_where idf)
  show "table_finished t' = table_finished t"
    unfolding t' by (rule table_finished_update_where) (simp_all add: f_def is_final_def)
  have look: "find_first (\<lambda>e. oe_id e = i) t' = map_option f (find_first (\<lambda>e. oe_id e = i) t)"
    unfolding t' by (rule find_first_update_where) (rule idf)
  obtain e where e: "find_first (\<lambda>e. oe_id e = i) t = Some e"
    using assms(2) find_first_ex[of i oe_id t] by (auto simp: table_known_def)
  show "n = attempts_of t i + 1"
    using inv(1) look e by (simp add: n table_inv_def filter_key_distinct attempts_of_find f_def)
  have "find_first (\<lambda>e. oe_id e = j) t' = find_first (\<lambda>e. oe_id e = j) t" if "j \<noteq> i" for j
    unfolding t' using that by (induction t) (auto simp: idf)
  then show "attempts_of t' = (attempts_of t)(i := attempts_of t i + 1)"
    using look e by (simp add: fun_eq_iff attempts_of_find f_def)
qed

interpretation pg: outbox_store pg_storage table_inv table_known table_finished attempts_of
  "\<lambda>at. at \<noteq> INFLIGHT_SENTINEL"
proof (unfold_locales, goal_cases)
  case (1 t n now b t')
  then have c: "table_inv t" "pg_claimBatch n now t = (b, t')" by (simp_all add: pg_storage_def)
  note f = pg_claim_facts[OF c]
  have "oe_id e \<in> table_known t - table_finished t" if "e \<in> set b" for e
    using f(6)[OF that] table_finished_iff[OF c(1)] by (simp add: table_known_def is_final_def)
  with f show ?case by auto
next
  case (2 t at i ok t')
  then show ?case using pg_mark_facts[of t i at ok t'] by (simp add: pg_storage_def)
next
  case (3 t i at)
  have "\<not> (oe_id e = i \<and> (oe_processedAt e = None \<or> oe_processedAt e = Some INFLIGHT_SENTINEL))"
    if "e \<in> set t" for e
    using 3 that table_finished_iff[of t e] by (auto simp: is_final_def)
  then show ?case
    by (auto simp: pg_storage_def pg_markProcessed_def Let_def update_where_none filter_empty_conv)
next
  case (4 t i n t')
  then show ?case using pg_increment_facts[of t i n t'] by (simp add: pg_storage_def)
qed

end
