(* ===== verification/Outbox_Delivery.thy ===== *)
theory Outbox_Delivery
  imports Outbox
begin

text \<open>
  Delivery properties of the outbox: what one tick of the worker does to the table, claims of the
  Postgres storage under arbitrary interleavings of appends, claims, marks, increments and sweeps,
  and retry and progress of the in-memory storage over sequences of ticks.
\<close>

section \<open>Interleavings on the Postgres table\<close>

text \<open>Every statement that any process runs against the table is one event.\<close>

datatype 'p pg_event =
    PAppend "'p outbox_entry"
  | PClaim int millis
  | PIncrement string
  | PMark string millis
  | PReset millis

fun pg_event_step :: "'p outbox_table \<Rightarrow> 'p pg_event \<Rightarrow> 'p outbox_table" where
  "pg_event_step t (PAppend e) = (case pg_append e t of Inl _ \<Rightarrow> t | Inr t' \<Rightarrow> t')"
| "pg_event_step t (PClaim n now) = snd (pg_claimBatch n now t)"
| "pg_event_step t (PIncrement i) = snd (pg_incrementDispatchAttemptCount i t)"
| "pg_event_step t (PMark i at) = snd (pg_markProcessed i at t)"
| "pg_event_step t (PReset now) = snd (resetStaleSentinels now t)"

fun pg_events :: "'p outbox_table \<Rightarrow> 'p pg_event list \<Rightarrow> 'p outbox_table" where
  "pg_events t [] = t"
| "pg_events t (ev # evs) = pg_events (pg_event_step t ev) evs"

lemma table_inv_event: "table_inv t \<Longrightarrow> table_inv (pg_event_step t ev)"
proof (induction t ev rule: pg_event_step.induct)
  case (1 t e)
  then show ?case by (auto simp: pg_append_def table_inv_def)
next
  case (2 t n now)
  then show ?case using pg_claim_facts(1)[of t n now] by (metis pg_event_step.simps(2) prod.collapse)
next
  case (3 t i)
  then show ?case
    by (simp add: pg_incrementDispatchAttemptCount_def Let_def table_inv_update_where)
next
  case (4 t i at)
  then show ?case by (simp add: pg_markProcessed_def Let_def table_inv_update_where)
next
  case (5 t now)
  then show ?case by (simp add: resetStaleSentinels_def Let_def table_inv_update_where)
qed

text \<open>The row \<open>i\<close> is held by the claim made at time \<open>c\<close>: it is not claimable.\<close>

definition held :: "string \<Rightarrow> millis \<Rightarrow> 'p outbox_table \<Rightarrow> bool" where
  "held i c t = (\<exists>e\<in>set t. oe_id e = i \<and> oe_processedAt e \<noteq> None \<and> oe_claimedAt e = Some c)"

fun releases :: "millis \<Rightarrow> 'p pg_event \<Rightarrow> bool" where
  "releases c (PReset now) = (c < now - 5 * 60 * 1000)"
| "releases c _ = False"

lemma held_update_where:
  assumes "held i c t"
    and "\<And>e. oe_id (f e) = oe_id e"
    and "\<And>e. oe_processedAt e \<noteq> None \<Longrightarrow> oe_claimedAt e = Some c \<Longrightarrow> P e \<Longrightarrow>
           oe_processedAt (f e) \<noteq> None \<and> oe_claimedAt (f e) = Some c"
  shows "held i c (update_where P f t)"
proof -
  from assms(1) obtain e where e: "e \<in> set t" "oe_id e = i" "oe_processedAt e \<noteq> None" "oe_claimedAt e = Some c"
    by (auto simp: held_def)
  then have "(if P e then f e else e) \<in> set (update_where P f t)" by (auto simp: set_update_where)
  moreover have "oe_id (if P e then f e else e) = i" "oe_processedAt (if P e then f e else e) \<noteq> None"
      "oe_claimedAt (if P e then f e else e) = Some c"
    using e assms(2,3) by auto
  ultimately show ?thesis unfolding held_def by blast
qed

lemma held_event:
  assumes "held i c t" and "\<not> releases c ev"
  shows "held i c (pg_event_step t ev)"
  using assms
proof (cases ev)
  case (PAppend e)
  then show ?thesis using assms(1) by (auto simp: pg_append_def held_def)
next
  case (PClaim n now)
  then show ?thesis using assms(1)
    by (auto simp: pg_claimBatch_def Let_def intro!: held_update_where)
next
  case (PIncrement j)
  then show ?thesis using assms(1)
    by (auto simp: pg_incrementDispatchAttemptCount_def Let_def intro!: held_update_where)
next
  case (PMark j at)
  then show ?thesis using assms(1)
    by (auto simp: pg_markProcessed_def Let_def intro!: held_update_where)
next
  case (PReset now)
  then show ?thesis using assms
    by (auto simp: resetStaleSentinels_def Let_def intro!: held_update_where)
qed

lemma held_events:
  "held i c t \<Longrightarrow> \<forall>ev\<in>set evs. \<not> releases c ev \<Longrightarrow> held i c (pg_events t evs)"
  by (induction evs arbitrary: t) (auto intro: held_event)

lemma claimed_held:
  assumes "table_inv t" and "pg_claimBatch n c t = (b, t')" and "e \<in> set b"
  shows "held (oe_id e) c t'"
proof -
  have e: "e \<in> set t" "oe_processedAt e = None" using pg_claim_facts(6)[OF assms] by auto
  have "b = pg_select n t" "n > 0"
    using assms(2,3) by (auto simp: pg_claimBatch_def Let_def split: if_splits)
  then have "t' = update_where (\<lambda>x. oe_id x \<in> oe_id ` set b \<and> oe_processedAt x = None)
      (\<lambda>x. x\<lparr>oe_processedAt := Some INFLIGHT_SENTINEL, oe_claimedAt := Some c\<rparr>) t"
    using assms(2,3) by (auto simp: pg_claimBatch_def Let_def)
  then have "e\<lparr>oe_processedAt := Some INFLIGHT_SENTINEL, oe_claimedAt := Some c\<rparr> \<in> set t'"
    using e assms(3) by (auto simp: set_update_where image_iff intro!: bexI[of _ e])
  then show ?thesis unfolding held_def by (rule bexI[rotated]) simp
qed

lemma held_not_claimed:
  assumes "table_inv t" and "held i c t" and "pg_claimBatch n now t = (b, t')"
  shows "i \<notin> oe_id ` set b"
proof
  assume "i \<in> oe_id ` set b"
  then obtain e where "e \<in> set t" "oe_processedAt e = None" "oe_id e = i"
    using pg_claim_facts(6)[OF assms(1,3)] by auto
  moreover obtain x where "x \<in> set t" "oe_processedAt x \<noteq> None" "oe_id x = i"
    using assms(2) by (auto simp: held_def)
  ultimately show False using table_row_unique[OF assms(1), of e x] by simp
qed

lemma table_inv_events: "table_inv t \<Longrightarrow> table_inv (pg_events t evs)"
  by (induction evs arbitrary: t) (auto intro: table_inv_event)

text \<open>C29: Under any interleaving of appends, claims, increments, marks and sweeps by any number of
  processes, an entry that a claim at time \<open>c1\<close> handed out is handed out again only after a
  stale-sentinel sweep that ran more than five minutes after \<open>c1\<close>.\<close>

theorem pg_claim_exclusive:
  assumes "table_inv t"
    and "pg_claimBatch n c1 t = (b1, t1)" and "e1 \<in> set b1"
    and "pg_claimBatch m c2 (pg_events t1 evs) = (b2, t2)" and "e2 \<in> set b2"
    and "oe_id e1 = oe_id e2"
  shows "\<exists>now. PReset now \<in> set evs \<and> c1 + 5 * 60 * 1000 < now"
proof (rule ccontr)
  assume none: "\<not> ?thesis"
  have "\<not> releases c1 ev" if "ev \<in> set evs" for ev
    using none that by (cases ev) auto
  moreover have "held (oe_id e1) c1 t1" by (rule claimed_held[OF assms(1-3)])
  ultimately have "held (oe_id e1) c1 (pg_events t1 evs)" by (auto intro: held_events)
  moreover have "table_inv (pg_events t1 evs)"
    using pg_claim_facts(1)[OF assms(1,2)] by (rule table_inv_events)
  ultimately have "oe_id e1 \<notin> oe_id ` set b2" using assms(4) by (blast dest: held_not_claimed)
  with assms(5,6) show False by auto
qed

section \<open>One tick over the Postgres table\<close>

text \<open>C31: One tick of the worker over the Postgres table, for every pattern of rejected storage calls after the claim:
  it works through the claimed entries in claim order and stops early exactly when a call rejected; each entry it
  gets to is either dead-lettered without a dispatcher call (its attempt count passed the cap) or handed to every
  dispatcher, with the recorded answers; it becomes finished exactly when it was dead-lettered or all dispatchers
  resolved for it, and that mark took effect; every other entry keeps its state; an attempt is counted for each entry
  reached; and the two counts of a tick that ends regularly are the numbers of such entries.\<close>

theorem pg_runOnce_effect:
  assumes "table_inv t"
    and "batchAt \<noteq> INFLIGHT_SENTINEL" and "\<And>i. doneAt i \<noteq> INFLIGHT_SENTINEL" and "iof_claim f = Resolves"
    and "pg_claimBatch (batchSize opts) claimAt t = (batch, t1)"
    and "runOnce pg_storage ds opts claimAt batchAt doneAt f t = (r, os, t')"
  shows "table_inv t' \<and> map fst os = take (length os) (map oe_id batch) \<and>
    (r \<noteq> None \<longrightarrow> length os = length batch) \<and>
    (r = None) = (\<exists>(i, out)\<in>set os. iof_increment f i \<noteq> Resolves \<or> (marks_processed out \<and> iof_mark f i \<noteq> Resolves)) \<and>
    table_finished t' = table_finished t \<union> {i. \<exists>out. (i, out) \<in> set os \<and> marks_processed out \<and> happened (iof_mark f i)} \<and>
    attempts_of t' = (\<lambda>i. attempts_of t i + (if i \<in> fst ` set os \<and> happened (iof_increment f i) then 1 else 0)) \<and>
    (\<forall>(i, out)\<in>set os. iof_increment f i = Resolves \<longrightarrow>
       (if exceeds (maxAttempts opts) (attempts_of t i + 1) then out = DeadLettered
        else \<exists>e\<in>set batch. oe_id e = i \<and> out = Dispatched (map (\<lambda>d. od_dispatch d e) ds))) \<and>
    (\<forall>w. r = Some w \<longrightarrow> wr_deadLettered w = length (filter (\<lambda>p. snd p = DeadLettered) os) \<and>
       wr_processed w = length (filter (\<lambda>p. snd p \<noteq> DeadLettered \<and> marks_processed (snd p)) os))"
proof -
  have "pg.loop_effect ds (maxAttempts opts) f batch t r os t'"
    by (rule pg.runOnce_effect[OF assms(1-4) _ assms(6)]) (use assms(5) in \<open>simp add: pg_storage_def\<close>)
  note e = this[unfolded pg.loop_effect_def]
  have o: "pg.outcome_ok ds (maxAttempts opts) f batch t p" if "p \<in> set os" for p using e that by blast
  have entry: "st_entry pg_storage s1 e = e" for s1 and e :: "'a outbox_entry" by (simp add: pg_storage_def pg_entry_def)
  have "if exceeds (maxAttempts opts) (attempts_of t i + 1) then out = DeadLettered
      else \<exists>e\<in>set batch. oe_id e = i \<and> out = Dispatched (map (\<lambda>d. od_dispatch d e) ds)"
    if "(i, out) \<in> set os" "iof_increment f i = Resolves" for i out
    using o[OF that(1)] that(2) by (cases out) (auto simp: pg.outcome_ok_def entry)
  moreover have "call_rejected f (i, out) \<longleftrightarrow> iof_increment f i \<noteq> Resolves \<or> (marks_processed out \<and> iof_mark f i \<noteq> Resolves)"
    if "(i, out) \<in> set os" for i out
    using o[OF that] by (auto simp: pg.outcome_ok_def call_rejected_def)
  then have "(\<exists>p\<in>set os. call_rejected f p) = (\<exists>(i, out)\<in>set os. iof_increment f i \<noteq> Resolves \<or> (marks_processed out \<and> iof_mark f i \<noteq> Resolves))"
    by fastforce
  ultimately show ?thesis using e by fast
qed

section \<open>Ticks of the lifecycle\<close>

text \<open>The \<open>setInterval\<close> of \<open>OutboxWorkerLifecycle\<close>: a sequence of ticks, each with its own
  dispatcher behaviour and clock readings.\<close>

record 'p tick =
  tk_dispatchers :: "'p outbox_dispatcher list"
  tk_claimAt :: millis
  tk_batchAt :: millis
  tk_doneAt :: "string \<Rightarrow> millis"
  tk_faults :: io_faults

fun run_ticks ::
  "('s, 'p) outbox_storage \<Rightarrow> worker_options \<Rightarrow> 'p tick list \<Rightarrow> 's
     \<Rightarrow> (string \<times> entry_outcome) list \<times> 's" where
  "run_ticks ops opts [] s = ([], s)"
| "run_ticks ops opts (k # ks) s =
     (let (r, os, s1) = runOnce ops (tk_dispatchers k) opts (tk_claimAt k) (tk_batchAt k) (tk_doneAt k) (tk_faults k) s;
          (os', s') = run_ticks ops opts ks s1
      in (os @ os', s'))"

lemma worker_loop_preserves:
  assumes "\<And>i s. Q s \<Longrightarrow> Q (snd (st_incrementDispatchAttemptCount ops i s))"
    and "\<And>i at s. Q s \<Longrightarrow> Q (snd (st_markProcessed ops i at s))"
  shows "Q s \<Longrightarrow> Q (snd (snd (worker_loop ops ds cap batchAt doneAt f es s)))"
  by (induction es arbitrary: s) (simp_all add: Let_def case_prod_beta assms split: storage_call.split)

lemma worker_loop_ids:
  "p \<in> set (fst (snd (worker_loop ops ds cap batchAt doneAt f es s))) \<Longrightarrow> fst p \<in> oe_id ` set es"
proof (induction es arbitrary: s)
  case (Cons e es)
  obtain n s1 where inc: "st_incrementDispatchAttemptCount ops (oe_id e) s = (n, s1)" by fastforce
  have "fst p = oe_id e \<or> (\<exists>s2. p \<in> set (fst (snd (worker_loop ops ds cap batchAt doneAt f es s2))))"
    using Cons.prems by (auto simp: inc Let_def case_prod_beta split: storage_call.splits if_splits)
  then show ?case using Cons.IH by auto
qed simp

lemma runOnce_ids:
  assumes "runOnce ops ds opts claimAt batchAt doneAt f s = (r, os, s')" "p \<in> set os"
  shows "iof_claim f = Resolves" "fst p \<in> oe_id ` set (fst (st_claimBatch ops (batchSize opts) claimAt s))"
proof -
  obtain b s1 where c: "st_claimBatch ops (batchSize opts) claimAt s = (b, s1)" by fastforce
  show r: "iof_claim f = Resolves" using assms c by (auto simp: runOnce_def split: storage_call.splits)
  have "p \<in> set (fst (snd (worker_loop ops ds (maxAttempts opts) batchAt doneAt f b s1)))"
    using assms c r by (auto simp: runOnce_def split: if_splits)
  from worker_loop_ids[OF this] show "fst p \<in> oe_id ` set (fst (st_claimBatch ops (batchSize opts) claimAt s))" by (simp add: c)
qed

lemma runOnce_preserves:
  assumes "Q (snd (st_claimBatch ops (batchSize opts) claimAt s))" and "iof_claim f = Resolves \<or> Q s"
    and "\<And>i s. Q s \<Longrightarrow> Q (snd (st_incrementDispatchAttemptCount ops i s))"
    and "\<And>i at s. Q s \<Longrightarrow> Q (snd (st_markProcessed ops i at s))"
  shows "Q (snd (snd (runOnce ops ds opts claimAt batchAt doneAt f s)))"
  using assms(1,2)
  by (auto simp: runOnce_def Let_def case_prod_beta worker_loop_preserves[where Q = Q, OF assms(3,4)] split: storage_call.split)

text \<open>A row held by a claim stays held through whole ticks, and no tick attempts it.\<close>

lemma held_loop_step:
  "table_inv t \<and> held i c t \<Longrightarrow>
     table_inv (snd (st_incrementDispatchAttemptCount pg_storage j t)) \<and>
     held i c (snd (st_incrementDispatchAttemptCount pg_storage j t))"
  "table_inv t \<and> held i c t \<Longrightarrow>
     table_inv (snd (st_markProcessed pg_storage j at t)) \<and> held i c (snd (st_markProcessed pg_storage j at t))"
  using table_inv_event[of t "PIncrement j"] held_event[of i c t "PIncrement j"]
    table_inv_event[of t "PMark j at"] held_event[of i c t "PMark j at"]
  by (simp_all add: pg_storage_def)

lemma held_claim_step:
  "table_inv t \<and> held i c t \<Longrightarrow>
     table_inv (snd (st_claimBatch pg_storage n now t)) \<and> held i c (snd (st_claimBatch pg_storage n now t))"
  using table_inv_event[of t "PClaim n now"] held_event[of i c t "PClaim n now"]
  by (simp add: pg_storage_def)

lemma held_runOnce:
  assumes "table_inv tc \<and> held i c tc" and "st_claimBatch pg_storage (batchSize opts) claimAt t = (b, tc)"
    and "iof_claim f = Resolves \<or> table_inv t \<and> held i c t"
    and "runOnce pg_storage ds opts claimAt batchAt doneAt f t = (r, os, t')"
  shows "table_inv t' \<and> held i c t'"
  using runOnce_preserves[where Q = "\<lambda>t. table_inv t \<and> held i c t" and ops = pg_storage and s = t
      and ds = ds and opts = opts and claimAt = claimAt and batchAt = batchAt and doneAt = doneAt and f = f,
      OF _ _ held_loop_step] assms by simp

lemma held_tick:
  assumes "table_inv t \<and> held i c t"
    and "runOnce pg_storage ds opts claimAt batchAt doneAt f t = (r, os, t')"
  shows "table_inv t' \<and> held i c t'" and "i \<notin> fst ` set os"
proof -
  show "table_inv t' \<and> held i c t'"
    using held_claim_step[OF assms(1), of "batchSize opts" claimAt] assms
    by (metis held_runOnce prod.collapse)
  have "fst ` set os \<subseteq> oe_id ` set (fst (pg_claimBatch (batchSize opts) claimAt t))"
    using runOnce_ids(2)[OF assms(2)] by (auto simp: pg_storage_def)
  then show "i \<notin> fst ` set os"
    using held_not_claimed[of t i c, OF _ _ prod.collapse[symmetric], of "batchSize opts" claimAt] assms(1) by blast
qed

lemma held_ticks:
  assumes "table_inv t \<and> held i c t" and "run_ticks pg_storage opts ks t = (os, t')"
  shows "i \<notin> fst ` set os"
  using assms
proof (induction ks arbitrary: t os t')
  case (Cons k ks)
  obtain r os1 t1 where one: "runOnce pg_storage (tk_dispatchers k) opts (tk_claimAt k) (tk_batchAt k)
      (tk_doneAt k) (tk_faults k) t = (r, os1, t1)" by (metis prod_cases3)
  obtain os2 t2 where rest: "run_ticks pg_storage opts ks t1 = (os2, t2)" by fastforce
  have "os = os1 @ os2" using Cons.prems(2) one rest by simp
  then show ?case
    using held_tick[OF Cons.prems(1) one] Cons.IH[OF _ rest] by auto
qed simp

text \<open>C34: With the Postgres storage an entry is handed to the dispatchers by at most one tick between
  two stale-sentinel sweeps: once a tick attempted it, no later tick attempts it, whether or not
  its dispatchers succeeded.  (The worker's comment promises a retry on the next tick; the sweep runs
  only at start-up.)\<close>

theorem pg_failed_entry_not_retried:
  assumes "table_inv t"
    and "runOnce pg_storage ds opts claimAt batchAt doneAt f t = (r, os, t1)"
    and "(i, out) \<in> set os"
    and "run_ticks pg_storage opts ks t1 = (os', t2)"
  shows "i \<notin> fst ` set os'"
proof -
  obtain b tc where cl: "pg_claimBatch (batchSize opts) claimAt t = (b, tc)" by fastforce
  have "i \<in> oe_id ` set b" using runOnce_ids(2)[OF assms(2,3)] cl by (simp add: pg_storage_def)
  then have "table_inv tc \<and> held i claimAt tc"
    using claimed_held[OF assms(1) cl] pg_claim_facts(1)[OF assms(1) cl] by auto
  moreover have "iof_claim f = Resolves" by (rule runOnce_ids(1)[OF assms(2,3)])
  ultimately have "table_inv t1 \<and> held i claimAt t1"
    using held_runOnce[OF _ _ _ assms(2)] cl by (simp add: pg_storage_def)
  then show ?thesis using assms(4) by (rule held_ticks)
qed

section \<open>Retry and progress of the in-memory storage\<close>

text \<open>The ids still waiting, in queue order.\<close>

definition waiting :: "'p memory_outbox \<Rightarrow> string list" where
  "waiting s = filter (\<lambda>i. i \<notin> set (mo_processed s)) (map oe_id (mo_entries s))"

lemma mem_claim_ids: "map oe_id (fst (mem_claimBatch n t s)) = slice0 n (waiting s)"
proof -
  have "map oe_id (filter (\<lambda>e. oe_id e \<notin> set (mo_processed s)) (mo_entries s)) = waiting s"
    by (simp add: waiting_def filter_map o_def)
  then show ?thesis
    by (simp add: mem_claimBatch_def Let_def o_def) (simp add: map_slice0)
qed

lemma take_filter_mono:
  "x \<in> set (take n (filter P xs)) \<Longrightarrow> (\<And>y. Q y \<Longrightarrow> P y) \<Longrightarrow> Q x \<Longrightarrow> x \<in> set (take n (filter Q xs))"
proof (induction xs arbitrary: n)
  case (Cons y ys)
  show ?case
  proof (cases n)
    case (Suc m)
    with Cons show ?thesis
      by (cases "P y"; cases "Q y") (auto dest: in_set_takeD intro: Cons.IH[of "Suc m"] simp: take_Suc_Cons less_imp_le
          elim!: subsetD[OF set_take_subset_set_take, rotated])
  qed (use Cons.prems in simp)
qed simp

lemma mem_entry_id: "oe_id (st_entry memory_storage s e) = oe_id e"
  by (auto simp: memory_storage_def mem_entry_def nullish_def split: option.split dest: find_first_Some)

lemma no_faults_simps [simp]:
  "iof_claim no_faults = Resolves" "iof_increment no_faults i = Resolves" "iof_mark no_faults i = Resolves"
  by (simp_all add: no_faults_def)

text \<open>The in-memory storage never rejects a call.\<close>

lemma mem_tick_effect:
  assumes "memory_inv s" and "runOnce memory_storage ds opts claimAt batchAt doneAt no_faults s = (r, os, s')"
  shows "memory_inv s'" and "map fst os = slice0 (batchSize opts) (waiting s)"
    and "set (mo_processed s') = set (mo_processed s) \<union> {i. \<exists>out. (i, out) \<in> set os \<and> marks_processed out}"
    and "attempts_of (mo_entries s') = (\<lambda>i. attempts_of (mo_entries s) i + (if i \<in> fst ` set os then 1 else 0))"
    and "\<forall>(i, out)\<in>set os. (out = DeadLettered) = exceeds (maxAttempts opts) (attempts_of (mo_entries s) i + 1)"
    and "map oe_id (mo_entries s') = map oe_id (mo_entries s)"
    and "\<forall>(i, out)\<in>set os. out \<noteq> DeadLettered \<longrightarrow> (\<exists>e. oe_id e = i \<and> out = Dispatched (map (\<lambda>d. od_dispatch d e) ds))"
proof -
  obtain batch s1 where cl: "mem_claimBatch (batchSize opts) claimAt s = (batch, s1)" by fastforce
  have ids: "map oe_id batch = slice0 (batchSize opts) (waiting s)"
    using mem_claim_ids[of "batchSize opts" claimAt s] cl by simp
  have eff: "mem.loop_effect ds (maxAttempts opts) no_faults batch s r os s'"
    by (rule mem.runOnce_effect[OF assms(1) _ _ _ _ assms(2)]) (use cl in \<open>simp_all add: memory_storage_def\<close>)
  have o: "mem.outcome_ok ds (maxAttempts opts) no_faults batch s p" if "p \<in> set os" for p
    using eff that unfolding mem.loop_effect_def by blast
  then have n: "snd p \<noteq> Uncounted" if "p \<in> set os" for p using that by (simp add: mem.outcome_ok_def)
  then have "length os = length batch"
    using eff unfolding mem.loop_effect_def by (metis call_rejected_def no_faults_simps(3))
  then have os: "map fst os = map oe_id batch" using eff unfolding mem.loop_effect_def by simp
  then have fst_os: "fst ` set os = oe_id ` set batch" by (metis list.set_map)
  show "memory_inv s'" "map fst os = slice0 (batchSize opts) (waiting s)"
    "set (mo_processed s') = set (mo_processed s) \<union> {i. \<exists>out. (i, out) \<in> set os \<and> marks_processed out}"
    "attempts_of (mo_entries s') = (\<lambda>i. attempts_of (mo_entries s) i + (if i \<in> fst ` set os then 1 else 0))"
    using eff unfolding mem.loop_effect_def by (simp_all add: ids os)
  show "\<forall>(i, out)\<in>set os. (out = DeadLettered) = exceeds (maxAttempts opts) (attempts_of (mo_entries s) i + 1)"
    using o n by (fastforce simp: mem.outcome_ok_def)
  have "\<exists>e. oe_id e = i \<and> out = Dispatched (map (\<lambda>d. od_dispatch d e) ds)" if io: "(i, out) \<in> set os" "out \<noteq> DeadLettered" for i out
  proof -
    obtain rs where rs: "out = Dispatched rs" using n[OF io(1)] io(2) by (cases out) auto
    with o[OF io(1)] obtain e s1 where "oe_id e = i" "rs = map (\<lambda>d. od_dispatch d (st_entry memory_storage s1 e)) ds"
      by (auto simp: mem.outcome_ok_def)
    with rs mem_entry_id[of s1 e] show ?thesis by blast
  qed
  then show "\<forall>(i, out)\<in>set os. out \<noteq> DeadLettered \<longrightarrow> (\<exists>e. oe_id e = i \<and> out = Dispatched (map (\<lambda>d. od_dispatch d e) ds))"
    by blast
  have "map oe_id (mo_entries s1) = map oe_id (mo_entries s)" by (rule mem_claim_facts(1)[OF assms(1) cl])
  then show "map oe_id (mo_entries s') = map oe_id (mo_entries s)"
    using runOnce_preserves[where Q = "\<lambda>s'. map oe_id (mo_entries s') = map oe_id (mo_entries s)"
        and ops = memory_storage and s = s and ds = ds and opts = opts and claimAt = claimAt
        and batchAt = batchAt and doneAt = doneAt and f = no_faults] assms(2) cl
    by (simp add: memory_storage_def mem_incrementDispatchAttemptCount_def mem_markProcessed_def
        map_bump_first split: option.splits)
qed

lemma mem_tick_once:
  assumes "memory_inv s" and "runOnce memory_storage ds opts claimAt batchAt doneAt no_faults s = (r, os, s')"
  shows "distinct (map fst os)"
  using assms(1) mem_tick_effect(2)[OF assms] by (simp add: slice0_def waiting_def memory_inv_def distinct_take)

lemma mem_retried:
  assumes "memory_inv s" and "runOnce memory_storage ds opts claimAt batchAt doneAt no_faults s = (r, os, s')"
    and "0 \<le> batchSize opts" and "i \<in> fst ` set os" and "i \<notin> set (mo_processed s')"
  shows "i \<in> set (slice0 (batchSize opts) (waiting s'))"
proof -
  note eff = mem_tick_effect[OF assms(1,2)]
  have "i \<in> set (slice0 (batchSize opts) (waiting s))"
    using eff(2) assms(4) by (metis list.set_map)
  then have "i \<in> set (take (nat (batchSize opts)) (filter (\<lambda>i. i \<notin> set (mo_processed s)) (map oe_id (mo_entries s'))))"
    using assms(3) eff(6) by (simp add: slice0_def waiting_def)
  then show ?thesis
    using assms(3,5) eff(3) by (auto simp: slice0_def waiting_def elim!: take_filter_mono)
qed

text \<open>C38: With the in-memory storage an entry whose dispatch failed is taken up by the very next tick.  While attempts
  are left (always, without a cap) it is handed to every dispatcher again, and after that tick it is processed if all
  of them resolved and is otherwise among the entries the following tick claims.  When its attempts passed the cap
  it is dead-lettered without a dispatcher being called.\<close>

theorem mem_failed_entry_retried:
  assumes "memory_inv s" and "0 \<le> batchSize opts"
    and "runOnce memory_storage ds opts c1 b1 d1 no_faults s = (r1, os1, s1)"
    and "(i, Dispatched rs) \<in> set os1" and "\<not> marks_processed (Dispatched rs)"
    and "runOnce memory_storage ds' opts c2 b2 d2 no_faults s1 = (r2, os2, s2)"
  shows "if exceeds (maxAttempts opts) (attempts_of (mo_entries s) i + 2)
    then (i, DeadLettered) \<in> set os2 \<and> i \<in> set (mo_processed s2)
    else \<exists>e. oe_id e = i \<and> (i, Dispatched (map (\<lambda>d. od_dispatch d e) ds')) \<in> set os2 \<and>
      (if \<forall>d\<in>set ds'. od_dispatch d e then i \<in> set (mo_processed s2)
       else i \<notin> set (mo_processed s2) \<and> i \<in> set (slice0 (batchSize opts) (waiting s2)))"
proof -
  note e1 = mem_tick_effect[OF assms(1,3)] and e2 = mem_tick_effect[OF _ assms(6)]
  have i: "i \<in> fst ` set os1" using assms(4) by force
  have "i \<in> set (slice0 (batchSize opts) (waiting s))" using i e1(2) by (metis list.set_map)
  then have "i \<in> set (waiting s)" by (rule subsetD[OF set_slice0])
  then have "i \<notin> set (mo_processed s)" by (simp add: waiting_def)
  moreover have "\<not> marks_processed out" if "(i, out) \<in> set os1" for out
    using eq_key_imp_eq_value[OF mem_tick_once[OF assms(1,3)] that assms(4)] assms(5) by simp
  ultimately have p1: "i \<notin> set (mo_processed s1)" using e1(3) by auto
  then have "i \<in> set (slice0 (batchSize opts) (waiting s1))"
    by (rule mem_retried[OF assms(1,3,2) i])
  then have i2: "i \<in> fst ` set os2" using e2(2)[OF e1(1)] by (metis list.set_map)
  then obtain out where out: "(i, out) \<in> set os2" by force
  have once: "out' = out" if "(i, out') \<in> set os2" for out'
    using eq_key_imp_eq_value[OF mem_tick_once[OF e1(1) assms(6)] that out] .
  then have p2: "i \<in> set (mo_processed s2) \<longleftrightarrow> marks_processed out" using e2(3)[OF e1(1)] p1 out by blast
  have dead: "(out = DeadLettered) = exceeds (maxAttempts opts) (attempts_of (mo_entries s) i + 2)"
    using bspec[OF e2(5)[OF e1(1)] out] e1(4) i by (simp add: add.assoc)
  show ?thesis
  proof (cases "out = DeadLettered")
    case True
    with dead out p2 show ?thesis by simp
  next
    case False
    with e2(7)[OF e1(1)] out obtain e where e: "oe_id e = i" "out = Dispatched (map (\<lambda>d. od_dispatch d e) ds')" by blast
    have "marks_processed out \<longleftrightarrow> (\<forall>d\<in>set ds'. od_dispatch d e)" by (simp add: e(2) list_all_iff)
    with False dead out p2 e mem_retried[OF e1(1) assms(6,2) i2] show ?thesis by auto
  qed
qed

lemma mem_processed_ticks:
  "memory_inv s \<Longrightarrow> i \<in> set (mo_processed s) \<Longrightarrow> run_ticks memory_storage opts ks s = (os, s') \<Longrightarrow>
   \<forall>k\<in>set ks. tk_faults k = no_faults \<Longrightarrow> i \<in> set (mo_processed s')"
proof (induction ks arbitrary: s os)
  case (Cons k ks)
  obtain r os1 s1 where one: "runOnce memory_storage (tk_dispatchers k) opts (tk_claimAt k) (tk_batchAt k)
      (tk_doneAt k) no_faults s = (r, os1, s1)" by (metis prod_cases3)
  obtain os2 s2 where rest: "run_ticks memory_storage opts ks s1 = (os2, s2)" by fastforce
  have "s2 = s'" using Cons.prems(3,4) one rest by simp
  with Cons.IH[OF _ _ rest[unfolded \<open>s2 = s'\<close>]] Cons.prems(4) mem_tick_effect(1,3)[OF Cons.prems(1) one] Cons.prems(2) show ?case by auto
qed simp

text \<open>With a retry cap \<open>m\<close> the in-memory worker makes progress whatever the dispatchers do: an entry
  among the first \<open>batchSize\<close> waiting ones leaves the queue (delivered or dead-lettered) after any
  non-empty sequence of ticks long enough for its attempts to pass \<open>m\<close>; \<open>m + 1\<close> ticks suffice.\<close>

theorem mem_cap_progress:
  assumes "memory_inv s" and "0 \<le> batchSize opts" and "maxAttempts opts = Some m"
    and "i \<in> set (slice0 (batchSize opts) (waiting s))"
    and "ks \<noteq> []" and "m < attempts_of (mo_entries s) i + int (length ks)"
    and "run_ticks memory_storage opts ks s = (os, s')" and "\<forall>k\<in>set ks. tk_faults k = no_faults"
  shows "i \<in> set (mo_processed s')"
  using assms(1,4-8)
proof (induction ks arbitrary: s os)
  case (Cons k ks)
  obtain r os1 s1 where one: "runOnce memory_storage (tk_dispatchers k) opts (tk_claimAt k) (tk_batchAt k)
      (tk_doneAt k) no_faults s = (r, os1, s1)" by (metis prod_cases3)
  obtain os2 s2 where rest: "run_ticks memory_storage opts ks s1 = (os2, s2)" by fastforce
  have s2: "s2 = s'" using Cons.prems(5,6) one rest by simp
  note eff = mem_tick_effect[OF Cons.prems(1) one]
  have i: "i \<in> fst ` set os1" using Cons.prems(2) eff(2) by (metis list.set_map)
  show ?case
  proof (cases "i \<in> set (mo_processed s1)")
    case True
    then show ?thesis using mem_processed_ticks[OF eff(1) _ rest] Cons.prems(6) s2 by simp
  next
    case False
    from i obtain out where out: "(i, out) \<in> set os1" by force
    with False eff(3) have "out \<noteq> DeadLettered" by auto
    with out eff(5) have "attempts_of (mo_entries s) i + 1 \<le> m" by (auto simp: exceeds_def assms(3))
    with Cons.prems(4) eff(4) i have "ks \<noteq> []" "m < attempts_of (mo_entries s1) i + int (length ks)"
      by auto
    with Cons.IH[OF eff(1) mem_retried[OF Cons.prems(1) one assms(2) i False] _ _ rest[unfolded s2]] Cons.prems(6)
    show ?thesis by simp
  qed
qed simp

section \<open>Head-of-line blocking without a cap\<close>

text \<open>Without a cap (the options \<open>OutboxWorkerLifecycle\<close> passes) the in-memory queue is
  blocked by its head: if every tick some dispatcher rejects each of the first \<open>batchSize\<close> waiting
  entries, no number of ticks attempts any entry behind them, and the queue never changes.\<close>

theorem mem_uncapped_starvation:
  assumes "memory_inv s" and "maxAttempts opts = None" and "batchSize opts = int (length xs)"
    and "waiting s = xs @ ys"
    and "\<forall>k\<in>set ks. \<forall>e. oe_id e \<in> set xs \<longrightarrow> (\<exists>d\<in>set (tk_dispatchers k). \<not> od_dispatch d e)"
    and "run_ticks memory_storage opts ks s = (os, s')" and "\<forall>k\<in>set ks. tk_faults k = no_faults"
  shows "waiting s' = xs @ ys \<and> fst ` set os \<inter> set ys = {}"
  using assms(1,4-7)
proof (induction ks arbitrary: s os)
  case (Cons k ks)
  obtain r os1 s1 where one: "runOnce memory_storage (tk_dispatchers k) opts (tk_claimAt k) (tk_batchAt k)
      (tk_doneAt k) no_faults s = (r, os1, s1)" by (metis prod_cases3)
  obtain os2 s2 where rest: "run_ticks memory_storage opts ks s1 = (os2, s2)" by fastforce
  have os: "os = os1 @ os2" "s2 = s'" using Cons.prems(4,5) one rest by simp_all
  note eff = mem_tick_effect[OF Cons.prems(1) one]
  have ids: "fst ` set os1 = set xs"
    using eff(2) Cons.prems(2) assms(3) by (simp add: slice0_def) (metis list.set_map)
  have "\<not> marks_processed out" if io: "(i, out) \<in> set os1" for i out
  proof -
    have "out \<noteq> DeadLettered" using eff(5) io by (auto simp: exceeds_def assms(2))
    with eff(7) io obtain e where "oe_id e = i" "out = Dispatched (map (\<lambda>d. od_dispatch d e) (tk_dispatchers k))" by blast
    moreover have "i \<in> set xs" using io ids by force
    ultimately show ?thesis using Cons.prems(3) by (auto simp: list_all_iff)
  qed
  then have "set (mo_processed s1) = set (mo_processed s)" using eff(3) by auto
  then have w: "waiting s1 = xs @ ys" using Cons.prems(2) eff(6) by (simp add: waiting_def)
  have "distinct (xs @ ys)"
    using Cons.prems(1,2) by (metis distinct_filter memory_inv_def waiting_def)
  then have "set xs \<inter> set ys = {}" by simp
  moreover have "waiting s' = xs @ ys \<and> fst ` set os2 \<inter> set ys = {}"
    using Cons.IH[OF eff(1) w _ rest[unfolded os(2)]] Cons.prems(3,5) by simp
  ultimately show ?case using os ids by (auto simp: image_Un)
qed simp

section \<open>Sequence numbers across restarts\<close>

definition fresh_seq :: "outbox_recorder \<Rightarrow> 'p outbox_table \<Rightarrow> bool" where
  "fresh_seq r t = (\<forall>e\<in>set t. oe_seq e < nextSeq r)"

lemma maxSeq_ge: "e \<in> set t \<Longrightarrow> oe_seq e \<le> maxSeq t"
proof (cases t)
  case (Cons x xs)
  have "oe_seq x \<le> foldr (\<lambda>x m. max (oe_seq x) m) xs (oe_seq x) \<and>
      (\<forall>y\<in>set xs. oe_seq y \<le> foldr (\<lambda>x m. max (oe_seq x) m) xs (oe_seq x))" for x :: "'a outbox_entry" and xs
    by (induction xs) (auto simp: le_max_iff_disj)
  moreover assume "e \<in> set t"
  ultimately show ?thesis using Cons by (auto simp: maxSeq_def)
qed simp

text \<open>After the start-up sequence (sweep, then seeding from \<open>MAX(seq)\<close>) every sequence number in
  the table is below the recorder's next one; recording an entry keeps that, so the new entry's
  number is strictly larger than that of every entry recorded before it, across restarts.\<close>

theorem seq_fresh_across_restart:
  assumes "onModuleInit True True now r t = (r1, t1)"
    and "record_entry pg_storage uuid at input r1 t1 = (Inr e, r2, t2)"
  shows "fresh_seq r1 t1 \<and> fresh_seq r2 t2 \<and> (\<forall>x\<in>set t1. oe_seq x < oe_seq e) \<and>
    map oe_seq t1 = map oe_seq t"
proof -
  have t1: "t1 = snd (resetStaleSentinels now t)" and r1: "r1 = initSeq (maxSeq t1 + 1) r"
    using assms(1) by (auto simp: onModuleInit_def Let_def)
  have "map oe_seq t1 = map oe_seq t"
    by (simp add: t1 resetStaleSentinels_def Let_def map_update_where_frame)
  moreover have f1: "fresh_seq r1 t1"
    by (auto simp: fresh_seq_def r1 initSeq_def dest: maxSeq_ge)
  moreover have "oe_seq e = nextSeq r1" "r2 = r1\<lparr>nextSeq := nextSeq r1 + 1\<rparr>"
      "t2 = t1 @ [e\<lparr>oe_dispatchAttemptCount := Some 0\<rparr>]"
    using assms(2)
    by (auto simp: record_entry_def Let_def pg_storage_def pg_append_def split: if_splits)
  ultimately show ?thesis by (auto simp: fresh_seq_def)
qed

section \<open>The properties at concrete tables and queues\<close>

definition sample_entry :: "string \<Rightarrow> int \<Rightarrow> nat outbox_entry" where
  "sample_entry i n = \<lparr>oe_id = i, oe_seq = n, oe_tenantId = ''t'', oe_type = ''user.created'',
     oe_payload = 0, oe_occurredAt = 0, oe_processedAt = None, oe_claimedAt = None,
     oe_dispatchAttemptCount = Some 0\<rparr>"

definition sample_table :: "nat outbox_table" where
  "sample_table = [sample_entry ''a'' 1, sample_entry ''b'' 2]"

definition failing :: "nat outbox_dispatcher" where
  "failing = \<lparr>od_name = ''down'', od_dispatch = (\<lambda>_. False)\<rparr>"

definition sample_memory :: "nat memory_outbox" where
  "sample_memory = \<lparr>mo_entries = sample_table, mo_processed = []\<rparr>"

definition sample_tick :: "nat tick" where
  "sample_tick = \<lparr>tk_dispatchers = [failing], tk_claimAt = 0, tk_batchAt = 1, tk_doneAt = (\<lambda>_. 2), tk_faults = no_faults\<rparr>"

theorem pg_claim_exclusive_witness:
  "\<exists>now. PReset now \<in> set [PReset 300001 :: nat pg_event] \<and> (0::millis) + 5 * 60 * 1000 < now"
  by (rule pg_claim_exclusive[of sample_table 1 0 _ _ "sample_entry ''a'' 1" 1 300002
        "[PReset 300001]" _ _ "(sample_entry ''a'' 1)\<lparr>oe_claimedAt := Some 0\<rparr>",
        OF _ prod.collapse[symmetric] _ prod.collapse[symmetric]]; code_simp)

text \<open>The second entry's mark is lost: the tick rejects after handing both entries to the dispatcher.\<close>

definition lost_mark :: io_faults where
  "lost_mark = \<lparr>iof_claim = Resolves, iof_increment = (\<lambda>_. Resolves),
     iof_mark = (\<lambda>i. if i = ''b'' then Rejects False else Resolves)\<rparr>"

definition accepting :: "nat outbox_dispatcher" where
  "accepting = \<lparr>od_name = ''up'', od_dispatch = (\<lambda>_. True)\<rparr>"

theorem pg_runOnce_effect_witness:
  "fst (runOnce pg_storage [accepting] lifecycle_options 0 1 (\<lambda>_. 2) lost_mark sample_table) = None \<and>
   table_finished (snd (snd (runOnce pg_storage [accepting] lifecycle_options 0 1 (\<lambda>_. 2) lost_mark sample_table))) = {''a''}"
proof -
  let ?run = "runOnce pg_storage [accepting] lifecycle_options 0 1 (\<lambda>_. 2) lost_mark sample_table"
  have os: "fst (snd ?run) = [(''a'', Dispatched [True]), (''b'', Dispatched [True])]" by code_simp
  have e: "table_inv sample_table" "iof_claim lost_mark = Resolves" "table_finished sample_table = {}" by code_simp+
  have "(fst ?run = None) = (\<exists>(i, out)\<in>set (fst (snd ?run)). iof_increment lost_mark i \<noteq> Resolves \<or>
        (marks_processed out \<and> iof_mark lost_mark i \<noteq> Resolves)) \<and>
      table_finished (snd (snd ?run)) = table_finished sample_table \<union>
        {i. \<exists>out. (i, out) \<in> set (fst (snd ?run)) \<and> marks_processed out \<and> happened (iof_mark lost_mark i)}"
    using pg_runOnce_effect[of sample_table 1 "\<lambda>_. 2" lost_mark lifecycle_options 0 _ _ "[accepting]" "fst ?run" "fst (snd ?run)" "snd (snd ?run)",
      OF e(1) _ _ e(2) prod.collapse[symmetric]] by (simp add: INFLIGHT_SENTINEL_def)
  then show ?thesis unfolding os e(3) by (auto simp: lost_mark_def)
qed

theorem pg_failed_entry_not_retried_witness:
  "''a'' \<notin> fst ` set (fst (run_ticks pg_storage lifecycle_options [sample_tick, sample_tick]
     (snd (snd (runOnce pg_storage [failing] lifecycle_options 0 1 (\<lambda>_. 2) no_faults sample_table)))))"
  by (rule pg_failed_entry_not_retried[of sample_table "[failing]" lifecycle_options 0 1 "\<lambda>_. 2" no_faults
        "fst (runOnce pg_storage [failing] lifecycle_options 0 1 (\<lambda>_. 2) no_faults sample_table)"
        "fst (snd (runOnce pg_storage [failing] lifecycle_options 0 1 (\<lambda>_. 2) no_faults sample_table))" _ _ 
        "Dispatched [False]" "[sample_tick, sample_tick]", OF _ _ _ prod.collapse[symmetric]]; code_simp)

theorem mem_failed_entry_retried_witness:
  "\<exists>e. oe_id e = ''a'' \<and> (''a'', Dispatched (map (\<lambda>d. od_dispatch d e) [accepting])) \<in>
      set (fst (snd (runOnce memory_storage [accepting] lifecycle_options 3 4 (\<lambda>_. 5) no_faults
        (snd (snd (runOnce memory_storage [failing] lifecycle_options 0 1 (\<lambda>_. 2) no_faults sample_memory))))))"
proof -
  let ?one = "runOnce memory_storage [failing] lifecycle_options 0 1 (\<lambda>_. 2) no_faults sample_memory"
  let ?two = "runOnce memory_storage [accepting] lifecycle_options 3 4 (\<lambda>_. 5) no_faults (snd (snd ?one))"
  have "memory_inv sample_memory" "0 \<le> batchSize lifecycle_options" "(''a'', Dispatched [False]) \<in> set (fst (snd ?one))"
    "\<not> marks_processed (Dispatched [False])" "\<not> exceeds (maxAttempts lifecycle_options) (attempts_of (mo_entries sample_memory) ''a'' + 2)"
    by code_simp+
  with mem_failed_entry_retried[of sample_memory lifecycle_options "[failing]" 0 1 "\<lambda>_. 2" "fst ?one" "fst (snd ?one)" "snd (snd ?one)"
      "''a''" "[False]" "[accepting]" 3 4 "\<lambda>_. 5" "fst ?two" "fst (snd ?two)" "snd (snd ?two)"]
  show ?thesis by auto
qed

theorem mem_cap_progress_witness:
  "''b'' \<in> set (mo_processed (snd (run_ticks memory_storage \<lparr>batchSize = 2, maxAttempts = Some 1\<rparr>
     [sample_tick, sample_tick] sample_memory)))"
  by (rule mem_cap_progress[of sample_memory "\<lparr>batchSize = 2, maxAttempts = Some 1\<rparr>" 1 "''b''"
        "[sample_tick, sample_tick]", OF _ _ _ _ _ _ prod.collapse[symmetric]])
    (code_simp, code_simp, code_simp, code_simp, code_simp, code_simp, simp add: sample_tick_def)

theorem mem_uncapped_starvation_witness:
  "waiting (snd (run_ticks memory_storage \<lparr>batchSize = 1, maxAttempts = None\<rparr>
     [sample_tick, sample_tick] sample_memory)) = [''a''] @ [''b'']"
  by (rule mem_uncapped_starvation[of sample_memory "\<lparr>batchSize = 1, maxAttempts = None\<rparr>" "[''a'']" "[''b'']"
        "[sample_tick, sample_tick]", OF _ _ _ _ _ prod.collapse[symmetric], THEN conjunct1])
    (code_simp, code_simp, code_simp, code_simp, simp add: sample_tick_def failing_def, simp add: sample_tick_def)

theorem seq_fresh_across_restart_witness:
  "fresh_seq \<lparr>nextSeq = 3\<rparr> sample_table"
  by (rule seq_fresh_across_restart[of 0 new_recorder sample_table "\<lparr>nextSeq = 3\<rparr>" sample_table "''c''" 5
     "\<lparr>ri_tenantId = ''t'', ri_type = ''x'', ri_payload = 0\<rparr>" 
     "\<lparr>oe_id = ''c'', oe_seq = 3, oe_tenantId = ''t'', oe_type = ''x'',
     oe_payload = 0, oe_occurredAt = 5, oe_processedAt = None, oe_claimedAt = None,
     oe_dispatchAttemptCount = None\<rparr>" "\<lparr>nextSeq = 4\<rparr>" "sample_table @ [\<lparr>oe_id = ''c'', oe_seq = 3, oe_tenantId = ''t'', oe_type = ''x'',
     oe_payload = 0, oe_occurredAt = 5, oe_processedAt = None, oe_claimedAt = None,
     oe_dispatchAttemptCount = Some 0\<rparr>]", THEN conjunct1]; code_simp)

end
