(* ===== verification/Json_Codec.thy ===== *)
theory Json_Codec
  imports Js_Prelude
begin

text \<open>
  The serialisation functions of the JavaScript runtime that the components use: \<open>JSON.stringify\<close> and
  \<open>JSON.parse\<close> on the values of type \<open>json\<close>, UTF-8, and base64url.  A number literal with a fraction or
  an exponent, and a character beyond code 255, lie outside the model: parsing them yields no value.
\<close>

section \<open>Writing JSON\<close>

text \<open>\<open>JSON.stringify\<close> on a string.\<close>

definition hex_digit :: "nat \<Rightarrow> char" where
  "hex_digit d = (if d < 10 then char_of (48 + d) else char_of (87 + d))"

definition escape_char :: "char \<Rightarrow> string" where
  "escape_char c = (let n = of_char c :: nat in
     if n = 34 then [CHR 0x5C, CHR 0x22]
     else if n = 92 then [CHR 0x5C, CHR 0x5C]
     else if n = 8 then [CHR 0x5C, CHR ''b'']
     else if n = 9 then [CHR 0x5C, CHR ''t'']
     else if n = 10 then [CHR 0x5C, CHR ''n'']
     else if n = 12 then [CHR 0x5C, CHR ''f'']
     else if n = 13 then [CHR 0x5C, CHR ''r'']
     else if n < 32 then [CHR 0x5C, CHR ''u'', CHR ''0'', CHR ''0'', hex_digit (n div 16), hex_digit (n mod 16)]
     else [c])"

definition quote_string :: "string \<Rightarrow> string" where
  "quote_string s = [CHR 0x22] @ concat (map escape_char s) @ [CHR 0x22]"

fun stringify :: "json \<Rightarrow> string" where
  "stringify JNull = ''null''"
| "stringify (JBool b) = (if b then ''true'' else ''false'')"
| "stringify (JNum n) = show_int n"
| "stringify (JStr s) = quote_string s"
| "stringify (JArr vs) = ''['' @ join '','' (map stringify vs) @ '']''"
| "stringify (JObj es) = ''{'' @ join '','' (map (\<lambda>(k, v). quote_string k @ '':'' @ stringify v) es) @ ''}''"

section \<open>Reading JSON\<close>

text \<open>Every parser returns the value and the rest of the input.\<close>

definition json_space :: "char \<Rightarrow> bool" where
  "json_space c = (c \<in> {CHR '' '', CHR 0x09, CHR 0x0A, CHR 0x0D})"

definition skip :: "string \<Rightarrow> string" where
  "skip s = dropWhile json_space s"

definition hex_val :: "char \<Rightarrow> nat option" where
  "hex_val c = (let n = of_char c :: nat in
     if 48 \<le> n \<and> n \<le> 57 then Some (n - 48)
     else if 97 \<le> n \<and> n \<le> 102 then Some (n - 87)
     else if 65 \<le> n \<and> n \<le> 70 then Some (n - 55) else None)"

definition unicode_escape :: "char \<Rightarrow> char \<Rightarrow> char \<Rightarrow> char \<Rightarrow> char option" where
  "unicode_escape a b c d =
     (case (hex_val a, hex_val b, hex_val c, hex_val d) of
        (Some 0, Some 0, Some h, Some l) \<Rightarrow> Some (char_of (16 * h + l))
      | _ \<Rightarrow> None)"

definition simple_escape :: "char \<Rightarrow> char option" where
  "simple_escape c = map_of [(CHR 0x22, CHR 0x22), (CHR 0x5C, CHR 0x5C), (CHR ''/'', CHR ''/''), (CHR ''b'', CHR 0x08),
     (CHR ''f'', CHR 0x0C), (CHR ''n'', CHR 0x0A), (CHR ''r'', CHR 0x0D), (CHR ''t'', CHR 0x09)] c"

text \<open>The characters of a string, up to and including the closing quote.\<close>

fun read_chars :: "string \<Rightarrow> (string \<times> string) option" where
  "read_chars [] = None"
| "read_chars (c # s) =
     (if c = CHR 0x22 then Some ([], s)
      else if c = CHR 0x5C then
        (case s of
           [] \<Rightarrow> None
         | e # s1 \<Rightarrow>
             if e = CHR ''u'' then
               (case s1 of a # b # g # d # s2 \<Rightarrow>
                    (case unicode_escape a b g d of
                       None \<Rightarrow> None
                     | Some x \<Rightarrow> map_option (\<lambda>(cs, r). (x # cs, r)) (read_chars s2))
                | _ \<Rightarrow> None)
             else (case simple_escape e of
                     None \<Rightarrow> None
                   | Some x \<Rightarrow> map_option (\<lambda>(cs, r). (x # cs, r)) (read_chars s1)))
      else if (of_char c :: nat) < 32 then None
      else map_option (\<lambda>(cs, r). (c # cs, r)) (read_chars s))"

definition read_digits :: "string \<Rightarrow> (nat \<times> string) option" where
  "read_digits s =
     (let ds = takeWhile is_digit s; r = dropWhile is_digit s
      in if ds = [] \<or> (hd ds = CHR ''0'' \<and> length ds > 1) then None
         else if r \<noteq> [] \<and> hd r \<in> {CHR ''.'', CHR ''e'', CHR ''E''} then None
         else Some (read_nat ds, r))"

definition read_number :: "string \<Rightarrow> (int \<times> string) option" where
  "read_number s =
     (case s of
        c # s1 \<Rightarrow> if c = CHR ''-'' then map_option (\<lambda>(n, r). (- int n, r)) (read_digits s1)
                  else map_option (\<lambda>(n, r). (int n, r)) (read_digits s)
      | [] \<Rightarrow> None)"

definition read_word :: "string \<Rightarrow> json \<Rightarrow> string \<Rightarrow> (json \<times> string) option" where
  "read_word w v s = (if startsWith s w then Some (v, drop (length w) s) else None)"

fun read_json :: "nat \<Rightarrow> string \<Rightarrow> (json \<times> string) option"
and read_items :: "nat \<Rightarrow> string \<Rightarrow> (json list \<times> string) option"
and read_members :: "nat \<Rightarrow> (string \<times> json) list \<Rightarrow> string \<Rightarrow> ((string \<times> json) list \<times> string) option" where
  "read_json 0 s = None"
| "read_json (Suc n) s =
     (case skip s of
        [] \<Rightarrow> None
      | c # s1 \<Rightarrow>
          if c = CHR 0x22 then map_option (\<lambda>(cs, r). (JStr cs, r)) (read_chars s1)
          else if c = CHR ''['' then
            (case skip s1 of
               [] \<Rightarrow> None
             | d # s2 \<Rightarrow> if d = CHR '']'' then Some (JArr [], s2)
                         else map_option (\<lambda>(vs, r). (JArr vs, r)) (read_items n s1))
          else if c = CHR ''{'' then
            (case skip s1 of
               [] \<Rightarrow> None
             | d # s2 \<Rightarrow> if d = CHR ''}'' then Some (JObj [], s2)
                         else map_option (\<lambda>(es, r). (JObj es, r)) (read_members n [] s1))
          else if c = CHR ''t'' then read_word ''true'' (JBool True) (c # s1)
          else if c = CHR ''f'' then read_word ''false'' (JBool False) (c # s1)
          else if c = CHR ''n'' then read_word ''null'' JNull (c # s1)
          else map_option (\<lambda>(k, r). (JNum k, r)) (read_number (c # s1)))"
| "read_items 0 s = None"
| "read_items (Suc n) s =
     (case read_json n s of
        None \<Rightarrow> None
      | Some (v, r) \<Rightarrow>
          (case skip r of
             [] \<Rightarrow> None
           | c # r1 \<Rightarrow> if c = CHR '']'' then Some ([v], r1)
                       else if c = CHR '','' then map_option (\<lambda>(vs, r2). (v # vs, r2)) (read_items n r1)
                       else None))"
| "read_members 0 acc s = None"
| "read_members (Suc n) acc s =
     (case skip s of
        [] \<Rightarrow> None
      | q # s1 \<Rightarrow>
          if q \<noteq> CHR 0x22 then None
          else case read_chars s1 of
            None \<Rightarrow> None
          | Some (k, s2) \<Rightarrow>
              (case skip s2 of
                 [] \<Rightarrow> None
               | c # s3 \<Rightarrow>
                   if c \<noteq> CHR '':'' then None
                   else case read_json n s3 of
                     None \<Rightarrow> None
                   | Some (v, r) \<Rightarrow>
                       (case skip r of
                          [] \<Rightarrow> None
                        | d # r1 \<Rightarrow> if d = CHR ''}'' then Some (map_set k v acc, r1)
                                    else if d = CHR '','' then read_members n (map_set k v acc) r1
                                    else None)))"

text \<open>The nesting of calls is bounded by twice the length of the input.\<close>

definition json_parse :: "string \<Rightarrow> json option" where
  "json_parse s = (case read_json (2 * length s + 1) s of
     Some (v, r) \<Rightarrow> if skip r = [] then Some v else None
   | None \<Rightarrow> None)"

section \<open>UTF-8 and base64url\<close>

definition utf8_char :: "char \<Rightarrow> nat list" where
  "utf8_char c = (let n = of_char c in if n < 128 then [n] else [192 + n div 64, 128 + n mod 64])"

definition utf8_encode :: "string \<Rightarrow> nat list" where
  "utf8_encode s = concat (map utf8_char s)"

fun utf8_decode :: "nat list \<Rightarrow> string option" where
  "utf8_decode [] = Some []"
| "utf8_decode (b # bs) =
     (if b < 128 then map_option ((#) (char_of b)) (utf8_decode bs)
      else if b = 194 \<or> b = 195 then
        (case bs of
           [] \<Rightarrow> None
         | d # ds \<Rightarrow> if 128 \<le> d \<and> d < 192
             then map_option ((#) (char_of ((b - 192) * 64 + (d - 128)))) (utf8_decode ds) else None)
      else None)"

definition base64_char :: "nat \<Rightarrow> char" where
  "base64_char n = (if n < 26 then char_of (65 + n) else if n < 52 then char_of (71 + n)
     else if n < 62 then char_of (n - 4) else if n = 62 then CHR ''-'' else CHR ''_'')"

definition base64_val :: "char \<Rightarrow> nat option" where
  "base64_val c = (let n = of_char c :: nat in
     if 65 \<le> n \<and> n \<le> 90 then Some (n - 65)
     else if 97 \<le> n \<and> n \<le> 122 then Some (n - 71)
     else if 48 \<le> n \<and> n \<le> 57 then Some (n + 4)
     else if c = CHR ''-'' \<or> c = CHR ''+'' then Some 62
     else if c = CHR ''_'' \<or> c = CHR ''/'' then Some 63 else None)"

fun sextets :: "nat list \<Rightarrow> nat list" where
  "sextets [] = []"
| "sextets [a] = [a div 4, a mod 4 * 16]"
| "sextets [a, b] = [a div 4, a mod 4 * 16 + b div 16, b mod 16 * 4]"
| "sextets (a # b # c # bs) =
     a div 4 # (a mod 4 * 16 + b div 16) # (b mod 16 * 4 + c div 64) # (c mod 64) # sextets bs"

fun octets :: "nat list \<Rightarrow> nat list" where
  "octets (p # q # r # s # ss) =
     (p * 4 + q div 16) # (q mod 16 * 16 + r div 4) # (r mod 4 * 64 + s) # octets ss"
| "octets [p, q, r] = [p * 4 + q div 16, q mod 16 * 16 + r div 4]"
| "octets [p, q] = [p * 4 + q div 16]"
| "octets xs = []"

text \<open>The decoder stops at the padding and skips characters of neither alphabet.\<close>

definition base64url_encode :: "nat list \<Rightarrow> string" where
  "base64url_encode bs = map base64_char (sextets bs)"

definition base64url_decode :: "string \<Rightarrow> nat list" where
  "base64url_decode s = octets (List.map_filter base64_val (takeWhile (\<lambda>c. c \<noteq> CHR ''='') s))"

section \<open>Reading back what was written\<close>

lemma hex_val_digit: "d < 16 \<Longrightarrow> hex_val (hex_digit d) = Some d"
  by (auto simp: hex_val_def hex_digit_def Let_def)

lemma hex_val_zero: "hex_val CHR ''0'' = Some 0"
  by (simp add: hex_val_def)

lemma special_codes:
  "char_of (34 :: nat) = CHR 0x22" "char_of (92 :: nat) = CHR 0x5C" "char_of (8 :: nat) = CHR 0x08"
  "char_of (9 :: nat) = CHR 0x09" "char_of (10 :: nat) = CHR 0x0A" "char_of (12 :: nat) = CHR 0x0C"
  "char_of (13 :: nat) = CHR 0x0D"
  by code_simp+

lemma char_of_code: "of_char c = (n :: nat) \<Longrightarrow> c = char_of n"
  by auto

lemma read_escaped:
  "read_chars (escape_char c @ t) = map_option (\<lambda>(cs, r). (c # cs, r)) (read_chars t)"
proof -
  define n :: nat where "n = of_char c"
  consider "n = 34" | "n = 92" | "n = 8" | "n = 9" | "n = 10" | "n = 12" | "n = 13"
    | "n < 32" "n \<notin> {8, 9, 10, 12, 13}" | "\<not> n < 32" "n \<notin> {34, 92}" by blast
  then show ?thesis
  proof cases
    case 8
    then have "unicode_escape CHR ''0'' CHR ''0'' (hex_digit (n div 16)) (hex_digit (n mod 16)) = Some c"
      using hex_val_digit[of "n div 16"] hex_val_digit[of "n mod 16"]
      by (simp add: unicode_escape_def n_def hex_val_zero)
    with 8 show ?thesis by (simp add: escape_char_def n_def[symmetric] Let_def)
  next
    case 9
    then show ?thesis
      by (auto simp: escape_char_def n_def[symmetric] Let_def) (auto simp: n_def)
  qed (use n_def char_of_code[of c n] in \<open>simp_all add: escape_char_def Let_def simple_escape_def special_codes\<close>)
qed

lemma read_quoted: "read_chars (concat (map escape_char s) @ CHR 0x22 # r) = Some (s, r)"
  by (induction s) (simp_all add: read_escaped)

text \<open>What may follow a value inside a text: the end, a comma or a closing bracket.\<close>

definition ends :: "string \<Rightarrow> bool" where
  "ends r \<longleftrightarrow> r = [] \<or> hd r \<in> {CHR '','', CHR '']'', CHR ''}''}"

lemma ends_simps [simp]:
  "ends []" "ends (CHR '','' # r)" "ends (CHR '']'' # r)" "ends (CHR ''}'' # r)"
  by (simp_all add: ends_def)

lemma digit_char_zero: "d < 10 \<Longrightarrow> digit_char d = CHR ''0'' \<Longrightarrow> d = 0"
  using digit_val_char[of d] by (simp add: digit_val_def)

lemma hd_show_nat_nonzero: "0 < n \<Longrightarrow> hd (show_nat n) \<noteq> CHR ''0''"
proof (induction n rule: show_nat.induct)
  case (1 n)
  then show ?case using digit_char_zero[of n] by (subst show_nat.simps) (auto simp: hd_append)
qed

lemma read_digits_show: "ends r \<Longrightarrow> read_digits (show_nat n @ r) = Some (n, r)"
proof -
  assume r: "ends r"
  then have s: "takeWhile is_digit (show_nat n @ r) = show_nat n" "dropWhile is_digit (show_nat n @ r) = r"
    using show_nat_digits[of n] by (cases r; auto simp: ends_def is_digit_def)+
  have "\<not> (hd (show_nat n) = CHR ''0'' \<and> length (show_nat n) > 1)"
    using hd_show_nat_nonzero[of n] by (cases "n = 0") (auto simp: show_nat.simps[of 0])
  with s r show ?thesis by (auto simp: read_digits_def Let_def ends_def)
qed

lemma read_number_show: "ends r \<Longrightarrow> read_number (show_int k @ r) = Some (k, r)"
proof (cases "k < 0")
  case False
  assume r: "ends r"
  obtain c s where s: "show_nat (nat k) = c # s" by (cases "show_nat (nat k)") auto
  with hd_show_nat[of "nat k"] have "c \<noteq> CHR ''-''" by auto
  with s False read_digits_show[OF r, of "nat k"] show ?thesis by (simp add: read_number_def show_int_def)
qed (simp add: read_number_def show_int_def read_digits_show)

text \<open>The fuel a value needs, and that its text is at least as long.\<close>

fun need :: "json \<Rightarrow> nat"
and need_items :: "json list \<Rightarrow> nat"
and need_members :: "(string \<times> json) list \<Rightarrow> nat" where
  "need (JArr vs) = Suc (need_items vs)"
| "need (JObj es) = Suc (need_members es)"
| "need JNull = 1"
| "need (JBool b) = 1"
| "need (JNum n) = 1"
| "need (JStr s) = 1"
| "need_items [] = 0"
| "need_items (v # vs) = Suc (max (need v) (need_items vs))"
| "need_members [] = 0"
| "need_members ((k, v) # es) = Suc (max (need v) (need_members es))"

fun json_ok :: "json \<Rightarrow> bool"
and items_ok :: "json list \<Rightarrow> bool"
and members_ok :: "(string \<times> json) list \<Rightarrow> bool" where
  "json_ok (JArr vs) = items_ok vs"
| "json_ok (JObj es) = (distinct (map fst es) \<and> members_ok es)"
| "json_ok v = True"
| "items_ok [] = True"
| "items_ok (v # vs) = (json_ok v \<and> items_ok vs)"
| "members_ok [] = True"
| "members_ok ((k, v) # es) = (json_ok v \<and> members_ok es)"

abbreviation member_text :: "string \<times> json \<Rightarrow> string" where
  "member_text \<equiv> \<lambda>(k, v). quote_string k @ '':'' @ stringify v"

lemma join_single_sep: "vs \<noteq> [] \<Longrightarrow> join sep (x # vs) = x @ sep @ join sep vs"
  by (cases vs) simp_all

lemma need_le:
  "need v \<le> length (stringify v)"
  "need_items vs \<le> Suc (length (join '','' (map stringify vs)))"
  "need_members es \<le> Suc (length (join '','' (map member_text es)))"
proof (induction v and vs and es rule: need_need_items_need_members.induct)
  case (8 v vs)
  then show ?case by (cases vs) auto
next
  case (10 k v es)
  then show ?case by (cases es) (auto simp: quote_string_def)
qed (auto simp: quote_string_def Suc_le_eq show_int_ne)

lemma show_int_hd: "is_digit (hd (show_int k)) \<or> hd (show_int k) = CHR ''-''"
  using hd_show_nat by (simp add: show_int_def)

lemma not_digits:
  "\<not> is_digit (CHR 0x22)" "\<not> is_digit (CHR ''['')" "\<not> is_digit (CHR ''{'')" "\<not> is_digit (CHR ''t'')"
  "\<not> is_digit (CHR ''f'')" "\<not> is_digit (CHR ''n'')" "\<not> is_digit (CHR '']'')" "json_space c \<Longrightarrow> \<not> is_digit c"
  by (auto simp: is_digit_def json_space_def)

lemma stringify_hd: "stringify v \<noteq> [] \<and> \<not> json_space (hd (stringify v)) \<and> hd (stringify v) \<noteq> CHR '']''"
proof (cases v)
  case (JNum k)
  consider "is_digit (hd (show_int k))" | "hd (show_int k) = CHR ''-''" using show_int_hd[of k] by blast
  then show ?thesis
  proof cases
    case 1
    with JNum show_int_ne[of k] not_digits(7,8) show ?thesis by fastforce
  qed (simp add: JNum show_int_ne json_space_def)
qed (auto simp: quote_string_def json_space_def)

lemma skip_stringify: "skip (stringify v @ r) = stringify v @ r"
  using stringify_hd[of v] by (cases "stringify v") (simp_all add: skip_def)

lemma skip_simps [simp]:
  "skip [] = []" "\<not> json_space c \<Longrightarrow> skip (c # s) = c # s"
  by (simp_all add: skip_def)

lemma punctuation [simp]:
  "\<not> json_space CHR '',''" "\<not> json_space CHR '']''" "\<not> json_space CHR ''}''" "\<not> json_space CHR '':''"
  "\<not> json_space CHR 0x22" "\<not> json_space CHR ''['' " "\<not> json_space CHR ''{''"
  "\<not> json_space CHR ''t''" "\<not> json_space CHR ''f''" "\<not> json_space CHR ''n''"
  by (simp_all add: json_space_def)

lemma read_int: "ends r \<Longrightarrow> read_json (Suc n) (show_int k @ r) = Some (JNum k, r)"
proof -
  assume r: "ends r"
  obtain c s where s: "show_int k = c # s" using show_int_ne[of k] by (cases "show_int k") auto
  with show_int_hd[of k] have c: "is_digit c \<or> c = CHR ''-''" by simp
  then have "\<not> json_space c" "c \<notin> {CHR 0x22, CHR ''['', CHR ''{'', CHR ''t'', CHR ''f'', CHR ''n''}"
    using not_digits by (auto simp: json_space_def)
  with s read_number_show[OF r, of k] show ?thesis by simp
qed

lemma members_step:
  "read_members (Suc m) acc (quote_string k @ CHR '':'' # t) =
     (case read_json m t of
        None \<Rightarrow> None
      | Some (v, r) \<Rightarrow>
          (case skip r of
             [] \<Rightarrow> None
           | d # r1 \<Rightarrow> if d = CHR ''}'' then Some (map_set k v acc, r1)
                       else if d = CHR '','' then read_members m (map_set k v acc) r1 else None))"
  by (simp add: quote_string_def read_quoted)

lemma read_stringify:
  "json_ok v \<Longrightarrow> ends r \<Longrightarrow> need v \<le> n \<Longrightarrow> read_json n (stringify v @ r) = Some (v, r)"
  "items_ok vs \<Longrightarrow> vs \<noteq> [] \<Longrightarrow> need_items vs \<le> n \<Longrightarrow>
     read_items n (join '','' (map stringify vs) @ CHR '']'' # r) = Some (vs, r)"
  "members_ok es \<Longrightarrow> es \<noteq> [] \<Longrightarrow> distinct (map fst (acc @ es)) \<Longrightarrow> need_members es \<le> n \<Longrightarrow>
     read_members n acc (join '','' (map member_text es) @ CHR ''}'' # r) = Some (acc @ es, r)"
proof (induction v and vs and es arbitrary: n r and n r and n r acc rule: need_need_items_need_members.induct)
  case (1 vs)
  then obtain m where m: "n = Suc m" by (cases n) auto
  show ?case
  proof (cases vs)
    case Nil
    with m show ?thesis by simp
  next
    case (Cons w ws)
    let ?text = "join '','' (map stringify vs) @ CHR '']'' # r"
    obtain c s where cs: "stringify w = c # s" "\<not> json_space c" "c \<noteq> CHR '']''"
      using stringify_hd[of w] by (cases "stringify w") auto
    then obtain s' where "?text = c # s'" using Cons by (cases ws) auto
    moreover have "read_items m ?text = Some (vs, r)" using 1 Cons m by auto
    ultimately show ?thesis using m cs by simp
  qed
next
  case (2 es)
  then obtain m where m: "n = Suc m" by (cases n) auto
  show ?case
  proof (cases es)
    case Nil
    with m show ?thesis by simp
  next
    case (Cons e ds)
    let ?text = "join '','' (map member_text es) @ CHR ''}'' # r"
    obtain s' where "?text = CHR 0x22 # s'" using Cons by (cases ds; cases e) (auto simp: quote_string_def)
    moreover have "read_members m [] ?text = Some (es, r)" using 2 Cons m by auto
    ultimately show ?thesis using m by simp
  qed
next
  case (8 v vs)
  then obtain m where m: "n = Suc m" by (cases n) auto
  show ?case
  proof (cases vs)
    case Nil
    with 8 m show ?thesis by simp
  next
    case (Cons w ws)
    with 8 m show ?thesis by (simp add: join_single_sep)
  qed
next
  case (10 k v es)
  then obtain m where m: "n = Suc m" by (cases n) auto
  from 10 have new: "map_set k v acc = acc @ [(k, v)]" by (simp add: map_set_new)
  show ?case
  proof (cases "es = []")
    case True
    with 10 m new show ?thesis by (simp add: members_step del: read_members.simps)
  next
    case False
    then have "read_members m (acc @ [(k, v)]) (join '','' (map member_text es) @ CHR ''}'' # r) = Some ((acc @ [(k, v)]) @ es, r)"
      by (intro 10(2)) (use 10 m in auto)
    moreover have "read_json m (stringify v @ CHR '','' # t) = Some (v, CHR '','' # t)" for t
      by (rule 10(1)) (use 10 m in auto)
    ultimately show ?thesis using m new False by (simp add: join_single_sep members_step del: read_members.simps)
  qed
next
  case (5 k)
  then show ?case by (cases n) (simp_all add: read_int del: read_json.simps(2))
next
  case (6 s)
  then show ?case by (cases n) (simp_all add: quote_string_def read_quoted)
next
  case (4 b)
  then show ?case by (cases n) (simp_all add: read_word_def startsWith_def)
next
  case 3
  then show ?case by (cases n) (simp_all add: read_word_def startsWith_def)
qed simp_all

text \<open>\<open>JSON.parse\<close> reads back every value that \<open>JSON.stringify\<close> wrote.\<close>

lemma parse_stringify: "json_ok v \<Longrightarrow> json_parse (stringify v) = Some v"
  using read_stringify(1)[of v "[]" "2 * length (stringify v) + 1"] need_le(1)[of v]
  by (simp add: json_parse_def)

lemma utf8_decode_char: "utf8_decode (utf8_char c @ bs) = map_option ((#) c) (utf8_decode bs)"
proof -
  define n :: nat where "n = of_char c"
  have n: "n < 256" "char_of n = c" by (simp_all add: n_def)
  show ?thesis
  proof (cases "n < 128")
    case True
    with n show ?thesis by (simp add: utf8_char_def n_def[symmetric] Let_def)
  next
    case False
    then have "n div 64 = 2 \<or> n div 64 = 3" using n(1) by linarith
    then have "192 + n div 64 = 194 \<or> 192 + n div 64 = 195" by auto
    moreover have "n div 64 * 64 + n mod 64 = n" by simp
    ultimately show ?thesis using False n by (auto simp: utf8_char_def n_def[symmetric] Let_def)
  qed
qed

lemma utf8_round_trip: "utf8_decode (utf8_encode s) = Some s"
  by (induction s) (simp_all add: utf8_encode_def utf8_decode_char)

lemma byte_div: "(a :: nat) < 256 \<Longrightarrow> a div 4 < 64" "a < 256 \<Longrightarrow> a div 16 < 16" "a < 256 \<Longrightarrow> a div 64 < 4"
  by (simp_all add: less_mult_imp_div_less)

lemma utf8_bytes: "b \<in> set (utf8_encode s) \<Longrightarrow> b < 256"
proof -
  have "of_char c div 64 < (4 :: nat)" for c by (rule byte_div(3)) simp
  then have "of_char c div 64 < (64 :: nat)" for c by (rule less_trans) simp
  moreover assume "b \<in> set (utf8_encode s)"
  ultimately show ?thesis by (auto simp: utf8_encode_def utf8_char_def Let_def split: if_splits)
qed

lemma base64_char_val: "n < 64 \<Longrightarrow> base64_val (base64_char n) = Some n"
  by (auto simp: base64_val_def base64_char_def Let_def)

lemma base64_char_not_pad: "n < 64 \<Longrightarrow> base64_char n \<noteq> CHR ''=''"
  using base64_char_val[of n] by (auto simp: base64_val_def)

lemma sextet_bounds:
  fixes a b :: nat
  assumes "a < 256" "b < 256"
  shows "a div 4 < 64" "a mod 4 * 16 < 64" "a mod 4 * 16 + b div 16 < 64" "a mod 16 * 4 < 64" "a mod 16 * 4 + b div 64 < 64"
proof -
  have "a mod 4 < 4" "a mod 16 < 16" by simp_all
  with byte_div[OF assms(1)] byte_div[OF assms(2)]
  show "a div 4 < 64" "a mod 4 * 16 < 64" "a mod 4 * 16 + b div 16 < 64" "a mod 16 * 4 < 64" "a mod 16 * 4 + b div 64 < 64"
    by linarith+
qed

lemma sextets_small: "\<forall>b\<in>set bs. b < 256 \<Longrightarrow> \<forall>s\<in>set (sextets bs). s < 64"
proof (induction bs rule: sextets.induct)
  case (3 a b)
  then show ?case by (simp add: sextet_bounds[of a b] sextet_bounds[of b b])
next
  case (4 a b c bs)
  then show ?case by (simp add: sextet_bounds[of a b] sextet_bounds[of b c])
qed (simp_all add: byte_div(1))

lemma octets_sextets: "\<forall>b\<in>set bs. b < 256 \<Longrightarrow> octets (sextets bs) = bs"
proof (induction bs rule: sextets.induct)
  case (3 a b)
  then show ?case by (simp add: byte_div(2))
next
  case (4 a b c bs)
  then show ?case by (simp add: byte_div(2,3))
qed simp_all

lemma base64url_round_trip: "(\<forall>b\<in>set bs. b < 256) \<Longrightarrow> base64url_decode (base64url_encode bs) = bs"
proof -
  assume bs: "\<forall>b\<in>set bs. b < 256"
  have "List.map_filter base64_val (takeWhile (\<lambda>c. c \<noteq> CHR ''='') (map base64_char xs)) = xs"
    if "\<forall>x\<in>set xs. x < 64" for xs
    using that by (induction xs) (auto simp: List.map_filter_simps base64_char_val base64_char_not_pad)
  with sextets_small[OF bs] octets_sextets[OF bs] show ?thesis
    by (simp add: base64url_decode_def base64url_encode_def)
qed

end
