(* ===== verification/Idempotency.thy ===== *)
theory Idempotency
  imports Json_Codec
begin

text \<open>
  Idempotency keys: \<open>src/core/idempotency/idempotency.service.ts\<close> (fingerprint, scoping,
  \<open>runOrCache\<close>), \<open>idempotency-store.prisma.ts\<close> and \<open>idempotency-cleanup.ts\<close> (the two stores and
  the cleanup cron) and \<open>idempotency.module.ts\<close> (the interceptor).

  SHA-256 and \<open>localeCompare\<close> are arguments.  \<open>runOrCache\<close> here is the uninterrupted call on a store that
  answers; \<open>Idempotency_Concurrency\<close> cuts it at its \<open>await\<close>s and interleaves the calls of a process.
\<close>

section \<open>The request fingerprint\<close>

text \<open>\<open>stableStringify\<close>; \<open>le\<close> is \<open>a.localeCompare(b) <= 0\<close>.\<close>

fun stableStringify :: "(string \<Rightarrow> string \<Rightarrow> bool) \<Rightarrow> json \<Rightarrow> string" where
  "stableStringify le JNull = ''null''"
| "stableStringify le (JBool b) = (if b then ''true'' else ''false'')"
| "stableStringify le (JNum n) = show_int n"
| "stableStringify le (JStr s) = quote_string s"
| "stableStringify le (JArr vs) = ''['' @ join '','' (map (stableStringify le) vs) @ '']''"
| "stableStringify le (JObj es) =
     ''{'' @ join '','' (map snd (sort_by (\<lambda>a b. le (fst a) (fst b))
                (map (\<lambda>(k, v). (k, quote_string k @ '':'' @ stableStringify le v)) es))) @ ''}''"

record fingerprint_input =
  fi_method :: string
  fi_path :: string
  fi_body :: "json option"

text \<open>An absent body stringifies to \<open>undefined\<close>.\<close>

definition fingerprint :: "(string \<Rightarrow> string \<Rightarrow> bool) \<Rightarrow> fingerprint_input \<Rightarrow> string" where
  "fingerprint le r =
     toUpperCase (fi_method r) @ [CHR 0x0A] @ fi_path r @ [CHR 0x0A] @
     (case fi_body r of None \<Rightarrow> ''undefined'' | Some v \<Rightarrow> stableStringify le v)"

definition computeRequestHash ::
  "(string \<Rightarrow> string) \<Rightarrow> (string \<Rightarrow> string \<Rightarrow> bool) \<Rightarrow> fingerprint_input \<Rightarrow> string" where
  "computeRequestHash sha256 le r = sha256 (fingerprint le r)"

definition scopeIdempotencyKey :: "string \<Rightarrow> string option \<Rightarrow> string" where
  "scopeIdempotencyKey key userId = nullish userId ''anon'' @ ''::'' @ key"

section \<open>Records and stores\<close>

record 'b idem_response =
  ir_status :: int
  ir_body :: 'b

record 'b idem_record =
  rec_key :: string
  rec_userId :: "string option"
  rec_requestHash :: string
  rec_status :: int
  rec_body :: 'b
  rec_expiresAt :: millis

record ('s, 'b) idem_store_ops =
  is_get :: "string \<Rightarrow> 's \<Rightarrow> 'b idem_record option"
  is_put :: "'b idem_record \<Rightarrow> 's \<Rightarrow> 's"
  is_delete :: "string \<Rightarrow> 's \<Rightarrow> 's"
  is_deleteOlderThan :: "millis \<Rightarrow> 's \<Rightarrow> nat \<times> 's"

text \<open>\<open>InMemoryIdempotencyStoreWithCleanup\<close>: an insertion-ordered map.\<close>

type_synonym 'b memory_idem = "(string \<times> 'b idem_record) list"

definition memi_get :: "string \<Rightarrow> 'b memory_idem \<Rightarrow> 'b idem_record option" where
  "memi_get k m = map_get m k"

definition memi_put :: "'b idem_record \<Rightarrow> 'b memory_idem \<Rightarrow> 'b memory_idem" where
  "memi_put r m = map_set (rec_key r) r m"

definition memi_delete :: "string \<Rightarrow> 'b memory_idem \<Rightarrow> 'b memory_idem" where
  "memi_delete k m = map_delete k m"

fun memi_sweep :: "millis \<Rightarrow> 'b memory_idem \<Rightarrow> nat \<times> 'b memory_idem" where
  "memi_sweep cutoff [] = (0, [])"
| "memi_sweep cutoff ((k, r) # m) =
     (let (n, m') = memi_sweep cutoff m
      in if rec_expiresAt r < cutoff then (Suc n, m') else (n, (k, r) # m'))"

definition memory_idem_ops :: "('b memory_idem, 'b) idem_store_ops" where
  "memory_idem_ops = \<lparr>is_get = memi_get, is_put = memi_put, is_delete = memi_delete,
     is_deleteOlderThan = memi_sweep\<rparr>"

text \<open>\<open>PrismaIdempotencyStore\<close>: rows with a nullable user column; \<open>upsert\<close> rewrites every column
  but the key, a \<open>delete\<close> of a missing row is swallowed.\<close>

record 'b idem_row =
  row_key :: string
  row_userId :: "string option"
  row_requestHash :: string
  row_status :: int
  row_body :: 'b
  row_expiresAt :: millis

definition toRow :: "'b idem_record \<Rightarrow> 'b idem_row" where
  "toRow r = \<lparr>row_key = rec_key r, row_userId = rec_userId r, row_requestHash = rec_requestHash r,
     row_status = rec_status r, row_body = rec_body r, row_expiresAt = rec_expiresAt r\<rparr>"

definition fromRow :: "'b idem_row \<Rightarrow> 'b idem_record" where
  "fromRow w = \<lparr>rec_key = row_key w, rec_userId = row_userId w, rec_requestHash = row_requestHash w,
     rec_status = row_status w, rec_body = row_body w, rec_expiresAt = row_expiresAt w\<rparr>"

definition pgi_get :: "string \<Rightarrow> 'b idem_row list \<Rightarrow> 'b idem_record option" where
  "pgi_get k t = map_option fromRow (find_first (\<lambda>w. row_key w = k) t)"

definition pgi_put :: "'b idem_record \<Rightarrow> 'b idem_row list \<Rightarrow> 'b idem_row list" where
  "pgi_put r t =
     (let row = toRow r in
      if find_first (\<lambda>w. row_key w = row_key row) t = None then t @ [row]
      else update_where (\<lambda>w. row_key w = row_key row)
             (\<lambda>w. w\<lparr>row_userId := row_userId row, row_requestHash := row_requestHash row,
                    row_status := row_status row, row_body := row_body row,
                    row_expiresAt := row_expiresAt row\<rparr>) t)"

definition pgi_delete :: "string \<Rightarrow> 'b idem_row list \<Rightarrow> 'b idem_row list" where
  "pgi_delete k t = filter (\<lambda>w. row_key w \<noteq> k) t"

definition pgi_deleteOlderThan :: "millis \<Rightarrow> 'b idem_row list \<Rightarrow> nat \<times> 'b idem_row list" where
  "pgi_deleteOlderThan cutoff t =
     (length (filter (\<lambda>w. row_expiresAt w < cutoff) t), filter (\<lambda>w. \<not> row_expiresAt w < cutoff) t)"

definition prisma_idem_ops :: "('b idem_row list, 'b) idem_store_ops" where
  "prisma_idem_ops = \<lparr>is_get = pgi_get, is_put = pgi_put, is_delete = pgi_delete,
     is_deleteOlderThan = pgi_deleteOlderThan\<rparr>"

section \<open>runOrCache\<close>

record run_input =
  in_key :: string
  in_request :: fingerprint_input
  in_userId :: "string option"

datatype 'e idem_error = IdempotencyConflict string | IdempotencyInProgress string | HandlerError 'e | StoreError 'e

record 'b idem_resolved =
  rs_status :: int
  rs_body :: 'b
  rs_replayed :: bool

text \<open>What the code decides after \<open>await store.get\<close>: replay, throw, or start the handler.\<close>

datatype 'b idem_decision = DReplay "'b idem_resolved" | DConflict | DInProgress | DRun

definition idem_decide ::
  "string \<Rightarrow> string \<Rightarrow> 'b idem_record option \<Rightarrow> millis \<Rightarrow> string list \<Rightarrow> 'b idem_decision" where
  "idem_decide requestHash scopedKey existing now inflight =
     (case existing of
        Some r \<Rightarrow>
          if rec_expiresAt r > now then
            if rec_requestHash r \<noteq> requestHash then DConflict
            else DReplay \<lparr>rs_status = rec_status r, rs_body = rec_body r, rs_replayed = True\<rparr>
          else if scopedKey \<in> set inflight then DInProgress else DRun
      | None \<Rightarrow> if scopedKey \<in> set inflight then DInProgress else DRun)"

definition idem_record_of ::
  "run_input \<Rightarrow> string \<Rightarrow> string \<Rightarrow> millis \<Rightarrow> millis \<Rightarrow> 'b idem_response \<Rightarrow> 'b idem_record" where
  "idem_record_of input scopedKey requestHash now ttl response =
     \<lparr>rec_key = scopedKey, rec_userId = in_userId input, rec_requestHash = requestHash,
      rec_status = ir_status response, rec_body = ir_body response, rec_expiresAt = now + ttl\<rparr>"

record 's idem_state =
  ids_store :: 's
  ids_inflight :: "string list"

text \<open>\<open>runOrCache\<close> without interleaving; the handler's outcome is an argument.\<close>

definition runOrCache ::
  "('s, 'b) idem_store_ops \<Rightarrow> (string \<Rightarrow> string) \<Rightarrow> (string \<Rightarrow> string \<Rightarrow> bool) \<Rightarrow> millis \<Rightarrow> millis
     \<Rightarrow> run_input \<Rightarrow> ('e + 'b idem_response) \<Rightarrow> 's idem_state
     \<Rightarrow> ('e idem_error + 'b idem_resolved) \<times> 's idem_state" where
  "runOrCache ops sha256 le ttl now input handler st =
     (let requestHash = computeRequestHash sha256 le (in_request input);
          scopedKey = scopeIdempotencyKey (in_key input) (in_userId input);
          existing = is_get ops scopedKey (ids_store st)
      in case idem_decide requestHash scopedKey existing now (ids_inflight st) of
           DConflict \<Rightarrow> (Inl (IdempotencyConflict (in_key input)), st)
         | DReplay r \<Rightarrow> (Inr r, st)
         | DInProgress \<Rightarrow> (Inl (IdempotencyInProgress (in_key input)), st)
         | DRun \<Rightarrow>
             let st1 = st\<lparr>ids_inflight := ids_inflight st @ [scopedKey]\<rparr>;
                 release = (\<lambda>s. s\<lparr>ids_inflight := removeAll scopedKey (ids_inflight s)\<rparr>)
             in case handler of
                  Inl e \<Rightarrow> (Inl (HandlerError e), release st1)
                | Inr response \<Rightarrow>
                    let st2 = st1\<lparr>ids_store := is_put ops
                          (idem_record_of input scopedKey requestHash now ttl response) (ids_store st1)\<rparr>
                    in (Inr \<lparr>rs_status = ir_status response, rs_body = ir_body response,
                             rs_replayed = False\<rparr>, release st2))"

section \<open>The interceptor and the cleanup cron\<close>

definition METHODS :: "string list" where
  "METHODS = [''POST'', ''PATCH'', ''PUT'', ''DELETE'']"

definition DEFAULT_TTL_MS :: millis where
  "DEFAULT_TTL_MS = 24 * 60 * 60 * 1000"

record http_request =
  rq_method :: "string option"
  rq_idempotencyKey :: "string option"
  rq_userId :: "string option"
  rq_path :: "string option"
  rq_url :: "string option"
  rq_body :: "json option"

text \<open>\<open>None\<close>: the request passes through; \<open>Some input\<close>: it goes through \<open>runOrCache\<close>.\<close>

definition intercept :: "string \<Rightarrow> http_request \<Rightarrow> run_input option" where
  "intercept ctxType req =
     (if ctxType \<noteq> ''http'' then None
      else
        let method = toUpperCase (nullish (rq_method req) [])
        in if method \<notin> set METHODS then None
           else
             let key = nullish (rq_idempotencyKey req) []
             in if \<not> truthy key then None
                else Some \<lparr>in_key = key,
                       in_request = \<lparr>fi_method = method,
                         fi_path = nullish (rq_path req) (nullish (rq_url req) []),
                         fi_body = rq_body req\<rparr>,
                       in_userId = (if truthy_opt (rq_userId req) then rq_userId req else None)\<rparr>)"

text \<open>\<open>IdempotencyCleanupCron.runOnce\<close>: \<open>capable\<close> is the duck-typing test, \<open>dbOk\<close> whether the
  store's call resolved.\<close>

definition cleanup_runOnce ::
  "('s, 'b) idem_store_ops \<Rightarrow> bool \<Rightarrow> bool \<Rightarrow> millis \<Rightarrow> 's \<Rightarrow> (millis \<times> nat option) \<times> 's" where
  "cleanup_runOnce ops capable dbOk now s =
     (if \<not> capable then ((now, None), s)
      else if \<not> dbOk then ((now, None), s)
      else let (n, s') = is_deleteOlderThan ops now s in ((now, Some n), s'))"

section \<open>What a store promises\<close>

locale idem_store =
  fixes ops :: "('s, 'b) idem_store_ops"
    and inv :: "'s \<Rightarrow> bool"
  assumes get_put: "inv s \<Longrightarrow> is_get ops k (is_put ops r s) = (if k = rec_key r then Some r else is_get ops k s)"
    and get_delete: "inv s \<Longrightarrow> is_get ops k (is_delete ops j s) = (if k = j then None else is_get ops k s)"
    and get_deleteOlder: "inv s \<Longrightarrow> is_deleteOlderThan ops c s = (n, s') \<Longrightarrow>
      is_get ops k s' = (case is_get ops k s of None \<Rightarrow> None
        | Some r \<Rightarrow> if rec_expiresAt r < c then None else Some r)"
    and inv_put: "inv s \<Longrightarrow> inv (is_put ops r s)"
    and inv_delete: "inv s \<Longrightarrow> inv (is_delete ops j s)"
    and inv_deleteOlder: "inv s \<Longrightarrow> is_deleteOlderThan ops c s = (n, s') \<Longrightarrow> inv s'"
begin

lemma run_then_replay:
  assumes "inv (ids_store st)"
    and "runOrCache ops sha le ttl t1 i1 (Inr resp) st = (Inr res, st1)" and "\<not> rs_replayed res"
    and "scopeIdempotencyKey (in_key i2) (in_userId i2) = scopeIdempotencyKey (in_key i1) (in_userId i1)"
    and "t2 < t1 + ttl"
  shows "runOrCache ops sha le ttl t2 i2 h st1 =
    (if computeRequestHash sha le (in_request i2) = computeRequestHash sha le (in_request i1)
     then Inr \<lparr>rs_status = ir_status resp, rs_body = ir_body resp, rs_replayed = True\<rparr>
     else Inl (IdempotencyConflict (in_key i2)), st1)"
proof -
  let ?k = "scopeIdempotencyKey (in_key i1) (in_userId i1)"
  let ?r = "idem_record_of i1 ?k (computeRequestHash sha le (in_request i1)) t1 ttl resp"
  have "ids_store st1 = is_put ops ?r (ids_store st)"
    using assms(2,3) by (auto simp: runOrCache_def Let_def idem_decide_def
        split: idem_decision.splits option.splits if_splits)
  then have "is_get ops ?k (ids_store st1) = Some ?r"
    using get_put[OF assms(1), of ?k ?r] by (simp add: idem_record_of_def)
  then show ?thesis using assms(4,5)
    by (simp add: runOrCache_def Let_def idem_decide_def idem_record_of_def)
qed

lemma decide_after_cleanup:
  assumes "inv s" and "cleanup_runOnce ops capable dbOk c s = (res, s')" and "c \<le> now"
  shows "idem_decide h k (is_get ops k s') now inflight = idem_decide h k (is_get ops k s) now inflight"
proof (cases "capable \<and> dbOk")
  case True
  obtain n s1 where d: "is_deleteOlderThan ops c s = (n, s1)" by fastforce
  with True assms(2) have "s' = s1" by (simp add: cleanup_runOnce_def)
  with get_deleteOlder[OF assms(1) d, of k] assms(3) show ?thesis
    by (auto simp: idem_decide_def split: option.splits)
next
  case False
  with assms(2) have "s' = s" by (auto simp: cleanup_runOnce_def split: if_splits)
  then show ?thesis by simp
qed

end

lemma memi_sweep_filter: "snd (memi_sweep c m) = filter (\<lambda>(k, r). \<not> rec_expiresAt r < c) m"
  by (induction c m rule: memi_sweep.induct) (auto simp: case_prod_beta Let_def)

interpretation memi: idem_store memory_idem_ops "\<lambda>m. distinct (map fst m)"
proof (unfold_locales, goal_cases)
  case (3 m c n m' k)
  then have "m' = filter (\<lambda>(k, r). \<not> rec_expiresAt r < c) m"
    using memi_sweep_filter[of c m] by (simp add: memory_idem_ops_def)
  with 3 show ?case
    by (simp add: memory_idem_ops_def memi_get_def map_get_filter split: option.splits)
next
  case (6 m c n m')
  then have "m' = filter (\<lambda>(k, r). \<not> rec_expiresAt r < c) m"
    using memi_sweep_filter[of c m] by (simp add: memory_idem_ops_def)
  with 6 show ?case by (simp add: distinct_filter_fst)
qed (auto simp: memory_idem_ops_def memi_get_def memi_put_def memi_delete_def map_get_set
    map_get_delete distinct_map_set distinct_map_delete)

lemma fromRow_toRow [simp]: "fromRow (toRow r) = r"
  by (simp add: fromRow_def toRow_def)

lemma pgi_get_put:
  fixes t :: "'b idem_row list"
  shows "pgi_get k (pgi_put r t) = (if k = rec_key r then Some r else pgi_get k t)"
proof (cases "find_first (\<lambda>w. row_key w = rec_key r) t")
  case None
  then show ?thesis
    by (auto simp: pgi_get_def pgi_put_def Let_def toRow_def find_first_append fromRow_def split: option.splits)
next
  case (Some w)
  define f where "f = (\<lambda>w::'b idem_row. w\<lparr>row_userId := rec_userId r, row_requestHash := rec_requestHash r,
    row_status := rec_status r, row_body := rec_body r, row_expiresAt := rec_expiresAt r\<rparr>)"
  have put: "pgi_put r t = update_where (\<lambda>w. row_key w = rec_key r) f t"
    using Some by (simp add: pgi_put_def toRow_def f_def)
  have fk: "row_key (f w) = row_key w" for w by (simp add: f_def)
  show ?thesis
  proof (cases "k = rec_key r")
    case True
    have "fromRow (f w) = r" using find_first_Some[OF Some] by (simp add: f_def fromRow_def)
    with True Some show ?thesis by (simp add: pgi_get_def put find_first_update_where fk)
  next
    case False
    then have "find_first (\<lambda>w. row_key w = k) (update_where (\<lambda>w. row_key w = rec_key r) f t) =
        find_first (\<lambda>w. row_key w = k) t"
      by (induction t) (auto simp: fk)
    with False show ?thesis by (simp add: pgi_get_def put)
  qed
qed

interpretation pgi: idem_store prisma_idem_ops "\<lambda>t. distinct (map row_key t)"
proof (unfold_locales, goal_cases)
  case (1 s k r)
  then show ?case by (simp add: prisma_idem_ops_def pgi_get_put)
next
  case (2 s k j)
  then show ?case
  proof (cases "find_first (\<lambda>w. row_key w = k) s")
    case (Some w)
    with find_first_Some[OF Some] 2 show ?thesis
      by (simp add: prisma_idem_ops_def pgi_get_def pgi_delete_def find_first_filter_key)
  qed (use 2 in \<open>simp add: prisma_idem_ops_def pgi_get_def pgi_delete_def find_first_filter_key\<close>)
next
  case (3 s c n s' k)
  then show ?case
    by (auto simp: prisma_idem_ops_def pgi_get_def pgi_deleteOlderThan_def find_first_filter_key
        fromRow_def split: option.splits)
next
  case (4 s r)
  then show ?case
    by (auto simp: prisma_idem_ops_def pgi_put_def Let_def find_first_None map_update_where_frame)
next
  case (5 s j)
  then show ?case by (simp add: prisma_idem_ops_def pgi_delete_def distinct_map_filter)
next
  case (6 s c n s')
  then show ?case by (auto simp: prisma_idem_ops_def pgi_deleteOlderThan_def distinct_map_filter)
qed

end
