(* ===== verification/Idempotency_Concurrency.thy ===== *)
theory Idempotency_Concurrency
  imports Idempotency
begin

text \<open>
  Concurrent calls of \<open>runOrCache\<close> in one process.  Each request \<open>i\<close> runs the phases of
  \<open>runOrCache\<close> between its \<open>await\<close>s; any other request, and the cleanup cron, may act between two
  phases.  The database executes the \<open>put\<close> of a request at some moment between issuing and
  acknowledging it, or refuses it.  \<open>req\<close> gives the input of every request, \<open>ttl\<close> is the configured life time.
\<close>

section \<open>Phases and steps\<close>

datatype ('b, 'e) idem_phase =
    Called
  | Fetched "'b idem_record option"
  | Running millis
  | PutIssued millis "'b idem_response"
  | Committed "'b idem_response"
  | Finished "'e idem_error + 'b idem_resolved"

record ('s, 'b, 'e) idem_system =
  sy_store :: 's
  sy_inflight :: "string list"
  sy_phase :: "nat \<Rightarrow> ('b, 'e) idem_phase"

record ('s, 'b) idem_config =
  cf_ops :: "('s, 'b) idem_store_ops"
  cf_sha256 :: "string \<Rightarrow> string"
  cf_le :: "string \<Rightarrow> string \<Rightarrow> bool"
  cf_ttl :: millis
  cf_req :: "nat \<Rightarrow> run_input"

definition scoped :: "('s, 'b) idem_config \<Rightarrow> nat \<Rightarrow> string" where
  "scoped c i = scopeIdempotencyKey (in_key (cf_req c i)) (in_userId (cf_req c i))"

definition req_hash :: "('s, 'b) idem_config \<Rightarrow> nat \<Rightarrow> string" where
  "req_hash c i = computeRequestHash (cf_sha256 c) (cf_le c) (in_request (cf_req c i))"

definition set_phase ::
  "nat \<Rightarrow> ('b, 'e) idem_phase \<Rightarrow> ('s, 'b, 'e) idem_system \<Rightarrow> ('s, 'b, 'e) idem_system" where
  "set_phase i p s = s\<lparr>sy_phase := (sy_phase s)(i := p)\<rparr>"

definition fresh_result :: "'b idem_response \<Rightarrow> 'b idem_resolved" where
  "fresh_result r = \<lparr>rs_status = ir_status r, rs_body = ir_body r, rs_replayed = False\<rparr>"

fun refusal :: "string \<Rightarrow> 'b idem_decision \<Rightarrow> ('e idem_error + 'b idem_resolved) option" where
  "refusal key (DReplay r) = Some (Inr r)"
| "refusal key DConflict = Some (Inl (IdempotencyConflict key))"
| "refusal key DInProgress = Some (Inl (IdempotencyInProgress key))"
| "refusal key DRun = None"

inductive idem_step ::
  "('s, 'b) idem_config \<Rightarrow> ('s, 'b, 'e) idem_system \<Rightarrow> ('s, 'b, 'e) idem_system \<Rightarrow> bool"
  for c :: "('s, 'b) idem_config" where
  fetch: "sy_phase s i = Called \<Longrightarrow>
    idem_step c s (set_phase i (Fetched (is_get (cf_ops c) (scoped c i) (sy_store s))) s)"
| answer: "sy_phase s i = Fetched ex \<Longrightarrow>
    refusal (in_key (cf_req c i)) (idem_decide (req_hash c i) (scoped c i) ex now (sy_inflight s)) = Some res \<Longrightarrow>
    idem_step c s (set_phase i (Finished res) s)"
| start: "sy_phase s i = Fetched ex \<Longrightarrow>
    idem_decide (req_hash c i) (scoped c i) ex now (sy_inflight s) = DRun \<Longrightarrow>
    idem_step c s (set_phase i (Running now) (s\<lparr>sy_inflight := sy_inflight s @ [scoped c i]\<rparr>))"
| handler_ok: "sy_phase s i = Running now \<Longrightarrow>
    idem_step c s (set_phase i (PutIssued now resp) s)"
| handler_fail: "sy_phase s i = Running now \<Longrightarrow>
    idem_step c s (set_phase i (Finished (Inl (HandlerError e)))
      (s\<lparr>sy_inflight := removeAll (scoped c i) (sy_inflight s)\<rparr>))"
| put_fail: "sy_phase s i = PutIssued now resp \<Longrightarrow>
    idem_step c s (set_phase i (Finished (Inl (StoreError e)))
      (s\<lparr>sy_inflight := removeAll (scoped c i) (sy_inflight s)\<rparr>))"
| commit: "sy_phase s i = PutIssued now resp \<Longrightarrow>
    idem_step c s (set_phase i (Committed resp)
      (s\<lparr>sy_store := is_put (cf_ops c)
          (idem_record_of (cf_req c i) (scoped c i) (req_hash c i) now (cf_ttl c) resp) (sy_store s)\<rparr>))"
| ack: "sy_phase s i = Committed resp \<Longrightarrow>
    idem_step c s (set_phase i (Finished (Inr (fresh_result resp)))
      (s\<lparr>sy_inflight := removeAll (scoped c i) (sy_inflight s)\<rparr>))"
| cleanup: "is_deleteOlderThan (cf_ops c) cutoff (sy_store s) = (n, st') \<Longrightarrow>
    idem_step c s (s\<lparr>sy_store := st'\<rparr>)"

inductive idem_reachable ::
  "('s, 'b) idem_config \<Rightarrow> 's \<Rightarrow> ('s, 'b, 'e) idem_system \<Rightarrow> bool"
  for c :: "('s, 'b) idem_config" and s0 :: 's where
  init: "idem_reachable c s0 \<lparr>sy_store = s0, sy_inflight = [], sy_phase = (\<lambda>_. Called)\<rparr>"
| step: "idem_reachable c s0 s \<Longrightarrow> idem_step c s t \<Longrightarrow> idem_reachable c s0 t"

section \<open>The invariant\<close>

text \<open>A request is active from the moment it enters the in-flight set until it leaves it.\<close>

fun active :: "('b, 'e) idem_phase \<Rightarrow> bool" where
  "active (Running _) = True"
| "active (PutIssued _ _) = True"
| "active (Committed _) = True"
| "active _ = False"

definition produced :: "('s, 'b, 'e) idem_system \<Rightarrow> nat \<Rightarrow> 'b idem_response \<Rightarrow> bool" where
  "produced s j resp \<longleftrightarrow> sy_phase s j = Committed resp \<or> sy_phase s j = Finished (Inr (fresh_result resp))"

text \<open>The record \<open>r\<close>, found under the key \<open>k\<close>, is the response some request of that key produced.\<close>

definition genuine :: "('s, 'b) idem_config \<Rightarrow> ('s, 'b, 'e) idem_system \<Rightarrow> string \<Rightarrow> 'b idem_record \<Rightarrow> bool" where
  "genuine c s k r \<longleftrightarrow> (\<exists>j resp. produced s j resp \<and> scoped c j = k \<and> req_hash c j = rec_requestHash r \<and>
     rec_status r = ir_status resp \<and> rec_body r = ir_body resp)"

definition genuine_replay :: "('s, 'b) idem_config \<Rightarrow> ('s, 'b, 'e) idem_system \<Rightarrow> nat \<Rightarrow> 'b idem_resolved \<Rightarrow> bool" where
  "genuine_replay c s i res \<longleftrightarrow> (\<exists>j resp. produced s j resp \<and> scoped c j = scoped c i \<and>
     req_hash c j = req_hash c i \<and> rs_status res = ir_status resp \<and> rs_body res = ir_body resp)"

definition locked :: "('s, 'b) idem_config \<Rightarrow> ('s, 'b, 'e) idem_system \<Rightarrow> bool" where
  "locked c s \<longleftrightarrow> set (sy_inflight s) = scoped c ` {i. active (sy_phase s i)} \<and>
     (\<forall>i j. active (sy_phase s i) \<longrightarrow> active (sy_phase s j) \<longrightarrow> scoped c i = scoped c j \<longrightarrow> i = j)"

lemma set_phase_simps [simp]:
  "sy_phase (set_phase i p s) = (sy_phase s)(i := p)"
  "sy_store (set_phase i p s) = sy_store s"
  "sy_inflight (set_phase i p s) = sy_inflight s"
  by (simp_all add: set_phase_def)

lemma idem_decide_DRun: "idem_decide h k ex now infl = DRun \<Longrightarrow> k \<notin> set infl"
  by (auto simp: idem_decide_def split: option.splits if_splits)

lemma idem_decide_DReplay:
  "idem_decide h k ex now infl = DReplay res \<Longrightarrow>
   \<exists>r. ex = Some r \<and> rec_requestHash r = h \<and> rs_status res = rec_status r \<and> rs_body res = rec_body r"
  by (auto simp: idem_decide_def split: option.splits if_splits)

lemma refusal_replay: "refusal key d = Some (Inr res) \<Longrightarrow> d = DReplay res"
  by (cases d) auto

text \<open>Entering and leaving the set keeps it in step with the active requests.\<close>

lemma locked_enter:
  assumes "locked c s" and "scoped c i \<notin> set (sy_inflight s)" and "active p"
  shows "locked c (set_phase i p (s\<lparr>sy_inflight := sy_inflight s @ [scoped c i]\<rparr>))"
proof -
  have "{j. active (((sy_phase s)(i := p)) j)} = insert i {j. active (sy_phase s j)}"
    using assms(3) by auto
  moreover have "scoped c i \<noteq> scoped c j" "scoped c j \<noteq> scoped c i" if "active (sy_phase s j)" for j
  proof -
    have "scoped c j \<in> set (sy_inflight s)" using assms(1) that by (simp add: locked_def)
    with assms(2) show "scoped c i \<noteq> scoped c j" "scoped c j \<noteq> scoped c i" by metis+
  qed
  ultimately show ?thesis using assms(1,3) by (auto simp: locked_def)
qed

lemma locked_leave:
  assumes "locked c s" and "active (sy_phase s i)" and "\<not> active p"
  shows "locked c (set_phase i p (s\<lparr>sy_inflight := removeAll (scoped c i) (sy_inflight s)\<rparr>))"
proof -
  have "{j. active (((sy_phase s)(i := p)) j)} = {j. active (sy_phase s j)} - {i}"
    using assms(3) by auto
  moreover have "scoped c ` ({j. active (sy_phase s j)} - {i}) = scoped c ` {j. active (sy_phase s j)} - {scoped c i}"
    using assms(1,2) unfolding locked_def by blast
  ultimately show ?thesis using assms(1) by (auto simp: locked_def)
qed

lemma locked_stay:
  "locked c s \<Longrightarrow> active p = active (sy_phase s i) \<Longrightarrow> locked c (set_phase i p s)"
  by (auto simp: locked_def fun_upd_def image_iff)

lemma locked_store: "locked c s \<Longrightarrow> locked c (s\<lparr>sy_store := x\<rparr>)"
  by (simp add: locked_def)

lemma locked_step: "idem_step c s t \<Longrightarrow> locked c s \<Longrightarrow> locked c t"
proof (induction rule: idem_step.induct)
  case (start s i ex now)
  then show ?case by (auto intro: locked_enter dest: idem_decide_DRun)
next
  case (handler_fail s i now e)
  then show ?case by (simp add: locked_leave)
next
  case (put_fail s i now resp e)
  then show ?case by (simp add: locked_leave)
next
  case (ack s i resp)
  then show ?case by (simp add: locked_leave)
qed (auto intro!: locked_stay locked_store)

lemma locked_reachable: "idem_reachable c s0 s \<Longrightarrow> locked c s"
proof (induction rule: idem_reachable.induct)
  case init
  then show ?case by (simp add: locked_def)
qed (rule locked_step)

text \<open>However the requests of a process interleave, at most one of the requests that share a user
  and an idempotency key is executing its handler or writing its result at any moment.\<close>

theorem handler_mutual_exclusion:
  assumes "idem_reachable c s0 s" and "active (sy_phase s i)" and "active (sy_phase s j)"
    and "scoped c i = scoped c j"
  shows "i = j"
  using locked_reachable[OF assms(1)] assms(2-4) by (auto simp: locked_def)

section \<open>Where a replayed response comes from\<close>

definition provenance :: "('s, 'b) idem_config \<Rightarrow> ('s, 'b, 'e) idem_system \<Rightarrow> bool" where
  "provenance c s \<longleftrightarrow>
     (\<forall>k r. is_get (cf_ops c) k (sy_store s) = Some r \<longrightarrow> genuine c s k r) \<and>
     (\<forall>i r. sy_phase s i = Fetched (Some r) \<longrightarrow> genuine c s (scoped c i) r) \<and>
     (\<forall>i res. sy_phase s i = Finished (Inr res) \<longrightarrow> rs_replayed res \<longrightarrow> genuine_replay c s i res)"

lemma fresh_result_inj: "fresh_result a = fresh_result b \<longleftrightarrow> a = b"
  by (auto simp: fresh_result_def)

lemma fresh_not_replayed [simp]: "\<not> rs_replayed (fresh_result r)"
  by (simp add: fresh_result_def)

text \<open>A step never takes back what a request produced.\<close>

lemma produced_step: "idem_step c s t \<Longrightarrow> produced s j resp \<Longrightarrow> produced t j resp"
  by (induction rule: idem_step.induct) (auto simp: produced_def)

lemma genuine_step: "idem_step c s t \<Longrightarrow> genuine c s k r \<Longrightarrow> genuine c t k r"
  unfolding genuine_def by (blast intro: produced_step)

lemma genuine_replay_step: "idem_step c s t \<Longrightarrow> genuine_replay c s i r \<Longrightarrow> genuine_replay c t i r"
  unfolding genuine_replay_def by (blast intro: produced_step)

text \<open>Which requests' phases and which store entries a step can change.\<close>

lemma provenance_frame:
  assumes "provenance c s" and "idem_step c s t"
    and "\<And>k r. is_get (cf_ops c) k (sy_store t) = Some r \<Longrightarrow>
           is_get (cf_ops c) k (sy_store s) = Some r \<or> genuine c t k r"
    and "\<And>i r. sy_phase t i = Fetched (Some r) \<Longrightarrow> sy_phase s i = Fetched (Some r) \<or> genuine c t (scoped c i) r"
    and "\<And>i res. sy_phase t i = Finished (Inr res) \<Longrightarrow> rs_replayed res \<Longrightarrow>
           sy_phase s i = Finished (Inr res) \<or> genuine_replay c t i res"
  shows "provenance c t"
  using assms(1) genuine_step[OF assms(2)] genuine_replay_step[OF assms(2)] assms(3-5)
  unfolding provenance_def by blast

context idem_store
begin

lemma provenance_step:
  assumes "idem_step c s t" and "cf_ops c = ops" and "provenance c s" and "inv (sy_store s)"
  shows "provenance c t \<and> inv (sy_store t)"
  using assms
proof (induction rule: idem_step.induct)
  case (fetch s i)
  note st = idem_step.fetch[OF fetch.hyps, where c = c]
  have "genuine c (set_phase i (Fetched (is_get (cf_ops c) (scoped c i) (sy_store s))) s) (scoped c i) r"
    if "is_get (cf_ops c) (scoped c i) (sy_store s) = Some r" for r
    using fetch.prems(2) that genuine_step[OF st] by (auto simp: provenance_def)
  then show ?case using fetch.prems
    by (auto intro!: provenance_frame[OF fetch.prems(2) st] split: if_splits)
next
  case (answer s i ex now res)
  note st = idem_step.answer[OF answer.hyps]
  have "genuine_replay c (set_phase i (Finished res) s) i r" if "res = Inr r" "rs_replayed r" for r
  proof -
    from that(1) answer.hyps(2) obtain x where x: "ex = Some x" "rec_requestHash x = req_hash c i"
        "rs_status r = rec_status x" "rs_body r = rec_body x"
      by (auto dest!: refusal_replay idem_decide_DReplay)
    with answer.hyps(1) answer.prems(2) have "genuine c s (scoped c i) x" by (simp add: provenance_def)
    then have "genuine_replay c s i r" using x by (auto simp: genuine_def genuine_replay_def)
    then show ?thesis by (rule genuine_replay_step[OF st])
  qed
  then show ?case using answer.prems
    by (auto intro!: provenance_frame[OF answer.prems(2) st] split: if_splits)
next
  case (commit s i now resp)
  note st = idem_step.commit[OF commit.hyps]
  let ?r = "idem_record_of (cf_req c i) (scoped c i) (req_hash c i) now (cf_ttl c) resp"
  let ?t = "set_phase i (Committed resp) (s\<lparr>sy_store := is_put (cf_ops c) ?r (sy_store s)\<rparr>)"
  have "genuine c ?t (scoped c i) ?r"
    unfolding genuine_def produced_def by (rule exI[of _ i], rule exI[of _ resp]) (simp add: idem_record_of_def)
  moreover have "rec_key ?r = scoped c i" by (simp add: idem_record_of_def)
  ultimately show ?case using commit.prems get_put[OF commit.prems(3)] inv_put
    by (auto intro!: provenance_frame[OF commit.prems(2) st] split: if_splits)
next
  case (cleanup cutoff s n st')
  note st = idem_step.cleanup[OF cleanup.hyps]
  show ?case
    using cleanup get_deleteOlder[of "sy_store s" cutoff n st'] inv_deleteOlder[of "sy_store s" cutoff n st']
    by (auto intro!: provenance_frame[OF cleanup.prems(2) st] split: option.splits if_splits)
next
  case (start s i ex now)
  show ?case using start.prems
    by (auto intro!: provenance_frame[OF start.prems(2) idem_step.start[OF start.hyps]] split: if_splits)
next
  case (handler_ok s i now resp)
  show ?case using handler_ok.prems
    by (auto intro!: provenance_frame[OF handler_ok.prems(2) idem_step.handler_ok[OF handler_ok.hyps]] split: if_splits)
next
  case (handler_fail s i now e)
  show ?case using handler_fail.prems
    by (auto intro!: provenance_frame[OF handler_fail.prems(2) idem_step.handler_fail[OF handler_fail.hyps]] split: if_splits)
next
  case (put_fail s i now resp e)
  show ?case using put_fail.prems
    by (auto intro!: provenance_frame[OF put_fail.prems(2) idem_step.put_fail[OF put_fail.hyps]] split: if_splits)
next
  case (ack s i resp)
  show ?case using ack.prems
    by (auto intro!: provenance_frame[OF ack.prems(2) idem_step.ack[OF ack.hyps]] split: if_splits)
qed

lemma provenance_reachable:
  assumes "idem_reachable c s0 s" and "cf_ops c = ops" and "inv s0" and "\<And>k. is_get ops k s0 = None"
  shows "provenance c s \<and> inv (sy_store s)"
  using assms
proof (induction rule: idem_reachable.induct)
  case init
  then show ?case by (simp add: provenance_def)
qed (use provenance_step in blast)

end

text \<open>Every replayed response of a process that started with an empty store is the status and body
  that a completed handler returned for a request with the same scoped key and the same request hash:
  a replay never leaks another user's or another request's response, in any interleaving and with the
  cleanup cron running.\<close>

theorem replay_is_genuine:
  assumes "idem_reachable c [] s" and "cf_ops c = prisma_idem_ops"
    and "sy_phase s i = Finished (Inr res)" and "rs_replayed res"
  shows "\<exists>j resp. produced s j resp \<and> scoped c j = scoped c i \<and> req_hash c j = req_hash c i \<and>
    rs_status res = ir_status resp \<and> rs_body res = ir_body resp"
proof -
  have "provenance c s"
    using pgi.provenance_reachable[OF assms(1,2)] by (simp add: prisma_idem_ops_def pgi_get_def)
  with assms(3,4) show ?thesis by (auto simp: provenance_def genuine_replay_def)
qed

section \<open>The window the in-flight set leaves open\<close>

lemma idem_decide_first: "k \<notin> set infl \<Longrightarrow> idem_decide h k None now infl = DRun"
  by (simp add: idem_decide_def)

lemma idem_step_to:
  "idem_reachable c s0 s \<Longrightarrow> idem_step c s t' \<Longrightarrow> t = t' \<Longrightarrow> idem_reachable c s0 t"
  by (auto intro: idem_reachable.step)

text \<open>A request that decided to run can run to completion with nothing in between.\<close>

lemma run_to_completion:
  assumes "idem_reachable c s0 s" and "sy_phase s i = Fetched ex"
    and "idem_decide (req_hash c i) (scoped c i) ex now (sy_inflight s) = DRun"
  shows "idem_reachable c s0 (set_phase i (Finished (Inr (fresh_result r)))
    (s\<lparr>sy_store := is_put (cf_ops c) (idem_record_of (cf_req c i) (scoped c i) (req_hash c i) now (cf_ttl c) r)
        (sy_store s)\<rparr>))"
proof -
  have infl: "removeAll (scoped c i) (sy_inflight s) = sy_inflight s"
    using idem_decide_DRun[OF assms(3)] by simp
  let ?run = "set_phase i (Running now) (s\<lparr>sy_inflight := sy_inflight s @ [scoped c i]\<rparr>)"
  have "idem_reachable c s0 ?run"
    using assms by (blast intro: idem_reachable.step idem_step.start)
  then have "idem_reachable c s0 (set_phase i (PutIssued now r) ?run)"
    by (rule idem_reachable.step) (rule idem_step.handler_ok[where now = now], simp)
  then have "idem_reachable c s0 (set_phase i (Committed r) ((set_phase i (PutIssued now r) ?run)\<lparr>sy_store :=
      is_put (cf_ops c) (idem_record_of (cf_req c i) (scoped c i) (req_hash c i) now (cf_ttl c) r)
        (sy_store (set_phase i (PutIssued now r) ?run))\<rparr>))"
    by (rule idem_reachable.step) (rule idem_step.commit, simp)
  then show ?thesis
    by (rule idem_step_to[OF _ idem_step.ack[where i = i and resp = r]])
      (simp_all add: set_phase_def infl)
qed

text \<open>Both requests read the store before either has written it; the second resumes after the first
  has written its result and left the in-flight set, and decides on its stale read.\<close>

text \<open>The in-flight set does not make execution exactly-once even inside one process: for any two
  requests with the same scoped key and any two responses there is an interleaving in which both
  handlers run to completion and both callers get a fresh, non-replayed result, however long the
  cached record of the first is still valid.\<close>

theorem double_execution_possible:
  assumes "scoped c 0 = scoped c (Suc 0)" and "is_get (cf_ops c) (scoped c 0) s0 = None"
  shows "\<exists>s :: ('s, 'b, 'e) idem_system. idem_reachable c s0 s \<and>
    sy_phase s 0 = Finished (Inr (fresh_result r0)) \<and>
    sy_phase s (Suc 0) = Finished (Inr (fresh_result r1))"
proof -
  let ?s0 = "\<lparr>sy_store = s0, sy_inflight = [], sy_phase = (\<lambda>_. Called)\<rparr> :: ('s, 'b, 'e) idem_system"
  let ?s1 = "set_phase 0 (Fetched None) ?s0"
  let ?s2 = "set_phase (Suc 0) (Fetched None) ?s1"
  have "idem_reachable c s0 ?s1"
    by (rule idem_step_to[OF idem_reachable.init idem_step.fetch[where i = 0]]) (simp_all add: assms(2))
  then have "idem_reachable c s0 ?s2"
    by (rule idem_step_to[OF _ idem_step.fetch[where i = "Suc 0"]]) (use assms in simp_all)
  note reach = run_to_completion[OF this, of 0 None 0 r0]
  obtain s3 :: "('s, 'b, 'e) idem_system" where s3: "idem_reachable c s0 s3" "sy_phase s3 0 = Finished (Inr (fresh_result r0))"
      "sy_phase s3 (Suc 0) = Fetched None" "sy_inflight s3 = []"
    by (rule that[OF reach]) (simp_all add: idem_decide_first)
  from run_to_completion[OF s3(1,3), of 0 r1] s3 show ?thesis
    by (auto simp: idem_decide_first set_phase_def)
qed

section \<open>The properties at a concrete configuration\<close>

definition sample_config :: "(nat idem_row list, nat) idem_config" where
  "sample_config = \<lparr>cf_ops = prisma_idem_ops, cf_sha256 = (\<lambda>s. s), cf_le = (\<lambda>_ _. True), cf_ttl = 1000,
     cf_req = (\<lambda>_. \<lparr>in_key = ''k'', in_request = \<lparr>fi_method = ''POST'', fi_path = ''/x'', fi_body = None\<rparr>,
       in_userId = Some ''u''\<rparr>)\<rparr>"

definition sample_response :: "nat idem_response" where
  "sample_response = \<lparr>ir_status = 201, ir_body = 7\<rparr>"

abbreviation sample_init :: "(nat idem_row list, nat, unit) idem_system" where
  "sample_init \<equiv> \<lparr>sy_store = [], sy_inflight = [], sy_phase = (\<lambda>_. Called)\<rparr>"

lemmas sample_defs = sample_config_def sample_response_def prisma_idem_ops_def pgi_get_def pgi_put_def
  idem_record_of_def toRow_def fromRow_def idem_decide_def scoped_def req_hash_def set_phase_def

lemma sample_fetched: "idem_reachable sample_config [] (set_phase 0 (Fetched None) sample_init)"
  by (rule idem_step_to[OF idem_reachable.init idem_step.fetch[where i = 0]])
    (simp_all add: sample_defs)

lemma sample_completed:
  "\<exists>s :: (nat idem_row list, nat, unit) idem_system. idem_reachable sample_config [] s \<and>
     sy_phase s (Suc 0) = Called \<and> sy_inflight s = [] \<and>
     is_get (cf_ops sample_config) (scoped sample_config (Suc 0)) (sy_store s) =
       Some (idem_record_of (cf_req sample_config 0) (scoped sample_config 0) (req_hash sample_config 0) 0 1000
         sample_response)"
  using run_to_completion[OF sample_fetched, of 0 None 0 sample_response]
  by (intro exI conjI, simp_all add: idem_decide_first) (simp_all add: sample_defs)

theorem handler_mutual_exclusion_witness:
  "\<exists>s :: (nat idem_row list, nat, unit) idem_system. idem_reachable sample_config [] s \<and>
     active (sy_phase s 0) \<and> (\<forall>j. active (sy_phase s j) \<longrightarrow> scoped sample_config j = scoped sample_config 0 \<longrightarrow> j = 0)"
proof -
  have "idem_reachable sample_config []
      (set_phase 0 (Running 0) ((set_phase 0 (Fetched None) sample_init)\<lparr>sy_inflight :=
        sy_inflight (set_phase 0 (Fetched None) sample_init) @ [scoped sample_config 0]\<rparr>))"
    by (rule idem_reachable.step[OF sample_fetched], rule idem_step.start[where ex = None])
      (simp_all add: idem_decide_first)
  then show ?thesis
    using handler_mutual_exclusion by (metis active.simps(1) fun_upd_same set_phase_simps(1))
qed

theorem replay_is_genuine_witness:
  "\<exists>s :: (nat idem_row list, nat, unit) idem_system. \<exists>j resp. idem_reachable sample_config [] s \<and>
     sy_phase s (Suc 0) = Finished (Inr \<lparr>rs_status = 201, rs_body = 7, rs_replayed = True\<rparr>) \<and>
     produced s j resp \<and> ir_body resp = 7"
proof -
  obtain s :: "(nat idem_row list, nat, unit) idem_system" where s: "idem_reachable sample_config [] s"
      "sy_phase s (Suc 0) = Called" "sy_inflight s = []"
      "is_get (cf_ops sample_config) (scoped sample_config (Suc 0)) (sy_store s) =
       Some (idem_record_of (cf_req sample_config 0) (scoped sample_config 0) (req_hash sample_config 0) 0 1000
         sample_response)" using sample_completed by blast
  let ?r = "idem_record_of (cf_req sample_config 0) (scoped sample_config 0) (req_hash sample_config 0) 0 1000
         sample_response"
  let ?res = "\<lparr>rs_status = 201, rs_body = 7, rs_replayed = True\<rparr> :: nat idem_resolved"
  have "idem_reachable sample_config [] (set_phase (Suc 0) (Fetched (Some ?r)) s)"
    by (rule idem_step_to[OF s(1) idem_step.fetch[where i = "Suc 0"]]) (simp_all add: s)
  then have r: "idem_reachable sample_config []
      (set_phase (Suc 0) (Finished (Inr ?res)) (set_phase (Suc 0) (Fetched (Some ?r)) s))"
    by (rule idem_step_to[OF _ idem_step.answer[where i = "Suc 0" and now = 5 and ex = "Some ?r"]])
      (simp_all add: s idem_decide_def idem_record_of_def sample_config_def req_hash_def sample_response_def)
  have "\<exists>j resp. produced (set_phase (Suc 0) (Finished (Inr ?res)) (set_phase (Suc 0) (Fetched (Some ?r)) s)) j resp \<and>
      scoped sample_config j = scoped sample_config (Suc 0) \<and> req_hash sample_config j = req_hash sample_config (Suc 0) \<and>
      rs_status ?res = ir_status resp \<and> rs_body ?res = ir_body resp"
    by (rule replay_is_genuine[OF r]) (simp_all add: sample_config_def)
  then show ?thesis using r by (metis fun_upd_same idem_resolved.select_convs(2) set_phase_simps(1))
qed

theorem double_execution_possible_witness:
  "\<exists>s :: (nat idem_row list, nat, unit) idem_system. idem_reachable sample_config [] s \<and>
    sy_phase s 0 = Finished (Inr (fresh_result sample_response)) \<and>
    sy_phase s (Suc 0) = Finished (Inr (fresh_result sample_response))"
  by (rule double_execution_possible) (simp_all add: sample_defs)

end
