(* ===== verification/Fingerprint.thy ===== *)
theory Fingerprint
  imports Idempotency "HOL-Library.Multiset"
begin

text \<open>
  Properties of the request fingerprint and of the sequential \<open>runOrCache\<close>: the stable printing
  ignores member order and nothing else, scoped keys separate users, and a completed call is replayed.
\<close>

section \<open>Member order does not matter\<close>

text \<open>Equality of JSON values up to the order of object members, at any depth.\<close>

inductive json_eq :: "json \<Rightarrow> json \<Rightarrow> bool" where
  same: "json_eq v v"
| arr: "list_all2 json_eq vs ws \<Longrightarrow> json_eq (JArr vs) (JArr ws)"
| obj: "map fst es = map fst fs \<Longrightarrow> list_all2 json_eq (map snd es) (map snd fs) \<Longrightarrow> distinct (map fst es) \<Longrightarrow>
    mset fs = mset gs \<Longrightarrow> json_eq (JObj es) (JObj gs)"

text \<open>The shape of the source: sort the entries, then print them.\<close>

lemma stableStringify_obj:
  "stableStringify le (JObj es) = ''{'' @ join '','' (map (\<lambda>(k, v). quote_string k @ '':'' @ stableStringify le v)
     (sort_by (\<lambda>a b. le (fst a) (fst b)) es)) @ ''}''"
  by (simp add: sort_by_map case_prod_unfold o_def)

locale collation =
  fixes le :: "string \<Rightarrow> string \<Rightarrow> bool"
  assumes total: "le x y \<or> le y x"
    and trans: "le x y \<Longrightarrow> le y z \<Longrightarrow> le x z"
    and antisym: "le x y \<Longrightarrow> le y x \<Longrightarrow> x = y"
begin

abbreviation before :: "(string \<times> 'v) \<Rightarrow> (string \<times> 'v) \<Rightarrow> bool" where
  "before a b \<equiv> le (fst a) (fst b)"

lemma sort_by_mset:
  assumes "mset xs = mset ys" and "distinct (map fst xs)"
  shows "sort_by before xs = sort_by before ys"
proof -
  have comm: "insert_by before a \<circ> insert_by before b = insert_by before b \<circ> insert_by before a"
    if "a \<in> set xs" "b \<in> set xs" for a b
  proof (rule ext, simp, rule insert_by_commute)
    show "a = b" if "before a b" "before b a"
      using that antisym \<open>a \<in> set xs\<close> \<open>b \<in> set xs\<close> assms(2) by (auto simp: distinct_map dest: inj_onD)
  qed (use total trans in blast)+
  have "fold (insert_by before) (rev xs) = fold (insert_by before) (rev ys)"
    by (rule fold_multiset_equiv) (use comm assms(1) in auto)
  then show ?thesis by (simp add: sort_by_def foldr_conv_fold)
qed

lemma stableStringify_json_eq: "json_eq v w \<Longrightarrow> stableStringify le v = stableStringify le w"
proof (induction rule: json_eq.induct)
  case (arr vs ws)
  then have "map (stableStringify le) vs = map (stableStringify le) ws"
    by (induction rule: list_all2_induct) auto
  then show ?case by simp
next
  case (obj es fs gs)
  let ?p = "\<lambda>(k, v). (k, quote_string k @ '':'' @ stableStringify le v)"
  have pe: "map ?p es = map ?p fs"
    using obj.hyps(1) obj.IH
  proof (induction es arbitrary: fs)
    case (Cons e es)
    then show ?case by (cases fs) (auto simp: case_prod_unfold)
  qed simp
  have "distinct (map fst (map ?p fs))" using obj.hyps(1,2) by (simp add: o_def case_prod_unfold)
  moreover have "mset (map ?p fs) = mset (map ?p gs)" using obj.hyps(3) by simp
  ultimately have "sort_by before (map ?p fs) = sort_by before (map ?p gs)" by (rule sort_by_mset[rotated])
  then show ?case using pe by simp
qed simp

end

text \<open>Code-unit order is such a collation: the comparison of ASCII keys.\<close>

fun codeunit_le :: "string \<Rightarrow> string \<Rightarrow> bool" where
  "codeunit_le [] _ = True"
| "codeunit_le (_ # _) [] = False"
| "codeunit_le (a # as) (b # bs) =
     (let m = of_char a :: nat; n = of_char b in m < n \<or> (m = n \<and> codeunit_le as bs))"

interpretation codeunit: collation codeunit_le
proof
  fix x y z :: string
  show "codeunit_le x y \<or> codeunit_le y x"
    by (induction x y rule: codeunit_le.induct) (auto simp: Let_def)
  show "codeunit_le x y \<Longrightarrow> codeunit_le y z \<Longrightarrow> codeunit_le x z"
  proof (induction x y arbitrary: z rule: codeunit_le.induct)
    case (3 a as b bs)
    then show ?case by (cases z) (auto simp: Let_def)
  qed (auto split: list.splits)
  show "codeunit_le x y \<Longrightarrow> codeunit_le y x \<Longrightarrow> x = y"
  proof (induction x y rule: codeunit_le.induct)
    case (1 y)
    then show ?case by (cases y) auto
  qed (auto simp: Let_def)
qed

section \<open>Nothing else is lost\<close>

text \<open>\<open>stableStringify\<close> prints the value whose members are sorted at every depth.\<close>

fun normal :: "(string \<Rightarrow> string \<Rightarrow> bool) \<Rightarrow> json \<Rightarrow> json" where
  "normal le (JArr vs) = JArr (map (normal le) vs)"
| "normal le (JObj es) = JObj (sort_by (\<lambda>a b. le (fst a) (fst b)) (map (\<lambda>(k, v). (k, normal le v)) es))"
| "normal le v = v"

fun plain :: "json \<Rightarrow> string" where
  "plain JNull = ''null''"
| "plain (JBool b) = (if b then ''true'' else ''false'')"
| "plain (JNum n) = show_int n"
| "plain (JStr s) = quote_string s"
| "plain (JArr vs) = ''['' @ join '','' (map plain vs) @ '']''"
| "plain (JObj es) = ''{'' @ join '','' (map (\<lambda>(k, v). quote_string k @ '':'' @ plain v) es) @ ''}''"

lemma stableStringify_plain: "stableStringify le v = plain (normal le v)"
proof (induction v)
  case (JObj es)
  let ?p = "\<lambda>(k, v). (k, quote_string k @ '':'' @ stableStringify le v)"
  let ?n = "\<lambda>(k, v). (k, normal le v)"
  let ?q = "\<lambda>(k, v). quote_string k @ '':'' @ plain v"
  have "?p e = (fst (?n e), ?q (?n e))" if "e \<in> set es" for e
    using JObj[OF that] by (cases e) auto
  then have eq: "map ?p es = map (\<lambda>e. (fst e, ?q e)) (map ?n es)" by simp
  show ?case unfolding stableStringify.simps normal.simps plain.simps eq sort_by_map
    by (simp add: o_def case_prod_unfold)
qed (auto simp: o_def intro!: arg_cong[where f = "join _"])

text \<open>Printing is injective, also before any continuation that does not extend a number.\<close>

definition stops :: "string \<Rightarrow> bool" where
  "stops r = (r = [] \<or> \<not> is_digit (hd r))"

lemma stops_Cons [simp]: "stops (c # r) = (\<not> is_digit c)"
  by (simp add: stops_def)

lemma takeWhile_show_nat: "stops r \<Longrightarrow> takeWhile is_digit (show_nat n @ r) = show_nat n"
  using show_nat_digits[of n] by (cases r) (auto simp: stops_def takeWhile_append2)

lemma show_nat_prefix: "stops r \<Longrightarrow> stops r' \<Longrightarrow> show_nat m @ r = show_nat n @ r' \<Longrightarrow> m = n \<and> r = r'"
  by (metis same_append_eq show_nat_inj takeWhile_show_nat)

lemma show_nat_no_minus: "show_nat n @ r \<noteq> CHR ''-'' # r'"
  using hd_show_nat[of n] show_nat_ne[of n] minus_no_digit by (metis hd_append2 list.sel(1))

lemma show_int_prefix:
  assumes "stops r" and "stops r'" and "show_int m @ r = show_int n @ r'"
  shows "m = n \<and> r = r'"
proof (cases "m < 0"; cases "n < 0")
  assume "m < 0" "n < 0"
  with assms(3) have "show_nat (nat (- m)) @ r = show_nat (nat (- n)) @ r'" by (simp add: show_int_def)
  from show_nat_prefix[OF assms(1,2) this] have "nat (- m) = nat (- n)" "r = r'" by simp_all
  with \<open>m < 0\<close> \<open>n < 0\<close> show ?thesis by simp
next
  assume "\<not> m < 0" "\<not> n < 0"
  with assms(3) have "show_nat (nat m) @ r = show_nat (nat n) @ r'" by (simp add: show_int_def)
  from show_nat_prefix[OF assms(1,2) this] have "nat m = nat n" "r = r'" by simp_all
  with \<open>\<not> m < 0\<close> \<open>\<not> n < 0\<close> show ?thesis by simp
next
  assume "m < 0" "\<not> n < 0"
  with assms(3) have "show_nat (nat n) @ r' = CHR ''-'' # (show_nat (nat (- m)) @ r)" by (simp add: show_int_def)
  then show ?thesis using show_nat_no_minus by metis
next
  assume "\<not> m < 0" "n < 0"
  with assms(3) show ?thesis using show_nat_no_minus[of "nat m" r] by (simp add: show_int_def)
qed

text \<open>The characters that are escaped, and the shapes of their escapes.\<close>

definition specials :: "char list" where
  "specials = map char_of ([0..<32] @ [34, 92 :: nat])"

definition escape_shape :: "string \<Rightarrow> bool" where
  "escape_shape e = (e \<noteq> [] \<and> hd e = CHR 0x5C \<and>
     (length e = 2 \<and> e ! 1 \<noteq> CHR ''u'' \<or> length e = 6 \<and> e ! 1 = CHR ''u''))"

lemma specials_shape: "list_all (\<lambda>c. escape_shape (escape_char c)) specials"
proof -
  have "escape_shape (escape_char c)" if "(of_char c :: nat) < 32 \<or> of_char c = (34 :: nat) \<or> of_char c = (92 :: nat)" for c
    using that by (auto simp: escape_shape_def escape_char_def Let_def)
  then show ?thesis by (auto simp: specials_def list_all_iff)
qed

lemma specials_distinct: "distinct (map escape_char specials)"
  by code_simp

lemma not_special: "c \<notin> set specials \<Longrightarrow> escape_char c = [c] \<and> c \<noteq> CHR 0x5C \<and> c \<noteq> CHR 0x22"
proof -
  assume c: "c \<notin> set specials"
  have "\<not> (of_char c :: nat) < 32" "of_char c \<noteq> (34 :: nat)" "of_char c \<noteq> (92 :: nat)"
    using c by (auto simp: specials_def image_iff) (metis atLeastLessThan_iff char_of_char le0)+
  then show ?thesis by (auto simp: escape_char_def Let_def)
qed

lemma shape_prefix:
  assumes "escape_shape e" and "escape_shape f" and "e @ x = f @ y"
  shows "e = f \<and> x = y"
proof -
  have "(e @ x) ! 1 = e ! 1" "(f @ y) ! 1 = f ! 1"
    using assms(1,2) by (auto simp: escape_shape_def nth_append)
  then have "length e = length f" using assms by (auto simp: escape_shape_def)
  with assms(3) show ?thesis by simp
qed

lemma escape_char_prefix:
  assumes "escape_char c @ x = escape_char d @ y"
  shows "c = d \<and> x = y"
proof (cases "c \<in> set specials"; cases "d \<in> set specials")
  assume s: "c \<in> set specials" "d \<in> set specials"
  then have "escape_char c = escape_char d \<and> x = y"
    using specials_shape assms by (intro shape_prefix) (auto simp: list_all_iff)
  then show ?thesis using s specials_distinct by (auto simp: distinct_map dest: inj_onD)
next
  assume "c \<in> set specials" "d \<notin> set specials"
  then have "escape_shape (escape_char c)" "escape_char d = [d]" "d \<noteq> CHR 0x5C"
    using specials_shape not_special[of d] by (auto simp: list_all_iff)
  then show ?thesis using assms by (cases "escape_char c") (auto simp: escape_shape_def)
next
  assume "c \<notin> set specials" "d \<in> set specials"
  then have "escape_shape (escape_char d)" "escape_char c = [c]" "c \<noteq> CHR 0x5C"
    using specials_shape not_special[of c] by (auto simp: list_all_iff)
  then show ?thesis using assms by (cases "escape_char d") (auto simp: escape_shape_def)
next
  assume "c \<notin> set specials" "d \<notin> set specials"
  then show ?thesis using assms not_special[of c] not_special[of d] by simp
qed

lemma escape_char_hd: "\<exists>b t. escape_char c = b # t \<and> b \<noteq> CHR 0x22"
proof (cases "c \<in> set specials")
  case True
  then have "escape_shape (escape_char c)" using specials_shape by (auto simp: list_all_iff)
  then show ?thesis by (cases "escape_char c") (auto simp: escape_shape_def)
next
  case False
  with not_special[of c] show ?thesis by auto
qed

lemma escaped_prefix:
  "concat (map escape_char s) @ CHR 0x22 # r = concat (map escape_char t) @ CHR 0x22 # r' \<Longrightarrow> s = t \<and> r = r'"
proof (induction s arbitrary: t)
  case Nil
  then show ?case
  proof (cases t)
    case (Cons d t')
    obtain b u where "escape_char d = b # u" "b \<noteq> CHR 0x22" using escape_char_hd by blast
    with Nil Cons show ?thesis by auto
  qed simp
next
  case (Cons c s)
  obtain b u where "escape_char c = b # u" "b \<noteq> CHR 0x22" using escape_char_hd by blast
  then obtain d t' where t: "t = d # t'" using Cons.prems by (cases t) auto
  with Cons.prems have "escape_char c @ (concat (map escape_char s) @ CHR 0x22 # r) =
      escape_char d @ (concat (map escape_char t') @ CHR 0x22 # r')" by simp
  with escape_char_prefix Cons.IH t show ?case by blast
qed

lemma quote_string_prefix: "quote_string s @ r = quote_string t @ r' \<Longrightarrow> s = t \<and> r = r'"
  using escaped_prefix[of s r t r'] by (simp add: quote_string_def)

lemma join_Cons: "join sep (x # xs) = x @ concat (map (\<lambda>y. sep @ y) xs)"
  by (induction xs arbitrary: x) auto

text \<open>A comma-separated list between brackets is printed injectively when its elements are.\<close>

lemma join_prefix:
  assumes el: "\<And>x y r r'. x \<in> set xs \<Longrightarrow> stops r \<Longrightarrow> stops r' \<Longrightarrow> f x @ r = f y @ r' \<Longrightarrow> x = y \<and> r = r'"
    and hd: "\<And>x. f x \<noteq> [] \<and> hd (f x) \<noteq> c" and c: "c \<noteq> CHR '',''" "\<not> is_digit c"
    and eq: "join '','' (map f xs) @ c # r = join '','' (map f ys) @ c # r'"
  shows "xs = ys \<and> r = r'"
proof -
  let ?t = "\<lambda>zs. concat (map (\<lambda>z. '','' @ f z) zs)"
  have comma: "\<not> is_digit (CHR '','')" by (simp add: is_digit_def)
  have st: "stops (?t zs @ c # s)" for zs s using c comma by (cases zs) auto
  have tails: "xs' = ys' \<and> r = r'"
    if "?t xs' @ c # r = ?t ys' @ c # r'" "set xs' \<subseteq> set xs" for xs' ys'
    using that
  proof (induction xs' arbitrary: ys')
    case Nil
    then show ?case using c by (cases ys') auto
  next
    case (Cons x xs')
    then obtain y ys'' where ys: "ys' = y # ys''" using c by (cases ys') auto
    with Cons.prems have "f x @ (?t xs' @ c # r) = f y @ (?t ys'' @ c # r')" by simp
    from el[OF _ st st this] Cons.prems(2) have "x = y \<and> ?t xs' @ c # r = ?t ys'' @ c # r'" by simp
    with Cons ys show ?case by simp
  qed
  show ?thesis
  proof (cases xs; cases ys)
    fix x xs' y ys' assume xy: "xs = x # xs'" "ys = y # ys'"
    with eq have "f x @ (?t xs' @ c # r) = f y @ (?t ys' @ c # r')" by (simp add: join_Cons o_def)
    from el[OF _ st st this] xy have "x = y \<and> ?t xs' @ c # r = ?t ys' @ c # r'" by simp
    with tails[of xs' ys'] xy show ?thesis by auto
  next
    fix x xs' assume "xs = x # xs'" "ys = []"
    with eq hd[of x] show ?thesis by (cases "f x") (auto simp: join_Cons)
  next
    fix y ys' assume "xs = []" "ys = y # ys'"
    with eq hd[of y] show ?thesis by (cases "f y") (auto simp: join_Cons)
  qed (use eq in auto)
qed

text \<open>The first character of a printed value tells its kind.\<close>

fun kind_ok :: "json \<Rightarrow> char \<Rightarrow> bool" where
  "kind_ok JNull c = (c = CHR ''n'')"
| "kind_ok (JBool b) c = (c = (if b then CHR ''t'' else CHR ''f''))"
| "kind_ok (JNum _) c = (is_digit c \<or> c = CHR ''-'')"
| "kind_ok (JStr _) c = (c = CHR 0x22)"
| "kind_ok (JArr _) c = (c = CHR ''['')"
| "kind_ok (JObj _) c = (c = CHR ''{'')"

lemma plain_kind: "\<exists>c t. plain v = c # t \<and> kind_ok v c"
proof (cases v)
  case (JNum n)
  then show ?thesis
    using hd_show_nat[of "nat n"] show_nat_ne[of "nat n"]
    by (cases "show_nat (nat n)") (auto simp: show_int_def)
qed (auto simp: quote_string_def)

lemma plain_hd: "plain v \<noteq> [] \<and> hd (plain v) \<noteq> CHR '']''"
  using plain_kind[of v] by (cases v) (auto simp: is_digit_def split: if_splits)

lemma kind_eq: "plain v @ r = plain w @ r' \<Longrightarrow> \<exists>c. kind_ok v c \<and> kind_ok w c"
  using plain_kind[of v] plain_kind[of w] by (metis append_Cons list.inject)

lemma plain_prefix:
  "stops r \<Longrightarrow> stops r' \<Longrightarrow> plain v @ r = plain w @ r' \<Longrightarrow> v = w \<and> r = r'"
proof (induction v arbitrary: w r r')
  case (JArr vs)
  from kind_eq[OF JArr.prems(3)] obtain ws where w: "w = JArr ws"
    by (cases w) (auto simp: is_digit_def split: if_splits)
  with JArr.prems(3) have eq: "join '','' (map plain vs) @ CHR '']'' # r = join '','' (map plain ws) @ CHR '']'' # r'"
    by simp
  have "vs = ws \<and> r = r'"
    by (rule join_prefix[OF _ plain_hd _ _ eq]) (use JArr.IH in \<open>auto simp: is_digit_def\<close>)
  with w show ?case by simp
next
  case (JObj es)
  let ?f = "\<lambda>(k, v). quote_string k @ '':'' @ plain v"
  from kind_eq[OF JObj.prems(3)] obtain fs where w: "w = JObj fs"
    by (cases w) (auto simp: is_digit_def split: if_splits)
  with JObj.prems(3) have eq: "join '','' (map ?f es) @ CHR ''}'' # r = join '','' (map ?f fs) @ CHR ''}'' # r'"
    by simp
  have el: "x = y \<and> s = s'" if "x \<in> set es" "stops s" "stops s'" "?f x @ s = ?f y @ s'" for x y s s'
    using that JObj.IH[of x "snd x" s s' "snd y", OF that(1) snds.intros] quote_string_prefix[of "fst x" "'':'' @ plain (snd x) @ s" "fst y"]
    by (auto simp: case_prod_unfold prod_eq_iff)
  have "es = fs \<and> r = r'"
    by (rule join_prefix[OF el _ _ _ eq]) (auto simp: quote_string_def is_digit_def)
  with w show ?case by simp
next
  case (JNum n)
  from kind_eq[OF JNum.prems(3)] obtain m where w: "w = JNum m"
    by (cases w) (auto simp: is_digit_def split: if_splits)
  with show_int_prefix[OF JNum.prems(1,2)] JNum.prems(3) show ?case by simp
next
  case (JStr s)
  from kind_eq[OF JStr.prems(3)] obtain t where w: "w = JStr t"
    by (cases w) (auto simp: is_digit_def split: if_splits)
  with quote_string_prefix[of s r t r'] JStr.prems(3) show ?case by simp
next
  case JNull
  from kind_eq[OF JNull.prems(3)] have w: "w = JNull"
    by (cases w) (auto simp: is_digit_def split: if_splits)
  with JNull show ?case by simp
next
  case (JBool b)
  from kind_eq[OF JBool.prems(3)] have w: "w = JBool b"
    by (cases w; cases b) (auto simp: is_digit_def split: if_splits)
  with JBool show ?case by simp
qed

lemma plain_injective: "inj plain"
proof (rule injI)
  fix v w assume "plain v = plain w"
  then show "v = w" using plain_prefix[of "[]" "[]" v w] by (simp add: stops_def)
qed

lemma plain_not_undefined: "plain v \<noteq> ''undefined''"
  using plain_kind[of v] by (cases v) (auto simp: is_digit_def split: if_splits)

text \<open>Two requests have the same fingerprint exactly when their methods agree up to letter case,
  their paths agree, and their bodies are both absent or agree once object members are sorted at every
  depth.  (Methods and paths contain no line feed, as in HTTP.)\<close>

theorem fingerprint_exact:
  assumes "CHR 0x0A \<notin> set (toUpperCase (fi_method p))" and "CHR 0x0A \<notin> set (toUpperCase (fi_method q))"
    and "CHR 0x0A \<notin> set (fi_path p)" and "CHR 0x0A \<notin> set (fi_path q)"
  shows "fingerprint le p = fingerprint le q \<longleftrightarrow>
    toUpperCase (fi_method p) = toUpperCase (fi_method q) \<and> fi_path p = fi_path q \<and>
    map_option (normal le) (fi_body p) = map_option (normal le) (fi_body q)"
proof -
  let ?b = "\<lambda>r. case fi_body r of None \<Rightarrow> ''undefined'' | Some v \<Rightarrow> plain (normal le v)"
  have "?b p = ?b q \<longleftrightarrow> map_option (normal le) (fi_body p) = map_option (normal le) (fi_body q)"
    by (cases "fi_body p"; cases "fi_body q")
      (simp_all add: plain_not_undefined plain_not_undefined[symmetric] inj_eq[OF plain_injective])
  then show ?thesis
    using assms by (simp add: fingerprint_def stableStringify_plain append_sep_inj cong: option.case_cong)
qed

section \<open>Scoped keys and sequential behaviour\<close>

text \<open>The scoped storage key determines the user and the client's key, for users whose id is not the
  word \<open>anon\<close> and contains no colon (the ids are UUIDs): two different users, or an authenticated and an
  anonymous caller, never share a cached response.\<close>

theorem scope_separates_users:
  assumes "\<forall>u. userId = Some u \<or> userId' = Some u \<longrightarrow> u \<noteq> ''anon'' \<and> CHR '':'' \<notin> set u"
    and "scopeIdempotencyKey key userId = scopeIdempotencyKey key' userId'"
  shows "key = key' \<and> userId = userId'"
proof -
  have col: "CHR '':'' \<notin> set (nullish userId ''anon'')" "CHR '':'' \<notin> set (nullish userId' ''anon'')"
    using assms(1) by (auto simp: nullish_def split: option.splits)
  from assms(2) have "nullish userId ''anon'' @ CHR '':'' # (CHR '':'' # key) =
      nullish userId' ''anon'' @ CHR '':'' # (CHR '':'' # key')"
    by (simp add: scopeIdempotencyKey_def)
  with append_sep_inj[OF col] have "nullish userId ''anon'' = nullish userId' ''anon''" "key = key'" by simp_all
  then show ?thesis using assms(1) by (cases userId; cases userId') auto
qed

text \<open>After a call that ran its handler to a response, every call with the same scoped key before the
  record expires is answered from the cache: the stored status and body with the replay mark if the request
  hash is the same, the conflict error otherwise; the handler is not run and nothing is written.  Stated
  for the Postgres store.\<close>

theorem completed_call_is_replayed:
  assumes "distinct (map row_key (ids_store st))"
    and "runOrCache prisma_idem_ops sha le ttl t1 i1 (Inr resp) st = (Inr res, st1)" and "\<not> rs_replayed res"
    and "scopeIdempotencyKey (in_key i2) (in_userId i2) = scopeIdempotencyKey (in_key i1) (in_userId i1)"
    and "t2 < t1 + ttl"
  shows "runOrCache prisma_idem_ops sha le ttl t2 i2 h st1 =
    (if computeRequestHash sha le (in_request i2) = computeRequestHash sha le (in_request i1)
     then Inr \<lparr>rs_status = ir_status resp, rs_body = ir_body resp, rs_replayed = True\<rparr>
     else Inl (IdempotencyConflict (in_key i2)), st1)"
  by (rule pgi.run_then_replay[OF assms])

lemma failed_handler_releases:
  assumes "scopeIdempotencyKey (in_key i) (in_userId i) \<notin> set (ids_inflight st)"
    and "runOrCache ops sha le ttl t i (Inl e) st = (Inl (HandlerError e'), st')"
  shows "st' = st"
proof -
  have "removeAll k (xs @ [k]) = xs" if "k \<notin> set xs" for k :: string and xs
    using that by simp
  with assms show ?thesis
    by (auto simp: runOrCache_def Let_def split: idem_decision.splits)
qed

text \<open>A handler that throws is never cached: the state after the call is the state before it, so the
  same key can be retried and runs its handler again.\<close>

theorem failed_handler_retryable:
  assumes "ids_inflight st = []"
    and "runOrCache ops sha le ttl t i (Inl e) st = (Inl (HandlerError e'), st')"
  shows "st' = st \<and> e' = e \<and> fst (runOrCache ops sha le ttl t i (Inr resp) st') =
    Inr \<lparr>rs_status = ir_status resp, rs_body = ir_body resp, rs_replayed = False\<rparr>"
proof -
  have "st' = st" by (rule failed_handler_releases[OF _ assms(2)]) (simp add: assms(1))
  with assms(2) show ?thesis by (auto simp: runOrCache_def Let_def split: idem_decision.splits)
qed

text \<open>The cleanup cron is invisible: a run with cutoff \<open>c\<close> changes no decision that \<open>runOrCache\<close> takes at
  any time from \<open>c\<close> on, whichever store is bound and whether or not the database call succeeds.\<close>

theorem cleanup_invisible:
  assumes "distinct (map row_key s)"
    and "cleanup_runOnce prisma_idem_ops capable dbOk c s = (res, s')" and "c \<le> now"
    and "distinct (map fst m)"
    and "cleanup_runOnce memory_idem_ops capable dbOk c m = (res', m')"
  shows "idem_decide h k (pgi_get k s') now inflight = idem_decide h k (pgi_get k s) now inflight \<and>
    idem_decide h k (memi_get k m') now inflight = idem_decide h k (memi_get k m) now inflight"
  using pgi.decide_after_cleanup[OF assms(1-3), of h k inflight]
    memi.decide_after_cleanup[OF assms(4,5,3), of h k inflight]
  by (simp add: prisma_idem_ops_def memory_idem_ops_def)

section \<open>The properties at concrete inputs\<close>

definition sample_fp :: "json option \<Rightarrow> fingerprint_input" where
  "sample_fp b = \<lparr>fi_method = ''post'', fi_path = ''/a'', fi_body = b\<rparr>"

definition sample_input :: "json option \<Rightarrow> run_input" where
  "sample_input b = \<lparr>in_key = ''k'', in_request = sample_fp b, in_userId = Some ''u''\<rparr>"

definition sample_start :: "nat idem_row list idem_state" where
  "sample_start = \<lparr>ids_store = [], ids_inflight = []\<rparr>"

definition sample_done :: "nat idem_row list idem_state" where
  "sample_done = snd (runOrCache prisma_idem_ops (\<lambda>s. s) codeunit_le 100 0 (sample_input None)
     (Inr \<lparr>ir_status = 201, ir_body = 7\<rparr> :: nat + nat idem_response) sample_start)"

lemma sample_run:
  "runOrCache prisma_idem_ops (\<lambda>s. s) codeunit_le 100 0 (sample_input None)
     (Inr \<lparr>ir_status = 201, ir_body = 7\<rparr> :: nat + nat idem_response) sample_start =
   (Inr \<lparr>rs_status = 201, rs_body = 7, rs_replayed = False\<rparr>, sample_done)"
  by code_simp

theorem fingerprint_exact_witness:
  "fingerprint codeunit_le (sample_fp None) \<noteq> fingerprint codeunit_le (sample_fp (Some JNull))"
  by (subst fingerprint_exact) code_simp+

theorem scope_separates_users_witness:
  "scopeIdempotencyKey ''k'' (Some ''u'') \<noteq> scopeIdempotencyKey ''k'' None"
  using scope_separates_users[of "Some ''u''" None "''k''" "''k''"] by auto

theorem completed_call_is_replayed_witness:
  "runOrCache prisma_idem_ops (\<lambda>s. s) codeunit_le 100 50 (sample_input None) (Inl (0::nat)) sample_done =
   (Inr \<lparr>rs_status = 201, rs_body = 7, rs_replayed = True\<rparr>, sample_done)"
  by (subst completed_call_is_replayed[OF _ sample_run]) (simp_all add: sample_input_def sample_start_def)

theorem failed_handler_retryable_witness:
  "fst (runOrCache prisma_idem_ops (\<lambda>s. s) codeunit_le 100 0 (sample_input None)
     (Inr \<lparr>ir_status = 201, ir_body = 7\<rparr> :: nat + nat idem_response) sample_start) =
   Inr \<lparr>rs_status = 201, rs_body = 7, rs_replayed = False\<rparr>"
proof -
  have fail: "runOrCache prisma_idem_ops (\<lambda>s. s) codeunit_le 100 0 (sample_input None) (Inl (0::nat)) sample_start =
    (Inl (HandlerError 0), sample_start)" by code_simp
  show ?thesis
    using failed_handler_retryable[OF _ fail, of "\<lparr>ir_status = 201, ir_body = 7\<rparr>"]
    by (simp add: sample_start_def)
qed

theorem cleanup_invisible_witness:
  "idem_decide ''h'' ''u::k'' (pgi_get ''u::k''
      (snd (cleanup_runOnce prisma_idem_ops True True 50 (ids_store sample_done)))) 60 [] =
   idem_decide ''h'' ''u::k'' (pgi_get ''u::k'' (ids_store sample_done)) 60 []"
proof -
  have pg: "cleanup_runOnce prisma_idem_ops True True 50 (ids_store sample_done) = ((50, Some 0), ids_store sample_done)"
    by code_simp
  have mem: "cleanup_runOnce memory_idem_ops True True 50 ([] :: nat memory_idem) = ((50, Some 0), [])"
    by code_simp
  have "distinct (map row_key (ids_store sample_done))" by code_simp
  from cleanup_invisible[OF this pg _ _ mem, of 60 "''h''" "''u::k''" "[]"] show ?thesis
    by (simp add: pg)
qed

end
