(* ===== verification/Throttler.thy ===== *)
theory Throttler
  imports Js_Prelude
begin

text \<open>
  The rate limiter of \<open>src/core/throttler\<close>: \<open>throttler.ts\<close> (storage adapter and multi-window
  \<open>consume\<close>), \<open>throttler-postgres-backend.ts\<close> (the SQL upsert and the admin queries),
  \<open>throttler-cleanup.ts\<close>, \<open>bucket-key.ts\<close>.

  The table is a list of rows with distinct keys; an SQL statement is one atomic table operation.  The
  process clock (\<open>now\<close>) and the database clock (\<open>NOW()\<close>, here \<open>dbNow\<close>) are separate arguments.
\<close>

section \<open>Bucket keys\<close>

record bucket_subject =
  bs_method :: string
  bs_path :: string
  bs_apiKeyId :: "string option"
  bs_userId :: "string option"
  bs_ip :: "string option"

datatype throttler_error =
    ThrottleBucketKeyMissing
  | TtlNotPositive millis
  | WindowsEmpty

definition pickIdentity :: "bucket_subject \<Rightarrow> throttler_error + string" where
  "pickIdentity s =
     (if truthy_opt (bs_apiKeyId s) then Inr (''apiKey:'' @ the (bs_apiKeyId s))
      else if truthy_opt (bs_userId s) then Inr (''user:'' @ the (bs_userId s))
      else if truthy_opt (bs_ip s) then Inr (''ip:'' @ the (bs_ip s))
      else Inl ThrottleBucketKeyMissing)"

definition buildThrottleBucketKey :: "bucket_subject \<Rightarrow> throttler_error + string" where
  "buildThrottleBucketKey s =
     (case pickIdentity s of
        Inl e \<Rightarrow> Inl e
      | Inr identity \<Rightarrow> Inr (identity @ '':'' @ toUpperCase (bs_method s) @ '':'' @ bs_path s))"

section \<open>The Postgres backend\<close>

record backend_row =
  br_count :: int
  br_expiresAt :: millis

record throttler_record =
  tr_key :: string
  tr_count :: int
  tr_expires :: millis

type_synonym throttler_table = "throttler_record list"

text \<open>\<open>INSERT \<dots> ON CONFLICT (key) DO UPDATE \<dots> RETURNING\<close>.\<close>

definition hit_row :: "millis \<Rightarrow> millis \<Rightarrow> throttler_record \<Rightarrow> throttler_record" where
  "hit_row dbNow newExpiresAt r =
     r\<lparr>tr_count := (if tr_expires r > dbNow then tr_count r + 1 else 1),
       tr_expires := (if tr_expires r > dbNow then tr_expires r else newExpiresAt)\<rparr>"

definition upsert ::
  "millis \<Rightarrow> string \<Rightarrow> millis \<Rightarrow> millis \<Rightarrow> throttler_table \<Rightarrow> (throttler_error + backend_row) \<times> throttler_table" where
  "upsert dbNow key ttlMs now t =
     (if ttlMs \<le> 0 then (Inl (TtlNotPositive ttlMs), t)
      else
        let newExpiresAt = now + ttlMs;
            t' = (if key \<in> tr_key ` set t then update_where (\<lambda>r. tr_key r = key) (hit_row dbNow newExpiresAt) t
                  else t @ [\<lparr>tr_key = key, tr_count = 1, tr_expires = newExpiresAt\<rparr>]);
            r = the (find_first (\<lambda>r. tr_key r = key) t')
        in (Inr \<lparr>br_count = tr_count r, br_expiresAt = tr_expires r\<rparr>, t'))"

definition reset_key :: "string \<Rightarrow> throttler_table \<Rightarrow> throttler_table" where
  "reset_key key t = filter (\<lambda>r. tr_key r \<noteq> key) t"

definition resetThrottlerKey :: "string \<Rightarrow> throttler_table \<Rightarrow> bool \<times> throttler_table" where
  "resetThrottlerKey key t = (filter (\<lambda>r. tr_key r = key) t \<noteq> [], filter (\<lambda>r. tr_key r \<noteq> key) t)"

text \<open>\<open>LIKE\<close> with the pattern characters \<open>%\<close> and \<open>_\<close> and the escape character backslash.\<close>

fun sql_like :: "string \<Rightarrow> string \<Rightarrow> bool" where
  "sql_like [] s = (s = [])"
| "sql_like (p # ps) s =
     (if p = CHR ''%'' then sql_like ps s \<or> (case s of [] \<Rightarrow> False | _ # s' \<Rightarrow> sql_like (p # ps) s')
      else if p = CHR ''_'' then (case s of [] \<Rightarrow> False | _ # s' \<Rightarrow> sql_like ps s')
      else if p = CHR 0x5C then
        (case ps of [] \<Rightarrow> False
         | q # qs \<Rightarrow> (case s of [] \<Rightarrow> False | c # s' \<Rightarrow> c = q \<and> sql_like qs s'))
      else (case s of [] \<Rightarrow> False | c # s' \<Rightarrow> c = p \<and> sql_like ps s'))"

definition resetThrottlerByEndpointPrefix :: "string \<Rightarrow> throttler_table \<Rightarrow> nat \<times> throttler_table" where
  "resetThrottlerByEndpointPrefix prefix t =
     (length (filter (\<lambda>r. sql_like (prefix @ ''%'') (tr_key r)) t),
      filter (\<lambda>r. \<not> sql_like (prefix @ ''%'') (tr_key r)) t)"

definition listActiveThrottlerRecords ::
  "millis \<Rightarrow> nat \<Rightarrow> nat option \<Rightarrow> throttler_table \<Rightarrow> throttler_record list \<times> nat" where
  "listActiveThrottlerRecords now limit offset t =
     (let active = filter (\<lambda>r. tr_expires r > now) t
      in (take limit (drop (nullish offset 0) (sort_by (\<lambda>a b. tr_expires a \<le> tr_expires b) active)),
          length active))"

section \<open>The storage adapter and the cleanup cron\<close>

record storage_record =
  sr_totalHits :: int
  sr_timeToExpire :: int
  sr_isBlocked :: bool
  sr_timeToBlockExpire :: int

definition increment ::
  "millis \<Rightarrow> string \<Rightarrow> millis \<Rightarrow> int \<Rightarrow> millis \<Rightarrow> string \<Rightarrow> throttler_table
     \<Rightarrow> (throttler_error + storage_record) \<times> throttler_table" where
  "increment dbNow key ttlMs limit now throttlerName t =
     (case upsert dbNow key ttlMs now t of
        (Inl e, t') \<Rightarrow> (Inl e, t')
      | (Inr row, t') \<Rightarrow>
          let timeToExpire = max 0 ((br_expiresAt row - now) div 1000);
              isBlocked = br_count row > limit
          in (Inr \<lparr>sr_totalHits = br_count row, sr_timeToExpire = timeToExpire, sr_isBlocked = isBlocked,
                   sr_timeToBlockExpire = timeToExpire\<rparr>, t'))"

definition DEFAULT_THROTTLER_RETENTION_DAYS :: int where
  "DEFAULT_THROTTLER_RETENTION_DAYS = 1"

text \<open>\<open>ThrottlerCleanupCron.runOnce\<close>; \<open>dbOk\<close> says whether the statement succeeded.\<close>

definition throttler_cleanup :: "bool \<Rightarrow> millis \<Rightarrow> throttler_table \<Rightarrow> (millis \<times> nat option) \<times> throttler_table" where
  "throttler_cleanup dbOk now t =
     (let cutoffMs = now - DEFAULT_THROTTLER_RETENTION_DAYS * 24 * 60 * 60 * 1000
      in if dbOk then ((cutoffMs, Some (length (filter (\<lambda>r. tr_expires r < cutoffMs) t))),
                       filter (\<lambda>r. \<not> tr_expires r < cutoffMs) t)
         else ((cutoffMs, None), t))"

section \<open>consume\<close>

record throttle_window =
  tw_name :: string
  tw_limit :: int
  tw_ttlMs :: millis

record window_state =
  ws_name :: string
  ws_remaining :: int
  ws_resetSeconds :: int

record consume_result =
  cr_allowed :: bool
  cr_violatedWindow :: "string option"
  cr_windows :: "window_state list"

definition compositeKey :: "string \<Rightarrow> throttle_window \<Rightarrow> string" where
  "compositeKey key w = key @ ''::'' @ tw_name w"

text \<open>The loop over the windows; each window comes with the database time of its statement.\<close>

fun consume_loop ::
  "string \<Rightarrow> millis \<Rightarrow> (throttle_window \<times> millis) list \<Rightarrow> string option \<Rightarrow> window_state list \<Rightarrow> throttler_table
     \<Rightarrow> (throttler_error + string option \<times> window_state list) \<times> throttler_table" where
  "consume_loop key now [] violated states t = (Inr (violated, states), t)"
| "consume_loop key now ((w, dbNow) # ws) violated states t =
     (case increment dbNow (compositeKey key w) (tw_ttlMs w) (tw_limit w) now (tw_name w) t of
        (Inl e, t') \<Rightarrow> (Inl e, t')
      | (Inr rec, t') \<Rightarrow>
          consume_loop key now ws
            (if \<not> truthy_opt violated \<and> sr_isBlocked rec then Some (tw_name w) else violated)
            (states @ [\<lparr>ws_name = tw_name w, ws_remaining = max 0 (tw_limit w - sr_totalHits rec),
                        ws_resetSeconds = sr_timeToExpire rec\<rparr>]) t')"

definition consume ::
  "string \<Rightarrow> millis \<Rightarrow> (throttle_window \<times> millis) list \<Rightarrow> throttler_table
     \<Rightarrow> (throttler_error + consume_result) \<times> throttler_table" where
  "consume key now ws t =
     (if ws = [] then (Inl WindowsEmpty, t)
      else case consume_loop key now ws None [] t of
             (Inl e, t') \<Rightarrow> (Inl e, t')
           | (Inr (violated, states), t') \<Rightarrow>
               (Inr \<lparr>cr_allowed = (violated = None), cr_violatedWindow = violated, cr_windows = states\<rparr>, t'))"

section \<open>What a backend promises\<close>

text \<open>Abstractly a key carries a bucket: its count and its expiry, if it was ever hit.  \<open>bucket_hit\<close>
  is what one request does to the bucket.\<close>

definition bucket_hit :: "millis \<Rightarrow> millis \<Rightarrow> millis \<Rightarrow> (int \<times> millis) option \<Rightarrow> int \<times> millis" where
  "bucket_hit dbNow ttl now b =
     (case b of Some (c, e) \<Rightarrow> if e > dbNow then (c + 1, e) else (1, now + ttl) | None \<Rightarrow> (1, now + ttl))"

locale throttler_backend =
  fixes ups :: "millis \<Rightarrow> string \<Rightarrow> millis \<Rightarrow> millis \<Rightarrow> 's \<Rightarrow> (throttler_error + backend_row) \<times> 's"
    and bucket :: "string \<Rightarrow> 's \<Rightarrow> (int \<times> millis) option"
    and inv :: "'s \<Rightarrow> bool"
  assumes ups_error: "ttl \<le> 0 \<Longrightarrow> ups d k ttl now s = (Inl (TtlNotPositive ttl), s)"
    and ups_hit: "inv s \<Longrightarrow> 0 < ttl \<Longrightarrow> bucket_hit d ttl now (bucket k s) = (c, e) \<Longrightarrow>
      \<exists>s'. ups d k ttl now s = (Inr \<lparr>br_count = c, br_expiresAt = e\<rparr>, s') \<and> inv s' \<and>
           bucket k s' = Some (c, e) \<and> (\<forall>j. j \<noteq> k \<longrightarrow> bucket j s' = bucket j s)"
begin

text \<open>How many requests with a count up to \<open>L\<close> the bucket \<open>k\<close> can still serve at database times in
  \<open>[T, E)\<close>, if every new window outlives \<open>E\<close>.\<close>

definition budget :: "string \<Rightarrow> int \<Rightarrow> millis \<Rightarrow> millis \<Rightarrow> 's \<Rightarrow> int" where
  "budget k L T E s = (case bucket k s of
      None \<Rightarrow> max 0 L
    | Some (c, e) \<Rightarrow> if e \<le> T then max 0 L
        else if E \<le> e then max 0 (L - c)
        else max 0 (L - c) + max 0 L)"

lemma budget_nonneg: "0 \<le> budget k L T E s"
  by (auto simp: budget_def split: option.splits)

lemma ups_cases:
  assumes "inv s" and "ups d j ttl now s = (r, s')"
  obtains (error) "ttl \<le> 0" "r = Inl (TtlNotPositive ttl)" "s' = s"
  | (hit) c e where "0 < ttl" "bucket_hit d ttl now (bucket j s) = (c, e)"
      "r = Inr \<lparr>br_count = c, br_expiresAt = e\<rparr>" "inv s'" "bucket j s' = Some (c, e)"
      "\<And>i. i \<noteq> j \<Longrightarrow> bucket i s' = bucket i s"
proof (cases "ttl \<le> 0")
  case True
  then show ?thesis using error ups_error[of ttl d j now s] assms(2) by simp
next
  case False
  obtain c e where ce: "bucket_hit d ttl now (bucket j s) = (c, e)" by fastforce
  from ups_hit[OF assms(1) _ ce] False assms(2) show ?thesis
    by (intro hit[OF _ ce]) auto
qed

lemma ups_inv:
  assumes "inv s" and "ups d j ttl now s = (r, s')"
  shows "inv s'"
  using assms by (cases rule: ups_cases) (use assms(1) in auto)

text \<open>Every hit of the bucket with a count within the limit uses one unit of its budget.\<close>

lemma budget_step:
  assumes "inv s" and "ups d j ttl now s = (r, s')"
    and "j = k \<Longrightarrow> T \<le> d \<and> d < E \<and> E \<le> now + ttl"
  shows "budget k L T E s' + (case r of Inr row \<Rightarrow> if j = k \<and> br_count row \<le> L then 1 else 0 | Inl _ \<Rightarrow> 0)
    \<le> budget k L T E s"
  using assms(1,2)
proof (cases rule: ups_cases)
  case error
  then show ?thesis by simp
next
  case (hit c e)
  show ?thesis
  proof (cases "j = k")
    case True
    with assms(3) have d: "T \<le> d" "d < E" "E \<le> now + ttl" by auto
    have "(case bucket j s of None \<Rightarrow> c = 1 \<and> e = now + ttl
        | Some (c0, e0) \<Rightarrow> if e0 > d then c = c0 + 1 \<and> e = e0 else c = 1 \<and> e = now + ttl)"
      using hit(2) by (auto simp: bucket_hit_def split: option.splits prod.splits if_splits)
    with hit(3,5) True d show ?thesis
      by (auto simp: budget_def max_def split: option.splits prod.splits if_splits)
  next
    case False
    with hit(3) hit(6)[of k] show ?thesis by (simp add: budget_def)
  qed
qed

end

text \<open>The SQL backend keeps that promise.\<close>

definition bucket_of :: "string \<Rightarrow> throttler_table \<Rightarrow> (int \<times> millis) option" where
  "bucket_of key t = map_option (\<lambda>r. (tr_count r, tr_expires r)) (find_first (\<lambda>r. tr_key r = key) t)"

lemma tr_key_hit_row [simp]: "tr_key (hit_row d n r) = tr_key r"
  by (simp add: hit_row_def)

lemma find_first_update_other:
  "j \<noteq> k \<Longrightarrow> find_first (\<lambda>r. tr_key r = j) (update_where (\<lambda>r. tr_key r = k) (hit_row d n) t) =
     find_first (\<lambda>r. tr_key r = j) t"
  by (induction t) auto

lemma upsert_existing:
  assumes "0 < ttl" and "find_first (\<lambda>r. tr_key r = k) t = Some r"
  shows "upsert d k ttl now t =
    (let r' = hit_row d (now + ttl) r in (Inr \<lparr>br_count = tr_count r', br_expiresAt = tr_expires r'\<rparr>,
      update_where (\<lambda>r. tr_key r = k) (hit_row d (now + ttl)) t))"
proof -
  have "k \<in> tr_key ` set t" using find_first_Some[OF assms(2)] by auto
  with assms show ?thesis by (simp add: upsert_def Let_def find_first_update_where)
qed

lemma upsert_new:
  assumes "0 < ttl" and "find_first (\<lambda>r. tr_key r = k) t = None"
  shows "upsert d k ttl now t = (Inr \<lparr>br_count = 1, br_expiresAt = now + ttl\<rparr>,
    t @ [\<lparr>tr_key = k, tr_count = 1, tr_expires = now + ttl\<rparr>])"
proof -
  have "k \<notin> tr_key ` set t" using assms(2) by (auto simp: find_first_None)
  with assms show ?thesis by (simp add: upsert_def Let_def find_first_append)
qed

interpretation pgt: throttler_backend upsert bucket_of "\<lambda>t. distinct (map tr_key t)"
proof unfold_locales
  fix s :: throttler_table and ttl d now c e k
  assume inv: "distinct (map tr_key s)" and ttl: "0 < ttl" and hit: "bucket_hit d ttl now (bucket_of k s) = (c, e)"
  show "\<exists>s'. upsert d k ttl now s = (Inr \<lparr>br_count = c, br_expiresAt = e\<rparr>, s') \<and> distinct (map tr_key s') \<and>
           bucket_of k s' = Some (c, e) \<and> (\<forall>j. j \<noteq> k \<longrightarrow> bucket_of j s' = bucket_of j s)"
  proof (cases "find_first (\<lambda>r. tr_key r = k) s")
    case None
    moreover from None have "k \<notin> tr_key ` set s" by (auto simp: find_first_None)
    ultimately show ?thesis using inv hit
      by (auto simp: upsert_new[OF ttl None] bucket_of_def bucket_hit_def find_first_append split: option.splits)
  next
    case (Some r)
    have "map tr_key (update_where (\<lambda>r. tr_key r = k) (hit_row d (now + ttl)) s) = map tr_key s"
      by (rule map_update_where_frame) simp
    then show ?thesis using inv hit Some
      by (auto simp: upsert_existing[OF ttl Some] Let_def bucket_of_def bucket_hit_def find_first_update_where
          find_first_update_other hit_row_def split: if_splits)
  qed
qed (simp add: upsert_def)

end
