(* ===== verification/Throttler_Limits.thy ===== *)
theory Throttler_Limits
  imports Throttler
begin

text \<open>
  What the rate limiter guarantees: the number of requests it lets through in a window, when a blocked
  caller is served again, and that the cleanup cron does not change any answer.  The last section shows
  what the storage adapter does when its fourth argument is a duration instead of the current time.
\<close>

section \<open>Sequences of requests\<close>

record throttle_event =
  te_key :: string
  te_now :: millis
  te_windows :: "(throttle_window \<times> millis) list"

fun serve :: "throttle_event list \<Rightarrow> throttler_table \<Rightarrow> (throttler_error + consume_result) list \<times> throttler_table" where
  "serve [] t = ([], t)"
| "serve (e # es) t =
     (let (r, t') = consume (te_key e) (te_now e) (te_windows e) t;
          (rs, t'') = serve es t'
      in (r # rs, t''))"

definition is_allowed :: "throttler_error + consume_result \<Rightarrow> bool" where
  "is_allowed r = (case r of Inl _ \<Rightarrow> False | Inr c \<Rightarrow> cr_allowed c)"

text \<open>The requests of \<open>key\<close> that were limited by the window \<open>w\<close> and let through.\<close>

definition passed :: "string \<Rightarrow> throttle_window \<Rightarrow> throttle_event list \<Rightarrow> throttler_table \<Rightarrow> nat" where
  "passed key w es t =
     length (filter (\<lambda>(e, r). te_key e = key \<and> w \<in> fst ` set (te_windows e) \<and> is_allowed r)
       (zip es (fst (serve es t))))"

section \<open>One request against the budget of a bucket\<close>

abbreviation pg_inv :: "throttler_table \<Rightarrow> bool" where
  "pg_inv t \<equiv> distinct (map tr_key t)"

lemma increment_cases:
  assumes "increment d k ttl limit now nm t = (r, t')"
  obtains (error) x where "upsert d k ttl now t = (Inl x, t')" "r = Inl x"
  | (counted) row where "upsert d k ttl now t = (Inr row, t')"
      "r = Inr \<lparr>sr_totalHits = br_count row, sr_timeToExpire = max 0 ((br_expiresAt row - now) div 1000),
        sr_isBlocked = (br_count row > limit), sr_timeToBlockExpire = max 0 ((br_expiresAt row - now) div 1000)\<rparr>"
  using assms by (auto simp: increment_def Let_def split: prod.splits sum.splits)

text \<open>The windows of a request may touch the bucket \<open>\<kappa>\<close> only as \<open>timely\<close> allows: within \<open>[T, E)\<close> of
  the database clock, and starting only windows that outlive \<open>E\<close>.\<close>

definition timely :: "string \<Rightarrow> millis \<Rightarrow> millis \<Rightarrow> throttle_event \<Rightarrow> bool" where
  "timely \<kappa> T E e \<longleftrightarrow> (\<forall>(w, d) \<in> set (te_windows e). compositeKey (te_key e) w = \<kappa> \<longrightarrow>
     T \<le> d \<and> d < E \<and> E \<le> te_now e + tw_ttlMs w)"

lemma consume_loop_violated:
  "consume_loop key now ws (Some v) states t = (Inr (vw, out), t') \<Longrightarrow> vw \<noteq> None"
proof (induction ws arbitrary: v states t)
  case (Cons x ws)
  obtain w d where x: "x = (w, d)" by fastforce
  show ?case
  proof (cases "increment d (compositeKey key w) (tw_ttlMs w) (tw_limit w) now (tw_name w) t")
    case (Pair r u)
    with Cons x show ?thesis by (cases r) (auto split: if_splits)
  qed
qed auto

lemma consume_loop_budget:
  assumes "consume_loop key now ws violated states t = (r, t')" and "pg_inv t"
    and "\<And>w d. (w, d) \<in> set ws \<Longrightarrow> compositeKey key w = \<kappa> \<Longrightarrow> T \<le> d \<and> d < E \<and> E \<le> now + tw_ttlMs w"
  shows "pg_inv t' \<and> pgt.budget \<kappa> L T E t' +
    (if (\<exists>out. r = Inr (None, out)) \<and> (\<exists>w\<in>fst ` set ws. compositeKey key w = \<kappa> \<and> tw_limit w = L)
     then 1 else 0) \<le> pgt.budget \<kappa> L T E t"
  using assms
proof (induction ws arbitrary: violated states t)
  case (Cons x ws)
  obtain w d where x: "x = (w, d)" by fastforce
  obtain ri u where inc: "increment d (compositeKey key w) (tw_ttlMs w) (tw_limit w) now (tw_name w) t = (ri, u)"
    by fastforce
  from inc show ?case
  proof (cases rule: increment_cases)
    case (error y)
    from Cons.prems(1) x inc error have "r = Inl y" "t' = u" by auto
    then show ?thesis
      using pgt.budget_step[OF Cons.prems(2) error(1), of \<kappa> T E L] pgt.ups_inv[OF Cons.prems(2) error(1)]
        Cons.prems(3)[of w d] x by simp
  next
    case (counted row)
    let ?v = "if \<not> truthy_opt violated \<and> br_count row > tw_limit w then Some (tw_name w) else violated"
    obtain st where loop: "consume_loop key now ws ?v st u = (r, t')"
      using Cons.prems(1) x inc counted by auto
    have inv: "pg_inv u" by (rule pgt.ups_inv[OF Cons.prems(2) counted(1)])
    have step: "pgt.budget \<kappa> L T E u + (if compositeKey key w = \<kappa> \<and> br_count row \<le> L then 1 else 0) \<le> pgt.budget \<kappa> L T E t"
      using pgt.budget_step[OF Cons.prems(2) counted(1), of \<kappa> T E L] Cons.prems(3)[of w d] x by simp
    have rest: "pg_inv t' \<and> pgt.budget \<kappa> L T E t' +
      (if (\<exists>out. r = Inr (None, out)) \<and> (\<exists>w\<in>fst ` set ws. compositeKey key w = \<kappa> \<and> tw_limit w = L) then 1 else 0)
        \<le> pgt.budget \<kappa> L T E u"
      by (rule Cons.IH[OF loop inv]) (use Cons.prems(3) in auto)
    have ok: "br_count row \<le> tw_limit w" if io: "r = Inr (None, out)" for out
    proof (rule ccontr)
      assume "\<not> br_count row \<le> tw_limit w"
      then have "?v \<noteq> None" by (cases violated) (auto simp: truthy_opt_def)
      then obtain v where "?v = Some v" by blast
      with consume_loop_violated[of key now ws v st u None out t'] loop io show False by simp
    qed
    show ?thesis using step rest ok x by (auto split: if_splits)
  qed
qed simp

lemma consume_budget:
  assumes "consume (te_key e) (te_now e) (te_windows e) t = (r, t')" and "pg_inv t" and "timely (compositeKey key w) T E e"
  shows "pg_inv t' \<and> pgt.budget (compositeKey key w) (tw_limit w) T E t' +
    (if te_key e = key \<and> w \<in> fst ` set (te_windows e) \<and> is_allowed r then 1 else 0)
      \<le> pgt.budget (compositeKey key w) (tw_limit w) T E t"
proof (cases "te_windows e = []")
  case True
  with assms show ?thesis by (simp add: consume_def)
next
  case False
  obtain rl u where loop: "consume_loop (te_key e) (te_now e) (te_windows e) None [] t = (rl, u)" by fastforce
  from loop assms(1) False have t': "t' = u"
    and r: "is_allowed r \<Longrightarrow> \<exists>out. rl = Inr (None, out)"
    by (auto simp: consume_def is_allowed_def split: sum.splits prod.splits)
  show ?thesis
    using consume_loop_budget[OF loop assms(2), of "compositeKey key w" T E "tw_limit w"] assms(3) r
    unfolding t' timely_def by (fastforce split: if_splits)
qed

lemma passed_Cons:
  "consume (te_key e) (te_now e) (te_windows e) t = (r, t') \<Longrightarrow>
   passed key w (e # es) t = (if te_key e = key \<and> w \<in> fst ` set (te_windows e) \<and> is_allowed r then 1 else 0)
     + passed key w es t'"
  by (simp add: passed_def case_prod_unfold Let_def)

lemma passed_budget:
  "pg_inv t \<Longrightarrow> \<forall>e\<in>set es. timely (compositeKey key w) T E e \<Longrightarrow>
   int (passed key w es t) \<le> pgt.budget (compositeKey key w) (tw_limit w) T E t"
proof (induction es arbitrary: t)
  case Nil
  then show ?case using pgt.budget_nonneg by (simp add: passed_def)
next
  case (Cons e es)
  obtain r t' where c: "consume (te_key e) (te_now e) (te_windows e) t = (r, t')" by fastforce
  have b: "pg_inv t' \<and> pgt.budget (compositeKey key w) (tw_limit w) T E t' +
    (if te_key e = key \<and> w \<in> fst ` set (te_windows e) \<and> is_allowed r then 1 else 0)
      \<le> pgt.budget (compositeKey key w) (tw_limit w) T E t"
    by (rule consume_budget[OF c Cons.prems(1)]) (use Cons.prems(2) in simp)
  moreover have "int (passed key w es t') \<le> pgt.budget (compositeKey key w) (tw_limit w) T E t'"
    by (rule Cons.IH) (use b Cons.prems(2) in auto)
  ultimately show ?case unfolding passed_Cons[OF c] by (auto split: if_splits)
qed

lemma budget_start: "\<forall>r\<in>set t. 0 \<le> tr_count r \<Longrightarrow> pgt.budget k L T E t \<le> 2 * max 0 L"
  by (auto simp: pgt.budget_def bucket_of_def split: option.splits dest!: find_first_Some)

lemma budget_start_expired:
  "\<forall>r\<in>set t. tr_key r = k \<longrightarrow> tr_expires r \<le> T \<Longrightarrow> pgt.budget k L T E t \<le> max 0 L"
  by (auto simp: pgt.budget_def bucket_of_def split: option.splits dest!: find_first_Some)

text \<open>In any period of the length of a window (less the clock skew between process and database) at
  most twice the window's limit of requests of one key are let through, whatever other requests share the
  table; if the bucket is unused or expired at the start of the period, at most the limit itself.\<close>

theorem allowed_requests_bounded:
  assumes "distinct (map tr_key t)" and "\<forall>r\<in>set t. 0 \<le> tr_count r"
    and "\<forall>e\<in>set es. \<forall>(v, d)\<in>set (te_windows e). compositeKey (te_key e) v = compositeKey key w \<longrightarrow>
      tw_ttlMs v = tw_ttlMs w \<and> T \<le> d \<and> d < T + tw_ttlMs w - skew \<and> d - skew \<le> te_now e"
  shows "int (passed key w es t) \<le> 2 * max 0 (tw_limit w) \<and>
    ((\<forall>r\<in>set t. tr_key r = compositeKey key w \<longrightarrow> tr_expires r \<le> T) \<longrightarrow>
      int (passed key w es t) \<le> max 0 (tw_limit w))"
proof -
  let ?E = "T + tw_ttlMs w - skew"
  have "\<forall>e\<in>set es. timely (compositeKey key w) T ?E e"
    using assms(3) unfolding timely_def by (fastforce split: prod.splits)
  from passed_budget[OF assms(1) this]
  show ?thesis
    using budget_start[OF assms(2), of "compositeKey key w" "tw_limit w" T ?E]
      budget_start_expired[of t "compositeKey key w" T "tw_limit w" ?E] by linarith
qed

section \<open>Exactly the limit in a fresh window\<close>

fun hammer :: "string \<Rightarrow> millis \<Rightarrow> int \<Rightarrow> string \<Rightarrow> (millis \<times> millis) list \<Rightarrow> throttler_table
    \<Rightarrow> (throttler_error + storage_record) list" where
  "hammer k ttl limit nm [] t = []"
| "hammer k ttl limit nm ((now, d) # cs) t =
     (case increment d k ttl limit now nm t of (r, t') \<Rightarrow> r # hammer k ttl limit nm cs t')"

definition answer_ok :: "int \<Rightarrow> int \<Rightarrow> throttler_error + storage_record \<Rightarrow> bool" where
  "answer_ok limit hits r \<longleftrightarrow> (case r of Inl _ \<Rightarrow> False
     | Inr rec \<Rightarrow> sr_totalHits rec = hits \<and> sr_isBlocked rec = (limit < hits))"

lemma increment_hit:
  assumes "pg_inv t" and "0 < ttl" and "bucket_hit d ttl now (bucket_of k t) = (c, e)"
  obtains t' where "increment d k ttl limit now nm t = (Inr \<lparr>sr_totalHits = c,
      sr_timeToExpire = max 0 ((e - now) div 1000), sr_isBlocked = (c > limit),
      sr_timeToBlockExpire = max 0 ((e - now) div 1000)\<rparr>, t')"
    "pg_inv t'" "bucket_of k t' = Some (c, e)" "\<And>j. j \<noteq> k \<Longrightarrow> bucket_of j t' = bucket_of j t"
  using pgt.ups_hit[OF assms] by (auto simp: increment_def Let_def)

lemma hammer_live:
  assumes "pg_inv t" and "0 < ttl" and "bucket_of k t = Some (c, e)" and "\<forall>(now, d)\<in>set cs. d < e"
    and "n < length cs"
  shows "answer_ok limit (c + int n + 1) (hammer k ttl limit nm cs t ! n)"
  using assms
proof (induction cs arbitrary: t c n)
  case (Cons x cs)
  obtain now d where x: "x = (now, d)" by fastforce
  have hit: "bucket_hit d ttl now (bucket_of k t) = (c + 1, e)"
    using Cons.prems x by (simp add: bucket_hit_def)
  obtain t' where t': "increment d k ttl limit now nm t = (Inr \<lparr>sr_totalHits = c + 1,
      sr_timeToExpire = max 0 ((e - now) div 1000), sr_isBlocked = (c + 1 > limit),
      sr_timeToBlockExpire = max 0 ((e - now) div 1000)\<rparr>, t')" "pg_inv t'" "bucket_of k t' = Some (c + 1, e)"
    by (rule increment_hit[OF Cons.prems(1,2) hit]) (rule that; assumption)
  show ?case
  proof (cases n)
    case 0
    then show ?thesis using x t'(1) by (simp add: answer_ok_def)
  next
    case (Suc m)
    with Cons.IH[OF t'(2) Cons.prems(2) t'(3), of m] Cons.prems(4,5) x t'(1) show ?thesis
      by (simp add: algebra_simps)
  qed
qed simp

text \<open>A key whose bucket is unused or expired gets exactly its first \<open>limit\<close> requests through while
  the window it opens lasts: request number \<open>n\<close> (counting from zero) reports \<open>n + 1\<close> hits, and is blocked
  exactly when \<open>n + 1\<close> exceeds the limit.\<close>

theorem fresh_window_exact:
  assumes "distinct (map tr_key t)" and "0 < ttl"
    and "\<forall>r\<in>set t. tr_key r = k \<longrightarrow> tr_expires r \<le> d0"
    and "\<forall>(now, d)\<in>set cs. d < now0 + ttl" and "n \<le> length cs"
  shows "answer_ok limit (int n + 1) (hammer k ttl limit nm ((now0, d0) # cs) t ! n)"
proof -
  have "bucket_hit d0 ttl now0 (bucket_of k t) = (1, now0 + ttl)"
    using assms(3) by (auto simp: bucket_hit_def bucket_of_def split: option.splits dest!: find_first_Some)
  note hit = this
  obtain t' where
    t': "increment d0 k ttl limit now0 nm t = (Inr \<lparr>sr_totalHits = 1,
      sr_timeToExpire = max 0 ((now0 + ttl - now0) div 1000), sr_isBlocked = (1 > limit),
      sr_timeToBlockExpire = max 0 ((now0 + ttl - now0) div 1000)\<rparr>, t')"
      "pg_inv t'" "bucket_of k t' = Some (1, now0 + ttl)"
    by (rule increment_hit[OF assms(1,2) hit]) (rule that; assumption)
  show ?thesis
  proof (cases n)
    case 0
    then show ?thesis using t'(1) by (simp add: answer_ok_def)
  next
    case (Suc m)
    with hammer_live[OF t'(2) assms(2) t'(3) assms(4), of m] assms(5) t'(1) show ?thesis
      by (simp add: algebra_simps)
  qed
qed

lemma floor_seconds: "x div 1000 * 1000 \<le> x \<and> x < (x div 1000 + 1) * 1000" for x :: int
  by presburger

text \<open>The reported number of seconds to wait is right to one second: a caller that comes back when
  \<open>resetSeconds + 1\<close> seconds have passed on both clocks finds a new window (one hit, not blocked for a
  positive limit), and one that comes back while \<open>resetSeconds\<close> seconds have not passed is still counted
  in the old window.\<close>

theorem reset_seconds_accurate:
  assumes "distinct (map tr_key t)" and "0 < ttl" and "increment d k ttl limit now nm t = (Inr rec, t')"
    and "increment d' k ttl limit now' nm t' = (Inr rec', t'')"
  shows "(now + (sr_timeToExpire rec + 1) * 1000 \<le> d' \<longrightarrow> sr_totalHits rec' = 1 \<and> sr_isBlocked rec' = (limit < 1)) \<and>
    (0 < sr_timeToExpire rec \<longrightarrow> d' < now + sr_timeToExpire rec * 1000 \<longrightarrow>
       sr_totalHits rec' = sr_totalHits rec + 1 \<and> sr_isBlocked rec' = (limit < sr_totalHits rec + 1))"
proof -
  obtain c e where hit: "bucket_hit d ttl now (bucket_of k t) = (c, e)" by fastforce
  obtain u where u: "increment d k ttl limit now nm t = (Inr \<lparr>sr_totalHits = c,
      sr_timeToExpire = max 0 ((e - now) div 1000), sr_isBlocked = (c > limit),
      sr_timeToBlockExpire = max 0 ((e - now) div 1000)\<rparr>, u)" "pg_inv u" "bucket_of k u = Some (c, e)"
    by (rule increment_hit[OF assms(1,2) hit]) (rule that; assumption)
  with assms(3) have rec: "rec = \<lparr>sr_totalHits = c, sr_timeToExpire = max 0 ((e - now) div 1000), sr_isBlocked = (c > limit),
      sr_timeToBlockExpire = max 0 ((e - now) div 1000)\<rparr>" "pg_inv t'" "bucket_of k t' = Some (c, e)"
    by simp_all
  obtain c' e' where hit': "bucket_hit d' ttl now' (bucket_of k t') = (c', e')" by fastforce
  have rec': "sr_totalHits rec' = c' \<and> sr_isBlocked rec' = (c' > limit)"
    by (rule increment_hit[OF rec(2) assms(2) hit', of limit nm]) (use assms(4) in simp)
  from hit' rec(3) have c': "c' = (if e > d' then c + 1 else 1)"
    by (simp add: bucket_hit_def split: if_splits)
  have "e \<le> d'" if "now + (max 0 ((e - now) div 1000) + 1) * 1000 \<le> d'"
    using that floor_seconds[of "e - now"] by (auto simp: max_def split: if_splits)
  moreover have "e > d'" if "0 < max 0 ((e - now) div 1000)" "d' < now + max 0 ((e - now) div 1000) * 1000"
    using that floor_seconds[of "e - now"] by (auto simp: max_def split: if_splits)
  ultimately show ?thesis using rec(1) rec' c' by auto
qed

section \<open>Cleanup and administration\<close>

text \<open>The cleanup cron changes no answer of the limiter: as long as the database clock is not a day
  behind the clock of the process that ran it, the next request of any key gets the same record as without
  the cleanup, and the bucket it leaves behind is the same.\<close>

theorem throttler_cleanup_invisible:
  assumes "distinct (map tr_key t)" and "throttler_cleanup dbOk now t = (res, t')"
    and "now - 24 * 60 * 60 * 1000 \<le> d"
  shows "fst (increment d k ttl limit now' nm t') = fst (increment d k ttl limit now' nm t) \<and>
    (0 < ttl \<longrightarrow>
      bucket_of k (snd (increment d k ttl limit now' nm t')) = bucket_of k (snd (increment d k ttl limit now' nm t)))"
proof (cases "0 < ttl")
  case True
  have inv: "pg_inv t'" using assms(1,2)
    by (auto simp: throttler_cleanup_def Let_def distinct_map_filter split: if_splits)
  have same: "bucket_hit d ttl now' (bucket_of k t') = bucket_hit d ttl now' (bucket_of k t)"
    using assms by (auto simp: throttler_cleanup_def Let_def DEFAULT_THROTTLER_RETENTION_DAYS_def bucket_of_def
        bucket_hit_def find_first_filter_key split: if_splits option.splits)
  obtain c e where ce: "bucket_hit d ttl now' (bucket_of k t) = (c, e)" by fastforce
  have "fst (increment d k ttl limit now' nm u) = Inr \<lparr>sr_totalHits = c,
      sr_timeToExpire = max 0 ((e - now') div 1000), sr_isBlocked = (c > limit),
      sr_timeToBlockExpire = max 0 ((e - now') div 1000)\<rparr> \<and>
    bucket_of k (snd (increment d k ttl limit now' nm u)) = Some (c, e)"
    if u: "pg_inv u" "bucket_hit d ttl now' (bucket_of k u) = (c, e)" for u
    by (rule increment_hit[OF u(1) True u(2), of limit nm]) simp
  from this[OF assms(1) ce] this[OF inv ce[folded same]] show ?thesis by simp
next
  case False
  then show ?thesis by (simp add: increment_def upsert_def)
qed

lemma sql_like_prefix:
  "CHR ''%'' \<notin> set p \<Longrightarrow> CHR ''_'' \<notin> set p \<Longrightarrow> CHR 0x5C \<notin> set p \<Longrightarrow>
   sql_like (p @ ''%'') s = startsWith s p"
proof (induction p arbitrary: s)
  case Nil
  have "sql_like ''%'' s" by (induction s) auto
  then show ?case by (simp add: startsWith_def)
next
  case (Cons c p)
  then show ?case by (cases s) (auto simp: startsWith_def)
qed

text \<open>The bulk reset of an endpoint deletes exactly the buckets whose key starts with the given prefix
  and counts them, provided the prefix contains none of the \<open>LIKE\<close> characters \<open>%\<close>, \<open>_\<close> and backslash;
  with an underscore it deletes more.\<close>

theorem reset_by_prefix_exact:
  assumes "resetThrottlerByEndpointPrefix p t = (n, t')"
    and "CHR ''%'' \<notin> set p" and "CHR ''_'' \<notin> set p" and "CHR 0x5C \<notin> set p"
  shows "t' = filter (\<lambda>r. \<not> startsWith (tr_key r) p) t \<and> n = length t - length t'"
proof -
  have "t' = filter (\<lambda>r. \<not> startsWith (tr_key r) p) t"
    "n = length (filter (\<lambda>r. startsWith (tr_key r) p) t)"
    using assms by (simp_all add: resetThrottlerByEndpointPrefix_def sql_like_prefix)
  then show ?thesis using sum_length_filter_compl[of "\<lambda>r. startsWith (tr_key r) p" t] by simp
qed

section \<open>The adapter called with a duration\<close>

text \<open>If the fourth argument of the storage adapter is not the current time but a duration, as the
  \<open>ThrottlerGuard\<close> of the bound library passes (a block duration), so that this number plus the window
  length lies before the database time, then the limiter never limits: every request of every sequence
  reports one hit and is let through whenever the limit is at least one.\<close>

theorem duration_as_now_never_blocks:
  assumes "distinct (map tr_key t)" and "0 < ttl" and "1 \<le> limit"
    and "\<forall>r\<in>set t. tr_key r = k \<longrightarrow> tr_expires r \<le> d0"
    and "\<forall>(blockDuration, d)\<in>set cs. d0 \<le> d \<and> blockDuration + ttl \<le> d0" and "n < length cs"
  shows "answer_ok limit 1 (hammer k ttl limit nm cs t ! n)"
proof -
  have "(\<forall>c e. bucket_of k t = Some (c, e) \<longrightarrow> e \<le> d0)"
    using assms(4) by (auto simp: bucket_of_def dest!: find_first_Some)
  then show ?thesis using assms(1,5,6)
  proof (induction cs arbitrary: t n)
    case (Cons x cs)
    obtain b d where x: "x = (b, d)" by fastforce
    have "bucket_hit d ttl b (bucket_of k t) = (1, b + ttl)"
      using Cons.prems(1,3) x by (force simp: bucket_hit_def split: option.splits)
    note hit = this
    obtain t' where
      t': "increment d k ttl limit b nm t = (Inr \<lparr>sr_totalHits = 1,
        sr_timeToExpire = max 0 ((b + ttl - b) div 1000), sr_isBlocked = (1 > limit),
        sr_timeToBlockExpire = max 0 ((b + ttl - b) div 1000)\<rparr>, t')" "pg_inv t'" "bucket_of k t' = Some (1, b + ttl)"
      by (rule increment_hit[OF Cons.prems(2) assms(2) hit]) (rule that; assumption)
    show ?case
    proof (cases n)
      case 0
      then show ?thesis using x t'(1) by (simp add: answer_ok_def)
    next
      case (Suc m)
      with Cons.IH[of t' m] Cons.prems(3,4) x t' show ?thesis by simp
    qed
  qed simp
qed

section \<open>The properties at concrete inputs\<close>

definition sample_window :: throttle_window where
  "sample_window = \<lparr>tw_name = ''s'', tw_limit = 1, tw_ttlMs = 1000\<rparr>"

definition sample_requests :: "throttle_event list" where
  "sample_requests = map (\<lambda>n. \<lparr>te_key = ''k'', te_now = n, te_windows = [(sample_window, n)]\<rparr>) [0, 5, 10]"

theorem allowed_requests_bounded_witness:
  "passed ''k'' sample_window sample_requests [] = 1 \<and>
   int (passed ''k'' sample_window sample_requests []) \<le> max 0 (tw_limit sample_window)"
proof
  show "passed ''k'' sample_window sample_requests [] = 1" by code_simp
  show "int (passed ''k'' sample_window sample_requests []) \<le> max 0 (tw_limit sample_window)"
    using allowed_requests_bounded[of "[]" sample_requests "''k''" sample_window 0 0]
    by (simp add: sample_requests_def sample_window_def)
qed

theorem fresh_window_exact_witness:
  "\<not> answer_ok 1 1 (hammer ''k'' 1000 1 ''s'' [(0, 0), (5, 5)] [] ! 1) \<and>
   answer_ok 1 2 (hammer ''k'' 1000 1 ''s'' [(0, 0), (5, 5)] [] ! 1)"
proof
  show "answer_ok 1 2 (hammer ''k'' 1000 1 ''s'' [(0, 0), (5, 5)] [] ! 1)"
    using fresh_window_exact[of "[]" 1000 "''k''" 0 "[(5, 5)]" 0 1 1 "''s''"] by simp
  show "\<not> answer_ok 1 1 (hammer ''k'' 1000 1 ''s'' [(0, 0), (5, 5)] [] ! 1)" by code_simp
qed

definition sample_bucket :: throttler_table where
  "sample_bucket = [\<lparr>tr_key = ''k'', tr_count = 4, tr_expires = 3500\<rparr>]"

theorem reset_seconds_accurate_witness:
  "sr_totalHits (projr (fst (increment 4000 ''k'' 1000 5 4000 ''s''
      (snd (increment 1000 ''k'' 1000 5 1000 ''s'' sample_bucket))))) = 1"
proof -
  have "\<exists>r1 t1 r2 t2. increment 1000 ''k'' 1000 5 1000 ''s'' sample_bucket = (Inr r1, t1) \<and> sr_timeToExpire r1 = 2 \<and>
      increment 4000 ''k'' 1000 5 4000 ''s'' t1 = (Inr r2, t2)"
    by (simp add: sample_bucket_def increment_def upsert_def hit_row_def Let_def)
  then obtain r1 t1 r2 t2 where r: "increment 1000 ''k'' 1000 5 1000 ''s'' sample_bucket = (Inr r1, t1)"
      "sr_timeToExpire r1 = 2" "increment 4000 ''k'' 1000 5 4000 ''s'' t1 = (Inr r2, t2)" by blast
  from reset_seconds_accurate[OF _ _ r(1) r(3)] r show ?thesis
    by (simp add: sample_bucket_def)
qed

theorem throttler_cleanup_invisible_witness:
  "fst (increment 200000000 ''k'' 1000 5 200000000 ''s'' (snd (throttler_cleanup True 100000000 sample_bucket))) =
   fst (increment 200000000 ''k'' 1000 5 200000000 ''s'' sample_bucket)"
  using throttler_cleanup_invisible[of sample_bucket True 100000000 _ _ 200000000 "''k''" 1000 5 200000000 "''s''",
      OF _ prod.collapse[symmetric]]
  by (simp add: sample_bucket_def)

theorem reset_by_prefix_exact_witness:
  "resetThrottlerByEndpointPrefix ''k'' sample_bucket = (1, []) \<and>
   fst (resetThrottlerByEndpointPrefix ''_'' sample_bucket) = 1"
proof
  obtain n t' where r: "resetThrottlerByEndpointPrefix ''k'' sample_bucket = (n, t')" by fastforce
  from reset_by_prefix_exact[OF r] r show "resetThrottlerByEndpointPrefix ''k'' sample_bucket = (1, [])"
    by (simp add: sample_bucket_def startsWith_def)
  show "fst (resetThrottlerByEndpointPrefix ''_'' sample_bucket) = 1" by code_simp
qed

theorem duration_as_now_never_blocks_witness:
  "answer_ok 1 1 (hammer ''k'' 1000 1 ''s'' [(1000, 1700000000000), (1000, 1700000000001)] [] ! 1)"
  using duration_as_now_never_blocks[of "[]" 1000 1 "''k''" 1700000000000
      "[(1000, 1700000000000), (1000, 1700000000001)]" 1 "''s''"] by simp

end
