(* ===== verification/Rate_Limit_Config.thy ===== *)
theory Rate_Limit_Config
  imports Throttler
begin

text \<open>
  Operator configuration of the rate limits: \<open>rate-limit-config-planner.ts\<close>,
  \<open>rate-limit-config.service.ts\<close>, \<open>rate-limit-decision-planner.ts\<close> and the routes of
  \<open>rate-limit-admin.controller.ts\<close>.  The \<open>rate_limit_config\<close>, \<open>rate_limit_decisions\<close> and
  \<open>rate_limit_allowlist\<close> tables are lists; database errors are not modelled.
\<close>

section \<open>Validation and defaults\<close>

record scope_window =
  sw_maxRequests :: int
  sw_windowSeconds :: int

datatype config_error =
    MaxRequestsNotPositive
  | MaxRequestsTooLarge
  | WindowNotPositive
  | WindowTooLarge
  | NotIntegers
  | UserIdRequired
  | ReasonRequired

definition validateRateLimitConfig :: "scope_window \<Rightarrow> config_error option" where
  "validateRateLimitConfig w =
     (if sw_maxRequests w \<le> 0 then Some MaxRequestsNotPositive
      else if sw_maxRequests w > 100000 then Some MaxRequestsTooLarge
      else if sw_windowSeconds w \<le> 0 then Some WindowNotPositive
      else if sw_windowSeconds w > 86400 then Some WindowTooLarge
      else None)"

definition buildDefaultScopeMap :: "(string \<times> scope_window) list" where
  "buildDefaultScopeMap =
     [(''global:1s'', \<lparr>sw_maxRequests = 20, sw_windowSeconds = 1\<rparr>),
      (''global:1m'', \<lparr>sw_maxRequests = 300, sw_windowSeconds = 60\<rparr>),
      (''global:1h'', \<lparr>sw_maxRequests = 5000, sw_windowSeconds = 3600\<rparr>),
      (''auth:signIn'', \<lparr>sw_maxRequests = 5, sw_windowSeconds = 60\<rparr>),
      (''auth:signUp'', \<lparr>sw_maxRequests = 10, sw_windowSeconds = 60\<rparr>),
      (''auth:passwordReset'', \<lparr>sw_maxRequests = 3, sw_windowSeconds = 3600\<rparr>),
      (''auth:verifyEmail'', \<lparr>sw_maxRequests = 10, sw_windowSeconds = 3600\<rparr>)]"

section \<open>The configuration service\<close>

text \<open>The rows of the table, and the cache the requests read.\<close>

record config_service =
  cs_rows :: "(string \<times> scope_window) list"
  cs_cache :: "(string \<times> scope_window) list"

definition refresh :: "config_service \<Rightarrow> config_service" where
  "refresh s = s\<lparr>cs_cache := fold (\<lambda>(scope, w) next. map_set scope w next) (cs_rows s) []\<rparr>"

definition getWindow :: "string \<Rightarrow> config_service \<Rightarrow> scope_window" where
  "getWindow scope s =
     nullish (map_get (cs_cache s) scope)
       (nullish (map_get buildDefaultScopeMap scope) \<lparr>sw_maxRequests = 10000, sw_windowSeconds = 60\<rparr>)"

definition setWindow :: "string \<Rightarrow> scope_window \<Rightarrow> config_service \<Rightarrow> (config_error + unit) \<times> config_service" where
  "setWindow scope w s =
     (case validateRateLimitConfig w of
        Some e \<Rightarrow> (Inl e, s)
      | None \<Rightarrow> (Inr (), refresh (s\<lparr>cs_rows := map_set scope w (cs_rows s)\<rparr>)))"

definition deleteWindow :: "string \<Rightarrow> config_service \<Rightarrow> config_service" where
  "deleteWindow scope s = refresh (s\<lparr>cs_rows := map_delete scope (cs_rows s)\<rparr>)"

text \<open>\<open>PUT config/:scope\<close>: a body field that is not an integer is \<open>None\<close>.\<close>

definition putConfig ::
  "string \<Rightarrow> int option \<Rightarrow> int option \<Rightarrow> config_service \<Rightarrow> (config_error + string \<times> scope_window) \<times> config_service" where
  "putConfig scope maxRequests windowSeconds s =
     (case (maxRequests, windowSeconds) of
        (Some m, Some n) \<Rightarrow>
          (let w = \<lparr>sw_maxRequests = m, sw_windowSeconds = n\<rparr>
           in case validateRateLimitConfig w of
                Some e \<Rightarrow> (Inl e, s)
              | None \<Rightarrow> (case setWindow scope w s of
                           (Inl e, s') \<Rightarrow> (Inl e, s')
                         | (Inr _, s') \<Rightarrow> (Inr (scope, w), s')))
      | _ \<Rightarrow> (Inl NotIntegers, s))"

definition configJson :: "config_service \<Rightarrow> (string \<times> scope_window \<times> bool) list" where
  "configJson s =
     (let configuredScopes = fst ` set (cs_rows s)
      in map (\<lambda>scope. (scope, getWindow scope s, scope \<in> configuredScopes)) (map_keys buildDefaultScopeMap))"

section \<open>Decision sampling and history\<close>

datatype decision = Allow | Block

text \<open>\<open>random\<close> is the value of \<open>Math.random()\<close> in hundredths of a percent; the code samples below 1%.\<close>

definition shouldSampleDecision :: "nat \<Rightarrow> decision \<Rightarrow> bool" where
  "shouldSampleDecision random d = (d = Block \<or> random < 100)"

record decision_row =
  dr_id :: string
  dr_endpoint :: string
  dr_decision :: decision
  dr_ts :: millis

record decisions_page =
  dp_items :: "decision_row list"
  dp_nextCursor :: "millis option"
  dp_total :: nat

text \<open>Prisma's \<open>take\<close>: a negative number takes from the end.\<close>

definition prisma_take :: "int \<Rightarrow> 'a list \<Rightarrow> 'a list" where
  "prisma_take n xs = (if 0 \<le> n then take (nat n) xs else drop (length xs - nat (- n)) xs)"

definition where_matches :: "string option \<Rightarrow> decision option \<Rightarrow> millis option \<Rightarrow> decision_row \<Rightarrow> bool" where
  "where_matches endpoint dec cursor r \<longleftrightarrow>
     (truthy_opt endpoint \<longrightarrow> Some (dr_endpoint r) = endpoint) \<and>
     (case dec of None \<Rightarrow> True | Some d \<Rightarrow> dr_decision r = d) \<and>
     (case cursor of None \<Rightarrow> True | Some c \<Rightarrow> dr_ts r < c)"

text \<open>\<open>limit\<close> is the parsed query parameter; absent, zero and unparsable are \<open>None\<close>.\<close>

definition decisionsJson ::
  "millis option \<Rightarrow> int option \<Rightarrow> string option \<Rightarrow> decision option \<Rightarrow> decision_row list \<Rightarrow> decisions_page" where
  "decisionsJson cursor limitParam endpoint dec rows =
     (let limit = min (nullish limitParam 50) 200;
          matching = filter (where_matches endpoint dec cursor) rows;
          items = prisma_take (limit + 1) (sort_by (\<lambda>a b. dr_ts b \<le> dr_ts a) matching);
          hasMore = int (length items) > limit;
          page = slice0 limit items;
          nextCursor = (if hasMore \<and> page \<noteq> [] then Some (dr_ts (last page)) else None)
      in \<lparr>dp_items = page, dp_nextCursor = nextCursor, dp_total = length matching\<rparr>)"

section \<open>The allowlist and the inspector\<close>

record allow_entry =
  ae_userId :: string
  ae_reason :: string

definition addToAllowlist ::
  "string option \<Rightarrow> string option \<Rightarrow> allow_entry list \<Rightarrow> (config_error + allow_entry) \<times> allow_entry list" where
  "addToAllowlist userId reason t =
     (if (case userId of None \<Rightarrow> True | Some u \<Rightarrow> trim u = []) then (Inl UserIdRequired, t)
      else if (case reason of None \<Rightarrow> True | Some r \<Rightarrow> trim r = []) then (Inl ReasonRequired, t)
      else
        let e = \<lparr>ae_userId = the userId, ae_reason = the reason\<rparr>
        in (Inr e, if ae_userId e \<in> ae_userId ` set t
                   then update_where (\<lambda>x. ae_userId x = ae_userId e) (\<lambda>x. x\<lparr>ae_reason := ae_reason e\<rparr>) t
                   else t @ [e]))"

definition removeFromAllowlist :: "string \<Rightarrow> allow_entry list \<Rightarrow> bool \<times> allow_entry list" where
  "removeFromAllowlist userId t =
     (length (filter (\<lambda>x. ae_userId x = userId) t) > 0, filter (\<lambda>x. ae_userId x \<noteq> userId) t)"

definition inspectorJson ::
  "string option \<Rightarrow> int option \<Rightarrow> millis \<Rightarrow> throttler_table \<Rightarrow> (string \<times> int \<times> millis \<times> int) list \<times> nat" where
  "inspectorJson scope limitParam now t =
     (let limit = min (nullish limitParam 100) 500;
          (rows, total) = listActiveThrottlerRecords now (nat limit) None t
      in (map (\<lambda>r. (tr_key r, tr_count r, tr_expires r, max 0 ((tr_expires r - now) div 1000)))
            (filter (\<lambda>r. \<not> truthy_opt scope \<or> str_includes (tr_key r) (the scope)) rows), total))"

section \<open>Effective windows\<close>

definition valid_window :: "scope_window \<Rightarrow> bool" where
  "valid_window w \<longleftrightarrow> 1 \<le> sw_maxRequests w \<and> sw_maxRequests w \<le> 100000 \<and>
     1 \<le> sw_windowSeconds w \<and> sw_windowSeconds w \<le> 86400"

text \<open>The cache is what \<open>refresh\<close> makes of the rows, and no row is out of range.\<close>

definition config_inv :: "config_service \<Rightarrow> bool" where
  "config_inv s \<longleftrightarrow> distinct (map fst (cs_rows s)) \<and> (\<forall>(k, w)\<in>set (cs_rows s). valid_window w) \<and>
     cs_cache s = cs_rows s"

lemma validate_iff: "validateRateLimitConfig w = None \<longleftrightarrow> valid_window w"
  by (auto simp: validateRateLimitConfig_def valid_window_def)

lemma rebuild_rows:
  "distinct (map fst (acc @ rows)) \<Longrightarrow> fold (\<lambda>(scope, w) next. map_set scope w next) rows acc = acc @ rows"
proof (induction rows arbitrary: acc)
  case (Cons r rows)
  obtain k w where r: "r = (k, w)" by fastforce
  with Cons.prems have "k \<notin> fst ` set acc" by auto
  with r Cons.IH[of "acc @ [r]"] Cons.prems show ?case by (simp add: map_set_new)
qed simp

lemma refresh_inv:
  "distinct (map fst (cs_rows s)) \<Longrightarrow> \<forall>(k, w)\<in>set (cs_rows s). valid_window w \<Longrightarrow>
   config_inv (refresh s) \<and> cs_rows (refresh s) = cs_rows s"
  using rebuild_rows[of "[]" "cs_rows s"] by (simp add: config_inv_def refresh_def)

lemma set_map_set: "set (map_set k v m) \<subseteq> insert (k, v) (set m)"
  by (induction k v m rule: map_set.induct) auto

lemma default_valid: "map_get buildDefaultScopeMap scope = Some w \<Longrightarrow> valid_window w"
proof -
  have "\<forall>(k, w)\<in>set buildDefaultScopeMap. valid_window w"
    by (simp add: buildDefaultScopeMap_def valid_window_def)
  then show "map_get buildDefaultScopeMap scope = Some w \<Longrightarrow> valid_window w"
    by (auto dest!: map_of_SomeD)
qed

lemma setWindow_inv:
  assumes "config_inv s" and "setWindow scope w s = (r, s')"
  shows "config_inv s'"
proof (cases "valid_window w")
  case True
  have "\<forall>(k, w)\<in>set (map_set scope w (cs_rows s)). valid_window w"
    using assms(1) True set_map_set[of scope w "cs_rows s"] by (fastforce simp: config_inv_def)
  with assms True refresh_inv[of "s\<lparr>cs_rows := map_set scope w (cs_rows s)\<rparr>"] show ?thesis
    by (auto simp: setWindow_def validate_iff[THEN iffD2] config_inv_def distinct_map_set)
next
  case False
  then obtain e where "validateRateLimitConfig w = Some e" using validate_iff[of w] by auto
  with assms show ?thesis by (simp add: setWindow_def)
qed

lemma deleteWindow_inv: "config_inv s \<Longrightarrow> config_inv (deleteWindow scope s)"
  unfolding deleteWindow_def
  using refresh_inv[of "s\<lparr>cs_rows := map_delete scope (cs_rows s)\<rparr>"]
  by (auto simp: config_inv_def distinct_map_delete map_delete_def distinct_map_filter)

datatype config_edit = Put string "int option" "int option" | Delete string

fun config_apply :: "config_edit \<Rightarrow> config_service \<Rightarrow> config_service" where
  "config_apply (Put scope m n) s = snd (putConfig scope m n s)"
| "config_apply (Delete scope) s = deleteWindow scope s"

lemma putConfig_inv: "config_inv s \<Longrightarrow> config_inv (snd (putConfig scope m n s))"
  by (auto simp: putConfig_def Let_def split: option.splits prod.splits sum.splits intro: setWindow_inv)

lemma config_edits_inv: "config_inv s \<Longrightarrow> config_inv (fold config_apply es s)"
proof (induction es arbitrary: s)
  case (Cons e es)
  then show ?case by (cases e) (simp_all add: putConfig_inv deleteWindow_inv)
qed simp

lemma getWindow_valid:
  assumes "config_inv s"
  shows "valid_window (getWindow scope s)"
proof (cases "map_get (cs_rows s) scope")
  case None
  then show ?thesis
    using assms default_valid[of scope] by (cases "map_get buildDefaultScopeMap scope")
      (simp_all add: getWindow_def config_inv_def, simp add: valid_window_def)
next
  case (Some w)
  with assms show ?thesis by (auto simp: getWindow_def config_inv_def dest!: map_of_SomeD)
qed

text \<open>From a state in which the table holds only valid rows and the cache reflects it, after every
  sequence of edits the effective window of every scope, configured, default or unknown, has between 1 and
  100000 requests and lasts between a second and a day.\<close>

theorem effective_window_valid:
  assumes "config_inv s"
  shows "1 \<le> sw_maxRequests (getWindow scope (fold config_apply es s)) \<and>
    sw_maxRequests (getWindow scope (fold config_apply es s)) \<le> 100000 \<and>
    1 \<le> sw_windowSeconds (getWindow scope (fold config_apply es s)) \<and>
    sw_windowSeconds (getWindow scope (fold config_apply es s)) \<le> 86400"
  using getWindow_valid[OF config_edits_inv[OF assms]] by (simp add: valid_window_def)

lemma getWindow_rows: "config_inv s \<Longrightarrow> getWindow scope s =
    nullish (map_get (cs_rows s) scope)
      (nullish (map_get buildDefaultScopeMap scope) \<lparr>sw_maxRequests = 10000, sw_windowSeconds = 60\<rparr>)"
  by (simp add: getWindow_def config_inv_def)

lemma setWindow_rows: "setWindow scope w s = (Inr (), s') \<Longrightarrow> cs_rows s' = map_set scope w (cs_rows s)"
  by (auto simp: setWindow_def refresh_def split: option.splits)

text \<open>An edit takes effect at once and only on its own scope: an accepted \<open>PUT\<close> makes the new window
  effective, a rejected one changes nothing, and \<open>DELETE\<close> restores the built-in window of the scope.\<close>

theorem config_edit_effect:
  assumes "config_inv s" and "putConfig scope m n s = (r, s')"
  shows "(case r of Inl _ \<Rightarrow> s' = s | Inr (k, w) \<Rightarrow> k = scope \<and> m = Some (sw_maxRequests w) \<and>
        n = Some (sw_windowSeconds w) \<and>
        (\<forall>k. getWindow k s' = (if k = scope then w else getWindow k s))) \<and>
    (\<forall>k. getWindow k (deleteWindow scope s) = (if k = scope
        then getWindow scope \<lparr>cs_rows = [], cs_cache = []\<rparr> else getWindow k s))"
proof -
  have "getWindow k (deleteWindow scope s) = (if k = scope
        then getWindow scope \<lparr>cs_rows = [], cs_cache = []\<rparr> else getWindow k s)" for k
  proof -
    have "cs_rows (deleteWindow scope s) = map_delete scope (cs_rows s)"
      by (simp add: deleteWindow_def refresh_def)
    then show ?thesis
      using getWindow_rows[OF deleteWindow_inv[OF assms(1)], of k scope] getWindow_rows[OF assms(1), of k]
      by (auto simp: map_get_delete getWindow_def)
  qed
  moreover have "case r of Inl _ \<Rightarrow> s' = s | Inr (k, w) \<Rightarrow> k = scope \<and> m = Some (sw_maxRequests w) \<and>
        n = Some (sw_windowSeconds w) \<and> (\<forall>k. getWindow k s' = (if k = scope then w else getWindow k s))"
  proof (cases r)
    case (Inl e)
    then show ?thesis using assms(2)
      by (auto simp: putConfig_def setWindow_def Let_def split: option.splits)
  next
    case (Inr kw)
    then obtain w where w: "kw = (scope, w)" "m = Some (sw_maxRequests w)" "n = Some (sw_windowSeconds w)"
        "setWindow scope w s = (Inr (), s')"
      using assms(2) by (fastforce simp: putConfig_def Let_def split: option.splits prod.splits sum.splits)
    show ?thesis
      using Inr w getWindow_rows[OF setWindow_inv[OF assms(1) w(4)]] getWindow_rows[OF assms(1)]
      by (simp add: setWindow_rows[OF w(4)] map_get_set)
  qed
  ultimately show ?thesis by blast
qed

section \<open>Paging through the decision history\<close>

fun decision_walk ::
  "nat \<Rightarrow> millis option \<Rightarrow> int option \<Rightarrow> string option \<Rightarrow> decision option \<Rightarrow> decision_row list \<Rightarrow> decision_row list" where
  "decision_walk 0 c l ep d rows = []"
| "decision_walk (Suc n) c l ep d rows =
     (let p = decisionsJson c l ep d rows
      in dp_items p @ (case dp_nextCursor p of None \<Rightarrow> [] | Some c' \<Rightarrow> decision_walk n (Some c') l ep d rows))"

abbreviation newest_first :: "decision_row \<Rightarrow> decision_row \<Rightarrow> bool" where
  "newest_first a b \<equiv> dr_ts b \<le> dr_ts a"

lemma where_matches_cursor:
  "where_matches ep d (Some c) r \<longleftrightarrow> where_matches ep d None r \<and> dr_ts r < c"
  by (auto simp: where_matches_def)

lemma matching_cursor:
  "sort_by newest_first (filter (where_matches ep d (Some c)) rows) =
   filter (\<lambda>r. dr_ts r < c) (sort_by newest_first (filter (where_matches ep d None) rows))"
  by (subst filter_sort_by) (auto simp: where_matches_cursor intro!: arg_cong[where f = "sort_by newest_first"] filter_cong)

lemma filter_after:
  assumes "sorted_wrt (\<lambda>a b. dr_ts b < dr_ts a) (pre @ suf)" and "pre \<noteq> []"
  shows "filter (\<lambda>r. dr_ts r < dr_ts (last pre)) (pre @ suf) = suf"
proof -
  have "filter (\<lambda>r. dr_ts r < dr_ts (last pre)) pre = []"
    using assms by (cases pre rule: rev_cases) (auto simp: sorted_wrt_append filter_empty_conv)
  moreover have "filter (\<lambda>r. dr_ts r < dr_ts (last pre)) suf = suf"
    using assms by (auto simp: sorted_wrt_append filter_id_conv)
  ultimately show ?thesis by simp
qed

lemma decisions_page_of:
  assumes "sort_by newest_first (filter (where_matches ep d c) rows) = suf" and "1 \<le> l"
  shows "dp_items (decisionsJson c (Some l) ep d rows) = take (nat (min l 200)) suf \<and>
    dp_nextCursor (decisionsJson c (Some l) ep d rows) =
      (if length suf \<le> nat (min l 200) then None else Some (dr_ts (last (take (nat (min l 200)) suf))))"
proof -
  define L where "L = nat (min l 200)"
  have L: "min l 200 = int L" "1 \<le> L" using assms(2) by (auto simp: L_def)
  have "nat (int L + 1) = Suc L" by simp
  then show ?thesis using L(2)
    by (auto simp: decisionsJson_def Let_def assms(1) L(1) prisma_take_def slice0_def min_absorb1)
qed

lemma decision_walk_suffix:
  assumes "sorted_wrt (\<lambda>a b. dr_ts b < dr_ts a) (pre @ suf)"
    and "sort_by newest_first (filter (where_matches ep d None) rows) = pre @ suf"
    and "c = (if pre = [] then None else Some (dr_ts (last pre)))"
    and "1 \<le> l" and "length suf < n"
  shows "decision_walk n c (Some l) ep d rows = suf"
  using assms
proof (induction n arbitrary: pre suf c)
  case (Suc n)
  let ?L = "nat (min l 200)"
  have here: "sort_by newest_first (filter (where_matches ep d c) rows) = suf"
    using Suc.prems(1-3) filter_after[of pre suf] matching_cursor[of ep d "dr_ts (last pre)" rows] by auto
  note page = decisions_page_of[OF here Suc.prems(4)]
  show ?case
  proof (cases "length suf \<le> ?L")
    case True
    with page show ?thesis by simp
  next
    case False
    have L: "1 \<le> ?L" using Suc.prems(4) by auto
    with False have ne: "take ?L suf \<noteq> []" by auto
    have "decision_walk n (Some (dr_ts (last (take ?L suf)))) (Some l) ep d rows = drop ?L suf"
    proof (rule Suc.IH[of "pre @ take ?L suf"])
      show "sorted_wrt (\<lambda>a b. dr_ts b < dr_ts a) ((pre @ take ?L suf) @ drop ?L suf)" using Suc.prems(1) by simp
      show "sort_by newest_first (filter (where_matches ep d None) rows) = (pre @ take ?L suf) @ drop ?L suf"
        using Suc.prems(2) by simp
      show "length (drop ?L suf) < n" using Suc.prems(5) False L by simp
    qed (use ne Suc.prems(4) in simp_all)
    with page False show ?thesis by simp
  qed
qed simp

lemma strict_of_sorted:
  "sorted_wrt newest_first xs \<Longrightarrow> distinct (map dr_ts xs) \<Longrightarrow> sorted_wrt (\<lambda>a b. dr_ts b < dr_ts a) xs"
  by (induction xs) (force simp: order_less_le image_iff)+

lemma strictly_sorted:
  "distinct (map dr_ts xs) \<Longrightarrow> sorted_wrt (\<lambda>a b. dr_ts b < dr_ts a) (sort_by newest_first xs)"
  by (rule strict_of_sorted, rule sorted_sort_by) auto

text \<open>Following the cursors of the decision history from the first page visits every matching decision
  exactly once, newest first, and stops, for every positive page size, if no two matching decisions have
  the same time stamp.\<close>

theorem decision_history_complete:
  assumes "distinct (map dr_ts (filter (where_matches ep d None) rows))" and "1 \<le> l" and "length rows < n"
  shows "decision_walk n None (Some l) ep d rows =
    sort_by (\<lambda>a b. dr_ts b \<le> dr_ts a) (filter (where_matches ep d None) rows)"
proof (rule decision_walk_suffix[where pre = "[]"])
  show "length (sort_by newest_first (filter (where_matches ep d None) rows)) < n"
    using assms(3) le_less_trans[OF length_filter_le] by simp
qed (use assms strictly_sorted in simp_all)

section \<open>The properties at concrete inputs\<close>

definition sample_decisions :: "decision_row list" where
  "sample_decisions = [\<lparr>dr_id = ''a'', dr_endpoint = ''/x'', dr_decision = Block, dr_ts = 5\<rparr>,
     \<lparr>dr_id = ''b'', dr_endpoint = ''/x'', dr_decision = Block, dr_ts = 9\<rparr>,
     \<lparr>dr_id = ''c'', dr_endpoint = ''/x'', dr_decision = Allow, dr_ts = 7\<rparr>]"

definition empty_config :: config_service where
  "empty_config = \<lparr>cs_rows = [], cs_cache = []\<rparr>"

theorem effective_window_valid_witness:
  "sw_maxRequests (getWindow ''s'' (fold config_apply [Put ''s'' (Some 7) (Some 60), Put ''s'' (Some 0) (Some 60)]
     empty_config)) = 7 \<and>
   1 \<le> sw_maxRequests (getWindow ''s'' (fold config_apply
     [Put ''s'' (Some 7) (Some 60), Put ''s'' (Some 0) (Some 60)] empty_config))"
proof
  show "sw_maxRequests (getWindow ''s'' (fold config_apply [Put ''s'' (Some 7) (Some 60), Put ''s'' (Some 0) (Some 60)]
     empty_config)) = 7" by code_simp
  show "1 \<le> sw_maxRequests (getWindow ''s'' (fold config_apply
     [Put ''s'' (Some 7) (Some 60), Put ''s'' (Some 0) (Some 60)] empty_config))"
    using effective_window_valid[of empty_config "''s''"
        "[Put ''s'' (Some 7) (Some 60), Put ''s'' (Some 0) (Some 60)]"]
    by (simp add: empty_config_def config_inv_def)
qed

theorem config_edit_effect_witness:
  "getWindow ''s'' (snd (putConfig ''s'' (Some 7) (Some 60) empty_config)) =
     \<lparr>sw_maxRequests = 7, sw_windowSeconds = 60\<rparr>"
proof -
  obtain s' where s': "putConfig ''s'' (Some 7) (Some 60) empty_config =
      (Inr (''s'', \<lparr>sw_maxRequests = 7, sw_windowSeconds = 60\<rparr>), s')"
    by (simp add: putConfig_def validateRateLimitConfig_def setWindow_def Let_def)
  from config_edit_effect[OF _ s'] show ?thesis using s' by (simp add: empty_config_def config_inv_def)
qed

theorem decision_history_complete_witness:
  "map dr_id (decision_walk 4 None (Some 1) None (Some Block) sample_decisions) = [''b'', ''a'']"
  by (subst decision_history_complete) (code_simp+)

end
