(* ===== verification/Job_Queue.thy ===== *)
theory Job_Queue
  imports Js_Prelude Complex_Main
begin

text \<open>
  The in-memory job queue: \<open>src/core/jobs/job-queue.ts\<close>, its dashboard roll-up
  \<open>dev-jobs-aggregations.ts\<close>, the cron fallback \<open>cron-interval.ts\<close> and the registry
  \<open>scheduled-job.registry.ts\<close>.

  The promise chain \<open>inFlight\<close> is the number of scheduled \<open>processOne\<close> calls that have not begun
  (\<open>jq_ticks\<close>) and the job whose handler is being awaited (\<open>jq_active\<close>).  \<open>processOne\<close> is cut at its
  \<open>await\<close> into \<open>process_begin\<close> and \<open>process_end\<close>.  Job ids come from \<open>uuidV7\<close>, handler outcomes from
  the handlers: both are arguments.
\<close>

section \<open>Records and aggregates\<close>

datatype job_state = Created | Active | Completed | Failed | Cancelled | Retry

record 'p job_record =
  jr_id :: string
  jr_name :: string
  jr_state :: job_state
  jr_attempt :: nat
  jr_payload :: 'p
  jr_createdAt :: millis
  jr_startedAt :: "millis option"
  jr_completedAt :: "millis option"
  jr_errorMessage :: "string option"

type_synonym state_counts = "(job_state \<times> nat) list"

definition emptyCounts :: state_counts where
  "emptyCounts = [(Created, 0), (Active, 0), (Completed, 0), (Failed, 0), (Cancelled, 0), (Retry, 0)]"

definition countByState :: "'p job_record list \<Rightarrow> state_counts" where
  "countByState records =
     fold (\<lambda>r counts. case map_get counts (jr_state r) of
         Some n \<Rightarrow> map_set (jr_state r) (n + 1) counts | None \<Rightarrow> counts) records emptyCounts"

fun completionDurations :: "'p job_record list \<Rightarrow> int list" where
  "completionDurations [] = []"
| "completionDurations (r # rs) =
     (if jr_state r \<noteq> Completed then completionDurations rs
      else case (jr_startedAt r, jr_completedAt r) of
             (Some s, Some c) \<Rightarrow> if c - s < 0 then completionDurations rs else (c - s) # completionDurations rs
           | _ \<Rightarrow> completionDurations rs)"

text \<open>\<open>Math.ceil(n * 0.95)\<close>.\<close>

definition ceil95 :: "nat \<Rightarrow> nat" where
  "ceil95 n = (n * 95 + 99) div 100"

definition computeP95Latency :: "'p job_record list \<Rightarrow> int option" where
  "computeP95Latency records =
     (let durations = completionDurations records
      in if durations = [] then None
         else let sorted = sort_by (\<lambda>a b. a \<le> b) durations;
                  index = min (length sorted - 1) (max 0 (ceil95 (length sorted) - 1))
              in Some (sorted ! index))"

definition computeFailureRate :: "'p job_record list \<Rightarrow> rat" where
  "computeFailureRate records =
     (let failed = length (filter (\<lambda>r. jr_state r = Failed) records);
          completed = length (filter (\<lambda>r. jr_state r = Completed) records);
          total = failed + completed
      in if total = 0 then 0 else of_nat failed / of_nat total)"

record queue_aggregate =
  qa_name :: string
  qa_total :: nat
  qa_counts :: state_counts
  qa_p95LatencyMs :: "int option"
  qa_failureRate :: rat

definition group_by_name :: "'p job_record list \<Rightarrow> (string \<times> 'p job_record list) list" where
  "group_by_name records =
     fold (\<lambda>r grouped. map_set (jr_name r) (nullish (map_get grouped (jr_name r)) [] @ [r]) grouped) records []"

definition aggregateJobsByQueue ::
  "(string \<Rightarrow> string \<Rightarrow> bool) \<Rightarrow> 'p job_record list \<Rightarrow> queue_aggregate list" where
  "aggregateJobsByQueue le records =
     sort_by (\<lambda>a b. le (qa_name a) (qa_name b))
       (map (\<lambda>(name, list). \<lparr>qa_name = name, qa_total = length list, qa_counts = countByState list,
               qa_p95LatencyMs = computeP95Latency list, qa_failureRate = computeFailureRate list\<rparr>)
         (group_by_name records))"

record job_aggregates =
  ja_totalJobs :: nat
  ja_totals :: state_counts
  ja_failureRate :: rat
  ja_p95LatencyMs :: "int option"
  ja_queues :: "queue_aggregate list"

definition buildJobAggregates :: "(string \<Rightarrow> string \<Rightarrow> bool) \<Rightarrow> 'p job_record list \<Rightarrow> job_aggregates" where
  "buildJobAggregates le records =
     \<lparr>ja_totalJobs = length records, ja_totals = countByState records,
      ja_failureRate = computeFailureRate records, ja_p95LatencyMs = computeP95Latency records,
      ja_queues = aggregateJobsByQueue le records\<rparr>"

section \<open>The queue\<close>

record 'p job_queue =
  jq_handlers :: "string list"
  jq_queue :: "string list"
  jq_history :: "string \<rightharpoonup> 'p job_record"
  jq_order :: "string list"
  jq_running :: bool
  jq_ticks :: nat
  jq_active :: "string option"

datatype job_error =
    JobHandlerNotRegistered string
  | JobNotFound string
  | JobNotRetryable string job_state

datatype job_outcome = Resolved | Rejected string

definition new_job_queue :: "'p job_queue" where
  "new_job_queue = \<lparr>jq_handlers = [], jq_queue = [], jq_history = Map.empty, jq_order = [],
     jq_running = False, jq_ticks = 0, jq_active = None\<rparr>"

definition register :: "string \<Rightarrow> 'p job_queue \<Rightarrow> 'p job_queue" where
  "register name q = q\<lparr>jq_handlers := List.insert name (jq_handlers q)\<rparr>"

definition scheduleProcess :: "'p job_queue \<Rightarrow> 'p job_queue" where
  "scheduleProcess q = q\<lparr>jq_ticks := jq_ticks q + 1\<rparr>"

definition enqueueInternal ::
  "string \<Rightarrow> millis \<Rightarrow> string \<Rightarrow> 'p \<Rightarrow> nat \<Rightarrow> 'p job_queue \<Rightarrow> (job_error + string) \<times> 'p job_queue" where
  "enqueueInternal uuid now name payload attempt q =
     (if name \<notin> set (jq_handlers q) then (Inl (JobHandlerNotRegistered name), q)
      else
        let rec = \<lparr>jr_id = uuid, jr_name = name, jr_state = Created, jr_attempt = attempt, jr_payload = payload,
                   jr_createdAt = now, jr_startedAt = None, jr_completedAt = None, jr_errorMessage = None\<rparr>;
            q1 = q\<lparr>jq_history := (jq_history q)(uuid \<mapsto> rec), jq_order := jq_order q @ [uuid],
                   jq_queue := jq_queue q @ [uuid]\<rparr>
        in (Inr uuid, if jq_running q1 then scheduleProcess q1 else q1))"

definition enqueue ::
  "string \<Rightarrow> millis \<Rightarrow> string \<Rightarrow> 'p \<Rightarrow> 'p job_queue \<Rightarrow> (job_error + string) \<times> 'p job_queue" where
  "enqueue uuid now name payload q = enqueueInternal uuid now name payload 1 q"

definition retry :: "string \<Rightarrow> millis \<Rightarrow> string \<Rightarrow> 'p job_queue \<Rightarrow> (job_error + string) \<times> 'p job_queue" where
  "retry uuid now jid q =
     (case jq_history q jid of
        None \<Rightarrow> (Inl (JobNotFound jid), q)
      | Some original \<Rightarrow>
          if jr_state original \<noteq> Failed then (Inl (JobNotRetryable jid (jr_state original)), q)
          else enqueueInternal uuid now (jr_name original) (jr_payload original) (jr_attempt original + 1) q)"

definition jq_start :: "'p job_queue \<Rightarrow> 'p job_queue" where
  "jq_start q = (if jq_running q then q else scheduleProcess (q\<lparr>jq_running := True\<rparr>))"

definition jq_stop :: "'p job_queue \<Rightarrow> 'p job_queue" where
  "jq_stop q = q\<lparr>jq_running := False\<rparr>"

definition update_job :: "string \<Rightarrow> ('p job_record \<Rightarrow> 'p job_record) \<Rightarrow> 'p job_queue \<Rightarrow> 'p job_queue" where
  "update_job jid f q = q\<lparr>jq_history := (jq_history q)(jid := map_option f (jq_history q jid))\<rparr>"

text \<open>\<open>processOne\<close> up to \<open>await handler(\<dots>)\<close>.\<close>

definition process_begin :: "millis \<Rightarrow> 'p job_queue \<Rightarrow> 'p job_queue" where
  "process_begin now q0 =
     (let q = q0\<lparr>jq_ticks := jq_ticks q0 - 1\<rparr>
      in if \<not> jq_running q then q
         else case jq_queue q of
                [] \<Rightarrow> q
              | jid # rest \<Rightarrow>
                  let q1 = q\<lparr>jq_queue := rest\<rparr>
                  in case jq_history q1 jid of
                       None \<Rightarrow> q1
                     | Some r \<Rightarrow>
                         if jr_name r \<notin> set (jq_handlers q1)
                         then update_job jid (\<lambda>r. r\<lparr>jr_state := Failed,
                                jr_errorMessage := Some (''job handler not registered: '' @ jr_name r),
                                jr_completedAt := Some now\<rparr>) q1
                         else (update_job jid (\<lambda>r. r\<lparr>jr_state := Active, jr_startedAt := Some now\<rparr>) q1)
                                \<lparr>jq_active := Some jid\<rparr>)"

text \<open>\<open>processOne\<close> after the handler has settled.\<close>

definition process_end :: "millis \<Rightarrow> job_outcome \<Rightarrow> 'p job_queue \<Rightarrow> 'p job_queue" where
  "process_end now outcome q =
     (case jq_active q of
        None \<Rightarrow> q
      | Some jid \<Rightarrow>
          let q1 = (case outcome of
                      Resolved \<Rightarrow> update_job jid (\<lambda>r. r\<lparr>jr_state := Completed, jr_completedAt := Some now\<rparr>) q
                    | Rejected msg \<Rightarrow> update_job jid (\<lambda>r. r\<lparr>jr_state := Failed, jr_errorMessage := Some msg,
                                        jr_completedAt := Some now\<rparr>) q);
              q2 = q1\<lparr>jq_active := None\<rparr>
          in if jq_running q2 \<and> jq_queue q2 \<noteq> [] then scheduleProcess q2 else q2)"

datatype job_result = RPending | RCompleted | RFailed string

definition jobResult :: "string \<Rightarrow> 'p job_queue \<Rightarrow> job_result option" where
  "jobResult jid q =
     (case jq_history q jid of
        None \<Rightarrow> None
      | Some r \<Rightarrow>
          if jr_state r = Completed then Some RCompleted
          else if jr_state r = Failed then Some (RFailed (nullish (jr_errorMessage r) ''job failed''))
          else Some RPending)"

definition getJob :: "string \<Rightarrow> 'p job_queue \<Rightarrow> 'p job_record option" where
  "getJob jid q = jq_history q jid"

text \<open>The loop of \<open>listJobs\<close> over the reversed order array; \<open>out\<close> is what it has collected.\<close>

fun list_loop ::
  "(string \<rightharpoonup> 'p job_record) \<Rightarrow> job_state option \<Rightarrow> string option \<Rightarrow> nat option \<Rightarrow> string list
     \<Rightarrow> 'p job_record list \<Rightarrow> 'p job_record list" where
  "list_loop h state name limit [] out = out"
| "list_loop h state name limit (jid # ids) out =
     (case h jid of
        None \<Rightarrow> list_loop h state name limit ids out
      | Some r \<Rightarrow>
          if state \<noteq> None \<and> Some (jr_state r) \<noteq> state then list_loop h state name limit ids out
          else if truthy_opt name \<and> Some (jr_name r) \<noteq> name then list_loop h state name limit ids out
          else
            let out' = out @ [r]
            in if (case limit of None \<Rightarrow> False | Some l \<Rightarrow> length out' \<ge> l) then out'
               else list_loop h state name limit ids out')"

definition listJobs :: "job_state option \<Rightarrow> string option \<Rightarrow> nat option \<Rightarrow> 'p job_queue \<Rightarrow> 'p job_record list" where
  "listJobs state name limit q = list_loop (jq_history q) state name limit (rev (jq_order q)) []"

definition getAggregates :: "(string \<Rightarrow> string \<Rightarrow> bool) \<Rightarrow> 'p job_queue \<Rightarrow> job_aggregates" where
  "getAggregates le q = buildJobAggregates le (listJobs None None None q)"

text \<open>
  A handler enqueues jobs while it runs, and then settles or stays pending for ever; what it does may differ from
  call to call.  \<open>dn_now\<close> and \<open>dn_uuid\<close> are the clock and the identifiers \<open>uuidV7\<close> hands out.
\<close>

datatype 'p handler_run = Settles "(string \<times> 'p) list" job_outcome | StaysPending

record 'p drain_env =
  dn_now :: "nat \<Rightarrow> millis"
  dn_uuid :: "nat \<Rightarrow> string"
  dn_handler :: "string \<Rightarrow> 'p \<Rightarrow> nat \<Rightarrow> 'p handler_run"

fun enqueue_all :: "'p drain_env \<Rightarrow> nat \<Rightarrow> nat \<Rightarrow> (string \<times> 'p) list \<Rightarrow> 'p job_queue \<Rightarrow> nat \<times> 'p job_queue" where
  "enqueue_all env k c [] q = (c, q)"
| "enqueue_all env k c ((name, payload) # js) q =
     enqueue_all env k (Suc c) js (snd (enqueue (dn_uuid env c) (dn_now env k) name payload q))"

text \<open>\<open>drain\<close> loops until no job waits and the promise chain has settled.  One round of the chain: the awaited handler
  settles (\<open>None\<close>: it never does), or the next scheduled \<open>processOne\<close> begins.\<close>

definition drained :: "'p job_queue \<Rightarrow> bool" where
  "drained q \<longleftrightarrow> jq_queue q = [] \<and> jq_ticks q = 0 \<and> jq_active q = None"

definition drain_round :: "'p drain_env \<Rightarrow> nat \<Rightarrow> nat \<Rightarrow> 'p job_queue \<Rightarrow> (nat \<times> 'p job_queue) option" where
  "drain_round env k c q =
     (case jq_active q of
        None \<Rightarrow> Some (c, if jq_ticks q = 0 then q else process_begin (dn_now env k) q)
      | Some jid \<Rightarrow>
          (case jq_history q jid of
             None \<Rightarrow> None
           | Some r \<Rightarrow>
               (case dn_handler env (jr_name r) (jr_payload r) k of
                  StaysPending \<Rightarrow> None
                | Settles js outcome \<Rightarrow>
                    let (c', q1) = enqueue_all env k c js q in Some (c', process_end (dn_now env k) outcome q1))))"

text \<open>\<open>None\<close>: the loop has not ended within the fuel.\<close>

fun drain :: "'p drain_env \<Rightarrow> nat \<Rightarrow> nat \<Rightarrow> nat \<Rightarrow> 'p job_queue \<Rightarrow> 'p job_queue option" where
  "drain env 0 k c q = (if drained q then Some q else None)"
| "drain env (Suc n) k c q =
     (if drained q then Some q
      else case drain_round env k c q of None \<Rightarrow> None | Some (c', q') \<Rightarrow> drain env n (Suc k) c' q')"

section \<open>Cron fallback and scheduled-job registry\<close>

text \<open>\<open>s.trim().split(/\\s+/)\<close>.\<close>

definition split_spaces :: "string \<Rightarrow> string list" where
  "split_spaces s =
     (let ws = filter (\<lambda>w. w \<noteq> []) (split_on CHR '' '' (map (\<lambda>c. if is_space c then CHR '' '' else c) (trim s)))
      in if ws = [] then [[]] else ws)"

definition parseCronToIntervalMs :: "string \<Rightarrow> millis option" where
  "parseCronToIntervalMs cron =
     (let parts = split_spaces cron
      in if length parts < 5 then None
         else if parts ! 0 = ''0'' \<and> parts ! 1 = ''*'' \<and> parts ! 2 = ''*'' \<and> parts ! 3 = ''*'' \<and> parts ! 4 = ''*''
              then Some (60 * 60 * 1000)
         else if parseInt (parts ! 1) \<noteq> None \<and> parseInt (parts ! 0) \<noteq> None \<and>
                 parts ! 2 = ''*'' \<and> parts ! 3 = ''*'' \<and> parts ! 4 = ''*''
              then Some (24 * 60 * 60 * 1000)
         else None)"

record job_meta =
  jm_name :: string
  jm_cron :: string
  jm_methodName :: string
  jm_isFunction :: bool

record job_provider =
  pv_className :: string
  pv_decorations :: "job_meta list"

record job_entry =
  en_name :: string
  en_cron :: string
  en_source :: string

definition bind_job :: "string \<Rightarrow> job_meta \<Rightarrow> (string \<times> job_entry) list \<Rightarrow> (string \<times> job_entry) list" where
  "bind_job className meta entries =
     (if \<not> jm_isFunction meta then entries
      else if map_get entries (jm_name meta) \<noteq> None then entries
      else map_set (jm_name meta) \<lparr>en_name = jm_name meta, en_cron = jm_cron meta,
             en_source = className @ ''.'' @ jm_methodName meta\<rparr> entries)"

definition onApplicationBootstrap :: "job_provider list \<Rightarrow> (string \<times> job_entry) list" where
  "onApplicationBootstrap providers =
     fold (\<lambda>p entries. fold (bind_job (pv_className p)) (pv_decorations p) entries) providers []"

definition registry_list :: "(string \<Rightarrow> string \<Rightarrow> bool) \<Rightarrow> (string \<times> job_entry) list \<Rightarrow> job_entry list" where
  "registry_list le entries = sort_by (\<lambda>a b. le (en_name a) (en_name b)) (map snd entries)"

definition registry_runOnce :: "string \<Rightarrow> (string \<times> job_entry) list \<Rightarrow> job_entry option" where
  "registry_runOnce name entries = map_get entries name"

end
