(* ===== verification/Job_Lifecycle.thy ===== *)
theory Job_Lifecycle
  imports Job_Queue
begin

text \<open>
  What the in-memory job queue guarantees in every interleaving of its operations: no job is lost,
  duplicated or overtaken, one handler runs at a time, finished jobs never change, work that is waiting
  is always scheduled, and draining a running queue ends.
\<close>

section \<open>Steps\<close>

inductive jq_step :: "'p job_queue \<Rightarrow> 'p job_queue \<Rightarrow> bool" where
  register: "jq_step q (register name q)"
| enqueue: "uuid \<notin> set (jq_order q) \<Longrightarrow> jq_step q (snd (enqueue uuid now name payload q))"
| retry: "uuid \<notin> set (jq_order q) \<Longrightarrow> jq_step q (snd (retry uuid now jid q))"
| start: "jq_step q (jq_start q)"
| stop: "jq_step q (jq_stop q)"
| tick: "0 < jq_ticks q \<Longrightarrow> jq_active q = None \<Longrightarrow> jq_step q (process_begin now q)"
| finish: "jq_active q \<noteq> None \<Longrightarrow> jq_step q (process_end now outcome q)"

inductive jq_reachable :: "'p job_queue \<Rightarrow> bool" where
  init: "jq_reachable new_job_queue"
| step: "jq_reachable q \<Longrightarrow> jq_step q q' \<Longrightarrow> jq_reachable q'"

abbreviation state_of :: "'p job_queue \<Rightarrow> string \<Rightarrow> job_state option" where
  "state_of q jid \<equiv> map_option jr_state (jq_history q jid)"

text \<open>The history describes exactly the jobs in the order array, the queue holds exactly the jobs in
  state \<open>Created\<close> in that order, and only the awaited job is \<open>Active\<close>.\<close>

definition jq_consistent :: "'p job_queue \<Rightarrow> bool" where
  "jq_consistent q \<longleftrightarrow> distinct (jq_order q) \<and> dom (jq_history q) = set (jq_order q) \<and>
     jq_queue q = filter (\<lambda>jid. state_of q jid = Some Created) (jq_order q) \<and>
     (\<forall>jid. state_of q jid = Some Active \<longleftrightarrow> jq_active q = Some jid) \<and>
     (\<forall>jid r. jq_history q jid = Some r \<longrightarrow> jr_name r \<in> set (jq_handlers q) \<and> jr_id r = jid \<and>
        jr_state r \<noteq> Cancelled \<and> jr_state r \<noteq> Retry)"

text \<open>Waiting work is scheduled.\<close>

definition jq_live :: "'p job_queue \<Rightarrow> bool" where
  "jq_live q \<longleftrightarrow> (jq_running q \<and> jq_queue q \<noteq> [] \<longrightarrow> 0 < jq_ticks q \<or> jq_active q \<noteq> None)"

lemma schedule_simps [simp]:
  "jq_queue (scheduleProcess q) = jq_queue q" "jq_history (scheduleProcess q) = jq_history q"
  "jq_order (scheduleProcess q) = jq_order q" "jq_handlers (scheduleProcess q) = jq_handlers q"
  "jq_active (scheduleProcess q) = jq_active q" "jq_running (scheduleProcess q) = jq_running q"
  "jq_ticks (scheduleProcess q) = Suc (jq_ticks q)"
  by (simp_all add: scheduleProcess_def)

lemma jq_consistentI:
  assumes "distinct (jq_order q)" and "dom (jq_history q) = set (jq_order q)"
    and "jq_queue q = filter (\<lambda>jid. state_of q jid = Some Created) (jq_order q)"
    and "\<And>j. state_of q j = Some Active \<longleftrightarrow> jq_active q = Some j"
    and "\<And>j r. jq_history q j = Some r \<Longrightarrow> jr_name r \<in> set (jq_handlers q) \<and> jr_id r = j \<and>
        jr_state r \<noteq> Cancelled \<and> jr_state r \<noteq> Retry"
  shows "jq_consistent q"
  using assms unfolding jq_consistent_def by blast

lemma consistent_basic:
  "jq_consistent q \<Longrightarrow> distinct (jq_order q)" "jq_consistent q \<Longrightarrow> dom (jq_history q) = set (jq_order q)"
  "jq_consistent q \<Longrightarrow> jq_queue q = filter (\<lambda>jid. state_of q jid = Some Created) (jq_order q)"
  unfolding jq_consistent_def by blast+

lemma consistent_record:
  "jq_consistent q \<Longrightarrow> jq_history q j = Some r \<Longrightarrow> jr_name r \<in> set (jq_handlers q) \<and> jr_id r = j \<and>
     jr_state r \<noteq> Cancelled \<and> jr_state r \<noteq> Retry"
  unfolding jq_consistent_def by blast

lemma consistent_active: "jq_consistent q \<Longrightarrow> state_of q j = Some Active \<longleftrightarrow> jq_active q = Some j"
  unfolding jq_consistent_def by blast

lemma consistent_schedule [simp]: "jq_consistent (scheduleProcess q) = jq_consistent q"
  by (simp add: jq_consistent_def)

lemma consistent_update_flags [simp]:
  "jq_consistent (q\<lparr>jq_ticks := n\<rparr>) = jq_consistent q"
  "jq_consistent (q\<lparr>jq_running := b\<rparr>) = jq_consistent q"
  by (simp_all add: jq_consistent_def)

lemma enqueueInternal_cases:
  assumes "enqueueInternal uuid now name payload n q = (r, q')"
  obtains (refused) "name \<notin> set (jq_handlers q)" "r = Inl (JobHandlerNotRegistered name)" "q' = q"
  | (queued) "name \<in> set (jq_handlers q)" "r = Inr uuid"
      "jq_history q' = (jq_history q)(uuid \<mapsto> \<lparr>jr_id = uuid, jr_name = name, jr_state = Created, jr_attempt = n,
         jr_payload = payload, jr_createdAt = now, jr_startedAt = None, jr_completedAt = None,
         jr_errorMessage = None\<rparr>)"
      "jq_order q' = jq_order q @ [uuid]" "jq_queue q' = jq_queue q @ [uuid]"
      "jq_handlers q' = jq_handlers q" "jq_active q' = jq_active q" "jq_running q' = jq_running q"
      "jq_ticks q' = (if jq_running q then Suc (jq_ticks q) else jq_ticks q)"
proof (cases "name \<in> set (jq_handlers q)")
  case True
  then show ?thesis using assms by (intro queued) (auto simp: enqueueInternal_def Let_def split: if_splits)
next
  case False
  then show ?thesis using assms by (intro refused) (auto simp: enqueueInternal_def)
qed

lemma enqueueInternal_keeps:
  assumes "enqueueInternal uuid now name payload n q = (r, q')" and "uuid \<notin> set (jq_order q)"
    and "jq_consistent q" and "jq_live q"
  shows "jq_consistent q' \<and> jq_live q'"
  using assms(1)
proof (cases rule: enqueueInternal_cases)
  case refused
  then show ?thesis using assms by simp
next
  case queued
  have new: "jq_history q uuid = None" using assms(2,3) by (auto simp: jq_consistent_def dom_def)
  have "filter (\<lambda>jid. state_of q' jid = Some Created) (jq_order q) =
      filter (\<lambda>jid. state_of q jid = Some Created) (jq_order q)"
    using assms(2) queued(3) by (intro filter_cong) auto
  moreover have "jq_active q \<noteq> Some uuid" using consistent_active[OF assms(3), of uuid] new by simp
  with assms(3) queued(3) new have "\<forall>jid. state_of q' jid = Some Active \<longleftrightarrow> jq_active q = Some jid"
    by (auto simp: jq_consistent_def)
  ultimately show ?thesis using assms(2-4) queued
    by (auto simp: jq_consistent_def jq_live_def)
qed

lemma retry_keeps:
  assumes "uuid \<notin> set (jq_order q)" and "jq_consistent q" and "jq_live q"
  shows "jq_consistent (snd (retry uuid now jid q)) \<and> jq_live (snd (retry uuid now jid q))"
  using assms enqueueInternal_keeps[OF prod.collapse[symmetric] assms]
  by (auto simp: retry_def split: option.splits)

text \<open>Changing the state of one job that is not waiting before and after.\<close>

lemma queue_after_begin:
  assumes "jq_consistent q" and "jq_queue q = jid # rest"
  shows "rest = filter (\<lambda>j. j \<noteq> jid \<and> state_of q j = Some Created) (jq_order q)"
proof -
  have f: "filter (\<lambda>j. state_of q j = Some Created) (jq_order q) = jid # rest"
    and d: "distinct (jq_order q)" using assms by (simp_all add: jq_consistent_def)
  from d f have "jid \<notin> set rest" by (metis distinct.simps(2) distinct_filter)
  then have "filter (\<lambda>j. j \<noteq> jid) (jid # rest) = rest" by (simp add: filter_id_conv) blast
  with f show ?thesis by (metis (no_types, lifting) filter_cong filter_filter)
qed

lemma process_begin_cases:
  assumes "jq_consistent q"
  obtains (idle) "\<not> jq_running q \<or> jq_queue q = []" "process_begin now q = q\<lparr>jq_ticks := jq_ticks q - 1\<rparr>"
  | (picked) jid rest r where "jq_running q" "jq_queue q = jid # rest" "jq_history q jid = Some r"
      "jr_state r = Created"
      "process_begin now q = q\<lparr>jq_ticks := jq_ticks q - 1, jq_queue := rest,
         jq_history := (jq_history q)(jid \<mapsto> r\<lparr>jr_state := Active, jr_startedAt := Some now\<rparr>),
         jq_active := Some jid\<rparr>"
proof (cases "\<not> jq_running q \<or> jq_queue q = []")
  case True
  then show ?thesis by (intro idle) (auto simp: process_begin_def Let_def)
next
  case False
  then obtain jid rest where q: "jq_queue q = jid # rest" by (cases "jq_queue q") auto
  with assms have "filter (\<lambda>jid. state_of q jid = Some Created) (jq_order q) = jid # rest"
    by (simp add: jq_consistent_def)
  then have "jid \<in> set (filter (\<lambda>jid. state_of q jid = Some Created) (jq_order q))"
    by (metis list.set_intros(1))
  then obtain r where r: "jq_history q jid = Some r" "jr_state r = Created" by auto
  with assms have "jr_name r \<in> set (jq_handlers q)" by (simp add: jq_consistent_def)
  with False q r show ?thesis
    by (intro picked[OF _ q r]) (auto simp: process_begin_def Let_def update_job_def)
qed

lemma process_begin_keeps:
  assumes "jq_consistent q" and "jq_active q = None"
  shows "jq_consistent (process_begin now q) \<and> jq_live (process_begin now q)"
  using assms(1)
proof (cases rule: process_begin_cases[where now = now])
  case idle
  then show ?thesis using assms(1) by (auto simp: jq_live_def)
next
  case (picked jid rest r)
  have "rest = filter (\<lambda>j. map_option jr_state (((jq_history q)(jid \<mapsto> r\<lparr>jr_state := Active, jr_startedAt := Some now\<rparr>)) j)
      = Some Created) (jq_order q)"
    unfolding queue_after_begin[OF assms(1) picked(2)] by (intro filter_cong) auto
  moreover have "jid \<in> set (jq_order q)" using consistent_basic(2)[OF assms(1)] picked(3) by auto
  moreover have "state_of q j \<noteq> Some Active" for j using consistent_active[OF assms(1)] assms(2) by simp
  ultimately have "jq_consistent (process_begin now q)"
    unfolding picked(5) using consistent_basic[OF assms(1)] consistent_record[OF assms(1)] picked(3)
    by (intro jq_consistentI) (auto simp: insert_absorb split: if_splits)
  then show ?thesis by (simp add: picked(5) jq_live_def)
qed

definition settle :: "millis \<Rightarrow> job_outcome \<Rightarrow> 'p job_record \<Rightarrow> 'p job_record" where
  "settle now outcome r = (case outcome of
     Resolved \<Rightarrow> r\<lparr>jr_state := Completed, jr_completedAt := Some now\<rparr>
   | Rejected msg \<Rightarrow> r\<lparr>jr_state := Failed, jr_errorMessage := Some msg, jr_completedAt := Some now\<rparr>)"

lemma settle_simps [simp]:
  "jr_state (settle now oc r) = (case oc of Resolved \<Rightarrow> Completed | Rejected _ \<Rightarrow> Failed)"
  "jr_name (settle now oc r) = jr_name r" "jr_id (settle now oc r) = jr_id r"
  "jr_payload (settle now oc r) = jr_payload r" "jr_attempt (settle now oc r) = jr_attempt r"
  by (cases oc; simp add: settle_def)+

lemma process_end_eq:
  assumes "jq_consistent q" and "jq_active q = Some jid"
  obtains r where "jq_history q jid = Some r" "jr_state r = Active"
    "process_end now oc q = (let q' = q\<lparr>jq_history := (jq_history q)(jid \<mapsto> settle now oc r), jq_active := None\<rparr>
       in if jq_running q \<and> jq_queue q \<noteq> [] then scheduleProcess q' else q')"
proof -
  from assms have "state_of q jid = Some Active" by (simp add: jq_consistent_def)
  then obtain r where "jq_history q jid = Some r" "jr_state r = Active" by auto
  then show ?thesis using assms(2)
    by (intro that) (auto simp: process_end_def update_job_def settle_def Let_def split: job_outcome.splits)
qed

lemma process_end_keeps:
  assumes "jq_consistent q" and "jq_active q \<noteq> None"
  shows "jq_consistent (process_end now oc q) \<and> jq_live (process_end now oc q)"
proof -
  from assms(2) obtain jid where a: "jq_active q = Some jid" by auto
  obtain r where r: "jq_history q jid = Some r" "jr_state r = Active"
    "process_end now oc q = (let q' = q\<lparr>jq_history := (jq_history q)(jid \<mapsto> settle now oc r), jq_active := None\<rparr>
       in if jq_running q \<and> jq_queue q \<noteq> [] then scheduleProcess q' else q')"
    by (rule process_end_eq[OF assms(1) a])
  have "filter (\<lambda>j. map_option jr_state (((jq_history q)(jid \<mapsto> settle now oc r)) j) = Some Created) (jq_order q) =
      filter (\<lambda>j. state_of q j = Some Created) (jq_order q)"
    using r(1,2) by (intro filter_cong) (auto split: job_outcome.splits)
  moreover have "jid \<in> set (jq_order q)" using consistent_basic(2)[OF assms(1)] r(1) by auto
  moreover have "state_of q j \<noteq> Some Active" if "j \<noteq> jid" for j
    using consistent_active[OF assms(1), of j] a that by simp
  ultimately have "jq_consistent (q\<lparr>jq_history := (jq_history q)(jid \<mapsto> settle now oc r), jq_active := None\<rparr>)"
    using consistent_basic[OF assms(1)] consistent_record[OF assms(1)] r(1)
    by (intro jq_consistentI) (auto simp: insert_absorb split: if_splits job_outcome.splits)
  then show ?thesis unfolding r(3) by (auto simp: Let_def jq_live_def)
qed

lemma jq_step_keeps: "jq_step q q' \<Longrightarrow> jq_consistent q \<Longrightarrow> jq_live q \<Longrightarrow> jq_consistent q' \<and> jq_live q'"
proof (induction rule: jq_step.induct)
  case (enqueue uuid q now name payload)
  then show ?case unfolding enqueue_def by (intro enqueueInternal_keeps[OF prod.collapse[symmetric]])
next
  case (retry uuid q now jid)
  then show ?case by (rule retry_keeps)
next
  case (tick q now)
  then show ?case by (simp add: process_begin_keeps)
next
  case (finish q now outcome)
  then show ?case by (simp add: process_end_keeps)
qed (auto simp: register_def jq_start_def jq_stop_def jq_consistent_def jq_live_def)

lemma jq_reachable_inv: "jq_reachable q \<Longrightarrow> jq_consistent q \<and> jq_live q"
proof (induction rule: jq_reachable.induct)
  case init
  then show ?case by (simp add: new_job_queue_def jq_consistent_def jq_live_def)
next
  case (step q q')
  then show ?case using jq_step_keeps by blast
qed

text \<open>C14: In every reachable state of the queue, whatever the interleaving of enqueueing, retrying, starting,
  stopping and processing: the waiting list is exactly the list of jobs in state \<open>Created\<close> in the order
  they were enqueued (no job is lost, duplicated or overtaken), at most one job is \<open>Active\<close>, and while the
  queue runs a waiting job is always either scheduled or behind a running handler.\<close>

theorem job_queue_fifo_and_live:
  assumes "jq_reachable q"
  shows "jq_queue q = filter (\<lambda>jid. state_of q jid = Some Created) (jq_order q) \<and> distinct (jq_queue q) \<and>
    (\<forall>i j. state_of q i = Some Active \<and> state_of q j = Some Active \<longrightarrow> i = j) \<and>
    (jq_running q \<and> jq_queue q \<noteq> [] \<longrightarrow> 0 < jq_ticks q \<or> jq_active q \<noteq> None)"
  using jq_reachable_inv[OF assms] by (auto simp: jq_consistent_def jq_live_def)

section \<open>Finished jobs\<close>

definition finished :: "'p job_record \<Rightarrow> bool" where
  "finished r \<longleftrightarrow> jr_state r = Completed \<or> jr_state r = Failed"

lemma enqueueInternal_history:
  assumes "enqueueInternal uuid now name payload n q = (r, q')" and "jq_history q j = Some x"
    and "uuid \<notin> set (jq_order q)" and "jq_consistent q"
  shows "jq_history q' j = Some x"
proof -
  have "j \<noteq> uuid" using assms(2,3) consistent_basic(2)[OF assms(4)] by auto
  from assms(1) show ?thesis
    by (cases rule: enqueueInternal_cases) (use assms(2) \<open>j \<noteq> uuid\<close> in auto)
qed

lemma finished_step:
  assumes "jq_step q q'" and "jq_consistent q" and "jq_history q j = Some r" and "finished r"
  shows "jq_history q' j = Some r"
  using assms
proof (induction rule: jq_step.induct)
  case (enqueue uuid q now name payload)
  then show ?case
    unfolding enqueue_def by (intro enqueueInternal_history[OF prod.collapse[symmetric]])
next
  case (retry uuid q now jid)
  then show ?case
    using enqueueInternal_history[OF prod.collapse[symmetric] retry.prems(2) retry.hyps retry.prems(1)]
    by (auto simp: retry_def split: option.splits)
next
  case (tick q now)
  from tick.prems(1) show ?case
  proof (cases rule: process_begin_cases[where now = now])
    case (picked jid rest r')
    then have "jid \<noteq> j" using tick.prems by (auto simp: finished_def)
    then show ?thesis using picked tick.prems by simp
  qed (use tick.prems in simp)
next
  case (finish q now outcome)
  then obtain jid where a: "jq_active q = Some jid" by auto
  obtain x where x: "jq_history q jid = Some x" "jr_state x = Active"
    "process_end now outcome q = (let q' = q\<lparr>jq_history := (jq_history q)(jid \<mapsto> settle now outcome x), jq_active := None\<rparr>
       in if jq_running q \<and> jq_queue q \<noteq> [] then scheduleProcess q' else q')"
    by (rule process_end_eq[OF finish.prems(1) a])
  then have "jid \<noteq> j" using finish.prems by (auto simp: finished_def)
  then show ?case using x finish.prems by (simp add: Let_def)
qed (auto simp: register_def jq_start_def jq_stop_def)

lemma jq_steps_reachable: "jq_step\<^sup>*\<^sup>* q q' \<Longrightarrow> jq_reachable q \<Longrightarrow> jq_reachable q'"
  by (induction rule: rtranclp_induct) (auto intro: jq_reachable.step)

text \<open>A job that has completed or failed keeps its record unchanged for the rest of the queue's life:
  no retry, restart or later processing alters it, so every job is executed at most once.\<close>

theorem finished_jobs_frozen:
  assumes "jq_reachable q" and "jq_step\<^sup>*\<^sup>* q q'" and "getJob jid q = Some r"
    and "jr_state r = Completed \<or> jr_state r = Failed"
  shows "getJob jid q' = Some r"
  using assms(2)
proof (induction rule: rtranclp_induct)
  case base
  show ?case by (rule assms(3))
next
  case (step x y)
  have "jq_consistent x" using jq_reachable_inv[OF jq_steps_reachable[OF step.hyps(1) assms(1)]] by simp
  from finished_step[OF step.hyps(2) this] step.IH assms(4) show ?case
    by (simp add: getJob_def finished_def)
qed

section \<open>Draining\<close>

lemma process_end_frame [simp]:
  "jq_queue (process_end now oc q) = jq_queue q" "jq_running (process_end now oc q) = jq_running q"
  "jq_active (process_end now oc q) = None" "jq_order (process_end now oc q) = jq_order q"
  by (auto simp: process_end_def update_job_def Let_def split: option.splits job_outcome.splits)

lemma process_end_ticks:
  "jq_ticks (process_end now oc q) \<le> (if jq_queue q = [] then jq_ticks q else Suc (jq_ticks q))"
  by (auto simp: process_end_def update_job_def Let_def split: option.splits job_outcome.splits)

lemma drained_all_finished:
  assumes "jq_consistent q" and "jq_queue q = []" and "jq_active q = None" and "jq_history q j = Some r"
  shows "finished r"
proof -
  have "j \<in> set (jq_order q)" using consistent_basic(2)[OF assms(1)] assms(4) by auto
  moreover have "filter (\<lambda>j. state_of q j = Some Created) (jq_order q) = []"
    using consistent_basic(3)[OF assms(1)] assms(2) by simp
  ultimately have "jr_state r \<noteq> Created" using assms(4) by (auto simp: filter_empty_conv)
  moreover have "jr_state r \<noteq> Active" using consistent_active[OF assms(1), of j] assms(3,4) by simp
  ultimately show ?thesis using consistent_record[OF assms(1,4)] by (cases "jr_state r") (auto simp: finished_def)
qed

text \<open>What is still to be done, for a weight of jobs: every waiting job, the awaited one and every scheduled call.\<close>

definition job_weight :: "(string \<Rightarrow> 'p \<Rightarrow> nat) \<Rightarrow> 'p job_queue \<Rightarrow> string \<Rightarrow> nat" where
  "job_weight w q jid = (case jq_history q jid of None \<Rightarrow> 0 | Some r \<Rightarrow> w (jr_name r) (jr_payload r))"

definition work_left :: "(string \<Rightarrow> 'p \<Rightarrow> nat) \<Rightarrow> 'p job_queue \<Rightarrow> nat" where
  "work_left w q = 3 * sum_list (map (job_weight w q) (jq_queue q)) +
     (case jq_active q of None \<Rightarrow> 0 | Some jid \<Rightarrow> 3 * job_weight w q jid - 1) + jq_ticks q"

text \<open>Handlers settle, and enqueue only jobs that together weigh less than the job they run.\<close>

definition winds_down :: "(string \<Rightarrow> 'p \<Rightarrow> nat) \<Rightarrow> 'p drain_env \<Rightarrow> bool" where
  "winds_down w env \<longleftrightarrow> (\<forall>name payload k. \<exists>js outcome. dn_handler env name payload k = Settles js outcome \<and>
     sum_list (map (\<lambda>(n, p). w n p + 1) js) < w name payload)"

definition fresh_ids :: "'p drain_env \<Rightarrow> nat \<Rightarrow> 'p job_queue \<Rightarrow> bool" where
  "fresh_ids env c q \<longleftrightarrow> inj (dn_uuid env) \<and> (\<forall>k\<ge>c. dn_uuid env k \<notin> set (jq_order q))"

definition sound_queue :: "'p drain_env \<Rightarrow> nat \<Rightarrow> 'p job_queue \<Rightarrow> bool" where
  "sound_queue env c q \<longleftrightarrow> jq_consistent q \<and> jq_live q \<and> jq_running q \<and> fresh_ids env c q"

lemma job_weight_cong:
  "(\<And>j. j \<in> set js \<Longrightarrow> job_weight w q' j = job_weight w q j) \<Longrightarrow> map (job_weight w q') js = map (job_weight w q) js"
  by simp

lemma enqueue_work:
  assumes "sound_queue env c q" and "q' = snd (enqueue (dn_uuid env c) now name payload q)"
  shows "sound_queue env (Suc c) q'" "jq_active q' = jq_active q"
    "work_left w q' \<le> work_left w q + 3 * (w name payload + 1)" "\<exists>new. jq_order q' = jq_order q @ new"
    "\<And>jid. jq_active q = Some jid \<Longrightarrow> jq_history q' jid = jq_history q jid"
proof -
  let ?u = "dn_uuid env c"
  have u: "?u \<notin> set (jq_order q)" "\<And>k. Suc c \<le> k \<Longrightarrow> dn_uuid env k \<notin> set (jq_order q)" "inj (dn_uuid env)"
    using assms(1) by (auto simp: sound_queue_def fresh_ids_def)
  then have d: "dn_uuid env k \<noteq> ?u" if "Suc c \<le> k" for k using that by (metis Suc_n_not_le_n injD)
  have cons: "jq_consistent q" "jq_live q" using assms(1) by (simp_all add: sound_queue_def)
  obtain r where e: "enqueueInternal ?u now name payload 1 q = (r, q')"
    using assms(2) by (cases "enqueueInternal ?u now name payload 1 q") (simp add: enqueue_def)
  have keeps: "jq_consistent q' \<and> jq_live q'" by (rule enqueueInternal_keeps[OF e u(1) cons])
  have nohist: "jq_history q ?u = None" using consistent_basic(2)[OF cons(1)] u(1) by (auto simp: dom_def)
  from e have "sound_queue env (Suc c) q' \<and> jq_active q' = jq_active q \<and>
      work_left w q' \<le> work_left w q + 3 * (w name payload + 1) \<and> (\<exists>new. jq_order q' = jq_order q @ new) \<and>
      (\<forall>jid. jq_active q = Some jid \<longrightarrow> jq_history q' jid = jq_history q jid)"
  proof (cases rule: enqueueInternal_cases)
    case refused
    with assms(1) u show ?thesis by (auto simp: sound_queue_def fresh_ids_def)
  next
    case queued
    have same: "job_weight w q' j = job_weight w q j" if "j \<noteq> ?u" for j using queued(3) that by (simp add: job_weight_def)
    have "?u \<notin> set (jq_queue q)" using consistent_basic(3)[OF cons(1)] u(1) by auto
    then have "sum_list (map (job_weight w q') (jq_queue q)) = sum_list (map (job_weight w q) (jq_queue q))"
      by (intro arg_cong[where f = sum_list] job_weight_cong same) auto
    moreover have "job_weight w q' ?u = w name payload" using queued(3) by (simp add: job_weight_def)
    moreover have act: "jid \<noteq> ?u" if "jq_active q = Some jid" for jid
      using consistent_active[OF cons(1), of jid] that nohist by auto
    ultimately have "work_left w q' \<le> work_left w q + 3 * (w name payload + 1)"
      using same queued by (auto simp: work_left_def split: option.splits)
    with keeps assms(1) u d queued act show ?thesis by (auto simp: sound_queue_def fresh_ids_def)
  qed
  then show "sound_queue env (Suc c) q'" "jq_active q' = jq_active q"
    "work_left w q' \<le> work_left w q + 3 * (w name payload + 1)" "\<exists>new. jq_order q' = jq_order q @ new"
    "\<And>jid. jq_active q = Some jid \<Longrightarrow> jq_history q' jid = jq_history q jid" by auto
qed

lemma enqueue_all_work:
  assumes "sound_queue env c q" and "enqueue_all env k c js q = (c', q')"
  shows "sound_queue env c' q' \<and> jq_active q' = jq_active q \<and>
    work_left w q' \<le> work_left w q + 3 * sum_list (map (\<lambda>(n, p). w n p + 1) js) \<and> (\<exists>new. jq_order q' = jq_order q @ new) \<and>
    (\<forall>jid. jq_active q = Some jid \<longrightarrow> jq_history q' jid = jq_history q jid)"
  using assms
proof (induction js arbitrary: c q)
  case (Cons j js)
  obtain name payload where j: "j = (name, payload)" by (cases j)
  define q1 where "q1 = snd (enqueue (dn_uuid env c) (dn_now env k) name payload q)"
  note e = enqueue_work[OF Cons.prems(1) q1_def]
  have "enqueue_all env k (Suc c) js q1 = (c', q')" using Cons.prems(2) by (simp add: j q1_def)
  note IH = Cons.IH[OF e(1) this]
  have "work_left w q' \<le> work_left w q + 3 * sum_list (map (\<lambda>(n, p). w n p + 1) (j # js))"
    using IH e(3)[of w] by (simp add: j)
  moreover obtain n1 n2 where "jq_order q1 = jq_order q @ n1" "jq_order q' = jq_order q1 @ n2" using IH e(4) by blast
  ultimately show ?case using IH e(2,5) by auto
qed simp

lemma settle_round:
  assumes "sound_queue env c q" and "jq_active q = Some jid" and "winds_down w env"
    and "drain_round env k c q = res"
  shows "\<exists>c' q'. res = Some (c', q') \<and> sound_queue env c' q' \<and> work_left w q' < work_left w q \<and> (\<exists>new. jq_order q' = jq_order q @ new)"
proof -
  have cons: "jq_consistent q" using assms(1) by (simp add: sound_queue_def)
  obtain r where r: "jq_history q jid = Some r" using consistent_active[OF cons, of jid] assms(2) by auto
  from assms(3) obtain js oc where h: "dn_handler env (jr_name r) (jr_payload r) k = Settles js oc"
    "sum_list (map (\<lambda>(n, p). w n p + 1) js) < w (jr_name r) (jr_payload r)" unfolding winds_down_def by metis
  obtain c' q1 where e: "enqueue_all env k c js q = (c', q1)" by fastforce
  from enqueue_all_work[OF assms(1) e, of w] assms(2)
  have q1: "sound_queue env c' q1" "jq_active q1 = Some jid" "jq_history q1 jid = Some r" "\<exists>new. jq_order q1 = jq_order q @ new"
    "work_left w q1 \<le> work_left w q + 3 * sum_list (map (\<lambda>(n, p). w n p + 1) js)"
    by (auto simp: r)
  let ?q = "process_end (dn_now env k) oc q1"
  have c1: "jq_consistent q1" using q1(1) by (simp add: sound_queue_def)
  obtain r' where pe: "jq_history q1 jid = Some r'" "?q = (let q' = q1\<lparr>jq_history := (jq_history q1)(jid \<mapsto> settle (dn_now env k) oc r'), jq_active := None\<rparr>
       in if jq_running q1 \<and> jq_queue q1 \<noteq> [] then scheduleProcess q' else q')"
    by (rule process_end_eq[OF c1 q1(2)]) blast
  have "jq_history ?q = (jq_history q1)(jid \<mapsto> settle (dn_now env k) oc r)" unfolding pe(2) using pe(1) q1(3) by (simp add: Let_def)
  then have jw: "job_weight w ?q j = job_weight w q1 j" for j using q1(3) by (simp add: job_weight_def)
  have "work_left w ?q \<le> 3 * sum_list (map (job_weight w q1) (jq_queue q1)) + Suc (jq_ticks q1)"
    using process_end_ticks[of "dn_now env k" oc q1] by (auto simp: work_left_def jw[abs_def] split: if_splits)
  moreover have "work_left w q1 = 3 * sum_list (map (job_weight w q1) (jq_queue q1)) + (3 * w (jr_name r) (jr_payload r) - 1) + jq_ticks q1"
    using q1(2,3) by (simp add: work_left_def job_weight_def)
  ultimately have "work_left w ?q < work_left w q" using q1(5) h(2) by linarith
  moreover have "sound_queue env c' ?q"
    using process_end_keeps[OF c1, of "dn_now env k" oc] q1(1,2) by (simp add: sound_queue_def fresh_ids_def)
  moreover have "drain_round env k c q = Some (c', ?q)" using assms(2) r h(1) e by (simp add: drain_round_def)
  ultimately show ?thesis using assms(4) q1(4) by auto
qed

lemma begin_round:
  assumes "sound_queue env c q" and "jq_active q = None" and "\<not> drained q" and "winds_down w env"
  shows "\<exists>q'. drain_round env k c q = Some (c, q') \<and> sound_queue env c q' \<and> work_left w q' < work_left w q \<and> jq_order q' = jq_order q"
proof -
  have inv: "jq_consistent q" "jq_live q" "jq_running q" using assms(1) by (simp_all add: sound_queue_def)
  have t: "0 < jq_ticks q" using assms(2,3) inv(2,3) by (auto simp: drained_def jq_live_def)
  let ?q = "process_begin (dn_now env k) q"
  have "work_left w ?q < work_left w q \<and> jq_order ?q = jq_order q \<and> jq_running ?q"
    using inv(1)
  proof (cases rule: process_begin_cases[where now = "dn_now env k"])
    case idle
    with t inv(3) assms(2) show ?thesis by (simp add: work_left_def job_weight_def[abs_def])
  next
    case (picked jid rest r)
    have "0 < w (jr_name r) (jr_payload r)" using assms(4) unfolding winds_down_def by (metis gr_zeroI not_less_zero)
    moreover have "job_weight w ?q = job_weight w q" using picked(3,5) by (auto simp: job_weight_def fun_eq_iff)
    moreover have "job_weight w q jid = w (jr_name r) (jr_payload r)" using picked(3) by (simp add: job_weight_def)
    ultimately show ?thesis using t picked assms(2) by (simp add: work_left_def)
  qed
  moreover have "jq_consistent ?q \<and> jq_live ?q" by (rule process_begin_keeps[OF inv(1) assms(2)])
  ultimately show ?thesis using t assms(1,2) by (auto simp: drain_round_def sound_queue_def fresh_ids_def)
qed

lemma drain_terminates:
  assumes "sound_queue env c q" and "winds_down w env" and "work_left w q \<le> n"
  shows "\<exists>q' new. drain env n k c q = Some q' \<and> drained q' \<and> jq_consistent q' \<and> jq_order q' = jq_order q @ new"
  using assms(1,3)
proof (induction n arbitrary: k c q)
  case 0
  have "drained q"
  proof (rule ccontr)
    assume nd: "\<not> drained q"
    show False
    proof (cases "jq_active q")
      case None
      from begin_round[OF 0(1) None nd assms(2)] 0(2) show False by auto
    next
      case (Some jid)
      from settle_round[OF 0(1) Some assms(2) refl] 0(2) show False by auto
    qed
  qed
  with 0 show ?case by (simp add: sound_queue_def)
next
  case (Suc n)
  show ?case
  proof (cases "drained q")
    case True
    with Suc.prems(1) show ?thesis by (simp add: sound_queue_def)
  next
    case False
    have "\<exists>c' q'. drain_round env k c q = Some (c', q') \<and> sound_queue env c' q' \<and> work_left w q' < work_left w q \<and> (\<exists>new. jq_order q' = jq_order q @ new)"
    proof (cases "jq_active q")
      case None
      from begin_round[OF Suc.prems(1) None False assms(2), of k] show ?thesis by fastforce
    next
      case (Some jid)
      from settle_round[OF Suc.prems(1) Some assms(2) refl] show ?thesis by blast
    qed
    then obtain c' q1 where q1: "drain_round env k c q = Some (c', q1)" "sound_queue env c' q1" "work_left w q1 < work_left w q"
      "\<exists>new. jq_order q1 = jq_order q @ new" by blast
    with Suc.prems(2) Suc.IH[OF q1(2), of "Suc k"] show ?thesis by (auto simp: False)
  qed
qed

lemma drain_stopped:
  "\<not> jq_running q \<Longrightarrow> jq_active q = None \<Longrightarrow> jq_queue q \<noteq> [] \<Longrightarrow> drain env n k c q = None"
  by (induction n arbitrary: k q) (auto simp: drained_def drain_round_def process_begin_def Let_def)

lemma drain_pending:
  "jq_active q = Some jid \<Longrightarrow> jq_history q jid = Some r \<Longrightarrow> dn_handler env (jr_name r) (jr_payload r) k = StaysPending \<Longrightarrow>
   drain env n k c q = None"
  by (cases n) (simp_all add: drained_def drain_round_def)

text \<open>A handler that enqueues a registered job in every call keeps \<open>drain\<close> from ending.\<close>

definition self_feeding :: "'p drain_env \<Rightarrow> string list \<Rightarrow> bool" where
  "self_feeding env handlers \<longleftrightarrow> (\<forall>name payload k. \<exists>n p js oc. dn_handler env name payload k = Settles ((n, p) # js) oc \<and> n \<in> set handlers)"

definition jobs_registered :: "'p job_queue \<Rightarrow> bool" where
  "jobs_registered q \<longleftrightarrow> (\<forall>j\<in>set (jq_queue q). \<exists>r. jq_history q j = Some r \<and> jr_name r \<in> set (jq_handlers q))"

lemma job_enqueue_frame:
  "jq_handlers (snd (enqueue u now name payload q)) = jq_handlers q"
  "name \<in> set (jq_handlers q) \<or> jq_queue q \<noteq> [] \<Longrightarrow> jq_queue (snd (enqueue u now name payload q)) \<noteq> []"
  "jobs_registered q \<Longrightarrow> jobs_registered (snd (enqueue u now name payload q))"
  by (auto simp: enqueue_def enqueueInternal_def Let_def jobs_registered_def)

lemma enqueue_all_frame:
  "jq_handlers (snd (enqueue_all env k c js q)) = jq_handlers q \<and>
   (jq_queue q \<noteq> [] \<longrightarrow> jq_queue (snd (enqueue_all env k c js q)) \<noteq> []) \<and>
   (jobs_registered q \<longrightarrow> jobs_registered (snd (enqueue_all env k c js q)))"
  by (induction env k c js q rule: enqueue_all.induct) (auto simp: job_enqueue_frame)

lemma process_end_handlers:
  "jq_handlers (process_end now oc q) = jq_handlers q" "jq_queue (process_end now oc q) = jq_queue q"
  "jobs_registered q \<Longrightarrow> jobs_registered (process_end now oc q)"
  by (fastforce simp: process_end_def scheduleProcess_def update_job_def Let_def jobs_registered_def
      split: option.splits job_outcome.splits)+

lemma process_begin_busy:
  assumes "jobs_registered q" and "jq_queue q \<noteq> []"
  shows "jq_handlers (process_begin now q) = jq_handlers q" "jobs_registered (process_begin now q)"
    "jq_queue (process_begin now q) \<noteq> [] \<or> jq_active (process_begin now q) \<noteq> None"
  using assms by (cases "jq_queue q"; fastforce simp: process_begin_def update_job_def Let_def jobs_registered_def)+

lemma self_feeding_settle:
  assumes "self_feeding env (jq_handlers q)" and "jobs_registered q" and "jq_active q = Some jid"
    and "drain_round env k c q = Some (c', q')"
  shows "jq_handlers q' = jq_handlers q \<and> jobs_registered q' \<and> jq_queue q' \<noteq> []"
proof -
  obtain r where r: "jq_history q jid = Some r" using assms(3,4) by (auto simp: drain_round_def split: option.splits)
  from assms(1) obtain n p js oc where h: "dn_handler env (jr_name r) (jr_payload r) k = Settles ((n, p) # js) oc"
    "n \<in> set (jq_handlers q)" unfolding self_feeding_def by blast
  let ?q1 = "snd (enqueue_all env k c ((n, p) # js) q)"
  have "q' = process_end (dn_now env k) oc ?q1"
    using assms(3,4) r h(1) by (auto simp: drain_round_def split_beta Let_def)
  moreover have "jq_handlers ?q1 = jq_handlers q \<and> jobs_registered ?q1 \<and> jq_queue ?q1 \<noteq> []"
    using enqueue_all_frame[of env k "Suc c" js "snd (enqueue (dn_uuid env c) (dn_now env k) n p q)"] h(2) assms(2)
    by (simp add: job_enqueue_frame)
  ultimately show ?thesis by (simp add: process_end_handlers)
qed

lemma drain_self_feeding:
  assumes "self_feeding env (jq_handlers q)" and "jobs_registered q" and "jq_queue q \<noteq> [] \<or> jq_active q \<noteq> None"
  shows "drain env n k c q = None"
  using assms
proof (induction n arbitrary: k c q)
  case 0
  then show ?case by (auto simp: drained_def)
next
  case (Suc n)
  have nd: "\<not> drained q" using Suc.prems(3) by (auto simp: drained_def)
  have "jq_handlers q' = jq_handlers q \<and> jobs_registered q' \<and> (jq_queue q' \<noteq> [] \<or> jq_active q' \<noteq> None)"
    if rnd: "drain_round env k c q = Some (c', q')" for c' q'
  proof (cases "jq_active q")
    case None
    with rnd Suc.prems show ?thesis
      using process_begin_busy[OF Suc.prems(2), of "dn_now env k"] by (auto simp: drain_round_def split: if_splits)
  next
    case (Some jid)
    from self_feeding_settle[OF Suc.prems(1,2) Some rnd] show ?thesis by simp
  qed
  then have "drain env n (Suc k) c' q' = None" if "drain_round env k c q = Some (c', q')" for c' q'
    using Suc.IH[of q' "Suc k" c'] Suc.prems(1) that by simp
  with nd show ?case by (auto split: option.splits)
qed

lemma consistent_registered: "jq_consistent q \<Longrightarrow> jobs_registered q"
  unfolding jobs_registered_def
proof
  fix j assume c: "jq_consistent q" and j: "j \<in> set (jq_queue q)"
  have "j \<in> dom (jq_history q)" using j consistent_basic(2,3)[OF c] by auto
  then show "\<exists>r. jq_history q j = Some r \<and> jr_name r \<in> set (jq_handlers q)" using consistent_record[OF c] by blast
qed

text \<open>C23: Draining a running queue ends if the handlers settle and wind down: the jobs a handler enqueues while it runs
  weigh together less than its own job, for some weight of jobs (none, for handlers that enqueue nothing).  It takes at
  most as many rounds as work is left, also when a job is being processed at the call; afterwards every job, those
  enqueued on the way included, has completed or failed, and none was dropped.  Draining a stopped queue with waiting
  jobs, one whose current handler never settles, or one whose handlers enqueue a registered job each time they run, does
  not end for any number of rounds.\<close>

theorem drain_total:
  assumes "jq_reachable q"
  shows "(jq_running q \<and> fresh_ids env c q \<and> winds_down w env \<longrightarrow>
      (\<exists>q' new. drain env (work_left w q) k c q = Some q' \<and> jq_queue q' = [] \<and> jq_active q' = None \<and>
        jq_order q' = jq_order q @ new \<and>
        (\<forall>jid\<in>set (jq_order q'). jobResult jid q' \<noteq> None \<and> jobResult jid q' \<noteq> Some RPending))) \<and>
    (\<not> jq_running q \<and> jq_active q = None \<and> jq_queue q \<noteq> [] \<longrightarrow> drain env n k c q = None) \<and>
    (\<forall>jid r. jq_active q = Some jid \<and> jq_history q jid = Some r \<and> dn_handler env (jr_name r) (jr_payload r) k = StaysPending \<longrightarrow>
      drain env n k c q = None) \<and>
    (self_feeding env (jq_handlers q) \<and> (jq_queue q \<noteq> [] \<or> jq_active q \<noteq> None) \<longrightarrow> drain env n k c q = None)"
proof (intro conjI impI allI)
  assume a: "jq_running q \<and> fresh_ids env c q \<and> winds_down w env"
  then have "sound_queue env c q" using jq_reachable_inv[OF assms] by (simp add: sound_queue_def)
  from drain_terminates[OF this _ order_refl, of w k] a obtain q' new where
    d: "drain env (work_left w q) k c q = Some q'" "drained q'" "jq_consistent q'" "jq_order q' = jq_order q @ new" by blast
  have "jobResult jid q' \<noteq> None \<and> jobResult jid q' \<noteq> Some RPending" if j: "jid \<in> set (jq_order q')" for jid
  proof -
    have "jid \<in> dom (jq_history q')" using consistent_basic(2)[OF d(3)] j by simp
    then obtain r where "jq_history q' jid = Some r" by blast
    with drained_all_finished[OF d(3), of jid r] d(2) show ?thesis by (auto simp: jobResult_def finished_def drained_def)
  qed
  with d show "\<exists>q' new. drain env (work_left w q) k c q = Some q' \<and> jq_queue q' = [] \<and> jq_active q' = None \<and>
      jq_order q' = jq_order q @ new \<and> (\<forall>jid\<in>set (jq_order q'). jobResult jid q' \<noteq> None \<and> jobResult jid q' \<noteq> Some RPending)"
    by (auto simp: drained_def)
qed (auto intro: drain_stopped drain_pending drain_self_feeding consistent_registered[OF conjunct1[OF jq_reachable_inv[OF assms]]])

section \<open>Retries and listings\<close>

text \<open>\<open>retry\<close> re-runs failed jobs only: an unknown id and an unfinished or completed job are refused
  with the state untouched; for a failed job of a reachable queue a new job with the same name and payload
  and the next attempt number is queued, and the record of the failed one stays.\<close>

theorem retry_spec:
  assumes "jq_reachable q" and "uuid \<notin> set (jq_order q)" and "retry uuid now jid q = (res, q')"
  shows "(case getJob jid q of
      None \<Rightarrow> res = Inl (JobNotFound jid) \<and> q' = q
    | Some r \<Rightarrow> if jr_state r = Failed
        then res = Inr uuid \<and> getJob jid q' = Some r \<and> jq_queue q' = jq_queue q @ [uuid] \<and>
          (\<exists>r'. getJob uuid q' = Some r' \<and> jr_name r' = jr_name r \<and> jr_payload r' = jr_payload r \<and>
             jr_attempt r' = jr_attempt r + 1 \<and> jr_state r' = Created)
        else res = Inl (JobNotRetryable jid (jr_state r)) \<and> q' = q)"
proof (cases "jq_history q jid")
  case None
  then show ?thesis using assms(3) by (simp add: retry_def getJob_def)
next
  case (Some r)
  have inv: "jq_consistent q" using jq_reachable_inv[OF assms(1)] by simp
  show ?thesis
  proof (cases "jr_state r = Failed")
    case True
    with Some assms(3) have e: "enqueueInternal uuid now (jr_name r) (jr_payload r) (jr_attempt r + 1) q = (res, q')"
      by (simp add: retry_def)
    have "jid \<noteq> uuid" using Some assms(2) consistent_basic(2)[OF inv] by auto
    from e show ?thesis
      by (cases rule: enqueueInternal_cases) (use Some True \<open>jid \<noteq> uuid\<close> consistent_record[OF inv Some] in \<open>auto simp: getJob_def\<close>)
  next
    case False
    then show ?thesis using Some assms(3) by (simp add: retry_def getJob_def)
  qed
qed

definition wanted :: "job_state option \<Rightarrow> string option \<Rightarrow> 'p job_record \<Rightarrow> bool" where
  "wanted state name r \<longleftrightarrow> (state = None \<or> state = Some (jr_state r)) \<and>
     (\<not> truthy_opt name \<or> name = Some (jr_name r))"

lemma list_loop_spec:
  assumes "\<forall>j\<in>set js. h j \<noteq> None" and "\<forall>l. limit = Some l \<longrightarrow> length out < l \<or> l = 0"
  shows "list_loop h state name limit js out = out @
    (case limit of None \<Rightarrow> filter (wanted state name) (map (the \<circ> h) js)
     | Some l \<Rightarrow> take (max 1 (l - length out)) (filter (wanted state name) (map (the \<circ> h) js)))"
  using assms
proof (induction js arbitrary: out)
  case (Cons j js)
  then obtain r where r: "h j = Some r" by auto
  show ?case
  proof (cases "wanted state name r")
    case False
    then have "list_loop h state name limit (j # js) out = list_loop h state name limit js out"
      using r by (cases state; cases name) (auto simp: wanted_def)
    moreover have "filter (wanted state name) (map (the \<circ> h) (j # js)) = filter (wanted state name) (map (the \<circ> h) js)"
      using False r by simp
    ultimately show ?thesis using Cons.IH[of out] Cons.prems by (simp split: option.splits)
  next
    case True
    then have w: "\<not> (state \<noteq> None \<and> Some (jr_state r) \<noteq> state)" "\<not> (truthy_opt name \<and> Some (jr_name r) \<noteq> name)"
      by (auto simp: wanted_def)
    show ?thesis
    proof (cases limit)
      case None
      with r w True Cons show ?thesis by (simp add: Let_def)
    next
      case (Some l)
      show ?thesis
      proof (cases "l \<le> Suc (length out)")
        case True
        then have "max 1 (l - length out) = 1" by auto
        with r w True \<open>wanted state name r\<close> Some Cons.prems(1) show ?thesis by (auto simp: Let_def)
      next
        case False
        then have "max 1 (l - length out) = Suc (max 1 (l - Suc (length out)))" by auto
        with r w False \<open>wanted state name r\<close> Some Cons.prems Cons.IH[of "out @ [r]"] show ?thesis
          by (auto simp: Let_def)
      qed
    qed
  qed
qed (simp split: option.splits)

text \<open>\<open>listJobs\<close> returns the jobs that match the filters, newest first; with a limit, the first
  \<open>limit\<close> of them (one of them for the limit zero).\<close>

theorem listJobs_spec:
  assumes "jq_reachable q"
  shows "listJobs state name limit q =
    (let matching = filter (wanted state name) (map (the \<circ> jq_history q) (rev (jq_order q)))
     in case limit of None \<Rightarrow> matching | Some l \<Rightarrow> take (max 1 l) matching)"
proof -
  have "\<forall>j\<in>set (rev (jq_order q)). jq_history q j \<noteq> None"
    using consistent_basic(2)[of q] jq_reachable_inv[OF assms] by auto
  from list_loop_spec[OF this, of limit "[]" state name] show ?thesis
    by (cases limit) (auto simp: listJobs_def Let_def)
qed

section \<open>The dashboard roll-up\<close>

lemma emptyCounts_get: "map_get emptyCounts st = Some 0"
  by (cases st) (simp_all add: emptyCounts_def)

lemma count_fold:
  assumes "\<And>st. \<exists>n. map_get counts st = Some n"
  shows "map_get (fold (\<lambda>r counts. case map_get counts (jr_state r) of
         Some n \<Rightarrow> map_set (jr_state r) (n + 1) counts | None \<Rightarrow> counts) records counts) st =
    Some (the (map_get counts st) + length (filter (\<lambda>r. jr_state r = st) records))"
  using assms
proof (induction records arbitrary: counts)
  case Nil
  then obtain n where "map_get counts st = Some n" by blast
  then show ?case by simp
next
  case (Cons r records)
  obtain n where n: "map_get counts (jr_state r) = Some n" using Cons.prems by blast
  have "\<exists>m. map_get (map_set (jr_state r) (n + 1) counts) st = Some m" for st
    using Cons.prems by (auto simp: map_get_set)
  from Cons.IH[OF this] n show ?case by (auto simp: map_get_set)
qed

lemma countByState_get: "map_get (countByState records) st = Some (length (filter (\<lambda>r. jr_state r = st) records))"
  using count_fold[of emptyCounts records st] by (simp add: countByState_def emptyCounts_get)

lemma group_fold:
  "nullish (map_get (fold (\<lambda>r grouped. map_set (jr_name r) (nullish (map_get grouped (jr_name r)) [] @ [r]) grouped)
     records acc) name) [] = nullish (map_get acc name) [] @ filter (\<lambda>r. jr_name r = name) records"
  by (induction records arbitrary: acc) (simp_all add: map_get_set)

lemma group_keys_fold:
  assumes "distinct (map fst acc)"
  shows "distinct (map fst (fold (\<lambda>r grouped. map_set (jr_name r) (nullish (map_get grouped (jr_name r)) [] @ [r]) grouped)
      records acc)) \<and>
    fst ` set (fold (\<lambda>r grouped. map_set (jr_name r) (nullish (map_get grouped (jr_name r)) [] @ [r]) grouped)
      records acc) = fst ` set acc \<union> jr_name ` set records"
  using assms
  by (induction records arbitrary: acc) (simp_all add: distinct_map_set dom_map_set)

lemma group_by_name_spec:
  "distinct (map fst (group_by_name records))"
  "fst ` set (group_by_name records) = jr_name ` set records"
  "(name, rs) \<in> set (group_by_name records) \<Longrightarrow> rs = filter (\<lambda>r. jr_name r = name) records"
proof -
  show d: "distinct (map fst (group_by_name records))"
    "fst ` set (group_by_name records) = jr_name ` set records"
    using group_keys_fold[of "[]" records] by (simp_all add: group_by_name_def)
  assume "(name, rs) \<in> set (group_by_name records)"
  then have "map_get (group_by_name records) name = Some rs" using d(1) by (rule map_of_is_SomeI[rotated])
  with group_fold[of records "[]" name] show "rs = filter (\<lambda>r. jr_name r = name) records"
    by (simp add: group_by_name_def)
qed

text \<open>Summing a count over the groups counts every record once.\<close>

lemma sum_list_bump:
  "distinct ns \<Longrightarrow> x \<in> set ns \<Longrightarrow>
   sum_list (map (\<lambda>n. if n = x then f n + 1 else f n) ns) = sum_list (map f ns) + (1::nat)"
proof (induction ns)
  case (Cons a ns)
  show ?case
  proof (cases "a = x")
    case True
    with Cons.prems have "map (\<lambda>n. if n = x then f n + 1 else f n) ns = map f ns" by (intro map_cong) auto
    then have "sum_list (map (\<lambda>n. if n = x then f n + 1 else f n) ns) = sum_list (map f ns)" by (rule arg_cong)
    with True show ?thesis by simp
  next
    case False
    with Cons show ?thesis by simp
  qed
qed simp

lemma sum_groups:
  assumes "distinct ns" and "jr_name ` set records \<subseteq> set ns"
  shows "sum_list (map (\<lambda>n. length (filter P (filter (\<lambda>r. jr_name r = n) records))) ns) = length (filter P records)"
  using assms(2)
proof (induction records)
  case (Cons r records)
  show ?case
  proof (cases "P r")
    case True
    have "(\<lambda>n. length (filter P (filter (\<lambda>r. jr_name r = n) (r # records)))) =
      (\<lambda>n. if n = jr_name r then length (filter P (filter (\<lambda>r. jr_name r = n) records)) + 1
        else length (filter P (filter (\<lambda>r. jr_name r = n) records)))"
      using True by auto
    with sum_list_bump[OF assms(1), of "jr_name r" "\<lambda>n. length (filter P (filter (\<lambda>r. jr_name r = n) records))"] Cons True show ?thesis
      by simp
  next
    case False
    then have "length (filter P (filter (\<lambda>r. jr_name r = n) (r # records))) =
        length (filter P (filter (\<lambda>r. jr_name r = n) records))" for n by simp
    with False Cons show ?thesis by simp
  qed
qed simp

lemma sum_list_sort_by: "sum_list (map f (sort_by le xs)) = sum_list (map f xs)" for f :: "'a \<Rightarrow> nat"
proof -
  have "sum_list (map f (insert_by le x ys)) = f x + sum_list (map f ys)" for x ys by (induction ys) auto
  then show ?thesis by (induction xs) simp_all
qed

lemma aggregate_sum:
  assumes "\<And>name rs. g \<lparr>qa_name = name, qa_total = length rs, qa_counts = countByState rs,
      qa_p95LatencyMs = computeP95Latency rs, qa_failureRate = computeFailureRate rs\<rparr> = length (filter P rs)"
  shows "sum_list (map g (aggregateJobsByQueue le records)) = length (filter P records)"
proof -
  let ?G = "group_by_name records"
  have "sum_list (map g (aggregateJobsByQueue le records)) = sum_list (map (\<lambda>(name, rs). length (filter P rs)) ?G)"
    using assms by (simp add: aggregateJobsByQueue_def sum_list_sort_by case_prod_unfold comp_def)
  also have "map (\<lambda>(name, rs). length (filter P rs)) ?G =
      map (\<lambda>n. length (filter P (filter (\<lambda>r. jr_name r = n) records))) (map fst ?G)"
    by (auto simp del: filter_filter dest!: group_by_name_spec(3))
  also have "sum_list (map (\<lambda>n. length (filter P (filter (\<lambda>r. jr_name r = n) records))) (map fst ?G)) = length (filter P records)"
    by (rule sum_groups) (use group_by_name_spec(1,2)[of records] in auto)
  finally show ?thesis .
qed

lemma sum_all_states:
  "length (filter (\<lambda>r. jr_state r = Created) rs) + length (filter (\<lambda>r. jr_state r = Active) rs) +
   length (filter (\<lambda>r. jr_state r = Completed) rs) + length (filter (\<lambda>r. jr_state r = Failed) rs) +
   length (filter (\<lambda>r. jr_state r = Cancelled) rs) + length (filter (\<lambda>r. jr_state r = Retry) rs) = length rs"
proof (induction rs)
  case (Cons r rs)
  then show ?case by (cases "jr_state r") simp_all
qed simp

text \<open>The dashboard numbers add up: the queues of the snapshot are exactly the names that occur, each
  once; their totals sum to the number of jobs, for every state their counts sum to the overall count of
  that state, the overall counts sum to the number of jobs, and every failure rate lies between 0 and 1.\<close>

theorem aggregates_add_up:
  "let a = buildJobAggregates le records; cnt = (\<lambda>c st. the (map_get c st))
   in distinct (map qa_name (ja_queues a)) \<and> qa_name ` set (ja_queues a) = jr_name ` set records \<and>
      sum_list (map qa_total (ja_queues a)) = ja_totalJobs a \<and>
      (\<forall>st. sum_list (map (\<lambda>q. cnt (qa_counts q) st) (ja_queues a)) = cnt (ja_totals a) st) \<and>
      sum_list (map (cnt (ja_totals a)) [Created, Active, Completed, Failed, Cancelled, Retry]) = ja_totalJobs a \<and>
      0 \<le> ja_failureRate a \<and> ja_failureRate a \<le> 1"
proof -
  let ?A = "aggregateJobsByQueue le records"
  have names: "distinct (map qa_name ?A)" "qa_name ` set ?A = jr_name ` set records"
  proof -
    have f: "map qa_name (map (\<lambda>(name, list). \<lparr>qa_name = name, qa_total = length list, qa_counts = countByState list,
        qa_p95LatencyMs = computeP95Latency list, qa_failureRate = computeFailureRate list\<rparr>) (group_by_name records)) =
      map fst (group_by_name records)" by auto
    then show "distinct (map qa_name ?A)"
      using group_by_name_spec(1)[of records] by (simp only: aggregateJobsByQueue_def distinct_map_sort_by)
    from f show "qa_name ` set ?A = jr_name ` set records"
      using group_by_name_spec(2)[of records]
      by (simp only: aggregateJobsByQueue_def set_sort_by flip: set_map)
  qed
  have total: "sum_list (map qa_total ?A) = length records"
    using aggregate_sum[of qa_total "\<lambda>_. True" le records] by simp
  have states: "sum_list (map (\<lambda>q. the (map_get (qa_counts q) st)) ?A) = the (map_get (countByState records) st)" for st
    using aggregate_sum[of "\<lambda>q. the (map_get (qa_counts q) st)" "\<lambda>r. jr_state r = st" le records]
    by (simp add: countByState_get)
  have rate: "0 \<le> computeFailureRate records \<and> computeFailureRate records \<le> 1"
    by (simp add: computeFailureRate_def Let_def divide_le_eq_1 flip: of_nat_add)
  show ?thesis
    using names total states rate sum_all_states[of records]
    by (simp add: buildJobAggregates_def Let_def countByState_get)
qed

section \<open>The latency percentile\<close>

lemma sorted_int_sort: "sorted (sort_by (\<lambda>a b. a \<le> b) xs)" for xs :: "int list"
  by (rule sorted_sort_by) auto

lemma length_filter_sort_by: "length (filter P (sort_by le xs)) = length (filter P xs)"
proof -
  have "length (filter P (insert_by le x ys)) = (if P x then 1 else 0) + length (filter P ys)" for x ys
    by (induction ys) auto
  then show ?thesis by (induction xs) simp_all
qed

lemma sorted_count_le:
  assumes "sorted xs" and "i < length xs"
  shows "Suc i \<le> length (filter (\<lambda>d. d \<le> xs ! i) xs)" and "length (filter (\<lambda>d. d < xs ! i) xs) \<le> i"
proof -
  have "filter (\<lambda>d. d \<le> xs ! i) (take (Suc i) xs) = take (Suc i) xs"
    using assms by (auto simp: filter_id_conv in_set_conv_nth sorted_nth_mono)
  then have "length (filter (\<lambda>d. d \<le> xs ! i) (take (Suc i) xs @ drop (Suc i) xs)) \<ge> Suc i"
    using assms(2) by (simp only: filter_append length_append) simp
  then show "Suc i \<le> length (filter (\<lambda>d. d \<le> xs ! i) xs)" by simp
  have "filter (\<lambda>d. d < xs ! i) (drop i xs) = []"
    using assms by (auto simp: filter_empty_conv in_set_conv_nth not_less intro!: sorted_nth_mono)
  then have "length (filter (\<lambda>d. d < xs ! i) (take i xs @ drop i xs)) \<le> i"
    using length_filter_le[of "\<lambda>d. d < xs ! i" "take i xs"] by (simp only: filter_append length_append) simp
  then show "length (filter (\<lambda>d. d < xs ! i) xs) \<le> i" by simp
qed

lemma ceil95_bounds:
  assumes "0 < n"
  shows "1 \<le> ceil95 n \<and> ceil95 n \<le> n \<and> 95 * n \<le> 100 * ceil95 n \<and> 100 * (ceil95 n - 1) < 95 * n"
proof -
  have "n * 95 + 99 = ceil95 n * 100 + (n * 95 + 99) mod 100" "(n * 95 + 99) mod 100 < 100"
    by (simp_all add: ceil95_def)
  with assms show ?thesis by linarith
qed

text \<open>The reported 95th percentile is a latency that occurred, at least 95 percent of the recorded
  latencies are at most that value, and fewer than 95 percent are below it; it is absent exactly when no
  completed job has a recorded latency.\<close>

theorem p95_is_percentile:
  "case computeP95Latency records of
     None \<Rightarrow> completionDurations records = []
   | Some v \<Rightarrow> v \<in> set (completionDurations records) \<and>
       95 * length (completionDurations records) \<le> 100 * length (filter (\<lambda>d. d \<le> v) (completionDurations records)) \<and>
       100 * length (filter (\<lambda>d. d < v) (completionDurations records)) < 95 * length (completionDurations records)"
proof (cases "completionDurations records = []")
  case True
  then show ?thesis by (simp add: computeP95Latency_def)
next
  case False
  define ds where "ds = completionDurations records"
  define xs where "xs = sort_by (\<lambda>a b. a \<le> b) ds"
  define i where "i = min (length xs - 1) (max 0 (ceil95 (length xs) - 1))"
  have len: "length xs = length ds" "0 < length xs" using False by (simp_all add: xs_def ds_def)
  then have i: "i < length xs" "95 * length xs \<le> 100 * Suc i" "100 * i < 95 * length xs"
    using ceil95_bounds[of "length xs"] by (auto simp: i_def)
  have v: "computeP95Latency records = Some (xs ! i)"
    using False by (simp add: computeP95Latency_def Let_def i_def xs_def ds_def)
  have "xs ! i \<in> set ds" using i(1) by (metis nth_mem set_sort_by xs_def)
  moreover have "Suc i \<le> length (filter (\<lambda>d. d \<le> xs ! i) ds)" "length (filter (\<lambda>d. d < xs ! i) ds) \<le> i"
    using sorted_count_le[OF _ i(1)] sorted_int_sort[of ds] by (simp_all add: xs_def length_filter_sort_by)
  ultimately show ?thesis using i len v by (simp add: ds_def)
qed

section \<open>The properties at concrete queues\<close>

definition sample_waiting :: "nat job_queue" where
  "sample_waiting = snd (enqueue ''b'' 2 ''j'' 7 (snd (enqueue ''a'' 1 ''j'' 5 (register ''j'' new_job_queue))))"

definition sample_started :: "nat job_queue" where
  "sample_started = jq_start sample_waiting"

definition sample_failed :: "nat job_queue" where
  "sample_failed = process_end 4 (Rejected ''boom'') (process_begin 3 sample_started)"

lemma sample_waiting_reachable: "jq_reachable sample_waiting"
  unfolding sample_waiting_def
  by (intro jq_reachable.step[OF _ jq_step.enqueue] jq_reachable.step[OF _ jq_step.register] jq_reachable.init)
    (simp_all add: register_def new_job_queue_def enqueue_def enqueueInternal_def)

lemma sample_started_reachable: "jq_reachable sample_started"
  unfolding sample_started_def by (rule jq_reachable.step[OF sample_waiting_reachable jq_step.start])

lemmas sample_queue_defs = sample_failed_def sample_started_def sample_waiting_def register_def new_job_queue_def
  enqueue_def enqueueInternal_def jq_start_def process_begin_def process_end_def update_job_def Let_def getJob_def

lemma sample_failed_reachable: "jq_reachable sample_failed"
  unfolding sample_failed_def
  by (intro jq_reachable.step[OF _ jq_step.finish] jq_reachable.step[OF _ jq_step.tick] sample_started_reachable)
    (simp_all add: sample_queue_defs scheduleProcess_def)

theorem job_queue_fifo_and_live_witness:
  "filter (\<lambda>jid. state_of sample_started jid = Some Created) (jq_order sample_started) = [''a'', ''b''] \<and>
    0 < jq_ticks sample_started"
proof -
  have q: "jq_queue sample_started = [''a'', ''b'']" "jq_running sample_started" "jq_active sample_started = None"
    by (simp_all add: sample_queue_defs)
  from job_queue_fifo_and_live[OF sample_started_reachable] show ?thesis using q by auto
qed

theorem finished_jobs_frozen_witness:
  "getJob ''a'' (jq_stop sample_failed) = getJob ''a'' sample_failed"
proof -
  obtain r where r: "getJob ''a'' sample_failed = Some r" "jr_state r = Failed"
    by (simp add: sample_queue_defs scheduleProcess_def)
  have "jq_step\<^sup>*\<^sup>* sample_failed (jq_stop sample_failed)" by (rule r_into_rtranclp[of jq_step, OF jq_step.stop])
  from finished_jobs_frozen[OF sample_failed_reachable this r(1)] r show ?thesis by simp
qed

definition sample_drain :: "nat drain_env" where
  "sample_drain = \<lparr>dn_now = int, dn_uuid = (\<lambda>k. replicate (k + 2) CHR ''u''),
     dn_handler = (\<lambda>name payload k. Settles (if payload = 5 then [(''j'', 3)] else []) Resolved)\<rparr>"

theorem drain_total_witness:
  "(\<exists>q' new. drain sample_drain 13 0 0 sample_started = Some q' \<and> jq_order q' = [''a'', ''b''] @ new) \<and>
   drain sample_drain 100 0 0 sample_waiting = None"
proof
  let ?w = "\<lambda>(name :: string) (p :: nat). if p = 5 then 3 else 1 :: nat"
  have "inj (dn_uuid sample_drain)" by (auto simp: sample_drain_def inj_def dest: arg_cong[where f = length])
  moreover have o: "jq_order sample_started = [''a'', ''b'']" by (simp add: sample_queue_defs scheduleProcess_def)
  moreover have "dn_uuid sample_drain k \<notin> set [''a'', ''b'']" for k by (simp add: sample_drain_def)
  ultimately have f: "fresh_ids sample_drain 0 sample_started" by (simp add: fresh_ids_def)
  have a: "jq_running sample_started" "winds_down ?w sample_drain"
      "work_left ?w sample_started = 13"
    by (simp_all add: sample_queue_defs scheduleProcess_def winds_down_def work_left_def job_weight_def sample_drain_def)
  from drain_total[OF sample_started_reachable, where env = sample_drain and k = 0 and c = 0 and w = ?w]
  show "\<exists>q' new. drain sample_drain 13 0 0 sample_started = Some q' \<and> jq_order q' = [''a'', ''b''] @ new"
    using a f o by metis
  have "jq_active sample_waiting = None" "\<not> jq_running sample_waiting" "jq_queue sample_waiting \<noteq> []"
    by (simp_all add: sample_queue_defs)
  with drain_total[OF sample_waiting_reachable, where env = sample_drain and k = 0 and c = 0 and n = 100]
  show "drain sample_drain 100 0 0 sample_waiting = None" by blast
qed

end
