(* ===== verification/Webhooks.thy ===== *)
theory Webhooks
  imports Js_Prelude
begin

text \<open>
  Webhook delivery, \<open>src/core/webhooks\<close>: retry policy, event matching and fan-out, HMAC headers, the URL
  filter, the dispatcher, the inspector's ring buffer, sparkline and filter, the event registry and the
  CSRF token of the re-deliver action.

  The HMAC digest (with its base64 form), base64 decoding, base64url coding, the WHATWG URL parser,
  \<open>Date.parse\<close> and the HTTP response are arguments.
\<close>

section \<open>Retry policy\<close>

record retry_config =
  rc_initialDelayMs :: int
  rc_factor :: int
  rc_maxDelayMs :: int
  rc_autoDisableAfter :: int

definition WEBHOOK_RETRY_DEFAULTS :: retry_config where
  "WEBHOOK_RETRY_DEFAULTS = \<lparr>rc_initialDelayMs = 60000, rc_factor = 5, rc_maxDelayMs = 2 * 60 * 60 * 1000,
     rc_autoDisableAfter = 5\<rparr>"

definition computeRetryDelayMs :: "int \<Rightarrow> retry_config \<Rightarrow> int option" where
  "computeRetryDelayMs attempt config =
     (if attempt < 1 then None
      else Some (min (rc_initialDelayMs config * rc_factor config ^ nat (attempt - 1)) (rc_maxDelayMs config)))"

definition shouldAutoDisable :: "int \<Rightarrow> retry_config \<Rightarrow> bool" where
  "shouldAutoDisable consecutiveFailures config = (consecutiveFailures \<ge> rc_autoDisableAfter config)"

section \<open>Fan-out\<close>

record master_event =
  me_id :: string
  me_tenantId :: string
  me_type :: string

record subscriber =
  sb_id :: string
  sb_tenantId :: string
  sb_url :: string
  sb_secret :: string
  sb_events :: "string list"

record sub_job =
  sj_jobKey :: string
  sj_subscriberId :: string
  sj_url :: string
  sj_secret :: string
  sj_event :: master_event

fun matchesEvent :: "string list \<Rightarrow> string \<Rightarrow> bool" where
  "matchesEvent [] type = False"
| "matchesEvent (pattern # ps) type =
     (if pattern = ''*'' then True
      else if pattern = type then True
      else if endsWith pattern ''.*'' \<and>
              (let prefix = take (length pattern - 2) pattern
               in type = prefix \<or> startsWith type (prefix @ ''.''))
           then True
      else matchesEvent ps type)"

fun fanoutMasterEvent :: "master_event \<Rightarrow> subscriber list \<Rightarrow> sub_job list" where
  "fanoutMasterEvent event [] = []"
| "fanoutMasterEvent event (sub # subs) =
     (if sb_tenantId sub \<noteq> me_tenantId event then fanoutMasterEvent event subs
      else if \<not> matchesEvent (sb_events sub) (me_type event) then fanoutMasterEvent event subs
      else \<lparr>sj_jobKey = me_id event @ ''::'' @ sb_id sub, sj_subscriberId = sb_id sub, sj_url = sb_url sub,
            sj_secret = sb_secret sub, sj_event = event\<rparr> # fanoutMasterEvent event subs)"

section \<open>HMAC signature header\<close>

text \<open>\<open>hmac secret message\<close> is the base64 digest, \<open>from64\<close> is \<open>Buffer.from(_, "base64")\<close>.\<close>

definition signWebhookBody :: "(string \<Rightarrow> string \<Rightarrow> string) \<Rightarrow> string \<Rightarrow> string \<Rightarrow> string \<Rightarrow> string" where
  "signWebhookBody hmac secret timestamp body = hmac secret (timestamp @ ''.'' @ body)"

definition buildHmacSignatureHeader ::
  "(string \<Rightarrow> string \<Rightarrow> string) \<Rightarrow> string \<Rightarrow> string \<Rightarrow> string \<Rightarrow> string" where
  "buildHmacSignatureHeader hmac secret timestamp body =
     ''t='' @ timestamp @ '',v1='' @ signWebhookBody hmac secret timestamp body"

definition is_b64 :: "char \<Rightarrow> bool" where
  "is_b64 c = (let n = of_char c :: nat in
     (65 \<le> n \<and> n \<le> 90) \<or> (97 \<le> n \<and> n \<le> 122) \<or> (48 \<le> n \<and> n \<le> 57) \<or> n = 43 \<or> n = 47)"

text \<open>\<open>/t=(\\d+)/.exec\<close>: the digits after the first \<open>t=\<close> that is followed by a digit.\<close>

fun timestamp_match :: "string \<Rightarrow> string option" where
  "timestamp_match [] = None"
| "timestamp_match (c # cs) =
     (if startsWith (c # cs) ''t='' \<and> takeWhile is_digit (drop 2 (c # cs)) \<noteq> []
      then Some (takeWhile is_digit (drop 2 (c # cs)))
      else timestamp_match cs)"

text \<open>One match of \<open>/v1=([A-Za-z0-9+\/]+=*)/\<close> at the head of the text.\<close>

definition v1_at :: "string \<Rightarrow> string option" where
  "v1_at s =
     (if startsWith s ''v1='' \<and> takeWhile is_b64 (drop 3 s) \<noteq> []
      then let b = takeWhile is_b64 (drop 3 s);
               e = takeWhile (\<lambda>c. c = CHR ''='') (drop (3 + length b) s)
           in Some (b @ e)
      else None)"

function v1_tokens :: "string \<Rightarrow> string list" where
  "v1_tokens s =
     (case s of [] \<Rightarrow> []
      | c # cs \<Rightarrow>
          (case v1_at s of
             Some tok \<Rightarrow> tok # v1_tokens (drop (3 + length tok) s)
           | None \<Rightarrow> v1_tokens cs))"
  by pat_completeness auto

termination v1_tokens
  by (relation "measure length") auto

declare v1_tokens.simps [simp del]

definition verifyHmacSignatureHeader ::
  "(string \<Rightarrow> string \<Rightarrow> string) \<Rightarrow> (string \<Rightarrow> 'b list) \<Rightarrow> string \<Rightarrow> string \<Rightarrow> string \<Rightarrow> int \<Rightarrow> int \<Rightarrow> bool" where
  "verifyHmacSignatureHeader hmac from64 secret body header now toleranceSeconds =
     (case timestamp_match header of
        None \<Rightarrow> False
      | Some digits \<Rightarrow>
          let ts = int (read_nat digits)
          in if abs (ts - now) > toleranceSeconds then False
             else
               let v1Tokens = v1_tokens header
               in if v1Tokens = [] then False
                  else
                    let expectedBuf = from64 (signWebhookBody hmac secret (show_int ts) body)
                    in list_ex (\<lambda>sig. let sigBuf = from64 sig
                         in length expectedBuf = length sigBuf \<and> expectedBuf = sigBuf) v1Tokens)"

section \<open>URL validation\<close>

datatype webhook_error =
    InvalidWebhookUrl
  | WebhookEndpointNotFound string
  | WebhookEventTypeNotRegistered string "string list"

definition is_hex :: "char \<Rightarrow> bool" where
  "is_hex c = (let n = of_char c :: nat in (48 \<le> n \<and> n \<le> 57) \<or> (97 \<le> n \<and> n \<le> 102) \<or> (65 \<le> n \<and> n \<le> 70))"

text \<open>\<open>/^\[?f<second><third>[0-9a-f]:/i\<close> for a test on the second and third character.\<close>

definition ipv6_prefix :: "(char \<Rightarrow> bool) \<Rightarrow> (char \<Rightarrow> bool) \<Rightarrow> string \<Rightarrow> bool" where
  "ipv6_prefix second third h =
     (let s = (if h \<noteq> [] \<and> hd h = CHR ''['' then tl h else h)
      in length s \<ge> 5 \<and> s ! 0 \<in> {CHR ''f'', CHR ''F''} \<and> second (s ! 1) \<and> third (s ! 2) \<and> is_hex (s ! 3) \<and>
         s ! 4 = CHR '':'')"

definition private_172 :: "string \<Rightarrow> bool" where
  "private_172 h =
     (startsWith h ''172.'' \<and> length h \<ge> 7 \<and> h ! 6 = CHR ''.'' \<and>
       (let a = h ! 4; b = h ! 5
        in (a = CHR ''1'' \<and> b \<in> {CHR ''6'', CHR ''7'', CHR ''8'', CHR ''9''}) \<or>
           (a = CHR ''2'' \<and> is_digit b) \<or> (a = CHR ''3'' \<and> b \<in> {CHR ''0'', CHR ''1''})))"

definition blocked_hostname :: "string \<Rightarrow> bool" where
  "blocked_hostname h \<longleftrightarrow>
     h = ''localhost'' \<or> startsWith h ''127.'' \<or> h = ''::1'' \<or> h = ''[::1]'' \<or> h = ''0.0.0.0'' \<or>
     startsWith h ''10.'' \<or> private_172 h \<or> startsWith h ''192.168.'' \<or> startsWith h ''169.254.'' \<or>
     startsWith h ''metadata.'' \<or> startsWith h ''100.64.'' \<or>
     ipv6_prefix (\<lambda>c. c \<in> {CHR ''c'', CHR ''C''}) is_hex h \<or>
     ipv6_prefix (\<lambda>c. c \<in> {CHR ''d'', CHR ''D''}) is_hex h \<or>
     ipv6_prefix (\<lambda>c. c \<in> {CHR ''e'', CHR ''E''})
       (\<lambda>c. c \<in> {CHR ''8'', CHR ''9'', CHR ''a'', CHR ''b'', CHR ''A'', CHR ''B''}) h"

text \<open>\<open>parse\<close> is \<open>new URL\<close>: protocol and hostname, or \<open>None\<close> where it throws.\<close>

definition validateWebhookUrl :: "(string \<Rightarrow> (string \<times> string) option) \<Rightarrow> string \<Rightarrow> webhook_error + unit" where
  "validateWebhookUrl parse url =
     (case parse url of
        None \<Rightarrow> Inl InvalidWebhookUrl
      | Some (protocol, hostname) \<Rightarrow>
          if protocol \<notin> {''http:'', ''https:''} then Inl InvalidWebhookUrl
          else if blocked_hostname (toLowerCase hostname) then Inl InvalidWebhookUrl
          else Inr ())"

section \<open>The dispatcher\<close>

datatype endpoint_status = ACTIVE | DISABLED

record endpoint =
  ep_id :: string
  ep_tenantId :: string
  ep_url :: string
  ep_secret :: string
  ep_status :: endpoint_status
  ep_consecutiveFailures :: int

datatype delivery_status = DELIVERED | FAILED

record delivery =
  dl_id :: string
  dl_endpointId :: string
  dl_eventId :: string
  dl_status :: delivery_status
  dl_statusCode :: "int option"
  dl_attemptCount :: int

record http_post =
  hp_url :: string
  hp_body :: string
  hp_headers :: "(string \<times> string) list"

record dispatch_input =
  di_endpointId :: string
  di_eventId :: string
  di_eventType :: string
  di_body :: string

text \<open>The two stores and the requests sent so far.\<close>

record webhook_world =
  ww_endpoints :: "endpoint list"
  ww_deliveries :: "delivery list"
  ww_posts :: "http_post list"

record dispatcher_env =
  de_hmac :: "string \<Rightarrow> string \<Rightarrow> string"
  de_parse :: "string \<Rightarrow> (string \<times> string) option"
  de_registered :: "string list"
  de_retry :: retry_config

definition find_endpoint :: "string \<Rightarrow> endpoint list \<Rightarrow> endpoint option" where
  "find_endpoint i es = find_first (\<lambda>e. ep_id e = i) es"

definition setFailureCount :: "string \<Rightarrow> int \<Rightarrow> webhook_world \<Rightarrow> webhook_world" where
  "setFailureCount i n w = w\<lparr>ww_endpoints := update_where (\<lambda>e. ep_id e = i)
     (\<lambda>e. e\<lparr>ep_consecutiveFailures := n\<rparr>) (ww_endpoints w)\<rparr>"

definition disable :: "string \<Rightarrow> webhook_world \<Rightarrow> webhook_world" where
  "disable i w = w\<lparr>ww_endpoints := update_where (\<lambda>e. ep_id e = i) (\<lambda>e. e\<lparr>ep_status := DISABLED\<rparr>) (ww_endpoints w)\<rparr>"

definition record_delivery :: "delivery \<Rightarrow> webhook_world \<Rightarrow> webhook_world" where
  "record_delivery d w = w\<lparr>ww_deliveries := ww_deliveries w @ [d]\<rparr>"

definition deliveryId :: "dispatch_input \<Rightarrow> string" where
  "deliveryId i = di_endpointId i @ ''::'' @ di_eventId i"

text \<open>
  A call of \<open>dispatch\<close> reads the endpoint and sends the request in one go, waits for the response, and then issues its
  store writes one after the other, each with an \<open>await\<close>: between these points other calls run.
\<close>

datatype dispatch_write =
    SetFailureCount string int
  | DisableEndpoint string
  | RecordDelivery delivery

fun apply_write :: "dispatch_write \<Rightarrow> webhook_world \<Rightarrow> webhook_world" where
  "apply_write (SetFailureCount i n) w = setFailureCount i n w"
| "apply_write (DisableEndpoint i) w = disable i w"
| "apply_write (RecordDelivery d) w = record_delivery d w"

text \<open>The writes after a failure count from the snapshot \<open>e\<close> of the endpoint, not from the row as it is then.\<close>

definition failure_writes :: "retry_config \<Rightarrow> dispatch_input \<Rightarrow> endpoint \<Rightarrow> int option \<Rightarrow> dispatch_write list" where
  "failure_writes cfg input e statusCode =
     (let nextFailures = ep_consecutiveFailures e + 1
      in [SetFailureCount (ep_id e) nextFailures] @
         (if shouldAutoDisable nextFailures cfg then [DisableEndpoint (ep_id e)] else []) @
         [RecordDelivery \<lparr>dl_id = deliveryId input, dl_endpointId = ep_id e, dl_eventId = di_eventId input,
            dl_status = FAILED, dl_statusCode = statusCode, dl_attemptCount = 1\<rparr>])"

definition success_writes :: "dispatch_input \<Rightarrow> endpoint \<Rightarrow> int \<Rightarrow> dispatch_write list" where
  "success_writes input e statusCode =
     [SetFailureCount (ep_id e) 0,
      RecordDelivery \<lparr>dl_id = deliveryId input, dl_endpointId = ep_id e, dl_eventId = di_eventId input,
        dl_status = DELIVERED, dl_statusCode = Some statusCode, dl_attemptCount = 1\<rparr>]"

text \<open>The response to the request: \<open>None\<close> where \<open>post\<close> throws, else its status and \<open>ok\<close>.\<close>

definition response_writes :: "retry_config \<Rightarrow> (int \<times> bool) option \<Rightarrow> dispatch_input \<Rightarrow> endpoint \<Rightarrow> dispatch_write list" where
  "response_writes cfg http input e =
     (case http of
        Some (code, True) \<Rightarrow> success_writes input e code
      | Some (code, False) \<Rightarrow> failure_writes cfg input e (Some code)
      | None \<Rightarrow> failure_writes cfg input e None)"

text \<open>A call under way waits for its response, or has these writes left.\<close>

datatype dispatch_call = Awaiting dispatch_input endpoint | Writing "dispatch_write list"

definition dispatch_begin ::
  "dispatcher_env \<Rightarrow> int \<Rightarrow> dispatch_input \<Rightarrow> webhook_world \<Rightarrow> (webhook_error + dispatch_call) \<times> webhook_world" where
  "dispatch_begin env now input w =
     (if de_registered env \<noteq> [] \<and> di_eventType input \<notin> set (de_registered env)
      then (Inl (WebhookEventTypeNotRegistered (di_eventType input) (de_registered env)), w)
      else case find_endpoint (di_endpointId input) (ww_endpoints w) of
             None \<Rightarrow> (Inl (WebhookEndpointNotFound (di_endpointId input)), w)
           | Some e \<Rightarrow>
               if ep_status e = DISABLED then (Inr (Writing []), w)
               else case validateWebhookUrl (de_parse env) (ep_url e) of
                      Inl _ \<Rightarrow> (Inr (Writing (failure_writes (de_retry env) input e None)), w)
                    | Inr _ \<Rightarrow>
                        let ts = show_int now;
                            headers = [(''content-type'', ''application/json''), (''webhook-id'', di_eventId input),
                              (''webhook-timestamp'', ts),
                              (''webhook-signature'', buildHmacSignatureHeader (de_hmac env) (ep_secret e) ts (di_body input))]
                        in (Inr (Awaiting input e), w\<lparr>ww_posts := ww_posts w @ [\<lparr>hp_url = ep_url e, hp_body = di_body input,
                                     hp_headers = headers\<rparr>]\<rparr>))"

text \<open>A call that nothing else disturbs.\<close>

definition dispatch ::
  "dispatcher_env \<Rightarrow> int \<Rightarrow> (int \<times> bool) option \<Rightarrow> dispatch_input \<Rightarrow> webhook_world
     \<Rightarrow> (webhook_error + unit) \<times> webhook_world" where
  "dispatch env now http input w =
     (case dispatch_begin env now input w of
        (Inl err, w1) \<Rightarrow> (Inl err, w1)
      | (Inr (Awaiting input' e), w1) \<Rightarrow> (Inr (), fold apply_write (response_writes (de_retry env) http input' e) w1)
      | (Inr (Writing ws), w1) \<Rightarrow> (Inr (), fold apply_write ws w1))"

text \<open>Any number of calls at once, over the same stores: every event lets one call go one step further.  A store call
  that rejects ends its call; its statement may have taken effect.\<close>

record delivery_system =
  dy_world :: webhook_world
  dy_calls :: "(nat \<times> dispatch_call) list"

datatype delivery_event =
    Begin nat int dispatch_input
  | Response nat "(int \<times> bool) option"
  | StoreWrite nat
  | StoreRejects nat bool

fun delivery_step :: "dispatcher_env \<Rightarrow> delivery_system \<Rightarrow> delivery_event \<Rightarrow> delivery_system" where
  "delivery_step env s (Begin c now input) =
     (if c \<in> fst ` set (dy_calls s) then s
      else case dispatch_begin env now input (dy_world s) of
             (Inl _, w) \<Rightarrow> s\<lparr>dy_world := w\<rparr>
           | (Inr call, w) \<Rightarrow> s\<lparr>dy_world := w, dy_calls := dy_calls s @ [(c, call)]\<rparr>)"
| "delivery_step env s (Response c http) =
     (case map_get (dy_calls s) c of
        Some (Awaiting input e) \<Rightarrow> s\<lparr>dy_calls := map_set c (Writing (response_writes (de_retry env) http input e)) (dy_calls s)\<rparr>
      | _ \<Rightarrow> s)"
| "delivery_step env s (StoreWrite c) =
     (case map_get (dy_calls s) c of
        Some (Writing (wr # ws)) \<Rightarrow> s\<lparr>dy_world := apply_write wr (dy_world s), dy_calls := map_set c (Writing ws) (dy_calls s)\<rparr>
      | _ \<Rightarrow> s)"
| "delivery_step env s (StoreRejects c applied) =
     (case map_get (dy_calls s) c of
        Some (Writing (wr # ws)) \<Rightarrow> s\<lparr>dy_world := (if applied then apply_write wr (dy_world s) else dy_world s),
          dy_calls := map_set c (Writing []) (dy_calls s)\<rparr>
      | _ \<Rightarrow> s)"

fun delivery_run :: "dispatcher_env \<Rightarrow> delivery_system \<Rightarrow> delivery_event list \<Rightarrow> delivery_system" where
  "delivery_run env s [] = s"
| "delivery_run env s (ev # evs) = delivery_run env (delivery_step env s ev) evs"

section \<open>The inspector\<close>

datatype inspector_status = IDelivered | IFailed | IPending

record inspector_record =
  ir_id :: string
  ir_endpointId :: string
  ir_eventType :: "string option"
  ir_istatus :: inspector_status
  ir_statusCode :: "int option"
  ir_attemptCount :: int
  ir_latencyMs :: "int option"
  ir_occurredAt :: string
  ir_errorMessage :: "string option"
  ir_tenantId :: "string option"

record inspector_buffer =
  ib_max :: int
  ib_records :: "inspector_record list"

definition DEFAULT_MAX :: int where "DEFAULT_MAX = 500"

definition new_buffer :: "int option \<Rightarrow> inspector_buffer" where
  "new_buffer maxRecords = \<lparr>ib_max = max 1 (nullish maxRecords DEFAULT_MAX), ib_records = []\<rparr>"

definition buffer_record :: "inspector_record \<Rightarrow> inspector_buffer \<Rightarrow> inspector_buffer" where
  "buffer_record d b =
     (let rs = ib_records b @ [d]
      in b\<lparr>ib_records := (if int (length rs) > ib_max b then drop (length rs - nat (ib_max b)) rs else rs)\<rparr>)"

definition buffer_findById :: "string \<Rightarrow> inspector_buffer \<Rightarrow> inspector_record option" where
  "buffer_findById i b = find_first (\<lambda>r. ir_id r = i) (ib_records b)"

record attempt_input =
  at_status :: inspector_status
  at_statusCode :: "int option"
  at_latencyMs :: "int option"
  at_errorMessage :: "string option"
  at_occurredAt :: string

definition attempted :: "attempt_input \<Rightarrow> inspector_record \<Rightarrow> inspector_record" where
  "attempted a r = r\<lparr>ir_istatus := at_status a, ir_attemptCount := ir_attemptCount r + 1,
     ir_occurredAt := at_occurredAt a,
     ir_statusCode := (if at_statusCode a \<noteq> None then at_statusCode a else ir_statusCode r),
     ir_latencyMs := (if at_latencyMs a \<noteq> None then at_latencyMs a else ir_latencyMs r),
     ir_errorMessage := (if at_errorMessage a \<noteq> None then at_errorMessage a else ir_errorMessage r)\<rparr>"

fun update_first :: "('a \<Rightarrow> bool) \<Rightarrow> ('a \<Rightarrow> 'a) \<Rightarrow> 'a list \<Rightarrow> 'a list" where
  "update_first P f [] = []"
| "update_first P f (x # xs) = (if P x then f x # xs else x # update_first P f xs)"

definition appendAttempt ::
  "string \<Rightarrow> attempt_input \<Rightarrow> inspector_buffer \<Rightarrow> inspector_record option \<times> inspector_buffer" where
  "appendAttempt i a b =
     (case buffer_findById i b of
        None \<Rightarrow> (None, b)
      | Some r \<Rightarrow> (Some (attempted a r),
                   b\<lparr>ib_records := update_first (\<lambda>r. ir_id r = i) (attempted a) (ib_records b)\<rparr>))"

definition recentForTenant :: "string \<Rightarrow> inspector_buffer \<Rightarrow> inspector_record list" where
  "recentForTenant tenantId b =
     filter (\<lambda>r. \<not> truthy_opt (ir_tenantId r) \<or> ir_tenantId r = Some tenantId) (ib_records b)"

text \<open>\<open>date\<close> is \<open>Date.parse\<close>; \<open>None\<close> is \<open>NaN\<close>.\<close>

definition bump_bucket :: "(string \<Rightarrow> int option) \<Rightarrow> int \<Rightarrow> int \<Rightarrow> int \<Rightarrow> inspector_record \<Rightarrow> nat list \<Rightarrow> nat list" where
  "bump_bucket date now bucketCount bucketMs r buckets =
     (let windowStart = now - bucketCount * bucketMs
      in case date (ir_occurredAt r) of
           None \<Rightarrow> buckets
         | Some ts \<Rightarrow>
             if ts < windowStart \<or> ts > now then buckets
             else let idx = bucketCount - 1 - (now - ts) div bucketMs
                  in if 0 \<le> idx \<and> idx < bucketCount then buckets[nat idx := buckets ! nat idx + 1] else buckets)"

definition buildSparkline ::
  "(string \<Rightarrow> int option) \<Rightarrow> inspector_record list \<Rightarrow> int \<Rightarrow> int \<Rightarrow> int \<Rightarrow> nat list" where
  "buildSparkline date deliveries now bucketCount bucketMs =
     fold (bump_bucket date now bucketCount bucketMs) deliveries (replicate (nat bucketCount) 0)"

record delivery_filter =
  df_endpointId :: "string option"
  df_status :: "inspector_status option"
  df_eventType :: "string option"
  df_from :: "string option"
  df_to :: "string option"
  df_search :: "string option"

definition filterDeliveries :: "(string \<Rightarrow> int option) \<Rightarrow> delivery_filter \<Rightarrow> inspector_record list \<Rightarrow> inspector_record list" where
  "filterDeliveries date f deliveries =
     (let fromTs = (if truthy_opt (df_from f) then date (the (df_from f)) else None);
          toTs = (if truthy_opt (df_to f) then date (the (df_to f)) else None);
          search = toLowerCase (trim (nullish (df_search f) []))
      in filter (\<lambda>r.
           \<not> (truthy_opt (df_endpointId f) \<and> Some (ir_endpointId r) \<noteq> df_endpointId f) \<and>
           \<not> (df_status f \<noteq> None \<and> Some (ir_istatus r) \<noteq> df_status f) \<and>
           \<not> (truthy_opt (df_eventType f) \<and> ir_eventType r \<noteq> df_eventType f) \<and>
           (case date (ir_occurredAt r) of None \<Rightarrow> True
            | Some ts \<Rightarrow> (case fromTs of None \<Rightarrow> True | Some a \<Rightarrow> \<not> ts < a) \<and>
                         (case toTs of None \<Rightarrow> True | Some b \<Rightarrow> \<not> ts > b)) \<and>
           \<not> (search \<noteq> [] \<and> \<not> str_includes (toLowerCase (ir_id r)) search)) deliveries)"

datatype test_event_error = UnknownEventType | EndpointDisabled

definition planWebhookTestEvent :: "bool \<Rightarrow> string list \<Rightarrow> string \<Rightarrow> test_event_error option" where
  "planWebhookTestEvent endpointEnabled knownEventTypes eventType =
     (if \<not> endpointEnabled then Some EndpointDisabled
      else if knownEventTypes = [] \<or> eventType \<notin> set knownEventTypes then Some UnknownEventType
      else None)"

section \<open>The event registry\<close>

definition is_lower :: "char \<Rightarrow> bool" where
  "is_lower c = (let n = of_char c :: nat in 97 \<le> n \<and> n \<le> 122)"

definition event_segment :: "string \<Rightarrow> bool" where
  "event_segment s \<longleftrightarrow> s \<noteq> [] \<and> is_lower (hd s) \<and> list_all (\<lambda>c. is_lower c \<or> is_digit c \<or> c = CHR ''_'') (tl s)"

text \<open>The regular expression of the decorator: at least two dot-separated segments.\<close>

definition event_name_ok :: "string \<Rightarrow> bool" where
  "event_name_ok name \<longleftrightarrow> (let segs = split_on CHR ''.'' name in length segs \<ge> 2 \<and> list_all event_segment segs)"

record event_options =
  eo_name :: string
  eo_description :: "string option"
  eo_version :: "int option"

record event_meta =
  em_name :: string
  em_description :: string
  em_version :: int
  em_target :: nat

datatype event_error = NameRequired | NameMalformed | DescriptionEmpty | VersionNotPositive | DuplicateName

definition WebhookEvent ::
  "event_options \<Rightarrow> nat \<Rightarrow> (string \<times> event_meta) list \<Rightarrow> (event_error + event_meta) \<times> (string \<times> event_meta) list" where
  "WebhookEvent opts target registry =
     (if \<not> truthy (eo_name opts) \<or> trim (eo_name opts) = [] then (Inl NameRequired, registry)
      else if \<not> event_name_ok (eo_name opts) then (Inl NameMalformed, registry)
      else if (case eo_description opts of None \<Rightarrow> False | Some d \<Rightarrow> trim d = []) then (Inl DescriptionEmpty, registry)
      else if (case eo_version opts of None \<Rightarrow> False | Some v \<Rightarrow> v < 1) then (Inl VersionNotPositive, registry)
      else
        let meta = \<lparr>em_name = eo_name opts, em_description = nullish (eo_description opts) [],
                    em_version = nullish (eo_version opts) 1, em_target = target\<rparr>
        in case map_get registry (em_name meta) of
             Some existing \<Rightarrow>
               if em_target existing \<noteq> target then (Inl DuplicateName, registry)
               else (Inr meta, map_set (em_name meta) meta registry)
           | None \<Rightarrow> (Inr meta, map_set (em_name meta) meta registry))"

definition getRegisteredWebhookEvents :: "(string \<Rightarrow> string \<Rightarrow> bool) \<Rightarrow> (string \<times> event_meta) list \<Rightarrow> event_meta list" where
  "getRegisteredWebhookEvents le registry = sort_by (\<lambda>a b. le (em_name a) (em_name b)) (map snd registry)"

section \<open>The CSRF token\<close>

text \<open>\<open>sign\<close> is \<open>signPayload\<close>; \<open>enc\<close> and \<open>dec\<close> are the base64url coders.\<close>

definition issueCsrfToken ::
  "(string \<Rightarrow> string \<Rightarrow> string) \<Rightarrow> (string \<Rightarrow> string) \<Rightarrow> string \<Rightarrow> int \<Rightarrow> string \<Rightarrow> string" where
  "issueCsrfToken sign enc secret now nonce =
     (let payload = enc (show_int now @ '':'' @ nonce) in payload @ ''.'' @ sign secret payload)"

text \<open>\<open>Number(s)\<close> of a decimal numeral, which is all the issuer signs; the other forms that \<open>Number\<close> accepts
  are \<open>None\<close>.\<close>

definition parse_number :: "string \<Rightarrow> int option" where
  "parse_number s =
     (if s \<noteq> [] \<and> list_all is_digit s then Some (int (read_nat s))
      else if s \<noteq> [] \<and> hd s = CHR ''-'' \<and> tl s \<noteq> [] \<and> list_all is_digit (tl s) then Some (- int (read_nat (tl s)))
      else None)"

definition verifyCsrfToken ::
  "(string \<Rightarrow> string \<Rightarrow> string) \<Rightarrow> (string \<Rightarrow> string option) \<Rightarrow> string \<Rightarrow> string \<Rightarrow> int \<Rightarrow> int \<Rightarrow> bool" where
  "verifyCsrfToken sign dec token secret now ttlSeconds =
     (let payload = takeWhile (\<lambda>c. c \<noteq> CHR ''.'') token;
          rest = dropWhile (\<lambda>c. c \<noteq> CHR ''.'') token
      in if rest = [] \<or> payload = [] \<or> tl rest = [] then False
         else
           let provided = tl rest; expected = sign secret payload
           in if length expected \<noteq> length provided then False
              else if expected \<noteq> provided then False
              else case dec payload of
                     None \<Rightarrow> False
                   | Some decoded \<Rightarrow>
                       let stamp = takeWhile (\<lambda>c. c \<noteq> CHR '':'') decoded
                       in if stamp = [] \<or> dropWhile (\<lambda>c. c \<noteq> CHR '':'') decoded = [] then False
                          else case parse_number stamp of
                                 None \<Rightarrow> False
                               | Some issuedAt \<Rightarrow>
                                   if now - issuedAt > ttlSeconds then False
                                   else if issuedAt - now > 60 then False
                                   else True)"

end
