(* ===== verification/Webhook_Delivery.thy ===== *)
theory Webhook_Delivery
  imports Webhooks
begin

text \<open>
  What webhook delivery guarantees: signatures verify exactly inside the tolerance window and bind the
  body, events reach exactly the matching subscribers of their tenant, the
  URL filter's reach on IPv4 addresses, and the bounds of the inspector.
\<close>

section \<open>Signatures\<close>

text \<open>What a base64 digest looks like.\<close>

definition b64_shaped :: "string \<Rightarrow> bool" where
  "b64_shaped s \<longleftrightarrow> (\<exists>b e. s = b @ e \<and> b \<noteq> [] \<and> list_all is_b64 b \<and> list_all (\<lambda>c. c = CHR ''='') e)"

lemma takeWhile_all_append: "list_all P b \<Longrightarrow> e = [] \<or> \<not> P (hd e) \<Longrightarrow> takeWhile P (b @ e) = b"
  by (induction b) (auto simp: takeWhile_eq_Nil_iff)

lemma v1_at_digest:
  assumes "b64_shaped s"
  shows "v1_at (''v1='' @ s) = Some s"
proof -
  obtain b e where s: "s = b @ e" "b \<noteq> []" "list_all is_b64 b" "list_all (\<lambda>c. c = CHR ''='') e"
    using assms by (auto simp: b64_shaped_def)
  have "e = [] \<or> \<not> is_b64 (hd e)" using s(4) by (cases e) (auto simp: is_b64_def)
  then have b: "takeWhile is_b64 (b @ e) = b" by (rule takeWhile_all_append[OF s(3)])
  moreover have "takeWhile (\<lambda>c. c = CHR ''='') e = e" using s(4) by (simp add: takeWhile_eq_all_conv list_all_iff)
  ultimately show ?thesis using s(1,2) by (simp add: v1_at_def startsWith_def Let_def numeral_3_eq_3)
qed

lemma v1_tokens_skip: "c \<noteq> CHR ''v'' \<Longrightarrow> v1_tokens (c # cs) = v1_tokens cs"
  by (subst v1_tokens.simps) (simp add: v1_at_def startsWith_def)

lemma v1_tokens_skip_all: "CHR ''v'' \<notin> set xs \<Longrightarrow> v1_tokens (xs @ ys) = v1_tokens ys"
  by (induction xs) (auto simp: v1_tokens_skip)

lemma v1_tokens_digest:
  assumes "b64_shaped s"
  shows "v1_tokens (''v1='' @ s) = [s]"
proof -
  have "v1_tokens (''v1='' @ s) = s # v1_tokens (drop (3 + length s) (''v1='' @ s))"
    using v1_at_digest[OF assms] by (subst v1_tokens.simps) simp
  moreover have "v1_tokens [] = []" by (subst v1_tokens.simps) simp
  ultimately show ?thesis by simp
qed

lemma digits_no:
  assumes "\<not> is_digit c"
  shows "c \<notin> set (show_nat n)"
  using assms show_nat_digits by blast

lemma header_parse:
  assumes "b64_shaped s"
  shows "timestamp_match (''t='' @ show_nat t @ '',v1='' @ s) = Some (show_nat t)"
    and "v1_tokens (''t='' @ show_nat t @ '',v1='' @ s) = [s]"
proof -
  have "list_all is_digit (show_nat t)" using show_nat_digits by (auto simp: list_all_iff)
  then have "takeWhile is_digit (show_nat t @ '',v1='' @ s) = show_nat t"
    by (rule takeWhile_all_append) (simp add: is_digit_def)
  then show "timestamp_match (''t='' @ show_nat t @ '',v1='' @ s) = Some (show_nat t)"
    by (simp add: startsWith_def)
  have "CHR ''v'' \<notin> set (''t='' @ show_nat t @ '','')" using digits_no[of "CHR ''v''" t] by (simp add: is_digit_def)
  from v1_tokens_skip_all[OF this, of "''v1='' @ s"] show "v1_tokens (''t='' @ show_nat t @ '',v1='' @ s) = [s]"
    using v1_tokens_digest[OF assms] by simp
qed

lemma verify_header:
  assumes "\<And>m. b64_shaped (hmac secret m)"
  shows "verifyHmacSignatureHeader hmac from64 secret body' (buildHmacSignatureHeader hmac secret (show_nat t) body) now tol
    \<longleftrightarrow> abs (int t - now) \<le> tol \<and>
        from64 (hmac secret (show_nat t @ ''.'' @ body')) = from64 (hmac secret (show_nat t @ ''.'' @ body))"
proof -
  note h = header_parse[OF assms[of "show_nat t @ ''.'' @ body"], of t]
  show ?thesis
    unfolding verifyHmacSignatureHeader_def buildHmacSignatureHeader_def signWebhookBody_def h(1)
    by (simp only: option.case h(2)) (auto simp: show_int_def Let_def)
qed

text \<open>C5: A webhook signature header verifies for the secret and body it was made for exactly while its time
  stamp is within the tolerance of the receiver's clock.  If it verifies for another body, the two signed texts
  collide under the digest with this secret.  And whatever header is accepted for a body carries a time stamp
  within the tolerance and the digest of that very time stamp and body: nobody gets one accepted without
  presenting it.\<close>

theorem signature_binds_body_and_time:
  assumes "\<forall>m. b64_shaped (hmac secret m)"
  shows "(verifyHmacSignatureHeader hmac from64 secret body
       (buildHmacSignatureHeader hmac secret (show_nat t) body) now tol \<longleftrightarrow> \<bar>int t - now\<bar> \<le> tol) \<and>
    (verifyHmacSignatureHeader hmac from64 secret body'
       (buildHmacSignatureHeader hmac secret (show_nat t) body) now tol \<longrightarrow>
     \<bar>int t - now\<bar> \<le> tol \<and> (body' = body \<or>
       (\<exists>m m'. m \<noteq> m' \<and> m = show_nat t @ ''.'' @ body \<and> m' = show_nat t @ ''.'' @ body' \<and>
         from64 (hmac secret m) = from64 (hmac secret m')))) \<and>
    (verifyHmacSignatureHeader hmac from64 secret body' header now tol \<longrightarrow>
     (\<exists>digits sig. timestamp_match header = Some digits \<and> \<bar>int (read_nat digits) - now\<bar> \<le> tol \<and>
       sig \<in> set (v1_tokens header) \<and> from64 sig = from64 (hmac secret (show_nat (read_nat digits) @ ''.'' @ body'))))"
proof (intro conjI impI)
  note v = verify_header[of hmac secret from64 _ t body now tol, OF assms[rule_format]]
  show "verifyHmacSignatureHeader hmac from64 secret body
       (buildHmacSignatureHeader hmac secret (show_nat t) body) now tol \<longleftrightarrow> \<bar>int t - now\<bar> \<le> tol"
    by (simp add: v)
  assume "verifyHmacSignatureHeader hmac from64 secret body'
       (buildHmacSignatureHeader hmac secret (show_nat t) body) now tol"
  then show "\<bar>int t - now\<bar> \<le> tol" "body' = body \<or>
       (\<exists>m m'. m \<noteq> m' \<and> m = show_nat t @ ''.'' @ body \<and> m' = show_nat t @ ''.'' @ body' \<and>
         from64 (hmac secret m) = from64 (hmac secret m'))"
    by (auto simp: v)
next
  assume "verifyHmacSignatureHeader hmac from64 secret body' header now tol"
  then show "\<exists>digits sig. timestamp_match header = Some digits \<and> \<bar>int (read_nat digits) - now\<bar> \<le> tol \<and>
       sig \<in> set (v1_tokens header) \<and> from64 sig = from64 (hmac secret (show_nat (read_nat digits) @ ''.'' @ body'))"
    by (auto simp: verifyHmacSignatureHeader_def signWebhookBody_def show_int_def Let_def list_ex_iff
        split: option.splits if_splits)
qed

section \<open>Fan-out\<close>

definition pattern_matches :: "string \<Rightarrow> string \<Rightarrow> bool" where
  "pattern_matches p type \<longleftrightarrow> p = ''*'' \<or> p = type \<or>
     (\<exists>prefix. p = prefix @ ''.*'' \<and> (type = prefix \<or> (\<exists>rest. type = prefix @ ''.'' @ rest)))"

lemma group_pattern:
  "endsWith p ''.*'' \<and> (let prefix = take (length p - 2) p in type = prefix \<or> startsWith type (prefix @ ''.'')) \<longleftrightarrow>
    (\<exists>prefix. p = prefix @ ''.*'' \<and> (type = prefix \<or> (\<exists>rest. type = prefix @ ''.'' @ rest)))"
proof (cases "endsWith p ''.*''")
  case True
  then obtain r where "p = r @ ''.*''" by (auto simp: endsWith_iff)
  then show ?thesis by (simp add: endsWith_iff startsWith_iff Let_def)
next
  case False
  then show ?thesis by (auto simp: endsWith_iff)
qed

lemma matchesEvent_iff: "matchesEvent ps type \<longleftrightarrow> (\<exists>p\<in>set ps. pattern_matches p type)"
proof (induction ps)
  case (Cons p ps)
  have "matchesEvent (p # ps) type \<longleftrightarrow> pattern_matches p type \<or> matchesEvent ps type"
    unfolding pattern_matches_def matchesEvent.simps group_pattern by argo
  with Cons show ?case by simp
qed simp

text \<open>C25: An event becomes one job for each subscriber of its own tenant one of whose patterns matches (the
  star, the exact type, or a group prefix), in subscriber order, carrying that subscriber's url and secret;
  no other tenant's subscriber gets a job, and the job keys are distinct when the subscriber ids are.\<close>

theorem fanout_exact:
  "map sj_subscriberId (fanoutMasterEvent event subs) =
     map sb_id (filter (\<lambda>s. sb_tenantId s = me_tenantId event \<and>
       (\<exists>p\<in>set (sb_events s). pattern_matches p (me_type event))) subs) \<and>
   (\<forall>j\<in>set (fanoutMasterEvent event subs). \<exists>s\<in>set subs. sb_tenantId s = me_tenantId event \<and>
      sj_url j = sb_url s \<and> sj_secret j = sb_secret s \<and> sj_subscriberId j = sb_id s) \<and>
   (distinct (map sb_id subs) \<longrightarrow> distinct (map sj_jobKey (fanoutMasterEvent event subs)))"
proof -
  have eq: "fanoutMasterEvent event subs = map (\<lambda>sub. \<lparr>sj_jobKey = me_id event @ ''::'' @ sb_id sub,
      sj_subscriberId = sb_id sub, sj_url = sb_url sub, sj_secret = sb_secret sub, sj_event = event\<rparr>)
    (filter (\<lambda>s. sb_tenantId s = me_tenantId event \<and> (\<exists>p\<in>set (sb_events s). pattern_matches p (me_type event))) subs)"
    by (induction subs) (auto simp: matchesEvent_iff)
  have "distinct (map (\<lambda>s. me_id event @ ''::'' @ sb_id s) (filter P subs))" if "distinct (map sb_id subs)" for P
    using that by (auto simp: distinct_map inj_on_def)
  then show ?thesis unfolding eq by (auto simp: comp_def)
qed

section \<open>The retry curve\<close>

text \<open>The delays never shrink, never exceed the cap, and with the defaults are 1, 5 and 25 minutes and then
  two hours.\<close>

theorem retry_delay_curve:
  assumes "0 \<le> rc_initialDelayMs cfg" and "1 \<le> rc_factor cfg" and "1 \<le> n" and "n \<le> m"
  shows "\<exists>d d'. computeRetryDelayMs n cfg = Some d \<and> computeRetryDelayMs m cfg = Some d' \<and>
    d \<le> d' \<and> d' \<le> rc_maxDelayMs cfg"
proof -
  have "rc_factor cfg ^ nat (n - 1) \<le> rc_factor cfg ^ nat (m - 1)"
    using assms by (intro power_increasing) auto
  then have "rc_initialDelayMs cfg * rc_factor cfg ^ nat (n - 1) \<le> rc_initialDelayMs cfg * rc_factor cfg ^ nat (m - 1)"
    using assms(1) by (rule mult_left_mono)
  then show ?thesis using assms(3,4) by (auto simp: computeRetryDelayMs_def)
qed

lemma retry_defaults:
  "map (\<lambda>n. computeRetryDelayMs n WEBHOOK_RETRY_DEFAULTS) [0, 1, 2, 3, 4, 5] =
   [None, Some 60000, Some 300000, Some 1500000, Some 7200000, Some 7200000]"
  by code_simp

section \<open>The URL filter on IPv4 addresses\<close>

definition dotted :: "nat \<Rightarrow> nat \<Rightarrow> nat \<Rightarrow> nat \<Rightarrow> string" where
  "dotted a b c d = show_nat a @ ''.'' @ show_nat b @ ''.'' @ show_nat c @ ''.'' @ show_nat d"

lemma no_dot: "CHR ''.'' \<notin> set (show_nat n)"
  by (rule digits_no) (simp add: is_digit_def)

lemma startsWith_part:
  assumes "CHR ''.'' \<notin> set p" and "CHR ''.'' \<notin> set x"
  shows "startsWith (x @ CHR ''.'' # y) (p @ CHR ''.'' # q) \<longleftrightarrow> x = p \<and> startsWith y q"
proof -
  have "(\<exists>r. x @ CHR ''.'' # y = p @ CHR ''.'' # q @ r) \<longleftrightarrow> (\<exists>r. x = p \<and> y = q @ r)"
    using append_sep_inj[OF assms(2,1)] by blast
  then show ?thesis by (auto simp: startsWith_iff)
qed

lemma show_nat_eq: "show_nat a = show_nat n \<longleftrightarrow> a = n"
  using show_nat_inj by blast

lemma startsWith_Nil [simp]: "startsWith s []"
  by (simp add: startsWith_def)

lemma dotted_first: "startsWith (dotted a b c d) (show_nat n @ ''.'') \<longleftrightarrow> a = n"
  using startsWith_part[OF no_dot no_dot, of a _ n "[]"] by (simp add: dotted_def show_nat_eq)

lemma dotted_second: "startsWith (dotted a b c d) (show_nat n @ ''.'' @ show_nat m @ ''.'') \<longleftrightarrow> a = n \<and> b = m"
proof -
  have "startsWith (show_nat b @ ''.'' @ y) (show_nat m @ ''.'') \<longleftrightarrow> b = m" for y
    using startsWith_part[OF no_dot no_dot, of b y m "[]"] by (simp add: show_nat_eq)
  then show ?thesis
    using startsWith_part[OF no_dot no_dot, of a "show_nat b @ ''.'' @ show_nat c @ ''.'' @ show_nat d" n "show_nat m @ ''.''"]
    by (simp add: dotted_def show_nat_eq)
qed

lemma dotted_eq: "dotted a b c d = dotted a' b' c' d' \<longleftrightarrow> a = a' \<and> b = b' \<and> c = c' \<and> d = d'"
  by (auto simp: dotted_def append_sep_inj[OF no_dot no_dot] show_nat_eq dest!: show_nat_inj)

lemma hd_dotted: "\<exists>x xs. dotted a b c d = x # xs \<and> is_digit x"
  using show_nat_ne[of a] show_nat_digits[of a] by (cases "show_nat a") (auto simp: dotted_def)

lemma digit_char_eq: "d < 10 \<Longrightarrow> e < 10 \<Longrightarrow> digit_char d = digit_char e \<longleftrightarrow> d = e"
  by (metis digit_val_char)

lemma digit_literals:
  "CHR ''0'' = digit_char 0" "CHR ''1'' = digit_char 1" "CHR ''2'' = digit_char 2" "CHR ''3'' = digit_char 3"
  "CHR ''6'' = digit_char 6" "CHR ''7'' = digit_char 7" "CHR ''8'' = digit_char 8" "CHR ''9'' = digit_char 9"
  by code_simp+

lemma show_nat_lt10: "n < 10 \<Longrightarrow> show_nat n = [digit_char n]"
  by (subst show_nat.simps) simp

lemma show_nat_ge10: "10 \<le> n \<Longrightarrow> show_nat n = show_nat (n div 10) @ [digit_char (n mod 10)]"
  by (subst show_nat.simps) simp

lemma show_nat_length3:
  assumes "100 \<le> n"
  shows "\<exists>x y z zs. show_nat n = x # y # z # zs \<and> is_digit z"
proof -
  have "show_nat n = (show_nat (n div 10 div 10) @ [digit_char (n div 10 mod 10)]) @ [digit_char (n mod 10)]"
    using assms show_nat_ge10[of n] show_nat_ge10[of "n div 10"] by simp
  moreover obtain x xs where "show_nat (n div 10 div 10) = x # xs" by (cases "show_nat (n div 10 div 10)") auto
  ultimately have "show_nat n = x # xs @ [digit_char (n div 10 mod 10), digit_char (n mod 10)]" by simp
  with show_nat_digits[of n] show ?thesis by (cases xs; cases "tl xs") auto
qed

definition second_octet_private :: "char \<Rightarrow> char \<Rightarrow> bool" where
  "second_octet_private a b \<longleftrightarrow> (a = CHR ''1'' \<and> b \<in> {CHR ''6'', CHR ''7'', CHR ''8'', CHR ''9''}) \<or>
     (a = CHR ''2'' \<and> is_digit b) \<or> (a = CHR ''3'' \<and> b \<in> {CHR ''0'', CHR ''1''})"

lemma private_172_split:
  "private_172 (''172.'' @ s) \<longleftrightarrow> length s \<ge> 3 \<and> s ! 2 = CHR ''.'' \<and> second_octet_private (s ! 0) (s ! 1)"
  by (simp add: private_172_def second_octet_private_def startsWith_def Let_def)

lemma second_octet_digits:
  assumes "d < 10" and "e < 10"
  shows "second_octet_private (digit_char d) (digit_char e) \<longleftrightarrow>
    (d = 1 \<and> e \<in> {6, 7, 8, 9}) \<or> d = 2 \<or> (d = 3 \<and> e \<in> {0, 1})"
  using assms unfolding second_octet_private_def digit_literals by (simp add: digit_char_eq)

lemma octet_range:
  "r < 10 \<Longrightarrow> (q = 1 \<and> r \<in> {6, 7, 8, 9}) \<or> q = 2 \<or> (q = 3 \<and> r \<in> {0, 1}) \<longleftrightarrow>
   16 \<le> q * 10 + r \<and> q * 10 + r \<le> (31::nat)"
  by simp presburger

lemma private_172_tail:
  assumes "r \<noteq> []"
  shows "private_172 (''172.'' @ show_nat b @ ''.'' @ r) \<longleftrightarrow> 16 \<le> b \<and> b \<le> 31"
proof -
  consider (one) "b < 10" | (two) "10 \<le> b" "b < 100" | (three) "100 \<le> b" by linarith
  then show ?thesis
  proof cases
    case one
    have "\<not> second_octet_private (digit_char b) CHR ''.''" by (simp add: second_octet_private_def is_digit_def)
    then show ?thesis unfolding private_172_split using one by (simp add: show_nat_lt10)
  next
    case two
    then have s: "show_nat b = [digit_char (b div 10), digit_char (b mod 10)]"
      by (simp add: show_nat_ge10 show_nat_lt10)
    have "private_172 (''172.'' @ show_nat b @ ''.'' @ r) \<longleftrightarrow>
        second_octet_private (digit_char (b div 10)) (digit_char (b mod 10))"
      unfolding private_172_split by (simp add: s)
    also have "\<dots> \<longleftrightarrow> (b div 10 = 1 \<and> b mod 10 \<in> {6, 7, 8, 9}) \<or> b div 10 = 2 \<or> (b div 10 = 3 \<and> b mod 10 \<in> {0, 1})"
      by (rule second_octet_digits) (use two in auto)
    also have "\<dots> \<longleftrightarrow> 16 \<le> b \<and> b \<le> 31" using octet_range[of "b mod 10" "b div 10"] by simp
    finally show ?thesis .
  next
    case three
    then obtain x y z zs where "show_nat b = x # y # z # zs" "is_digit z" using show_nat_length3 by blast
    then show ?thesis unfolding private_172_split using three by (auto simp: is_digit_def)
  qed
qed

lemma dotted_172: "private_172 (dotted a b c d) \<longleftrightarrow> a = 172 \<and> 16 \<le> b \<and> b \<le> 31"
proof (cases "a = 172")
  case True
  have "show_nat 172 = ''172''" by code_simp
  then show ?thesis
    using private_172_tail[of "show_nat c @ ''.'' @ show_nat d" b] True by (simp add: dotted_def)
next
  case False
  have "show_nat 172 @ ''.'' = ''172.''" by code_simp
  with dotted_first[of a b c d 172] False show ?thesis by (simp add: private_172_def)
qed

lemma dotted_not_ipv6: "\<not> ipv6_prefix p q (dotted a b c d)"
  using hd_dotted[of a b c d] by (auto simp: ipv6_prefix_def is_digit_def)

lemma dotted_not_name:
  "dotted a b c d \<noteq> ''localhost''" "dotted a b c d \<noteq> ''::1''" "dotted a b c d \<noteq> ''[::1]''"
  "\<not> startsWith (dotted a b c d) ''metadata.''"
  using hd_dotted[of a b c d] by (auto simp: is_digit_def startsWith_def)

lemma toLowerCase_dotted: "toLowerCase (dotted a b c d) = dotted a b c d"
proof -
  have "toLower_char x = x" if "is_digit x" for x
    using that by (auto simp: toLower_char_def is_digit_def Let_def)
  then have "toLowerCase (show_nat n) = show_nat n" for n
    using show_nat_digits[of n] by (simp add: toLowerCase_def map_idI)
  then show ?thesis by (simp add: dotted_def toLowerCase_def toLower_char_def Let_def)
qed

text \<open>For a target given as a dotted IPv4 address over http or https, the URL filter refuses exactly the
  loopback range 127/8, the private ranges 10/8, 172.16/12 and 192.168/16, the link-local range 169.254/16,
  the address 0.0.0.0, and of the carrier-grade NAT range only 100.64/16.\<close>

theorem url_filter_ipv4:
  assumes "parse url = Some (protocol, dotted a b c d)" and "protocol = ''http:'' \<or> protocol = ''https:''"
  shows "validateWebhookUrl parse url = Inr () \<longleftrightarrow>
    \<not> (a = 127 \<or> a = 10 \<or> (a = 172 \<and> 16 \<le> b \<and> b \<le> 31) \<or> (a = 192 \<and> b = 168) \<or> (a = 169 \<and> b = 254) \<or>
       (a = 0 \<and> b = 0 \<and> c = 0 \<and> d = 0) \<or> (a = 100 \<and> b = 64))"
proof -
  have lit: "''127.'' = show_nat 127 @ ''.''" "''10.'' = show_nat 10 @ ''.''"
    "''192.168.'' = show_nat 192 @ ''.'' @ show_nat 168 @ ''.''"
    "''169.254.'' = show_nat 169 @ ''.'' @ show_nat 254 @ ''.''"
    "''100.64.'' = show_nat 100 @ ''.'' @ show_nat 64 @ ''.''" "''0.0.0.0'' = dotted 0 0 0 0"
    by code_simp+
  have "blocked_hostname (dotted a b c d) \<longleftrightarrow> a = 127 \<or> a = 10 \<or> (a = 172 \<and> 16 \<le> b \<and> b \<le> 31) \<or>
      (a = 192 \<and> b = 168) \<or> (a = 169 \<and> b = 254) \<or> (a = 0 \<and> b = 0 \<and> c = 0 \<and> d = 0) \<or> (a = 100 \<and> b = 64)"
    unfolding blocked_hostname_def lit dotted_first dotted_second dotted_eq dotted_172
    by (simp only: dotted_not_ipv6 dotted_not_name) blast
  with assms show ?thesis by (auto simp: validateWebhookUrl_def toLowerCase_dotted)
qed

section \<open>The inspector\<close>

lemma buffer_record_records:
  "1 \<le> ib_max b \<Longrightarrow> ib_records b = drop (length xs - nat (ib_max b)) xs \<Longrightarrow>
   ib_records (buffer_record d b) = drop (length (xs @ [d]) - nat (ib_max b)) (xs @ [d])"
  by (cases "nat (ib_max b) \<le> length xs") (auto simp: buffer_record_def Let_def Suc_diff_le)

text \<open>The inspector's buffer holds exactly the most recent deliveries, in order, up to its capacity, which
  is at least one.\<close>

theorem inspector_keeps_latest:
  "ib_records (fold buffer_record ds (new_buffer m)) =
     drop (length ds - nat (max 1 (nullish m DEFAULT_MAX))) ds"
proof -
  have inv: "ib_max (fold buffer_record ds b) = ib_max b" for b ds
    by (induction ds arbitrary: b) (simp_all add: buffer_record_def Let_def)
  show ?thesis
  proof (induction ds rule: rev_induct)
    case (snoc d ds)
    then show ?case
      using buffer_record_records[of "fold buffer_record ds (new_buffer m)" ds d] inv[of ds "new_buffer m"]
      by (simp add: new_buffer_def)
  qed (simp add: new_buffer_def)
qed

lemma update_first_length [simp]: "length (update_first P f xs) = length xs"
  by (induction xs) auto

lemma appendAttempt_length: "length (ib_records (snd (appendAttempt i a b))) = length (ib_records b)"
  by (simp add: appendAttempt_def split: option.splits)

definition in_window :: "(string \<Rightarrow> int option) \<Rightarrow> int \<Rightarrow> int \<Rightarrow> inspector_record \<Rightarrow> bool" where
  "in_window date now width r \<longleftrightarrow> (case date (ir_occurredAt r) of None \<Rightarrow> False | Some ts \<Rightarrow> now - width < ts \<and> ts \<le> now)"

lemma sum_list_bump_at: "i < length xs \<Longrightarrow> sum_list (xs[i := xs ! i + 1]) = sum_list xs + (1::nat)"
  by (simp add: sum_list_update)

lemma div_less_int:
  fixes x m c :: int
  assumes "0 < m"
  shows "x div m < c \<longleftrightarrow> x < c * m"
proof -
  have r: "x = x div m * m + x mod m" "0 \<le> x mod m" "x mod m < m" using assms by simp_all
  show ?thesis
  proof
    assume "x div m < c"
    then have "(x div m + 1) * m \<le> c * m" using assms by (intro mult_right_mono) auto
    with r show "x < c * m" by (simp only: distrib_right mult_1)
  next
    assume "x < c * m"
    show "x div m < c"
    proof (rule ccontr)
      assume "\<not> x div m < c"
      then have "c * m \<le> x div m * m" using assms by (intro mult_right_mono) auto
      with r \<open>x < c * m\<close> show False by linarith
    qed
  qed
qed

lemma bump_bucket_sum:
  assumes "0 < bucketMs" and "0 \<le> bucketCount" and "length buckets = nat bucketCount"
  shows "length (bump_bucket date now bucketCount bucketMs r buckets) = nat bucketCount \<and>
    sum_list (bump_bucket date now bucketCount bucketMs r buckets) =
      sum_list buckets + (if in_window date now (bucketCount * bucketMs) r then 1 else 0)"
proof (cases "date (ir_occurredAt r)")
  case None
  then show ?thesis using assms(3) by (simp add: bump_bucket_def in_window_def)
next
  case (Some ts)
  show ?thesis
  proof (cases "ts < now - bucketCount * bucketMs \<or> ts > now")
    case True
    with Some assms(3) show ?thesis by (auto simp: bump_bucket_def in_window_def)
  next
    case False
    define idx where "idx = bucketCount - 1 - (now - ts) div bucketMs"
    have "0 \<le> (now - ts) div bucketMs" using False assms(1) by (intro pos_imp_zdiv_nonneg_iff[THEN iffD2]) auto
    then have lt: "idx < bucketCount" by (simp add: idx_def)
    have ge: "0 \<le> idx \<longleftrightarrow> in_window date now (bucketCount * bucketMs) r"
      using div_less_int[OF assms(1), of "now - ts" bucketCount] False Some by (auto simp: idx_def in_window_def)
    have b: "bump_bucket date now bucketCount bucketMs r buckets =
        (if 0 \<le> idx then buckets[nat idx := buckets ! nat idx + 1] else buckets)"
      using False Some lt by (simp add: bump_bucket_def idx_def Let_def)
    show ?thesis
    proof (cases "0 \<le> idx")
      case True
      then have "nat idx < length buckets" using lt assms(3) by simp
      from sum_list_bump_at[OF this] True ge assms(3) show ?thesis unfolding b by simp
    next
      case False
      with ge assms(3) show ?thesis unfolding b by simp
    qed
  qed
qed

text \<open>The sparkline counts every delivery of its window exactly once and has one entry per bucket.\<close>

theorem sparkline_counts_window:
  assumes "0 < bucketMs" and "0 \<le> bucketCount"
  shows "length (buildSparkline date ds now bucketCount bucketMs) = nat bucketCount \<and>
    sum_list (buildSparkline date ds now bucketCount bucketMs) =
      length (filter (in_window date now (bucketCount * bucketMs)) ds)"
proof -
  have "length (fold (bump_bucket date now bucketCount bucketMs) ds bs) = nat bucketCount \<and>
    sum_list (fold (bump_bucket date now bucketCount bucketMs) ds bs) =
      sum_list bs + length (filter (in_window date now (bucketCount * bucketMs)) ds)"
    if "length bs = nat bucketCount" for bs
    using that
  proof (induction ds arbitrary: bs)
    case (Cons r ds)
    then show ?case using bump_bucket_sum[OF assms Cons.prems, of date now r] by simp
  qed simp
  from this[of "replicate (nat bucketCount) 0"] show ?thesis by (simp add: buildSparkline_def)
qed

section \<open>CSRF tokens\<close>

lemma takeWhile_until: "c \<notin> set xs \<Longrightarrow> takeWhile (\<lambda>x. x \<noteq> c) (xs @ c # ys) = xs"
  by (induction xs) auto

lemma dropWhile_until: "c \<notin> set xs \<Longrightarrow> dropWhile (\<lambda>x. x \<noteq> c) (xs @ c # ys) = c # ys"
  by (induction xs) auto

lemma parse_show_int: "parse_number (show_int n) = Some n"
proof (cases "n < 0")
  case True
  have "list_all is_digit (show_nat (nat (- n)))" using show_nat_digits by (auto simp: list_all_iff)
  with True show ?thesis by (simp add: parse_number_def show_int_def is_digit_def)
next
  case False
  have "list_all is_digit (show_nat (nat n))" using show_nat_digits by (auto simp: list_all_iff)
  with False show ?thesis by (simp add: parse_number_def show_int_def)
qed

lemma show_int_no_colon: "CHR '':'' \<notin> set (show_int n)"
  using digits_no[of "CHR '':''"] by (auto simp: show_int_def is_digit_def)

text \<open>A CSRF token verifies under its secret exactly from a minute before to \<open>ttlSeconds\<close> after the time
  it was issued at, for any base64url coder that decodes what it encodes and never emits a dot.\<close>

theorem csrf_token_window:
  assumes "\<forall>x. dec (enc x) = Some x" and "\<forall>x. CHR ''.'' \<notin> set (enc x)" and "\<forall>x. enc x \<noteq> []"
    and "\<forall>p. sign secret p \<noteq> []"
  shows "verifyCsrfToken sign dec (issueCsrfToken sign enc secret issued nonce) secret now ttl \<longleftrightarrow>
    now - issued \<le> ttl \<and> issued - now \<le> 60"
proof -
  define p where "p = enc (show_int issued @ '':'' @ nonce)"
  have tok: "issueCsrfToken sign enc secret issued nonce = p @ CHR ''.'' # sign secret p"
    by (simp add: issueCsrfToken_def p_def Let_def)
  have parts: "takeWhile (\<lambda>c. c \<noteq> CHR ''.'') (p @ CHR ''.'' # sign secret p) = p"
    "dropWhile (\<lambda>c. c \<noteq> CHR ''.'') (p @ CHR ''.'' # sign secret p) = CHR ''.'' # sign secret p"
    using assms(2) by (simp_all add: takeWhile_until dropWhile_until p_def)
  have dec: "dec p = Some (show_int issued @ CHR '':'' # nonce)" using assms(1) by (simp add: p_def)
  have ne: "p \<noteq> []" "sign secret p \<noteq> []" using assms(3,4) by (simp_all add: p_def)
  show ?thesis
    unfolding tok verifyCsrfToken_def
    by (simp add: parts dec ne takeWhile_until dropWhile_until show_int_no_colon show_int_ne parse_show_int Let_def)
qed

section \<open>The properties at concrete inputs\<close>

text \<open>A stand-in digest with the shape of base64 that determines its input.\<close>

definition bit_char :: "bool \<Rightarrow> char" where
  "bit_char b = (if b then CHR ''B'' else CHR ''A'')"

definition spell :: "char \<Rightarrow> string" where
  "spell c = map bit_char [digit0 c, digit1 c, digit2 c, digit3 c, digit4 c, digit5 c, digit6 c, digit7 c]"

definition sample_hmac :: "string \<Rightarrow> string \<Rightarrow> string" where
  "sample_hmac secret m = ''A'' @ concat (map spell m)"

fun unspell :: "string \<Rightarrow> string option" where
  "unspell [] = Some []"
| "unspell (a # b # c # d # e # f # g # h # s) =
     map_option ((#) (Char (a = CHR ''B'') (b = CHR ''B'') (c = CHR ''B'') (d = CHR ''B'') (e = CHR ''B'') (f = CHR ''B'')
       (g = CHR ''B'') (h = CHR ''B''))) (unspell s)"
| "unspell _ = None"

lemma bit_char_eq: "bit_char b = CHR ''B'' \<longleftrightarrow> b" "bit_char b = bit_char b' \<longleftrightarrow> b = b'"
  by (auto simp: bit_char_def)

lemma unspell_spell: "unspell (concat (map spell m)) = Some m"
proof (induction m)
  case (Cons c m)
  then show ?case by (cases c) (simp add: spell_def bit_char_eq)
qed simp

lemma bit_b64: "is_b64 (bit_char b)"
  by (simp add: bit_char_def is_b64_def)

lemma spelled_b64: "list_all is_b64 (concat (map spell m))"
  by (induction m) (simp_all add: spell_def bit_b64)

lemma sample_hmac_shaped: "b64_shaped (sample_hmac secret m)"
  unfolding b64_shaped_def
  by (rule exI[of _ "sample_hmac secret m"], rule exI[of _ "[]"])
    (simp add: sample_hmac_def spelled_b64, simp add: is_b64_def)

lemma sample_hmac_inj: "sample_hmac secret m = sample_hmac secret m' \<Longrightarrow> m = m'"
  by (metis option.inject same_append_eq sample_hmac_def unspell_spell)

theorem signature_binds_body_and_time_witness:
  "verifyHmacSignatureHeader sample_hmac (\<lambda>s. s) ''k'' ''hi'' (buildHmacSignatureHeader sample_hmac ''k'' (show_nat 1000) ''hi'') 1003 5 \<and>
   \<not> verifyHmacSignatureHeader sample_hmac (\<lambda>s. s) ''k'' ''ho'' (buildHmacSignatureHeader sample_hmac ''k'' (show_nat 1000) ''hi'') 1003 5"
  using signature_binds_body_and_time[of sample_hmac "''k''" "\<lambda>s. s" "''hi''" 1000 1003 5 "''ho''"]
    sample_hmac_shaped by (auto dest: sample_hmac_inj)

theorem fanout_exact_witness:
  "distinct (map sj_jobKey (fanoutMasterEvent \<lparr>me_id = ''e'', me_tenantId = ''t'', me_type = ''user.created''\<rparr>
     [\<lparr>sb_id = ''a'', sb_tenantId = ''t'', sb_url = ''u'', sb_secret = ''s'', sb_events = [''user.*'']\<rparr>,
      \<lparr>sb_id = ''b'', sb_tenantId = ''x'', sb_url = ''u'', sb_secret = ''s'', sb_events = [''*'']\<rparr>]))"
  using fanout_exact[of "\<lparr>me_id = ''e'', me_tenantId = ''t'', me_type = ''user.created''\<rparr>"
     "[\<lparr>sb_id = ''a'', sb_tenantId = ''t'', sb_url = ''u'', sb_secret = ''s'', sb_events = [''user.*'']\<rparr>,
      \<lparr>sb_id = ''b'', sb_tenantId = ''x'', sb_url = ''u'', sb_secret = ''s'', sb_events = [''*'']\<rparr>]"]
  by simp

theorem url_filter_ipv4_witness:
  "validateWebhookUrl (\<lambda>u. Some (''https:'', u)) (dotted 100 65 0 1) = Inr () \<and>
   validateWebhookUrl (\<lambda>u. Some (''https:'', u)) (dotted 172 20 0 1) \<noteq> Inr ()"
  using url_filter_ipv4[of "\<lambda>u. Some (''https:'', u)" "dotted 100 65 0 1" "''https:''" 100 65 0 1]
    url_filter_ipv4[of "\<lambda>u. Some (''https:'', u)" "dotted 172 20 0 1" "''https:''" 172 20 0 1]
  by simp

theorem csrf_token_window_witness:
  "verifyCsrfToken sample_hmac (\<lambda>s. unspell (tl s)) (issueCsrfToken sample_hmac (sample_hmac []) ''k'' 100 ''n'') ''k'' 150 60 \<and>
   \<not> verifyCsrfToken sample_hmac (\<lambda>s. unspell (tl s)) (issueCsrfToken sample_hmac (sample_hmac []) ''k'' 100 ''n'') ''k'' 161 60"
proof -
  have dot: "CHR ''.'' \<notin> set (sample_hmac [] x)" for x
  proof -
    have "\<not> is_b64 CHR ''.''" by (simp add: is_b64_def)
    then show ?thesis using spelled_b64[of x] by (auto simp: sample_hmac_def list_all_iff)
  qed
  have "verifyCsrfToken sample_hmac (\<lambda>s. unspell (tl s)) (issueCsrfToken sample_hmac (sample_hmac []) ''k'' 100 ''n'') ''k'' now 60
      \<longleftrightarrow> now - 100 \<le> 60 \<and> 100 - now \<le> 60" for now
    by (rule csrf_token_window) (use dot in \<open>simp_all add: unspell_spell, simp_all add: sample_hmac_def unspell_spell\<close>)
  then show ?thesis by simp
qed

end
