(* ===== verification/Webhook_Cutoff.thy ===== *)
theory Webhook_Cutoff
  imports Webhooks
begin

text \<open>
  When a failing webhook endpoint is cut off, with the calls of the dispatcher as processes: each call reads the
  endpoint, waits for the response and issues its writes one by one, and any number of calls overlap.  Deliveries to
  one endpoint that follow one another are counted exactly, whatever the calls for other endpoints do in between;
  deliveries to one endpoint that overlap lose increments.
\<close>

section \<open>Calls that concern an endpoint\<close>

fun write_endpoint :: "dispatch_write \<Rightarrow> string" where
  "write_endpoint (SetFailureCount i n) = i"
| "write_endpoint (DisableEndpoint i) = i"
| "write_endpoint (RecordDelivery d) = dl_endpointId d"

fun touches :: "string \<Rightarrow> dispatch_call \<Rightarrow> bool" where
  "touches i (Awaiting input e) = (ep_id e = i)"
| "touches i (Writing ws) = (\<exists>wr\<in>set ws. write_endpoint wr = i)"

lemma touches_writes [simp]:
  "\<not> touches i (Writing [])" "touches i (Writing (wr # ws)) \<longleftrightarrow> write_endpoint wr = i \<or> touches i (Writing ws)"
  by auto

declare touches.simps(2) [simp del]

definition quiet :: "string \<Rightarrow> (nat \<times> dispatch_call) list \<Rightarrow> bool" where
  "quiet i calls \<longleftrightarrow> (\<forall>p\<in>set calls. \<not> touches i (snd p))"

text \<open>Deliveries to \<open>i\<close> are begun one at a time, every response to one is a failure, and their store calls resolve;
  the calls for other endpoints are unrestricted.\<close>

definition failing_event :: "string \<Rightarrow> delivery_system \<Rightarrow> delivery_event \<Rightarrow> bool" where
  "failing_event i s ev \<longleftrightarrow> (case ev of
     Begin c now input \<Rightarrow> di_endpointId input = i \<longrightarrow> quiet i (dy_calls s)
   | Response c http \<Rightarrow> (case map_get (dy_calls s) c of
        Some call \<Rightarrow> touches i call \<longrightarrow> (case http of Some (code, ok) \<Rightarrow> \<not> ok | None \<Rightarrow> True) | None \<Rightarrow> True)
   | StoreWrite c \<Rightarrow> True
   | StoreRejects c applied \<Rightarrow> (case map_get (dy_calls s) c of Some call \<Rightarrow> \<not> touches i call | None \<Rightarrow> True))"

fun failing_one_by_one :: "dispatcher_env \<Rightarrow> string \<Rightarrow> delivery_system \<Rightarrow> delivery_event list \<Rightarrow> bool" where
  "failing_one_by_one env i s [] = True"
| "failing_one_by_one env i s (ev # evs) =
     (failing_event i s ev \<and> failing_one_by_one env i (delivery_step env s ev) evs)"

definition failures_recorded :: "string \<Rightarrow> webhook_world \<Rightarrow> nat" where
  "failures_recorded i w = length (filter (\<lambda>d. dl_endpointId d = i \<and> dl_status d = FAILED) (ww_deliveries w))"

section \<open>Writes\<close>

lemma find_endpoint_id: "find_endpoint i es = Some e \<Longrightarrow> ep_id e = i"
  unfolding find_endpoint_def by (auto dest: find_first_Some)

lemma find_after_update:
  "(\<And>x. ep_id (f x) = ep_id x) \<Longrightarrow> find_endpoint i (update_where (\<lambda>x. ep_id x = j) f es) =
    (if i = j then map_option f (find_endpoint i es) else find_endpoint i es)"
  unfolding find_endpoint_def by (induction es) (auto simp: update_where_def)

lemma other_write:
  assumes "write_endpoint wr \<noteq> i"
  shows "find_endpoint i (ww_endpoints (apply_write wr w)) = find_endpoint i (ww_endpoints w)"
    "failures_recorded i (apply_write wr w) = failures_recorded i w"
  using assms by (cases wr; simp add: setFailureCount_def disable_def record_delivery_def find_after_update failures_recorded_def)+

lemma map_delete_set [simp]: "map_delete k (map_set k v m) = map_delete k m"
  by (induction k v m rule: map_set.induct) (auto simp: map_delete_def)

lemma quiet_set_other:
  "quiet i (map_delete c calls) \<Longrightarrow> c' \<noteq> c \<Longrightarrow> \<not> touches i call \<Longrightarrow> quiet i (map_delete c (map_set c' call calls))"
  unfolding quiet_def map_delete_def by (induction c' call calls rule: map_set.induct) auto

lemma quiet_map_set: "quiet i calls \<Longrightarrow> \<not> touches i call \<Longrightarrow> quiet i (map_set c call calls)"
  unfolding quiet_def by (induction c call calls rule: map_set.induct) auto

lemma quiet_finish: "quiet i (map_delete c calls) \<Longrightarrow> distinct (map fst calls) \<Longrightarrow> quiet i (map_set c (Writing []) calls)"
proof (induction calls)
  case (Cons p calls)
  show ?case
  proof (cases "fst p = c")
    case True
    then have "c \<notin> fst ` set calls" using Cons.prems(2) by auto
    then have "map_delete c calls = calls" by (force simp: map_delete_def filter_id_conv)
    with True have "map_delete c (p # calls) = calls" by (cases p) (simp add: map_delete_def)
    with Cons.prems(1) have "quiet i calls" by simp
    with True show ?thesis by (cases p) (simp add: quiet_def)
  next
    case False
    with Cons show ?thesis by (cases p) (auto simp: quiet_def map_delete_def)
  qed
qed (simp add: quiet_def)

lemma only_call:
  "quiet i (map_delete c0 calls) \<Longrightarrow> map_get calls c = Some call \<Longrightarrow> touches i call \<Longrightarrow> c = c0"
  unfolding quiet_def map_delete_def by (auto dest: map_of_SomeD)

lemma quiet_call: "quiet i calls \<Longrightarrow> map_get calls c = Some call \<Longrightarrow> \<not> touches i call"
  unfolding quiet_def by (fastforce dest: map_of_SomeD)

lemma failure_touches [simp]: "touches i (Writing (failure_writes cfg input e code)) \<longleftrightarrow> ep_id e = i"
  by (auto simp: failure_writes_def Let_def)

lemma response_touches: "touches i (Writing (response_writes cfg http input e)) \<Longrightarrow> ep_id e = i"
  by (auto simp: response_writes_def success_writes_def failure_writes_def Let_def split: option.splits prod.splits bool.splits if_splits)

lemma response_fails: "(case http of Some (code, ok) \<Rightarrow> \<not> ok | None \<Rightarrow> True) \<Longrightarrow> \<exists>code. response_writes cfg http input e = failure_writes cfg input e code"
  by (auto simp: response_writes_def split: option.splits bool.split)

lemma begin_keeps:
  assumes "dispatch_begin env now input w = (res, w')"
  shows "ww_endpoints w' = ww_endpoints w" "failures_recorded i w' = failures_recorded i w"
  using assms by (auto simp: dispatch_begin_def failures_recorded_def Let_def split: if_splits option.splits sum.splits)

lemma begin_call:
  assumes "dispatch_begin env now input w = (Inr call, w')"
  obtains e where "find_endpoint (di_endpointId input) (ww_endpoints w) = Some e"
    "(ep_status e = DISABLED \<and> call = Writing [] \<and> w' = w) \<or>
     (ep_status e = ACTIVE \<and> (call = Awaiting input e \<or> call = Writing (failure_writes (de_retry env) input e None)))"
proof -
  obtain e where e: "find_endpoint (di_endpointId input) (ww_endpoints w) = Some e"
    using assms by (auto simp: dispatch_begin_def split: if_splits option.splits)
  with assms show ?thesis
    by (intro that[OF e], cases "ep_status e")
      (auto simp: dispatch_begin_def Let_def split: if_splits sum.splits)
qed

section \<open>The states of a delivery\<close>

text \<open>With \<open>n\<close> failures recorded since the count was \<open>f\<close>, the endpoint row and the one call that concerns it, if
  there is one, are in one of these states.\<close>

definition cut_off_status :: "dispatcher_env \<Rightarrow> int \<Rightarrow> endpoint_status" where
  "cut_off_status env k = (if rc_autoDisableAfter (de_retry env) \<le> k then DISABLED else ACTIVE)"

definition call_phase :: "dispatcher_env \<Rightarrow> string \<Rightarrow> int \<Rightarrow> endpoint \<Rightarrow> dispatch_call \<Rightarrow> bool" where
  "call_phase env i k e call \<longleftrightarrow> k < rc_autoDisableAfter (de_retry env) \<and>
     (((\<exists>input. call = Awaiting input e) \<or> (\<exists>input code. call = Writing (failure_writes (de_retry env) input e code))) \<and>
        ep_consecutiveFailures e = k \<and> ep_status e = ACTIVE
      \<or> (\<exists>d. dl_endpointId d = i \<and> dl_status d = FAILED \<and> ep_consecutiveFailures e = k + 1 \<and>
          (call = Writing [DisableEndpoint i, RecordDelivery d] \<and> cut_off_status env (k + 1) = DISABLED \<and> ep_status e = ACTIVE
           \<or> call = Writing [RecordDelivery d] \<and> ep_status e = cut_off_status env (k + 1))))"

definition count_state :: "dispatcher_env \<Rightarrow> string \<Rightarrow> int \<Rightarrow> endpoint \<Rightarrow> (nat \<times> dispatch_call) list \<Rightarrow> bool" where
  "count_state env i k e calls \<longleftrightarrow> distinct (map fst calls) \<and>
     ((quiet i calls \<and> ep_consecutiveFailures e = k \<and> k \<le> rc_autoDisableAfter (de_retry env) \<and> ep_status e = cut_off_status env k)
     \<or> (\<exists>c call. map_get calls c = Some call \<and> quiet i (map_delete c calls) \<and> touches i call \<and> call_phase env i k e call))"

definition counted :: "dispatcher_env \<Rightarrow> string \<Rightarrow> int \<Rightarrow> nat \<Rightarrow> delivery_system \<Rightarrow> bool" where
  "counted env i f m s \<longleftrightarrow> (\<exists>e n. find_endpoint i (ww_endpoints (dy_world s)) = Some e \<and>
     failures_recorded i (dy_world s) = m + n \<and> count_state env i (f + int n) e (dy_calls s))"

section \<open>Every step keeps the count\<close>

lemma count_state_other:
  assumes "count_state env i k e calls" "map_get calls c = Some old" "\<not> touches i old" "\<not> touches i new"
  shows "count_state env i k e (map_set c new calls)"
proof -
  have d: "distinct (map fst (map_set c new calls))" using assms(1) by (simp add: count_state_def distinct_map_set)
  from assms(1) consider
      "quiet i calls" "ep_consecutiveFailures e = k" "k \<le> rc_autoDisableAfter (de_retry env)" "ep_status e = cut_off_status env k"
    | c0 call where "map_get calls c0 = Some call" "quiet i (map_delete c0 calls)" "touches i call" "call_phase env i k e call"
    unfolding count_state_def by blast
  then show ?thesis
  proof cases
    case 1
    with d quiet_map_set[OF _ assms(4)] show ?thesis by (simp add: count_state_def)
  next
    case 2
    then have "c0 \<noteq> c" using assms(2,3) by auto
    with 2 assms(4) have "map_get (map_set c new calls) c0 = Some call" "quiet i (map_delete c0 (map_set c new calls))"
      by (simp_all add: map_get_set quiet_set_other)
    with 2 d show ?thesis unfolding count_state_def by blast
  qed
qed

lemma counted_other:
  assumes "counted env i f m s" "map_get (dy_calls s) c = Some old" "\<not> touches i old" "\<not> touches i new"
    and "find_endpoint i (ww_endpoints w) = find_endpoint i (ww_endpoints (dy_world s))"
      "failures_recorded i w = failures_recorded i (dy_world s)"
  shows "counted env i f m (s\<lparr>dy_world := w, dy_calls := map_set c new (dy_calls s)\<rparr>)"
  using assms(1,5,6) count_state_other[OF _ assms(2-4)] unfolding counted_def by auto

lemma count_state_phase:
  assumes "quiet i (map_delete c calls)" "distinct (map fst calls)" "touches i new" "call_phase env i k e new"
  shows "count_state env i k e (map_set c new calls)"
  unfolding count_state_def using assms
  by (intro conjI disjI2 exI[of _ c] exI[of _ new]) (simp_all add: map_get_set distinct_map_set)

lemma count_state_call:
  assumes "count_state env i k e calls" "map_get calls c = Some call" "touches i call"
  shows "quiet i (map_delete c calls)" "call_phase env i k e call"
proof -
  have "\<not> quiet i calls" using quiet_call assms(2,3) by blast
  with assms(1) obtain c0 call0 where 0: "map_get calls c0 = Some call0" "quiet i (map_delete c0 calls)" "call_phase env i k e call0"
    unfolding count_state_def by blast
  moreover have "c0 = c" using only_call[OF 0(2) assms(2,3)] ..
  ultimately show "quiet i (map_delete c calls)" "call_phase env i k e call" using assms(2) by simp_all
qed

lemma count_state_add:
  assumes "count_state env i k e calls" "c \<notin> fst ` set calls"
    and "touches i call \<Longrightarrow> quiet i calls \<and> call_phase env i k e call"
  shows "count_state env i k e (calls @ [(c, call)])"
proof -
  let ?calls = "calls @ [(c, call)]"
  have get: "map_get ?calls c = Some call" "\<And>c'. c' \<noteq> c \<Longrightarrow> map_get ?calls c' = map_get calls c'"
    using assms(2) by (auto simp: map_add_def map_of_eq_None_iff[THEN iffD2] split: option.splits)
  have del: "map_delete c ?calls = calls" using assms(2) by (force simp: map_delete_def filter_id_conv)
  have d: "distinct (map fst ?calls)" using assms(1,2) by (auto simp: count_state_def)
  show ?thesis
  proof (cases "touches i call")
    case True
    with get(1) del assms(3) d show ?thesis unfolding count_state_def by (intro conjI disjI2 exI[of _ c] exI[of _ call]) simp_all
  next
    case False
    then have q: "quiet i (map_delete c0 calls) \<Longrightarrow> quiet i (map_delete c0 ?calls)" "quiet i calls \<Longrightarrow> quiet i ?calls" for c0
      by (auto simp: quiet_def map_delete_def)
    from assms(1) consider
        "quiet i calls" "ep_consecutiveFailures e = k" "k \<le> rc_autoDisableAfter (de_retry env)" "ep_status e = cut_off_status env k"
      | c0 call0 where "map_get calls c0 = Some call0" "quiet i (map_delete c0 calls)" "touches i call0" "call_phase env i k e call0"
      unfolding count_state_def by blast
    then show ?thesis
    proof cases
      case 1
      with d q(2) show ?thesis by (simp add: count_state_def)
    next
      case 2
      moreover have "c0 \<noteq> c" using 2(1) assms(2) by (force dest: map_of_SomeD)
      ultimately show ?thesis using q(1) get(2) d unfolding count_state_def by metis
    qed
  qed
qed

lemma counted_begin:
  assumes "counted env i f m s" "failing_event i s (Begin c now input)"
  shows "counted env i f m (delivery_step env s (Begin c now input))"
proof (cases "c \<in> fst ` set (dy_calls s)")
  case True
  with assms(1) show ?thesis by simp
next
  case new: False
  obtain res w where b: "dispatch_begin env now input (dy_world s) = (res, w)" by fastforce
  note k = begin_keeps[OF b]
  from assms(1) obtain e n where e: "find_endpoint i (ww_endpoints (dy_world s)) = Some e" "failures_recorded i (dy_world s) = m + n"
    and p: "count_state env i (f + int n) e (dy_calls s)" unfolding counted_def by blast
  show ?thesis
  proof (cases res)
    case (Inl err)
    with new b e k p show ?thesis unfolding counted_def by (intro exI[of _ e] exI[of _ n]) simp
  next
    case (Inr call)
    have "quiet i (dy_calls s) \<and> call_phase env i (f + int n) e call" if t: "touches i call"
    proof -
      obtain e' where e': "find_endpoint (di_endpointId input) (ww_endpoints (dy_world s)) = Some e'"
        and c: "(ep_status e' = DISABLED \<and> call = Writing [] \<and> w = dy_world s) \<or>
          (ep_status e' = ACTIVE \<and> (call = Awaiting input e' \<or> call = Writing (failure_writes (de_retry env) input e' None)))"
        by (rule begin_call[OF b[unfolded Inr]]) (rule that)
      have i: "di_endpointId input = i" using c t find_endpoint_id[OF e'] by auto
      with e e' have "e' = e" by simp
      have quiet: "quiet i (dy_calls s)" using assms(2) i by (simp add: failing_event_def)
      with p quiet_call have idle: "ep_consecutiveFailures e = f + int n" "ep_status e = cut_off_status env (f + int n)"
        unfolding count_state_def by blast+
      with c t quiet show ?thesis unfolding \<open>e' = e\<close> by (auto simp: call_phase_def cut_off_status_def split: if_splits)
    qed
    with count_state_add[OF p new] e k new b Inr show ?thesis
      unfolding counted_def by (intro exI[of _ e] exI[of _ n]) simp
  qed
qed

lemma counted_response:
  assumes "counted env i f m s" "failing_event i s (Response c http)"
  shows "counted env i f m (delivery_step env s (Response c http))"
proof (cases "\<exists>input e'. map_get (dy_calls s) c = Some (Awaiting input e')")
  case False
  then have "delivery_step env s (Response c http) = s" by (auto split: option.split dispatch_call.split)
  with assms(1) show ?thesis by simp
next
  case True
  then obtain input e' where g: "map_get (dy_calls s) c = Some (Awaiting input e')" by blast
  let ?new = "Writing (response_writes (de_retry env) http input e')"
  have step: "delivery_step env s (Response c http) = s\<lparr>dy_world := dy_world s, dy_calls := map_set c ?new (dy_calls s)\<rparr>"
    by (simp add: g)
  show ?thesis
  proof (cases "ep_id e' = i")
    case False
    then have "\<not> touches i ?new" using response_touches by blast
    with False show ?thesis unfolding step by (intro counted_other[OF assms(1) g]) simp_all
  next
    case True
    from assms(1) obtain e n where e: "find_endpoint i (ww_endpoints (dy_world s)) = Some e" "failures_recorded i (dy_world s) = m + n"
      and p: "count_state env i (f + int n) e (dy_calls s)" unfolding counted_def by blast
    note q = count_state_call[OF p g, unfolded touches.simps, OF True]
    obtain code where w: "response_writes (de_retry env) http input e' = failure_writes (de_retry env) input e' code"
      using response_fails[of http] assms(2) g True unfolding failing_event_def by fastforce
    have "call_phase env i (f + int n) e ?new" using q(2) w by (auto simp: call_phase_def)
    moreover have "distinct (map fst (dy_calls s))" using p by (simp add: count_state_def)
    ultimately have "count_state env i (f + int n) e (map_set c ?new (dy_calls s))"
      using q(1) True by (intro count_state_phase) (simp_all add: w)
    with e show ?thesis unfolding step counted_def by auto
  qed
qed

lemma failure_writes_cons: "failure_writes cfg input e code = SetFailureCount (ep_id e) (ep_consecutiveFailures e + 1) #
    (if rc_autoDisableAfter cfg \<le> ep_consecutiveFailures e + 1 then [DisableEndpoint (ep_id e)] else []) @
    [RecordDelivery \<lparr>dl_id = deliveryId input, dl_endpointId = ep_id e, dl_eventId = di_eventId input,
       dl_status = FAILED, dl_statusCode = code, dl_attemptCount = 1\<rparr>]"
  by (simp add: failure_writes_def shouldAutoDisable_def Let_def)

text \<open>The next write of the call that concerns \<open>i\<close>.\<close>

lemma own_write:
  assumes "call_phase env i k e (Writing (wr # ws))" "find_endpoint i (ww_endpoints w) = Some e" "failures_recorded i w = r"
  shows "\<exists>e'. find_endpoint i (ww_endpoints (apply_write wr w)) = Some e' \<and>
    ((ws \<noteq> [] \<and> failures_recorded i (apply_write wr w) = r \<and> touches i (Writing ws) \<and> call_phase env i k e' (Writing ws)) \<or>
     (ws = [] \<and> failures_recorded i (apply_write wr w) = Suc r \<and> ep_consecutiveFailures e' = k + 1 \<and>
        k + 1 \<le> rc_autoDisableAfter (de_retry env) \<and> ep_status e' = cut_off_status env (k + 1)))"
proof -
  have i: "ep_id e = i" by (rule find_endpoint_id[OF assms(2)])
  note upd = find_after_update[where i = i and j = i, simplified] 
  from assms(1) consider
      (count) input code where "wr # ws = failure_writes (de_retry env) input e code" "ep_consecutiveFailures e = k" "ep_status e = ACTIVE"
    | (off) d where "wr = DisableEndpoint i" "ws = [RecordDelivery d]" "dl_endpointId d = i" "dl_status d = FAILED"
        "ep_consecutiveFailures e = k + 1" "cut_off_status env (k + 1) = DISABLED"
    | (kept) d where "wr = RecordDelivery d" "ws = []" "dl_endpointId d = i" "dl_status d = FAILED"
        "ep_consecutiveFailures e = k + 1" "ep_status e = cut_off_status env (k + 1)"
    unfolding call_phase_def by auto
  then show ?thesis
  proof cases
    case count
    then have "wr = SetFailureCount i (k + 1)" by (simp add: failure_writes_cons i)
    moreover from count have "ws = [RecordDelivery \<lparr>dl_id = deliveryId input, dl_endpointId = i, dl_eventId = di_eventId input,
        dl_status = FAILED, dl_statusCode = code, dl_attemptCount = 1\<rparr>] \<and> cut_off_status env (k + 1) = ACTIVE
      \<or> ws = [DisableEndpoint i, RecordDelivery \<lparr>dl_id = deliveryId input, dl_endpointId = i, dl_eventId = di_eventId input,
        dl_status = FAILED, dl_statusCode = code, dl_attemptCount = 1\<rparr>] \<and> cut_off_status env (k + 1) = DISABLED"
      by (auto simp: failure_writes_cons i cut_off_status_def split: if_splits)
    moreover have "k < rc_autoDisableAfter (de_retry env)" using assms(1) by (simp add: call_phase_def)
    ultimately show ?thesis using assms(2,3) count(3) i
      by (intro exI[of _ "e\<lparr>ep_consecutiveFailures := k + 1\<rparr>"])
        (auto simp: setFailureCount_def upd failures_recorded_def call_phase_def)
  next
    case off
    moreover have "k < rc_autoDisableAfter (de_retry env)" using assms(1) by (simp add: call_phase_def)
    ultimately show ?thesis using assms(2,3)
      by (intro exI[of _ "e\<lparr>ep_status := DISABLED\<rparr>"]) (auto simp: disable_def upd failures_recorded_def call_phase_def)
  next
    case kept
    moreover have "k < rc_autoDisableAfter (de_retry env)" using assms(1) by (simp add: call_phase_def)
    ultimately show ?thesis using assms(2,3)
      by (intro exI[of _ e]) (auto simp: record_delivery_def failures_recorded_def)
  qed
qed

lemma counted_write:
  assumes "counted env i f m s"
  shows "counted env i f m (delivery_step env s (StoreWrite c))"
proof (cases "\<exists>wr ws. map_get (dy_calls s) c = Some (Writing (wr # ws))")
  case False
  then have "delivery_step env s (StoreWrite c) = s" by (auto split: option.split dispatch_call.split list.split)
  with assms show ?thesis by simp
next
  case True
  then obtain wr ws where g: "map_get (dy_calls s) c = Some (Writing (wr # ws))" by blast
  have step: "delivery_step env s (StoreWrite c) = s\<lparr>dy_world := apply_write wr (dy_world s), dy_calls := map_set c (Writing ws) (dy_calls s)\<rparr>"
    by (simp add: g)
  show ?thesis
  proof (cases "touches i (Writing (wr # ws))")
    case False
    then show ?thesis unfolding step by (intro counted_other[OF assms g]) (simp_all add: other_write)
  next
    case True
    from assms obtain e n where e: "find_endpoint i (ww_endpoints (dy_world s)) = Some e" "failures_recorded i (dy_world s) = m + n"
      and p: "count_state env i (f + int n) e (dy_calls s)" unfolding counted_def by blast
    note q = count_state_call[OF p g True]
    have d: "distinct (map fst (dy_calls s))" using p by (simp add: count_state_def)
    from own_write[OF q(2) e] obtain e' where e': "find_endpoint i (ww_endpoints (apply_write wr (dy_world s))) = Some e'"
      and c: "(ws \<noteq> [] \<and> failures_recorded i (apply_write wr (dy_world s)) = m + n \<and> touches i (Writing ws) \<and>
           call_phase env i (f + int n) e' (Writing ws)) \<or>
        (ws = [] \<and> failures_recorded i (apply_write wr (dy_world s)) = Suc (m + n) \<and> ep_consecutiveFailures e' = f + int n + 1 \<and>
           f + int n + 1 \<le> rc_autoDisableAfter (de_retry env) \<and> ep_status e' = cut_off_status env (f + int n + 1))"
      by blast
    from c show ?thesis
    proof (elim disjE conjE)
      assume "failures_recorded i (apply_write wr (dy_world s)) = m + n" "touches i (Writing ws)" "call_phase env i (f + int n) e' (Writing ws)"
      with count_state_phase[OF q(1) d] e' show ?thesis unfolding step counted_def by auto
    next
      assume a: "ws = []" "failures_recorded i (apply_write wr (dy_world s)) = Suc (m + n)" "ep_consecutiveFailures e' = f + int n + 1"
        "f + int n + 1 \<le> rc_autoDisableAfter (de_retry env)" "ep_status e' = cut_off_status env (f + int n + 1)"
      have "quiet i (map_set c (Writing []) (dy_calls s))"
        using q(1) d by (rule quiet_finish)
      moreover have "distinct (map fst (map_set c (Writing []) (dy_calls s)))" using d by (rule distinct_map_set)
      ultimately have "count_state env i (f + int (Suc n)) e' (map_set c (Writing ws) (dy_calls s))"
        using a unfolding count_state_def by (auto simp: algebra_simps)
      with a e' show ?thesis unfolding step counted_def by (intro exI[of _ e'] exI[of _ "Suc n"]) simp
    qed
  qed
qed

lemma counted_rejects:
  assumes "counted env i f m s" "failing_event i s (StoreRejects c applied)"
  shows "counted env i f m (delivery_step env s (StoreRejects c applied))"
proof (cases "\<exists>wr ws. map_get (dy_calls s) c = Some (Writing (wr # ws))")
  case False
  then have "delivery_step env s (StoreRejects c applied) = s" by (auto split: option.split dispatch_call.split list.split)
  with assms(1) show ?thesis by simp
next
  case True
  then obtain wr ws where g: "map_get (dy_calls s) c = Some (Writing (wr # ws))" by blast
  then have "\<not> touches i (Writing (wr # ws))" using assms(2) by (simp add: failing_event_def del: touches_writes)
  then have "counted env i f m (s\<lparr>dy_world := (if applied then apply_write wr (dy_world s) else dy_world s),
      dy_calls := map_set c (Writing []) (dy_calls s)\<rparr>)"
    by (intro counted_other[OF assms(1) g]) (simp_all add: other_write)
  then show ?thesis by (simp add: g)
qed

lemma counted_run:
  "counted env i f m s \<Longrightarrow> failing_one_by_one env i s evs \<Longrightarrow> counted env i f m (delivery_run env s evs)"
proof (induction evs arbitrary: s)
  case (Cons ev evs)
  then have "counted env i f m (delivery_step env s ev)"
    by (cases ev) (simp_all only: failing_one_by_one.simps counted_begin counted_response counted_write counted_rejects)
  with Cons show ?case by simp
qed simp

text \<open>C9: An active endpoint with \<open>f\<close> consecutive failures below the threshold \<open>a\<close>, to which deliveries are made one after
  the other and keep failing (refused url, network error or error status) with store calls that resolve, while any calls for
  other endpoints, failing store calls included, run in between: it never has more than \<open>a - f\<close> further failed deliveries recorded; whenever no delivery to it is under
  way its count is \<open>f\<close> plus their number, and it is disabled exactly when that number has reached \<open>a - f\<close>; and from
  then on a dispatch for it sends and writes nothing.\<close>

theorem failing_endpoint_is_cut_off:
  assumes "find_endpoint i (ww_endpoints (dy_world s)) = Some e" and "ep_status e = ACTIVE"
    and "ep_consecutiveFailures e < rc_autoDisableAfter (de_retry env)" and "quiet i (dy_calls s)"
    and "distinct (map fst (dy_calls s))" and "failing_one_by_one env i s evs" and "s' = delivery_run env s evs"
  shows "\<exists>e' n. find_endpoint i (ww_endpoints (dy_world s')) = Some e' \<and>
    failures_recorded i (dy_world s') = failures_recorded i (dy_world s) + n \<and>
    ep_consecutiveFailures e + int n \<le> rc_autoDisableAfter (de_retry env) \<and>
    (quiet i (dy_calls s') \<longrightarrow> ep_consecutiveFailures e' = ep_consecutiveFailures e + int n \<and>
       (ep_status e' = DISABLED \<longleftrightarrow> rc_autoDisableAfter (de_retry env) = ep_consecutiveFailures e + int n)) \<and>
    (ep_status e' = DISABLED \<longrightarrow> (\<forall>now input. di_endpointId input = i \<longrightarrow>
       snd (dispatch_begin env now input (dy_world s')) = dy_world s' \<and>
       (\<forall>call. fst (dispatch_begin env now input (dy_world s')) = Inr call \<longrightarrow> call = Writing [])))"
proof -
  let ?f = "ep_consecutiveFailures e"
  have "counted env i ?f (failures_recorded i (dy_world s)) s"
    unfolding counted_def count_state_def using assms(1-5)
    by (intro exI[of _ e] exI[of _ 0]) (simp add: cut_off_status_def)
  from counted_run[OF this assms(6)] obtain e' n where e': "find_endpoint i (ww_endpoints (dy_world s')) = Some e'"
      "failures_recorded i (dy_world s') = failures_recorded i (dy_world s) + n"
    and c: "count_state env i (?f + int n) e' (dy_calls s')"
    unfolding counted_def assms(7) by blast
  have "?f + int n \<le> rc_autoDisableAfter (de_retry env)"
    using c unfolding count_state_def call_phase_def by auto
  moreover have "ep_consecutiveFailures e' = ?f + int n \<and> ep_status e' = cut_off_status env (?f + int n)" if "quiet i (dy_calls s')"
    using c quiet_call[OF that] unfolding count_state_def by blast
  moreover have "snd (dispatch_begin env now input (dy_world s')) = dy_world s' \<and>
      (\<forall>call. fst (dispatch_begin env now input (dy_world s')) = Inr call \<longrightarrow> call = Writing [])"
    if "ep_status e' = DISABLED" "di_endpointId input = i" for now input
    using e'(1) that by (simp add: dispatch_begin_def)
  ultimately show ?thesis
    using e' by (intro exI[of _ e'] exI[of _ n]) (auto simp: cut_off_status_def split: if_splits)
qed

section \<open>Overlapping deliveries\<close>

definition sample_env :: dispatcher_env where
  "sample_env = \<lparr>de_hmac = (\<lambda>k m. m), de_parse = (\<lambda>u. Some (''https:'', u)), de_registered = [],
     de_retry = WEBHOOK_RETRY_DEFAULTS\<rparr>"

definition sample_deliveries :: "int \<Rightarrow> delivery_system" where
  "sample_deliveries n = \<lparr>dy_world = \<lparr>ww_endpoints = [\<lparr>ep_id = ''e'', ep_tenantId = ''t'', ep_url = ''example.org'', ep_secret = ''s'',
     ep_status = ACTIVE, ep_consecutiveFailures = n\<rparr>], ww_deliveries = [], ww_posts = []\<rparr>, dy_calls = []\<rparr>"

definition sample_dispatch :: dispatch_input where
  "sample_dispatch = \<lparr>di_endpointId = ''e'', di_eventId = ''v'', di_eventType = ''x.y'', di_body = ''{}''\<rparr>"

definition failed_delivery :: "nat \<Rightarrow> delivery_event list" where
  "failed_delivery c = [Begin c 1 sample_dispatch, Response c (Some (500, False)), StoreWrite c, StoreWrite c, StoreWrite c]"

text \<open>Two deliveries that overlap both fail at the last failure before the threshold but one; the second one counts from
  the same snapshot, so one failure is lost and the endpoint stays active.\<close>

lemma overlapping_failures_are_lost:
  "let s = delivery_run sample_env (sample_deliveries 3) [Begin 1 1 sample_dispatch, Begin 2 1 sample_dispatch,
       Response 1 None, StoreWrite 1, StoreWrite 1, Response 2 None, StoreWrite 2, StoreWrite 2]
   in failures_recorded ''e'' (dy_world s) = 2 \<and> map ep_consecutiveFailures (ww_endpoints (dy_world s)) = [4] \<and>
      map ep_status (ww_endpoints (dy_world s)) = [ACTIVE] \<and> 3 + 2 \<ge> rc_autoDisableAfter (de_retry sample_env)"
  by code_simp

theorem failing_endpoint_is_cut_off_witness:
  "map ep_status (ww_endpoints (dy_world (delivery_run sample_env (sample_deliveries 3)
     (failed_delivery 1 @ failed_delivery 2 @ failed_delivery 3)))) = [DISABLED]"
proof -
  let ?s = "sample_deliveries 3" and ?evs = "failed_delivery 1 @ failed_delivery 2 @ failed_delivery 3"
  let ?s' = "delivery_run sample_env ?s ?evs"
  have run: "quiet ''e'' (dy_calls ?s')" "failures_recorded ''e'' (dy_world ?s') = 2" "failures_recorded ''e'' (dy_world ?s) = 0"
    "map ep_id (ww_endpoints (dy_world ?s')) = [''e'']" "failing_one_by_one sample_env ''e'' ?s ?evs"
    "quiet ''e'' (dy_calls ?s)" "distinct (map fst (dy_calls ?s))" "rc_autoDisableAfter (de_retry sample_env) = 5"
    by code_simp+
  have e: "find_endpoint ''e'' (ww_endpoints (dy_world ?s)) = Some (hd (ww_endpoints (dy_world ?s)))"
    "ep_status (hd (ww_endpoints (dy_world ?s))) = ACTIVE" "ep_consecutiveFailures (hd (ww_endpoints (dy_world ?s))) = 3"
    by code_simp+
  from failing_endpoint_is_cut_off[OF e(1,2) _ run(6,7,5) refl] run(1-3,8) e(3)
  obtain e' where "find_endpoint ''e'' (ww_endpoints (dy_world ?s')) = Some e'" "ep_status e' = DISABLED" by auto
  with run(4) show ?thesis by (auto simp: find_endpoint_def map_eq_Cons_conv split: if_splits)
qed

end
