(* ===== verification/Uuid.thy ===== *)
theory Uuid
  imports Js_Prelude "HOL-Library.Word"
begin

text \<open>
  \<open>src/core/uuid/uuid-v7.ts\<close>: the version 7 UUID generator and its recogniser.  The sixteen random bytes
  are an argument (a list of 8-bit words), the clock a number of milliseconds.
\<close>

unbundle bit_operations_syntax

section \<open>The generator\<close>

definition hexdigit :: "nat \<Rightarrow> char" where
  "hexdigit d = (if d < 10 then char_of (48 + d) else char_of (87 + d))"

text \<open>\<open>b.toString(16)\<close> of a byte, and \<open>padStart(2, "0")\<close>.\<close>

definition toString16 :: "8 word \<Rightarrow> string" where
  "toString16 b = (if unat b < 16 then [hexdigit (unat b)] else [hexdigit (unat b div 16), hexdigit (unat b mod 16)])"

definition padStart :: "nat \<Rightarrow> char \<Rightarrow> string \<Rightarrow> string" where
  "padStart n c s = replicate (n - length s) c @ s"

definition uuid_bytes :: "8 word list \<Rightarrow> nat \<Rightarrow> 8 word list" where
  "uuid_bytes random ms =
     (let bytes = random[0 := of_nat (drop_bit 40 ms), 1 := of_nat (drop_bit 32 ms), 2 := of_nat (drop_bit 24 ms),
                         3 := of_nat (drop_bit 16 ms), 4 := of_nat (drop_bit 8 ms), 5 := of_nat ms];
          bytes = bytes[6 := (bytes ! 6 AND 0x0F) OR 0x70]
      in bytes[8 := (bytes ! 8 AND 0x3F) OR 0x80])"

definition uuidV7 :: "8 word list \<Rightarrow> nat \<Rightarrow> string" where
  "uuidV7 random ms =
     (let hex = map (\<lambda>b. padStart 2 CHR ''0'' (toString16 b)) (uuid_bytes random ms);
          part = (\<lambda>i j. concat (take (j - i) (drop i hex)))
      in part 0 4 @ ''-'' @ part 4 6 @ ''-'' @ part 6 8 @ ''-'' @ part 8 10 @ ''-'' @ part 10 16)"

section \<open>The recogniser\<close>

definition is_hex_ci :: "char \<Rightarrow> bool" where
  "is_hex_ci c = (let n = of_char c :: nat in (48 \<le> n \<and> n \<le> 57) \<or> (97 \<le> n \<and> n \<le> 102) \<or> (65 \<le> n \<and> n \<le> 70))"

definition hex_run :: "nat \<Rightarrow> string \<Rightarrow> bool" where
  "hex_run n s \<longleftrightarrow> length s = n \<and> list_all is_hex_ci s"

text \<open>The regular expression, group by group.\<close>

definition isUuidV7 :: "string \<Rightarrow> bool" where
  "isUuidV7 v \<longleftrightarrow>
     length v = 36 \<and> hex_run 8 (take 8 v) \<and> v ! 8 = CHR ''-'' \<and>
     hex_run 4 (take 4 (drop 9 v)) \<and> v ! 13 = CHR ''-'' \<and>
     v ! 14 = CHR ''7'' \<and> hex_run 3 (take 3 (drop 15 v)) \<and> v ! 18 = CHR ''-'' \<and>
     v ! 19 \<in> {CHR ''8'', CHR ''9'', CHR ''a'', CHR ''b'', CHR ''A'', CHR ''B''} \<and>
     hex_run 3 (take 3 (drop 20 v)) \<and> v ! 23 = CHR ''-'' \<and> hex_run 12 (drop 24 v)"

section \<open>The bytes\<close>

lemma disjoint_or: "n < 2 ^ k \<Longrightarrow> n OR push_bit k m = n + push_bit k (m :: nat)"
proof -
  assume "n < 2 ^ k"
  then have "take_bit k n = n" by (rule take_bit_nat_eq_self)
  moreover have "take_bit k n AND push_bit k m = 0" by (rule bit_eqI) (simp add: bit_simps)
  ultimately show ?thesis using disjunctive_add_eq_or[of n "push_bit k m"] by simp
qed

lemma version_byte: "unat ((b AND 0x0F) OR 0x70 :: 8 word) = 112 + unat b mod 16"
proof -
  have "unat b AND 0x0F = unat b mod 16"
    using take_bit_eq_mask[of 4 "unat b"] by (simp add: take_bit_eq_mod mask_eq_exp_minus_1)
  then show ?thesis
    using disjoint_or[of "unat b mod 16" 4 7] by (simp add: unsigned_or_eq unsigned_and_eq push_bit_eq_mult)
qed

lemma variant_byte: "unat ((b AND 0x3F) OR 0x80 :: 8 word) = 128 + unat b mod 64"
proof -
  have "unat b AND 0x3F = unat b mod 64"
    using take_bit_eq_mask[of 6 "unat b"] by (simp add: take_bit_eq_mod mask_eq_exp_minus_1)
  then show ?thesis
    using disjoint_or[of "unat b mod 64" 6 2] by (simp add: unsigned_or_eq unsigned_and_eq push_bit_eq_mult)
qed

definition hex2 :: "nat \<Rightarrow> string" where
  "hex2 n = [hexdigit (n div 16), hexdigit (n mod 16)]"

lemma padded_byte: "padStart 2 CHR ''0'' (toString16 b) = hex2 (unat b)"
proof -
  have "hexdigit 0 = CHR ''0''" by code_simp
  then show ?thesis by (simp add: padStart_def toString16_def hex2_def numeral_2_eq_2)
qed

lemma unat_byte: "unat (of_nat n :: 8 word) = n mod 256"
  by (simp add: unat_of_nat take_bit_eq_mod)

lemma list16_cases:
  assumes "length xs = 16"
  obtains a0 a1 a2 a3 a4 a5 a6 a7 a8 a9 a10 a11 a12 a13 a14 a15 where
    "xs = [a0, a1, a2, a3, a4, a5, a6, a7, a8, a9, a10, a11, a12, a13, a14, a15]"
  using assms by (auto simp: length_Suc_conv numeral_eq_Suc)

text \<open>The text of the identifier: the six time bytes, then the version, variant and random bytes.\<close>

definition time_part :: "nat \<Rightarrow> string" where
  "time_part ms = hex2 (ms div 2 ^ 40 mod 256) @ hex2 (ms div 2 ^ 32 mod 256) @ hex2 (ms div 2 ^ 24 mod 256) @
     hex2 (ms div 2 ^ 16 mod 256) @ ''-'' @ hex2 (ms div 2 ^ 8 mod 256) @ hex2 (ms mod 256)"

lemma uuidV7_shape:
  assumes "length random = 16"
  shows "\<exists>b7 b9 bs. length bs = 6 \<and> uuidV7 random ms = time_part ms @ ''-'' @ hex2 (112 + unat (random ! 6) mod 16) @
    hex2 (unat (b7 :: 8 word)) @ ''-'' @ hex2 (128 + unat (random ! 8) mod 64) @ hex2 (unat (b9 :: 8 word)) @ ''-'' @
    concat (map (hex2 \<circ> unat) (bs :: 8 word list))"
proof -
  from assms obtain a0 a1 a2 a3 a4 a5 a6 a7 a8 a9 a10 a11 a12 a13 a14 a15 where
    r: "random = [a0, a1, a2, a3, a4, a5, a6, a7, a8, a9, a10, a11, a12, a13, a14, a15]" by (rule list16_cases)
  have b: "uuid_bytes random ms = [of_nat (drop_bit 40 ms), of_nat (drop_bit 32 ms), of_nat (drop_bit 24 ms),
      of_nat (drop_bit 16 ms), of_nat (drop_bit 8 ms), of_nat ms, (a6 AND 0x0F) OR 0x70, a7, (a8 AND 0x3F) OR 0x80,
      a9, a10, a11, a12, a13, a14, a15]"
    by (simp add: uuid_bytes_def r Let_def)
  show ?thesis
    by (rule exI[of _ a7], rule exI[of _ a9], rule exI[of _ "[a10, a11, a12, a13, a14, a15]"])
      (simp add: uuidV7_def b[unfolded r] r Let_def padded_byte version_byte variant_byte unat_byte time_part_def drop_bit_eq_div)
qed

section \<open>Every generated identifier is recognised\<close>

lemma of_char_hexdigit: "d < 16 \<Longrightarrow> (of_char (hexdigit d) :: nat) = (if d < 10 then 48 + d else 87 + d)"
  by (simp add: hexdigit_def)

lemma hexdigit_hex: "d < 16 \<Longrightarrow> is_hex_ci (hexdigit d)"
  by (simp add: is_hex_ci_def of_char_hexdigit Let_def)

lemma hex2_hex: "n < 256 \<Longrightarrow> list_all is_hex_ci (hex2 n)"
  by (simp add: hex2_def hexdigit_hex)

lemma byte_hex: "list_all is_hex_ci (hex2 (unat (b :: 8 word)))"
  using unsigned_less[of b] by (intro hex2_hex) simp

lemma bytes_hex: "list_all is_hex_ci (concat (map (hex2 \<circ> unat) (bs :: 8 word list)))"
  using byte_hex by (induction bs) simp_all

lemma length_bytes: "length (concat (map (hex2 \<circ> unat) (bs :: 8 word list))) = 2 * length bs"
  by (induction bs) (simp_all add: hex2_def)

lemma hexdigit_variant: "d < 4 \<Longrightarrow> hexdigit (8 + d) \<in> {CHR ''8'', CHR ''9'', CHR ''a'', CHR ''b''}"
proof -
  assume "d < 4"
  then have "d = 0 \<or> d = 1 \<or> d = 2 \<or> d = 3" by auto
  moreover have "hexdigit 8 = CHR ''8''" "hexdigit 9 = CHR ''9''" "hexdigit 10 = CHR ''a''" "hexdigit 11 = CHR ''b''"
    by code_simp+
  ultimately show ?thesis by auto
qed

lemma recognise:
  assumes "length a = 8" "list_all is_hex_ci a" "length b = 4" "list_all is_hex_ci b"
    "length c = 3" "list_all is_hex_ci c" "v \<in> {CHR ''8'', CHR ''9'', CHR ''a'', CHR ''b''}"
    "length d = 3" "list_all is_hex_ci d" "length e = 12" "list_all is_hex_ci e"
  shows "isUuidV7 (a @ ''-'' @ b @ ''-7'' @ c @ ''-'' @ [v] @ d @ ''-'' @ e)"
  using assms by (auto simp: isUuidV7_def hex_run_def nth_append nth_Cons')

lemma uuidV7_well_formed:
  assumes "length random = 16"
  shows "isUuidV7 (uuidV7 random ms)"
proof -
  from uuidV7_shape[OF assms, of ms] obtain b7 b9 :: "8 word" and bs :: "8 word list" where
    bs: "length bs = 6" and u: "uuidV7 random ms = time_part ms @ ''-'' @ hex2 (112 + unat (random ! 6) mod 16) @
      hex2 (unat b7) @ ''-'' @ hex2 (128 + unat (random ! 8) mod 64) @ hex2 (unat b9) @ ''-'' @
      concat (map (hex2 \<circ> unat) bs)" by blast
  let ?n = "unat (random ! 6) mod 16" and ?m = "unat (random ! 8) mod 64"
  have v6: "hex2 (112 + ?n) = CHR ''7'' # [hexdigit ?n]"
  proof -
    have "112 + ?n = ?n + 7 * 16" by simp
    then have "(112 + ?n) div 16 = 7" "(112 + ?n) mod 16 = ?n"
      by (simp_all only: div_mult_self1 mod_mult_self1) simp_all
    moreover have "hexdigit 7 = CHR ''7''" by code_simp
    ultimately show ?thesis by (simp add: hex2_def)
  qed
  have v8: "hex2 (128 + ?m) = hexdigit (8 + ?m div 16) # [hexdigit (?m mod 16)]"
  proof -
    have "128 + ?m = ?m + 8 * 16" by simp
    then have "(128 + ?m) div 16 = 8 + ?m div 16" "(128 + ?m) mod 16 = ?m mod 16"
      by (simp_all only: div_mult_self1 mod_mult_self1)
    then show ?thesis by (simp add: hex2_def)
  qed
  have t: "time_part ms = (hex2 (ms div 2 ^ 40 mod 256) @ hex2 (ms div 2 ^ 32 mod 256) @ hex2 (ms div 2 ^ 24 mod 256) @
     hex2 (ms div 2 ^ 16 mod 256)) @ ''-'' @ (hex2 (ms div 2 ^ 8 mod 256) @ hex2 (ms mod 256))"
    by (simp add: time_part_def)
  have "isUuidV7 ((hex2 (ms div 2 ^ 40 mod 256) @ hex2 (ms div 2 ^ 32 mod 256) @ hex2 (ms div 2 ^ 24 mod 256) @
      hex2 (ms div 2 ^ 16 mod 256)) @ ''-'' @ (hex2 (ms div 2 ^ 8 mod 256) @ hex2 (ms mod 256)) @ ''-7'' @
      (hexdigit ?n # hex2 (unat b7)) @ ''-'' @ [hexdigit (8 + ?m div 16)] @ (hexdigit (?m mod 16) # hex2 (unat b9)) @ ''-'' @
      concat (map (hex2 \<circ> unat) bs))"
    by (rule recognise)
      (simp_all add: hex2_hex byte_hex bytes_hex length_bytes bs hexdigit_hex hexdigit_variant del: insert_iff,
       simp_all add: hex2_def)
  then show ?thesis unfolding u t v6 v8 by simp
qed

text \<open>Every identifier the generator makes, whatever the random bytes and the clock, is accepted by the
  recogniser: it has the 8-4-4-4-12 layout, version 7 and the RFC variant.\<close>

theorem uuidV7_recognised:
  assumes "length random = 16"
  shows "isUuidV7 (uuidV7 random ms)"
  using assms by (rule uuidV7_well_formed)

section \<open>Time order\<close>

text \<open>\<open>a < b\<close> on strings: by code units, a proper prefix first.\<close>

fun js_less :: "string \<Rightarrow> string \<Rightarrow> bool" where
  "js_less _ [] = False"
| "js_less [] (_ # _) = True"
| "js_less (x # xs) (y # ys) = ((of_char x :: nat) < of_char y \<or> (x = y \<and> js_less xs ys))"

lemma js_less_at: "(of_char x :: nat) < of_char y \<Longrightarrow> js_less (p @ x # xs) (p @ y # ys)"
  by (induction p) auto

lemma js_less_append: "js_less xs ys \<Longrightarrow> length xs = length ys \<Longrightarrow> js_less (xs @ us) (ys @ vs)"
  by (induction xs ys rule: js_less.induct) auto

lemma js_less_prefix: "js_less xs ys \<Longrightarrow> js_less (p @ xs) (p @ ys)"
  by (induction p) auto

lemma hexdigit_mono: "d < e \<Longrightarrow> e < 16 \<Longrightarrow> (of_char (hexdigit d) :: nat) < of_char (hexdigit e)"
  by (simp add: of_char_hexdigit)

lemma hex2_mono:
  assumes "n < m" and "m < 256"
  shows "js_less (hex2 n) (hex2 m)"
proof (cases "n div 16 = m div 16")
  case True
  have "n mod 16 < m mod 16"
    using assms True div_mult_mod_eq[of n 16] div_mult_mod_eq[of m 16] by linarith
  then show ?thesis by (simp add: hex2_def True hexdigit_mono)
next
  case False
  then have "n div 16 < m div 16" using assms(1) by (simp add: div_le_mono le_neq_implies_less)
  moreover have "m div 16 < 16" using assms(2) by (simp add: less_mult_imp_div_less)
  ultimately show ?thesis by (simp add: hex2_def hexdigit_mono)
qed

text \<open>The \<open>k\<close> low bytes of a number, most significant first, in hexadecimal.\<close>

fun low_bytes :: "nat \<Rightarrow> nat \<Rightarrow> string" where
  "low_bytes 0 v = []"
| "low_bytes (Suc k) v = hex2 (v div 256 ^ k mod 256) @ low_bytes k v"

lemma length_low_bytes [simp]: "length (low_bytes k v) = 2 * k"
  by (induction k) (simp_all add: hex2_def)

lemma low_bytes_split: "v mod 256 ^ Suc k = 256 ^ k * (v div 256 ^ k mod 256) + v mod 256 ^ k" for v :: nat
  using mod_mult2_eq[of v "256 ^ k" 256] by (simp add: mult.commute)

lemma low_bytes_mono: "n mod 256 ^ k < m mod 256 ^ k \<Longrightarrow> js_less (low_bytes k n) (low_bytes k m)"
proof (induction k)
  case (Suc k)
  let ?a = "n div 256 ^ k mod 256" and ?b = "m div 256 ^ k mod 256"
  consider "?a < ?b" | "?a = ?b" | "?b < ?a" by linarith
  then show ?case
  proof cases
    case 1
    then have "js_less (hex2 ?a) (hex2 ?b)" by (intro hex2_mono) auto
    then show ?thesis unfolding low_bytes.simps by (rule js_less_append) (simp add: hex2_def)
  next
    case 2
    with Suc.prems have "n mod 256 ^ k < m mod 256 ^ k" unfolding low_bytes_split by simp
    with 2 Suc.IH show ?thesis by (simp add: js_less_prefix)
  next
    case 3
    then have "256 ^ k * (?b + 1) \<le> 256 ^ k * ?a" by (intro mult_le_mono2) simp
    moreover have "m mod 256 ^ k < 256 ^ k" by simp
    ultimately have "m mod 256 ^ Suc k < n mod 256 ^ Suc k"
      unfolding low_bytes_split by (simp only: distrib_left mult_1_right)
    with Suc.prems show ?thesis by simp
  qed
qed simp

lemma low_bytes_2: "low_bytes 2 v = hex2 (v div 256 mod 256) @ hex2 (v mod 256)"
  by (simp add: numeral_2_eq_2)

lemma low_bytes_4:
  "low_bytes 4 v = hex2 (v div 256 ^ 3 mod 256) @ hex2 (v div 256 ^ 2 mod 256) @ hex2 (v div 256 mod 256) @ hex2 (v mod 256)"
  using low_bytes.simps(2)[of 3 v] low_bytes.simps(2)[of 2 v] by (simp add: low_bytes_2)

lemma time_part_low_bytes: "time_part ms = low_bytes 4 (ms div 2 ^ 16) @ ''-'' @ low_bytes 2 ms"
  by (simp add: time_part_def low_bytes_4 low_bytes_2 div_mult2_eq[symmetric])

lemma low_bytes_cong: "n div 2 ^ 16 = m div 2 ^ 16 \<Longrightarrow> n < m \<Longrightarrow> js_less (low_bytes 2 n) (low_bytes 2 m)"
proof (rule low_bytes_mono)
  assume "n div 2 ^ 16 = m div 2 ^ 16" "n < m"
  then have "n mod 2 ^ 16 < m mod 2 ^ 16" by (metis div_mult_mod_eq nat_add_left_cancel_less)
  then show "n mod 256\<^sup>2 < m mod 256\<^sup>2" by simp
qed

lemma time_part_mono:
  assumes "n < m" and "m < 2 ^ 48"
  shows "js_less (time_part n) (time_part m)"
proof (cases "n div 2 ^ 16 = m div 2 ^ 16")
  case True
  with low_bytes_cong[OF True assms(1)] show ?thesis by (simp add: time_part_low_bytes js_less_prefix)
next
  case False
  then have "n div 2 ^ 16 < m div 2 ^ 16" using assms(1) by (simp add: div_le_mono le_neq_implies_less)
  moreover have "m div 2 ^ 16 < 256 ^ 4" using assms(2) by (simp add: less_mult_imp_div_less)
  ultimately have "js_less (low_bytes 4 (n div 2 ^ 16)) (low_bytes 4 (m div 2 ^ 16))"
    by (intro low_bytes_mono) simp
  then show ?thesis unfolding time_part_low_bytes by (rule js_less_append) simp
qed

text \<open>Identifiers sort by creation time: of two identifiers made at different milliseconds before the year
  10889 (48 bits), the earlier one is smaller as a string, whatever the random bytes; in particular they
  differ.\<close>

theorem uuidV7_time_ordered:
  assumes "length r1 = 16" and "length r2 = 16" and "ms1 < ms2" and "ms2 < 2 ^ 48"
  shows "js_less (uuidV7 r1 ms1) (uuidV7 r2 ms2)"
proof -
  obtain s1 s2 where "uuidV7 r1 ms1 = time_part ms1 @ s1" "uuidV7 r2 ms2 = time_part ms2 @ s2"
    using uuidV7_shape[OF assms(1), of ms1] uuidV7_shape[OF assms(2), of ms2] by metis
  then show ?thesis
    using js_less_append[OF time_part_mono[OF assms(3,4)]] by (simp add: time_part_low_bytes)
qed

section \<open>The properties at concrete inputs\<close>

theorem uuidV7_recognised_witness: "isUuidV7 (uuidV7 (replicate 16 0xFF) 1700000000000)"
  by (rule uuidV7_recognised) simp

theorem uuidV7_time_ordered_witness:
  "js_less (uuidV7 (replicate 16 0xFF) 1700000000000) (uuidV7 (replicate 16 0) 1700000000001)"
  by (rule uuidV7_time_ordered) simp_all

end
