(* ===== verification/Permissions.thy ===== *)
theory Permissions
  imports Js_Prelude
begin

text \<open>
  Permission rules: the database-rule resolver (\<open>src/core/permissions/db-rule-resolver.ts\<close>), the
  synthesised member role (\<open>member-role-rules.ts\<close>), the storage adapter
  (\<open>prisma-permission-storage.ts\<close>), the ability builder (\<open>casl-ability.ts\<close>), the subject checks and
  the route guard (\<open>ability-subject-access.ts\<close>, \<open>can.guard.ts\<close>), the permission report
  (\<open>permission-report.ts\<close>, \<open>permission-test.service.ts\<close>) and the API-key scopes
  (\<open>src/core/auth/api-keys/api-key-scope-planner.ts\<close>).

  An ability is the list of its rules.  \<open>ability.can\<close> belongs to CASL: it is an argument \<open>can\<close> of the
  definitions that ask it, and the locale \<open>casl\<close> states what the code relies on.
\<close>

section \<open>Data\<close>

datatype DbAction = CREATE | READ | UPDATE | DELETE | SHARE | MANAGE

datatype perm_error =
    UnsupportedOperator string
  | NoTenantInContext
  | ApiKeyScopeError string
  | Forbidden
  | TypeErr
  | DatabaseError

type_synonym json_object = "(string \<times> json) list"

record db_permission_row =
  dp_resource :: string
  dp_action :: DbAction
  dp_itemFilter :: "json_object option"
  dp_fields :: "string list"

record resolve_context =
  rc_userId :: string
  rc_now :: millis
  rc_tenantId :: "string option"

text \<open>\<open>T | T[]\<close>.\<close>

datatype 'a one_or_many = One 'a | Many "'a list"

fun normalizeList :: "'a one_or_many \<Rightarrow> 'a list" where
  "normalizeList (One x) = [x]"
| "normalizeList (Many xs) = xs"

record ability_rule =
  ar_action :: "string one_or_many"
  ar_subject :: "string one_or_many"
  ar_conditions :: "json_object option"
  ar_fields :: "string list option"
  ar_inverted :: bool

type_synonym ability = "ability_rule list"

text \<open>Reading a property of an object literal also finds the members of \<open>Object.prototype\<close>; their
  values are functions (one is an object), named here by the text they convert to.\<close>

definition object_prototype_members :: "string list" where
  "object_prototype_members =
     [''constructor'', ''hasOwnProperty'', ''isPrototypeOf'', ''propertyIsEnumerable'', ''toLocaleString'',
      ''toString'', ''valueOf'', ''__defineGetter__'', ''__defineSetter__'', ''__lookupGetter__'',
      ''__lookupSetter__'', ''__proto__'']"

definition inherited_text :: "string \<Rightarrow> string" where
  "inherited_text k =
     (if k = ''__proto__'' then ''[object Object]''
      else ''function '' @ (if k = ''constructor'' then ''Object'' else k) @ ''() { [native code] }'')"

definition js_lookup :: "(string \<times> 'v) list \<Rightarrow> (string \<Rightarrow> 'v) \<Rightarrow> string \<Rightarrow> 'v option" where
  "js_lookup table inherited k = (case map_get table k of Some v \<Rightarrow> Some v
     | None \<Rightarrow> if k \<in> set object_prototype_members then Some (inherited k) else None)"

section \<open>From database rows to rules\<close>

fun action_toLowerCase :: "DbAction \<Rightarrow> string" where
  "action_toLowerCase CREATE = ''create''"
| "action_toLowerCase READ = ''read''"
| "action_toLowerCase UPDATE = ''update''"
| "action_toLowerCase DELETE = ''delete''"
| "action_toLowerCase SHARE = ''share''"
| "action_toLowerCase MANAGE = ''manage''"

definition OPERATOR_MAP :: "(string \<times> string option) list" where
  "OPERATOR_MAP = [(''_eq'', None), (''_neq'', Some ''$ne''), (''_in'', Some ''$in''), (''_nin'', Some ''$nin''),
     (''_lt'', Some ''$lt''), (''_lte'', Some ''$lte''), (''_gt'', Some ''$gt''), (''_gte'', Some ''$gte'')]"

definition VAR_CURRENT_USER :: string where "VAR_CURRENT_USER = ''$CURRENT_USER''"

definition VAR_CURRENT_TENANT :: string where "VAR_CURRENT_TENANT = ''$CURRENT_TENANT''"

definition VAR_NOW :: string where "VAR_NOW = ''$NOW''"

fun substituteValue :: "resolve_context \<Rightarrow> json \<Rightarrow> perm_error + json" where
  "substituteValue ctx (JArr vs) = (case try_map (\<lambda>v. substituteValue ctx v) vs of
       Inl e \<Rightarrow> Inl e | Inr ws \<Rightarrow> Inr (JArr ws))"
| "substituteValue ctx (JStr s) =
     (if s = VAR_CURRENT_USER then Inr (JStr (rc_userId ctx))
      else if s = VAR_CURRENT_TENANT then
        (case rc_tenantId ctx of None \<Rightarrow> Inl NoTenantInContext | Some t \<Rightarrow> Inr (JStr t))
      else if s = VAR_NOW then Inr (JStr (toISOString (rc_now ctx)))
      else Inr (JStr s))"
| "substituteValue ctx v = Inr v"

text \<open>The loop over the operators of one field; \<open>out\<close> is the object built so far.\<close>

fun resolve_operators :: "resolve_context \<Rightarrow> json_object \<Rightarrow> json_object \<Rightarrow> perm_error + json_object" where
  "resolve_operators ctx [] out = Inr out"
| "resolve_operators ctx ((op, value) # entries) out =
     (case js_lookup OPERATOR_MAP (\<lambda>k. Some (inherited_text k)) op of
        None \<Rightarrow> Inl (UnsupportedOperator op)
      | Some mapped \<Rightarrow> (case substituteValue ctx value of Inl e \<Rightarrow> Inl e
          | Inr v \<Rightarrow> resolve_operators ctx entries (map_set (case mapped of None \<Rightarrow> op | Some m \<Rightarrow> m) v out)))"

fun resolveFieldFilter :: "resolve_context \<Rightarrow> json \<Rightarrow> perm_error + json" where
  "resolveFieldFilter ctx (JObj entries) =
     (if length entries = 1 \<and> fst (entries ! 0) = ''_eq'' then substituteValue ctx (snd (entries ! 0))
      else (case resolve_operators ctx entries [] of Inl e \<Rightarrow> Inl e | Inr out \<Rightarrow> Inr (JObj out)))"
| "resolveFieldFilter ctx raw = substituteValue ctx raw"

definition resolveFilter :: "resolve_context \<Rightarrow> json_object \<Rightarrow> perm_error + json_object" where
  "resolveFilter ctx flt = try_map (\<lambda>(field, raw). case resolveFieldFilter ctx raw of
     Inl e \<Rightarrow> Inl e | Inr v \<Rightarrow> Inr (field, v)) flt"

definition resolve_row :: "resolve_context \<Rightarrow> db_permission_row \<Rightarrow> perm_error + ability_rule" where
  "resolve_row ctx row =
     (case dp_itemFilter row of
        None \<Rightarrow> Inr \<lparr>ar_action = One (action_toLowerCase (dp_action row)), ar_subject = One (dp_resource row),
                    ar_conditions = None, ar_fields = Some (dp_fields row), ar_inverted = False\<rparr>
      | Some flt \<Rightarrow> (case resolveFilter ctx flt of Inl e \<Rightarrow> Inl e
          | Inr conditions \<Rightarrow>
              Inr \<lparr>ar_action = One (action_toLowerCase (dp_action row)), ar_subject = One (dp_resource row),
                   ar_conditions = Some conditions, ar_fields = Some (dp_fields row), ar_inverted = False\<rparr>))"

definition resolveDbRules :: "db_permission_row list \<Rightarrow> resolve_context \<Rightarrow> perm_error + ability_rule list" where
  "resolveDbRules rows ctx = try_map (resolve_row ctx) rows"

section \<open>The ability builder\<close>

text \<open>The builder keeps the rules in order and drops an empty field list.\<close>

definition build_rule :: "ability_rule \<Rightarrow> ability_rule" where
  "build_rule rule = rule\<lparr>ar_fields :=
     (case ar_fields rule of Some fs \<Rightarrow> if length fs > 0 then Some fs else None | None \<Rightarrow> None)\<rparr>"

definition buildAbility :: "ability_rule list \<Rightarrow> ability" where
  "buildAbility rules = map build_rule rules"

text \<open>What a check is about: a subject type, or a record of that type.\<close>

datatype target = SubjectType string | Instance string json_object

fun target_subject :: "target \<Rightarrow> string" where
  "target_subject (SubjectType s) = s"
| "target_subject (Instance s obj) = s"

type_synonym can_fn = "ability \<Rightarrow> string \<Rightarrow> target \<Rightarrow> bool"

section \<open>The default member role\<close>

definition DEFAULT_MEMBER_RESOURCES :: "string list" where
  "DEFAULT_MEMBER_RESOURCES = [''Example'', ''UserProfile'', ''File'', ''Folder'', ''Address'']"

definition DEFAULT_MEMBER_PER_USER_RESOURCES :: "string list" where
  "DEFAULT_MEMBER_PER_USER_RESOURCES = [''ApiKey'']"

definition member_tenant_rule :: "string \<Rightarrow> db_permission_row" where
  "member_tenant_rule resource = \<lparr>dp_resource = resource, dp_action = MANAGE,
     dp_itemFilter = Some [(''tenantId'', JObj [(''_eq'', JStr VAR_CURRENT_TENANT)])], dp_fields = []\<rparr>"

definition member_user_rule :: "string \<Rightarrow> db_permission_row" where
  "member_user_rule resource = \<lparr>dp_resource = resource, dp_action = MANAGE,
     dp_itemFilter = Some [(''userId'', JObj [(''_eq'', JStr VAR_CURRENT_USER)])], dp_fields = []\<rparr>"

definition buildMemberRoleRules :: "string list option \<Rightarrow> string list option \<Rightarrow> db_permission_row list" where
  "buildMemberRoleRules resources perUserResources =
     map member_tenant_rule (nullish resources DEFAULT_MEMBER_RESOURCES) @
     map member_user_rule (nullish perUserResources DEFAULT_MEMBER_PER_USER_RESOURCES)"

section \<open>The storage adapter\<close>

record member_row =
  mb_id :: string
  mb_userId :: string
  mb_organizationId :: string
  mb_role :: string
  mb_createdAt :: millis

record role_row =
  rl_id :: string
  rl_name :: string
  rl_tenantId :: string

record permission_row =
  pm_policyId :: string
  pm_resource :: string
  pm_action :: DbAction
  pm_itemFilter :: "json option"
  pm_fields :: "string list"

text \<open>The tables the adapter reads; \<open>db_role_policies\<close> pairs a role with a policy.\<close>

record perm_db =
  db_members :: "member_row list"
  db_roles :: "role_row list"
  db_role_policies :: "(string \<times> string) list"
  db_permissions :: "permission_row list"

record perm_storage_options =
  so_synthesizeMemberRules :: "bool option"
  so_memberResources :: "string list option"
  so_memberPerUserResources :: "string list option"
  so_extraTenantResources :: "string list list option"
  so_extraUserResources :: "string list list option"

definition toDbPermissionRow :: "permission_row \<Rightarrow> db_permission_row" where
  "toDbPermissionRow row = \<lparr>dp_resource = pm_resource row, dp_action = pm_action row,
     dp_itemFilter = (case pm_itemFilter row of Some (JObj es) \<Rightarrow> Some es | _ \<Rightarrow> None),
     dp_fields = pm_fields row\<rparr>"

fun dedupe_loop :: "'a list \<Rightarrow> 'a list \<Rightarrow> 'a list" where
  "dedupe_loop out [] = out"
| "dedupe_loop out (v # vs) = (if v \<in> set out then dedupe_loop out vs else dedupe_loop (out @ [v]) vs)"

definition dedupePreserveOrder :: "'a list \<Rightarrow> 'a list \<Rightarrow> 'a list" where
  "dedupePreserveOrder defaults extras = dedupe_loop [] (defaults @ extras)"

definition stableUniqueSort :: "string list list option \<Rightarrow> string list" where
  "stableUniqueSort source = (case source of None \<Rightarrow> []
     | Some provided \<Rightarrow> if length provided = 0 then [] else sort_by js_le (dedupe_loop [] (concat provided)))"

text \<open>The nested \<open>policy.roles.some.role\<close> filter of the permission query.\<close>

definition role_grants_policy :: "perm_db \<Rightarrow> string \<Rightarrow> string \<Rightarrow> string \<Rightarrow> bool" where
  "role_grants_policy db role tenantId policyId \<longleftrightarrow>
     (\<exists>r\<in>set (db_roles db). rl_name r = role \<and> rl_tenantId r = tenantId \<and>
        (rl_id r, policyId) \<in> set (db_role_policies db))"

definition findRulesForUser ::
  "perm_storage_options \<Rightarrow> perm_db \<Rightarrow> string \<Rightarrow> string \<Rightarrow> db_permission_row list" where
  "findRulesForUser opts db userId tenantId =
     (case find_first (\<lambda>m. mb_userId m = userId \<and> mb_organizationId m = tenantId) (db_members db) of
        None \<Rightarrow> []
      | Some member \<Rightarrow>
          let explicit = map toDbPermissionRow
                (filter (\<lambda>p. role_grants_policy db (mb_role member) tenantId (pm_policyId p)) (db_permissions db))
          in if \<not> nullish (so_synthesizeMemberRules opts) True then explicit
             else
               let tenantBase = nullish (so_memberResources opts) DEFAULT_MEMBER_RESOURCES;
                   userBase = nullish (so_memberPerUserResources opts) DEFAULT_MEMBER_PER_USER_RESOURCES
               in explicit @ buildMemberRoleRules
                    (Some (dedupePreserveOrder tenantBase (stableUniqueSort (so_extraTenantResources opts))))
                    (Some (dedupePreserveOrder userBase (stableUniqueSort (so_extraUserResources opts)))))"

section \<open>Subject checks and the route guard\<close>

definition HUB_CASL_SUBJECT :: string where "HUB_CASL_SUBJECT = ''Hub''"

definition canManageSubject :: "can_fn \<Rightarrow> ability \<Rightarrow> string \<Rightarrow> bool" where
  "canManageSubject can ability subject =
     (can ability ''manage'' (SubjectType subject) \<or>
      (can ability ''create'' (SubjectType subject) \<and> can ability ''read'' (SubjectType subject) \<and>
       can ability ''update'' (SubjectType subject) \<and> can ability ''delete'' (SubjectType subject)))"

definition grantsHubPortalAccess :: "can_fn \<Rightarrow> ability \<Rightarrow> bool" where
  "grantsHubPortalAccess can ability =
     (canManageSubject can ability ''all'' \<or> can ability ''read'' (SubjectType HUB_CASL_SUBJECT))"

definition abilityAllows :: "can_fn \<Rightarrow> ability \<Rightarrow> string \<Rightarrow> string \<Rightarrow> bool" where
  "abilityAllows can ability action subject =
     (if action = ''read'' \<and> subject = HUB_CASL_SUBJECT \<and> grantsHubPortalAccess can ability then True
      else if can ability action (SubjectType subject) then True
      else if action = ''manage'' \<and> canManageSubject can ability subject then True
      else if action = ''manage'' \<and> canManageSubject can ability ''all'' then True
      else False)"

text \<open>\<open>meta\<close> is the \<open>@Can()\<close> metadata of the handler or its class, if any.\<close>

definition canActivate ::
  "can_fn \<Rightarrow> (string \<times> string) option \<Rightarrow> ability option \<Rightarrow> perm_error + bool" where
  "canActivate can meta req_ability =
     (case meta of None \<Rightarrow> Inr True
      | Some (action, subject) \<Rightarrow> (case req_ability of None \<Rightarrow> Inl Forbidden
          | Some ability \<Rightarrow> if \<not> abilityAllows can ability action subject then Inl Forbidden else Inr True))"

section \<open>API-key scopes\<close>

definition API_KEY_SCOPE_ALLOWLIST :: "string list" where
  "API_KEY_SCOPE_ALLOWLIST =
     [''read:profile'', ''read:users'', ''write:users'', ''read:example'', ''write:example'', ''files:read'',
      ''files:write'', ''read:file'', ''write:file'', ''read:folder'', ''write:folder'', ''read:address'',
      ''write:address'', ''read:invoice'', ''write:invoice'']"

definition RESOURCE_TO_SUBJECT :: "(string \<times> string) list" where
  "RESOURCE_TO_SUBJECT =
     [(''profile'', ''UserProfile''), (''users'', ''User''), (''user'', ''User''), (''example'', ''Example''),
      (''examples'', ''Example''), (''files'', ''File''), (''file'', ''File''), (''folder'', ''Folder''),
      (''folders'', ''Folder''), (''address'', ''Address''), (''invoice'', ''Invoice'')]"

definition READ_ACTIONS :: "string list" where "READ_ACTIONS = [''read'']"

definition WRITE_ACTIONS :: "string list" where
  "WRITE_ACTIONS = [''write'', ''create'', ''update'', ''delete'', ''manage'']"

fun unknown_scope :: "string list \<Rightarrow> perm_error + unit" where
  "unknown_scope [] = Inr ()"
| "unknown_scope (scope # scopes) =
     (if scope \<notin> set API_KEY_SCOPE_ALLOWLIST then Inl (ApiKeyScopeError scope) else unknown_scope scopes)"

definition validateApiKeyScopes :: "string list \<Rightarrow> perm_error + unit" where
  "validateApiKeyScopes scopes =
     (if length scopes = 0 then Inl (ApiKeyScopeError []) else unknown_scope scopes)"

record parsed_scope =
  ps_action :: string
  ps_subject :: string

definition parse_scope_pair :: "string \<Rightarrow> string \<Rightarrow> parsed_scope option" where
  "parse_scope_pair verb resource = (case js_lookup RESOURCE_TO_SUBJECT inherited_text resource of
     None \<Rightarrow> None
   | Some subject \<Rightarrow> Some \<lparr>ps_action = (if verb \<in> set WRITE_ACTIONS then ''manage'' else ''read''),
                         ps_subject = subject\<rparr>)"

definition is_scope_verb :: "string \<Rightarrow> bool" where
  "is_scope_verb w \<longleftrightarrow> w \<in> set READ_ACTIONS \<or> w \<in> set WRITE_ACTIONS"

definition parseApiKeyScope :: "string \<Rightarrow> parsed_scope option" where
  "parseApiKeyScope scope =
     (case split_on CHR '':'' scope of
        [left, right] \<Rightarrow>
          if is_scope_verb left then parse_scope_pair left right
          else if is_scope_verb right then parse_scope_pair right left
          else None
      | _ \<Rightarrow> None)"

definition scope_rule :: "parsed_scope \<Rightarrow> ability_rule" where
  "scope_rule parsed = \<lparr>ar_action = One (ps_action parsed), ar_subject = One (ps_subject parsed),
     ar_conditions = None, ar_fields = None, ar_inverted = False\<rparr>"

fun scopes_loop :: "string list \<Rightarrow> ability_rule list \<Rightarrow> string list \<Rightarrow> ability_rule list" where
  "scopes_loop seen rules [] = rules"
| "scopes_loop seen rules (scope # scopes) =
     (case parseApiKeyScope scope of
        None \<Rightarrow> scopes_loop seen rules scopes
      | Some parsed \<Rightarrow>
          let key = ps_action parsed @ '':'' @ ps_subject parsed
          in if key \<in> set seen then scopes_loop seen rules scopes
             else scopes_loop (key # seen) (rules @ [scope_rule parsed]) scopes)"

definition scopesToAbilityRules :: "string list \<Rightarrow> ability_rule list" where
  "scopesToAbilityRules scopes = scopes_loop [] [] scopes"

definition actionMatchesRead :: "string \<Rightarrow> bool" where
  "actionMatchesRead action =
     (let lower = toLowerCase action in lower = ''read'' \<or> lower = ''manage'')"

definition kept_fields :: "ability_rule \<Rightarrow> string list option" where
  "kept_fields raw = (case ar_fields raw of Some fs \<Rightarrow> if length fs > 0 then Some fs else None | None \<Rightarrow> None)"

text \<open>The inner loop over the subjects of a rule stops at the first rule it pushes.\<close>

fun narrow_subjects :: "can_fn \<Rightarrow> ability \<Rightarrow> ability_rule \<Rightarrow> string \<Rightarrow> string list \<Rightarrow> ability_rule list" where
  "narrow_subjects can scopeAbility raw action [] = []"
| "narrow_subjects can scopeAbility raw action (subject # subjects) =
     (if can scopeAbility ''manage'' (SubjectType subject) then
        [\<lparr>ar_action = ar_action raw, ar_subject = ar_subject raw, ar_conditions = ar_conditions raw,
          ar_fields = kept_fields raw, ar_inverted = False\<rparr>]
      else if can scopeAbility ''read'' (SubjectType subject) \<and> actionMatchesRead action then
        [\<lparr>ar_action = One ''read'', ar_subject = One subject, ar_conditions = ar_conditions raw,
          ar_fields = kept_fields raw, ar_inverted = False\<rparr>]
      else narrow_subjects can scopeAbility raw action subjects)"

definition narrow_rule :: "can_fn \<Rightarrow> ability \<Rightarrow> ability_rule \<Rightarrow> ability_rule list" where
  "narrow_rule can scopeAbility raw =
     (if ar_inverted raw then [raw]
      else concat (map (\<lambda>action. narrow_subjects can scopeAbility raw action (normalizeList (ar_subject raw)))
                       (normalizeList (ar_action raw))))"

definition restrictAbilityByScopes :: "can_fn \<Rightarrow> ability \<Rightarrow> string list \<Rightarrow> ability" where
  "restrictAbilityByScopes can full scopes =
     (if length scopes = 0 then buildAbility []
      else let scopeAbility = buildAbility (scopesToAbilityRules scopes)
           in buildAbility (concat (map (narrow_rule can scopeAbility) full)))"

section \<open>The permission report\<close>

record resource_report =
  rr_actions :: "string list"
  rr_isSuperset :: bool

type_synonym resource_reports = "(string \<times> resource_report) list"

definition CRUD_ACTIONS :: "string list" where
  "CRUD_ACTIONS = [''create'', ''read'', ''update'', ''delete'']"

text \<open>A subject named like a member of \<open>Object.prototype\<close> reads that member instead of an entry, and
  \<open>entry.actions.includes\<close> fails on it.\<close>

fun buildPermissionReport :: "resource_reports \<Rightarrow> (string \<times> string) list \<Rightarrow> perm_error + resource_reports" where
  "buildPermissionReport byResource [] = Inr byResource"
| "buildPermissionReport byResource ((action, subject) # rules) =
     (case js_lookup (map (\<lambda>(k, v). (k, Some v)) byResource) (\<lambda>_. None) subject of
        Some None \<Rightarrow> Inl TypeErr
      | found \<Rightarrow>
          let entry = (case found of Some (Some e) \<Rightarrow> e | _ \<Rightarrow> \<lparr>rr_actions = [], rr_isSuperset = False\<rparr>);
              entry = (if action = ''manage'' then entry\<lparr>rr_isSuperset := True\<rparr> else entry);
              entry = (if action \<in> set (rr_actions entry) then entry
                       else entry\<lparr>rr_actions := rr_actions entry @ [action]\<rparr>)
          in buildPermissionReport (map_set subject entry byResource) rules)"

definition promote_entry :: "resource_report \<Rightarrow> resource_report" where
  "promote_entry entry =
     (if rr_isSuperset entry then entry
      else if list_all (\<lambda>verb. verb \<in> set (rr_actions entry)) CRUD_ACTIONS then entry\<lparr>rr_isSuperset := True\<rparr>
      else entry)"

definition promoteCrudCoverageToSuperset :: "resource_reports \<Rightarrow> resource_reports" where
  "promoteCrudCoverageToSuperset byResource = map (\<lambda>(k, e). (k, promote_entry e)) byResource"

definition flat_rules :: "ability \<Rightarrow> (string \<times> string) list" where
  "flat_rules ability = concat (map (\<lambda>raw. concat (map (\<lambda>action. map (\<lambda>subject. (action, subject))
     (normalizeList (ar_subject raw))) (normalizeList (ar_action raw)))) ability)"

definition getEffectivePermissions :: "ability \<Rightarrow> perm_error + resource_reports" where
  "getEffectivePermissions ability = (case buildPermissionReport [] (flat_rules ability) of
     Inl e \<Rightarrow> Inl e | Inr byResource \<Rightarrow> Inr (promoteCrudCoverageToSuperset byResource))"

end
