(* ===== verification/Ability_Rules.thy ===== *)
theory Ability_Rules
  imports Permissions
begin

text \<open>
  What the permission rules guarantee: the contract the code has with CASL (locale \<open>casl\<close>), the
  intersection of a user's rules with the scopes of an API key, the confinement of the default member
  role, and the resolver's substitution of variables.
\<close>

section \<open>The contract with CASL\<close>

text \<open>A rule covers a check when it names the action (or \<open>manage\<close>), the subject (or \<open>all\<close>), and its
  conditions hold of the record; a check on a bare subject type ignores conditions.\<close>

definition covers :: "(json_object \<Rightarrow> json_object \<Rightarrow> bool) \<Rightarrow> ability_rule \<Rightarrow> string \<Rightarrow> target \<Rightarrow> bool" where
  "covers matches r a t \<longleftrightarrow>
     (a \<in> set (normalizeList (ar_action r)) \<or> ''manage'' \<in> set (normalizeList (ar_action r))) \<and>
     (target_subject t \<in> set (normalizeList (ar_subject r)) \<or> ''all'' \<in> set (normalizeList (ar_subject r))) \<and>
     (case t of SubjectType s \<Rightarrow> True
      | Instance s obj \<Rightarrow> (case ar_conditions r of None \<Rightarrow> True | Some c \<Rightarrow> matches c obj))"

definition granting :: "ability_rule list \<Rightarrow> bool" where
  "granting rs = list_all (\<lambda>r. \<not> ar_inverted r) rs"

definition field_is :: "json_object \<Rightarrow> string \<Rightarrow> string \<Rightarrow> bool" where
  "field_is obj k v = (case map_get obj k of Some (JStr w) \<Rightarrow> w = v | Some (JArr ws) \<Rightarrow> JStr v \<in> set ws | _ \<Rightarrow> False)"

text \<open>Without inverted rules \<open>can\<close> is the union of the rules; a condition \<open>{k: "v"}\<close> is field equality,
  or membership where the field is an array.\<close>

locale casl =
  fixes can :: can_fn
    and matches :: "json_object \<Rightarrow> json_object \<Rightarrow> bool"
  assumes can_iff: "granting rs \<Longrightarrow> can rs a t \<longleftrightarrow> (\<exists>r\<in>set rs. covers matches r a t)"
    and matches_eq: "matches [(k, JStr v)] obj \<longleftrightarrow> field_is obj k v"
begin

lemma can_empty: "\<not> can [] a t"
  using can_iff[of "[]"] by (simp add: granting_def)

lemma granting_build: "granting (buildAbility rs) = granting rs"
  by (induction rs) (auto simp: granting_def buildAbility_def build_rule_def)

lemma covers_build: "covers matches (build_rule r) a t = covers matches r a t"
  by (simp add: covers_def build_rule_def split: target.splits)

lemma can_build: "granting rs \<Longrightarrow> can (buildAbility rs) a t \<longleftrightarrow> (\<exists>r\<in>set rs. covers matches r a t)"
  using can_iff[of "buildAbility rs" a t] granting_build[of rs]
  by (simp add: buildAbility_def covers_build)

end

text \<open>A reference matcher and evaluator: the last rule that covers the check decides.\<close>

fun reference_value :: "json option \<Rightarrow> json \<Rightarrow> bool" where
  "reference_value found (JStr v) = (case found of Some (JStr w) \<Rightarrow> w = v | Some (JArr ws) \<Rightarrow> JStr v \<in> set ws | _ \<Rightarrow> False)"
| "reference_value found (JObj [(op, JArr vs)]) =
     (if op = ''$in'' then (case found of Some w \<Rightarrow> w \<in> set vs | None \<Rightarrow> False)
      else if op = ''$nin'' then (case found of Some w \<Rightarrow> w \<notin> set vs | None \<Rightarrow> True) else False)"
| "reference_value found (JObj [(op, v)]) =
     (if op = ''$ne'' then found \<noteq> Some v
      else (case (found, v) of (Some (JNum m), JNum n) \<Rightarrow>
          (op = ''$lt'' \<and> m < n) \<or> (op = ''$lte'' \<and> m \<le> n) \<or> (op = ''$gt'' \<and> m > n) \<or> (op = ''$gte'' \<and> m \<ge> n)
        | _ \<Rightarrow> False))"
| "reference_value found v = (found = Some v)"

definition reference_match :: "json_object \<Rightarrow> json_object \<Rightarrow> bool" where
  "reference_match conditions obj = list_all (\<lambda>(k, v). reference_value (map_get obj k) v) conditions"

definition reference_can :: can_fn where
  "reference_can rs a t = (case find_first (\<lambda>r. covers reference_match r a t) (rev rs) of
     None \<Rightarrow> False | Some r \<Rightarrow> \<not> ar_inverted r)"

interpretation reference: casl reference_can reference_match
proof unfold_locales
  fix rs a t
  assume g: "granting rs"
  show "reference_can rs a t \<longleftrightarrow> (\<exists>r\<in>set rs. covers reference_match r a t)"
  proof (cases "find_first (\<lambda>r. covers reference_match r a t) (rev rs)")
    case None
    then have "\<forall>r\<in>set rs. \<not> covers reference_match r a t" by (simp add: find_first_None)
    with None show ?thesis by (simp add: reference_can_def)
  next
    case (Some r)
    with find_first_Some[OF this] g show ?thesis
      by (auto simp: reference_can_def granting_def list_all_iff)
  qed
next
  fix k v obj
  show "reference_match [(k, JStr v)] obj \<longleftrightarrow> field_is obj k v"
    by (simp add: reference_match_def field_is_def split: option.splits json.splits)
qed

section \<open>Rules that come from the database\<close>

definition db_shaped :: "ability_rule \<Rightarrow> bool" where
  "db_shaped r \<longleftrightarrow> (\<exists>act s. ar_action r = One (action_toLowerCase act) \<and> ar_subject r = One s \<and> \<not> ar_inverted r)"

lemma resolve_row_shape:
  assumes "resolve_row ctx row = Inr r"
  shows "ar_action r = One (action_toLowerCase (dp_action row))" "ar_subject r = One (dp_resource row)"
    "\<not> ar_inverted r" "ar_fields r = Some (dp_fields row)"
  using assms by (auto simp: resolve_row_def split: option.splits sum.splits)

lemma resolved_rule_row:
  "resolveDbRules rows ctx = Inr rules \<Longrightarrow> r \<in> set rules \<Longrightarrow> \<exists>row\<in>set rows. resolve_row ctx row = Inr r"
  unfolding resolveDbRules_def by (rule try_map_member)

lemma resolved_shaped:
  assumes "resolveDbRules rows ctx = Inr rules"
  shows "list_all db_shaped rules"
  using resolved_rule_row[OF assms] resolve_row_shape
  unfolding list_all_iff db_shaped_def by metis

lemma shaped_granting: "list_all db_shaped rules \<Longrightarrow> granting rules"
  by (auto simp: granting_def db_shaped_def list_all_iff)

lemmas resolved_granting = shaped_granting[OF resolved_shaped]

section \<open>API-key scopes intersect the user's rules\<close>

definition scope_allows :: "string list \<Rightarrow> string \<Rightarrow> string \<Rightarrow> bool" where
  "scope_allows scopes a s \<longleftrightarrow> (\<exists>scope\<in>set scopes. case parseApiKeyScope scope of None \<Rightarrow> False
     | Some p \<Rightarrow> ps_subject p = s \<and> (ps_action p = ''manage'' \<or> ps_action p = a))"

definition scope_key :: "parsed_scope \<Rightarrow> string" where
  "scope_key p = ps_action p @ '':'' @ ps_subject p"

lemma parsed_scope_facts:
  assumes "parseApiKeyScope scope = Some p"
  shows "ps_action p \<in> {''read'', ''manage''}" "ps_subject p \<noteq> ''all''"
proof -
  from assms obtain verb res where pair: "parse_scope_pair verb res = Some p"
    by (auto simp: parseApiKeyScope_def split: list.splits if_splits)
  then show "ps_action p \<in> {''read'', ''manage''}"
    by (auto simp: parse_scope_pair_def split: option.splits)
  from pair have "js_lookup RESOURCE_TO_SUBJECT inherited_text res = Some (ps_subject p)"
    by (auto simp: parse_scope_pair_def split: option.splits)
  then show "ps_subject p \<noteq> ''all''"
    by (auto simp: js_lookup_def RESOURCE_TO_SUBJECT_def inherited_text_def split: option.splits if_splits)
qed

lemma scope_key_inj:
  assumes "parseApiKeyScope s1 = Some p" "parseApiKeyScope s2 = Some q" "scope_key p = scope_key q"
  shows "p = q"
  using parsed_scope_facts(1)[OF assms(1)] parsed_scope_facts(1)[OF assms(2)] assms(3)
  by (auto simp: scope_key_def)

lemma scopes_loop_set:
  assumes "set seen = scope_key ` ps" "\<And>p. p \<in> ps \<Longrightarrow> \<exists>s. parseApiKeyScope s = Some p" "set rules = scope_rule ` ps"
  shows "set (scopes_loop seen rules scopes) = scope_rule ` (ps \<union> {p. \<exists>s\<in>set scopes. parseApiKeyScope s = Some p})"
  using assms
proof (induction scopes arbitrary: seen rules ps)
  case (Cons scope scopes)
  show ?case
  proof (cases "parseApiKeyScope scope")
    case None
    then show ?thesis using Cons.IH[OF Cons.prems] by simp
  next
    case (Some p)
    have split: "{q. \<exists>s\<in>set (scope # scopes). parseApiKeyScope s = Some q} =
        insert p {q. \<exists>s\<in>set scopes. parseApiKeyScope s = Some q}"
      using Some by auto
    show ?thesis
    proof (cases "scope_key p \<in> set seen")
      case True
      then obtain q where q: "q \<in> ps" "scope_key p = scope_key q" using Cons.prems(1) by auto
      then obtain s where "parseApiKeyScope s = Some q" using Cons.prems(2) by blast
      with Some q scope_key_inj have "p \<in> ps" by metis
      with True Some Cons.IH[OF Cons.prems] split show ?thesis
        by (simp add: scope_key_def insert_absorb)
    next
      case False
      have "set (scopes_loop (scope_key p # seen) (rules @ [scope_rule p]) scopes) =
          scope_rule ` (insert p ps \<union> {q. \<exists>s\<in>set scopes. parseApiKeyScope s = Some q})"
        using Cons.prems Some by (intro Cons.IH) auto
      with False Some split show ?thesis by (simp add: scope_key_def Let_def)
    qed
  qed
qed simp

lemma set_scopesToAbilityRules:
  "set (scopesToAbilityRules scopes) = scope_rule ` {p. \<exists>s\<in>set scopes. parseApiKeyScope s = Some p}"
  unfolding scopesToAbilityRules_def by (subst scopes_loop_set[where ps = "{}"]) auto

context casl
begin

lemma scope_can: "can (buildAbility (scopesToAbilityRules scopes)) a t \<longleftrightarrow> scope_allows scopes a (target_subject t)"
proof -
  have g: "granting (scopesToAbilityRules scopes)"
    by (auto simp: granting_def list_all_iff set_scopesToAbilityRules scope_rule_def)
  have "can (buildAbility (scopesToAbilityRules scopes)) a t \<longleftrightarrow>
      (\<exists>p. (\<exists>s\<in>set scopes. parseApiKeyScope s = Some p) \<and> covers matches (scope_rule p) a t)"
    by (subst can_build[OF g]) (auto simp: set_scopesToAbilityRules)
  also have "\<dots> \<longleftrightarrow> scope_allows scopes a (target_subject t)"
    using parsed_scope_facts
    by (fastforce simp: scope_allows_def covers_def scope_rule_def split: option.splits target.splits)
  finally show ?thesis .
qed

lemma narrow_shaped:
  assumes "db_shaped r"
  shows "(\<exists>r'\<in>set (narrow_rule can (buildAbility (scopesToAbilityRules scopes)) r). covers matches r' a t) \<longleftrightarrow>
     covers matches r a t \<and> ar_subject r = One (target_subject t) \<and> scope_allows scopes a (target_subject t)"
    (is "?L \<longleftrightarrow> ?R")
proof -
  obtain act s where r: "ar_action r = One (action_toLowerCase act)" "ar_subject r = One s" "\<not> ar_inverted r"
    using assms by (auto simp: db_shaped_def)
  have sc: "can (buildAbility (scopesToAbilityRules scopes)) b (SubjectType u) \<longleftrightarrow> scope_allows scopes b u" for b u
    by (simp add: scope_can)
  have not_all: "\<not> scope_allows scopes b ''all''" for b
    using parsed_scope_facts(2) by (fastforce simp: scope_allows_def split: option.splits)
  have wild: "scope_allows scopes ''manage'' u \<Longrightarrow> scope_allows scopes b u" for b u
    by (fastforce simp: scope_allows_def split: option.splits)
  have only_read: "scope_allows scopes b u \<Longrightarrow> \<not> scope_allows scopes ''manage'' u \<Longrightarrow> b = ''read''" for b u
    using parsed_scope_facts(1) by (fastforce simp: scope_allows_def split: option.splits)
  have rd: "actionMatchesRead (action_toLowerCase act) \<longleftrightarrow> action_toLowerCase act \<in> {''read'', ''manage''}"
    by (cases act) (simp_all add: actionMatchesRead_def js_simps)
  show ?thesis
    using not_all[of a] not_all[of "''manage''"] not_all[of "''read''"] wild[of s a] only_read[of a s] rd
    by (cases "scope_allows scopes ''manage'' s"; cases "scope_allows scopes ''read'' s \<and> actionMatchesRead (action_toLowerCase act)")
       (auto simp: narrow_rule_def r sc covers_def split: target.splits)
qed

lemma restrict_granting:
  "list_all db_shaped full \<Longrightarrow> granting (concat (map (narrow_rule can sa) full))"
  by (induction full) (auto simp: granting_def narrow_rule_def db_shaped_def)

lemma restrict_can:
  assumes "list_all db_shaped full" "scopes \<noteq> []"
  shows "can (restrictAbilityByScopes can full scopes) a t \<longleftrightarrow>
     (\<exists>r\<in>set full. covers matches r a t \<and> ar_subject r = One (target_subject t)) \<and>
     scope_allows scopes a (target_subject t)"
proof -
  let ?sa = "buildAbility (scopesToAbilityRules scopes)"
  have "can (restrictAbilityByScopes can full scopes) a t \<longleftrightarrow>
      (\<exists>r\<in>set full. \<exists>r'\<in>set (narrow_rule can ?sa r). covers matches r' a t)"
    using assms(2) can_build[OF restrict_granting[OF assms(1)]]
    by (auto simp: restrictAbilityByScopes_def)
  with assms(1) narrow_shaped show ?thesis by (auto simp: list_all_iff)
qed

end

text \<open>Building keeps the shape of the rules.\<close>

lemma shaped_build: "list_all db_shaped (buildAbility rs) = list_all db_shaped rs"
  by (induction rs) (auto simp: buildAbility_def build_rule_def db_shaped_def)

lemma covers_build_rule: "covers matches (build_rule r) a t = covers matches r a t"
  by (simp add: covers_def build_rule_def split: target.splits)

text \<open>C3: an API key with scopes never does more than its owner and never more than its scopes: a check on the restricted
  ability succeeds only when the owner's ability allows it and some scope of the key names that subject with that
  action (or a write verb); and it does succeed then whenever no rule of the owner is about the wildcard subject
  \<open>all\<close>.  It holds for checks on a subject type and on a single record alike.\<close>

theorem api_key_is_intersection:
  assumes "casl can matches" "resolveDbRules rows ctx = Inr rules" "scopes \<noteq> []"
  shows "(can (restrictAbilityByScopes can (buildAbility rules) scopes) a t \<longrightarrow>
            can (buildAbility rules) a t \<and> scope_allows scopes a (target_subject t)) \<and>
         ((\<forall>row\<in>set rows. dp_resource row \<noteq> ''all'') \<longrightarrow>
            can (buildAbility rules) a t \<and> scope_allows scopes a (target_subject t) \<longrightarrow>
            can (restrictAbilityByScopes can (buildAbility rules) scopes) a t)"
proof -
  note shaped = resolved_shaped[OF assms(2)]
  note built = casl.can_build[OF assms(1) shaped_granting[OF shaped]]
  have r: "can (restrictAbilityByScopes can (buildAbility rules) scopes) a t \<longleftrightarrow>
      (\<exists>r\<in>set rules. covers matches r a t \<and> ar_subject r = One (target_subject t)) \<and>
      scope_allows scopes a (target_subject t)"
    using casl.restrict_can[OF assms(1), of "buildAbility rules" scopes a t] shaped assms(3)
    by (auto simp: shaped_build) (auto simp: buildAbility_def build_rule_def covers_def split: target.splits)
  have "ar_subject r = One (target_subject t)"
    if "\<forall>row\<in>set rows. dp_resource row \<noteq> ''all''" "r \<in> set rules" "covers matches r a t" for r
    using resolved_rule_row[OF assms(2) that(2)] that resolve_row_shape(2) by (fastforce simp: covers_def)
  with r built show ?thesis by blast
qed

section \<open>The default member role is confined\<close>

lemma eq_filter_resolves:
  "resolveFieldFilter ctx (JObj [(''_eq'', v)]) = substituteValue ctx v"
  by simp

lemma member_rule_conditions:
  "resolve_row \<lparr>rc_userId = u, rc_now = n, rc_tenantId = Some t\<rparr> (member_tenant_rule s) = Inr r \<Longrightarrow>
     ar_conditions r = Some [(''tenantId'', JStr t)]"
  "resolve_row \<lparr>rc_userId = u, rc_now = n, rc_tenantId = Some t\<rparr> (member_user_rule s) = Inr r \<Longrightarrow>
     ar_conditions r = Some [(''userId'', JStr u)]"
  by (auto simp: resolve_row_def resolveFilter_def member_tenant_rule_def member_user_rule_def
      VAR_CURRENT_TENANT_def VAR_CURRENT_USER_def)

definition explicit_grant :: "perm_db \<Rightarrow> member_row \<Rightarrow> string \<Rightarrow> string \<Rightarrow> string \<Rightarrow> bool" where
  "explicit_grant db m t a s \<longleftrightarrow> (\<exists>p\<in>set (db_permissions db).
     role_grants_policy db (mb_role m) t (pm_policyId p) \<and> pm_resource p \<in> {s, ''all''} \<and>
     action_toLowerCase (pm_action p) \<in> {a, ''manage''})"

definition is_member :: "perm_db \<Rightarrow> string \<Rightarrow> string \<Rightarrow> bool" where
  "is_member db u t \<longleftrightarrow> (\<exists>m\<in>set (db_members db). mb_userId m = u \<and> mb_organizationId m = t)"

lemma rules_need_membership: "findRulesForUser opts db u t \<noteq> [] \<Longrightarrow> is_member db u t"
  using find_first_Some unfolding findRulesForUser_def is_member_def
  by (fastforce split: option.splits)

lemma rule_row_cases:
  assumes "row \<in> set (findRulesForUser opts db u t)"
  obtains (explicit) m p where "m \<in> set (db_members db)" "mb_userId m = u" "mb_organizationId m = t"
      "p \<in> set (db_permissions db)" "role_grants_policy db (mb_role m) t (pm_policyId p)" "row = toDbPermissionRow p"
    | (tenant) s where "row = member_tenant_rule s"
    | (user) s where "row = member_user_rule s"
proof (cases "find_first (\<lambda>m. mb_userId m = u \<and> mb_organizationId m = t) (db_members db)")
  case None
  with assms show ?thesis by (simp add: findRulesForUser_def)
next
  case (Some m)
  from assms Some have "row \<in> toDbPermissionRow ` {p \<in> set (db_permissions db). role_grants_policy db (mb_role m) t (pm_policyId p)}
      \<or> row \<in> range member_tenant_rule \<or> row \<in> range member_user_rule"
    by (auto simp: findRulesForUser_def buildMemberRoleRules_def Let_def split: if_splits)
  with find_first_Some[OF Some] explicit tenant user show ?thesis by blast
qed

lemma confined_access:
  assumes "casl can matches"
    and "resolveDbRules (findRulesForUser opts db u t) \<lparr>rc_userId = u, rc_now = n, rc_tenantId = Some t\<rparr> = Inr rules"
    and "can (buildAbility rules) a (Instance s obj)"
  shows "is_member db u t \<and>
    (field_is obj ''tenantId'' t \<or> field_is obj ''userId'' u \<or>
     (\<exists>m\<in>set (db_members db). mb_userId m = u \<and> mb_organizationId m = t \<and> explicit_grant db m t a s))"
proof -
  let ?ctx = "\<lparr>rc_userId = u, rc_now = n, rc_tenantId = Some t\<rparr>"
  obtain r where r: "r \<in> set rules" "covers matches r a (Instance s obj)"
    using casl.can_build[OF assms(1) resolved_granting[OF assms(2)]] assms(3) by blast
  obtain row where row: "row \<in> set (findRulesForUser opts db u t)" "resolve_row ?ctx row = Inr r"
    using resolved_rule_row[OF assms(2) r(1)] by blast
  have "is_member db u t" by (rule rules_need_membership[of opts]) (use row(1) in auto)
  moreover from row(1) have "field_is obj ''tenantId'' t \<or> field_is obj ''userId'' u \<or>
     (\<exists>m\<in>set (db_members db). mb_userId m = u \<and> mb_organizationId m = t \<and> explicit_grant db m t a s)"
  proof (cases rule: rule_row_cases)
    case (explicit m p)
    from r(2) resolve_row_shape[OF row(2)] have "dp_resource row \<in> {s, ''all''}"
      "action_toLowerCase (dp_action row) \<in> {a, ''manage''}"
      by (auto simp: covers_def)
    with explicit show ?thesis unfolding explicit_grant_def by (auto simp: toDbPermissionRow_def)
  next
    case (tenant w)
    with member_rule_conditions(1) row(2) r(2) casl.matches_eq[OF assms(1)] show ?thesis
      by (auto simp: covers_def)
  next
    case (user w)
    with member_rule_conditions(2) row(2) r(2) casl.matches_eq[OF assms(1)] show ?thesis
      by (auto simp: covers_def)
  qed
  ultimately show ?thesis by blast
qed

text \<open>C4: what an ability built for a user in a tenant allows on a record is either an explicit grant of the user's
  role in that very tenant, or a record of that tenant, or a record of that user; and in every case the user has a
  membership row in the tenant.\<close>

theorem access_is_confined:
  assumes "casl can matches"
    and "resolveDbRules (findRulesForUser opts db u t) \<lparr>rc_userId = u, rc_now = n, rc_tenantId = Some t\<rparr> = Inr rules"
    and "can (buildAbility rules) a (Instance s obj)"
  shows "is_member db u t \<and>
    (field_is obj ''tenantId'' t \<or> field_is obj ''userId'' u \<or>
     (\<exists>m\<in>set (db_members db). mb_userId m = u \<and> mb_organizationId m = t \<and> explicit_grant db m t a s))"
  by (rule confined_access [OF assms])

section \<open>The resolver substitutes every variable\<close>

definition is_var :: "string \<Rightarrow> bool" where
  "is_var s \<longleftrightarrow> s \<in> {VAR_CURRENT_USER, VAR_CURRENT_TENANT, VAR_NOW}"

fun flat_value :: "json \<Rightarrow> bool" where
  "flat_value (JArr vs) = list_all flat_value vs"
| "flat_value (JObj es) = False"
| "flat_value v = True"

fun mentions_var :: "json \<Rightarrow> bool" where
  "mentions_var (JArr vs) = list_ex mentions_var vs"
| "mentions_var (JObj es) = list_ex (\<lambda>(k, v). mentions_var v) es"
| "mentions_var (JStr s) = is_var s"
| "mentions_var v = False"

text \<open>The filters the resolver is written for: a field is compared with a scalar or a list, directly or
  through operators of the vocabulary.\<close>

fun flat_field :: "json \<Rightarrow> bool" where
  "flat_field (JObj ops) = list_all (\<lambda>(op, v). op \<in> fst ` set OPERATOR_MAP \<and> flat_value v) ops"
| "flat_field v = flat_value v"

definition flat_row :: "db_permission_row \<Rightarrow> bool" where
  "flat_row row = (case dp_itemFilter row of None \<Rightarrow> True | Some flt \<Rightarrow> list_all (\<lambda>(f, raw). flat_field raw) flt)"

definition concrete_ctx :: "resolve_context \<Rightarrow> bool" where
  "concrete_ctx ctx \<longleftrightarrow> \<not> is_var (rc_userId ctx) \<and> (case rc_tenantId ctx of None \<Rightarrow> False | Some t \<Rightarrow> \<not> is_var t)"

lemma digit_not_dollar: "is_digit c \<Longrightarrow> c \<noteq> CHR ''$''"
  by (auto simp: is_digit_def)

lemma pad_int_hd: "pad_int w n = c # cs \<Longrightarrow> c \<noteq> CHR ''$''"
  unfolding pad_int_def Let_def using show_nat_digits[of "nat n"] digit_not_dollar
  by (cases "w - length (show_nat (nat n))") auto

lemma pad_int_ne: "pad_int w n \<noteq> []"
  by (simp add: pad_int_def Let_def)

lemma iso_not_var: "\<not> is_var (toISOString ms)"
proof -
  obtain y m d where c: "civil_from_days (ms div 86400000) = (y, m, d)" by (cases "civil_from_days (ms div 86400000)")
  obtain p ps q qs where "pad_int 4 y = p # ps" "p \<noteq> CHR ''$''"
    using pad_int_ne[of 4 y] pad_int_hd[of 4 y] by (cases "pad_int 4 y") auto
  then have "hd (toISOString ms) \<noteq> CHR ''$''"
    by (simp add: toISOString_def c Let_def)
  moreover have "is_var s \<Longrightarrow> hd s = CHR ''$''" for s
    by (auto simp: is_var_def VAR_CURRENT_USER_def VAR_CURRENT_TENANT_def VAR_NOW_def)
  ultimately show ?thesis by blast
qed

lemma substitute_flat:
  assumes "concrete_ctx ctx"
  shows "flat_value v \<Longrightarrow> \<exists>w. substituteValue ctx v = Inr w \<and> \<not> mentions_var w"
proof (induction v)
  case (JArr vs)
  then have each: "\<exists>w. substituteValue ctx v = Inr w \<and> \<not> mentions_var w" if "v \<in> set vs" for v
    using that by (auto simp: list_all_iff)
  then obtain ws where ws: "try_map (substituteValue ctx) vs = Inr ws"
    using try_map_Inl[of "substituteValue ctx" vs]
    by (cases "try_map (substituteValue ctx) vs") fastforce+
  have "\<not> mentions_var w" if "w \<in> set ws" for w
    using try_map_member[OF ws that] each by fastforce
  with ws show ?case by (auto simp: list_ex_iff)
next
  case (JStr s)
  then show ?case using assms iso_not_var
    by (auto simp: concrete_ctx_def is_var_def split: option.splits)
qed auto

lemma lookup_operator: "op \<in> fst ` set OPERATOR_MAP \<Longrightarrow> \<exists>m. js_lookup OPERATOR_MAP inh op = Some m"
  by (auto simp: js_lookup_def OPERATOR_MAP_def)

lemma mentions_map_set: "list_ex (\<lambda>(k, v). mentions_var v) (map_set k v m) \<Longrightarrow>
   mentions_var v \<or> list_ex (\<lambda>(k, v). mentions_var v) m"
  by (induction k v m rule: map_set.induct) (auto split: if_splits)

lemma operators_flat:
  assumes "concrete_ctx ctx" "list_all (\<lambda>(op, v). op \<in> fst ` set OPERATOR_MAP \<and> flat_value v) ops"
    "\<not> list_ex (\<lambda>(k, v). mentions_var v) out"
  shows "\<exists>res. resolve_operators ctx ops out = Inr res \<and> \<not> list_ex (\<lambda>(k, v). mentions_var v) res"
  using assms(2,3)
proof (induction ops arbitrary: out)
  case (Cons e ops)
  obtain op v where e: "e = (op, v)" by fastforce
  obtain m where m: "js_lookup OPERATOR_MAP (\<lambda>k. Some (inherited_text k)) op = Some m"
    using lookup_operator Cons.prems e by fastforce
  obtain w where w: "substituteValue ctx v = Inr w" "\<not> mentions_var w"
    using substitute_flat[OF assms(1)] Cons.prems e by fastforce
  show ?case
    using Cons.IH[of "map_set (case m of None \<Rightarrow> op | Some m \<Rightarrow> m) w out"] Cons.prems e m w mentions_map_set
    by fastforce
qed auto

lemma resolve_plain_field:
  "(\<And>ops. raw \<noteq> JObj ops) \<Longrightarrow> resolveFieldFilter ctx raw = substituteValue ctx raw \<and> flat_field raw = flat_value raw"
  by (cases raw) (auto simp del: substituteValue.simps)

lemma field_flat:
  assumes "concrete_ctx ctx" "flat_field raw"
  shows "\<exists>w. resolveFieldFilter ctx raw = Inr w \<and> \<not> mentions_var w"
proof (cases "\<exists>ops. raw = JObj ops")
  case True
  then obtain ops where ops: "raw = JObj ops" by blast
  with operators_flat[OF assms(1), of ops "[]"] assms(2) obtain res
    where "resolve_operators ctx ops [] = Inr res" "\<not> list_ex (\<lambda>(k, v). mentions_var v) res"
    by auto
  moreover have "\<exists>w. substituteValue ctx (snd (ops ! 0)) = Inr w \<and> \<not> mentions_var w" if "length ops = 1"
    using that assms(2) ops substitute_flat[OF assms(1), of "snd (ops ! 0)"]
    by (cases ops) (auto simp del: substituteValue.simps)
  ultimately show ?thesis using ops by auto
next
  case False
  with resolve_plain_field[of raw ctx] substitute_flat[OF assms(1), of raw] assms(2) show ?thesis by auto
qed

lemma filter_flat:
  assumes "concrete_ctx ctx" "list_all (\<lambda>(f, raw). flat_field raw) flt"
  shows "\<exists>out. resolveFilter ctx flt = Inr out \<and> map fst out = map fst flt \<and> \<not> list_ex (\<lambda>(f, v). mentions_var v) out"
  using assms(2)
proof (induction flt)
  case (Cons e flt)
  obtain f raw where e: "e = (f, raw)" by fastforce
  obtain w where "resolveFieldFilter ctx raw = Inr w" "\<not> mentions_var w"
    using field_flat[OF assms(1), of raw] Cons.prems e by auto
  with Cons e show ?case by (auto simp: resolveFilter_def)
qed (simp add: resolveFilter_def)

text \<open>with a tenant in context the resolver never fails on filters of its vocabulary, turns every row into the rule
  with the lower-cased action and the same subject and fields, keeps the filtered fields, and leaves no
  \<open>$CURRENT_USER\<close>, \<open>$CURRENT_TENANT\<close> or \<open>$NOW\<close> behind in any condition, however deep in a list it was.\<close>

theorem resolver_substitutes_all:
  assumes "concrete_ctx ctx" "list_all flat_row rows"
  shows "\<exists>rules. resolveDbRules rows ctx = Inr rules \<and>
    list_all2 (\<lambda>row r. ar_action r = One (action_toLowerCase (dp_action row)) \<and> ar_subject r = One (dp_resource row) \<and>
       ar_fields r = Some (dp_fields row) \<and>
       (case (dp_itemFilter row, ar_conditions r) of (None, None) \<Rightarrow> True
        | (Some flt, Some c) \<Rightarrow> map fst c = map fst flt \<and> \<not> mentions_var (JObj c) | _ \<Rightarrow> False)) rows rules"
  using assms(2)
proof (induction rows)
  case (Cons row rows)
  have "\<exists>r. resolve_row ctx row = Inr r \<and> (case (dp_itemFilter row, ar_conditions r) of (None, None) \<Rightarrow> True
        | (Some flt, Some c) \<Rightarrow> map fst c = map fst flt \<and> \<not> mentions_var (JObj c) | _ \<Rightarrow> False)"
  proof (cases "dp_itemFilter row")
    case (Some flt)
    with filter_flat[OF assms(1), of flt] Cons.prems show ?thesis
      by (auto simp: resolve_row_def flat_row_def)
  qed (simp add: resolve_row_def)
  then obtain r where r: "resolve_row ctx row = Inr r" "case (dp_itemFilter row, ar_conditions r) of (None, None) \<Rightarrow> True
        | (Some flt, Some c) \<Rightarrow> map fst c = map fst flt \<and> \<not> mentions_var (JObj c) | _ \<Rightarrow> False" by blast
  with resolve_row_shape[OF r(1)] Cons show ?case by (auto simp: resolveDbRules_def)
qed (simp add: resolveDbRules_def)

text \<open>A rule on the wildcard subject \<open>all\<close> is not intersected but dropped: an owner whose rights come from such rules
  gets a key that can do nothing, whatever its scopes say.\<close>

theorem wildcard_rules_lost_under_scopes:
  assumes "casl can matches" "resolveDbRules rows ctx = Inr rules" "scopes \<noteq> []"
    and "\<forall>row\<in>set rows. dp_resource row = ''all''" "target_subject t \<noteq> ''all''"
  shows "\<not> can (restrictAbilityByScopes can (buildAbility rules) scopes) a t"
proof -
  have "ar_subject r = One ''all''" if "r \<in> set (buildAbility rules)" for r
    using that resolved_rule_row[OF assms(2)] resolve_row_shape(2) assms(4)
    by (fastforce simp: buildAbility_def build_rule_def)
  moreover have "list_all db_shaped (buildAbility rules)"
    using resolved_shaped[OF assms(2)] by (simp add: shaped_build)
  ultimately show ?thesis using casl.restrict_can[OF assms(1)] assms(3,5) by fastforce
qed

section \<open>The permission report agrees with the checks\<close>

definition report_ok :: "(string \<times> string) list \<Rightarrow> resource_reports \<Rightarrow> bool" where
  "report_ok rules rep \<longleftrightarrow> (\<forall>s. case map_get rep s of
     None \<Rightarrow> (\<forall>a. (a, s) \<notin> set rules)
   | Some e \<Rightarrow> set (rr_actions e) = {a. (a, s) \<in> set rules} \<and> distinct (rr_actions e) \<and>
       (rr_isSuperset e \<longleftrightarrow> (''manage'', s) \<in> set rules))"

lemma report_okD:
  "report_ok rules rep \<Longrightarrow> case map_get rep s of None \<Rightarrow> (\<forall>a. (a, s) \<notin> set rules)
   | Some e \<Rightarrow> set (rr_actions e) = {a. (a, s) \<in> set rules} \<and> distinct (rr_actions e) \<and>
       (rr_isSuperset e \<longleftrightarrow> (''manage'', s) \<in> set rules)"
  by (simp add: report_ok_def)

lemma report_lookup:
  "s \<notin> set object_prototype_members \<Longrightarrow>
   js_lookup (map (\<lambda>(k, v). (k, Some v)) rep) inh s = map_option Some (map_get rep s)"
  by (simp add: js_lookup_def map_of_map split: option.splits)

lemma report_step:
  assumes "report_ok seen rep" "s \<notin> set object_prototype_members"
  shows "\<exists>rep'. buildPermissionReport rep ((a, s) # rules) = buildPermissionReport rep' rules \<and> report_ok (seen @ [(a, s)]) rep'"
proof -
  define entry where "entry = (case map_get rep s of Some e \<Rightarrow> e | None \<Rightarrow> \<lparr>rr_actions = [], rr_isSuperset = False\<rparr>)"
  define entry' where "entry' = (let entry = (if a = ''manage'' then entry\<lparr>rr_isSuperset := True\<rparr> else entry)
      in if a \<in> set (rr_actions entry) then entry else entry\<lparr>rr_actions := rr_actions entry @ [a]\<rparr>)"
  have "buildPermissionReport rep ((a, s) # rules) = buildPermissionReport (map_set s entry' rep) rules"
    by (cases "map_get rep s") (simp_all add: report_lookup[OF assms(2)] entry'_def entry_def Let_def)
  moreover have e: "set (rr_actions entry) = {b. (b, s) \<in> set seen}" "distinct (rr_actions entry)"
      "rr_isSuperset entry \<longleftrightarrow> (''manage'', s) \<in> set seen"
    using report_okD[OF assms(1), of s] by (auto simp: entry_def split: option.splits)
  moreover have "report_ok (seen @ [(a, s)]) (map_set s entry' rep)"
    unfolding report_ok_def
  proof
    fix w
    have "set (rr_actions entry') = {b. (b, s) \<in> set (seen @ [(a, s)])}" "distinct (rr_actions entry')"
      "rr_isSuperset entry' \<longleftrightarrow> (''manage'', s) \<in> set (seen @ [(a, s)])"
      using e by (auto simp: entry'_def Let_def)
    with report_okD[OF assms(1), of w] show "case map_get (map_set s entry' rep) w of
        None \<Rightarrow> (\<forall>b. (b, w) \<notin> set (seen @ [(a, s)]))
      | Some e \<Rightarrow> set (rr_actions e) = {b. (b, w) \<in> set (seen @ [(a, s)])} \<and> distinct (rr_actions e) \<and>
          (rr_isSuperset e \<longleftrightarrow> (''manage'', w) \<in> set (seen @ [(a, s)]))"
      by (cases "w = s") (simp_all add: map_get_set split: option.splits)
  qed
  ultimately show ?thesis by blast
qed

lemma report_total:
  assumes "\<forall>(a, s)\<in>set rules. s \<notin> set object_prototype_members" "report_ok seen rep"
  shows "\<exists>rep'. buildPermissionReport rep rules = Inr rep' \<and> report_ok (seen @ rules) rep'"
  using assms
proof (induction rules arbitrary: seen rep)
  case (Cons rule rules)
  obtain a s where rule: "rule = (a, s)" by fastforce
  with Cons.prems report_step obtain rep' where
    "buildPermissionReport rep (rule # rules) = buildPermissionReport rep' rules" "report_ok (seen @ [(a, s)]) rep'"
    by fastforce
  with Cons.IH[of "seen @ [(a, s)]" rep'] Cons.prems(1) rule show ?case by auto
qed auto

lemma flat_rules_covers:
  assumes "\<forall>r\<in>set ab. ''all'' \<notin> set (normalizeList (ar_subject r))"
  shows "(\<exists>r\<in>set ab. covers matches r a (SubjectType s)) \<longleftrightarrow> (a, s) \<in> set (flat_rules ab) \<or> (''manage'', s) \<in> set (flat_rules ab)"
  using assms by (simp add: covers_def flat_rules_def image_iff) blast

lemma promoted_entry: "map_get (promoteCrudCoverageToSuperset rep) s = map_option promote_entry (map_get rep s)"
  by (simp add: promoteCrudCoverageToSuperset_def map_of_map)

text \<open>the permission report of an ability without wildcard or inverted rules lists exactly the subjects that have a
  rule, with exactly their actions, and marks a subject as a superset exactly when the guard's check for full
  control over that subject succeeds.\<close>

theorem report_superset_is_full_control:
  assumes "casl can matches" "granting ab"
    and "\<forall>r\<in>set ab. ''all'' \<notin> set (normalizeList (ar_subject r))"
    and "\<forall>(a, s)\<in>set (flat_rules ab). s \<notin> set object_prototype_members"
  shows "\<exists>rep. getEffectivePermissions ab = Inr rep \<and> (\<forall>s. case map_get rep s of
      None \<Rightarrow> (\<forall>a. \<not> can ab a (SubjectType s))
    | Some e \<Rightarrow> set (rr_actions e) = {a. (a, s) \<in> set (flat_rules ab)} \<and> (rr_isSuperset e \<longleftrightarrow> canManageSubject can ab s))"
proof -
  have c: "can ab a (SubjectType s) \<longleftrightarrow> (a, s) \<in> set (flat_rules ab) \<or> (''manage'', s) \<in> set (flat_rules ab)" for a s
    by (simp only: casl.can_iff[OF assms(1,2)] flat_rules_covers[OF assms(3)])
  have "report_ok [] []" by (simp add: report_ok_def)
  from report_total[OF assms(4) this] obtain rep where rep: "buildPermissionReport [] (flat_rules ab) = Inr rep"
    "report_ok (flat_rules ab) rep" by auto
  have "case map_get (promoteCrudCoverageToSuperset rep) s of None \<Rightarrow> (\<forall>a. \<not> can ab a (SubjectType s))
    | Some e \<Rightarrow> set (rr_actions e) = {a. (a, s) \<in> set (flat_rules ab)} \<and> (rr_isSuperset e \<longleftrightarrow> canManageSubject can ab s)" for s
    using report_okD[OF rep(2), of s]
    by (auto simp: promoted_entry promote_entry_def CRUD_ACTIONS_def canManageSubject_def c split: option.splits)
  with rep(1) show ?thesis by (auto simp: getEffectivePermissions_def)
qed

section \<open>Witnesses\<close>

definition sample_rows :: "db_permission_row list" where
  "sample_rows = [\<lparr>dp_resource = ''File'', dp_action = MANAGE,
      dp_itemFilter = Some [(''ownerId'', JObj [(''_in'', JArr [JStr VAR_CURRENT_USER, JStr ''u2''])])], dp_fields = []\<rparr>,
    \<lparr>dp_resource = ''User'', dp_action = READ, dp_itemFilter = None, dp_fields = [''name'']\<rparr>]"

definition sample_ctx :: resolve_context where
  "sample_ctx = \<lparr>rc_userId = ''u1'', rc_now = 0, rc_tenantId = Some ''t1''\<rparr>"

definition sample_rules :: "ability_rule list" where
  "sample_rules = [\<lparr>ar_action = One ''manage'', ar_subject = One ''File'',
      ar_conditions = Some [(''ownerId'', JObj [(''$in'', JArr [JStr ''u1'', JStr ''u2''])])],
      ar_fields = Some [], ar_inverted = False\<rparr>,
    \<lparr>ar_action = One ''read'', ar_subject = One ''User'', ar_conditions = None, ar_fields = Some [''name''],
     ar_inverted = False\<rparr>]"

lemma sample_resolves: "resolveDbRules sample_rows sample_ctx = Inr sample_rules"
  by code_simp

theorem api_key_is_intersection_witness:
  "reference_can (restrictAbilityByScopes reference_can (buildAbility sample_rules) [''files:read'']) ''read'' (SubjectType ''File'')
   \<and> \<not> reference_can (restrictAbilityByScopes reference_can (buildAbility sample_rules) [''files:read'']) ''update'' (SubjectType ''File'')
   \<and> \<not> reference_can (restrictAbilityByScopes reference_can (buildAbility sample_rules) [''files:read'']) ''read'' (SubjectType ''User'')"
proof -
  note * = api_key_is_intersection[OF reference.casl_axioms sample_resolves, of "[''files:read'']"]
  have rows: "\<forall>row\<in>set sample_rows. dp_resource row \<noteq> ''all''" by (simp add: sample_rows_def)
  have "reference_can (buildAbility sample_rules) ''read'' (SubjectType ''File'')" by code_simp
  moreover have "scope_allows [''files:read''] ''read'' ''File''" by code_simp
  moreover have "\<not> scope_allows [''files:read''] ''update'' ''File''" by code_simp
  moreover have "\<not> scope_allows [''files:read''] ''read'' ''User''" by code_simp
  ultimately show ?thesis
    using *[of "''read''" "SubjectType ''File''"] *[of "''update''" "SubjectType ''File''"] *[of "''read''" "SubjectType ''User''"] rows
    by simp
qed

definition sample_db :: perm_db where
  "sample_db = \<lparr>db_members = [\<lparr>mb_id = ''m1'', mb_userId = ''u1'', mb_organizationId = ''t1'', mb_role = ''editor'', mb_createdAt = 0\<rparr>],
    db_roles = [\<lparr>rl_id = ''r1'', rl_name = ''editor'', rl_tenantId = ''t1''\<rparr>], db_role_policies = [(''r1'', ''p1'')],
    db_permissions = [\<lparr>pm_policyId = ''p1'', pm_resource = ''Hub'', pm_action = READ, pm_itemFilter = None, pm_fields = []\<rparr>]\<rparr>"

definition default_options :: perm_storage_options where
  "default_options = \<lparr>so_synthesizeMemberRules = None, so_memberResources = None, so_memberPerUserResources = None,
     so_extraTenantResources = None, so_extraUserResources = None\<rparr>"

definition member_rules :: "ability_rule list" where
  "member_rules = projr (resolveDbRules (findRulesForUser default_options sample_db ''u1'' ''t1'') sample_ctx)"

lemma member_rules_resolve:
  "resolveDbRules (findRulesForUser default_options sample_db ''u1'' ''t1'')
     \<lparr>rc_userId = ''u1'', rc_now = 0, rc_tenantId = Some ''t1''\<rparr> = Inr member_rules"
  by code_simp

theorem access_is_confined_witness:
  "is_member sample_db ''u1'' ''t1'' \<and> field_is [(''tenantId'', JStr ''t1'')] ''tenantId'' ''t1''"
proof -
  have "reference_can (buildAbility member_rules) ''update'' (Instance ''File'' [(''tenantId'', JStr ''t1'')])" by code_simp
  from access_is_confined[OF reference.casl_axioms member_rules_resolve this]
  have "is_member sample_db ''u1'' ''t1''" ..
  then show ?thesis by (simp add: field_is_def)
qed

theorem resolver_substitutes_all_witness: "\<exists>rules. resolveDbRules sample_rows sample_ctx = Inr rules"
proof -
  have "concrete_ctx sample_ctx" by code_simp
  moreover have "list_all flat_row sample_rows" by code_simp
  ultimately show ?thesis using resolver_substitutes_all[of sample_ctx sample_rows] by blast
qed

theorem report_superset_is_full_control_witness:
  "\<exists>rep. getEffectivePermissions (buildAbility sample_rules) = Inr rep"
proof -
  have "granting (buildAbility sample_rules)" by code_simp
  moreover have "\<forall>r\<in>set (buildAbility sample_rules). ''all'' \<notin> set (normalizeList (ar_subject r))" by code_simp
  moreover have "\<forall>(a, s)\<in>set (flat_rules (buildAbility sample_rules)). s \<notin> set object_prototype_members" by code_simp
  ultimately show ?thesis using report_superset_is_full_control[OF reference.casl_axioms] by blast
qed

end
