(* ===== verification/Permission_Service.thy ===== *)
theory Permission_Service
  imports Ability_Rules
begin

text \<open>
  The ability cache of \<open>src/core/permissions/permission.service.ts\<close>: \<open>abilityFor\<close>,
  \<open>abilityForCached\<close> cut at its one \<open>await\<close>, \<open>invalidate\<close>, \<open>invalidateAll\<close>, the least-recently-used
  eviction and the encoded cache key.  A \<open>Map\<close> is an association list in insertion order, so its
  head is the entry \<open>cache.keys().next()\<close> names.
\<close>

section \<open>The cache key\<close>

definition upper_hex :: "nat \<Rightarrow> char" where
  "upper_hex d = (if d < 10 then char_of (48 + d) else char_of (55 + d))"

definition percent :: "nat \<Rightarrow> string" where
  "percent n = [CHR ''%'', upper_hex (n div 16), upper_hex (n mod 16)]"

definition uri_unreserved :: "char \<Rightarrow> bool" where
  "uri_unreserved c = (let n = of_char c :: nat in
     (48 \<le> n \<and> n \<le> 57) \<or> (65 \<le> n \<and> n \<le> 90) \<or> (97 \<le> n \<and> n \<le> 122) \<or> n \<in> {45, 95, 46, 33, 126, 42, 39, 40, 41})"

definition encode_char :: "char \<Rightarrow> string" where
  "encode_char c = (let n = of_char c :: nat in
     if uri_unreserved c then [c]
     else if n < 128 then percent n
     else percent (192 + n div 64) @ percent (128 + n mod 64))"

definition encodeURIComponent :: "string \<Rightarrow> string" where
  "encodeURIComponent s = concat (map encode_char s)"

definition cacheKey :: "string \<Rightarrow> string \<Rightarrow> string" where
  "cacheKey userId tenantId = encodeURIComponent userId @ ''|'' @ encodeURIComponent tenantId"

section \<open>The service\<close>

record cache_entry =
  ce_ability :: ability
  ce_expiresAt :: millis

type_synonym perm_cache = "(string \<times> cache_entry) list"

record perm_options =
  po_ttlMs :: "millis option"
  po_maxEntries :: "int option"

definition PERM_DEFAULT_TTL_MS :: millis where "PERM_DEFAULT_TTL_MS = 60000"

definition PERM_DEFAULT_MAX_ENTRIES :: int where "PERM_DEFAULT_MAX_ENTRIES = 1000"

definition ttlMs :: "perm_options \<Rightarrow> millis" where
  "ttlMs opts = nullish (po_ttlMs opts) PERM_DEFAULT_TTL_MS"

definition maxEntries :: "perm_options \<Rightarrow> int" where
  "maxEntries opts = nullish (po_maxEntries opts) PERM_DEFAULT_MAX_ENTRIES"

text \<open>While the map is over its bound the oldest entry goes; an empty map ends the loop.\<close>

fun evictIfNeeded :: "int \<Rightarrow> perm_cache \<Rightarrow> perm_cache" where
  "evictIfNeeded bound [] = []"
| "evictIfNeeded bound (oldest # cache) =
     (if int (length (oldest # cache)) > bound then evictIfNeeded bound cache else oldest # cache)"

text \<open>The synchronous prefix: a live entry is answered and re-inserted as the most recent one.\<close>

definition cache_lookup :: "perm_cache \<Rightarrow> string \<Rightarrow> string \<Rightarrow> millis \<Rightarrow> (ability \<times> perm_cache) option" where
  "cache_lookup cache userId tenantId now =
     (let key = cacheKey userId tenantId
      in case map_get cache key of
           Some cached \<Rightarrow> if ce_expiresAt cached > now
             then Some (ce_ability cached, map_set key cached (map_delete key cache)) else None
         | None \<Rightarrow> None)"

text \<open>What follows the \<open>await\<close>: \<open>cache.set\<close> leaves an existing key where it is.\<close>

definition finish_load ::
  "perm_options \<Rightarrow> perm_cache \<Rightarrow> string \<Rightarrow> string \<Rightarrow> millis \<Rightarrow> perm_error + db_permission_row list
   \<Rightarrow> (perm_error + ability) \<times> perm_cache" where
  "finish_load opts cache userId tenantId now loaded =
     (case loaded of Inl e \<Rightarrow> (Inl e, cache)
      | Inr rows \<Rightarrow> (case resolveDbRules rows \<lparr>rc_userId = userId, rc_now = now, rc_tenantId = Some tenantId\<rparr> of
          Inl e \<Rightarrow> (Inl e, cache)
        | Inr rules \<Rightarrow>
            let ability = buildAbility rules
            in (Inr ability, evictIfNeeded (maxEntries opts)
                  (map_set (cacheKey userId tenantId)
                     \<lparr>ce_ability = ability, ce_expiresAt = now + ttlMs opts\<rparr> cache))))"

definition abilityForCached ::
  "perm_options \<Rightarrow> (string \<Rightarrow> string \<Rightarrow> perm_error + db_permission_row list) \<Rightarrow> perm_cache
   \<Rightarrow> string \<Rightarrow> string \<Rightarrow> millis \<Rightarrow> (perm_error + ability) \<times> perm_cache" where
  "abilityForCached opts storage cache userId tenantId now =
     (case cache_lookup cache userId tenantId now of
        Some (ability, cache') \<Rightarrow> (Inr ability, cache')
      | None \<Rightarrow> finish_load opts cache userId tenantId now (storage userId tenantId))"

definition abilityFor ::
  "can_fn \<Rightarrow> perm_options \<Rightarrow> (string \<Rightarrow> string \<Rightarrow> perm_error + db_permission_row list) \<Rightarrow> perm_cache
   \<Rightarrow> string \<Rightarrow> string \<Rightarrow> string list option \<Rightarrow> millis \<Rightarrow> (perm_error + ability) \<times> perm_cache" where
  "abilityFor can opts storage cache userId tenantId scopes now =
     (case abilityForCached opts storage cache userId tenantId now of
        (Inl e, cache') \<Rightarrow> (Inl e, cache')
      | (Inr full, cache') \<Rightarrow> (case scopes of
            None \<Rightarrow> (Inr full, cache')
          | Some sc \<Rightarrow> if length sc = 0 then (Inr full, cache')
              else (Inr (restrictAbilityByScopes can full sc), cache')))"

definition invalidate :: "perm_cache \<Rightarrow> string \<Rightarrow> string option \<Rightarrow> perm_cache" where
  "invalidate cache userId tenantId =
     (case tenantId of
        Some t \<Rightarrow> map_delete (cacheKey userId t) cache
      | None \<Rightarrow> filter (\<lambda>(key, e). \<not> startsWith key (encodeURIComponent userId @ ''|'')) cache)"

definition invalidateAll :: "perm_cache \<Rightarrow> perm_cache" where
  "invalidateAll cache = []"

section \<open>Interleaved calls\<close>

text \<open>A process with calls in flight: \<open>ps_loads\<close> holds the calls that wait for the storage, each with the
  time it was sent and the answer it will get.\<close>

record perm_load =
  ld_user :: string
  ld_tenant :: string
  ld_sent :: millis
  ld_rows :: "perm_error + db_permission_row list"

record perm_system =
  ps_now :: millis
  ps_cache :: perm_cache
  ps_loads :: "perm_load list"

type_synonym perm_answer = "string \<times> string \<times> (perm_error + ability)"

type_synonym perm_history = "millis \<Rightarrow> string \<Rightarrow> string \<Rightarrow> perm_error + db_permission_row list"

inductive pstep :: "perm_history \<Rightarrow> perm_options \<Rightarrow> perm_system \<Rightarrow> perm_answer option \<Rightarrow> perm_system \<Rightarrow> bool"
  for db opts where
  pass: "ps_now s \<le> n \<Longrightarrow> pstep db opts s None (s\<lparr>ps_now := n\<rparr>)"
| hit: "cache_lookup (ps_cache s) u t (ps_now s) = Some (ab, c) \<Longrightarrow>
    pstep db opts s (Some (u, t, Inr ab)) (s\<lparr>ps_cache := c\<rparr>)"
| send: "cache_lookup (ps_cache s) u t (ps_now s) = None \<Longrightarrow>
    pstep db opts s None (s\<lparr>ps_loads := ps_loads s @
      [\<lparr>ld_user = u, ld_tenant = t, ld_sent = ps_now s, ld_rows = db (ps_now s) u t\<rparr>]\<rparr>)"
| finish: "ps_loads s = ls @ l # ls' \<Longrightarrow>
    finish_load opts (ps_cache s) (ld_user l) (ld_tenant l) (ps_now s) (ld_rows l) = (res, c) \<Longrightarrow>
    pstep db opts s (Some (ld_user l, ld_tenant l, res)) (s\<lparr>ps_cache := c, ps_loads := ls @ ls'\<rparr>)"
| drop_user: "pstep db opts s None (s\<lparr>ps_cache := invalidate (ps_cache s) u t\<rparr>)"
| drop_all: "pstep db opts s None (s\<lparr>ps_cache := invalidateAll (ps_cache s)\<rparr>)"

inductive preach :: "perm_history \<Rightarrow> perm_options \<Rightarrow> perm_system \<Rightarrow> bool" for db opts where
  start: "preach db opts \<lparr>ps_now = n, ps_cache = [], ps_loads = []\<rparr>"
| step: "preach db opts s \<Longrightarrow> pstep db opts s out s' \<Longrightarrow> preach db opts s'"

section \<open>The key separates users and tenants\<close>

lemma upper_hex_inj: "d < 16 \<Longrightarrow> e < 16 \<Longrightarrow> upper_hex d = upper_hex e \<Longrightarrow> d = e"
  by (auto simp: upper_hex_def split: if_splits dest!: arg_cong[where f = "of_char :: char \<Rightarrow> nat"])

lemma percent_prefix:
  assumes "percent m @ r = percent n @ r'" "m < 256" "n < 256"
  shows "m = n \<and> r = r'"
proof -
  have "upper_hex (m div 16) = upper_hex (n div 16)" "upper_hex (m mod 16) = upper_hex (n mod 16)" "r = r'"
    using assms(1) by (auto simp: percent_def)
  moreover from this upper_hex_inj have "m div 16 = n div 16" "m mod 16 = n mod 16" using assms(2,3) by auto
  ultimately show ?thesis by (metis div_mult_mod_eq)
qed

lemma unreserved_not_percent: "uri_unreserved c \<Longrightarrow> c \<noteq> CHR ''%'' \<and> c \<noteq> CHR ''|''"
  by (auto simp: uri_unreserved_def)

lemma encode_char_cases:
  obtains (plain) "uri_unreserved c" "encode_char c = [c]"
    | (low) "(of_char c :: nat) < 128" "encode_char c = percent (of_char c)"
    | (high) "128 \<le> (of_char c :: nat)"
        "encode_char c = percent (192 + of_char c div 64) @ percent (128 + of_char c mod 64)"
  by (cases "uri_unreserved c"; cases "(of_char c :: nat) < 128") (auto simp: encode_char_def Let_def)

lemma of_char_less: "(of_char c :: nat) < 256"
  using nat_of_char_less_256 .

lemma high_byte: "(192 + of_char c div 64 :: nat) < 256" "(128 + of_char c mod 64 :: nat) < 256"
  using of_char_less[of c] by linarith+

lemma encode_char_prefix:
  assumes "encode_char c @ r = encode_char d @ r'"
  shows "c = d \<and> r = r'"
proof (cases c rule: encode_char_cases)
  case plain
  with assms unreserved_not_percent show ?thesis by (cases d rule: encode_char_cases) (auto simp: percent_def)
next
  case low
  show ?thesis
  proof (cases d rule: encode_char_cases)
    case plain
    with assms low unreserved_not_percent show ?thesis by (auto simp: percent_def)
  next
    case low' : low
    with assms low percent_prefix of_char_less have "(of_char c :: nat) = of_char d \<and> r = r'" by metis
    then show ?thesis by (simp add: of_char_eq_iff)
  next
    case high
    with assms low percent_prefix[of "of_char c" r "192 + of_char d div 64"] of_char_less[of c] high_byte[of d]
    show ?thesis by auto
  qed
next
  case high
  show ?thesis
  proof (cases d rule: encode_char_cases)
    case plain
    with assms high unreserved_not_percent show ?thesis by (auto simp: percent_def)
  next
    case low
    with assms high percent_prefix[of "192 + of_char c div 64" _ "of_char d"] of_char_less[of d] high_byte[of c]
    show ?thesis by auto
  next
    case high' : high
    from assms high high' percent_prefix[OF _ high_byte(1) high_byte(1)]
    have one: "192 + of_char c div 64 = (192 + of_char d div 64 :: nat)"
      and rest: "percent (128 + of_char c mod 64) @ r = percent (128 + of_char d mod 64) @ r'"
      by (metis append_assoc)+
    from percent_prefix[OF rest high_byte(2) high_byte(2)] one
    have "(of_char c :: nat) = of_char d \<and> r = r'" by (metis add_left_cancel div_mult_mod_eq)
    then show ?thesis by (simp add: of_char_eq_iff)
  qed
qed

lemma encode_char_ne: "encode_char c \<noteq> []"
  by (cases c rule: encode_char_cases) (simp_all add: percent_def)

lemma encode_inj: "encodeURIComponent s = encodeURIComponent t \<Longrightarrow> s = t"
proof (induction s arbitrary: t)
  case Nil
  then show ?case by (cases t) (simp_all add: encodeURIComponent_def encode_char_ne)
next
  case (Cons c s)
  then obtain d t' where t: "t = d # t'" by (cases t) (auto simp: encodeURIComponent_def encode_char_ne)
  with Cons show ?case using encode_char_prefix[of c "encodeURIComponent s" d "encodeURIComponent t'"]
    by (simp add: encodeURIComponent_def)
qed

lemma upper_hex_not_bar: "d < 16 \<Longrightarrow> upper_hex d \<noteq> CHR ''|''"
  by (auto simp: upper_hex_def dest!: arg_cong[where f = "of_char :: char \<Rightarrow> nat"])

lemma percent_no_bar: "n < 256 \<Longrightarrow> CHR ''|'' \<notin> set (percent n)"
proof -
  assume "n < 256"
  then have "n div 16 < 16" "n mod 16 < 16" by auto
  with upper_hex_not_bar have "upper_hex (n div 16) \<noteq> CHR ''|''" "upper_hex (n mod 16) \<noteq> CHR ''|''" by blast+
  then show ?thesis by (auto simp: percent_def)
qed

lemma encode_no_bar: "CHR ''|'' \<notin> set (encodeURIComponent s)"
proof -
  have "CHR ''|'' \<notin> set (encode_char c)" for c
    using unreserved_not_percent percent_no_bar high_byte[of c] of_char_less[of c]
    by (cases c rule: encode_char_cases) auto
  then show ?thesis by (simp add: encodeURIComponent_def)
qed

lemma cacheKey_inj: "cacheKey u t = cacheKey u' t' \<Longrightarrow> u = u' \<and> t = t'"
  using append_sep_inj[of "CHR ''|''"] encode_no_bar encode_inj unfolding cacheKey_def by fastforce

lemma cacheKey_prefix: "startsWith (cacheKey u t) (encodeURIComponent u' @ ''|'') \<longleftrightarrow> u = u'"
proof
  assume "startsWith (cacheKey u t) (encodeURIComponent u' @ ''|'')"
  then obtain r where "encodeURIComponent u @ ''|'' @ encodeURIComponent t = encodeURIComponent u' @ ''|'' @ r"
    by (auto simp: startsWith_iff cacheKey_def)
  then show "u = u'" using append_sep_inj[of "CHR ''|''"] encode_no_bar encode_inj by fastforce
qed (auto simp: startsWith_iff cacheKey_def)

section \<open>What the cache may hold\<close>

lemma evict_suffix: "\<exists>front. c = front @ evictIfNeeded bound c"
  by (induction c) (force intro: exI[of _ "[]"] exI[of _ "_ # _"])+

lemma set_evict: "set (evictIfNeeded bound c) \<subseteq> set c"
  using evict_suffix[of c bound] by (metis set_append Un_upper2)

lemma evict_bounded: "int (length (evictIfNeeded bound c)) \<le> max 0 bound"
  by (induction c) auto

lemma evict_keeps: "int (length c) \<le> bound \<Longrightarrow> evictIfNeeded bound c = c"
  by (cases c) auto

lemma set_map_delete: "set (map_delete k m) \<subseteq> set m"
  by (auto simp: map_delete_def)

lemma map_set_cases: "p \<in> set (map_set k v m) \<Longrightarrow> p = (k, v) \<or> p \<in> set m"
  by (induction k v m rule: map_set.induct) (auto split: if_splits)

lemma map_set_delete_length: "distinct (map fst m) \<Longrightarrow> k \<in> fst ` set m \<Longrightarrow>
   length (map_set k v (map_delete k m)) = length m"
proof -
  assume d: "distinct (map fst m)" and k: "k \<in> fst ` set m"
  have "fst ` set (map_set k v (map_delete k m)) = fst ` set m"
    using k by (auto simp: dom_map_set map_delete_def)
  then show ?thesis
    using d distinct_map_set[OF distinct_map_delete[OF d]] by (metis distinct_card length_map list.set_map)
qed

text \<open>An ability was built for a user in a tenant from the rows the storage held at \<open>sent\<close>, and stored at \<open>at\<close>.\<close>

definition built_from :: "perm_history \<Rightarrow> string \<Rightarrow> string \<Rightarrow> millis \<Rightarrow> millis \<Rightarrow> ability \<Rightarrow> bool" where
  "built_from db u t sent at ab \<longleftrightarrow> sent \<le> at \<and> (\<exists>rows rules. db sent u t = Inr rows \<and>
     resolveDbRules rows \<lparr>rc_userId = u, rc_now = at, rc_tenantId = Some t\<rparr> = Inr rules \<and> ab = buildAbility rules)"

definition entry_ok :: "perm_history \<Rightarrow> perm_options \<Rightarrow> millis \<Rightarrow> string \<times> cache_entry \<Rightarrow> bool" where
  "entry_ok db opts now p \<longleftrightarrow> (\<exists>u t sent at. fst p = cacheKey u t \<and> built_from db u t sent at (ce_ability (snd p)) \<and>
     at \<le> now \<and> ce_expiresAt (snd p) = at + ttlMs opts)"

definition cache_ok :: "perm_history \<Rightarrow> perm_options \<Rightarrow> perm_system \<Rightarrow> bool" where
  "cache_ok db opts s \<longleftrightarrow> (\<forall>p\<in>set (ps_cache s). entry_ok db opts (ps_now s) p) \<and> distinct (map fst (ps_cache s)) \<and>
     int (length (ps_cache s)) \<le> max 0 (maxEntries opts) \<and>
     (\<forall>l\<in>set (ps_loads s). ld_sent l \<le> ps_now s \<and> ld_rows l = db (ld_sent l) (ld_user l) (ld_tenant l))"

lemma entry_ok_mono: "entry_ok db opts n p \<Longrightarrow> n \<le> n' \<Longrightarrow> entry_ok db opts n' p"
  unfolding entry_ok_def by (meson order_trans)

lemma entry_ok_key:
  assumes "entry_ok db opts n (cacheKey u t, e)"
  shows "\<exists>sent at. built_from db u t sent at (ce_ability e) \<and> at \<le> n \<and> ce_expiresAt e = at + ttlMs opts"
proof -
  obtain u' t' sent at where "cacheKey u t = cacheKey u' t'" and b: "built_from db u' t' sent at (ce_ability e)"
    "at \<le> n" "ce_expiresAt e = at + ttlMs opts"
    using assms by (auto simp: entry_ok_def)
  from cacheKey_inj[OF this(1)] b show ?thesis by auto
qed

lemma lookup_hit:
  assumes "cache_lookup c u t n = Some (ab, c')"
  obtains e where "(cacheKey u t, e) \<in> set c" "ce_ability e = ab" "n < ce_expiresAt e"
    "c' = map_set (cacheKey u t) e (map_delete (cacheKey u t) c)"
  using assms by (auto simp: cache_lookup_def Let_def split: option.splits if_splits dest: map_of_SomeD)

lemma finish_load_cases:
  assumes "finish_load opts c u t n loaded = (res, c')"
  obtains (failed) e where "res = Inl e" "c' = c"
    | (stored) rows rules where "loaded = Inr rows"
        "resolveDbRules rows \<lparr>rc_userId = u, rc_now = n, rc_tenantId = Some t\<rparr> = Inr rules"
        "res = Inr (buildAbility rules)"
        "c' = evictIfNeeded (maxEntries opts)
          (map_set (cacheKey u t) \<lparr>ce_ability = buildAbility rules, ce_expiresAt = n + ttlMs opts\<rparr> c)"
proof (cases loaded)
  case (Inl e)
  with assms show ?thesis by (intro failed[of e]) (auto simp: finish_load_def)
next
  case (Inr rows)
  show ?thesis
  proof (cases "resolveDbRules rows \<lparr>rc_userId = u, rc_now = n, rc_tenantId = Some t\<rparr>")
    case (Inl e)
    with Inr assms show ?thesis by (intro failed[of e]) (auto simp: finish_load_def)
  next
    case rules: (Inr rules)
    with Inr assms show ?thesis by (intro stored[of rows rules]) (auto simp: finish_load_def Let_def)
  qed
qed

lemma hit_keeps:
  assumes "cache_ok db opts s" "cache_lookup (ps_cache s) u t (ps_now s) = Some (ab, c)"
  shows "cache_ok db opts (s\<lparr>ps_cache := c\<rparr>)"
  using assms(2)
proof (cases rule: lookup_hit)
  case (1 e)
  have "entry_ok db opts (ps_now s) p" if "p \<in> set c" for p
  proof -
    have "p = (cacheKey u t, e) \<or> p \<in> set (ps_cache s)"
      using map_set_cases[OF that[unfolded 1(4)]] set_map_delete[of "cacheKey u t" "ps_cache s"] by blast
    with 1(1) assms(1) show ?thesis by (auto simp: cache_ok_def)
  qed
  moreover have "length c = length (ps_cache s)"
    using map_set_delete_length 1 assms(1) by (force simp: cache_ok_def)
  moreover have "distinct (map fst c)"
    unfolding 1(4) using assms(1) by (intro distinct_map_set distinct_map_delete) (simp add: cache_ok_def)
  ultimately show ?thesis using assms(1) by (simp add: cache_ok_def)
qed

lemma finish_keeps:
  assumes "cache_ok db opts s" "ps_loads s = ls @ l # ls'"
    "finish_load opts (ps_cache s) (ld_user l) (ld_tenant l) (ps_now s) (ld_rows l) = (res, c)"
  shows "cache_ok db opts (s\<lparr>ps_cache := c, ps_loads := ls @ ls'\<rparr>)"
  using assms(3)
proof (cases rule: finish_load_cases)
  case failed
  with assms(1,2) show ?thesis by (auto simp: cache_ok_def)
next
  case (stored rows rules)
  let ?m = "map_set (cacheKey (ld_user l) (ld_tenant l))
    \<lparr>ce_ability = buildAbility rules, ce_expiresAt = ps_now s + ttlMs opts\<rparr> (ps_cache s)"
  have l: "ld_sent l \<le> ps_now s" "ld_rows l = db (ld_sent l) (ld_user l) (ld_tenant l)"
    using assms(1,2) by (auto simp: cache_ok_def)
  moreover from l(2) stored(1) have "db (ld_sent l) (ld_user l) (ld_tenant l) = Inr rows" by simp
  ultimately have "built_from db (ld_user l) (ld_tenant l) (ld_sent l) (ps_now s) (buildAbility rules)"
    using stored(2) unfolding built_from_def by blast
  then have "entry_ok db opts (ps_now s) p" if "p \<in> set ?m" for p
    using map_set_cases[OF that] assms(1) by (force simp: cache_ok_def entry_ok_def)
  then have "\<forall>p\<in>set c. entry_ok db opts (ps_now s) p" using set_evict stored(4) by blast
  moreover have "distinct (map fst c)"
    using evict_suffix[of ?m "maxEntries opts"] distinct_map_set[of "ps_cache s"] assms(1) stored(4)
    unfolding cache_ok_def by (metis distinct_append map_append)
  moreover have "int (length c) \<le> max 0 (maxEntries opts)"
    using evict_bounded[of "maxEntries opts" ?m] stored(4) by simp
  ultimately show ?thesis using assms(1,2) by (auto simp: cache_ok_def)
qed

lemma invalidate_subset: "set (invalidate c u t) \<subseteq> set c" "distinct (map fst c) \<Longrightarrow> distinct (map fst (invalidate c u t))"
    "length (invalidate c u t) \<le> length c"
  by (auto simp: invalidate_def map_delete_def distinct_filter_fst split: option.splits)

lemma pstep_keeps: "pstep db opts s out s' \<Longrightarrow> cache_ok db opts s \<Longrightarrow> cache_ok db opts s'"
proof (induction rule: pstep.induct)
  case (pass s n)
  then show ?case using entry_ok_mono by (auto simp: cache_ok_def)
next
  case (drop_user s u t)
  with invalidate_subset[of "ps_cache s" u t] show ?case by (auto simp: cache_ok_def)
next
  case (hit s u t ab c)
  then show ?case by (intro hit_keeps)
next
  case (finish s ls l ls' res c)
  then show ?case by (intro finish_keeps)
qed (auto simp: cache_ok_def invalidateAll_def)

lemma preach_ok: "preach db opts s \<Longrightarrow> cache_ok db opts s"
proof (induction rule: preach.induct)
  case (step s out s')
  then show ?case using pstep_keeps by blast
qed (simp add: cache_ok_def)

text \<open>C19: however calls, invalidations and the passing of time interleave, an ability handed out for a user in a tenant
  was built from the rows the storage held for that very user and tenant, it was built now or less than the
  time-to-live ago, and the cache never exceeds its bound.\<close>

theorem ability_answers_are_fresh:
  assumes "preach db opts s" "pstep db opts s (Some (u, t, Inr ab)) s'"
  shows "(\<exists>sent at. built_from db u t sent at ab \<and> at \<le> ps_now s \<and> (at = ps_now s \<or> ps_now s < at + ttlMs opts)) \<and>
    int (length (ps_cache s')) \<le> max 0 (maxEntries opts)"
proof
  have ok: "cache_ok db opts s" by (rule preach_ok[OF assms(1)])
  show "int (length (ps_cache s')) \<le> max 0 (maxEntries opts)"
    using pstep_keeps[OF assms(2) ok] by (simp add: cache_ok_def)
  from assms(2) show "\<exists>sent at. built_from db u t sent at ab \<and> at \<le> ps_now s \<and> (at = ps_now s \<or> ps_now s < at + ttlMs opts)"
  proof (cases rule: pstep.cases)
    case (hit c)
    from hit(2) show ?thesis
    proof (cases rule: lookup_hit)
      case (1 e)
      with ok have "entry_ok db opts (ps_now s) (cacheKey u t, e)" by (auto simp: cache_ok_def)
      from entry_ok_key[OF this] obtain sent at where "built_from db u t sent at ab" "at \<le> ps_now s"
        "ce_expiresAt e = at + ttlMs opts" using 1(2) by blast
      with 1(3) show ?thesis by (intro exI[of _ sent] exI[of _ at]) simp
    qed
  next
    case (finish ls l ls' c)
    from finish(5) show ?thesis
    proof (cases rule: finish_load_cases)
      case (stored rows rules)
      have "ld_sent l \<le> ps_now s" "db (ld_sent l) u t = Inr rows"
        using ok finish stored(1) by (auto simp: cache_ok_def)
      with stored finish have "built_from db u t (ld_sent l) (ps_now s) ab" by (auto simp: built_from_def)
      then show ?thesis by blast
    qed simp
  qed
qed

section \<open>Invalidation\<close>

text \<open>after \<open>invalidate(userId, tenantId)\<close> the next request of that user in that tenant reads the storage, after
  \<open>invalidate(userId)\<close> the next one in every tenant does, and the entries of every other user, whatever characters
  the identifiers contain, stay exactly as they were.\<close>

theorem invalidate_exact:
  "cache_lookup (invalidate c u (Some t)) u t now = None \<and> cache_lookup (invalidate c u None) u t now = None \<and>
   (u' \<noteq> u \<longrightarrow> map_get (invalidate c u tenant) (cacheKey u' t') = map_get c (cacheKey u' t'))"
proof (intro conjI impI)
  show "cache_lookup (invalidate c u (Some t)) u t now = None"
    by (simp add: cache_lookup_def invalidate_def map_get_delete)
  have "map_get (invalidate c u None) (cacheKey u t) = None"
    using cacheKey_prefix[of u t u] by (auto simp: invalidate_def map_of_eq_None_iff)
  then show "cache_lookup (invalidate c u None) u t now = None" by (simp add: cache_lookup_def)
next
  assume "u' \<noteq> u"
  show "map_get (invalidate c u tenant) (cacheKey u' t') = map_get c (cacheKey u' t')"
  proof (cases tenant)
    case None
    have "map_get (filter (\<lambda>(key, e). \<not> startsWith key (encodeURIComponent u @ ''|'')) c) (cacheKey u' t') =
        map_get c (cacheKey u' t')"
      using \<open>u' \<noteq> u\<close> by (induction c) (auto simp: cacheKey_prefix)
    with None show ?thesis by (simp add: invalidate_def)
  next
    case (Some t)
    moreover have "cacheKey u' t' \<noteq> cacheKey u t" using \<open>u' \<noteq> u\<close> cacheKey_inj by metis
    ultimately show ?thesis by (simp add: invalidate_def map_get_delete)
  qed
qed

text \<open>A load that is in flight when the invalidation comes writes its older rows into the cache afterwards, and the
  revoked rights are answered until the entry expires.\<close>

theorem invalidation_lost_to_load_in_flight:
  assumes "ps_loads s = [l]" "ld_rows l = Inr rows" "0 < ttlMs opts" "0 < maxEntries opts"
    and "resolveDbRules rows \<lparr>rc_userId = ld_user l, rc_now = ps_now s, rc_tenantId = Some (ld_tenant l)\<rparr> = Inr rules"
  shows "\<exists>s1 s2 c. pstep db opts s None s1 \<and> ps_cache s1 = [] \<and>
    pstep db opts s1 (Some (ld_user l, ld_tenant l, Inr (buildAbility rules))) s2 \<and>
    cache_lookup (ps_cache s2) (ld_user l) (ld_tenant l) (ps_now s + ttlMs opts - 1) = Some (buildAbility rules, c)"
proof -
  let ?k = "cacheKey (ld_user l) (ld_tenant l)"
  let ?e = "\<lparr>ce_ability = buildAbility rules, ce_expiresAt = ps_now s + ttlMs opts\<rparr>"
  let ?s1 = "s\<lparr>ps_cache := invalidateAll (ps_cache s)\<rparr>"
  have "finish_load opts (ps_cache ?s1) (ld_user l) (ld_tenant l) (ps_now ?s1) (ld_rows l) =
      (Inr (buildAbility rules), [(?k, ?e)])"
    using assms by (simp add: finish_load_def invalidateAll_def Let_def)
  from finish[of ?s1 "[]" l "[]", OF _ this] assms(1)
  have "pstep db opts ?s1 (Some (ld_user l, ld_tenant l, Inr (buildAbility rules)))
      (?s1\<lparr>ps_cache := [(?k, ?e)], ps_loads := [] @ []\<rparr>)" by simp
  moreover have "pstep db opts s None ?s1" by (rule drop_all)
  moreover have "cache_lookup [(?k, ?e)] (ld_user l) (ld_tenant l) (ps_now s + ttlMs opts - 1) =
      Some (buildAbility rules, map_set ?k ?e (map_delete ?k [(?k, ?e)]))"
    using assms(3) by (simp add: cache_lookup_def Let_def)
  ultimately show ?thesis by (intro exI[of _ ?s1] exI conjI) (auto simp: invalidateAll_def)
qed

section \<open>Witnesses\<close>

definition sample_history :: perm_history where
  "sample_history n u t = Inr sample_rows"

definition sample_options :: perm_options where
  "sample_options = \<lparr>po_ttlMs = None, po_maxEntries = None\<rparr>"

definition sample_loading :: perm_system where
  "sample_loading = \<lparr>ps_now = 0, ps_cache = [], ps_loads = [\<lparr>ld_user = ''u1'', ld_tenant = ''t1'', ld_sent = 0,
     ld_rows = Inr sample_rows\<rparr>]\<rparr>"

lemma sample_loading_reached: "preach sample_history sample_options sample_loading"
proof -
  let ?s = "\<lparr>ps_now = 0, ps_cache = [], ps_loads = []\<rparr> :: perm_system"
  have "cache_lookup (ps_cache ?s) ''u1'' ''t1'' (ps_now ?s) = None" by (simp add: cache_lookup_def)
  from preach.step[OF preach.start pstep.send[OF this, of sample_history sample_options]] show ?thesis
    by (simp add: sample_loading_def sample_history_def)
qed

theorem ability_answers_are_fresh_witness:
  "\<exists>sent at. built_from sample_history ''u1'' ''t1'' sent at (buildAbility sample_rules) \<and> at \<le> 0"
proof -
  have "finish_load sample_options [] ''u1'' ''t1'' 0 (Inr sample_rows) = (Inr (buildAbility sample_rules),
      snd (finish_load sample_options [] ''u1'' ''t1'' 0 (Inr sample_rows)))" by code_simp
  then have "pstep sample_history sample_options sample_loading (Some (''u1'', ''t1'', Inr (buildAbility sample_rules)))
      (sample_loading\<lparr>ps_cache := snd (finish_load sample_options [] ''u1'' ''t1'' 0 (Inr sample_rows)), ps_loads := [] @ []\<rparr>)"
    using pstep.finish[of sample_loading "[]" "\<lparr>ld_user = ''u1'', ld_tenant = ''t1'', ld_sent = 0, ld_rows = Inr sample_rows\<rparr>"
        "[]" sample_options] by (simp add: sample_loading_def)
  from ability_answers_are_fresh[OF sample_loading_reached this] show ?thesis
    by (auto simp: sample_loading_def)
qed

theorem invalidate_exact_witness:
  "map_get (invalidate [(cacheKey ''a|b'' ''c'', \<lparr>ce_ability = [], ce_expiresAt = 0\<rparr>)] ''a'' None) (cacheKey ''a|b'' ''c'') = Some \<lparr>ce_ability = [], ce_expiresAt = 0\<rparr>"
  using invalidate_exact[of "[(cacheKey ''a|b'' ''c'', \<lparr>ce_ability = [], ce_expiresAt = 0\<rparr>)]" "''a''" "''t''" 0 "''a|b''" None "''c''"] by simp

end
