(* ===== verification/Request_Paths.thy ===== *)
theory Request_Paths
  imports Permissions
begin

text \<open>
  Path classification, shared by every layer of the request pipeline: which paths need a session
  (\<open>src/core/auth/jwt-middleware.ts\<close>), which are exempt from a tenant
  (\<open>src/core/multi-tenancy/tenant-guard.ts\<close>), and which belong to the operator portal
  (\<open>src/core/hub/hub-portal-paths.ts\<close>, \<open>hub-surface-policy.ts\<close>, \<open>hub-portal-access.ts\<close>).

  The process environment is an argument: the record \<open>request_env\<close> holds the variables these
  functions read.
\<close>

section \<open>Environment and outcomes\<close>

datatype AppEnv = development | staging | production

record request_env =
  en_authBasePath :: "string option"
  en_openapiRequireAuth :: "string option"
  en_nodeEnv :: "string option"
  en_vitest :: "string option"
  en_hubEnabled :: bool
  en_multiTenancy :: bool
  en_appEnv :: AppEnv

datatype reject =
    Unauthorized
  | ForbiddenReject
  | NotFound
  | Redirect string
  | TenantIsolation
  | BadRequest
  | Crash

section \<open>Query strings\<close>

definition indexOf :: "char \<Rightarrow> string \<Rightarrow> int" where
  "indexOf c s = (let before = takeWhile (\<lambda>d. d \<noteq> c) s
     in if length before < length s then int (length before) else -1)"

definition stripQuery :: "string \<Rightarrow> string" where
  "stripQuery path =
     (let queryAt = indexOf CHR ''?'' path; hashAt = indexOf CHR ''#'' path;
          cut = foldr min (filter (\<lambda>i. i \<ge> 0) [queryAt, hashAt]) (int (length path))
      in take (nat cut) path)"

text \<open>A prefix that ends in a slash matches its sub-paths, and the prefix without its last character
  matches exactly.\<close>

definition matches_prefix :: "string \<Rightarrow> string \<Rightarrow> bool" where
  "matches_prefix path prefix = (startsWith path prefix \<or> path = butlast prefix)"

section \<open>Tenant exemption\<close>

definition BETTER_AUTH_DEFAULT_MOUNT_PATH :: string where
  "BETTER_AUTH_DEFAULT_MOUNT_PATH = ''/api/auth''"

definition resolveAuthExemptPrefix :: "request_env \<Rightarrow> string" where
  "resolveAuthExemptPrefix env =
     (let raw = nullish (en_authBasePath env) BETTER_AUTH_DEFAULT_MOUNT_PATH
      in if endsWith raw ''/'' then raw else raw @ ''/'')"

definition EXEMPT_EXACT :: "string list" where
  "EXEMPT_EXACT = [''/'', ''/api/'', ''/api'', ''/errors'', ''/api/errors'', ''/api/tenants'',
     ''/api-docs-json'', ''/api/metrics'', ''/openapi'']"

definition STATIC_EXEMPT_PREFIXES :: "string list" where
  "STATIC_EXEMPT_PREFIXES = [''/health/'', ''/docs/'', ''/errors/'', ''/hub/static/'', ''/api/me/'',
     ''/api/tenants/'', ''/api/files/share/'']"

definition isTenantExempt :: "request_env \<Rightarrow> string \<Rightarrow> reject + bool" where
  "isTenantExempt env path =
     (if \<not> truthy path then Inl Crash
      else let pure = stripQuery path
           in if pure \<in> set EXEMPT_EXACT then Inr True
              else if matches_prefix pure (resolveAuthExemptPrefix env) then Inr True
              else Inr (list_ex (matches_prefix pure) STATIC_EXEMPT_PREFIXES))"

definition requiresTenant :: "request_env \<Rightarrow> string \<Rightarrow> reject + bool" where
  "requiresTenant env path = (case isTenantExempt env path of Inl e \<Rightarrow> Inl e | Inr b \<Rightarrow> Inr (\<not> b))"

section \<open>Session requirement\<close>

definition resolveAuthPrefix :: "request_env \<Rightarrow> string" where
  "resolveAuthPrefix env =
     (let raw = nullish (en_authBasePath env) BETTER_AUTH_DEFAULT_MOUNT_PATH
      in if endsWith raw ''/'' then raw else raw @ ''/'')"

definition resolveOpenapiRequireAuth :: "request_env \<Rightarrow> bool" where
  "resolveOpenapiRequireAuth env =
     (let raw = en_openapiRequireAuth env
      in if raw = Some ''true'' \<or> raw = Some ''1'' then True
         else if raw = Some ''false'' \<or> raw = Some ''0'' then False
         else nullish (en_nodeEnv env) ''development'' = ''production'')"

definition BASE_STATIC_PUBLIC_PREFIXES :: "string list" where
  "BASE_STATIC_PUBLIC_PREFIXES = [''/health/'', ''/docs/'', ''/hub/static/'', ''/errors/'', ''/api/files/share/'']"

definition OPENAPI_PUBLIC_PREFIXES :: "string list" where
  "OPENAPI_PUBLIC_PREFIXES = [''/openapi'', ''/api/openapi'']"

definition BASE_PUBLIC_EXACT :: "string list" where
  "BASE_PUBLIC_EXACT = [''/'', ''/api/'', ''/api'', ''/errors'', ''/api/errors'']"

definition OPENAPI_PUBLIC_EXACT :: "string list" where
  "OPENAPI_PUBLIC_EXACT = [''/openapi'', ''/api-docs-json'']"

definition resolvePublicPrefixes :: "request_env \<Rightarrow> string list" where
  "resolvePublicPrefixes env =
     (if resolveOpenapiRequireAuth env then BASE_STATIC_PUBLIC_PREFIXES
      else BASE_STATIC_PUBLIC_PREFIXES @ OPENAPI_PUBLIC_PREFIXES)"

definition resolvePublicExact :: "request_env \<Rightarrow> string list" where
  "resolvePublicExact env =
     (if resolveOpenapiRequireAuth env then BASE_PUBLIC_EXACT else BASE_PUBLIC_EXACT @ OPENAPI_PUBLIC_EXACT)"

definition isPathProtected :: "request_env \<Rightarrow> string \<Rightarrow> reject + bool" where
  "isPathProtected env path =
     (if \<not> truthy path then Inl Crash
      else if path \<in> set (resolvePublicExact env) then Inr False
      else if matches_prefix path (resolveAuthPrefix env) then Inr False
      else Inr (\<not> list_ex (matches_prefix path) (resolvePublicPrefixes env)))"

section \<open>The operator portal\<close>

definition isHubPortalStaticAsset :: "string \<Rightarrow> bool" where
  "isHubPortalStaticAsset path = startsWith path ''/hub/static/''"

definition isHubPortalLoginPath :: "string \<Rightarrow> bool" where
  "isHubPortalLoginPath path = (path = ''/'')"

definition isHubPortalAccessProbePath :: "string \<Rightarrow> bool" where
  "isHubPortalAccessProbePath path = (path = ''/hub/portal-access.json'')"

definition isHubAdminPortalPath :: "string \<Rightarrow> bool" where
  "isHubAdminPortalPath path = (path = ''/hub/admin'' \<or> startsWith path ''/hub/admin/'')"

definition isLegacyAdminPortalPath :: "string \<Rightarrow> bool" where
  "isLegacyAdminPortalPath path = (path = ''/admin'' \<or> startsWith path ''/admin/'')"

definition isHubCockpitPath :: "string \<Rightarrow> bool" where
  "isHubCockpitPath path =
     (if isHubPortalStaticAsset path then False
      else if isHubPortalAccessProbePath path then False
      else if isHubAdminPortalPath path then False
      else path = ''/hub'' \<or> startsWith path ''/hub/'')"

definition isTenantAdminPortalPath :: "string \<Rightarrow> bool" where
  "isTenantAdminPortalPath path = (isHubAdminPortalPath path \<or> isLegacyAdminPortalPath path)"

definition isHubPortalProtectedPath :: "string \<Rightarrow> bool" where
  "isHubPortalProtectedPath path =
     (if isHubPortalStaticAsset path then False
      else if path = ''/hub'' \<or> startsWith path ''/hub/'' then True
      else if path = ''/admin'' \<or> startsWith path ''/admin/'' then True
      else False)"

definition prefersHubPortalHtmlResponse :: "string option \<Rightarrow> string option \<Rightarrow> bool" where
  "prefersHubPortalHtmlResponse method acceptHeader =
     (if method \<noteq> None \<and> method \<noteq> Some ''GET'' \<and> method \<noteq> Some ''HEAD'' then False
      else let accept = nullish acceptHeader []
           in if str_includes accept ''text/html'' then True
              else str_includes accept ''*/*'' \<and> \<not> str_includes accept ''application/json'')"

definition prefersHubPortalLoginRedirect :: "string \<Rightarrow> string option \<Rightarrow> string option \<Rightarrow> bool" where
  "prefersHubPortalLoginRedirect path method acceptHeader =
     (if \<not> isHubPortalProtectedPath path then False else prefersHubPortalHtmlResponse method acceptHeader)"

definition canAccessHub :: "can_fn \<Rightarrow> ability option \<Rightarrow> bool" where
  "canAccessHub can ability = (case ability of None \<Rightarrow> False | Some a \<Rightarrow> grantsHubPortalAccess can a)"

definition canAccessTenantAdmin :: "can_fn \<Rightarrow> ability option \<Rightarrow> bool" where
  "canAccessTenantAdmin can ability =
     (case ability of None \<Rightarrow> False
      | Some a \<Rightarrow> canManageSubject can a ''all'' \<or> canManageSubject can a ''User'' \<or>
          canManageSubject can a ''TenantAdmin'' \<or> canManageSubject can a ''Role'' \<or>
          canManageSubject can a ''Policy'' \<or> canManageSubject can a ''Permission'')"

datatype HubSurfaceTier = operational | workstation

definition isHubSurfaceAvailable :: "AppEnv \<Rightarrow> bool \<Rightarrow> HubSurfaceTier \<Rightarrow> bool" where
  "isHubSurfaceAvailable env hubEnabled tier =
     (if env = development then True else if tier = workstation then False else hubEnabled)"

record outside_dev_input =
  od_hubEnabled :: bool
  od_authenticated :: bool
  od_isProbePath :: bool
  od_isCockpitPath :: bool
  od_isTenantAdminPath :: bool
  od_hubAllowed :: bool
  od_tenantAdminAllowed :: bool

datatype outside_dev_decision = PassThrough | AllowRequest | MaskNotFound

definition evaluateHubPortalRequestOutsideDev :: "outside_dev_input \<Rightarrow> outside_dev_decision" where
  "evaluateHubPortalRequestOutsideDev i =
     (if \<not> od_hubEnabled i then PassThrough
      else if \<not> od_authenticated i then MaskNotFound
      else if od_isProbePath i then AllowRequest
      else if od_isCockpitPath i \<and> od_hubAllowed i then AllowRequest
      else if od_isTenantAdminPath i \<and> od_tenantAdminAllowed i then AllowRequest
      else MaskNotFound)"

section \<open>Facts about paths\<close>

lemma indexOf_nonneg: "indexOf c s \<ge> 0 \<longleftrightarrow> c \<in> set s"
proof -
  have "length (takeWhile (\<lambda>d. d \<noteq> c) s) < length s \<longleftrightarrow> c \<in> set s"
    by (induction s) auto
  then show ?thesis by (simp add: indexOf_def Let_def)
qed

lemma indexOf_val: "c \<in> set s \<Longrightarrow> indexOf c s = int (length (takeWhile (\<lambda>d. d \<noteq> c) s))"
  using indexOf_nonneg[of c s] by (auto simp: indexOf_def Let_def split: if_splits)

lemma takeWhile_absent: "c \<notin> set s \<Longrightarrow> takeWhile (\<lambda>d. d \<noteq> c) s = s"
  by (induction s) auto

lemma takeWhile_both:
  "takeWhile (\<lambda>x. P x \<and> Q x) s = take (min (length (takeWhile P s)) (length (takeWhile Q s))) s"
  by (induction s) auto

text \<open>Stripping cuts at the first \<open>?\<close> or \<open>#\<close>.\<close>

lemma stripQuery_takeWhile: "stripQuery path = takeWhile (\<lambda>c. c \<noteq> CHR ''?'' \<and> c \<noteq> CHR ''#'') path"
proof -
  have full: "length (takeWhile (\<lambda>d. d \<noteq> c) path) = length path" if "c \<notin> set path" for c
    using that by (simp add: takeWhile_absent)
  have le: "length (takeWhile (\<lambda>d. d \<noteq> c) path) \<le> length path" for c by (rule length_takeWhile_le)
  show ?thesis
    unfolding stripQuery_def takeWhile_both Let_def
    using indexOf_nonneg[of _ path] indexOf_val[of _ path] full le
    by (cases "CHR ''?'' \<in> set path"; cases "CHR ''#'' \<in> set path") (auto simp: min_def nat_int)
qed

lemma stripQuery_idem [simp]: "stripQuery (stripQuery p) = stripQuery p"
  unfolding stripQuery_takeWhile by (rule takeWhile_idem)

lemma stripQuery_ne: "stripQuery p \<noteq> [] \<Longrightarrow> p \<noteq> []"
  by (auto simp: stripQuery_takeWhile)

definition openapi_page :: "string \<Rightarrow> bool" where
  "openapi_page path = list_ex (matches_prefix path) OPENAPI_PUBLIC_PREFIXES"

text \<open>the two classifiers agree: every path that may be called without a session, the pages of the API description
  apart, is also exempt from the tenant requirement, whatever the environment and whatever query string follows.\<close>

theorem public_paths_need_no_tenant:
  assumes "isPathProtected env (stripQuery path) = Inr False"
    and "resolveOpenapiRequireAuth env \<or> \<not> openapi_page (stripQuery path)"
  shows "isTenantExempt env path = Inr True"
proof -
  let ?p = "stripQuery path"
  have ne: "path \<noteq> []" using assms(1) stripQuery_ne[of path] by (auto simp: isPathProtected_def split: if_splits)
  have "set (resolvePublicExact env) \<subseteq> set EXEMPT_EXACT"
    by (auto simp: resolvePublicExact_def BASE_PUBLIC_EXACT_def OPENAPI_PUBLIC_EXACT_def EXEMPT_EXACT_def)
  moreover have "list_ex (matches_prefix ?p) STATIC_EXEMPT_PREFIXES"
    if "list_ex (matches_prefix ?p) (resolvePublicPrefixes env)"
  proof -
    have "list_ex (matches_prefix ?p) BASE_STATIC_PUBLIC_PREFIXES"
      using that assms(2) by (auto simp: resolvePublicPrefixes_def openapi_page_def split: if_splits)
    then show ?thesis by (auto simp: BASE_STATIC_PUBLIC_PREFIXES_def STATIC_EXEMPT_PREFIXES_def)
  qed
  moreover have "resolveAuthPrefix env = resolveAuthExemptPrefix env"
    by (simp add: resolveAuthPrefix_def resolveAuthExemptPrefix_def)
  ultimately show ?thesis
    using assms(1) ne by (auto simp: isTenantExempt_def isPathProtected_def Let_def split: if_splits)
qed

text \<open>An empty or bare-slash \<open>BETTER_AUTH_BASE_PATH\<close> turns the exempt prefix into \<open>/\<close>: no path requires a tenant, and
  none a session.\<close>

theorem bare_auth_base_path_exempts_all:
  assumes "en_authBasePath env = Some base" "base \<in> {[], ''/''}" "stripQuery path = CHR ''/'' # rest"
  shows "isTenantExempt env path = Inr True \<and> isPathProtected env (stripQuery path) = Inr False"
proof -
  have "path \<noteq> []" using assms(3) stripQuery_ne[of path] by auto
  moreover have "resolveAuthExemptPrefix env = ''/''" "resolveAuthPrefix env = ''/''"
    using assms(1,2) by (auto simp: resolveAuthExemptPrefix_def resolveAuthPrefix_def js_simps)
  ultimately show ?thesis
    using assms(3) by (auto simp: isTenantExempt_def isPathProtected_def matches_prefix_def startsWith_def Let_def)
qed

definition default_env :: request_env where
  "default_env = \<lparr>en_authBasePath = None, en_openapiRequireAuth = None, en_nodeEnv = Some ''production'', en_vitest = None,
     en_hubEnabled = False, en_multiTenancy = True, en_appEnv = production\<rparr>"

text \<open>The canonical description of the API is not in the list of exempt paths, unlike its legacy alias.\<close>

lemma openapi_json_requires_tenant:
  "isTenantExempt default_env ''/api/openapi.json'' = Inr False" "isTenantExempt default_env ''/api-docs-json'' = Inr True"
  by code_simp+

theorem public_paths_need_no_tenant_witness: "isTenantExempt default_env ''/errors?format=json'' = Inr True"
proof (rule public_paths_need_no_tenant)
  show "isPathProtected default_env (stripQuery ''/errors?format=json'') = Inr False" by code_simp
  show "resolveOpenapiRequireAuth default_env \<or> \<not> openapi_page (stripQuery ''/errors?format=json'')" by code_simp
qed

end
