(* ===== verification/Api_Keys.thy ===== *)
theory Api_Keys
  imports Uuid Permissions
begin

text \<open>
  Scoped API keys: \<open>src/core/auth/api-keys/api-key.service.ts\<close> (issue, verify, rotate, revoke), its two
  storages (\<open>api-key-storage.prisma.ts\<close> and the in-memory one of \<open>api-key.module.ts\<close>), the REST
  controller, and the expiry notices (\<open>api-key-expiry.notifier.ts\<close>, \<open>api-key-expiry.runner.ts\<close>).

  Argon2 is a pair of arguments, \<open>argonHash\<close> and \<open>argonVerify\<close>; the random bytes and the clock are
  arguments too.  A storage answers or reports a unique-key violation; lost connections are not
  modelled.
\<close>

section \<open>Data\<close>

record api_key =
  ak_id :: string
  ak_lookupId :: string
  ak_hash :: string
  ak_name :: string
  ak_scopes :: "string list"
  ak_userId :: string
  ak_expiresAt :: "millis option"
  ak_lastUsedAt :: "millis option"

datatype key_error =
    ApiKeyInvalid
  | ApiKeyExpired
  | ApiKeyNotFound string
  | KeyScope perm_error
  | UniqueViolation
  | KeyBadRequest

record 's api_key_storage =
  ks_insert :: "millis \<Rightarrow> api_key \<Rightarrow> 's \<Rightarrow> key_error + (api_key \<times> 's)"
  ks_findById :: "string \<Rightarrow> 's \<Rightarrow> api_key option"
  ks_findByLookupId :: "string \<Rightarrow> 's \<Rightarrow> api_key option"
  ks_listByUser :: "string \<Rightarrow> 's \<Rightarrow> api_key list"
  ks_delete :: "string \<Rightarrow> 's \<Rightarrow> bool \<times> 's"
  ks_updateLastUsed :: "string \<Rightarrow> millis \<Rightarrow> 's \<Rightarrow> bool \<times> 's"
  ks_rotate :: "string \<Rightarrow> string \<Rightarrow> string \<Rightarrow> 's \<Rightarrow> key_error + (api_key option \<times> 's)"

record create_key_input =
  ci_userId :: string
  ci_name :: string
  ci_scopes :: "string list"
  ci_expiresAt :: "millis option"

text \<open>What one issuing call draws: the bytes and the clock of the two identifiers, and the secret.\<close>

record key_randomness =
  kr_lookup :: "8 word list"
  kr_lookup_ms :: nat
  kr_id :: "8 word list"
  kr_id_ms :: nat
  kr_secret :: "8 word list"

section \<open>The service\<close>

definition PREFIX :: string where "PREFIX = ''nst_pk_''"

definition SECRET_BYTES :: nat where "SECRET_BYTES = 32"

text \<open>\<open>Buffer.toString("hex")\<close>.\<close>

definition hex_string :: "8 word list \<Rightarrow> string" where
  "hex_string bytes = concat (map (\<lambda>b. padStart 2 CHR ''0'' (toString16 b)) bytes)"

definition is_lower_hex :: "char \<Rightarrow> bool" where
  "is_lower_hex c = (let n = of_char c :: nat in (48 \<le> n \<and> n \<le> 57) \<or> (97 \<le> n \<and> n \<le> 102))"

text \<open>\<open>PLAINTEXT_RE\<close> has groups of fixed length, so the match is positional.\<close>

definition match_plaintext :: "string \<Rightarrow> (string \<times> string) option" where
  "match_plaintext s =
     (if length s = 108 \<and> startsWith s PREFIX \<and>
         list_all (\<lambda>c. is_lower_hex c \<or> c = CHR ''-'') (take 36 (drop 7 s)) \<and>
         s ! 43 = CHR ''_'' \<and> list_all is_lower_hex (drop 44 s)
      then Some (take 36 (drop 7 s), drop 44 s) else None)"

definition plaintext_of :: "string \<Rightarrow> string \<Rightarrow> string" where
  "plaintext_of lookupId secret = PREFIX @ lookupId @ ''_'' @ secret"

definition createKey ::
  "'s api_key_storage \<Rightarrow> (string \<Rightarrow> string) \<Rightarrow> key_randomness \<Rightarrow> millis \<Rightarrow> create_key_input \<Rightarrow> 's
   \<Rightarrow> (key_error + string \<times> api_key) \<times> 's" where
  "createKey st argonHash rnd now input s =
     (case validateApiKeyScopes (ci_scopes input) of
        Inl e \<Rightarrow> (Inl (KeyScope e), s)
      | Inr _ \<Rightarrow>
          let lookupId = uuidV7 (kr_lookup rnd) (kr_lookup_ms rnd);
              secret = hex_string (kr_secret rnd);
              hash = argonHash secret;
              record = \<lparr>ak_id = uuidV7 (kr_id rnd) (kr_id_ms rnd), ak_lookupId = lookupId, ak_hash = hash,
                ak_name = ci_name input, ak_scopes = ci_scopes input, ak_userId = ci_userId input,
                ak_expiresAt = ci_expiresAt input, ak_lastUsedAt = None\<rparr>
          in case ks_insert st now record s of
               Inl e \<Rightarrow> (Inl e, s)
             | Inr (stored, s') \<Rightarrow> (Inr (plaintext_of lookupId secret, stored), s'))"

text \<open>\<open>verifyKey\<close> up to and including the Argon2 check: the record read from the storage is what the
  rest works on.\<close>

definition verify_begin ::
  "'s api_key_storage \<Rightarrow> (string \<Rightarrow> string \<Rightarrow> bool) \<Rightarrow> millis \<Rightarrow> string \<Rightarrow> 's \<Rightarrow> key_error + api_key" where
  "verify_begin st argonVerify now plaintext s =
     (case match_plaintext plaintext of
        None \<Rightarrow> Inl ApiKeyInvalid
      | Some (lookupId, secret) \<Rightarrow> (case ks_findByLookupId st lookupId s of
            None \<Rightarrow> Inl ApiKeyInvalid
          | Some key \<Rightarrow>
              if (case ak_expiresAt key of None \<Rightarrow> False | Some e \<Rightarrow> e \<le> now) then Inl ApiKeyExpired
              else if \<not> argonVerify (ak_hash key) secret then Inl ApiKeyInvalid
              else Inr key))"

text \<open>The stamp and the result; the storage may have changed since the record was read.\<close>

definition verify_finish ::
  "'s api_key_storage \<Rightarrow> millis \<Rightarrow> api_key \<Rightarrow> 's \<Rightarrow> (key_error + string \<times> string list) \<times> 's" where
  "verify_finish st now key s =
     (case ks_updateLastUsed st (ak_id key) now s of
        (stamped, s') \<Rightarrow> if \<not> stamped then (Inl ApiKeyInvalid, s') else (Inr (ak_userId key, ak_scopes key), s'))"

definition verifyKey ::
  "'s api_key_storage \<Rightarrow> (string \<Rightarrow> string \<Rightarrow> bool) \<Rightarrow> millis \<Rightarrow> string \<Rightarrow> 's
   \<Rightarrow> (key_error + string \<times> string list) \<times> 's" where
  "verifyKey st argonVerify now plaintext s =
     (case verify_begin st argonVerify now plaintext s of
        Inl e \<Rightarrow> (Inl e, s) | Inr key \<Rightarrow> verify_finish st now key s)"

definition rotateKey ::
  "'s api_key_storage \<Rightarrow> (string \<Rightarrow> string) \<Rightarrow> key_randomness \<Rightarrow> string \<Rightarrow> 's
   \<Rightarrow> (key_error + string \<times> api_key) \<times> 's" where
  "rotateKey st argonHash rnd keyId s =
     (case ks_findById st keyId s of
        None \<Rightarrow> (Inl (ApiKeyNotFound keyId), s)
      | Some existing \<Rightarrow>
          let lookupId = uuidV7 (kr_lookup rnd) (kr_lookup_ms rnd);
              secret = hex_string (kr_secret rnd);
              hash = argonHash secret
          in case ks_rotate st (ak_id existing) lookupId hash s of
               Inl e \<Rightarrow> (Inl e, s)
             | Inr (None, s') \<Rightarrow> (Inl (ApiKeyNotFound (ak_id existing)), s')
             | Inr (Some updated, s') \<Rightarrow> (Inr (plaintext_of lookupId secret, updated), s'))"

definition listByUser :: "'s api_key_storage \<Rightarrow> string \<Rightarrow> 's \<Rightarrow> api_key list" where
  "listByUser st userId s = ks_listByUser st userId s"

definition revoke :: "'s api_key_storage \<Rightarrow> string \<Rightarrow> 's \<Rightarrow> (key_error + unit) \<times> 's" where
  "revoke st keyId s =
     (case ks_delete st keyId s of (removed, s') \<Rightarrow>
        if \<not> removed then (Inl (ApiKeyNotFound keyId), s') else (Inr (), s'))"

section \<open>The controller\<close>

text \<open>The route guard has run before; the bodies below are what a handler does with its parameters.\<close>

definition controller_create ::
  "'s api_key_storage \<Rightarrow> (string \<Rightarrow> string) \<Rightarrow> key_randomness \<Rightarrow> millis \<Rightarrow> create_key_input \<Rightarrow> 's
   \<Rightarrow> (key_error + string \<times> api_key) \<times> 's" where
  "controller_create st argonHash rnd now body s =
     (if \<not> truthy (ci_userId body) \<or> \<not> truthy (ci_name body) then (Inl KeyBadRequest, s)
      else case createKey st argonHash rnd now body s of
        (Inl (KeyScope e), s') \<Rightarrow> (Inl KeyBadRequest, s') | r \<Rightarrow> r)"

definition controller_list :: "'s api_key_storage \<Rightarrow> string \<Rightarrow> 's \<Rightarrow> api_key list" where
  "controller_list st userId s = listByUser st userId s"

definition controller_rotate ::
  "'s api_key_storage \<Rightarrow> (string \<Rightarrow> string) \<Rightarrow> key_randomness \<Rightarrow> string \<Rightarrow> 's
   \<Rightarrow> (key_error + string \<times> api_key) \<times> 's" where
  "controller_rotate st argonHash rnd keyId s = rotateKey st argonHash rnd keyId s"

definition controller_remove :: "'s api_key_storage \<Rightarrow> string \<Rightarrow> 's \<Rightarrow> (key_error + bool) \<times> 's" where
  "controller_remove st keyId s =
     (case revoke st keyId s of (Inl e, s') \<Rightarrow> (Inl e, s') | (Inr _, s') \<Rightarrow> (Inr True, s'))"

section \<open>The in-memory storage\<close>

type_synonym memory_keys = "(string \<times> api_key) list"

definition memk_insert :: "millis \<Rightarrow> api_key \<Rightarrow> memory_keys \<Rightarrow> key_error + (api_key \<times> memory_keys)" where
  "memk_insert now r m = Inr (r, map_set (ak_id r) r m)"

definition memk_findById :: "string \<Rightarrow> memory_keys \<Rightarrow> api_key option" where
  "memk_findById keyId m = map_get m keyId"

definition memk_findByLookupId :: "string \<Rightarrow> memory_keys \<Rightarrow> api_key option" where
  "memk_findByLookupId lookupId m = find_first (\<lambda>r. ak_lookupId r = lookupId) (map snd m)"

definition memk_listByUser :: "string \<Rightarrow> memory_keys \<Rightarrow> api_key list" where
  "memk_listByUser userId m = filter (\<lambda>r. ak_userId r = userId) (map snd m)"

definition memk_delete :: "string \<Rightarrow> memory_keys \<Rightarrow> bool \<times> memory_keys" where
  "memk_delete keyId m = (map_get m keyId \<noteq> None, map_delete keyId m)"

definition memk_updateLastUsed :: "string \<Rightarrow> millis \<Rightarrow> memory_keys \<Rightarrow> bool \<times> memory_keys" where
  "memk_updateLastUsed keyId at m = (case map_get m keyId of None \<Rightarrow> (False, m)
     | Some r \<Rightarrow> (True, map_set keyId (r\<lparr>ak_lastUsedAt := Some at\<rparr>) m))"

definition memk_rotate :: "string \<Rightarrow> string \<Rightarrow> string \<Rightarrow> memory_keys \<Rightarrow> key_error + (api_key option \<times> memory_keys)" where
  "memk_rotate keyId lookupId hash m = (case map_get m keyId of None \<Rightarrow> Inr (None, m)
     | Some r \<Rightarrow> let updated = r\<lparr>ak_lookupId := lookupId, ak_hash := hash\<rparr>
                in Inr (Some updated, map_set keyId updated m))"

definition memory_key_storage :: "memory_keys api_key_storage" where
  "memory_key_storage = \<lparr>ks_insert = memk_insert, ks_findById = memk_findById, ks_findByLookupId = memk_findByLookupId,
     ks_listByUser = memk_listByUser, ks_delete = memk_delete, ks_updateLastUsed = memk_updateLastUsed,
     ks_rotate = memk_rotate\<rparr>"

section \<open>The Postgres storage\<close>

text \<open>The column \<open>updated_at\<close>, which the client library maintains and nothing reads, is left out.\<close>

record api_key_row = api_key +
  kw_lastNotifiedAt :: "millis option"
  kw_createdAt :: millis

type_synonym key_table = "api_key_row list"

definition key_toRow :: "millis \<Rightarrow> api_key \<Rightarrow> api_key_row" where
  "key_toRow now r = \<lparr>ak_id = ak_id r, ak_lookupId = ak_lookupId r, ak_hash = ak_hash r, ak_name = ak_name r,
     ak_scopes = ak_scopes r, ak_userId = ak_userId r, ak_expiresAt = ak_expiresAt r, ak_lastUsedAt = ak_lastUsedAt r,
     kw_lastNotifiedAt = None, kw_createdAt = now\<rparr>"

definition key_fromRow :: "api_key_row \<Rightarrow> api_key" where
  "key_fromRow row = \<lparr>ak_id = ak_id row, ak_lookupId = ak_lookupId row, ak_hash = ak_hash row, ak_name = ak_name row,
     ak_scopes = ak_scopes row, ak_userId = ak_userId row, ak_expiresAt = ak_expiresAt row,
     ak_lastUsedAt = ak_lastUsedAt row\<rparr>"

definition pgk_insert :: "millis \<Rightarrow> api_key \<Rightarrow> key_table \<Rightarrow> key_error + (api_key \<times> key_table)" where
  "pgk_insert now r t =
     (if list_ex (\<lambda>row. ak_id row = ak_id r \<or> ak_lookupId row = ak_lookupId r) t then Inl UniqueViolation
      else Inr (key_fromRow (key_toRow now r), t @ [key_toRow now r]))"

definition pgk_findById :: "string \<Rightarrow> key_table \<Rightarrow> api_key option" where
  "pgk_findById keyId t = map_option key_fromRow (find_first (\<lambda>row. ak_id row = keyId) t)"

definition pgk_findByLookupId :: "string \<Rightarrow> key_table \<Rightarrow> api_key option" where
  "pgk_findByLookupId lookupId t = map_option key_fromRow (find_first (\<lambda>row. ak_lookupId row = lookupId) t)"

definition pgk_listByUser :: "string \<Rightarrow> key_table \<Rightarrow> api_key list" where
  "pgk_listByUser userId t = map key_fromRow (sort_by (\<lambda>a b. kw_createdAt a \<le> kw_createdAt b)
     (filter (\<lambda>row. ak_userId row = userId) t))"

text \<open>A missing row (P2025) makes \<open>delete\<close> and \<open>update\<close> report \<open>false\<close> or \<open>null\<close>.\<close>

definition pgk_delete :: "string \<Rightarrow> key_table \<Rightarrow> bool \<times> key_table" where
  "pgk_delete keyId t = (list_ex (\<lambda>row. ak_id row = keyId) t, filter (\<lambda>row. ak_id row \<noteq> keyId) t)"

definition pgk_updateLastUsed :: "string \<Rightarrow> millis \<Rightarrow> key_table \<Rightarrow> bool \<times> key_table" where
  "pgk_updateLastUsed keyId at t = (list_ex (\<lambda>row. ak_id row = keyId) t,
     update_where (\<lambda>row. ak_id row = keyId) (\<lambda>row. row\<lparr>ak_lastUsedAt := Some at\<rparr>) t)"

definition pgk_rotate :: "string \<Rightarrow> string \<Rightarrow> string \<Rightarrow> key_table \<Rightarrow> key_error + (api_key option \<times> key_table)" where
  "pgk_rotate keyId lookupId hash t =
     (if list_ex (\<lambda>row. ak_lookupId row = lookupId \<and> ak_id row \<noteq> keyId) t \<and> list_ex (\<lambda>row. ak_id row = keyId) t
      then Inl UniqueViolation
      else let t' = update_where (\<lambda>row. ak_id row = keyId) (\<lambda>row. row\<lparr>ak_lookupId := lookupId, ak_hash := hash\<rparr>) t
           in Inr (map_option key_fromRow (find_first (\<lambda>row. ak_id row = keyId) t'), t'))"

definition pg_key_storage :: "key_table api_key_storage" where
  "pg_key_storage = \<lparr>ks_insert = pgk_insert, ks_findById = pgk_findById, ks_findByLookupId = pgk_findByLookupId,
     ks_listByUser = pgk_listByUser, ks_delete = pgk_delete, ks_updateLastUsed = pgk_updateLastUsed,
     ks_rotate = pgk_rotate\<rparr>"

section \<open>Expiry notices\<close>

record expiry_record =
  xr_id :: string
  xr_userId :: string
  xr_expiresAt :: "millis option"
  xr_lastNotifiedAt :: "millis option"

record expiry_notification =
  xn_keyId :: string
  xn_userId :: string
  xn_expiresAt :: millis
  xn_daysUntilExpiry :: int

definition ONE_DAY_MS :: millis where "ONE_DAY_MS = 24 * 60 * 60 * 1000"

definition DEFAULT_WARN_WITHIN_MS :: millis where "DEFAULT_WARN_WITHIN_MS = 7 * 24 * 60 * 60 * 1000"

definition DEFAULT_COOLDOWN_MS :: millis where "DEFAULT_COOLDOWN_MS = 24 * 60 * 60 * 1000"

definition plan_notice :: "millis \<Rightarrow> millis \<Rightarrow> millis \<Rightarrow> expiry_record \<Rightarrow> expiry_notification option" where
  "plan_notice now warnWithinMs notifyCooldownMs key =
     (case xr_expiresAt key of None \<Rightarrow> None
      | Some e \<Rightarrow>
          if e \<le> now then None
          else if e > now + warnWithinMs then None
          else if (case xr_lastNotifiedAt key of None \<Rightarrow> False | Some l \<Rightarrow> now - l < notifyCooldownMs) then None
          else Some \<lparr>xn_keyId = xr_id key, xn_userId = xr_userId key, xn_expiresAt = e,
                     xn_daysUntilExpiry = (e - now) div ONE_DAY_MS\<rparr>)"

definition planExpiryNotifications :: "millis \<Rightarrow> millis \<Rightarrow> millis \<Rightarrow> expiry_record list \<Rightarrow> expiry_notification list" where
  "planExpiryNotifications now warnWithinMs notifyCooldownMs keys =
     List.map_filter (plan_notice now warnWithinMs notifyCooldownMs) keys"

definition readExpiringApiKeys :: "millis \<Rightarrow> key_table \<Rightarrow> expiry_record list" where
  "readExpiringApiKeys now t = map (\<lambda>row. \<lparr>xr_id = ak_id row, xr_userId = ak_userId row,
       xr_expiresAt = ak_expiresAt row, xr_lastNotifiedAt = kw_lastNotifiedAt row\<rparr>)
     (filter (\<lambda>row. case ak_expiresAt row of None \<Rightarrow> False | Some e \<Rightarrow> e > now) t)"

definition markApiKeyNotified :: "string \<Rightarrow> millis \<Rightarrow> key_table \<Rightarrow> key_table" where
  "markApiKeyNotified keyId atMs t =
     update_where (\<lambda>row. ak_id row = keyId) (\<lambda>row. row\<lparr>kw_lastNotifiedAt := Some atMs\<rparr>) t"

text \<open>The tick: \<open>sends n\<close> tells whether sending succeeds; a failure leaves the watermark alone.\<close>

fun notify_loop :: "(expiry_notification \<Rightarrow> bool) \<Rightarrow> millis \<Rightarrow> expiry_notification list \<Rightarrow> key_table
    \<Rightarrow> expiry_notification list \<times> key_table" where
  "notify_loop sends now [] t = ([], t)"
| "notify_loop sends now (n # ns) t =
     (if sends n then (case notify_loop sends now ns (markApiKeyNotified (xn_keyId n) now t) of
         (done, t') \<Rightarrow> (n # done, t'))
      else notify_loop sends now ns t)"

definition expiry_tick :: "(expiry_notification \<Rightarrow> bool) \<Rightarrow> millis \<Rightarrow> key_table \<Rightarrow> expiry_notification list \<times> key_table" where
  "expiry_tick sends now t =
     notify_loop sends now (planExpiryNotifications now DEFAULT_WARN_WITHIN_MS DEFAULT_COOLDOWN_MS
       (readExpiringApiKeys now t)) t"

end
