(* ===== verification/Api_Key_Lifecycle.thy ===== *)
theory Api_Key_Lifecycle
  imports Api_Keys Ability_Rules
begin

text \<open>
  The life of an API key.  The locale \<open>key_store\<close> is the contract of a storage: it implements a finite
  map from key ids to keys in which lookup ids are unique.  Both storages are interpreted, and the
  service's guarantees are proved once over the contract.
\<close>

section \<open>The storage contract\<close>

definition lookup_fresh :: "(string \<Rightarrow> api_key option) \<Rightarrow> string \<Rightarrow> bool" where
  "lookup_fresh m l \<longleftrightarrow> (\<forall>k r. m k = Some r \<longrightarrow> ak_lookupId r \<noteq> l)"

locale key_store =
  fixes st :: "'s api_key_storage"
    and inv :: "'s \<Rightarrow> bool"
    and abs :: "'s \<Rightarrow> string \<Rightarrow> api_key option"
  assumes insert_fresh: "inv s \<Longrightarrow> abs s (ak_id r) = None \<Longrightarrow> lookup_fresh (abs s) (ak_lookupId r) \<Longrightarrow>
      \<exists>s'. ks_insert st now r s = Inr (r, s') \<and> inv s' \<and> abs s' = (abs s)(ak_id r \<mapsto> r)"
    and find_id: "inv s \<Longrightarrow> ks_findById st k s = abs s k"
    and abs_id: "inv s \<Longrightarrow> abs s k = Some r \<Longrightarrow> ak_id r = k"
    and find_lookup: "inv s \<Longrightarrow> ks_findByLookupId st l s = Some r \<longleftrightarrow> abs s (ak_id r) = Some r \<and> ak_lookupId r = l"
    and delete_spec: "inv s \<Longrightarrow> ks_delete st k s = (b, s') \<Longrightarrow>
      (b \<longleftrightarrow> abs s k \<noteq> None) \<and> inv s' \<and> abs s' = (abs s)(k := None)"
    and stamp_spec: "inv s \<Longrightarrow> ks_updateLastUsed st k at s = (b, s') \<Longrightarrow>
      (b \<longleftrightarrow> abs s k \<noteq> None) \<and> inv s' \<and>
      abs s' = (abs s)(k := map_option (\<lambda>r. r\<lparr>ak_lastUsedAt := Some at\<rparr>) (abs s k))"
    and rotate_spec: "inv s \<Longrightarrow> lookup_fresh (abs s) l \<Longrightarrow> abs s k = Some r \<Longrightarrow>
      \<exists>s'. ks_rotate st k l h s = Inr (Some (r\<lparr>ak_lookupId := l, ak_hash := h\<rparr>), s') \<and> inv s' \<and>
        abs s' = (abs s)(k \<mapsto> r\<lparr>ak_lookupId := l, ak_hash := h\<rparr>)"
begin

lemma lookup_unique: "inv s \<Longrightarrow> abs s k = Some r \<Longrightarrow> abs s k' = Some r' \<Longrightarrow> ak_lookupId r = ak_lookupId r' \<Longrightarrow> k = k'"
  using find_lookup abs_id by (metis option.inject)

lemma lookup_missing: "inv s \<Longrightarrow> lookup_fresh (abs s) l \<Longrightarrow> ks_findByLookupId st l s = None"
  using find_lookup[of s l] unfolding lookup_fresh_def by (cases "ks_findByLookupId st l s") auto

lemma verify_of:
  assumes "inv s" "abs s k = Some key" "match_plaintext pt = Some (ak_lookupId key, secret)"
    "argonVerify (ak_hash key) secret" "case ak_expiresAt key of None \<Rightarrow> True | Some e \<Rightarrow> now < e"
  shows "\<exists>s'. verifyKey st argonVerify now pt s = (Inr (ak_userId key, ak_scopes key), s')"
proof -
  have k: "ak_id key = k" using abs_id assms(1,2) by blast
  then have "ks_findByLookupId st (ak_lookupId key) s = Some key" using find_lookup assms(1,2) by blast
  then have b: "verify_begin st argonVerify now pt s = Inr key"
    using assms by (auto simp: verify_begin_def split: option.splits)
  obtain st' s' where u: "ks_updateLastUsed st (ak_id key) now s = (st', s')" by fastforce
  with stamp_spec[OF assms(1) u] assms(2) k have st' by simp
  with u b show ?thesis by (simp add: verifyKey_def verify_finish_def)
qed

lemma verify_missing:
  "inv s \<Longrightarrow> lookup_fresh (abs s) l \<Longrightarrow> match_plaintext pt = Some (l, secret) \<Longrightarrow>
   verifyKey st argonVerify now pt s = (Inl ApiKeyInvalid, s)"
  by (simp add: verifyKey_def verify_begin_def lookup_missing)

lemma dropped_lookup_fresh:
  assumes "inv s" "abs s k = Some key"
  shows "lookup_fresh ((abs s)(k := None)) (ak_lookupId key)"
    "ak_lookupId r \<noteq> ak_lookupId key \<Longrightarrow> lookup_fresh ((abs s)(k \<mapsto> r)) (ak_lookupId key)"
  using lookup_unique[OF assms] by (auto simp: lookup_fresh_def)

lemma create_then_verify:
  assumes "inv s" and scopes: "validateApiKeyScopes (ci_scopes input) = Inr ()"
    and fresh: "abs s (uuidV7 (kr_id rnd) (kr_id_ms rnd)) = None"
      "lookup_fresh (abs s) (uuidV7 (kr_lookup rnd) (kr_lookup_ms rnd))"
    and match: "match_plaintext (plaintext_of (uuidV7 (kr_lookup rnd) (kr_lookup_ms rnd)) (hex_string (kr_secret rnd))) =
      Some (uuidV7 (kr_lookup rnd) (kr_lookup_ms rnd), hex_string (kr_secret rnd))"
    and argon: "argonVerify (argonHash (hex_string (kr_secret rnd))) (hex_string (kr_secret rnd))"
    and alive: "case ci_expiresAt input of None \<Rightarrow> True | Some e \<Rightarrow> now' < e"
  shows "\<exists>pt key s' s''. createKey st argonHash rnd now input s = (Inr (pt, key), s') \<and> inv s' \<and>
    verifyKey st argonVerify now' pt s' = (Inr (ci_userId input, ci_scopes input), s'')"
proof -
  define key where "key = \<lparr>ak_id = uuidV7 (kr_id rnd) (kr_id_ms rnd), ak_lookupId = uuidV7 (kr_lookup rnd) (kr_lookup_ms rnd),
     ak_hash = argonHash (hex_string (kr_secret rnd)), ak_name = ci_name input, ak_scopes = ci_scopes input,
     ak_userId = ci_userId input, ak_expiresAt = ci_expiresAt input, ak_lastUsedAt = None\<rparr>"
  let ?pt = "plaintext_of (uuidV7 (kr_lookup rnd) (kr_lookup_ms rnd)) (hex_string (kr_secret rnd))"
  obtain s' where ins: "ks_insert st now key s = Inr (key, s')" "inv s'" "abs s' = (abs s)(ak_id key \<mapsto> key)"
    using insert_fresh[OF assms(1), of key now] fresh by (auto simp: key_def)
  have "createKey st argonHash rnd now input s = (Inr (?pt, key), s')"
    using scopes ins(1) by (simp add: createKey_def key_def Let_def)
  moreover have "\<exists>s''. verifyKey st argonVerify now' ?pt s' = (Inr (ak_userId key, ak_scopes key), s'')"
    by (rule verify_of[OF ins(2), of "ak_id key"]) (use ins(3) match argon alive in \<open>simp_all add: key_def\<close>)
  ultimately show ?thesis using ins(2) by (auto simp: key_def)
qed

lemma revoked_is_dead:
  assumes "inv s" "abs s k = Some key" "match_plaintext pt = Some (ak_lookupId key, secret)"
  shows "\<exists>s'. revoke st k s = (Inr (), s') \<and> verifyKey st argonVerify now pt s' = (Inl ApiKeyInvalid, s') \<and>
    fst (verify_finish st now key s') = Inl ApiKeyInvalid"
proof -
  obtain b s' where d: "ks_delete st k s = (b, s')" by fastforce
  note del = delete_spec[OF assms(1) d]
  have "verifyKey st argonVerify now pt s' = (Inl ApiKeyInvalid, s')"
    using verify_missing[of s' "ak_lookupId key" pt secret] del dropped_lookup_fresh(1)[OF assms(1,2)] assms(3) by simp
  moreover obtain st' s'' where u: "ks_updateLastUsed st (ak_id key) now s' = (st', s'')" by fastforce
  have "\<not> st'" using stamp_spec[OF _ u] del abs_id[OF assms(1,2)] by simp
  with u have "fst (verify_finish st now key s') = Inl ApiKeyInvalid" by (simp add: verify_finish_def)
  ultimately show ?thesis using d del assms(2) by (auto simp: revoke_def)
qed

lemma rotated_is_replaced:
  assumes "inv s" "abs s k = Some key" "match_plaintext pt = Some (ak_lookupId key, secret)"
    and fresh: "lookup_fresh (abs s) (uuidV7 (kr_lookup rnd) (kr_lookup_ms rnd))"
    and match: "match_plaintext (plaintext_of (uuidV7 (kr_lookup rnd) (kr_lookup_ms rnd)) (hex_string (kr_secret rnd))) =
      Some (uuidV7 (kr_lookup rnd) (kr_lookup_ms rnd), hex_string (kr_secret rnd))"
    and argon: "argonVerify (argonHash (hex_string (kr_secret rnd))) (hex_string (kr_secret rnd))"
    and alive: "case ak_expiresAt key of None \<Rightarrow> True | Some e \<Rightarrow> now < e"
  shows "\<exists>pt' key' s' s''. rotateKey st argonHash rnd k s = (Inr (pt', key'), s') \<and>
    verifyKey st argonVerify now pt s' = (Inl ApiKeyInvalid, s') \<and>
    verifyKey st argonVerify now pt' s' = (Inr (ak_userId key, ak_scopes key), s'')"
proof -
  let ?l = "uuidV7 (kr_lookup rnd) (kr_lookup_ms rnd)"
  let ?key' = "key\<lparr>ak_lookupId := ?l, ak_hash := argonHash (hex_string (kr_secret rnd))\<rparr>"
  let ?pt' = "plaintext_of ?l (hex_string (kr_secret rnd))"
  have k: "ak_id key = k" by (rule abs_id[OF assms(1,2)])
  obtain s' where rot: "ks_rotate st k ?l (argonHash (hex_string (kr_secret rnd))) s = Inr (Some ?key', s')" "inv s'"
    "abs s' = (abs s)(k \<mapsto> ?key')" using rotate_spec[OF assms(1) fresh assms(2)] by blast
  have "?l \<noteq> ak_lookupId key" using fresh assms(2) unfolding lookup_fresh_def by metis
  then have "lookup_fresh (abs s') (ak_lookupId key)"
    unfolding rot(3) by (intro dropped_lookup_fresh(2)[OF assms(1,2)]) simp
  then have "verifyKey st argonVerify now pt s' = (Inl ApiKeyInvalid, s')"
    by (rule verify_missing[OF rot(2) _ assms(3)])
  moreover have "\<exists>s''. verifyKey st argonVerify now ?pt' s' = (Inr (ak_userId ?key', ak_scopes ?key'), s'')"
    by (rule verify_of[OF rot(2), of k]) (use rot(3) match argon alive in simp_all)
  moreover have "rotateKey st argonHash rnd k s = (Inr (?pt', ?key'), s')"
    using rot(1) find_id[OF assms(1)] assms(2) k by (simp add: rotateKey_def Let_def)
  ultimately show ?thesis by auto
qed

end

section \<open>Both storages keep the contract\<close>

definition memk_inv :: "memory_keys \<Rightarrow> bool" where
  "memk_inv m \<longleftrightarrow> distinct (map fst m) \<and> (\<forall>p\<in>set m. ak_id (snd p) = fst p) \<and>
     (\<forall>p\<in>set m. \<forall>q\<in>set m. ak_lookupId (snd p) = ak_lookupId (snd q) \<longrightarrow> p = q)"

lemma memk_get: "memk_inv m \<Longrightarrow> map_get m k = Some r \<longleftrightarrow> (k, r) \<in> set m"
  by (auto simp: memk_inv_def)

lemma map_set_members:
  "distinct (map fst m) \<Longrightarrow> p \<in> set (map_set k v m) \<longleftrightarrow> p = (k, v) \<or> (p \<in> set m \<and> fst p \<noteq> k)"
  by (cases p) (metis distinct_map_set fst_conv map_get_set map_of_eq_Some_iff option.inject)

lemma memk_inv_set:
  assumes "memk_inv m" "ak_id r = k" "\<And>k' r'. (k', r') \<in> set m \<Longrightarrow> k' \<noteq> k \<Longrightarrow> ak_lookupId r' \<noteq> ak_lookupId r"
  shows "memk_inv (map_set k r m)"
proof -
  have "distinct (map fst m)" using assms(1) by (simp add: memk_inv_def)
  with assms show ?thesis unfolding memk_inv_def by (fastforce simp: map_set_members distinct_map_set)
qed

lemma memk_find_lookup:
  assumes "memk_inv m"
  shows "memk_findByLookupId l m = Some r \<longleftrightarrow> map_get m (ak_id r) = Some r \<and> ak_lookupId r = l"
proof
  assume "memk_findByLookupId l m = Some r"
  then have "r \<in> set (map snd m)" "ak_lookupId r = l" unfolding memk_findByLookupId_def by (auto dest!: find_first_Some)
  then obtain k where "(k, r) \<in> set m" by auto
  with assms \<open>ak_lookupId r = l\<close> show "map_get m (ak_id r) = Some r \<and> ak_lookupId r = l"
    by (auto simp: memk_get[OF assms] memk_inv_def)
next
  assume r: "map_get m (ak_id r) = Some r \<and> ak_lookupId r = l"
  then have mem: "(ak_id r, r) \<in> set m" using memk_get[OF assms] by blast
  then obtain r' where r': "memk_findByLookupId l m = Some r'"
    unfolding memk_findByLookupId_def using r find_first_None[of _ "map snd m"] by (metis (mono_tags, lifting) imageI
        list.set_map not_None_eq snd_conv)
  then have "r' \<in> set (map snd m)" "ak_lookupId r' = l" unfolding memk_findByLookupId_def by (auto dest!: find_first_Some)
  then obtain k' where "(k', r') \<in> set m" by auto
  with assms mem r \<open>ak_lookupId r' = l\<close> have "r' = r" unfolding memk_inv_def by fastforce
  with r' show "memk_findByLookupId l m = Some r" by simp
qed

lemma memk_inv_subset: "memk_inv m \<Longrightarrow> set m' \<subseteq> set m \<Longrightarrow> distinct (map fst m') \<Longrightarrow> memk_inv m'"
  unfolding memk_inv_def by blast

interpretation memk: key_store memory_key_storage memk_inv map_of
proof unfold_locales
  fix s :: memory_keys and r :: api_key and now
  assume inv: "memk_inv s" and fresh: "map_of s (ak_id r) = None" "lookup_fresh (map_of s) (ak_lookupId r)"
  have "memk_inv (map_set (ak_id r) r s)"
    using fresh(2) memk_get[OF inv] by (intro memk_inv_set[OF inv]) (auto simp: lookup_fresh_def)
  then show "\<exists>s'. ks_insert memory_key_storage now r s = Inr (r, s') \<and> memk_inv s' \<and> map_of s' = (map_of s)(ak_id r \<mapsto> r)"
    by (auto simp: memory_key_storage_def memk_insert_def map_get_set fun_eq_iff)
next
  fix s :: memory_keys and l r
  assume "memk_inv s"
  then show "ks_findByLookupId memory_key_storage l s = Some r \<longleftrightarrow> map_of s (ak_id r) = Some r \<and> ak_lookupId r = l"
    by (simp add: memory_key_storage_def memk_find_lookup)
next
  fix s s' :: memory_keys and k b
  assume inv: "memk_inv s" and d: "ks_delete memory_key_storage k s = (b, s')"
  have "s' = map_delete k s" using d by (simp add: memory_key_storage_def memk_delete_def)
  then have "memk_inv s'"
    using inv by (intro memk_inv_subset[OF inv]) (auto simp: map_delete_def memk_inv_def distinct_map_filter)
  with d show "(b \<longleftrightarrow> map_of s k \<noteq> None) \<and> memk_inv s' \<and> map_of s' = (map_of s)(k := None)"
    by (auto simp: memory_key_storage_def memk_delete_def map_get_delete fun_eq_iff)
next
  fix s s' :: memory_keys and k at b
  assume inv: "memk_inv s" and u: "ks_updateLastUsed memory_key_storage k at s = (b, s')"
  show "(b \<longleftrightarrow> map_of s k \<noteq> None) \<and> memk_inv s' \<and>
      map_of s' = (map_of s)(k := map_option (\<lambda>r. r\<lparr>ak_lastUsedAt := Some at\<rparr>) (map_of s k))"
  proof (cases "map_of s k")
    case (Some r)
    then have "memk_inv (map_set k (r\<lparr>ak_lastUsedAt := Some at\<rparr>) s)"
      using inv memk_get[OF inv, of k r] by (intro memk_inv_set[OF inv]) (fastforce simp: memk_inv_def)+
    with Some u show ?thesis by (auto simp: memory_key_storage_def memk_updateLastUsed_def map_get_set fun_eq_iff)
  qed (use inv u in \<open>auto simp: memory_key_storage_def memk_updateLastUsed_def fun_eq_iff\<close>)
next
  fix s :: memory_keys and l k r h
  assume inv: "memk_inv s" and fresh: "lookup_fresh (map_of s) l" and k: "map_of s k = Some r"
  have "memk_inv (map_set k (r\<lparr>ak_lookupId := l, ak_hash := h\<rparr>) s)"
    using fresh memk_get[OF inv] k inv by (intro memk_inv_set[OF inv]) (auto simp: lookup_fresh_def memk_inv_def)
  with k show "\<exists>s'. ks_rotate memory_key_storage k l h s = Inr (Some (r\<lparr>ak_lookupId := l, ak_hash := h\<rparr>), s') \<and>
      memk_inv s' \<and> map_of s' = (map_of s)(k \<mapsto> r\<lparr>ak_lookupId := l, ak_hash := h\<rparr>)"
    by (auto simp: memory_key_storage_def memk_rotate_def map_get_set fun_eq_iff Let_def)
qed (auto simp: memory_key_storage_def memk_findById_def memk_inv_def dest: map_of_SomeD)

definition pgk_inv :: "key_table \<Rightarrow> bool" where
  "pgk_inv t \<longleftrightarrow> distinct (map ak_id t) \<and> distinct (map ak_lookupId t)"

definition pgk_abs :: "key_table \<Rightarrow> string \<Rightarrow> api_key option" where
  "pgk_abs t k = map_option key_fromRow (find_first (\<lambda>row. ak_id row = k) t)"

lemma pgk_abs_iff: "pgk_inv t \<Longrightarrow> pgk_abs t k = Some r \<longleftrightarrow> (\<exists>row\<in>set t. ak_id row = k \<and> r = key_fromRow row)"
  unfolding pgk_abs_def pgk_inv_def by (auto simp: find_first_unique)

lemma pgk_abs_None: "pgk_abs t k = None \<longleftrightarrow> (\<forall>row\<in>set t. ak_id row \<noteq> k)"
  by (simp add: pgk_abs_def find_first_None)

lemma key_fromRow_simps [simp]:
  "ak_id (key_fromRow row) = ak_id row" "ak_lookupId (key_fromRow row) = ak_lookupId row"
  "key_fromRow (key_toRow now r) = r" "ak_id (key_toRow now r) = ak_id r" "ak_lookupId (key_toRow now r) = ak_lookupId r"
  by (simp_all add: key_fromRow_def key_toRow_def)

lemma pgk_fresh: "pgk_inv t \<Longrightarrow> lookup_fresh (pgk_abs t) l \<longleftrightarrow> l \<notin> ak_lookupId ` set t"
  unfolding lookup_fresh_def by (simp add: pgk_abs_iff image_iff) (metis key_fromRow_simps(2))

lemma pgk_find_lookup:
  assumes "pgk_inv t"
  shows "pgk_findByLookupId l t = Some r \<longleftrightarrow> pgk_abs t (ak_id r) = Some r \<and> ak_lookupId r = l"
  using assms unfolding pgk_findByLookupId_def pgk_abs_iff[OF assms] by (auto simp: pgk_inv_def find_first_unique)

lemma pgk_abs_update:
  assumes "\<And>row. ak_id (f row) = ak_id row"
  shows "pgk_abs (update_where (\<lambda>row. ak_id row = k) f t) =
    (pgk_abs t)(k := map_option (key_fromRow \<circ> f) (find_first (\<lambda>row. ak_id row = k) t))"
proof
  fix k'
  have "find_first (\<lambda>row. ak_id row = k') (update_where (\<lambda>row. ak_id row = k) f t) =
      (if k' = k then map_option f (find_first (\<lambda>row. ak_id row = k) t) else find_first (\<lambda>row. ak_id row = k') t)"
    using assms by (induction t) auto
  then show "pgk_abs (update_where (\<lambda>row. ak_id row = k) f t) k' =
      ((pgk_abs t)(k := map_option (key_fromRow \<circ> f) (find_first (\<lambda>row. ak_id row = k) t))) k'"
    by (simp add: pgk_abs_def option.map_comp)
qed

lemma distinct_after_relabel:
  "distinct (map g t) \<Longrightarrow> distinct (map key t) \<Longrightarrow> l \<notin> g ` set t \<Longrightarrow> (\<And>x. g (f x) = l) \<Longrightarrow>
   distinct (map g (update_where (\<lambda>x. key x = k) f t))"
proof (induction t)
  case (Cons x t)
  have "update_where (\<lambda>x. key x = k) f t = t" if "key x = k"
    using that Cons.prems(2) by (intro update_where_none) (auto simp: image_iff)
  with Cons show ?case by (cases "key x = k") (auto simp: set_update_where image_iff)
qed simp

interpretation pgk: key_store pg_key_storage pgk_inv pgk_abs
proof unfold_locales
  fix s :: key_table and r :: api_key and now
  assume inv: "pgk_inv s" and fresh: "pgk_abs s (ak_id r) = None" "lookup_fresh (pgk_abs s) (ak_lookupId r)"
  have new: "ak_id r \<notin> ak_id ` set s" "ak_lookupId r \<notin> ak_lookupId ` set s"
    using fresh pgk_fresh[OF inv] by (auto simp: pgk_abs_None)
  have "pgk_abs (s @ [key_toRow now r]) = (pgk_abs s)(ak_id r \<mapsto> r)"
    using fresh(1) by (auto simp: pgk_abs_def find_first_append fun_eq_iff split: option.splits)
  moreover have "pgk_insert now r s = Inr (r, s @ [key_toRow now r])"
    using new by (force simp: pgk_insert_def list_ex_iff)
  ultimately show "\<exists>s'. ks_insert pg_key_storage now r s = Inr (r, s') \<and> pgk_inv s' \<and> pgk_abs s' = (pgk_abs s)(ak_id r \<mapsto> r)"
    using new inv by (simp add: pg_key_storage_def pgk_inv_def)
next
  fix s :: key_table and l r
  assume "pgk_inv s"
  then show "ks_findByLookupId pg_key_storage l s = Some r \<longleftrightarrow> pgk_abs s (ak_id r) = Some r \<and> ak_lookupId r = l"
    by (simp add: pg_key_storage_def pgk_find_lookup)
next
  fix s s' :: key_table and k b
  assume inv: "pgk_inv s" and d: "ks_delete pg_key_storage k s = (b, s')"
  have "pgk_abs (filter (\<lambda>row. ak_id row \<noteq> k) s) = (pgk_abs s)(k := None)"
  proof
    fix k'
    show "pgk_abs (filter (\<lambda>row. ak_id row \<noteq> k) s) k' = ((pgk_abs s)(k := None)) k'"
      unfolding pgk_abs_def by (induction s) auto
  qed
  moreover have "list_ex (\<lambda>row. ak_id row = k) s \<longleftrightarrow> pgk_abs s k \<noteq> None"
    by (auto simp: pgk_abs_None list_ex_iff simp del: not_None_eq)
  ultimately show "(b \<longleftrightarrow> pgk_abs s k \<noteq> None) \<and> pgk_inv s' \<and> pgk_abs s' = (pgk_abs s)(k := None)"
    using inv d by (auto simp: pg_key_storage_def pgk_delete_def pgk_inv_def distinct_map_filter simp del: not_None_eq)
next
  fix s s' :: key_table and k at b
  assume inv: "pgk_inv s" and u: "ks_updateLastUsed pg_key_storage k at s = (b, s')"
  let ?f = "\<lambda>row. row\<lparr>ak_lastUsedAt := Some at\<rparr>"
  have s': "s' = update_where (\<lambda>row. ak_id row = k) ?f s" "b \<longleftrightarrow> pgk_abs s k \<noteq> None"
    using u by (auto simp: pg_key_storage_def pgk_updateLastUsed_def pgk_abs_None list_ex_iff simp del: not_None_eq)
  have "pgk_inv s'" using inv unfolding s'(1) pgk_inv_def by (simp add: map_update_where_frame)
  moreover have "pgk_abs s' = (pgk_abs s)(k := map_option (key_fromRow \<circ> ?f) (find_first (\<lambda>row. ak_id row = k) s))"
    unfolding s'(1) by (rule pgk_abs_update) simp
  moreover have "map_option (key_fromRow \<circ> ?f) (find_first (\<lambda>row. ak_id row = k) s) =
      map_option (\<lambda>r. r\<lparr>ak_lastUsedAt := Some at\<rparr>) (pgk_abs s k)"
    by (cases "find_first (\<lambda>row. ak_id row = k) s") (simp_all add: pgk_abs_def key_fromRow_def)
  ultimately show "(b \<longleftrightarrow> pgk_abs s k \<noteq> None) \<and> pgk_inv s' \<and>
      pgk_abs s' = (pgk_abs s)(k := map_option (\<lambda>r. r\<lparr>ak_lastUsedAt := Some at\<rparr>) (pgk_abs s k))"
    using s'(2) by simp
next
  fix s :: key_table and l k r h
  assume inv: "pgk_inv s" and fresh: "lookup_fresh (pgk_abs s) l" and k: "pgk_abs s k = Some r"
  let ?f = "\<lambda>row. row\<lparr>ak_lookupId := l, ak_hash := h\<rparr>"
  let ?s = "update_where (\<lambda>row. ak_id row = k) ?f s"
  have new: "l \<notin> ak_lookupId ` set s" using fresh pgk_fresh[OF inv] by simp
  then have none: "\<not> list_ex (\<lambda>row. ak_lookupId row = l \<and> ak_id row \<noteq> k) s" by (auto simp: list_ex_iff)
  obtain row where row: "find_first (\<lambda>row. ak_id row = k) s = Some row" "r = key_fromRow row"
    using k by (auto simp: pgk_abs_def)
  have abs: "pgk_abs ?s = (pgk_abs s)(k \<mapsto> r\<lparr>ak_lookupId := l, ak_hash := h\<rparr>)"
    using pgk_abs_update[of ?f k s] row by (simp add: key_fromRow_def)
  have "pgk_inv ?s"
    using inv distinct_after_relabel[of ak_lookupId s ak_id l ?f k] new by (simp add: pgk_inv_def map_update_where_frame)
  moreover have "pgk_rotate k l h s = Inr (pgk_abs ?s k, ?s)"
    using none by (simp add: pgk_rotate_def pgk_abs_def Let_def)
  ultimately show "\<exists>s'. ks_rotate pg_key_storage k l h s = Inr (Some (r\<lparr>ak_lookupId := l, ak_hash := h\<rparr>), s') \<and>
      pgk_inv s' \<and> pgk_abs s' = (pgk_abs s)(k \<mapsto> r\<lparr>ak_lookupId := l, ak_hash := h\<rparr>)"
    using abs by (simp add: pg_key_storage_def)
qed (auto simp: pg_key_storage_def pgk_findById_def pgk_abs_def dest!: find_first_Some)

section \<open>Issued keys have the recognised form\<close>

lemma hexdigit_lower: "d < 16 \<Longrightarrow> is_lower_hex (hexdigit d)"
  by (auto simp: is_lower_hex_def of_char_hexdigit Let_def)

lemma lower_hex2: "n < 256 \<Longrightarrow> list_all is_lower_hex (hex2 n)"
  by (simp add: hex2_def hexdigit_lower)

lemma lower_byte: "list_all is_lower_hex (hex2 (unat (b :: 8 word)))"
  using unsigned_less[of b] by (intro lower_hex2) simp

lemma lower_bytes: "list_all is_lower_hex (concat (map (hex2 \<circ> unat) (bs :: 8 word list)))"
  using lower_byte by (induction bs) simp_all

lemma hex_string_bytes: "hex_string bs = concat (map (hex2 \<circ> unat) bs)"
  by (simp add: hex_string_def padded_byte comp_def)

lemma hex_string_form: "list_all is_lower_hex (hex_string bs)" "length (hex_string bs) = 2 * length bs"
  unfolding hex_string_bytes by (rule lower_bytes, rule length_bytes)

lemma lower_or_dash: "list_all is_lower_hex s \<Longrightarrow> list_all (\<lambda>c. is_lower_hex c \<or> c = CHR ''-'') s"
  by (auto simp: list_all_iff)

lemma uuid_form:
  assumes "length random = 16"
  shows "length (uuidV7 random ms) = 36" "list_all (\<lambda>c. is_lower_hex c \<or> c = CHR ''-'') (uuidV7 random ms)"
proof -
  show "length (uuidV7 random ms) = 36" using uuidV7_well_formed[OF assms] by (simp add: isUuidV7_def)
next
  obtain b7 b9 :: "8 word" and bs :: "8 word list" where
    u: "uuidV7 random ms = time_part ms @ ''-'' @ hex2 (112 + unat (random ! 6) mod 16) @
      hex2 (unat b7) @ ''-'' @ hex2 (128 + unat (random ! 8) mod 64) @ hex2 (unat b9) @ ''-'' @
      concat (map (hex2 \<circ> unat) bs)" using uuidV7_shape[OF assms, of ms] by blast
  have "112 + unat (random ! 6) mod 16 < 256" "128 + unat (random ! 8) mod 64 < 256" by linarith+
  then show "list_all (\<lambda>c. is_lower_hex c \<or> c = CHR ''-'') (uuidV7 random ms)"
    unfolding u time_part_def using lower_hex2[THEN lower_or_dash] lower_byte[THEN lower_or_dash] lower_bytes[THEN lower_or_dash]
    by simp
qed

lemma issued_matches:
  assumes "length random = 16" "length bytes = SECRET_BYTES"
  shows "match_plaintext (plaintext_of (uuidV7 random ms) (hex_string bytes)) = Some (uuidV7 random ms, hex_string bytes)"
proof -
  note len = uuid_form(1)[OF assms(1), of ms] hex_string_form(2)[of bytes]
  have "drop 7 (plaintext_of (uuidV7 random ms) (hex_string bytes)) = uuidV7 random ms @ ''_'' @ hex_string bytes"
    by (simp add: plaintext_of_def PREFIX_def)
  moreover have "drop 44 (plaintext_of (uuidV7 random ms) (hex_string bytes)) = hex_string bytes"
    by (simp add: plaintext_of_def PREFIX_def len)
  moreover have "plaintext_of (uuidV7 random ms) (hex_string bytes) ! 43 = CHR ''_''"
    by (simp add: plaintext_of_def PREFIX_def nth_append nth_Cons' len)
  moreover have "length (plaintext_of (uuidV7 random ms) (hex_string bytes)) = 108"
    using len assms(2) by (simp add: plaintext_of_def PREFIX_def SECRET_BYTES_def)
  moreover have "startsWith (plaintext_of (uuidV7 random ms) (hex_string bytes)) PREFIX"
    by (simp add: plaintext_of_def startsWith_iff)
  ultimately show ?thesis
    using uuid_form[OF assms(1), of ms] hex_string_form(1)[of bytes] by (simp add: match_plaintext_def)
qed

section \<open>The life of a key\<close>

definition good_randomness :: "key_randomness \<Rightarrow> bool" where
  "good_randomness rnd \<longleftrightarrow> length (kr_lookup rnd) = 16 \<and> length (kr_secret rnd) = SECRET_BYTES"

lemmas issued_form = issued_matches[of "kr_lookup rnd" "kr_secret rnd" "kr_lookup_ms rnd" for rnd]

text \<open>a key that was issued verifies: with a fresh lookup id and key id, accepted scopes and an Argon2 that verifies
  what it hashed, the plaintext handed out is accepted until the key expires and yields the owner and the scopes it
  was issued with.\<close>

theorem issued_key_verifies:
  assumes "pgk_inv t" "good_randomness rnd" "validateApiKeyScopes (ci_scopes input) = Inr ()"
    and "pgk_abs t (uuidV7 (kr_id rnd) (kr_id_ms rnd)) = None"
    and "lookup_fresh (pgk_abs t) (uuidV7 (kr_lookup rnd) (kr_lookup_ms rnd))"
    and "argonVerify (argonHash (hex_string (kr_secret rnd))) (hex_string (kr_secret rnd))"
    and "case ci_expiresAt input of None \<Rightarrow> True | Some e \<Rightarrow> now' < e"
  shows "\<exists>pt key t' t''. createKey pg_key_storage argonHash rnd now input t = (Inr (pt, key), t') \<and> pgk_inv t' \<and>
    verifyKey pg_key_storage argonVerify now' pt t' = (Inr (ci_userId input, ci_scopes input), t'')"
proof -
  note form = issued_form[of rnd] assms(2)[unfolded good_randomness_def]
  show ?thesis
    by (rule pgk.create_then_verify[where argonVerify = argonVerify and argonHash = argonHash])
      (use assms form in simp_all)
qed

text \<open>revoking a key makes its plaintext invalid, also for a verification that had already read the key; rotating
  it makes the old plaintext invalid and hands out a new one for the same owner and scopes.\<close>

theorem revoked_and_rotated_keys_are_dead:
  assumes "pgk_inv t" "pgk_abs t k = Some key" "match_plaintext pt = Some (ak_lookupId key, secret)"
    and "good_randomness rnd" "lookup_fresh (pgk_abs t) (uuidV7 (kr_lookup rnd) (kr_lookup_ms rnd))"
    and "argonVerify (argonHash (hex_string (kr_secret rnd))) (hex_string (kr_secret rnd))"
    and "case ak_expiresAt key of None \<Rightarrow> True | Some e \<Rightarrow> now < e"
  shows "(\<exists>t'. revoke pg_key_storage k t = (Inr (), t') \<and>
      verifyKey pg_key_storage argonVerify now pt t' = (Inl ApiKeyInvalid, t') \<and>
      fst (verify_finish pg_key_storage now key t') = Inl ApiKeyInvalid) \<and>
    (\<exists>pt' key' t' t''. rotateKey pg_key_storage argonHash rnd k t = (Inr (pt', key'), t') \<and>
      verifyKey pg_key_storage argonVerify now pt t' = (Inl ApiKeyInvalid, t') \<and>
      verifyKey pg_key_storage argonVerify now pt' t' = (Inr (ak_userId key, ak_scopes key), t''))"
proof
  note form = issued_form[of rnd] assms(4)[unfolded good_randomness_def]
  show "\<exists>pt' key' t' t''. rotateKey pg_key_storage argonHash rnd k t = (Inr (pt', key'), t') \<and>
      verifyKey pg_key_storage argonVerify now pt t' = (Inl ApiKeyInvalid, t') \<and>
      verifyKey pg_key_storage argonVerify now pt' t' = (Inr (ak_userId key, ak_scopes key), t'')"
    by (rule pgk.rotated_is_replaced[where argonVerify = argonVerify and argonHash = argonHash])
      (use assms form in simp_all)
qed (rule pgk.revoked_is_dead[OF assms(1-3)])

text \<open>A rotation that falls between the Argon2 check and the stamp is not noticed: the old secret is still accepted,
  because the stamp finds the row by its id, which a rotation keeps.\<close>

theorem rotation_during_verify_unnoticed:
  assumes "pgk_inv t" "verify_begin pg_key_storage argonVerify now pt t = Inr key"
    and "rotateKey pg_key_storage argonHash rnd (ak_id key) t = (Inr (pt', key'), t')" "pgk_abs t (ak_id key) = Some key"
    and "lookup_fresh (pgk_abs t) (uuidV7 (kr_lookup rnd) (kr_lookup_ms rnd))"
  shows "fst (verify_finish pg_key_storage now key t') = Inr (ak_userId key, ak_scopes key)"
proof -
  obtain t1 where rot: "ks_rotate pg_key_storage (ak_id key) (uuidV7 (kr_lookup rnd) (kr_lookup_ms rnd))
        (argonHash (hex_string (kr_secret rnd))) t = Inr (Some (key\<lparr>ak_lookupId := uuidV7 (kr_lookup rnd) (kr_lookup_ms rnd),
        ak_hash := argonHash (hex_string (kr_secret rnd))\<rparr>), t1)" "pgk_inv t1"
      "pgk_abs t1 = (pgk_abs t)(ak_id key \<mapsto> key\<lparr>ak_lookupId := uuidV7 (kr_lookup rnd) (kr_lookup_ms rnd),
        ak_hash := argonHash (hex_string (kr_secret rnd))\<rparr>)"
    using pgk.rotate_spec[OF assms(1,5,4)] by blast
  have "t' = t1" using assms(3,4) rot(1) pgk.find_id[OF assms(1)] by (simp add: rotateKey_def Let_def)
  obtain b t2 where u: "ks_updateLastUsed pg_key_storage (ak_id key) now t1 = (b, t2)" by fastforce
  with pgk.stamp_spec[OF rot(2) u] rot(3) have b by simp
  with u \<open>t' = t1\<close> show ?thesis by (simp add: verify_finish_def)
qed

section \<open>Who may issue a key for whom\<close>

lemma default_member_rule:
  assumes "is_member db u tn"
  shows "member_user_rule ''ApiKey'' \<in> set (findRulesForUser default_options db u tn)"
proof -
  obtain m where "find_first (\<lambda>m. mb_userId m = u \<and> mb_organizationId m = tn) (db_members db) = Some m"
    using assms find_first_None[of "\<lambda>m. mb_userId m = u \<and> mb_organizationId m = tn" "db_members db"]
    by (auto simp: is_member_def)
  moreover have "dedupePreserveOrder [''ApiKey''] (stableUniqueSort None) = [''ApiKey'']" by code_simp
  ultimately show ?thesis
    by (simp add: findRulesForUser_def default_options_def buildMemberRoleRules_def DEFAULT_MEMBER_PER_USER_RESOURCES_def Let_def)
qed

text \<open>any member of a tenant with the default member role passes the guard of the key-issuing route, and the route
  then issues a working key for whatever user id the request body names: the guard checks the subject type only, so
  the condition \<open>userId = $CURRENT_USER\<close> of the member rule is never evaluated, and neither the controller nor the
  service compares the id with the caller.\<close>

theorem member_issues_key_for_anyone:
  assumes "casl can matches" "is_member db u tn"
    and "resolveDbRules (findRulesForUser default_options db u tn) \<lparr>rc_userId = u, rc_now = n, rc_tenantId = Some tn\<rparr> = Inr rules"
    and "ci_userId input \<noteq> []" "ci_name input \<noteq> []" "validateApiKeyScopes (ci_scopes input) = Inr ()"
    and "pgk_inv t" "good_randomness rnd" "pgk_abs t (uuidV7 (kr_id rnd) (kr_id_ms rnd)) = None"
    and "lookup_fresh (pgk_abs t) (uuidV7 (kr_lookup rnd) (kr_lookup_ms rnd))"
    and "argonVerify (argonHash (hex_string (kr_secret rnd))) (hex_string (kr_secret rnd))"
    and "case ci_expiresAt input of None \<Rightarrow> True | Some e \<Rightarrow> now' < e"
  shows "canActivate can (Some (''create'', ''ApiKey'')) (Some (buildAbility rules)) = Inr True \<and>
    (\<exists>pt key t' t''. controller_create pg_key_storage argonHash rnd now input t = (Inr (pt, key), t') \<and>
      verifyKey pg_key_storage argonVerify now' pt t' = (Inr (ci_userId input, ci_scopes input), t''))"
proof
  obtain r where r: "r \<in> set rules" "resolve_row \<lparr>rc_userId = u, rc_now = n, rc_tenantId = Some tn\<rparr> (member_user_rule ''ApiKey'') = Inr r"
    using try_map_member'[OF assms(3)[unfolded resolveDbRules_def] default_member_rule[OF assms(2)]] by blast
  from resolve_row_shape[OF r(2)] have "covers matches r ''create'' (SubjectType ''ApiKey'')"
    by (simp add: covers_def member_user_rule_def)
  with r(1) have "can (buildAbility rules) ''create'' (SubjectType ''ApiKey'')"
    using casl.can_build[OF assms(1) resolved_granting[OF assms(3)]] by blast
  then show "canActivate can (Some (''create'', ''ApiKey'')) (Some (buildAbility rules)) = Inr True"
    by (simp add: canActivate_def abilityAllows_def)
next
  note form = issued_form[of rnd] assms(8)[unfolded good_randomness_def]
  have "\<exists>pt key t' t''. createKey pg_key_storage argonHash rnd now input t = (Inr (pt, key), t') \<and> pgk_inv t' \<and>
      verifyKey pg_key_storage argonVerify now' pt t' = (Inr (ci_userId input, ci_scopes input), t'')"
    by (rule pgk.create_then_verify[where argonVerify = argonVerify and argonHash = argonHash])
      (use assms form in simp_all)
  then obtain pt key t' t'' where "createKey pg_key_storage argonHash rnd now input t = (Inr (pt, key), t')"
    and v: "verifyKey pg_key_storage argonVerify now' pt t' = (Inr (ci_userId input, ci_scopes input), t'')" by blast
  then have "controller_create pg_key_storage argonHash rnd now input t = (Inr (pt, key), t')"
    using assms(4,5) by (simp add: controller_create_def)
  with v show "\<exists>pt key t' t''. controller_create pg_key_storage argonHash rnd now input t = (Inr (pt, key), t') \<and>
      verifyKey pg_key_storage argonVerify now' pt t' = (Inr (ci_userId input, ci_scopes input), t'')" by blast
qed

section \<open>Expiry notices\<close>

lemma marked_row:
  assumes "row \<in> set (markApiKeyNotified k now t)"
  obtains x where "x \<in> set t" "ak_id row = ak_id x" "kw_lastNotifiedAt row = (if ak_id x = k then Some now else kw_lastNotifiedAt x)"
proof -
  obtain x where "x \<in> set t" "row = (if ak_id x = k then x\<lparr>kw_lastNotifiedAt := Some now\<rparr> else x)"
    using assms unfolding markApiKeyNotified_def set_update_where by blast
  then show ?thesis by (intro that[of x]) auto
qed

lemma mark_watermark:
  "row \<in> set (markApiKeyNotified k now t) \<Longrightarrow> ak_id row = k \<Longrightarrow> kw_lastNotifiedAt row = Some now"
  by (erule marked_row) simp

lemma mark_keeps_stamped:
  "\<forall>row\<in>set t. ak_id row = j \<longrightarrow> kw_lastNotifiedAt row = Some now \<Longrightarrow> row \<in> set (markApiKeyNotified k now t) \<Longrightarrow>
   ak_id row = j \<Longrightarrow> kw_lastNotifiedAt row = Some now"
  by (erule marked_row) auto

lemma notify_loop_stamped:
  "\<forall>row\<in>set t. ak_id row = j \<longrightarrow> kw_lastNotifiedAt row = Some now \<Longrightarrow>
   \<forall>row\<in>set (snd (notify_loop sends now ns t)). ak_id row = j \<longrightarrow> kw_lastNotifiedAt row = Some now"
proof (induction sends now ns t rule: notify_loop.induct)
  case (2 sends now n ns t)
  show ?case
  proof (cases "sends n")
    case True
    have "\<forall>row\<in>set (markApiKeyNotified (xn_keyId n) now t). ak_id row = j \<longrightarrow> kw_lastNotifiedAt row = Some now"
      using mark_keeps_stamped[OF 2(3)] by blast
    with 2(1)[OF True] True show ?thesis by (simp add: split_beta)
  qed (use 2 in simp)
qed simp

lemma notify_loop_marks:
  "n \<in> set (fst (notify_loop sends now ns t)) \<Longrightarrow>
   \<forall>row\<in>set (snd (notify_loop sends now ns t)). ak_id row = xn_keyId n \<longrightarrow> kw_lastNotifiedAt row = Some now"
proof (induction sends now ns t rule: notify_loop.induct)
  case (2 sends now m ns t)
  show ?case
  proof (cases "sends m")
    case True
    have "\<forall>row\<in>set (markApiKeyNotified (xn_keyId m) now t). ak_id row = xn_keyId m \<longrightarrow> kw_lastNotifiedAt row = Some now"
      using mark_watermark by blast
    from notify_loop_stamped[OF this] 2(1)[OF True] 2(3) True show ?thesis by (auto simp: split_beta)
  qed (use 2 in simp)
qed simp

lemma notified_subset: "set (fst (notify_loop sends now ns t)) \<subseteq> set ns"
  by (induction sends now ns t rule: notify_loop.induct) (auto simp: split_beta)

lemma tick_notice:
  assumes "n \<in> set (fst (expiry_tick sends now t))"
  shows "\<exists>row\<in>set t. ak_id row = xn_keyId n \<and> ak_expiresAt row = Some (xn_expiresAt n) \<and> now < xn_expiresAt n \<and>
    xn_expiresAt n \<le> now + DEFAULT_WARN_WITHIN_MS \<and>
    (case kw_lastNotifiedAt row of None \<Rightarrow> True | Some l \<Rightarrow> l + DEFAULT_COOLDOWN_MS \<le> now)"
proof -
  have "n \<in> set (planExpiryNotifications now DEFAULT_WARN_WITHIN_MS DEFAULT_COOLDOWN_MS (readExpiringApiKeys now t))"
    using assms notified_subset unfolding expiry_tick_def by blast
  then show ?thesis
    by (fastforce simp: planExpiryNotifications_def List.map_filter_def readExpiringApiKeys_def plan_notice_def
        split: option.splits if_splits)
qed

text \<open>the daily tick warns only about keys that expire within the next seven days and have not expired yet, and a
  key it has warned about is not warned about again by any tick in the following 24 hours, whether or not other
  notices failed to send.\<close>

theorem expiry_notice_once_per_cooldown:
  assumes "n \<in> set (fst (expiry_tick sends now t))" "now \<le> now2" "now2 < now + DEFAULT_COOLDOWN_MS"
  shows "now < xn_expiresAt n \<and> xn_expiresAt n \<le> now + DEFAULT_WARN_WITHIN_MS \<and>
    (\<forall>m\<in>set (fst (expiry_tick sends2 now2 (snd (expiry_tick sends now t)))). xn_keyId m \<noteq> xn_keyId n)"
proof -
  have "xn_keyId m \<noteq> xn_keyId n" if m: "m \<in> set (fst (expiry_tick sends2 now2 (snd (expiry_tick sends now t))))" for m
  proof
    assume same: "xn_keyId m = xn_keyId n"
    obtain row where row: "row \<in> set (snd (expiry_tick sends now t))" "ak_id row = xn_keyId m"
      "case kw_lastNotifiedAt row of None \<Rightarrow> True | Some l \<Rightarrow> l + DEFAULT_COOLDOWN_MS \<le> now2"
      using tick_notice[OF m] by blast
    have "kw_lastNotifiedAt row = Some now"
      using notify_loop_marks[of n sends now] assms(1) row(1,2) same unfolding expiry_tick_def by metis
    with row(3) assms(3) show False by simp
  qed
  with tick_notice[OF assms(1)] show ?thesis by blast
qed

section \<open>Witnesses\<close>

definition sample_rnd :: key_randomness where
  "sample_rnd = \<lparr>kr_lookup = replicate 16 1, kr_lookup_ms = 1700000000000, kr_id = replicate 16 2,
     kr_id_ms = 1700000000001, kr_secret = replicate 32 3\<rparr>"

definition sample_key_input :: create_key_input where
  "sample_key_input = \<lparr>ci_userId = ''victim'', ci_name = ''ci'', ci_scopes = [''files:read''], ci_expiresAt = Some 100\<rparr>"

definition sample_key_row :: api_key_row where
  "sample_key_row = \<lparr>ak_id = ''k1'', ak_lookupId = replicate 36 (CHR ''a''), ak_hash = ''h'', ak_name = ''ci'',
     ak_scopes = [''files:read''], ak_userId = ''u1'', ak_expiresAt = Some 1000, ak_lastUsedAt = None,
     kw_lastNotifiedAt = None, kw_createdAt = 0\<rparr>"

lemma sample_good: "good_randomness sample_rnd" "validateApiKeyScopes (ci_scopes sample_key_input) = Inr ()"
  by (simp_all add: good_randomness_def sample_rnd_def SECRET_BYTES_def validateApiKeyScopes_def sample_key_input_def
      API_KEY_SCOPE_ALLOWLIST_def)

theorem issued_key_verifies_witness:
  "\<exists>pt key t' t''. createKey pg_key_storage (\<lambda>s. s) sample_rnd 0 sample_key_input [] = (Inr (pt, key), t') \<and> pgk_inv t' \<and>
    verifyKey pg_key_storage (=) 99 pt t' = (Inr (''victim'', [''files:read'']), t'')"
  using issued_key_verifies[of "[]" sample_rnd sample_key_input "(=)" "\<lambda>s. s" 99 0] sample_good
  by (simp add: pgk_inv_def pgk_abs_def lookup_fresh_def sample_key_input_def)

theorem revoked_and_rotated_keys_are_dead_witness:
  "\<exists>t'. revoke pg_key_storage ''k1'' [sample_key_row] = (Inr (), t')"
proof -
  have "pgk_inv [sample_key_row]" by (simp add: pgk_inv_def)
  moreover have "pgk_abs [sample_key_row] ''k1'' = Some (key_fromRow sample_key_row)"
    by (simp add: pgk_abs_def sample_key_row_def)
  moreover have "match_plaintext (plaintext_of (replicate 36 (CHR ''a'')) (replicate 64 (CHR ''0''))) =
      Some (ak_lookupId (key_fromRow sample_key_row), replicate 64 (CHR ''0''))" by code_simp
  moreover have "lookup_fresh (pgk_abs [sample_key_row]) (uuidV7 (kr_lookup sample_rnd) (kr_lookup_ms sample_rnd))"
  proof -
    have "uuidV7 (kr_lookup sample_rnd) (kr_lookup_ms sample_rnd) ! 8 = CHR ''-''"
      using uuidV7_well_formed[of "kr_lookup sample_rnd"] sample_good(1) by (simp add: isUuidV7_def good_randomness_def)
    moreover have "ak_lookupId sample_key_row ! 8 = CHR ''a''" by (simp add: sample_key_row_def)
    ultimately have "uuidV7 (kr_lookup sample_rnd) (kr_lookup_ms sample_rnd) \<noteq> ak_lookupId sample_key_row" by auto
    then show ?thesis by (auto simp: lookup_fresh_def pgk_abs_def split: if_splits)
  qed
  moreover have "case ak_expiresAt (key_fromRow sample_key_row) of None \<Rightarrow> True | Some e \<Rightarrow> (0 :: int) < e"
    by (simp add: key_fromRow_def sample_key_row_def)
  ultimately show ?thesis
    using revoked_and_rotated_keys_are_dead[of "[sample_key_row]" "''k1''" "key_fromRow sample_key_row" _ _ sample_rnd "(=)" "\<lambda>s. s" 0]
      sample_good(1) by blast
qed

theorem member_issues_key_for_anyone_witness:
  "\<exists>pt key t' t''. controller_create pg_key_storage (\<lambda>s. s) sample_rnd 0 sample_key_input [] = (Inr (pt, key), t') \<and>
    verifyKey pg_key_storage (=) 99 pt t' = (Inr (''victim'', [''files:read'']), t'')"
proof -
  have "is_member sample_db ''u1'' ''t1''" by code_simp
  from member_issues_key_for_anyone[OF reference.casl_axioms this member_rules_resolve, of sample_key_input "[]" sample_rnd "(=)" "\<lambda>s. s" 99 0]
  show ?thesis using sample_good
    by (simp add: pgk_inv_def pgk_abs_def lookup_fresh_def sample_key_input_def)
qed

theorem expiry_notice_once_per_cooldown_witness:
  "''k1'' \<notin> xn_keyId ` set (fst (expiry_tick (\<lambda>n. True) 1 (snd (expiry_tick (\<lambda>n. True) 0 [sample_key_row]))))"
proof -
  have "hd (fst (expiry_tick (\<lambda>n. True) 0 [sample_key_row])) \<in> set (fst (expiry_tick (\<lambda>n. True) 0 [sample_key_row]))"
    by code_simp
  from expiry_notice_once_per_cooldown[OF this, of 1 "\<lambda>n. True"] have
    "\<forall>m\<in>set (fst (expiry_tick (\<lambda>n. True) 1 (snd (expiry_tick (\<lambda>n. True) 0 [sample_key_row])))).
       xn_keyId m \<noteq> xn_keyId (hd (fst (expiry_tick (\<lambda>n. True) 0 [sample_key_row])))"
    by (simp add: DEFAULT_COOLDOWN_MS_def)
  moreover have "xn_keyId (hd (fst (expiry_tick (\<lambda>n. True) 0 [sample_key_row]))) = ''k1''" by code_simp
  ultimately show ?thesis by auto
qed

end
