(* ===== verification/Request_Pipeline.thy ===== *)
theory Request_Pipeline
  imports Permission_Service Request_Paths Api_Keys
begin

text \<open>
  The request pipeline in the order \<open>src/core/app/app.module.ts\<close> wires it: the test hatch
  (\<open>permissions/test-ability.ts\<close>), the session middleware (\<open>auth/session-middleware.ts\<close>), the API-key
  middleware (\<open>auth/api-keys/api-key-session.middleware.ts\<close>), the ability middleware
  (\<open>permissions/ability.middleware.ts\<close>), the portal middleware (\<open>hub/hub-portal.middleware.ts\<close>), the
  route guard, and one of the two tenant interceptors (\<open>multi-tenancy/tenant.interceptor.ts\<close>,
  \<open>hub/hub-operator-tenant.interceptor.ts\<close>).

  A middleware returns \<open>Inl\<close> and the response it ends the request with, or \<open>Inr\<close> and the request it
  passes on.  The session lookup of Better-Auth, the project's ability fallback and the rule-list form
  of the test header are arguments.  Membership reads answer; they do not fail.
\<close>

section \<open>Data\<close>

record auth_user =
  au_id :: string
  au_tenantId :: "string option"
  au_activeOrganizationId :: "string option"
  au_scopes :: "string list option"

record session_lookup =
  sl_userId :: string
  sl_tenantId :: "string option"
  sl_activeOrganizationId :: "string option"

record authenticated_request =
  hr_originalUrl :: "string option"
  hr_url :: "string option"
  hr_method :: "string option"
  hr_accept :: "string one_or_many option"
  hr_authorization :: "string option"
  hr_testAbility :: "string one_or_many option"
  hr_user :: "auth_user option"
  hr_ability :: "ability option"

fun header_value :: "string one_or_many option \<Rightarrow> string option" where
  "header_value None = None"
| "header_value (Some (One v)) = Some v"
| "header_value (Some (Many [])) = None"
| "header_value (Some (Many (v # vs))) = Some v"

definition request_path :: "authenticated_request \<Rightarrow> string" where
  "request_path req = nullish (hr_originalUrl req) (nullish (hr_url req) ''/'')"

definition known_path :: "authenticated_request \<Rightarrow> string option" where
  "known_path req = (case hr_originalUrl req of Some p \<Rightarrow> Some p | None \<Rightarrow> hr_url req)"

section \<open>The test hatch\<close>

definition isTestAbilityHatchEnabled :: "request_env \<Rightarrow> bool" where
  "isTestAbilityHatchEnabled env =
     (if nullish (en_nodeEnv env) [] = ''test'' then True
      else en_vitest env = Some ''true'' \<or> en_vitest env = Some ''1'')"

definition parseTestAbilityHeaderValue ::
  "(string \<Rightarrow> ability option) \<Rightarrow> string one_or_many option \<Rightarrow> ability option" where
  "parseTestAbilityHeaderValue parse_rules rawHeader =
     (case header_value rawHeader of
        None \<Rightarrow> None
      | Some value \<Rightarrow>
          if \<not> truthy value then None
          else if value = ''full'' then
            Some (buildAbility [\<lparr>ar_action = One ''manage'', ar_subject = One ''all'', ar_conditions = None,
                    ar_fields = None, ar_inverted = False\<rparr>])
          else parse_rules value)"

definition parseTestAbilityHeaderForRequest ::
  "(string \<Rightarrow> ability option) \<Rightarrow> request_env \<Rightarrow> string one_or_many option \<Rightarrow> ability option" where
  "parseTestAbilityHeaderForRequest parse_rules env rawHeader =
     (if \<not> isTestAbilityHatchEnabled env then None else parseTestAbilityHeaderValue parse_rules rawHeader)"

definition testAbilityMiddleware :: "(string \<Rightarrow> ability option) \<Rightarrow> request_env \<Rightarrow> authenticated_request \<Rightarrow> authenticated_request" where
  "testAbilityMiddleware parse_rules env req =
     (case parseTestAbilityHeaderForRequest parse_rules env (hr_testAbility req) of
        None \<Rightarrow> req | Some ability \<Rightarrow> req\<lparr>hr_ability := Some ability\<rparr>)"

section \<open>The session middleware\<close>

type_synonym better_auth = "(authenticated_request \<Rightarrow> unit + session_lookup option) option"

definition sessionMiddleware ::
  "(string \<Rightarrow> ability option) \<Rightarrow> request_env \<Rightarrow> better_auth \<Rightarrow> authenticated_request \<Rightarrow> reject + authenticated_request" where
  "sessionMiddleware parse_rules env auth req0 =
     (let req = (case parseTestAbilityHeaderForRequest parse_rules env (hr_testAbility req0) of
                   Some a \<Rightarrow> req0\<lparr>hr_ability := Some a\<rparr> | None \<Rightarrow> req0);
          path = request_path req
      in case isPathProtected env (stripQuery path) of
           Inl e \<Rightarrow> Inl e
         | Inr protectedPath \<Rightarrow> (case auth of
               None \<Rightarrow> Inr req
             | Some getSession \<Rightarrow>
                 (case (case getSession req of Inl _ \<Rightarrow> None | Inr s \<Rightarrow> s) of
                    Some session \<Rightarrow> Inr (req\<lparr>hr_user := Some \<lparr>au_id = sl_userId session,
                        au_tenantId = sl_tenantId session,
                        au_activeOrganizationId = sl_activeOrganizationId session, au_scopes = None\<rparr>\<rparr>)
                  | None \<Rightarrow>
                      if protectedPath then
                        (if prefersHubPortalLoginRedirect (stripQuery path) (hr_method req) (header_value (hr_accept req))
                         then Inl (Redirect ''/'') else Inl Unauthorized)
                      else Inr req)))"

section \<open>The API-key middleware\<close>

definition first_membership :: "member_row list \<Rightarrow> string \<Rightarrow> string option" where
  "first_membership members userId =
     (case sort_by (\<lambda>a b. mb_createdAt a \<le> mb_createdAt b) (filter (\<lambda>m. mb_userId m = userId) members) of
        [] \<Rightarrow> None | m # _ \<Rightarrow> Some (mb_organizationId m))"

definition extractBearerToken :: "string option \<Rightarrow> string option" where
  "extractBearerToken header =
     (case header of None \<Rightarrow> None
      | Some h \<Rightarrow> if \<not> startsWith h ''Bearer '' then None
          else let token = trim (drop (length ''Bearer '') h)
               in if length token > 0 then Some token else None)"

definition apiKeyMiddleware ::
  "'s api_key_storage option \<Rightarrow> (string \<Rightarrow> string \<Rightarrow> bool) \<Rightarrow> member_row list \<Rightarrow> millis \<Rightarrow> authenticated_request \<Rightarrow> 's
   \<Rightarrow> (reject + authenticated_request) \<times> 's" where
  "apiKeyMiddleware apiKeys argonVerify members now req s =
     (case (hr_user req, apiKeys) of
        (None, Some st) \<Rightarrow> (case extractBearerToken (hr_authorization req) of
            None \<Rightarrow> (Inr req, s)
          | Some token \<Rightarrow>
              if \<not> startsWith token PREFIX then (Inr req, s)
              else (case verifyKey st argonVerify now token s of
                  (Inr (userId, scopes), s') \<Rightarrow>
                    (Inr (req\<lparr>hr_user := Some \<lparr>au_id = userId, au_tenantId = first_membership members userId,
                        au_activeOrganizationId = None, au_scopes = Some scopes\<rparr>\<rparr>), s')
                | (Inl e, s') \<Rightarrow> if e = ApiKeyInvalid then (Inr req, s') else (Inl Crash, s')))
      | _ \<Rightarrow> (Inr req, s))"

section \<open>Tenant resolution\<close>

definition resolveRequestTenantId :: "authenticated_request \<Rightarrow> string option" where
  "resolveRequestTenantId req = (case hr_user req of None \<Rightarrow> None | Some u \<Rightarrow> au_activeOrganizationId u)"

definition resolveSessionTenantId :: "authenticated_request \<Rightarrow> string option" where
  "resolveSessionTenantId req = (case hr_user req of None \<Rightarrow> None | Some u \<Rightarrow> au_activeOrganizationId u)"

definition requireSessionTenantId :: "authenticated_request \<Rightarrow> reject + string" where
  "requireSessionTenantId req = (case resolveSessionTenantId req of
     None \<Rightarrow> Inl BadRequest | Some t \<Rightarrow> if truthy t then Inr t else Inl BadRequest)"

definition resolveHubOperatorTenantId :: "member_row list \<Rightarrow> auth_user \<Rightarrow> string option" where
  "resolveHubOperatorTenantId members user =
     (if truthy_opt (au_activeOrganizationId user) then au_activeOrganizationId user
      else first_membership members (au_id user))"

definition is_uuid :: "string \<Rightarrow> bool" where
  "is_uuid v \<longleftrightarrow> length v = 36 \<and> hex_run 8 (take 8 v) \<and> v ! 8 = CHR ''-'' \<and> hex_run 4 (take 4 (drop 9 v)) \<and>
     v ! 13 = CHR ''-'' \<and> hex_run 4 (take 4 (drop 14 v)) \<and> v ! 18 = CHR ''-'' \<and> hex_run 4 (take 4 (drop 19 v)) \<and>
     v ! 23 = CHR ''-'' \<and> hex_run 12 (drop 24 v)"

text \<open>\<open>tenant\<close> is the value of the asynchronous local storage.\<close>

definition requireTenantContext :: "string option \<Rightarrow> reject + string" where
  "requireTenantContext tenant = (case tenant of None \<Rightarrow> Inl BadRequest
     | Some t \<Rightarrow> if \<not> truthy t then Inl BadRequest else if \<not> is_uuid t then Inl BadRequest else Inr t)"

section \<open>The ability middleware\<close>

text \<open>What the middleware is built from; \<open>ac_fallback\<close> is the project's hook, \<open>Inl\<close> when it throws.\<close>

record ability_config =
  ac_can :: can_fn
  ac_options :: perm_options
  ac_storage :: perm_storage_options
  ac_db :: perm_db
  ac_fallback :: "(auth_user \<Rightarrow> string option \<Rightarrow> unit + ability option) option"

definition ability_request :: "ability_config \<Rightarrow> millis \<Rightarrow> perm_cache \<Rightarrow> auth_user \<Rightarrow> string \<Rightarrow> (perm_error + ability) \<times> perm_cache" where
  "ability_request cfg now cache user tenantId =
     abilityFor (ac_can cfg) (ac_options cfg) (\<lambda>u t. Inr (findRulesForUser (ac_storage cfg) (ac_db cfg) u t)) cache
       (au_id user) tenantId (au_scopes user) now"

definition installEmptyOrFallbackAbility :: "ability_config \<Rightarrow> authenticated_request \<Rightarrow> authenticated_request" where
  "installEmptyOrFallbackAbility cfg req =
     (case (hr_user req, ac_fallback cfg) of
        (Some user, Some resolve) \<Rightarrow> (case resolve user (known_path req) of
            Inr (Some ability) \<Rightarrow> req\<lparr>hr_ability := Some ability\<rparr>
          | _ \<Rightarrow> req\<lparr>hr_ability := Some (buildAbility [])\<rparr>)
      | _ \<Rightarrow> req\<lparr>hr_ability := Some (buildAbility [])\<rparr>)"

definition attachAbilityForUser ::
  "ability_config \<Rightarrow> millis \<Rightarrow> authenticated_request \<Rightarrow> string option \<Rightarrow> perm_cache \<Rightarrow> authenticated_request \<times> perm_cache" where
  "attachAbilityForUser cfg now req tenantId cache =
     (case hr_user req of
        None \<Rightarrow> (req\<lparr>hr_ability := Some (buildAbility [])\<rparr>, cache)
      | Some user \<Rightarrow> (case tenantId of
            None \<Rightarrow> (installEmptyOrFallbackAbility cfg req, cache)
          | Some t \<Rightarrow>
              if \<not> truthy t then (installEmptyOrFallbackAbility cfg req, cache)
              else (case ability_request cfg now cache user t of
                  (Inr ability, cache') \<Rightarrow> (req\<lparr>hr_ability := Some ability\<rparr>, cache')
                | (Inl e, cache') \<Rightarrow> (req\<lparr>hr_ability := Some (buildAbility [])\<rparr>, cache'))))"

definition isHubOperatorAbilityPath :: "string \<Rightarrow> bool" where
  "isHubOperatorAbilityPath path =
     (let pure = stripQuery path
      in if isHubPortalStaticAsset pure then False else pure = ''/hub'' \<or> startsWith pure ''/hub/'')"

definition abilityMiddleware ::
  "ability_config \<Rightarrow> request_env \<Rightarrow> millis \<Rightarrow> authenticated_request \<Rightarrow> perm_cache \<Rightarrow> authenticated_request \<times> perm_cache" where
  "abilityMiddleware cfg env now req cache =
     (if hr_ability req \<noteq> None then (req, cache)
      else case hr_user req of
        None \<Rightarrow> (req\<lparr>hr_ability := Some (buildAbility [])\<rparr>, cache)
      | Some user \<Rightarrow>
          let path = known_path req
          in if truthy_opt path \<and> isTenantExempt env (nullish path []) = Inr True then
               (if isHubOperatorAbilityPath (nullish path [])
                then attachAbilityForUser cfg now req (resolveHubOperatorTenantId (db_members (ac_db cfg)) user) cache
                else (installEmptyOrFallbackAbility cfg req, cache))
             else
               let tenantId = resolveRequestTenantId req;
                   purePath = stripQuery (nullish path ''/'')
               in attachAbilityForUser cfg now req
                    (if truthy_opt tenantId then tenantId
                     else if isHubPortalProtectedPath purePath
                       then resolveHubOperatorTenantId (db_members (ac_db cfg)) user else None) cache)"

text \<open>\<open>PermissionInterceptor.attachAbility\<close>, the older interceptor form.\<close>

definition permissionInterceptor ::
  "ability_config \<Rightarrow> millis \<Rightarrow> authenticated_request \<Rightarrow> perm_cache \<Rightarrow> (perm_error + authenticated_request) \<times> perm_cache" where
  "permissionInterceptor cfg now req cache =
     (if hr_ability req \<noteq> None then (Inr req, cache)
      else case hr_user req of
        None \<Rightarrow> (Inr (req\<lparr>hr_ability := Some (buildAbility [])\<rparr>), cache)
      | Some user \<Rightarrow> (case ability_request cfg now cache user (nullish (resolveSessionTenantId req) []) of
          (Inl e, cache') \<Rightarrow> (Inl e, cache')
        | (Inr ability, cache') \<Rightarrow> (Inr (req\<lparr>hr_ability := Some ability\<rparr>), cache')))"

section \<open>The portal middleware\<close>

definition user_present :: "authenticated_request \<Rightarrow> bool" where
  "user_present req = (case hr_user req of None \<Rightarrow> False | Some u \<Rightarrow> truthy (au_id u))"

definition hubPortalMiddleware :: "can_fn \<Rightarrow> request_env \<Rightarrow> authenticated_request \<Rightarrow> reject + authenticated_request" where
  "hubPortalMiddleware can env req =
     (let path = stripQuery (request_path req)
      in if \<not> isHubPortalProtectedPath path then Inr req
         else if en_appEnv env \<noteq> development then
           (case evaluateHubPortalRequestOutsideDev \<lparr>od_hubEnabled = en_hubEnabled env,
                od_authenticated = user_present req, od_isProbePath = isHubPortalAccessProbePath path,
                od_isCockpitPath = isHubCockpitPath path, od_isTenantAdminPath = isTenantAdminPortalPath path,
                od_hubAllowed = canAccessHub can (hr_ability req),
                od_tenantAdminAllowed = canAccessTenantAdmin can (hr_ability req)\<rparr> of
              MaskNotFound \<Rightarrow> Inl NotFound | _ \<Rightarrow> Inr req)
         else if isHubPortalAccessProbePath path then Inr req
         else
           let acceptHeader = header_value (hr_accept req);
               surfaceAllowed = (isHubCockpitPath path \<and> canAccessHub can (hr_ability req)) \<or>
                 (isTenantAdminPortalPath path \<and> canAccessTenantAdmin can (hr_ability req)) \<or>
                 isHubPortalAccessProbePath path
           in if \<not> user_present req then
                (if surfaceAllowed then Inr req
                 else if prefersHubPortalLoginRedirect path (hr_method req) acceptHeader then Inl (Redirect ''/'')
                 else Inl Unauthorized)
              else if \<not> surfaceAllowed then
                (if prefersHubPortalLoginRedirect path (hr_method req) acceptHeader then Inl (Redirect ''/?access=hub'')
                 else Inl ForbiddenReject)
              else Inr req)"

section \<open>The tenant interceptors\<close>

text \<open>The result is the tenant the handler runs under, if any.\<close>

definition tenantInterceptor :: "request_env \<Rightarrow> member_row list \<Rightarrow> authenticated_request \<Rightarrow> reject + string option" where
  "tenantInterceptor env members req =
     (let path = request_path req
      in case isTenantExempt env path of
           Inl e \<Rightarrow> Inl e
         | Inr True \<Rightarrow> Inr None
         | Inr False \<Rightarrow> (case hr_user req of
               None \<Rightarrow> Inl TenantIsolation
             | Some user \<Rightarrow>
                 let purePath = stripQuery path;
                     tenantId = resolveRequestTenantId req;
                     tenantId = (if \<not> truthy_opt tenantId \<and> isHubPortalProtectedPath purePath \<and>
                         prefersHubPortalHtmlResponse (hr_method req) (header_value (hr_accept req))
                       then resolveHubOperatorTenantId members user else tenantId)
                 in if \<not> truthy_opt tenantId then Inl TenantIsolation else Inr tenantId))"

definition hubOperatorTenantInterceptor :: "request_env \<Rightarrow> member_row list \<Rightarrow> authenticated_request \<Rightarrow> reject + string option" where
  "hubOperatorTenantInterceptor env members req =
     (let path = request_path req
      in case isTenantExempt env path of
           Inl e \<Rightarrow> Inl e
         | Inr True \<Rightarrow> Inr None
         | Inr False \<Rightarrow>
             if \<not> isHubPortalProtectedPath (stripQuery path) then Inr None
             else let tenantId = (case hr_user req of None \<Rightarrow> None
                        | Some user \<Rightarrow> resolveHubOperatorTenantId members user)
                  in if \<not> truthy_opt tenantId then Inr None else Inr tenantId)"

section \<open>The whole pipeline\<close>

record 's pipeline =
  pl_env :: request_env
  pl_parse_rules :: "string \<Rightarrow> ability option"
  pl_auth :: better_auth
  pl_keys :: "'s api_key_storage option"
  pl_argonVerify :: "string \<Rightarrow> string \<Rightarrow> bool"
  pl_ability :: ability_config

definition guard_request :: "can_fn \<Rightarrow> (string \<times> string) option \<Rightarrow> authenticated_request \<Rightarrow> reject + authenticated_request" where
  "guard_request can meta req = (case canActivate can meta (hr_ability req) of
     Inl _ \<Rightarrow> Inl ForbiddenReject | Inr _ \<Rightarrow> Inr req)"

definition intercept_request :: "request_env \<Rightarrow> member_row list \<Rightarrow> authenticated_request \<Rightarrow> reject + string option" where
  "intercept_request env members req =
     (if en_multiTenancy env then tenantInterceptor env members req else hubOperatorTenantInterceptor env members req)"

text \<open>The result of a request that reaches its handler is the request as the handler sees it and the
  tenant it runs under.\<close>

definition handle_request ::
  "'s pipeline \<Rightarrow> (string \<times> string) option \<Rightarrow> millis \<Rightarrow> authenticated_request \<Rightarrow> perm_cache \<Rightarrow> 's
   \<Rightarrow> (reject + authenticated_request \<times> string option) \<times> perm_cache \<times> 's" where
  "handle_request pl meta now req0 cache s =
     (let env = pl_env pl; cfg = pl_ability pl; members = db_members (ac_db cfg)
      in case sessionMiddleware (pl_parse_rules pl) env (pl_auth pl) (testAbilityMiddleware (pl_parse_rules pl) env req0) of
           Inl e \<Rightarrow> (Inl e, cache, s)
         | Inr req1 \<Rightarrow> (case apiKeyMiddleware (pl_keys pl) (pl_argonVerify pl) members now req1 s of
               (Inl e, s') \<Rightarrow> (Inl e, cache, s')
             | (Inr req2, s') \<Rightarrow> (case abilityMiddleware cfg env now req2 cache of
                   (req3, cache') \<Rightarrow> (case hubPortalMiddleware (ac_can cfg) env req3 of
                       Inl e \<Rightarrow> (Inl e, cache', s')
                     | Inr req4 \<Rightarrow> (case guard_request (ac_can cfg) meta req4 of
                           Inl e \<Rightarrow> (Inl e, cache', s')
                         | Inr req5 \<Rightarrow> (case intercept_request env members req5 of
                               Inl e \<Rightarrow> (Inl e, cache', s')
                             | Inr tenant \<Rightarrow> (Inr (req5, tenant), cache', s')))))))"

end
