(* ===== verification/Request_Isolation.thy ===== *)
theory Request_Isolation
  imports Request_Pipeline
begin

text \<open>
  What the composed pipeline guarantees: the tenant a handler's data access runs under is the tenant its
  ability was built for; a handler behind \<open>@Can\<close> runs only for members of that tenant; and requests
  that carry only an API key never reach a tenant-scoped route.
\<close>

section \<open>What the middlewares keep\<close>

definition same_line :: "authenticated_request \<Rightarrow> authenticated_request \<Rightarrow> bool" where
  "same_line r r' \<longleftrightarrow> hr_originalUrl r' = hr_originalUrl r \<and> hr_url r' = hr_url r \<and> hr_method r' = hr_method r \<and>
     hr_accept r' = hr_accept r"

lemma same_line_path: "same_line r r' \<Longrightarrow> request_path r' = request_path r \<and> known_path r' = known_path r"
  by (simp add: same_line_def request_path_def known_path_def split: option.splits)

lemma same_line_trans: "same_line a b \<Longrightarrow> same_line b c \<Longrightarrow> same_line a c"
  by (simp add: same_line_def)

lemma hatch_off:
  "\<not> isTestAbilityHatchEnabled env \<Longrightarrow> testAbilityMiddleware p env req = req"
  by (simp add: testAbilityMiddleware_def parseTestAbilityHeaderForRequest_def)

lemma session_keeps:
  assumes "sessionMiddleware p env auth req = Inr req1" "\<not> isTestAbilityHatchEnabled env"
  shows "same_line req req1" "hr_ability req1 = hr_ability req"
  using assms by (auto simp: sessionMiddleware_def parseTestAbilityHeaderForRequest_def same_line_def Let_def
      split: sum.splits option.splits if_splits)

lemma api_key_keeps:
  assumes "apiKeyMiddleware keys av members now req s = (Inr req2, s')"
  shows "same_line req req2" "hr_ability req2 = hr_ability req"
  using assms by (auto simp: apiKeyMiddleware_def same_line_def split: option.splits if_splits prod.splits sum.splits)

lemma install_keeps:
  "same_line req (installEmptyOrFallbackAbility cfg req)" "hr_user (installEmptyOrFallbackAbility cfg req) = hr_user req"
  by (auto simp: installEmptyOrFallbackAbility_def same_line_def split: option.splits sum.splits)

lemma attach_keeps:
  assumes "attachAbilityForUser cfg now req t cache = (req', cache')"
  shows "same_line req req' \<and> hr_user req' = hr_user req"
proof (cases "hr_user req")
  case None
  with assms show ?thesis by (auto simp: attachAbilityForUser_def same_line_def)
next
  case (Some user)
  with assms install_keeps[where cfg = cfg and req = req] show ?thesis
    by (auto simp: attachAbilityForUser_def same_line_def split: option.splits if_splits prod.splits sum.splits)
qed

lemma ability_keeps:
  assumes "abilityMiddleware cfg env now req cache = (req', cache')"
  shows "same_line req req' \<and> hr_user req' = hr_user req"
proof (cases "hr_ability req \<noteq> None \<or> hr_user req = None")
  case True
  with assms show ?thesis by (auto simp: abilityMiddleware_def same_line_def split: if_splits)
next
  case False
  with assms attach_keeps[of cfg now req] install_keeps[where cfg = cfg and req = req] show ?thesis
    by (auto simp: abilityMiddleware_def Let_def split: option.splits if_splits)
qed

lemma portal_keeps: "hubPortalMiddleware can env req = Inr req' \<Longrightarrow> req' = req"
  by (auto simp: hubPortalMiddleware_def Let_def split: if_splits outside_dev_decision.splits)

lemma guard_keeps: "guard_request can meta req = Inr req' \<Longrightarrow> req' = req \<and> canActivate can meta (hr_ability req) \<noteq> Inl Forbidden"
  by (auto simp: guard_request_def split: sum.splits)

text \<open>A request that reaches its handler went through every layer.\<close>

lemma served_request:
  assumes "handle_request pl meta now req0 cache s = (Inr (req, tenant), cache', s')"
  obtains req1 req2 where
    "sessionMiddleware (pl_parse_rules pl) (pl_env pl) (pl_auth pl) (testAbilityMiddleware (pl_parse_rules pl) (pl_env pl) req0) = Inr req1"
    "apiKeyMiddleware (pl_keys pl) (pl_argonVerify pl) (db_members (ac_db (pl_ability pl))) now req1 s = (Inr req2, s')"
    "abilityMiddleware (pl_ability pl) (pl_env pl) now req2 cache = (req, cache')"
    "hubPortalMiddleware (ac_can (pl_ability pl)) (pl_env pl) req = Inr req"
    "guard_request (ac_can (pl_ability pl)) meta req = Inr req"
    "intercept_request (pl_env pl) (db_members (ac_db (pl_ability pl))) req = Inr tenant"
proof -
  let ?sess = "sessionMiddleware (pl_parse_rules pl) (pl_env pl) (pl_auth pl) (testAbilityMiddleware (pl_parse_rules pl) (pl_env pl) req0)"
  obtain req1 where 1: "?sess = Inr req1" using assms by (cases ?sess) (auto simp: handle_request_def Let_def)
  obtain r2 k where k: "apiKeyMiddleware (pl_keys pl) (pl_argonVerify pl) (db_members (ac_db (pl_ability pl))) now req1 s = (r2, k)"
    by fastforce
  obtain req2 where 2: "r2 = Inr req2" using assms 1 k by (cases r2) (auto simp: handle_request_def Let_def)
  obtain req3 c where 3: "abilityMiddleware (pl_ability pl) (pl_env pl) now req2 cache = (req3, c)" by fastforce
  obtain req4 where 4: "hubPortalMiddleware (ac_can (pl_ability pl)) (pl_env pl) req3 = Inr req4"
    using assms 1 2 k 3 by (cases "hubPortalMiddleware (ac_can (pl_ability pl)) (pl_env pl) req3") (auto simp: handle_request_def Let_def)
  obtain req5 where 5: "guard_request (ac_can (pl_ability pl)) meta req4 = Inr req5"
    using assms 1 2 k 3 4 by (cases "guard_request (ac_can (pl_ability pl)) meta req4") (auto simp: handle_request_def Let_def)
  obtain t where 6: "intercept_request (pl_env pl) (db_members (ac_db (pl_ability pl))) req5 = Inr t"
    using assms 1 2 k 3 4 5
    by (cases "intercept_request (pl_env pl) (db_members (ac_db (pl_ability pl))) req5") (auto simp: handle_request_def Let_def)
  have "req = req5" "tenant = t" "cache' = c" "s' = k" using assms 1 2 k 3 4 5 6 by (auto simp: handle_request_def Let_def)
  moreover have "req4 = req3" "req5 = req4" using portal_keeps[OF 4] guard_keeps[OF 5] by auto
  ultimately show ?thesis using 1 k[unfolded 2] 3 4 5 6 by (intro that[of req1 req2]) auto
qed

section \<open>One tenant for data and rights\<close>

lemma intercepted_tenant:
  assumes "intercept_request env members req = Inr (Some t)"
  obtains u where "hr_user req = Some u" "isTenantExempt env (request_path req) = Inr False" "t \<noteq> []"
    "(if truthy_opt (au_activeOrganizationId u) then au_activeOrganizationId u
      else if isHubPortalProtectedPath (stripQuery (request_path req)) then resolveHubOperatorTenantId members u else None) = Some t"
  using assms
  by (auto simp: intercept_request_def tenantInterceptor_def hubOperatorTenantInterceptor_def resolveRequestTenantId_def
      resolveHubOperatorTenantId_def truthy_opt_def Let_def
      split: if_splits sum.splits bool.splits option.splits)

lemma exempt_root: "isTenantExempt env ''/'' = Inr True"
  by (simp add: isTenantExempt_def stripQuery_takeWhile EXEMPT_EXACT_def)

lemma known_of_required:
  assumes "isTenantExempt env (request_path req) = Inr False"
  shows "known_path req = Some (request_path req)" "request_path req \<noteq> []"
proof -
  show "known_path req = Some (request_path req)"
    using assms exempt_root[of env] by (auto simp: known_path_def request_path_def nullish_def split: option.splits)
  show "request_path req \<noteq> []" using assms by (auto simp: isTenantExempt_def)
qed

lemma ability_on_required:
  assumes "isTenantExempt env (request_path req) = Inr False" "hr_ability req = None" "hr_user req = Some u"
    and "(if truthy_opt (au_activeOrganizationId u) then au_activeOrganizationId u
      else if isHubPortalProtectedPath (stripQuery (request_path req)) then resolveHubOperatorTenantId (db_members (ac_db cfg)) u
      else None) = Some t"
    and "abilityMiddleware cfg env now req cache = (req', cache')"
  shows "attachAbilityForUser cfg now req (Some t) cache = (req', cache')"
  using assms known_of_required[OF assms(1)]
  by (simp add: abilityMiddleware_def resolveRequestTenantId_def truthy_opt_def split: if_splits)

lemma served_tenant:
  assumes "handle_request pl meta now req0 cache s = (Inr (req, Some t), cache', s')"
    and "\<not> isTestAbilityHatchEnabled (pl_env pl)" "hr_ability req0 = None"
  obtains u ab where "hr_user req = Some u" "hr_ability req = Some ab" "guard_request (ac_can (pl_ability pl)) meta req = Inr req"
    "fst (ability_request (pl_ability pl) now cache u t) = Inr ab \<or>
     (ab = buildAbility [] \<and> (\<exists>e. fst (ability_request (pl_ability pl) now cache u t) = Inl e))"
  using assms(1)
proof (cases rule: served_request)
  case (1 req1 req2)
  note off = hatch_off[OF assms(2)]
  have none: "hr_ability req2 = None"
    using session_keeps(2)[OF 1(1)[unfolded off] assms(2)] api_key_keeps(2)[OF 1(2)] assms(3) by simp
  note keep = ability_keeps[OF 1(3)]
  from 1(6) show ?thesis
  proof (cases rule: intercepted_tenant)
    case tenant: (1 u)
    with keep same_line_path[of req2 req] have u2: "hr_user req2 = Some u" "request_path req2 = request_path req" by auto
    have att: "attachAbilityForUser (pl_ability pl) now req2 (Some t) cache = (req, cache')"
      using tenant(2,4) unfolding u2(2)[symmetric] by (intro ability_on_required[OF _ none u2(1) _ 1(3)])
    obtain res c where res: "ability_request (pl_ability pl) now cache u t = (res, c)" by fastforce
    show ?thesis
    proof (cases res)
      case (Inl e)
      with att u2(1) tenant(3) res have "hr_ability req = Some (buildAbility [])" by (auto simp: attachAbilityForUser_def)
      with tenant(1) 1(5) res Inl show ?thesis by (intro that) auto
    next
      case (Inr ab)
      with att u2(1) tenant(3) res have "hr_ability req = Some ab" by (auto simp: attachAbilityForUser_def)
      with tenant(1) 1(5) res Inr show ?thesis by (intro that) auto
    qed
  qed
qed

text \<open>C1: the tenant under which a handler's data access runs (the row-level-security tenant) is the tenant the caller's
  rights were computed for: whenever a request is served inside a tenant, its ability is what the permission service
  answers for this user in that very tenant, or the empty ability if that failed.  It holds in both deployment modes
  and on portal paths, whatever headers the request carries.\<close>

theorem data_tenant_is_auth_tenant:
  assumes "handle_request pl meta now req0 cache s = (Inr (req, Some t), cache', s')"
    and "\<not> isTestAbilityHatchEnabled (pl_env pl)" "hr_ability req0 = None"
  shows "\<exists>u ab. hr_user req = Some u \<and> hr_ability req = Some ab \<and>
    (fst (ability_request (pl_ability pl) now cache u t) = Inr ab \<or>
     (ab = buildAbility [] \<and> (\<exists>e. fst (ability_request (pl_ability pl) now cache u t) = Inl e)))"
  by (rule served_tenant[OF assms]) blast

section \<open>Gated handlers run for members only\<close>

text \<open>The cache is that of a process which has answered any interleaving of calls over the tables \<open>hist n\<close> of
  the times \<open>n\<close> so far; memberships may have been removed at any time, with or without an invalidation.\<close>

definition rules_history :: "ability_config \<Rightarrow> (millis \<Rightarrow> perm_db) \<Rightarrow> perm_history" where
  "rules_history cfg hist n u t = Inr (findRulesForUser (ac_storage cfg) (hist n) u t)"

definition cache_of_process :: "ability_config \<Rightarrow> (millis \<Rightarrow> perm_db) \<Rightarrow> millis \<Rightarrow> perm_cache \<Rightarrow> bool" where
  "cache_of_process cfg hist now cache \<longleftrightarrow> ac_db cfg = hist now \<and>
     (\<exists>p. preach (rules_history cfg hist) (ac_options cfg) p \<and> ps_now p = now \<and> ps_cache p = cache)"

text \<open>The instants whose tables an answer given now may still show.\<close>

definition still_shown :: "perm_options \<Rightarrow> millis \<Rightarrow> millis \<Rightarrow> millis \<Rightarrow> bool" where
  "still_shown opts sent at now \<longleftrightarrow> sent \<le> at \<and> at \<le> now \<and> (at = now \<or> now < at + ttlMs opts)"

lemma answered_rules:
  assumes "cache_of_process cfg hist now cache"
    and "fst (abilityForCached (ac_options cfg) (\<lambda>u t. Inr (findRulesForUser (ac_storage cfg) (ac_db cfg) u t)) cache u t now) = Inr ab"
  shows "\<exists>sent at. built_from (rules_history cfg hist) u t sent at ab \<and> still_shown (ac_options cfg) sent at now"
proof (cases "cache_lookup cache u t now")
  case None
  with assms show ?thesis
    by (intro exI[of _ now])
      (auto simp: abilityForCached_def finish_load_def Let_def still_shown_def built_from_def rules_history_def cache_of_process_def
        split: sum.splits)
next
  case (Some q)
  then have hit: "cache_lookup cache u t now = Some (ab, snd q)" using assms(2) by (cases q) (simp add: abilityForCached_def)
  obtain p where p: "preach (rules_history cfg hist) (ac_options cfg) p" "ps_now p = now" "ps_cache p = cache"
    using assms(1) by (auto simp: cache_of_process_def)
  from hit show ?thesis
  proof (cases rule: lookup_hit)
    case (1 e)
    with preach_ok[OF p(1)] p(2,3) have "entry_ok (rules_history cfg hist) (ac_options cfg) now (cacheKey u t, e)"
      by (auto simp: cache_ok_def)
    from entry_ok_key[OF this] obtain sent at where b: "built_from (rules_history cfg hist) u t sent at ab" "at \<le> now"
      "ce_expiresAt e = at + ttlMs (ac_options cfg)" using 1(2) by blast
    moreover have "sent \<le> at" using b(1) by (simp add: built_from_def)
    ultimately show ?thesis using 1(3) by (intro exI[of _ sent] exI[of _ at]) (simp add: still_shown_def)
  qed
qed

lemma rights_need_membership:
  assumes "cache_of_process cfg hist now cache" "fst (ability_request cfg now cache u t) = Inr ab" "ab \<noteq> []"
  shows "\<exists>sent at. is_member (hist sent) (au_id u) t \<and> still_shown (ac_options cfg) sent at now"
proof -
  let ?full = "abilityForCached (ac_options cfg) (\<lambda>u t. Inr (findRulesForUser (ac_storage cfg) (ac_db cfg) u t)) cache (au_id u) t now"
  obtain r c where rc: "?full = (r, c)" by fastforce
  obtain full where full: "r = Inr full"
    using assms(2) rc by (cases r) (auto simp: ability_request_def abilityFor_def)
  obtain sent at where b: "built_from (rules_history cfg hist) (au_id u) t sent at full" "still_shown (ac_options cfg) sent at now"
    using answered_rules[OF assms(1), of "au_id u" t full] rc full by auto
  have "full \<noteq> []"
    using assms(2,3) rc full
    by (auto simp: ability_request_def abilityFor_def restrictAbilityByScopes_def buildAbility_def Let_def split: option.splits if_splits)
  then have "findRulesForUser (ac_storage cfg) (hist sent) (au_id u) t \<noteq> []"
    using b(1) by (auto simp: built_from_def rules_history_def resolveDbRules_def buildAbility_def)
  from rules_need_membership[OF this] b(2) show ?thesis by blast
qed

lemma allows_needs_rules: "casl can matches \<Longrightarrow> \<not> abilityAllows can [] a s"
  using casl.can_empty[of can matches]
  by (auto simp: abilityAllows_def grantsHubPortalAccess_def canManageSubject_def)

text \<open>C2: a handler behind \<open>@Can\<close> that runs inside a tenant runs for a user with a membership row in that tenant, in the
  tables as they are now or as the permission cache may still show them: the row existed when the rules were read, and
  they were stored less than the cache's TTL ago.  The cache is that of a process after any interleaving of calls,
  evictions and invalidations over tables that change at will, since removing a membership does not invalidate it.
  It holds for cookie sessions and API keys, on product and portal paths alike, with the test hatch off: nobody
  reaches a gated handler of a tenant he does not belong to by naming it as active organization.\<close>

theorem gated_handler_needs_membership:
  assumes "handle_request pl (Some (a, sub)) now req0 cache s = (Inr (req, Some t), cache', s')"
    and "\<not> isTestAbilityHatchEnabled (pl_env pl)" "hr_ability req0 = None"
    and "casl (ac_can (pl_ability pl)) matches" "cache_of_process (pl_ability pl) hist now cache"
  shows "\<exists>u sent at. hr_user req = Some u \<and> is_member (hist sent) (au_id u) t \<and>
    sent \<le> at \<and> at \<le> now \<and> (at = now \<or> now < at + ttlMs (ac_options (pl_ability pl)))"
proof (rule served_tenant[OF assms(1-3)])
  fix u ab
  assume u: "hr_user req = Some u" "hr_ability req = Some ab"
    and g: "guard_request (ac_can (pl_ability pl)) (Some (a, sub)) req = Inr req"
    and ab: "fst (ability_request (pl_ability pl) now cache u t) = Inr ab \<or>
      (ab = buildAbility [] \<and> (\<exists>e. fst (ability_request (pl_ability pl) now cache u t) = Inl e))"
  have "abilityAllows (ac_can (pl_ability pl)) ab a sub"
    using g u(2) by (auto simp: guard_request_def canActivate_def split: if_splits)
  then have ne: "ab \<noteq> []" using allows_needs_rules[OF assms(4)] by blast
  with ab have "fst (ability_request (pl_ability pl) now cache u t) = Inr ab" by (simp add: buildAbility_def)
  from rights_need_membership[OF assms(5) this ne] u(1) show ?thesis by (auto simp: still_shown_def)
qed

section \<open>API keys and tenant routes\<close>

definition without_session :: "better_auth \<Rightarrow> bool" where
  "without_session auth \<longleftrightarrow> (case auth of None \<Rightarrow> True
     | Some getSession \<Rightarrow> \<forall>r session. getSession r \<noteq> Inr (Some session))"

lemma session_leaves_anonymous:
  assumes "sessionMiddleware p env auth req = Inr req1" "without_session auth" "hr_user req = None"
  shows "hr_user req1 = None"
  using assms by (auto simp: sessionMiddleware_def without_session_def Let_def split: sum.splits option.splits if_splits)

lemma api_key_user_without_org:
  assumes "apiKeyMiddleware keys av members now req s = (Inr req2, s')" "hr_user req = None"
  shows "resolveRequestTenantId req2 = None"
  using assms by (auto simp: apiKeyMiddleware_def resolveRequestTenantId_def split: option.splits if_splits prod.splits sum.splits)

text \<open>a request without a session, however valid the API key it carries, is never served on a tenant-scoped route
  outside the portal: with Better-Auth configured the session middleware, which runs first, has already refused it on a
  protected path, and otherwise the key's user has no active organization and the tenant interceptor refuses it.\<close>

theorem api_key_opens_no_tenant_route:
  assumes "without_session (pl_auth pl)" "hr_user req0 = None" "\<not> isTestAbilityHatchEnabled (pl_env pl)"
    and "en_multiTenancy (pl_env pl)" "isTenantExempt (pl_env pl) (request_path req0) = Inr False"
    and "\<not> isHubPortalProtectedPath (stripQuery (request_path req0))"
  shows "\<exists>e. fst (handle_request pl meta now req0 cache s) = Inl e"
proof (rule ccontr)
  assume "\<nexists>e. fst (handle_request pl meta now req0 cache s) = Inl e"
  then obtain res rest where "handle_request pl meta now req0 cache s = (Inr res, rest)"
    by (cases "handle_request pl meta now req0 cache s"; cases "fst (handle_request pl meta now req0 cache s)") auto
  then obtain req tenant cache' s' where "handle_request pl meta now req0 cache s = (Inr (req, tenant), cache', s')"
    by (cases res; cases rest) auto
  then show False
  proof (cases rule: served_request)
    case (1 req1 req2)
    note off = hatch_off[OF assms(3)]
    have "hr_user req1 = None" by (rule session_leaves_anonymous[OF 1(1)[unfolded off] assms(1,2)])
    then have "resolveRequestTenantId req2 = None" by (rule api_key_user_without_org[OF 1(2)])
    then have none: "resolveRequestTenantId req = None"
      using ability_keeps[OF 1(3)] by (simp add: resolveRequestTenantId_def)
    have "same_line req0 req"
      using session_keeps(1)[OF 1(1)[unfolded off] assms(3)] api_key_keeps(1)[OF 1(2)] ability_keeps[OF 1(3)] same_line_trans
      by blast
    with assms(5,6) same_line_path have "isTenantExempt (pl_env pl) (request_path req) = Inr False"
      "\<not> isHubPortalProtectedPath (stripQuery (request_path req))" by metis+
    with 1(6) none assms(4) show False
      by (auto simp: intercept_request_def tenantInterceptor_def truthy_opt_def Let_def split: option.splits)
  qed
qed

section \<open>Details of the portal and of the hatch\<close>

text \<open>With the default mount path only \<open>/hub/static\<close> itself is both exempt from a tenant and an operator path: the
  operator branch for exempt paths is dead code.\<close>

lemma exempt_operator_path:
  assumes "isTenantExempt env path = Inr True" "isHubOperatorAbilityPath path" "en_authBasePath env = None"
  shows "stripQuery path = ''/hub/static''"
  using assms
  by (auto simp: isTenantExempt_def isHubOperatorAbilityPath_def isHubPortalStaticAsset_def matches_prefix_def EXEMPT_EXACT_def
      STATIC_EXEMPT_PREFIXES_def resolveAuthExemptPrefix_def BETTER_AUTH_DEFAULT_MOUNT_PATH_def endsWith_def startsWith_iff Let_def
      split: if_splits)

text \<open>The variable \<open>VITEST\<close> opens the hatch in a production process.\<close>

lemma vitest_opens_hatch:
  assumes "en_nodeEnv env = Some ''production''" "en_vitest env = Some ''1''"
  shows "hr_ability (testAbilityMiddleware p env (req\<lparr>hr_testAbility := Some (One ''full'')\<rparr>)) =
    Some (buildAbility [\<lparr>ar_action = One ''manage'', ar_subject = One ''all'', ar_conditions = None, ar_fields = None, ar_inverted = False\<rparr>])"
  using assms by (simp add: testAbilityMiddleware_def parseTestAbilityHeaderForRequest_def isTestAbilityHatchEnabled_def
      parseTestAbilityHeaderValue_def)

section \<open>Witnesses\<close>

definition sample_ability_config :: ability_config where
  "sample_ability_config = \<lparr>ac_can = reference_can, ac_options = \<lparr>po_ttlMs = None, po_maxEntries = None\<rparr>, ac_storage = default_options,
     ac_db = sample_db, ac_fallback = None\<rparr>"

definition sample_session :: better_auth where
  "sample_session = Some (\<lambda>r. Inr (Some \<lparr>sl_userId = ''u1'', sl_tenantId = None, sl_activeOrganizationId = Some ''t1''\<rparr>))"

definition sample_pipeline :: "better_auth \<Rightarrow> memory_keys pipeline" where
  "sample_pipeline auth = \<lparr>pl_env = default_env, pl_parse_rules = (\<lambda>_. None), pl_auth = auth, pl_keys = Some memory_key_storage,
     pl_argonVerify = (=), pl_ability = sample_ability_config\<rparr>"

definition sample_request :: authenticated_request where
  "sample_request = \<lparr>hr_originalUrl = Some ''/api/examples?x=1'', hr_url = None, hr_method = Some ''GET'', hr_accept = None,
     hr_authorization = None, hr_testAbility = None, hr_user = None, hr_ability = None\<rparr>"

definition sample_served :: authenticated_request where
  "sample_served = sample_request\<lparr>hr_user := Some \<lparr>au_id = ''u1'', au_tenantId = None, au_activeOrganizationId = Some ''t1'',
     au_scopes = None\<rparr>, hr_ability := Some (buildAbility member_rules)\<rparr>"

lemma sample_served_request:
  "\<exists>c. handle_request (sample_pipeline sample_session) (Some (''read'', ''Example'')) 0 sample_request [] [] =
    (Inr (sample_served, Some ''t1''), c, [])"
proof -
  have "(case handle_request (sample_pipeline sample_session) (Some (''read'', ''Example'')) 0 sample_request [] [] of
      (r, c, k) \<Rightarrow> r = Inr (sample_served, Some ''t1'') \<and> k = [])"
    by code_simp
  then show ?thesis by (auto split: prod.splits)
qed

lemma sample_hatch_off: "\<not> isTestAbilityHatchEnabled (pl_env (sample_pipeline auth))"
  by (simp add: sample_pipeline_def default_env_def isTestAbilityHatchEnabled_def)

theorem data_tenant_is_auth_tenant_witness:
  "\<exists>u ab. hr_user sample_served = Some u \<and> hr_ability sample_served = Some ab"
proof -
  obtain c where "handle_request (sample_pipeline sample_session) (Some (''read'', ''Example'')) 0 sample_request [] [] =
    (Inr (sample_served, Some ''t1''), c, [])" using sample_served_request by blast
  from data_tenant_is_auth_tenant[OF this sample_hatch_off] show ?thesis by (auto simp: sample_request_def)
qed

text \<open>The user's membership was removed at time 1; at time 5 the cache, filled at time 0, still lets him in.\<close>

definition removed_history :: "millis \<Rightarrow> perm_db" where
  "removed_history n = (if n < 1 then sample_db else sample_db\<lparr>db_members := []\<rparr>)"

definition later_pipeline :: "memory_keys pipeline" where
  "later_pipeline = (sample_pipeline sample_session)\<lparr>pl_ability := sample_ability_config\<lparr>ac_db := removed_history 5\<rparr>\<rparr>"

definition filled_cache :: perm_cache where
  "filled_cache = snd (finish_load (ac_options sample_ability_config) [] ''u1'' ''t1'' 0
     (Inr (findRulesForUser default_options sample_db ''u1'' ''t1'')))"

lemma filled_cache_reached: "cache_of_process (pl_ability later_pipeline) removed_history 5 filled_cache"
proof -
  let ?cfg = "pl_ability later_pipeline" and ?s0 = "\<lparr>ps_now = 0, ps_cache = [], ps_loads = []\<rparr> :: perm_system"
  let ?h = "rules_history ?cfg removed_history"
  let ?l = "\<lparr>ld_user = ''u1'', ld_tenant = ''t1'', ld_sent = 0, ld_rows = ?h 0 ''u1'' ''t1''\<rparr>"
  have "cache_lookup (ps_cache ?s0) ''u1'' ''t1'' (ps_now ?s0) = None" by (simp add: cache_lookup_def)
  from preach.step[OF preach.start pstep.send[OF this, of ?h "ac_options ?cfg"]]
  have 1: "preach ?h (ac_options ?cfg) (?s0\<lparr>ps_loads := [?l]\<rparr>)" by simp
  have "filled_cache = snd (finish_load (ac_options ?cfg) [] ''u1'' ''t1'' 0 (?h 0 ''u1'' ''t1''))"
    by (simp add: filled_cache_def rules_history_def removed_history_def later_pipeline_def sample_pipeline_def sample_ability_config_def)
  then have "finish_load (ac_options ?cfg) [] ''u1'' ''t1'' 0 (?h 0 ''u1'' ''t1'') =
      (fst (finish_load (ac_options ?cfg) [] ''u1'' ''t1'' 0 (?h 0 ''u1'' ''t1'')), filled_cache)" by (metis prod.collapse)
  then have "preach ?h (ac_options ?cfg) \<lparr>ps_now = 0, ps_cache = filled_cache, ps_loads = []\<rparr>"
    using preach.step[OF 1 pstep.finish[of "?s0\<lparr>ps_loads := [?l]\<rparr>" "[]" ?l "[]"]] by simp
  from preach.step[OF this pstep.pass[of _ 5]]
  have "preach ?h (ac_options ?cfg) \<lparr>ps_now = 5, ps_cache = filled_cache, ps_loads = []\<rparr>" by simp
  moreover have "ac_db ?cfg = removed_history 5" by (simp add: later_pipeline_def)
  ultimately show ?thesis unfolding cache_of_process_def by (metis perm_system.select_convs(1,2))
qed

theorem gated_handler_needs_membership_witness:
  "\<exists>sent at. is_member (removed_history sent) ''u1'' ''t1'' \<and> sent \<le> at \<and> at \<le> 5 \<and>
    \<not> is_member (removed_history 5) ''u1'' ''t1''"
proof -
  have "(case handle_request later_pipeline (Some (''read'', ''Example'')) 5 sample_request filled_cache [] of
      (r, c, k) \<Rightarrow> r = Inr (sample_served, Some ''t1'') \<and> k = [])"
    by code_simp
  then obtain c where h: "handle_request later_pipeline (Some (''read'', ''Example'')) 5 sample_request filled_cache [] =
    (Inr (sample_served, Some ''t1''), c, [])" by (auto split: prod.splits)
  have "casl (ac_can (pl_ability later_pipeline)) reference_match" "\<not> isTestAbilityHatchEnabled (pl_env later_pipeline)"
    "\<not> is_member (removed_history 5) ''u1'' ''t1''"
    using sample_hatch_off[of sample_session]
    by (simp_all add: later_pipeline_def sample_pipeline_def sample_ability_config_def reference.casl_axioms removed_history_def is_member_def)
  with gated_handler_needs_membership[OF h _ _ _ filled_cache_reached] show ?thesis
    by (auto simp: sample_request_def sample_served_def)
qed

theorem api_key_opens_no_tenant_route_witness:
  "\<exists>e. fst (handle_request (sample_pipeline (Some (\<lambda>r. Inr None))) None 0 sample_request [] []) = Inl e"
proof (rule api_key_opens_no_tenant_route)
  show "isTenantExempt (pl_env (sample_pipeline (Some (\<lambda>r. Inr None)))) (request_path sample_request) = Inr False" by code_simp
  show "\<not> isHubPortalProtectedPath (stripQuery (request_path sample_request))" by code_simp
qed (simp_all add: without_session_def sample_hatch_off sample_pipeline_def sample_request_def default_env_def
    isTestAbilityHatchEnabled_def)

end
