(* ===== verification/Output_Pipeline.thy ===== *)
theory Output_Pipeline
  imports Permissions
begin

text \<open>
  The output pipeline that every controller response passes
  (\<open>src/core/output-pipeline/\<close>: \<open>output-pipeline.interceptor.ts\<close>, \<open>process-output-response.ts\<close>,
  \<open>output-pipeline.ts\<close>, \<open>remove-secrets.ts\<close>, \<open>safety-net.ts\<close>, \<open>secret-field-names.ts\<close>) and the GeoJSON
  mapper it calls (\<open>src/core/geo/geojson-output-mapper.ts\<close>).

  A response is a value of type \<open>js_value\<close>.  A \<open>Date\<close> is an object without own enumerable properties,
  which is all the pipeline sees of it.  \<open>ability.rulesFor\<close> belongs to CASL and is an argument; so are a
  regular expression of the safety net (its \<open>test\<close>) and \<open>JSON.parse\<close> of a geometry column, whose
  coordinates are fractions.
\<close>

section \<open>Response values\<close>

datatype js_value =
    VUndefined
  | VNull
  | VBool bool
  | VNum int
  | VStr string
  | VDate millis
  | VArr "js_value list"
  | VObj "(string \<times> js_value) list"

section \<open>Secret field names\<close>

definition SECRET_FIELD_NAMES :: "string list" where
  "SECRET_FIELD_NAMES = [''password'', ''passwordHash'', ''token'', ''apiKey'', ''secret'', ''authToken'',
     ''refreshToken'', ''sessionToken'', ''pinHash'', ''mfaSecret'']"

definition normalizeKey :: "string \<Rightarrow> string" where
  "normalizeKey key = filter (\<lambda>c. c \<noteq> CHR ''_'') (toLowerCase key)"

definition normalize_fields :: "string list \<Rightarrow> string set" where
  "normalize_fields names = set (map normalizeKey names)"

section \<open>Stage 3: remove secrets\<close>

fun strip_walk :: "string set \<Rightarrow> js_value \<Rightarrow> js_value"
and strip_items :: "string set \<Rightarrow> js_value list \<Rightarrow> js_value list"
and strip_entries :: "string set \<Rightarrow> (string \<times> js_value) list \<Rightarrow> (string \<times> js_value) list" where
  "strip_walk blocklist (VArr items) = VArr (strip_items blocklist items)"
| "strip_walk blocklist (VObj entries) = VObj (strip_entries blocklist entries)"
| "strip_walk blocklist (VDate t) = VObj []"
| "strip_walk blocklist v = v"
| "strip_items blocklist [] = []"
| "strip_items blocklist (v # vs) = strip_walk blocklist v # strip_items blocklist vs"
| "strip_entries blocklist [] = []"
| "strip_entries blocklist ((key, child) # es) =
     (if normalizeKey key \<in> blocklist then strip_entries blocklist es
      else (key, strip_walk blocklist child) # strip_entries blocklist es)"

definition removeSecrets :: "js_value \<Rightarrow> string list \<Rightarrow> js_value" where
  "removeSecrets v names = strip_walk (set (map normalizeKey names)) v"

section \<open>Stage 4: the safety net\<close>

datatype safety_mode = Mask | Throw

datatype output_error = SafetyNetViolation string

fun walkForFieldHit :: "js_value \<Rightarrow> string set \<Rightarrow> string option"
and field_hit_items :: "js_value list \<Rightarrow> string set \<Rightarrow> string option"
and field_hit_entries :: "(string \<times> js_value) list \<Rightarrow> string set \<Rightarrow> string option" where
  "walkForFieldHit (VArr items) names = field_hit_items items names"
| "walkForFieldHit (VObj entries) names = field_hit_entries entries names"
| "walkForFieldHit v names = None"
| "field_hit_items [] names = None"
| "field_hit_items (v # vs) names =
     (case walkForFieldHit v names of Some hit \<Rightarrow> Some hit | None \<Rightarrow> field_hit_items vs names)"
| "field_hit_entries [] names = None"
| "field_hit_entries ((key, child) # es) names =
     (if normalizeKey key \<in> names then Some key
      else case walkForFieldHit child names of Some hit \<Rightarrow> Some hit | None \<Rightarrow> field_hit_entries es names)"

definition matchesAny :: "string \<Rightarrow> (string \<Rightarrow> bool) list \<Rightarrow> bool" where
  "matchesAny s patterns = list_ex (\<lambda>test. test s) patterns"

fun walkForValueHit :: "js_value \<Rightarrow> (string \<Rightarrow> bool) list \<Rightarrow> string option"
and value_hit_items :: "js_value list \<Rightarrow> (string \<Rightarrow> bool) list \<Rightarrow> string option"
and value_hit_entries :: "(string \<times> js_value) list \<Rightarrow> (string \<Rightarrow> bool) list \<Rightarrow> string option" where
  "walkForValueHit (VStr s) patterns = (if matchesAny s patterns then Some ''<value-shape>'' else None)"
| "walkForValueHit (VArr items) patterns = value_hit_items items patterns"
| "walkForValueHit (VObj entries) patterns = value_hit_entries entries patterns"
| "walkForValueHit v patterns = None"
| "value_hit_items [] patterns = None"
| "value_hit_items (v # vs) patterns =
     (case walkForValueHit v patterns of Some hit \<Rightarrow> Some hit | None \<Rightarrow> value_hit_items vs patterns)"
| "value_hit_entries [] patterns = None"
| "value_hit_entries ((key, child) # es) patterns =
     (case walkForValueHit child patterns of Some hit \<Rightarrow> Some hit | None \<Rightarrow> value_hit_entries es patterns)"

fun walkAndMask :: "js_value \<Rightarrow> string set \<Rightarrow> (string \<Rightarrow> bool) list \<Rightarrow> js_value"
and mask_items :: "js_value list \<Rightarrow> string set \<Rightarrow> (string \<Rightarrow> bool) list \<Rightarrow> js_value list"
and mask_entries :: "(string \<times> js_value) list \<Rightarrow> string set \<Rightarrow> (string \<Rightarrow> bool) list \<Rightarrow> (string \<times> js_value) list" where
  "walkAndMask (VStr s) names patterns = (if matchesAny s patterns then VStr ''[redacted]'' else VStr s)"
| "walkAndMask (VArr items) names patterns = VArr (mask_items items names patterns)"
| "walkAndMask (VObj entries) names patterns = VObj (mask_entries entries names patterns)"
| "walkAndMask (VDate t) names patterns = VObj []"
| "walkAndMask v names patterns = v"
| "mask_items [] names patterns = []"
| "mask_items (v # vs) names patterns = walkAndMask v names patterns # mask_items vs names patterns"
| "mask_entries [] names patterns = []"
| "mask_entries ((key, child) # es) names patterns =
     (key, if normalizeKey key \<in> names then VStr ''[redacted]'' else walkAndMask child names patterns)
       # mask_entries es names patterns"

definition containsSecretField :: "js_value \<Rightarrow> string list \<Rightarrow> bool" where
  "containsSecretField v names = (walkForFieldHit v (normalize_fields names) \<noteq> None)"

definition containsSecretValue :: "js_value \<Rightarrow> (string \<Rightarrow> bool) list \<Rightarrow> bool" where
  "containsSecretValue v patterns = (walkForValueHit v patterns \<noteq> None)"

definition applySafetyNet ::
  "js_value \<Rightarrow> safety_mode \<Rightarrow> string list option \<Rightarrow> (string \<Rightarrow> bool) list option \<Rightarrow> output_error + js_value" where
  "applySafetyNet v mode names valuePatterns =
     (let names = normalize_fields (nullish names SECRET_FIELD_NAMES);
          patterns = nullish valuePatterns []
      in case mode of
           Throw \<Rightarrow>
             (case walkForFieldHit v names of
                Some hit \<Rightarrow> Inl (SafetyNetViolation hit)
              | None \<Rightarrow>
                  if patterns \<noteq> [] then
                    (case walkForValueHit v patterns of
                       Some hit \<Rightarrow> Inl (SafetyNetViolation hit)
                     | None \<Rightarrow> Inr v)
                  else Inr v)
         | Mask \<Rightarrow> Inr (walkAndMask v names patterns))"

section \<open>Stage 2: the field allowlist, and the pipeline\<close>

type_synonym rules_for = "ability \<Rightarrow> string \<Rightarrow> string \<Rightarrow> ability_rule list"

text \<open>The loop over the rules keeps the union so far (in insertion order) and whether a rule without
  fields was seen.\<close>

definition allow_rule :: "string list option \<times> bool \<Rightarrow> ability_rule \<Rightarrow> string list option \<times> bool" where
  "allow_rule acc rule = (case acc of (allowed, sawWithoutFields) \<Rightarrow>
     if ar_inverted rule then acc
     else case ar_fields rule of
       None \<Rightarrow> (allowed, True)
     | Some [] \<Rightarrow> (allowed, True)
     | Some fs \<Rightarrow> (Some (dedupePreserveOrder (nullish allowed []) fs), sawWithoutFields))"

definition allowedFields :: "rules_for \<Rightarrow> ability \<Rightarrow> string \<Rightarrow> string list option" where
  "allowedFields rulesFor ability subject =
     (let (allowed, sawWithoutFields) = foldl allow_rule (None, False) (rulesFor ability ''read'' subject)
      in if sawWithoutFields then None else allowed)"

definition pickFields :: "(string \<times> js_value) list \<Rightarrow> string list \<Rightarrow> (string \<times> js_value) list" where
  "pickFields obj names = filter (\<lambda>(key, v). key \<in> set names) obj"

fun allow_walk :: "string list \<Rightarrow> js_value \<Rightarrow> js_value" where
  "allow_walk names (VArr items) = VArr (map (allow_walk names) items)"
| "allow_walk names (VObj entries) = VObj (pickFields entries names)"
| "allow_walk names (VDate t) = VObj []"
| "allow_walk names v = v"

definition applyFieldAllowlist :: "rules_for \<Rightarrow> ability \<Rightarrow> js_value \<Rightarrow> string \<Rightarrow> js_value" where
  "applyFieldAllowlist rulesFor ability v subject =
     (case allowedFields rulesFor ability subject of None \<Rightarrow> v | Some names \<Rightarrow> allow_walk names v)"

definition mergedSafetyFields :: "string list \<Rightarrow> string list" where
  "mergedSafetyFields extra = SECRET_FIELD_NAMES @ extra"

definition pipeline_run ::
  "rules_for \<Rightarrow> ability \<Rightarrow> safety_mode option \<Rightarrow> string list \<Rightarrow> js_value \<Rightarrow> string \<Rightarrow> output_error + js_value" where
  "pipeline_run rulesFor ability safetyNetMode extra v subject =
     (let stage2 = applyFieldAllowlist rulesFor ability v subject;
          stage3 = removeSecrets stage2 SECRET_FIELD_NAMES
      in applySafetyNet stage3 (nullish safetyNetMode Throw)
           (if extra \<noteq> [] then Some (mergedSafetyFields extra) else None) None)"

section \<open>GeoJSON columns\<close>

definition VALID_GEOMETRY_TYPES :: "string list" where
  "VALID_GEOMETRY_TYPES = [''Point'', ''LineString'', ''Polygon'', ''MultiPoint'', ''MultiLineString'',
     ''MultiPolygon'', ''GeometryCollection'', ''Feature'', ''FeatureCollection'']"

definition GEOMETRY_COLUMNS :: "string list" where
  "GEOMETRY_COLUMNS = [''location'', ''area'']"

datatype geo_error = GeoJsonMalformed

definition geometry_envelope :: "js_value \<Rightarrow> geo_error + js_value" where
  "geometry_envelope candidate =
     (case candidate of
        VObj entries \<Rightarrow> (case map_get entries ''type'' of
            Some (VStr ty) \<Rightarrow> if ty \<in> set VALID_GEOMETRY_TYPES then Inr candidate else Inl GeoJsonMalformed
          | _ \<Rightarrow> Inl GeoJsonMalformed)
      | _ \<Rightarrow> Inl GeoJsonMalformed)"

fun mapGeometryToGeoJson :: "(string \<Rightarrow> js_value option) \<Rightarrow> js_value \<Rightarrow> geo_error + js_value" where
  "mapGeometryToGeoJson parse VNull = Inr VNull"
| "mapGeometryToGeoJson parse VUndefined = Inr VNull"
| "mapGeometryToGeoJson parse (VStr s) =
     (case parse s of None \<Rightarrow> Inl GeoJsonMalformed | Some candidate \<Rightarrow> geometry_envelope candidate)"
| "mapGeometryToGeoJson parse v = geometry_envelope v"

fun mapRecordToGeoJson ::
  "(string \<Rightarrow> js_value option) \<Rightarrow> string list \<Rightarrow> (string \<times> js_value) list \<Rightarrow> geo_error + (string \<times> js_value) list" where
  "mapRecordToGeoJson parse [] out = Inr out"
| "mapRecordToGeoJson parse (col # cols) out =
     (case map_get out col of
        None \<Rightarrow> mapRecordToGeoJson parse cols out
      | Some v \<Rightarrow> (case mapGeometryToGeoJson parse v of
            Inl e \<Rightarrow> Inl e
          | Inr g \<Rightarrow> mapRecordToGeoJson parse cols (map_set col g out)))"

text \<open>The object is recursed into after its geometry columns were replaced; those columns are skipped.
  A column that is no geometry leaves the whole object as it was.\<close>

fun mapGeoJsonRecursively :: "(string \<Rightarrow> js_value option) \<Rightarrow> js_value \<Rightarrow> js_value"
and geo_items :: "(string \<Rightarrow> js_value option) \<Rightarrow> js_value list \<Rightarrow> js_value list"
and geo_entries :: "(string \<Rightarrow> js_value option) \<Rightarrow> (string \<times> js_value) list \<Rightarrow> (string \<times> js_value) list
    \<Rightarrow> (string \<times> js_value) list" where
  "mapGeoJsonRecursively parse (VArr items) = VArr (geo_items parse items)"
| "mapGeoJsonRecursively parse (VObj entries) =
     (case mapRecordToGeoJson parse GEOMETRY_COLUMNS entries of
        Inl e \<Rightarrow> VObj entries
      | Inr mapped \<Rightarrow> VObj (geo_entries parse mapped entries))"
| "mapGeoJsonRecursively parse (VDate t) = VObj []"
| "mapGeoJsonRecursively parse v = v"
| "geo_items parse [] = []"
| "geo_items parse (v # vs) = mapGeoJsonRecursively parse v # geo_items parse vs"
| "geo_entries parse mapped [] = []"
| "geo_entries parse mapped ((k, v) # es) =
     (k, if k \<in> set GEOMETRY_COLUMNS then nullish (map_get mapped k) VUndefined else mapGeoJsonRecursively parse v)
       # geo_entries parse mapped es"

section \<open>The response hook\<close>

record output_options =
  oo_ability :: "ability option"
  oo_subject :: "string option"
  oo_safetyNetMode :: "safety_mode option"

definition processOutputResponse ::
  "rules_for \<Rightarrow> (string \<Rightarrow> js_value option) \<Rightarrow> js_value \<Rightarrow> output_options \<Rightarrow> output_error + js_value" where
  "processOutputResponse rulesFor parse v options =
     (if v = VNull \<or> v = VUndefined then Inr v
      else case oo_ability options of
        Some ability \<Rightarrow>
          if truthy_opt (oo_subject options)
          then pipeline_run rulesFor ability (Some (nullish (oo_safetyNetMode options) Mask)) [] v
                 (the (oo_subject options))
          else applySafetyNet (removeSecrets (mapGeoJsonRecursively parse v) SECRET_FIELD_NAMES)
                 (nullish (oo_safetyNetMode options) Mask) None None
      | None \<Rightarrow> applySafetyNet (removeSecrets (mapGeoJsonRecursively parse v) SECRET_FIELD_NAMES)
                 (nullish (oo_safetyNetMode options) Mask) None None)"

text \<open>The interceptor passes the request's ability and the subject of the route's \<open>@Can\<close> metadata.\<close>

definition output_intercept ::
  "rules_for \<Rightarrow> (string \<Rightarrow> js_value option) \<Rightarrow> ability option \<Rightarrow> (string \<times> string) option \<Rightarrow> js_value
    \<Rightarrow> output_error + js_value" where
  "output_intercept rulesFor parse reqAbility canMeta v =
     processOutputResponse rulesFor parse v
       \<lparr>oo_ability = reqAbility, oo_subject = map_option snd canMeta, oo_safetyNetMode = None\<rparr>"

end
