(* ===== verification/Output_Secrecy.thy ===== *)
theory Output_Secrecy
  imports Output_Pipeline Api_Keys
begin

text \<open>
  What the output pipeline guarantees: no secret-named field leaves the server at any depth, what else a
  response holds is kept, and a caller whose read rules name fields sees those fields and no others.
\<close>

section \<open>Paths into a response\<close>

datatype path_step = Key string | Idx nat

fun at_path :: "js_value \<Rightarrow> path_step list \<Rightarrow> js_value option" where
  "at_path v [] = Some v"
| "at_path (VObj es) (Key k # p) = (case map_get es k of None \<Rightarrow> None | Some c \<Rightarrow> at_path c p)"
| "at_path (VArr vs) (Idx i # p) = (if i < length vs then at_path (vs ! i) p else None)"
| "at_path v p = None"

definition secret_step :: "string set \<Rightarrow> path_step \<Rightarrow> bool" where
  "secret_step B s = (case s of Key k \<Rightarrow> normalizeKey k \<in> B | Idx i \<Rightarrow> False)"

lemma secret_step_simps [simp]:
  "secret_step B (Key k) = (normalizeKey k \<in> B)" "\<not> secret_step B (Idx i)"
  by (simp_all add: secret_step_def)

section \<open>Stages 3 and 4\<close>

lemma strip_items_map: "strip_items B vs = map (strip_walk B) vs"
  by (induction vs) simp_all

lemma map_get_strip:
  "map_get (strip_entries B es) k =
     (if normalizeKey k \<in> B then None else map_option (strip_walk B) (map_get es k))"
  by (induction es) auto

lemma strip_at:
  "at_path (strip_walk B v) p =
     (if list_ex (secret_step B) p then None else map_option (strip_walk B) (at_path v p))"
proof (induction p arbitrary: v)
  case (Cons s p)
  then show ?case
    by (cases v; cases s) (auto simp: strip_items_map map_get_strip split: option.splits)
qed simp

lemma stripped_clean:
  "walkForFieldHit (strip_walk B v) B = None"
  "field_hit_items (strip_items B vs) B = None"
  "field_hit_entries (strip_entries B es) B = None"
  by (induction B v and B vs and B es rule: strip_walk_strip_items_strip_entries.induct) auto

lemma mask_stripped:
  "walkAndMask (strip_walk B v) B [] = strip_walk B v"
  "mask_items (strip_items B vs) B [] = strip_items B vs"
  "mask_entries (strip_entries B es) B [] = strip_entries B es"
  by (induction B v and B vs and B es rule: strip_walk_strip_items_strip_entries.induct)
    (auto simp: matchesAny_def)

text \<open>The safety net has nothing left to do behind the secret strip.\<close>

lemma safety_net_idle:
  "applySafetyNet (removeSecrets v SECRET_FIELD_NAMES) mode None None = Inr (removeSecrets v SECRET_FIELD_NAMES)"
  by (simp add: applySafetyNet_def removeSecrets_def normalize_fields_def nullish_def stripped_clean
      mask_stripped Let_def split: safety_mode.split)

lemma removeSecrets_at:
  "at_path (removeSecrets v names) p =
     (if list_ex (secret_step (normalize_fields names)) p then None
      else map_option (\<lambda>w. removeSecrets w names) (at_path v p))"
  by (simp add: removeSecrets_def normalize_fields_def strip_at)

definition visible_value ::
  "rules_for \<Rightarrow> (string \<Rightarrow> js_value option) \<Rightarrow> js_value \<Rightarrow> output_options \<Rightarrow> js_value" where
  "visible_value rulesFor parse v opts =
     (case oo_ability opts of
        Some ability \<Rightarrow> if truthy_opt (oo_subject opts)
          then applyFieldAllowlist rulesFor ability v (the (oo_subject opts)) else mapGeoJsonRecursively parse v
      | None \<Rightarrow> mapGeoJsonRecursively parse v)"

lemma response_eq:
  "processOutputResponse rulesFor parse v opts =
     Inr (if v = VNull \<or> v = VUndefined then v
          else removeSecrets (visible_value rulesFor parse v opts) SECRET_FIELD_NAMES)"
  by (simp add: processOutputResponse_def visible_value_def pipeline_run_def Let_def safety_net_idle nullish_def
      split: option.split)

lemma empty_value_at: "v = VNull \<or> v = VUndefined \<Longrightarrow> p \<noteq> [] \<Longrightarrow> at_path v p = None"
  by (cases p) auto

text \<open>C22: Every response leaves the pipeline as a value, in both modes of the safety net, and no path in
  it runs through a field whose name matches a secret name (up to case and underscores).\<close>

theorem responses_carry_no_secrets:
  "\<exists>out. processOutputResponse rulesFor parse v opts = Inr out \<and>
     (\<forall>p. list_ex (secret_step (normalize_fields SECRET_FIELD_NAMES)) p \<longrightarrow> at_path out p = None)"
proof -
  have "list_ex f p \<Longrightarrow> p \<noteq> []" for f :: "path_step \<Rightarrow> bool" and p by auto
  then show ?thesis by (simp add: response_eq removeSecrets_at empty_value_at)
qed

section \<open>What a response keeps\<close>

definition is_leaf :: "js_value \<Rightarrow> bool" where
  "is_leaf v = (case v of VArr vs \<Rightarrow> False | VObj es \<Rightarrow> False | VDate t \<Rightarrow> False | _ \<Rightarrow> True)"

definition geometry_step :: "path_step \<Rightarrow> bool" where
  "geometry_step s = (case s of Key k \<Rightarrow> k \<in> set GEOMETRY_COLUMNS | Idx i \<Rightarrow> False)"

lemma geometry_step_simps [simp]:
  "geometry_step (Key k) = (k \<in> set GEOMETRY_COLUMNS)" "\<not> geometry_step (Idx i)"
  by (simp_all add: geometry_step_def)

lemma geo_items_map: "geo_items parse vs = map (mapGeoJsonRecursively parse) vs"
  by (induction vs) simp_all

lemma map_get_geo:
  "k \<notin> set GEOMETRY_COLUMNS \<Longrightarrow>
     map_get (geo_entries parse m es) k = map_option (mapGeoJsonRecursively parse) (map_get es k)"
  by (induction es) auto

lemma leaf_kept: "is_leaf v \<Longrightarrow> strip_walk B v = v \<and> mapGeoJsonRecursively parse v = v"
  by (cases v) (auto simp: is_leaf_def)

lemma geo_keeps:
  assumes "at_path v p = Some leaf" "is_leaf leaf" "\<not> list_ex geometry_step p"
  shows "at_path (mapGeoJsonRecursively parse v) p = Some leaf"
  using assms
proof (induction p arbitrary: v)
  case Nil
  then show ?case by (simp add: leaf_kept)
next
  case (Cons s p)
  then show ?case
    by (cases v; cases s) (auto simp: geo_items_map map_get_geo split: option.splits sum.splits if_splits)
qed

text \<open>On a route without an ability the response keeps every string, number, boolean and null of the
  handler's value, at its place, unless the way to it runs through a secret name or a geometry column.\<close>

theorem public_response_keeps_the_rest:
  assumes "oo_ability opts = None" "at_path v p = Some leaf" "is_leaf leaf"
    and "\<not> list_ex geometry_step p" "\<not> list_ex (secret_step (normalize_fields SECRET_FIELD_NAMES)) p"
  shows "\<exists>out. processOutputResponse rulesFor parse v opts = Inr out \<and> at_path out p = Some leaf"
proof (cases "v = VNull \<or> v = VUndefined")
  case True
  with assms(2) show ?thesis by (simp add: response_eq)
next
  case False
  with assms geo_keeps[OF assms(2-4)] show ?thesis
    by (simp add: response_eq removeSecrets_at visible_value_def) (simp add: removeSecrets_def leaf_kept)
qed

section \<open>The field allowlist\<close>

lemma set_dedupe_loop: "set (dedupe_loop out vs) = set out \<union> set vs"
  by (induction out vs rule: dedupe_loop.induct) auto

lemma map_get_pick: "map_get (pickFields es names) k = (if k \<in> set names then map_get es k else None)"
  unfolding pickFields_def by (induction es) auto

lemma allow_at:
  "at_path (allow_walk names v) (map Idx js @ Key k # p) =
     (if k \<in> set names then at_path v (map Idx js @ Key k # p) else None)"
proof (induction js arbitrary: v)
  case Nil
  then show ?case by (cases v) (auto simp: map_get_pick)
next
  case (Cons i js)
  then show ?case by (cases v) auto
qed

definition granted_fields :: "ability_rule list \<Rightarrow> string set" where
  "granted_fields rs = \<Union> (set ` {fs. \<exists>r\<in>set rs. \<not> ar_inverted r \<and> ar_fields r = Some fs})"

definition restricts_fields :: "ability_rule \<Rightarrow> bool" where
  "restricts_fields r \<longleftrightarrow> ar_inverted r \<or> (\<exists>f fs. ar_fields r = Some (f # fs))"

lemma allow_fold:
  assumes "list_all restricts_fields rs"
  shows "\<exists>names. foldl allow_rule (acc, False) rs = (names, False) \<and>
    set (nullish names []) = set (nullish acc []) \<union> granted_fields rs \<and>
    (names = None \<longleftrightarrow> acc = None \<and> list_all ar_inverted rs)"
  using assms
proof (induction rs arbitrary: acc)
  case Nil
  then show ?case by (simp add: granted_fields_def)
next
  case (Cons r rs)
  show ?case
  proof (cases "ar_inverted r")
    case True
    then have "granted_fields (r # rs) = granted_fields rs" by (auto simp: granted_fields_def)
    with True Cons show ?thesis by (simp add: allow_rule_def)
  next
    case False
    with Cons.prems obtain f fs where r: "ar_fields r = Some (f # fs)" by (auto simp: restricts_fields_def)
    let ?acc = "Some (dedupePreserveOrder (nullish acc []) (f # fs))"
    have "granted_fields (r # rs) = set (f # fs) \<union> granted_fields rs" using False r by (auto simp: granted_fields_def)
    moreover have "set (nullish ?acc []) = set (nullish acc []) \<union> set (f # fs)"
      by (simp add: nullish_def dedupePreserveOrder_def set_dedupe_loop)
    ultimately show ?thesis using Cons.IH[of ?acc] Cons.prems False r
      by (auto simp: allow_rule_def)
  qed
qed

text \<open>C37: When every read rule of the caller for the subject that grants anything names fields, a record of
  the response, alone or in nested lists, holds exactly the granted fields of the handler's record, less
  those with a secret name.  The decision is by names of granting rules only: a granted field is shown whatever its value
  looks like, and also when a further rule denies it.\<close>

theorem field_rules_decide_the_view:
  assumes "list_all restricts_fields (rulesFor ab ''read'' s)" "\<not> list_all ar_inverted (rulesFor ab ''read'' s)"
    and "oo_ability opts = Some ab" "oo_subject opts = Some s" "s \<noteq> []"
  shows "\<exists>out. processOutputResponse rulesFor parse v opts = Inr out \<and>
    at_path out (map Idx js @ Key k # p) =
      (if k \<in> granted_fields (rulesFor ab ''read'' s) \<and>
          \<not> list_ex (secret_step (normalize_fields SECRET_FIELD_NAMES)) (Key k # p)
       then map_option (\<lambda>w. removeSecrets w SECRET_FIELD_NAMES) (at_path v (map Idx js @ Key k # p)) else None)"
proof -
  obtain names where names: "allowedFields rulesFor ab s = Some names"
      "set names = granted_fields (rulesFor ab ''read'' s)"
    using allow_fold[OF assms(1), of None] assms(2) by (auto simp: allowedFields_def nullish_def)
  have idx: "\<not> list_ex (secret_step B) (map Idx js)" for B by (induction js) auto
  show ?thesis
  proof (cases "v = VNull \<or> v = VUndefined")
    case True
    then show ?thesis by (auto simp: response_eq empty_value_at)
  next
    case False
    with names assms(3-5) idx show ?thesis
      by (auto simp: response_eq visible_value_def truthy_opt_def applyFieldAllowlist_def removeSecrets_at allow_at)
  qed
qed

section \<open>Where the pipeline falls short\<close>

text \<open>A field that a later rule denies is shown all the same, and so is a value in the form of a live payment key:
  no stage looks at values.\<close>

definition sample_rules_for :: rules_for where
  "sample_rules_for rules a s = filter (\<lambda>r. a \<in> set (normalizeList (ar_action r)) \<and> s \<in> set (normalizeList (ar_subject r))) rules"

definition granting_and_denying :: ability where
  "granting_and_denying =
     [\<lparr>ar_action = One ''read'', ar_subject = One ''User'', ar_conditions = None, ar_fields = Some [''id'', ''ssn''], ar_inverted = False\<rparr>,
      \<lparr>ar_action = One ''read'', ar_subject = One ''User'', ar_conditions = None, ar_fields = Some [''ssn''], ar_inverted = True\<rparr>]"

lemma denied_field_is_shown:
  "processOutputResponse sample_rules_for parse (VObj [(''id'', VNum 1), (''ssn'', VStr w)])
     \<lparr>oo_ability = Some granting_and_denying, oo_subject = Some ''User'', oo_safetyNetMode = mode\<rparr> =
   Inr (VObj [(''id'', VNum 1), (''ssn'', VStr w)])"
proof -
  have names: "allowedFields sample_rules_for granting_and_denying ''User'' = Some [''id'', ''ssn'']" by code_simp
  have "normalizeKey ''id'' \<notin> normalize_fields SECRET_FIELD_NAMES" "normalizeKey ''ssn'' \<notin> normalize_fields SECRET_FIELD_NAMES"
    by code_simp+
  then show ?thesis
    by (simp add: response_eq visible_value_def truthy_opt_def applyFieldAllowlist_def names pickFields_def removeSecrets_def normalize_fields_def)
qed

lemma credential_value_is_shown:
  assumes "normalizeKey k \<notin> normalize_fields SECRET_FIELD_NAMES" "allowedFields rulesFor ab s = Some names" "k \<in> set names"
    and "oo_ability opts = Some ab" "oo_subject opts = Some s" "s \<noteq> []"
  shows "processOutputResponse rulesFor parse (VObj [(k, VStr (''sk_live_'' @ w))]) opts = Inr (VObj [(k, VStr (''sk_live_'' @ w))])"
  using assms by (simp add: response_eq visible_value_def truthy_opt_def applyFieldAllowlist_def pickFields_def removeSecrets_def normalize_fields_def)

text \<open>A \<open>Date\<close> in a response is replaced by the empty object: its time is lost.\<close>

lemma dates_are_lost:
  assumes "\<not> list_ex geometry_step p" "\<not> list_ex (secret_step (normalize_fields SECRET_FIELD_NAMES)) p"
    and "at_path v p = Some (VDate t)" "oo_ability opts = Some ab" "allowedFields rulesFor ab s = None"
    and "oo_subject opts = Some s" "s \<noteq> []"
  shows "\<exists>out. processOutputResponse rulesFor parse v opts = Inr out \<and> at_path out p = Some (VObj [])"
proof -
  have "v \<noteq> VNull" "v \<noteq> VUndefined" using assms(3) by (cases p; auto)+
  with assms show ?thesis
    by (simp add: response_eq visible_value_def truthy_opt_def applyFieldAllowlist_def removeSecrets_at)
      (simp add: removeSecrets_def)
qed

text \<open>The allowlist treats the page object of a paginated route as the record: a caller with field rules
  gets an empty object.\<close>

lemma page_envelope_is_emptied:
  assumes "allowedFields rulesFor ab s = Some names" "''items'' \<notin> set names" "''nextCursor'' \<notin> set names"
    and "oo_ability opts = Some ab" "oo_subject opts = Some s" "s \<noteq> []"
  shows "processOutputResponse rulesFor parse (VObj [(''items'', VArr rows), (''nextCursor'', c)]) opts = Inr (VObj [])"
  using assms by (simp add: response_eq visible_value_def truthy_opt_def applyFieldAllowlist_def pickFields_def
      removeSecrets_def)

text \<open>The record that \<open>GET /api-keys/:userId\<close> returns, as a response value.\<close>

definition key_response :: "api_key \<Rightarrow> js_value" where
  "key_response r = VObj [(''id'', VStr (ak_id r)), (''lookupId'', VStr (ak_lookupId r)), (''hash'', VStr (ak_hash r)),
     (''name'', VStr (ak_name r)), (''scopes'', VArr (map VStr (ak_scopes r))), (''userId'', VStr (ak_userId r)),
     (''expiresAt'', case ak_expiresAt r of None \<Rightarrow> VUndefined | Some t \<Rightarrow> VDate t),
     (''lastUsedAt'', case ak_lastUsedAt r of None \<Rightarrow> VUndefined | Some t \<Rightarrow> VDate t)]"

lemma hash_not_secret: "normalizeKey ''hash'' \<notin> normalize_fields SECRET_FIELD_NAMES"
  by (code_simp)

text \<open>The listing of a user's API keys hands out the stored Argon2 hash of every key: no stage of the
  pipeline removes it for a caller whose rules name no fields.\<close>

theorem key_listing_exposes_hash:
  assumes "allowedFields rulesFor ab ''ApiKey'' = None" "i < length (controller_list st userId s)"
  shows "\<exists>out. output_intercept rulesFor parse (Some ab) (Some (''read'', ''ApiKey''))
      (VArr (map key_response (controller_list st userId s))) = Inr out \<and>
    at_path out [Idx i, Key ''hash''] = Some (VStr (ak_hash (controller_list st userId s ! i)))"
  using assms hash_not_secret
  by (simp add: output_intercept_def response_eq visible_value_def truthy_opt_def applyFieldAllowlist_def
      removeSecrets_at) (simp add: key_response_def removeSecrets_def)

section \<open>Witnesses\<close>

definition sample_reader :: ability where
  "sample_reader = [\<lparr>ar_action = One ''read'', ar_subject = One ''User'', ar_conditions = None,
     ar_fields = Some [''id'', ''token''], ar_inverted = False\<rparr>]"

definition sample_output_value :: js_value where
  "sample_output_value = VArr [VObj [(''id'', VNum 7), (''name'', VStr ''x''), (''token'', VStr ''t''),
     (''nested'', VObj [(''api_Key'', VStr ''k''), (''n'', VNum 1)])]]"

theorem responses_carry_no_secrets_witness:
  "\<exists>out. processOutputResponse sample_rules_for (\<lambda>_. None) sample_output_value
      \<lparr>oo_ability = None, oo_subject = None, oo_safetyNetMode = Some Throw\<rparr> = Inr out \<and>
     at_path out [Idx 0, Key ''nested'', Key ''api_Key''] = None"
proof -
  have "list_ex (secret_step (normalize_fields SECRET_FIELD_NAMES)) [Idx 0, Key ''nested'', Key ''api_Key'']"
    by code_simp
  with responses_carry_no_secrets[of sample_rules_for "\<lambda>_. None" sample_output_value
      "\<lparr>oo_ability = None, oo_subject = None, oo_safetyNetMode = Some Throw\<rparr>"] show ?thesis by blast
qed

theorem public_response_keeps_the_rest_witness:
  "\<exists>out. processOutputResponse sample_rules_for (\<lambda>_. None) sample_output_value
      \<lparr>oo_ability = None, oo_subject = None, oo_safetyNetMode = None\<rparr> = Inr out \<and>
     at_path out [Idx 0, Key ''nested'', Key ''n''] = Some (VNum 1)"
  by (rule public_response_keeps_the_rest) (simp, code_simp+)

theorem field_rules_decide_the_view_witness:
  "\<exists>out. processOutputResponse sample_rules_for (\<lambda>_. None) sample_output_value
      \<lparr>oo_ability = Some sample_reader, oo_subject = Some ''User'', oo_safetyNetMode = None\<rparr> = Inr out \<and>
     at_path out (map Idx [0] @ [Key ''name'']) = None"
proof -
  have "list_all restricts_fields (sample_rules_for sample_reader ''read'' ''User'')"
    "\<not> list_all ar_inverted (sample_rules_for sample_reader ''read'' ''User'')"
    "''name'' \<notin> granted_fields (sample_rules_for sample_reader ''read'' ''User'')"
    by (simp_all add: sample_rules_for_def sample_reader_def restricts_fields_def granted_fields_def)
  with field_rules_decide_the_view[of sample_rules_for sample_reader "''User''"
      "\<lparr>oo_ability = Some sample_reader, oo_subject = Some ''User'', oo_safetyNetMode = None\<rparr>" "\<lambda>_. None"
      sample_output_value "[0]" "''name''" "[]"] show ?thesis by simp
qed

definition sample_listed_key :: api_key where
  "sample_listed_key = \<lparr>ak_id = ''k'', ak_lookupId = ''l'', ak_hash = ''h'', ak_name = ''n'', ak_scopes = [],
     ak_userId = ''u'', ak_expiresAt = Some 5, ak_lastUsedAt = None\<rparr>"

theorem key_listing_exposes_hash_witness:
  "\<exists>out. output_intercept sample_rules_for (\<lambda>_. None) (Some []) (Some (''read'', ''ApiKey''))
      (VArr (map key_response (controller_list memory_key_storage ''u'' [(''k'', sample_listed_key)]))) = Inr out \<and>
    at_path out [Idx 0, Key ''hash''] = Some (VStr ''h'')"
proof -
  have "allowedFields sample_rules_for [] ''ApiKey'' = None"
    "controller_list memory_key_storage ''u'' [(''k'', sample_listed_key)] = [sample_listed_key]" by code_simp+
  with key_listing_exposes_hash[of sample_rules_for "[]" 0 memory_key_storage "''u''" "[(''k'', sample_listed_key)]" "\<lambda>_. None"]
  show ?thesis by (simp add: sample_listed_key_def)
qed

end
