(* ===== verification/Pagination.thy ===== *)
theory Pagination
  imports Json_Codec Uuid
begin

text \<open>
  Cursor pagination (\<open>src/core/pagination/cursor.ts\<close>): opaque cursors, the page builder, and the
  interface between a list endpoint and its cursors (locale \<open>keyset\<close>): a client that follows
  \<open>nextCursor\<close> sees every row once, in order.
\<close>

section \<open>Cursors\<close>

datatype sort_value = SortStr string | SortNum int

record cursor_record =
  cr_id :: string
  cr_sortValue :: sort_value

datatype cursor_error = CursorMalformed string | LimitNotPositive

fun sort_json :: "sort_value \<Rightarrow> json" where
  "sort_json (SortStr s) = JStr s"
| "sort_json (SortNum n) = JNum n"

definition encodeCursor :: "cursor_record \<Rightarrow> string" where
  "encodeCursor r =
     (let payload = stringify (JObj [(''s'', sort_json (cr_sortValue r)), (''i'', JStr (cr_id r))])
      in base64url_encode (utf8_encode payload))"

text \<open>Destructuring an array or an empty object leaves \<open>s\<close> and \<open>i\<close> undefined.\<close>

definition cursor_fields :: "json \<Rightarrow> (json option \<times> json option) option" where
  "cursor_fields parsed = (case parsed of
     JObj es \<Rightarrow> Some (map_get es ''s'', map_get es ''i'')
   | JArr vs \<Rightarrow> Some (None, None)
   | _ \<Rightarrow> None)"

definition decodeCursor :: "string \<Rightarrow> cursor_error + cursor_record" where
  "decodeCursor cursor =
     (if \<not> truthy cursor then Inl (CursorMalformed ''empty'')
      else case Option.bind (utf8_decode (base64url_decode cursor)) json_parse of
        None \<Rightarrow> Inl (CursorMalformed ''parse failed'')
      | Some parsed \<Rightarrow>
          (case cursor_fields parsed of
             None \<Rightarrow> Inl (CursorMalformed ''payload is not an object'')
           | Some (Some (JStr s), Some (JStr i)) \<Rightarrow> Inr \<lparr>cr_id = i, cr_sortValue = SortStr s\<rparr>
           | Some (Some (JNum n), Some (JStr i)) \<Rightarrow> Inr \<lparr>cr_id = i, cr_sortValue = SortNum n\<rparr>
           | _ \<Rightarrow> Inl (CursorMalformed ''missing sortValue or id'')))"

definition uuid_shaped :: "string \<Rightarrow> bool" where
  "uuid_shaped v \<longleftrightarrow> length v = 36 \<and> hex_run 8 (take 8 v) \<and> v ! 8 = CHR ''-'' \<and> hex_run 4 (take 4 (drop 9 v)) \<and>
     v ! 13 = CHR ''-'' \<and> hex_run 4 (take 4 (drop 14 v)) \<and> v ! 18 = CHR ''-'' \<and> hex_run 4 (take 4 (drop 19 v)) \<and>
     v ! 23 = CHR ''-'' \<and> hex_run 12 (drop 24 v)"

definition assertCursorIdIsUuid :: "string \<Rightarrow> cursor_error + unit" where
  "assertCursorIdIsUuid i = (if uuid_shaped i then Inr () else Inl (CursorMalformed ''cursor id must be a UUID''))"

record 'r cursor_page =
  pg_items :: "'r list"
  pg_nextCursor :: "string option"

text \<open>\<open>key\<close> reads the cursor fields of a row.\<close>

definition buildCursorPage :: "('r \<Rightarrow> cursor_record) \<Rightarrow> 'r list \<Rightarrow> int \<Rightarrow> cursor_error + 'r cursor_page" where
  "buildCursorPage key rows limit =
     (if limit < 1 then Inl LimitNotPositive
      else if length rows = 0 then Inr \<lparr>pg_items = [], pg_nextCursor = None\<rparr>
      else
        let hasMore = int (length rows) > limit;
            items = (if hasMore then take (nat limit) rows else rows)
        in if \<not> hasMore then Inr \<lparr>pg_items = items, pg_nextCursor = None\<rparr>
           else Inr \<lparr>pg_items = items, pg_nextCursor = Some (encodeCursor (key (last items)))\<rparr>)"

lemma base64url_encode_ne: "bs \<noteq> [] \<Longrightarrow> base64url_encode bs \<noteq> []"
  by (cases bs rule: sextets.cases) (simp_all add: base64url_encode_def)

lemma utf8_encode_ne: "s \<noteq> [] \<Longrightarrow> utf8_encode s \<noteq> []"
  by (cases s) (simp_all add: utf8_encode_def utf8_char_def Let_def)

lemma cursor_round_trip: "decodeCursor (encodeCursor r) = Inr r"
proof -
  let ?v = "JObj [(''s'', sort_json (cr_sortValue r)), (''i'', JStr (cr_id r))]"
  have ok: "json_ok ?v" by (cases "cr_sortValue r") simp_all
  have "stringify ?v \<noteq> []" using stringify_hd by blast
  then have "encodeCursor r \<noteq> []" by (simp only: encodeCursor_def Let_def base64url_encode_ne utf8_encode_ne not_False_eq_True)
  moreover have "base64url_decode (encodeCursor r) = utf8_encode (stringify ?v)"
    using base64url_round_trip utf8_bytes unfolding encodeCursor_def Let_def by blast
  ultimately show ?thesis
    using parse_stringify[OF ok]
    by (cases "cr_sortValue r") (simp_all add: decodeCursor_def utf8_round_trip cursor_fields_def del: stringify.simps)
qed

section \<open>Keyset pages\<close>

text \<open>A list endpoint sorts the matching rows by \<open>le\<close>, keeps those \<open>beyond\<close> the cursor of the request and
  hands out \<open>limit\<close> of them with the cursor of the last one when there are more.\<close>

locale keyset =
  fixes le :: "'r \<Rightarrow> 'r \<Rightarrow> bool"
    and cursor :: "'r \<Rightarrow> 'c"
    and beyond :: "'c \<Rightarrow> 'r \<Rightarrow> bool"
  assumes le_total: "le a b \<or> le b a"
    and le_trans: "le a b \<Longrightarrow> le b c \<Longrightarrow> le a c"
    and beyond_iff: "beyond (cursor a) b \<longleftrightarrow> \<not> le b a"
begin

definition after :: "'c option \<Rightarrow> 'r \<Rightarrow> bool" where
  "after c r = (case c of None \<Rightarrow> True | Some k \<Rightarrow> beyond k r)"

definition page :: "nat \<Rightarrow> 'c option \<Rightarrow> 'r list \<Rightarrow> 'r list \<times> 'c option" where
  "page limit c rows =
     (let found = take (Suc limit) (sort_by le (filter (after c) rows)); items = take limit found
      in (items, if length found > limit then Some (cursor (last items)) else None))"

fun walk :: "nat \<Rightarrow> nat \<Rightarrow> 'c option \<Rightarrow> 'r list \<Rightarrow> 'r list" where
  "walk 0 limit c rows = []"
| "walk (Suc n) limit c rows =
     (case page limit c rows of (items, next) \<Rightarrow>
        items @ (case next of None \<Rightarrow> [] | Some k \<Rightarrow> walk n limit (Some k) rows))"

abbreviation strict :: "'r \<Rightarrow> 'r \<Rightarrow> bool" where
  "strict a b \<equiv> \<not> le b a"

lemma strictly_sorted_by:
  assumes "distinct rows" "\<And>a b. a \<in> set rows \<Longrightarrow> b \<in> set rows \<Longrightarrow> le a b \<Longrightarrow> le b a \<Longrightarrow> a = b"
  shows "sorted_wrt strict (sort_by le rows)"
proof -
  have "sorted_wrt strict xs" if "sorted_wrt le xs" "distinct xs" "set xs \<subseteq> set rows" for xs
    using that
  proof (induction xs)
    case (Cons x xs)
    then have "\<not> le y x" if "y \<in> set xs" for y using assms(2)[of x y] that by auto
    with Cons show ?case by simp
  qed simp
  with sorted_sort_by[of le rows, OF le_total le_trans] assms(1) show ?thesis by simp
qed

lemma filter_beyond:
  "sorted_wrt strict (xs @ a # ys) \<Longrightarrow> filter (beyond (cursor a)) (xs @ a # ys) = ys"
  using le_total by (auto simp: beyond_iff sorted_wrt_append filter_id_conv filter_empty_conv)

lemma found_suffix:
  assumes "sort_by le rows = pre @ zs" "sorted_wrt strict (pre @ zs)"
    and "pre = [] \<and> c = None \<or> pre \<noteq> [] \<and> c = Some (cursor (last pre))"
  shows "sort_by le (filter (after c) rows) = zs"
proof (cases "pre = []")
  case True
  with assms show ?thesis by (simp add: after_def)
next
  case False
  then obtain xs a where pre: "pre = xs @ [a]" by (metis append_butlast_last_id)
  with False assms(3) have c: "c = Some (cursor a)" by simp
  have "filter (beyond (cursor a)) (sort_by le rows) = zs"
    using filter_beyond[of xs a zs] assms(1,2) pre by simp
  moreover have "after c = beyond (cursor a)" by (simp add: fun_eq_iff after_def c)
  ultimately show ?thesis using filter_sort_by[of le "beyond (cursor a)" rows, OF le_total le_trans] by simp
qed

lemma walk_suffix:
  assumes "sort_by le rows = pre @ zs" "sorted_wrt strict (pre @ zs)" "0 < limit" "length zs < n"
    and "pre = [] \<and> c = None \<or> pre \<noteq> [] \<and> c = Some (cursor (last pre))"
  shows "walk n limit c rows = zs"
  using assms
proof (induction n arbitrary: pre zs c)
  case (Suc n)
  have found: "sort_by le (filter (after c) rows) = zs" by (rule found_suffix[OF Suc.prems(1,2,5)])
  show ?case
  proof (cases "limit < length zs")
    case False
    then show ?thesis by (simp add: page_def found)
  next
    case True
    let ?items = "take limit zs"
    have ne: "?items \<noteq> []" using True Suc.prems(3) by auto
    have "walk n limit (Some (cursor (last ?items))) rows = drop limit zs"
      by (rule Suc.IH[of "pre @ ?items"]) (use Suc.prems ne True in auto)
    with True show ?thesis by (simp add: page_def found Let_def min_def)
  qed
qed simp

lemma walk_complete:
  assumes "distinct rows" "\<And>a b. a \<in> set rows \<Longrightarrow> b \<in> set rows \<Longrightarrow> le a b \<Longrightarrow> le b a \<Longrightarrow> a = b"
    and "0 < limit" "length rows < n"
  shows "walk n limit None rows = sort_by le rows"
  by (rule walk_suffix[where pre = "[]"]) (use assms strictly_sorted_by[OF assms(1,2)] in simp_all)

end

end
