(* ===== verification/Email_Outbox.thy ===== *)
theory Email_Outbox
  imports Pagination
begin

text \<open>
  The e-mail outbox: the planners (\<open>src/core/email/email-outbox-planner.ts\<close>,
  \<open>email-outbox-action-planner.ts\<close>, \<open>email-outbox-health.ts\<close>), the recorder and the worker
  (\<open>email-outbox.ts\<close>), the Prisma storage (\<open>email-outbox.prisma.ts\<close>), the dispatch adapter
  (\<open>email-outbox.module.ts\<close>) and the admin routes (\<open>email-outbox-admin.controller.ts\<close>).

  The table is the list of its rows.  The kind of a record is the constructor of its payload.  The mail
  transports and the template renderer are arguments; Prisma stamps \<open>updatedAt\<close> with the time of the
  statement, the argument \<open>dbnow\<close>.  The host's date parser is an argument of the list filter.
\<close>

section \<open>Records\<close>

datatype email_status = EPending | ESent | EDeadLetter | ECancelled

record send_options =
  so_to :: string
  so_from :: "string option"
  so_subject :: string
  so_html :: "string option"
  so_text :: "string option"

record template_options =
  tp_to :: string
  tp_template :: string
  tp_locale :: "string option"
  tp_userLocale :: "string option"
  tp_vars :: "json option"
  tp_brevoTemplateId :: "int option"
  tp_from :: "string option"

datatype email_payload = Send send_options | SendTemplate template_options

record email_record =
  er_id :: string
  er_payload :: email_payload
  er_idempotencyKey :: "string option"
  er_status :: email_status
  er_attemptCount :: int
  er_nextAttemptAt :: "millis option"
  er_claimedAt :: "millis option"
  er_lastError :: "string option"
  er_succeededAt :: "millis option"
  er_failedAt :: "millis option"
  er_createdAt :: millis
  er_updatedAt :: millis

type_synonym email_table = "email_record list"

definition outboxPayloadSummary :: "email_payload \<Rightarrow> string option \<times> string option" where
  "outboxPayloadSummary payload = (case payload of
     Send o' \<Rightarrow> (Some (so_to o'), None)
   | SendTemplate t \<Rightarrow> (Some (tp_to t), Some (tp_template t)))"

section \<open>Planners\<close>

datatype email_error_kind = Transient | Permanent

record email_retry_config =
  rt_initialDelayMs :: int
  rt_factor :: int
  rt_maxDelayMs :: int
  rt_maxAttempts :: int

definition DEFAULT_EMAIL_OUTBOX_RETRY :: email_retry_config where
  "DEFAULT_EMAIL_OUTBOX_RETRY = \<lparr>rt_initialDelayMs = 60000, rt_factor = 5, rt_maxDelayMs = 2 * 60 * 60 * 1000,
     rt_maxAttempts = 5\<rparr>"

definition STALE_CLAIM_THRESHOLD_MS :: millis where "STALE_CLAIM_THRESHOLD_MS = 30000"

text \<open>\<open>Inr None\<close> is \<open>{ terminal: true }\<close>, \<open>Inr (Some t)\<close> the time of the next attempt.\<close>

datatype email_fault = BadAttemptCount | StorageFault string | UniqueViolation | NotFound | ForbiddenAction string
  | BadFilter string

definition planEmailRetry ::
  "int \<Rightarrow> email_error_kind \<Rightarrow> millis \<Rightarrow> email_retry_config \<Rightarrow> email_fault + millis option" where
  "planEmailRetry attemptCount errorKind now config =
     (if attemptCount < 1 then Inl BadAttemptCount
      else if errorKind = Permanent then Inr None
      else if attemptCount \<ge> rt_maxAttempts config then Inr None
      else
        let raw = rt_initialDelayMs config * rt_factor config ^ nat (attemptCount - 1);
            delayMs = min raw (rt_maxDelayMs config)
        in Inr (Some (now + delayMs)))"

definition isStaleClaim :: "millis option \<Rightarrow> millis \<Rightarrow> bool" where
  "isStaleClaim claimedAt now = (case claimedAt of None \<Rightarrow> False | Some t \<Rightarrow> now - t > STALE_CLAIM_THRESHOLD_MS)"

definition shouldDispatchNow :: "email_status \<Rightarrow> millis option \<Rightarrow> millis option \<Rightarrow> millis \<Rightarrow> bool" where
  "shouldDispatchNow status nextAttemptAt claimedAt now =
     (if status \<noteq> EPending then False
      else if claimedAt \<noteq> None \<and> \<not> isStaleClaim claimedAt now then False
      else if (case nextAttemptAt of None \<Rightarrow> False | Some t \<Rightarrow> t > now) then False
      else True)"

section \<open>Storage\<close>

definition em_append :: "email_record \<Rightarrow> email_table \<Rightarrow> email_fault + email_table" where
  "em_append r t =
     (if list_ex (\<lambda>x. er_id x = er_id r \<or> (er_idempotencyKey r \<noteq> None \<and> er_idempotencyKey x = er_idempotencyKey r)) t
      then Inl UniqueViolation else Inr (t @ [r]))"

definition findByIdempotencyKey :: "string \<Rightarrow> email_table \<Rightarrow> email_record option" where
  "findByIdempotencyKey key t = find_first (\<lambda>r. er_idempotencyKey r = Some key) t"

definition em_findById :: "string \<Rightarrow> email_table \<Rightarrow> email_record option" where
  "em_findById rid t = find_first (\<lambda>r. er_id r = rid) t"

definition oldest_first :: "email_record \<Rightarrow> email_record \<Rightarrow> bool" where
  "oldest_first a b \<longleftrightarrow> er_createdAt a < er_createdAt b \<or> (er_createdAt a = er_createdAt b \<and> js_le (er_id a) (er_id b))"

definition unclaimed :: "millis \<Rightarrow> email_record \<Rightarrow> bool" where
  "unclaimed now r = (case er_claimedAt r of None \<Rightarrow> True | Some c \<Rightarrow> c < now - STALE_CLAIM_THRESHOLD_MS)"

definition dispatchable :: "millis \<Rightarrow> email_record \<Rightarrow> bool" where
  "dispatchable now r \<longleftrightarrow> er_status r = EPending \<and>
     (case er_nextAttemptAt r of None \<Rightarrow> True | Some n \<Rightarrow> n \<le> now) \<and> unclaimed now r"

definition listDispatchable :: "millis \<Rightarrow> nat \<Rightarrow> email_table \<Rightarrow> email_record list" where
  "listDispatchable now limit t = take limit (sort_by oldest_first (filter (dispatchable now) t))"

text \<open>\<open>updateMany\<close>: the count of matching rows decides the boolean result.\<close>

definition update_many ::
  "(email_record \<Rightarrow> bool) \<Rightarrow> (email_record \<Rightarrow> email_record) \<Rightarrow> email_table \<Rightarrow> bool \<times> email_table" where
  "update_many P f t = (list_ex P t, update_where P f t)"

definition em_claim :: "string \<Rightarrow> millis \<Rightarrow> millis \<Rightarrow> email_table \<Rightarrow> bool \<times> email_table" where
  "em_claim rid claimedAt dbnow =
     update_many (\<lambda>r. er_id r = rid \<and> er_status r = EPending \<and> unclaimed claimedAt r)
       (\<lambda>r. r\<lparr>er_claimedAt := Some claimedAt, er_updatedAt := dbnow\<rparr>)"

definition markSent :: "string \<Rightarrow> millis \<Rightarrow> millis \<Rightarrow> email_table \<Rightarrow> bool \<times> email_table" where
  "markSent rid at dbnow = update_many (\<lambda>r. er_id r = rid)
     (\<lambda>r. r\<lparr>er_status := ESent, er_succeededAt := Some at, er_claimedAt := None, er_updatedAt := dbnow\<rparr>)"

definition markDeadLetter :: "string \<Rightarrow> millis \<Rightarrow> string \<Rightarrow> millis \<Rightarrow> email_table \<Rightarrow> bool \<times> email_table" where
  "markDeadLetter rid at msg dbnow = update_many (\<lambda>r. er_id r = rid)
     (\<lambda>r. r\<lparr>er_status := EDeadLetter, er_failedAt := Some at, er_lastError := Some msg, er_claimedAt := None,
        er_updatedAt := dbnow\<rparr>)"

definition recordTransientFailure ::
  "string \<Rightarrow> int \<Rightarrow> millis \<Rightarrow> string \<Rightarrow> millis \<Rightarrow> email_table \<Rightarrow> bool \<times> email_table" where
  "recordTransientFailure rid attemptCount nextAttemptAt msg dbnow = update_many (\<lambda>r. er_id r = rid)
     (\<lambda>r. r\<lparr>er_attemptCount := attemptCount, er_nextAttemptAt := Some nextAttemptAt, er_lastError := Some msg,
        er_claimedAt := None, er_updatedAt := dbnow\<rparr>)"

definition markRetry :: "string \<Rightarrow> millis \<Rightarrow> email_table \<Rightarrow> bool \<times> email_table" where
  "markRetry rid at = update_many (\<lambda>r. er_id r = rid \<and> er_status r \<in> {EPending, EDeadLetter})
     (\<lambda>r. r\<lparr>er_status := EPending, er_attemptCount := 0, er_nextAttemptAt := None, er_claimedAt := None,
        er_updatedAt := at\<rparr>)"

definition markCancelled :: "string \<Rightarrow> millis \<Rightarrow> email_table \<Rightarrow> bool \<times> email_table" where
  "markCancelled rid at = update_many (\<lambda>r. er_id r = rid \<and> er_status r \<in> {EPending, EDeadLetter})
     (\<lambda>r. r\<lparr>er_status := ECancelled, er_claimedAt := None, er_updatedAt := at\<rparr>)"

definition countPending :: "email_table \<Rightarrow> nat" where
  "countPending t = length (filter (\<lambda>r. er_status r = EPending) t)"

definition oldestPendingAge :: "millis \<Rightarrow> email_table \<Rightarrow> millis" where
  "oldestPendingAge now t =
     (case sort_by (\<lambda>a b. er_createdAt a \<le> er_createdAt b) (filter (\<lambda>r. er_status r = EPending) t) of
        [] \<Rightarrow> 0
      | oldest # _ \<Rightarrow> max 0 (now - er_createdAt oldest))"

section \<open>Health\<close>

definition EMAIL_OUTBOX_LAG_THRESHOLD_MS :: millis where "EMAIL_OUTBOX_LAG_THRESHOLD_MS = 30000"

record outbox_health =
  oh_ok :: bool
  oh_pendingCount :: nat
  oh_lagMs :: millis
  oh_thresholdMs :: millis

definition classifyEmailOutboxLag :: "nat \<Rightarrow> millis \<Rightarrow> millis option \<Rightarrow> outbox_health" where
  "classifyEmailOutboxLag pendingCount oldestAgeMs threshold =
     (let thresholdMs = nullish threshold EMAIL_OUTBOX_LAG_THRESHOLD_MS
      in if pendingCount = 0 then \<lparr>oh_ok = True, oh_pendingCount = 0, oh_lagMs = 0, oh_thresholdMs = thresholdMs\<rparr>
         else \<lparr>oh_ok = \<not> oldestAgeMs > thresholdMs, oh_pendingCount = pendingCount, oh_lagMs = oldestAgeMs,
                oh_thresholdMs = thresholdMs\<rparr>)"

section \<open>Recorder\<close>

record enqueue_input =
  eq_payload :: email_payload
  eq_idempotencyKey :: "string option"

definition fresh_record :: "string \<Rightarrow> millis \<Rightarrow> enqueue_input \<Rightarrow> email_record" where
  "fresh_record uuid now inp = \<lparr>er_id = uuid, er_payload = eq_payload inp, er_idempotencyKey = eq_idempotencyKey inp,
     er_status = EPending, er_attemptCount = 0, er_nextAttemptAt = None, er_claimedAt = None, er_lastError = None,
     er_succeededAt = None, er_failedAt = None, er_createdAt = now, er_updatedAt = now\<rparr>"

definition email_enqueue ::
  "string \<Rightarrow> millis \<Rightarrow> enqueue_input \<Rightarrow> email_table \<Rightarrow> (email_fault + email_record) \<times> email_table" where
  "email_enqueue uuid now inp t =
     (case (if truthy_opt (eq_idempotencyKey inp) then findByIdempotencyKey (the (eq_idempotencyKey inp)) t else None) of
        Some existing \<Rightarrow> (Inr existing, t)
      | None \<Rightarrow> (case em_append (fresh_record uuid now inp) t of
            Inl e \<Rightarrow> (Inl e, t)
          | Inr t' \<Rightarrow> (Inr (fresh_record uuid now inp), t')))"

section \<open>Worker\<close>

text \<open>What a thrown value says of itself: whether it is tagged permanent, and its message.\<close>

record thrown =
  th_kind :: "string option"
  th_message :: string

definition classifyErrorKind :: "thrown \<Rightarrow> email_error_kind" where
  "classifyErrorKind raw = (if th_kind raw = Some ''permanent'' then Permanent else Transient)"

text \<open>What the environment does to one candidate: the times the clock shows, whether the claim, the
  dispatch, the success mark and the failure mark throw.\<close>

record email_attempt =
  ea_claimedAt :: millis
  ea_claim_throws :: bool
  ea_dispatch :: "thrown option"
  ea_markSent_throws :: "thrown option"
  ea_at :: millis
  ea_mark_throws :: bool

datatype candidate_result = Skipped | WasSent | WasRetried | WasDeadLettered

definition fail_candidate ::
  "email_retry_config \<Rightarrow> email_record \<Rightarrow> email_attempt \<Rightarrow> thrown \<Rightarrow> email_table
    \<Rightarrow> (email_fault + candidate_result) \<times> email_table" where
  "fail_candidate retry candidate a raw t =
     (let errorKind = classifyErrorKind raw;
          attemptCount = er_attemptCount candidate + 1
      in case planEmailRetry attemptCount errorKind (ea_at a) retry of
           Inl e \<Rightarrow> (Inl e, t)
         | Inr plan \<Rightarrow>
             if ea_mark_throws a then (Inl (StorageFault ''update''), t)
             else (case plan of
               None \<Rightarrow> (Inr WasDeadLettered, snd (markDeadLetter (er_id candidate) (ea_at a) (th_message raw) (ea_at a) t))
             | Some next \<Rightarrow> (Inr WasRetried,
                 snd (recordTransientFailure (er_id candidate) attemptCount next (th_message raw) (ea_at a) t))))"

definition finish_candidate ::
  "email_retry_config \<Rightarrow> email_record \<Rightarrow> email_attempt \<Rightarrow> email_table
    \<Rightarrow> (email_fault + candidate_result) \<times> email_table" where
  "finish_candidate retry candidate a t =
     (case ea_dispatch a of
        Some raw \<Rightarrow> fail_candidate retry candidate a raw t
      | None \<Rightarrow> (case ea_markSent_throws a of
            Some raw \<Rightarrow> fail_candidate retry candidate a raw t
          | None \<Rightarrow> (Inr WasSent, snd (markSent (er_id candidate) (ea_at a) (ea_at a) t))))"

definition process_candidate ::
  "email_retry_config \<Rightarrow> email_record \<Rightarrow> email_attempt \<Rightarrow> email_table
    \<Rightarrow> (email_fault + candidate_result) \<times> email_table" where
  "process_candidate retry candidate a t =
     (if ea_claim_throws a then (Inr Skipped, t)
      else case em_claim (er_id candidate) (ea_claimedAt a) (ea_claimedAt a) t of
        (False, t') \<Rightarrow> (Inr Skipped, t')
      | (True, t') \<Rightarrow> finish_candidate retry candidate a t')"

fun process_candidates ::
  "email_retry_config \<Rightarrow> (email_record \<Rightarrow> email_attempt) \<Rightarrow> email_record list \<Rightarrow> email_table
    \<Rightarrow> (email_fault + candidate_result list) \<times> email_table" where
  "process_candidates retry env [] t = (Inr [], t)"
| "process_candidates retry env (c # cs) t =
     (case process_candidate retry c (env c) t of
        (Inl e, t') \<Rightarrow> (Inl e, t')
      | (Inr r, t') \<Rightarrow> (case process_candidates retry env cs t' of
            (Inl e, t'') \<Rightarrow> (Inl e, t'')
          | (Inr rs, t'') \<Rightarrow> (Inr (r # rs), t'')))"

record email_run_result =
  rr_sent :: nat
  rr_retry :: nat
  rr_deadLetter :: nat

definition tally :: "candidate_result list \<Rightarrow> email_run_result" where
  "tally rs = \<lparr>rr_sent = count_list rs WasSent, rr_retry = count_list rs WasRetried,
     rr_deadLetter = count_list rs WasDeadLettered\<rparr>"

definition email_batchSize :: nat where "email_batchSize = 25"

definition email_runOnce ::
  "email_retry_config \<Rightarrow> nat \<Rightarrow> millis \<Rightarrow> bool \<Rightarrow> (email_record \<Rightarrow> email_attempt) \<Rightarrow> email_table
    \<Rightarrow> (email_fault + email_run_result) \<times> email_table" where
  "email_runOnce retry batchSize now list_throws env t =
     (if list_throws then (Inl (StorageFault ''listDispatchable''), t)
      else case process_candidates retry env (listDispatchable now batchSize t) t of
        (Inl e, t') \<Rightarrow> (Inl e, t')
      | (Inr rs, t') \<Rightarrow> (Inr (tally rs), t'))"

section \<open>Dispatch adapter\<close>

record email_message =
  ms_to :: string
  ms_from :: string
  ms_subject :: string
  ms_html :: "string option"
  ms_text :: "string option"

record send_result =
  sr_messageId :: string
  sr_driver :: string

record rendered_template =
  rd_subject :: string
  rd_html :: string
  rd_text :: string

record mail_transport =
  mt_send :: "email_message \<Rightarrow> thrown + send_result"
  mt_sendTemplate :: "email_message \<Rightarrow> int \<Rightarrow> json \<Rightarrow> thrown + send_result"

type_synonym template_renderer = "string \<Rightarrow> string \<Rightarrow> json \<Rightarrow> thrown + rendered_template"

definition adapter_dispatch ::
  "mail_transport \<Rightarrow> mail_transport option \<Rightarrow> template_renderer \<Rightarrow> string \<Rightarrow> email_payload \<Rightarrow> thrown + send_result" where
  "adapter_dispatch primary transactional render defaultFrom payload =
     (case payload of
        Send opts \<Rightarrow> mt_send primary \<lparr>ms_to = so_to opts, ms_from = nullish (so_from opts) defaultFrom,
          ms_subject = so_subject opts, ms_html = so_html opts, ms_text = so_text opts\<rparr>
      | SendTemplate opts \<Rightarrow>
          let vars = nullish (tp_vars opts) (JObj [])
          in case tp_brevoTemplateId opts of
               Some templateId \<Rightarrow>
                 (case transactional of
                    None \<Rightarrow> Inl \<lparr>th_kind = None,
                      th_message = ''email-outbox: brevoTemplateId set but no transactional driver wired''\<rparr>
                  | Some driver \<Rightarrow> mt_sendTemplate driver \<lparr>ms_to = tp_to opts, ms_from = nullish (tp_from opts) defaultFrom,
                      ms_subject = [], ms_html = None, ms_text = None\<rparr> templateId vars)
             | None \<Rightarrow>
                 let locale = nullish (tp_locale opts) ''en''
                 in case render (tp_template opts) locale vars of
                      Inl e \<Rightarrow> Inl e
                    | Inr r \<Rightarrow> mt_send primary \<lparr>ms_to = tp_to opts, ms_from = nullish (tp_from opts) defaultFrom,
                        ms_subject = rd_subject r, ms_html = Some (rd_html r), ms_text = Some (rd_text r)\<rparr>)"

section \<open>Admin actions\<close>

datatype admin_action = ARetry | ACancel

definition planOutboxAdminAction :: "admin_action \<Rightarrow> email_status \<Rightarrow> email_fault + unit" where
  "planOutboxAdminAction action status =
     (case action of
        ARetry \<Rightarrow>
          if status = ESent then Inl (ForbiddenAction ''record is already sent'')
          else if status = ECancelled then Inl (ForbiddenAction ''record is cancelled'')
          else Inr ()
      | ACancel \<Rightarrow>
          if status = ESent then Inl (ForbiddenAction ''record is already sent'')
          else if status = ECancelled then Inl (ForbiddenAction ''record is already cancelled'')
          else Inr ())"

definition admin_apply :: "admin_action \<Rightarrow> string \<Rightarrow> millis \<Rightarrow> email_table \<Rightarrow> (email_fault + unit) \<times> email_table" where
  "admin_apply action rid now t =
     (case em_findById rid t of
        None \<Rightarrow> (Inl NotFound, t)
      | Some r \<Rightarrow> (case planOutboxAdminAction action (er_status r) of
            Inl e \<Rightarrow> (Inl e, t)
          | Inr _ \<Rightarrow> (Inr (), snd (case action of ARetry \<Rightarrow> markRetry rid now t | ACancel \<Rightarrow> markCancelled rid now t))))"

section \<open>Listing\<close>

datatype email_sort = ByTime | ByAttempts

record list_filter =
  lf_status :: "email_status option"
  lf_recipient :: "string option"
  lf_template :: "string option"
  lf_dateFrom :: "millis option"
  lf_dateTo :: "millis option"
  lf_sortBy :: "email_sort option"
  lf_cursor :: "string option"
  lf_limit :: int

record list_query =
  lq_status :: "string option"
  lq_recipient :: "string option"
  lq_template :: "string option"
  lq_dateFrom :: "string option"
  lq_dateTo :: "string option"
  lq_sortBy :: "string option"
  lq_cursor :: "string option"
  lq_limit :: "string option"

definition VALID_STATUSES :: "(string \<times> email_status) list" where
  "VALID_STATUSES = [(''pending'', EPending), (''sent'', ESent), (''dead-letter'', EDeadLetter), (''cancelled'', ECancelled)]"

text \<open>\<open>s?.trim() || undefined\<close>.\<close>

definition trimmed :: "string option \<Rightarrow> string option" where
  "trimmed v = (case v of None \<Rightarrow> None | Some s \<Rightarrow> if trim s = [] then None else Some (trim s))"

definition parse_status :: "string option \<Rightarrow> email_fault + email_status option" where
  "parse_status v = (case v of
     None \<Rightarrow> Inr None
   | Some s \<Rightarrow> if s = [] then Inr None
       else case map_get VALID_STATUSES s of None \<Rightarrow> Inl (BadFilter ''invalid status'') | Some st \<Rightarrow> Inr (Some st))"

definition parse_date :: "(string \<Rightarrow> millis option) \<Rightarrow> string \<Rightarrow> string option \<Rightarrow> email_fault + millis option" where
  "parse_date date_parse msg v = (if truthy_opt v
     then (case date_parse (the v) of None \<Rightarrow> Inl (BadFilter msg) | Some d \<Rightarrow> Inr (Some d)) else Inr None)"

definition parse_sort :: "string option \<Rightarrow> email_fault + email_sort option" where
  "parse_sort v = (if truthy_opt v
     then (if the v = ''time'' then Inr (Some ByTime) else if the v = ''attempts'' then Inr (Some ByAttempts)
           else Inl (BadFilter ''invalid sortBy'')) else Inr None)"

definition parse_limit :: "string option \<Rightarrow> email_fault + int" where
  "parse_limit v = (case v of
     None \<Rightarrow> Inr 50
   | Some s \<Rightarrow> (case parseInt s of
         None \<Rightarrow> Inl (BadFilter ''limit must be an integer between 1 and 200'')
       | Some n \<Rightarrow> if n < 1 \<or> n > 200 then Inl (BadFilter ''limit must be an integer between 1 and 200'') else Inr n))"

definition parseOutboxListFilter ::
  "(string \<Rightarrow> millis option) \<Rightarrow> list_query \<Rightarrow> email_fault + list_filter" where
  "parseOutboxListFilter date_parse q =
     (case parse_status (lq_status q) of Inl e \<Rightarrow> Inl e | Inr status \<Rightarrow>
      case parse_date date_parse ''invalid dateFrom'' (lq_dateFrom q) of Inl e \<Rightarrow> Inl e | Inr dateFrom \<Rightarrow>
      case parse_date date_parse ''invalid dateTo'' (lq_dateTo q) of Inl e \<Rightarrow> Inl e | Inr dateTo \<Rightarrow>
      if (case (dateFrom, dateTo) of (Some a, Some b) \<Rightarrow> a > b | _ \<Rightarrow> False)
      then Inl (BadFilter ''dateFrom must not be after dateTo'')
      else case parse_sort (lq_sortBy q) of Inl e \<Rightarrow> Inl e | Inr sortBy \<Rightarrow>
      case parse_limit (lq_limit q) of Inl e \<Rightarrow> Inl e | Inr limit \<Rightarrow>
      Inr \<lparr>lf_status = status, lf_recipient = trimmed (lq_recipient q), lf_template = trimmed (lq_template q),
        lf_dateFrom = dateFrom, lf_dateTo = dateTo, lf_sortBy = sortBy, lf_cursor = lq_cursor q, lf_limit = limit\<rparr>)"

definition list_where :: "list_filter \<Rightarrow> email_record \<Rightarrow> bool" where
  "list_where f r \<longleftrightarrow>
     (case lf_status f of None \<Rightarrow> True | Some s \<Rightarrow> er_status r = s) \<and>
     (case lf_recipient f of None \<Rightarrow> True | Some s \<Rightarrow>
        (case fst (outboxPayloadSummary (er_payload r)) of None \<Rightarrow> False | Some to \<Rightarrow> str_includes to s)) \<and>
     (case lf_template f of None \<Rightarrow> True | Some s \<Rightarrow> snd (outboxPayloadSummary (er_payload r)) = Some s) \<and>
     (case lf_dateFrom f of None \<Rightarrow> True | Some d \<Rightarrow> d \<le> er_createdAt r) \<and>
     (case lf_dateTo f of None \<Rightarrow> True | Some d \<Rightarrow> er_createdAt r \<le> d)"

fun sort_key :: "email_sort \<Rightarrow> email_record \<Rightarrow> int" where
  "sort_key ByTime r = er_createdAt r"
| "sort_key ByAttempts r = er_attemptCount r"

definition list_order :: "email_sort \<Rightarrow> email_record \<Rightarrow> email_record \<Rightarrow> bool" where
  "list_order by a b \<longleftrightarrow> sort_key by b < sort_key by a \<or> (sort_key by a = sort_key by b \<and> js_le (er_id a) (er_id b))"

definition cursor_where :: "email_sort \<Rightarrow> int \<Rightarrow> string \<Rightarrow> email_record \<Rightarrow> bool" where
  "cursor_where by v i r \<longleftrightarrow> sort_key by r < v \<or> (sort_key by r = v \<and> \<not> js_le (er_id r) i)"

text \<open>The condition a decoded cursor adds.  A textual sort value is a date for the time order; Prisma
  rejects it for the attempt count.\<close>

definition cursor_condition ::
  "(string \<Rightarrow> millis option) \<Rightarrow> email_sort \<Rightarrow> cursor_record \<Rightarrow> email_fault + (email_record \<Rightarrow> bool)" where
  "cursor_condition date_parse by c =
     (case cr_sortValue c of
        SortNum v \<Rightarrow> Inr (cursor_where by v (cr_id c))
      | SortStr s \<Rightarrow> (case by of
            ByAttempts \<Rightarrow> Inl (StorageFault ''findMany'')
          | ByTime \<Rightarrow> (case date_parse s of None \<Rightarrow> Inl (StorageFault ''findMany'')
              | Some v \<Rightarrow> Inr (cursor_where ByTime v (cr_id c)))))"

definition after_cursor ::
  "(string \<Rightarrow> millis option) \<Rightarrow> email_sort \<Rightarrow> string option \<Rightarrow> email_fault + (email_record \<Rightarrow> bool)" where
  "after_cursor date_parse by cursor =
     (if truthy_opt cursor then
        (case decodeCursor (the cursor) of
           Inl _ \<Rightarrow> Inr (\<lambda>r. True)
         | Inr c \<Rightarrow> cursor_condition date_parse by c)
      else Inr (\<lambda>r. True))"

record list_result =
  lr_items :: "email_record list"
  lr_nextCursor :: "string option"
  lr_total :: nat

definition listFiltered :: "(string \<Rightarrow> millis option) \<Rightarrow> list_filter \<Rightarrow> email_table \<Rightarrow> email_fault + list_result" where
  "listFiltered date_parse f t =
     (let by = (if lf_sortBy f = Some ByAttempts then ByAttempts else ByTime)
      in case after_cursor date_parse by (lf_cursor f) of
        Inl e \<Rightarrow> Inl e
      | Inr beyond \<Rightarrow>
          let rows = take (nat (lf_limit f) + 1) (sort_by (list_order by) (filter (\<lambda>r. list_where f r \<and> beyond r) t));
              hasMore = int (length rows) > lf_limit f;
              items = (if hasMore then take (nat (lf_limit f)) rows else rows)
          in Inr \<lparr>lr_items = items,
               lr_nextCursor = (if hasMore \<and> items \<noteq> []
                 then Some (encodeCursor \<lparr>cr_id = er_id (last items), cr_sortValue = SortNum (sort_key by (last items))\<rparr>)
                 else None),
               lr_total = length (filter (list_where f) t)\<rparr>)"

end
