(* ===== verification/Email_Listing.thy ===== *)
theory Email_Listing
  imports Email_Outbox
begin

text \<open>
  The outbox listing of the admin page, and the deduplication of the recorder: following the cursors
  from the first page visits every matching record once, in both orders, and a key stands for at most
  one record.
\<close>

section \<open>The listing as a keyset\<close>

definition listing_cursor :: "email_sort \<Rightarrow> email_record \<Rightarrow> cursor_record" where
  "listing_cursor by r = \<lparr>cr_id = er_id r, cr_sortValue = SortNum (sort_key by r)\<rparr>"

definition listing_beyond :: "email_sort \<Rightarrow> cursor_record \<Rightarrow> email_record \<Rightarrow> bool" where
  "listing_beyond by c r = (case cr_sortValue c of SortNum v \<Rightarrow> cursor_where by v (cr_id c) r | SortStr s \<Rightarrow> True)"

lemma list_order_laws:
  "list_order by a b \<or> list_order by b a"
  "list_order by a b \<Longrightarrow> list_order by b c \<Longrightarrow> list_order by a c"
  "listing_beyond by (listing_cursor by a) b \<longleftrightarrow> \<not> list_order by b a"
  using js_le_total[of "er_id a" "er_id b"] js_le_trans[of "er_id a" "er_id b" "er_id c"]
  by (auto simp: list_order_def listing_beyond_def listing_cursor_def cursor_where_def)

interpretation listing: keyset "list_order by" "listing_cursor by" "listing_beyond by" for "by"
  by unfold_locales (rule list_order_laws(1), rule list_order_laws(2), assumption+, rule list_order_laws(3))

definition chosen_sort :: "list_filter \<Rightarrow> email_sort" where
  "chosen_sort f = (if lf_sortBy f = Some ByAttempts then ByAttempts else ByTime)"

fun listing_walk :: "(string \<Rightarrow> millis option) \<Rightarrow> nat \<Rightarrow> list_filter \<Rightarrow> email_table \<Rightarrow> email_record list" where
  "listing_walk date_parse 0 f t = []"
| "listing_walk date_parse (Suc n) f t =
     (case listFiltered date_parse f t of
        Inl e \<Rightarrow> []
      | Inr p \<Rightarrow> lr_items p @ (case lr_nextCursor p of None \<Rightarrow> []
          | Some c \<Rightarrow> listing_walk date_parse n (f\<lparr>lf_cursor := Some c\<rparr>) t))"

lemma encodeCursor_ne: "encodeCursor c \<noteq> []"
proof
  assume "encodeCursor c = []"
  then have "decodeCursor (encodeCursor c) = Inl (CursorMalformed ''empty'')" by (simp add: decodeCursor_def)
  with cursor_round_trip[of c] show False by simp
qed

lemma after_own_cursor:
  "after_cursor date_parse by (Some (encodeCursor (listing_cursor by a))) =
     Inr (listing_beyond by (listing_cursor by a))"
  by (simp add: after_cursor_def truthy_opt_def encodeCursor_ne cursor_round_trip cursor_condition_def
      listing_cursor_def listing_beyond_def fun_eq_iff)

lemma sort_by_Nil_iff [simp]: "sort_by le xs = [] \<longleftrightarrow> xs = []"
  by (metis length_0_conv length_sort_by)

lemma listed_page:
  assumes "1 \<le> lf_limit f" "lf_cursor f = map_option (encodeCursor \<circ> listing_cursor (chosen_sort f)) c"
  shows "\<exists>p. listFiltered date_parse f t = Inr p \<and>
    (lr_items p, lr_nextCursor p) = map_prod (\<lambda>x. x) (map_option encodeCursor)
       (listing.page (chosen_sort f) (nat (lf_limit f)) (map_option (listing_cursor (chosen_sort f)) c)
         (filter (list_where f) t))"
proof -
  let ?by = "chosen_sort f"
  have after: "after_cursor date_parse ?by (lf_cursor f) =
      Inr (listing.after ?by (map_option (listing_cursor ?by) c))"
  proof (cases c)
    case None
    then show ?thesis by (simp add: assms(2) after_cursor_def truthy_opt_def listing.after_def fun_eq_iff)
  next
    case (Some a)
    have "listing.after ?by (Some (listing_cursor ?by a)) = listing_beyond ?by (listing_cursor ?by a)"
      by (simp add: listing.after_def fun_eq_iff)
    with Some show ?thesis by (simp add: assms(2) after_own_cursor)
  qed
  define found where "found = take (Suc (nat (lf_limit f)))
    (sort_by (list_order ?by) (filter (listing.after ?by (map_option (listing_cursor ?by) c)) (filter (list_where f) t)))"
  have "length found \<le> Suc (nat (lf_limit f))" by (simp add: found_def)
  moreover have "filter (\<lambda>r. list_where f r \<and> P r) t = filter P (filter (list_where f) t)" for P
    by (simp add: conj_commute)
  ultimately show ?thesis
    using assms(1) after
    by (auto simp: listFiltered_def chosen_sort_def[symmetric] Let_def listing.page_def found_def[symmetric]
        listing_cursor_def)
qed

lemma page_cursor:
  "listing.page by limit c rows = (items, Some k) \<Longrightarrow> k = listing_cursor by (last items)"
  by (auto simp: listing.page_def Let_def split: if_splits)

lemma listing_walk_keyset:
  assumes "1 \<le> lf_limit f" "lf_cursor f = map_option (encodeCursor \<circ> listing_cursor (chosen_sort f)) c"
  shows "listing_walk date_parse n f t =
    listing.walk (chosen_sort f) n (nat (lf_limit f)) (map_option (listing_cursor (chosen_sort f)) c) (filter (list_where f) t)"
  using assms
proof (induction n arbitrary: f c)
  case (Suc n)
  let ?by = "chosen_sort f"
  obtain p where p: "listFiltered date_parse f t = Inr p"
      "(lr_items p, lr_nextCursor p) = map_prod (\<lambda>x. x) (map_option encodeCursor)
       (listing.page ?by (nat (lf_limit f)) (map_option (listing_cursor ?by) c) (filter (list_where f) t))"
    using listed_page[OF Suc.prems] by blast
  obtain items k where pg: "listing.page ?by (nat (lf_limit f)) (map_option (listing_cursor ?by) c)
      (filter (list_where f) t) = (items, k)" by fastforce
  show ?case
  proof (cases k)
    case None
    with p pg show ?thesis by simp
  next
    case (Some kc)
    let ?f = "f\<lparr>lf_cursor := Some (encodeCursor kc)\<rparr>"
    have same: "chosen_sort ?f = ?by" "list_where ?f = list_where f" "lf_limit ?f = lf_limit f"
      by (simp_all add: chosen_sort_def list_where_def fun_eq_iff)
    have kc: "kc = listing_cursor ?by (last items)" by (rule page_cursor) (use pg Some in simp)
    have "listing_walk date_parse n ?f t =
        listing.walk ?by n (nat (lf_limit f)) (Some kc) (filter (list_where f) t)"
      using Suc.IH[of ?f "Some (last items)"] Suc.prems(1) same kc by simp
    with p pg Some show ?thesis by simp
  qed
qed simp

text \<open>A client of the outbox listing that follows \<open>nextCursor\<close> from the first page sees every record
  that matches the filter exactly once, in the requested order, for every page size and both orders, and
  the walk ends.\<close>

theorem outbox_listing_complete:
  assumes "distinct (map er_id t)" "lf_cursor f = None" "1 \<le> lf_limit f" "length t < n"
  shows "listing_walk date_parse n f t = sort_by (list_order (chosen_sort f)) (filter (list_where f) t)"
proof -
  let ?rows = "filter (list_where f) t"
  have inj: "a = b" if "a \<in> set ?rows" "b \<in> set ?rows" "list_order by a b" "list_order by b a" for a b "by"
  proof -
    have "er_id a = er_id b" using that(3,4) js_le_antisym by (auto simp: list_order_def)
    with that(1,2) assms(1) show ?thesis by (auto simp: distinct_map inj_on_def)
  qed
  have "listing_walk date_parse n f t = listing.walk (chosen_sort f) n (nat (lf_limit f)) None ?rows"
    using listing_walk_keyset[of f None date_parse n t] assms(2,3) by simp
  also have "\<dots> = sort_by (list_order (chosen_sort f)) ?rows"
    by (rule listing.walk_complete)
      (use assms(1,3) inj le_less_trans[OF length_filter_le assms(4)] in \<open>simp_all add: distinct_map\<close>)
  finally show ?thesis .
qed

section \<open>The recorder\<close>

definition keys_unique :: "email_table \<Rightarrow> bool" where
  "keys_unique t \<longleftrightarrow> distinct (map er_id t) \<and>
     (\<forall>a\<in>set t. \<forall>b\<in>set t. er_idempotencyKey a \<noteq> None \<longrightarrow> er_idempotencyKey a = er_idempotencyKey b \<longrightarrow> a = b)"

lemma em_append_unique: "keys_unique t \<Longrightarrow> em_append r t = Inr t' \<Longrightarrow> keys_unique t'"
  by (auto simp: em_append_def keys_unique_def list_ex_iff split: if_splits) (metis option.distinct(1))+

text \<open>Enqueuing twice under one idempotency key yields one record: the second call returns the record
  of the first, whatever it was asked to send, and changes nothing; keys stay unique.\<close>

theorem enqueue_once_per_key:
  assumes "keys_unique t" "email_enqueue uuid now inp t = (Inr r, t')"
    and "eq_idempotencyKey inp = Some k" "k \<noteq> []" "eq_idempotencyKey inp2 = Some k"
  shows "email_enqueue uuid2 now2 inp2 t' = (Inr r, t') \<and> keys_unique t' \<and>
    (\<exists>r\<in>set t'. er_idempotencyKey r = Some k)"
proof -
  have t: "r \<in> set t'" "er_idempotencyKey r = Some k" "keys_unique t'"
    using assms em_append_unique[OF assms(1), of "fresh_record uuid now inp"]
    by (auto simp: email_enqueue_def truthy_opt_def findByIdempotencyKey_def em_append_def fresh_record_def
        dest: find_first_Some split: option.splits sum.splits if_splits)
  then have "findByIdempotencyKey k t' = Some r"
  proof (cases "findByIdempotencyKey k t'")
    case None
    with t(1,2) show ?thesis by (auto simp: findByIdempotencyKey_def find_first_None)
  next
    case (Some x)
    then have "x \<in> set t'" "er_idempotencyKey x = Some k" by (auto simp: findByIdempotencyKey_def dest: find_first_Some)
    with t Some show ?thesis by (auto simp: keys_unique_def)
  qed
  with t assms(4,5) show ?thesis by (auto simp: email_enqueue_def truthy_opt_def)
qed

section \<open>Witnesses\<close>

definition sample_mail :: "string \<Rightarrow> int \<Rightarrow> email_record" where
  "sample_mail i n = (fresh_record i 7 \<lparr>eq_payload = Send \<lparr>so_to = ''a@b'', so_from = None, so_subject = ''s'',
     so_html = None, so_text = None\<rparr>, eq_idempotencyKey = None\<rparr>)\<lparr>er_attemptCount := n\<rparr>"

definition sample_filter :: list_filter where
  "sample_filter = \<lparr>lf_status = Some EPending, lf_recipient = Some ''a@'', lf_template = None, lf_dateFrom = None,
     lf_dateTo = None, lf_sortBy = Some ByAttempts, lf_cursor = None, lf_limit = 1\<rparr>"

theorem outbox_listing_complete_witness:
  "map er_id (listing_walk (\<lambda>_. None) 4 sample_filter [sample_mail ''x'' 1, sample_mail ''y'' 2, sample_mail ''w'' 1])
     = [''y'', ''w'', ''x'']"
proof -
  have "map er_id (sort_by (list_order (chosen_sort sample_filter))
      (filter (list_where sample_filter) [sample_mail ''x'' 1, sample_mail ''y'' 2, sample_mail ''w'' 1])) = [''y'', ''w'', ''x'']"
    by code_simp
  moreover have "distinct (map er_id [sample_mail ''x'' 1, sample_mail ''y'' 2, sample_mail ''w'' 1])" by code_simp
  ultimately show ?thesis
    using outbox_listing_complete[of "[sample_mail ''x'' 1, sample_mail ''y'' 2, sample_mail ''w'' 1]" sample_filter 4 "\<lambda>_. None"]
    by (simp add: sample_filter_def)
qed

definition sample_enqueue :: "string \<Rightarrow> enqueue_input" where
  "sample_enqueue to = \<lparr>eq_payload = Send \<lparr>so_to = to, so_from = None, so_subject = ''s'', so_html = None, so_text = None\<rparr>,
     eq_idempotencyKey = Some ''k''\<rparr>"

theorem enqueue_once_per_key_witness:
  "email_enqueue ''u2'' 9 (sample_enqueue ''b'') [fresh_record ''u1'' 5 (sample_enqueue ''a'')] =
     (Inr (fresh_record ''u1'' 5 (sample_enqueue ''a'')), [fresh_record ''u1'' 5 (sample_enqueue ''a'')])"
proof -
  have "email_enqueue ''u1'' 5 (sample_enqueue ''a'') [] =
      (Inr (fresh_record ''u1'' 5 (sample_enqueue ''a'')), [fresh_record ''u1'' 5 (sample_enqueue ''a'')])" by code_simp
  from enqueue_once_per_key[OF _ this, of "''k''" "sample_enqueue ''b''" "''u2''" 9] show ?thesis
    by (simp add: keys_unique_def) (simp add: sample_enqueue_def)
qed

end
