(* ===== verification/Email_Delivery.thy ===== *)
theory Email_Delivery
  imports Email_Outbox
begin

text \<open>
  What the e-mail outbox guarantees: the effect of a worker tick on every record and the retry schedule,
  and, for any number of workers (overlapping ticks of one process included) with operators at work
  beside them, when a record is dispatched by at most one of them.
\<close>

section \<open>One tick\<close>

text \<open>The fate of a record after one dispatch.\<close>

definition after_attempt :: "email_retry_config \<Rightarrow> email_attempt \<Rightarrow> email_record \<Rightarrow> email_record" where
  "after_attempt retry a r =
     (case ea_dispatch a of
        None \<Rightarrow> r\<lparr>er_status := ESent, er_succeededAt := Some (ea_at a), er_claimedAt := None, er_updatedAt := ea_at a\<rparr>
      | Some raw \<Rightarrow> (case planEmailRetry (er_attemptCount r + 1) (classifyErrorKind raw) (ea_at a) retry of
            Inr (Some next) \<Rightarrow> r\<lparr>er_attemptCount := er_attemptCount r + 1, er_nextAttemptAt := Some next,
              er_lastError := Some (th_message raw), er_claimedAt := None, er_updatedAt := ea_at a\<rparr>
          | _ \<Rightarrow> r\<lparr>er_status := EDeadLetter, er_failedAt := Some (ea_at a), er_lastError := Some (th_message raw),
              er_claimedAt := None, er_updatedAt := ea_at a\<rparr>))"

definition storage_ok :: "email_attempt \<Rightarrow> bool" where
  "storage_ok a \<longleftrightarrow> \<not> ea_claim_throws a \<and> ea_markSent_throws a = None \<and> \<not> ea_mark_throws a"

lemma own_row: "distinct (map er_id t) \<Longrightarrow> r \<in> set t \<Longrightarrow> x \<in> set t \<Longrightarrow> er_id x = er_id r \<longleftrightarrow> x = r"
  by (auto simp: distinct_map inj_on_def)

lemma update_twice:
  assumes "distinct (map er_id t)" "r \<in> set t" "P r" "\<And>x. P x \<Longrightarrow> er_id x = er_id r" "er_id (g r) = er_id r"
  shows "update_where (\<lambda>x. er_id x = er_id r) f (update_where P g t) = map (\<lambda>x. if x = r then f (g r) else x) t"
proof -
  have "(if er_id (if P x then g x else x) = er_id r then f (if P x then g x else x) else if P x then g x else x) =
      (if x = r then f (g r) else x)" if "x \<in> set t" for x
  proof (cases "x = r")
    case False
    then have "er_id x \<noteq> er_id r" using own_row[OF assms(1,2) that] by blast
    moreover from this assms(4)[of x] have "\<not> P x" by blast
    ultimately show ?thesis using False by simp
  qed (simp add: assms(3,5))
  then show ?thesis by (simp add: update_where_def)
qed

lemma planned: "1 \<le> n \<Longrightarrow> \<exists>plan. planEmailRetry n k at retry = Inr plan"
  by (simp add: planEmailRetry_def Let_def)

lemma process_own:
  assumes "distinct (map er_id t)" "r \<in> set t" "dispatchable now r" "now \<le> ea_claimedAt a" "storage_ok a"
    and "0 \<le> er_attemptCount r"
  shows "\<exists>res. process_candidate retry r a t = (Inr res, map (\<lambda>x. if x = r then after_attempt retry a r else x) t)
     \<and> res \<noteq> Skipped"
proof -
  let ?P = "\<lambda>x. er_id x = er_id r \<and> er_status x = EPending \<and> unclaimed (ea_claimedAt a) x"
  let ?g = "\<lambda>x. x\<lparr>er_claimedAt := Some (ea_claimedAt a), er_updatedAt := ea_claimedAt a\<rparr>"
  have P: "?P r" using assms(3,4) by (auto simp: dispatchable_def unclaimed_def split: option.splits)
  have claim: "em_claim (er_id r) (ea_claimedAt a) (ea_claimedAt a) t = (True, update_where ?P ?g t)"
    using P assms(2) by (auto simp: em_claim_def update_many_def list_ex_iff)
  note two = update_twice[of t r ?P ?g, OF assms(1,2) P]
  show ?thesis
  proof (cases "ea_dispatch a")
    case None
    with assms(5) claim two show ?thesis
      by (simp add: process_candidate_def storage_ok_def finish_candidate_def markSent_def update_many_def after_attempt_def)
  next
    case (Some raw)
    obtain plan where plan: "planEmailRetry (er_attemptCount r + 1) (classifyErrorKind raw) (ea_at a) retry = Inr plan"
      using planned[of "er_attemptCount r + 1" "classifyErrorKind raw" "ea_at a" retry] assms(6) by auto
    with Some assms(5) claim two show ?thesis
      by (cases plan) (simp_all add: process_candidate_def storage_ok_def finish_candidate_def fail_candidate_def
          markDeadLetter_def recordTransientFailure_def update_many_def after_attempt_def)
  qed
qed

lemma after_attempt_id [simp]: "er_id (after_attempt retry a r) = er_id r"
  by (simp add: after_attempt_def split: option.splits sum.splits)

lemma process_all:
  assumes "distinct (map er_id t)" "distinct cs" "set cs \<subseteq> set t"
    and "\<And>r. r \<in> set cs \<Longrightarrow> dispatchable now r \<and> now \<le> ea_claimedAt (env r) \<and> storage_ok (env r) \<and> 0 \<le> er_attemptCount r"
  shows "\<exists>rs. process_candidates retry env cs t =
      (Inr rs, map (\<lambda>x. if x \<in> set cs then after_attempt retry (env x) x else x) t) \<and>
    length rs = length cs \<and> Skipped \<notin> set rs"
  using assms
proof (induction cs arbitrary: t)
  case (Cons r cs)
  let ?t = "map (\<lambda>x. if x = r then after_attempt retry (env r) r else x) t"
  obtain res where res: "process_candidate retry r (env r) t = (Inr res, ?t)" "res \<noteq> Skipped"
    using process_own[of t r now "env r" retry] Cons.prems by auto
  have "map er_id ?t = map er_id t" by simp
  then have ids: "distinct (map er_id ?t)" using Cons.prems(1) by (simp only:)
  have sub: "set cs \<subseteq> set ?t" using Cons.prems(2,3) by (auto simp: image_iff)
  have "distinct cs" using Cons.prems(2) by simp
  from Cons.IH[OF ids this sub Cons.prems(4)] obtain rs where rs: "process_candidates retry env cs ?t =
      (Inr rs, map (\<lambda>x. if x \<in> set cs then after_attempt retry (env x) x else x) ?t)"
      "length rs = length cs" "Skipped \<notin> set rs"
    by (auto simp del: map_map)
  have "(if y \<in> set cs then after_attempt retry (env y) y else y) = (if x \<in> set (r # cs) then after_attempt retry (env x) x else x)"
    if "x \<in> set t" "y = (if x = r then after_attempt retry (env r) r else x)" for x y
  proof (cases "x = r")
    case True
    have "y \<notin> set cs"
    proof
      assume "y \<in> set cs"
      with Cons.prems(3) have "y \<in> set t" by auto
      moreover have "er_id y = er_id r" using that True by simp
      ultimately have "y = r" using own_row[OF Cons.prems(1), of r y] Cons.prems(3) by auto
      with \<open>y \<in> set cs\<close> Cons.prems(2) show False by simp
    qed
    with True that show ?thesis by simp
  qed (use that in auto)
  then have "map (\<lambda>x. if x \<in> set cs then after_attempt retry (env x) x else x) ?t =
      map (\<lambda>x. if x \<in> set (r # cs) then after_attempt retry (env x) x else x) t" by auto
  with res rs show ?case by simp
qed (simp add: map_idI)

lemma tally_total: "Skipped \<notin> set rs \<Longrightarrow> rr_sent (tally rs) + rr_retry (tally rs) + rr_deadLetter (tally rs) = length rs"
proof (induction rs)
  case (Cons r rs)
  then show ?case by (cases r) (simp_all add: tally_def)
qed (simp add: tally_def)

text \<open>C30: A tick whose storage calls succeed, and during which nothing else changes the table (overlapping ticks and operators are the
  step relation \<open>email_step\<close> below), dispatches every due record of the batch exactly once: each ends
  as sent, rescheduled or dead-lettered as its dispatch decides, every other record is untouched, and the
  counters add up to the size of the batch.\<close>

theorem email_tick_effect:
  assumes "distinct (map er_id t)" "\<forall>r\<in>set t. 0 \<le> er_attemptCount r"
    and "\<forall>r. now \<le> ea_claimedAt (env r) \<and> storage_ok (env r)"
  shows "\<exists>res. email_runOnce retry batch now False env t = (Inr res,
      map (\<lambda>x. if x \<in> set (listDispatchable now batch t) then after_attempt retry (env x) x else x) t) \<and>
    rr_sent res + rr_retry res + rr_deadLetter res = length (listDispatchable now batch t)"
proof -
  let ?cs = "listDispatchable now batch t"
  have cs: "set ?cs \<subseteq> {r \<in> set t. dispatchable now r}"
    using set_take_subset[of batch "sort_by oldest_first (filter (dispatchable now) t)"]
    by (auto simp: listDispatchable_def)
  moreover have "distinct ?cs" using assms(1) by (simp add: listDispatchable_def distinct_map)
  ultimately obtain rs where "process_candidates retry env ?cs t =
      (Inr rs, map (\<lambda>x. if x \<in> set ?cs then after_attempt retry (env x) x else x) t)"
      "length rs = length ?cs" "Skipped \<notin> set rs"
    using process_all[of t ?cs now env retry] assms by auto
  with tally_total[of rs] show ?thesis by (simp add: email_runOnce_def)
qed

section \<open>The retry schedule\<close>

definition failing_attempt :: "millis \<Rightarrow> string \<Rightarrow> email_attempt" where
  "failing_attempt at msg = \<lparr>ea_claimedAt = at, ea_claim_throws = False,
     ea_dispatch = Some \<lparr>th_kind = None, th_message = msg\<rparr>, ea_markSent_throws = None, ea_at = at, ea_mark_throws = False\<rparr>"

text \<open>Under the default policy a record whose dispatch keeps failing is due again one minute, five
  minutes, 25 minutes and two hours after the first four failures, and is dead-lettered by the fifth.\<close>

theorem email_retry_schedule:
  assumes "er_status r = EPending" "er_attemptCount r = 0" "length ats = k" "0 < k" "k \<le> 5"
  shows "(let r' = foldl (\<lambda>r at. after_attempt DEFAULT_EMAIL_OUTBOX_RETRY (failing_attempt at msg) r) r ats
     in if k < 5 then er_status r' = EPending \<and> er_attemptCount r' = int k \<and>
          er_nextAttemptAt r' = Some (last ats + [60000, 300000, 1500000, 7200000] ! (k - 1))
        else er_status r' = EDeadLetter \<and> er_failedAt r' = Some (last ats))"
proof -
  have step: "after_attempt DEFAULT_EMAIL_OUTBOX_RETRY (failing_attempt at msg) x =
     (if er_attemptCount x + 1 < 5
      then x\<lparr>er_attemptCount := er_attemptCount x + 1,
        er_nextAttemptAt := Some (at + min (60000 * 5 ^ nat (er_attemptCount x)) 7200000),
        er_lastError := Some msg, er_claimedAt := None, er_updatedAt := at\<rparr>
      else x\<lparr>er_status := EDeadLetter, er_failedAt := Some at, er_lastError := Some msg, er_claimedAt := None,
        er_updatedAt := at\<rparr>)" if "0 \<le> er_attemptCount x" for x at
    using that by (simp add: after_attempt_def failing_attempt_def planEmailRetry_def DEFAULT_EMAIL_OUTBOX_RETRY_def
        classifyErrorKind_def Let_def)
  consider "k = 1" | "k = 2" | "k = 3" | "k = 4" | "k = 5" using assms(4,5) by linarith
  then show ?thesis
    using assms(1-3)
    by cases (auto simp: step length_Suc_conv numeral_eq_Suc eval_nat_numeral Let_def)
qed

section \<open>Many workers\<close>

text \<open>A worker between two storage calls: idle, holding the rest of the batch it listed, or dispatching a
  candidate it claimed.  Two overlapping ticks of one process are two workers.\<close>

datatype worker_phase =
    WIdle
  | WHolding "email_record list"
  | WDispatching email_record millis "email_record list"

record email_system =
  es_table :: email_table
  es_workers :: "nat \<Rightarrow> worker_phase"
  es_now :: millis

datatype email_label = LClock | LWorker nat | LEnqueue | LAdmin admin_action

definition set_worker :: "nat \<Rightarrow> worker_phase \<Rightarrow> email_system \<Rightarrow> email_system" where
  "set_worker w p s = s\<lparr>es_workers := (es_workers s)(w := p)\<rparr>"

inductive email_step :: "email_retry_config \<Rightarrow> email_label \<Rightarrow> email_system \<Rightarrow> email_system \<Rightarrow> bool"
  for cfg where
  clock: "es_now s \<le> n \<Longrightarrow> email_step cfg LClock s (s\<lparr>es_now := n\<rparr>)"
| poll: "es_workers s w = WIdle \<Longrightarrow>
    email_step cfg (LWorker w) s (set_worker w (WHolding (listDispatchable (es_now s) email_batchSize (es_table s))) s)"
| rest: "es_workers s w = WHolding [] \<Longrightarrow> email_step cfg (LWorker w) s (set_worker w WIdle s)"
| claim: "es_workers s w = WHolding (c # cs) \<Longrightarrow>
    em_claim (er_id c) (es_now s) (es_now s) (es_table s) = (True, t') \<Longrightarrow>
    email_step cfg (LWorker w) s (set_worker w (WDispatching c (es_now s) cs) (s\<lparr>es_table := t'\<rparr>))"
| skip: "es_workers s w = WHolding (c # cs) \<Longrightarrow>
    email_step cfg (LWorker w) s (set_worker w (WHolding cs) s)"
| finish: "es_workers s w = WDispatching c t0 cs \<Longrightarrow> ea_at a = es_now s \<Longrightarrow>
    finish_candidate cfg c a (es_table s) = (res, t') \<Longrightarrow>
    email_step cfg (LWorker w) s
      (set_worker w (case res of Inl _ \<Rightarrow> WIdle | Inr _ \<Rightarrow> WHolding cs) (s\<lparr>es_table := t'\<rparr>))"
| enqueue: "email_enqueue uuid (es_now s) inp (es_table s) = (res, t') \<Longrightarrow>
    email_step cfg LEnqueue s (s\<lparr>es_table := t'\<rparr>)"
| admin: "admin_apply action rid (es_now s) (es_table s) = (res, t') \<Longrightarrow>
    email_step cfg (LAdmin action) s (s\<lparr>es_table := t'\<rparr>)"

text \<open>The states of the runs that take only the steps \<open>ok\<close> and stay within \<open>P\<close>.\<close>

inductive email_reach :: "email_retry_config \<Rightarrow> (email_label \<Rightarrow> bool) \<Rightarrow> (email_system \<Rightarrow> bool) \<Rightarrow> email_system \<Rightarrow> bool"
  for cfg ok P where
  start: "es_table s = [] \<Longrightarrow> es_workers s = (\<lambda>_. WIdle) \<Longrightarrow> P s \<Longrightarrow> email_reach cfg ok P s"
| step: "email_reach cfg ok P s \<Longrightarrow> email_step cfg l s s' \<Longrightarrow> ok l \<Longrightarrow> P s' \<Longrightarrow> email_reach cfg ok P s'"

text \<open>No dispatch has been going on for longer than the stale-claim threshold.\<close>

definition dispatch_timely :: "email_system \<Rightarrow> bool" where
  "dispatch_timely s \<longleftrightarrow> (\<forall>w c t0 cs. es_workers s w = WDispatching c t0 cs \<longrightarrow> es_now s - t0 \<le> STALE_CLAIM_THRESHOLD_MS)"

definition dispatching :: "email_system \<Rightarrow> nat \<Rightarrow> string \<Rightarrow> millis \<Rightarrow> bool" where
  "dispatching s w i t0 \<longleftrightarrow> (\<exists>c cs. es_workers s w = WDispatching c t0 cs \<and> er_id c = i)"

definition in_hand :: "millis \<Rightarrow> email_record \<Rightarrow> bool" where
  "in_hand t0 r \<longleftrightarrow> er_status r = ECancelled \<or> (er_status r = EPending \<and> er_claimedAt r = Some t0)"

text \<open>Whoever dispatches a record holds its claim, unless an operator cancelled it meanwhile, and is the
  only one.\<close>

definition exclusive :: "email_system \<Rightarrow> bool" where
  "exclusive s \<longleftrightarrow> distinct (map er_id (es_table s)) \<and>
     (\<forall>w i t0. dispatching s w i t0 \<longrightarrow> (\<exists>r\<in>set (es_table s). er_id r = i \<and> in_hand t0 r)) \<and>
     (\<forall>w w' i t0 t1. dispatching s w i t0 \<longrightarrow> dispatching s w' i t1 \<longrightarrow> w = w')"

lemma exclusiveD:
  assumes "exclusive s"
  shows "distinct (map er_id (es_table s))"
    and "dispatching s w i t0 \<Longrightarrow> \<exists>r\<in>set (es_table s). er_id r = i \<and> in_hand t0 r"
    and "dispatching s w i t0 \<Longrightarrow> dispatching s w' i t1 \<Longrightarrow> w = w'"
  using assms unfolding exclusive_def by blast+

lemma set_worker_simps [simp]:
  "es_table (set_worker w p s) = es_table s" "es_now (set_worker w p s) = es_now s"
  "es_workers (set_worker w p s) = (es_workers s)(w := p)"
  by (simp_all add: set_worker_def)

lemma dispatching_simps:
  "dispatching (s\<lparr>es_table := t\<rparr>) = dispatching s" "dispatching (s\<lparr>es_now := n\<rparr>) = dispatching s"
  "dispatching (set_worker w (WDispatching c t0 cs) s) v i u \<longleftrightarrow>
     (if v = w then i = er_id c \<and> u = t0 else dispatching s v i u)"
  "dispatching (set_worker w (WHolding cs) s) v i u \<longleftrightarrow> v \<noteq> w \<and> dispatching s v i u"
  "dispatching (set_worker w WIdle s) v i u \<longleftrightarrow> v \<noteq> w \<and> dispatching s v i u"
  by (auto simp: dispatching_def fun_eq_iff)

text \<open>Every table operation changes only rows it names and keeps the identifiers.\<close>

lemma update_many_frame:
  assumes "update_many P f t = (b, t')" "\<And>x. P x \<Longrightarrow> er_id (f x) = er_id x"
  shows "map er_id t' = map er_id t" "r \<in> set t \<Longrightarrow> \<not> P r \<Longrightarrow> r \<in> set t'" "r \<in> set t \<Longrightarrow> P r \<Longrightarrow> f r \<in> set t'"
  using assms by (auto simp: update_many_def set_update_where map_update_where_frame image_iff)

lemma finish_frame:
  assumes "finish_candidate cfg c a t = (res, t')"
  shows "map er_id t' = map er_id t" "r \<in> set t \<Longrightarrow> er_id r \<noteq> er_id c \<Longrightarrow> r \<in> set t'"
  using assms
  by (auto simp: finish_candidate_def fail_candidate_def markSent_def markDeadLetter_def recordTransientFailure_def
      update_many_def set_update_where map_update_where_frame image_iff Let_def split: option.splits sum.splits if_splits)

lemma enqueue_frame:
  assumes "email_enqueue uuid now inp t = (res, t')" "distinct (map er_id t)"
  shows "distinct (map er_id t')" "set t \<subseteq> set t'"
  using assms by (auto simp: email_enqueue_def em_append_def list_ex_iff split: option.splits sum.splits if_splits) blast+

lemma cancel_frame:
  assumes "admin_apply ACancel rid now t = (res, t')"
  shows "map er_id t' = map er_id t"
    "r \<in> set t \<Longrightarrow> \<exists>r'\<in>set t'. er_id r' = er_id r \<and> (r' = r \<or> er_status r' = ECancelled \<and> er_status r \<noteq> ESent)"
proof -
  let ?P = "\<lambda>r. er_id r = rid \<and> er_status r \<in> {EPending, EDeadLetter}"
  let ?f = "\<lambda>r. r\<lparr>er_status := ECancelled, er_claimedAt := None, er_updatedAt := now\<rparr>"
  have t': "t' = t \<or> t' = update_where ?P ?f t"
    using assms by (auto simp: admin_apply_def markCancelled_def update_many_def split: option.splits sum.splits)
  then show "map er_id t' = map er_id t" by (auto simp: map_update_where_frame)
  show "\<exists>r'\<in>set t'. er_id r' = er_id r \<and> (r' = r \<or> er_status r' = ECancelled \<and> er_status r \<noteq> ESent)"
    if "r \<in> set t"
  proof (cases "t' = t \<or> \<not> ?P r")
    case True
    with t' that have "r \<in> set t'" by (auto simp: set_update_where image_iff)
    then show ?thesis by blast
  next
    case False
    with t' that have "?f r \<in> set t'" by (auto simp: set_update_where image_iff)
    with False show ?thesis by (intro bexI[of _ "?f r"]) auto
  qed
qed

lemma claim_frame:
  assumes "em_claim i at dbnow t = (True, t')"
  shows "map er_id t' = map er_id t" "r \<in> set t \<Longrightarrow> er_id r \<noteq> i \<Longrightarrow> r \<in> set t'"
    "\<exists>r\<in>set t'. er_id r = i \<and> in_hand at r" "\<exists>r\<in>set t. er_id r = i \<and> er_status r = EPending \<and> unclaimed at r"
proof -
  let ?P = "\<lambda>r. er_id r = i \<and> er_status r = EPending \<and> unclaimed at r"
  let ?f = "\<lambda>r. r\<lparr>er_claimedAt := Some at, er_updatedAt := dbnow\<rparr>"
  have t': "update_many ?P ?f t = (True, t')" using assms by (simp add: em_claim_def)
  note frame = update_many_frame[OF t']
  show "map er_id t' = map er_id t" by (rule frame(1)) simp
  show "r \<in> set t \<Longrightarrow> er_id r \<noteq> i \<Longrightarrow> r \<in> set t'" by (rule frame(2)) simp_all
  obtain r where r: "r \<in> set t" "?P r" using t' by (auto simp: update_many_def list_ex_iff)
  then have "?f r \<in> set t'" by (intro frame(3)) simp_all
  with r show "\<exists>r\<in>set t'. er_id r = i \<and> in_hand at r" by (intro bexI[of _ "?f r"]) (simp_all add: in_hand_def)
  from r show "\<exists>r\<in>set t. er_id r = i \<and> er_status r = EPending \<and> unclaimed at r" by blast
qed

text \<open>A live claim cannot be taken over while its dispatch is timely.\<close>

lemma claimed_not_dispatching:
  assumes "exclusive s" "dispatch_timely s" "em_claim i (es_now s) n (es_table s) = (True, t')"
  shows "\<not> dispatching s w i t0"
proof
  assume d: "dispatching s w i t0"
  then obtain r where r: "r \<in> set (es_table s)" "er_id r = i" "in_hand t0 r"
    using exclusiveD(2)[OF assms(1)] by blast
  obtain r2 where r2: "r2 \<in> set (es_table s)" "er_id r2 = i" "er_status r2 = EPending" "unclaimed (es_now s) r2"
    using claim_frame(4)[OF assms(3)] by blast
  have "r2 = r" using own_row[OF exclusiveD(1)[OF assms(1)] r(1) r2(1)] r(2) r2(2) by simp
  moreover have "es_now s - t0 \<le> STALE_CLAIM_THRESHOLD_MS" using d assms(2) by (auto simp: dispatching_def dispatch_timely_def)
  ultimately show False using r(3) r2(3,4) by (auto simp: in_hand_def unclaimed_def)
qed

lemma exclusive_frame:
  assumes "exclusive s" "distinct (map er_id (es_table s'))"
    and "\<And>v i u. dispatching s' v i u \<Longrightarrow> dispatching s v i u"
    and "\<And>v i u r. dispatching s' v i u \<Longrightarrow> r \<in> set (es_table s) \<Longrightarrow> er_id r = i \<Longrightarrow> in_hand u r \<Longrightarrow>
      \<exists>r'\<in>set (es_table s'). er_id r' = i \<and> in_hand u r'"
  shows "exclusive s'"
  using assms unfolding exclusive_def by meson

lemma exclusive_claim:
  assumes "exclusive s" "dispatch_timely s" "em_claim (er_id c) (es_now s) (es_now s) (es_table s) = (True, t')"
  shows "exclusive (set_worker w (WDispatching c (es_now s) cs) (s\<lparr>es_table := t'\<rparr>))" (is "exclusive ?s")
proof -
  note claim = claim_frame[OF assms(3)]
  have no: "\<not> dispatching s v (er_id c) u" for v u by (rule claimed_not_dispatching[OF assms])
  have d: "dispatching ?s v i u \<longleftrightarrow> (if v = w then i = er_id c \<and> u = es_now s else dispatching s v i u)" for v i u
    by (simp add: dispatching_simps)
  have "\<exists>r\<in>set t'. er_id r = i \<and> in_hand u r" if "dispatching ?s v i u" for v i u
  proof (cases "v = w")
    case True
    with that d claim(3) show ?thesis by simp
  next
    case False
    with that d have *: "dispatching s v i u" by simp
    then obtain r where "r \<in> set (es_table s)" "er_id r = i" "in_hand u r" using exclusiveD(2)[OF assms(1)] by blast
    moreover have "i \<noteq> er_id c" using no * by blast
    ultimately show ?thesis using claim(2)[of r] by blast
  qed
  moreover have "v = v'" if "dispatching ?s v i u" "dispatching ?s v' i u'" for v v' i u u'
    using that no exclusiveD(3)[OF assms(1)] unfolding d by (metis (full_types))
  ultimately show ?thesis using exclusiveD(1)[OF assms(1)] claim(1) unfolding exclusive_def by simp
qed

lemma exclusive_finish:
  assumes "exclusive s" "es_workers s w = WDispatching c t0 cs" "finish_candidate cfg c a (es_table s) = (res, t')"
  shows "exclusive (set_worker w (case res of Inl _ \<Rightarrow> WIdle | Inr _ \<Rightarrow> WHolding cs) (s\<lparr>es_table := t'\<rparr>))" (is "exclusive ?s")
proof (rule exclusive_frame[OF assms(1)])
  note frame = finish_frame[OF assms(3)]
  show "distinct (map er_id (es_table ?s))" using exclusiveD(1)[OF assms(1)] frame(1) by simp
  have d: "dispatching ?s v i u \<Longrightarrow> v \<noteq> w \<and> dispatching s v i u" for v i u
    by (cases res) (auto simp: dispatching_simps)
  then show "dispatching ?s v i u \<Longrightarrow> dispatching s v i u" for v i u by blast
  fix v i u r
  assume v: "dispatching ?s v i u" "r \<in> set (es_table s)" "er_id r = i" "in_hand u r"
  have "dispatching s w (er_id c) t0" using assms(2) by (auto simp: dispatching_def)
  with d[OF v(1)] exclusiveD(3)[OF assms(1)] have "i \<noteq> er_id c" by blast
  with v frame(2)[of r] show "\<exists>r'\<in>set (es_table ?s). er_id r' = i \<and> in_hand u r'" by auto
qed

lemma exclusive_step:
  assumes "email_step cfg l s s'" "exclusive s" "dispatch_timely s" "l \<noteq> LAdmin ARetry"
  shows "exclusive s'"
  using assms(1)
proof (cases rule: email_step.cases)
  case (claim w c cs t')
  then show ?thesis using exclusive_claim[OF assms(2,3)] by simp
next
  case (finish w c t0 cs a res t')
  then show ?thesis using exclusive_finish[OF assms(2)] by simp
next
  case (enqueue uuid inp res t')
  note frame = enqueue_frame[OF enqueue(3) exclusiveD(1)[OF assms(2)]]
  show ?thesis by (rule exclusive_frame[OF assms(2)]) (use enqueue frame in \<open>auto simp: dispatching_simps\<close>)
next
  case (admin action rid res t')
  with assms(4) have "action = ACancel" by (cases action) auto
  with admin have c: "admin_apply ACancel rid (es_now s) (es_table s) = (res, t')" by simp
  have "\<exists>r'\<in>set t'. er_id r' = i \<and> in_hand u r'" if "r \<in> set (es_table s)" "er_id r = i" "in_hand u r" for r i u
    using cancel_frame(2)[OF c that(1)] that(2,3) by (auto simp: in_hand_def)
  then show ?thesis by (intro exclusive_frame[OF assms(2)])
      (use admin cancel_frame(1)[OF c] exclusiveD(1)[OF assms(2)] in \<open>auto simp: dispatching_simps\<close>)
next
  case (clock n)
  then show ?thesis by (intro exclusive_frame[OF assms(2)]) (use exclusiveD(1)[OF assms(2)] in \<open>auto simp: dispatching_simps\<close>)
qed (intro exclusive_frame[OF assms(2)], use exclusiveD(1)[OF assms(2)] in \<open>auto simp: dispatching_simps\<close>)+

lemma reach_exclusive:
  "email_reach cfg (\<lambda>l. l \<noteq> LAdmin ARetry) dispatch_timely s \<Longrightarrow> exclusive s \<and> dispatch_timely s"
proof (induction rule: email_reach.induct)
  case (start s)
  then show ?case by (simp add: exclusive_def dispatching_def)
next
  case (step s l s')
  then show ?case using exclusive_step by blast
qed

lemma sent_kept:
  assumes "exclusive s" "email_step cfg l s s'" "r \<in> set (es_table s)" "er_status r = ESent"
  shows "r \<in> set (es_table s')"
  using assms(2)
proof (cases rule: email_step.cases)
  case (claim w c cs t')
  have "r \<in> set t'"
    using update_many_frame(2)[OF claim(4)[unfolded em_claim_def], of r] assms(3,4) by simp
  with claim show ?thesis by simp
next
  case (finish w c t0 cs a res t')
  then have "dispatching s w (er_id c) t0" by (auto simp: dispatching_def)
  then obtain x where x: "x \<in> set (es_table s)" "er_id x = er_id c" "in_hand t0 x"
    using exclusiveD(2)[OF assms(1)] by blast
  have "er_id r \<noteq> er_id c"
  proof
    assume "er_id r = er_id c"
    then have "r = x" using own_row[OF exclusiveD(1)[OF assms(1)] x(1) assms(3)] x(2) by simp
    with x(3) assms(4) show False by (simp add: in_hand_def)
  qed
  with finish finish_frame(2)[OF finish(5) assms(3)] show ?thesis by simp
next
  case (enqueue uuid inp res t')
  then show ?thesis using enqueue_frame(2)[OF enqueue(3) exclusiveD(1)[OF assms(1)]] assms(3) by auto
next
  case (admin action rid res t')
  have "r \<in> set t'"
    using admin(3) assms(3,4) by (auto simp: admin_apply_def markCancelled_def markRetry_def update_many_def
        set_update_where image_iff split: option.splits sum.splits admin_action.splits)
  with admin show ?thesis by simp
qed (use assms(3) in auto)

text \<open>C27: As long as no dispatch outlasts the stale-claim threshold and no operator retries a record, no
  two workers ever dispatch the same record at the same time, however many workers and overlapping ticks
  there are, and a record that was sent never changes again.\<close>

theorem no_double_dispatch:
  assumes "email_reach cfg (\<lambda>l. l \<noteq> LAdmin ARetry) dispatch_timely s"
  shows "(\<forall>w w' i t0 t1. dispatching s w i t0 \<longrightarrow> dispatching s w' i t1 \<longrightarrow> w = w') \<and>
    (\<forall>l s' r. email_step cfg l s s' \<longrightarrow> r \<in> set (es_table s) \<longrightarrow> er_status r = ESent \<longrightarrow> r \<in> set (es_table s'))"
proof -
  have "exclusive s" using reach_exclusive[OF assms] by blast
  with sent_kept exclusiveD(3) show ?thesis by blast
qed

section \<open>The cap on attempts\<close>

definition under_cap :: "email_retry_config \<Rightarrow> email_record \<Rightarrow> bool" where
  "under_cap cfg r \<longleftrightarrow> 0 \<le> er_attemptCount r \<and> (er_status r = EPending \<longrightarrow> er_attemptCount r < max 1 (rt_maxAttempts cfg))"

definition phase_records :: "worker_phase \<Rightarrow> email_record set" where
  "phase_records p = (case p of WIdle \<Rightarrow> {} | WHolding cs \<Rightarrow> set cs | WDispatching c t0 cs \<Rightarrow> insert c (set cs))"

definition capped :: "email_retry_config \<Rightarrow> email_system \<Rightarrow> bool" where
  "capped cfg s \<longleftrightarrow> (\<forall>r\<in>set (es_table s). under_cap cfg r) \<and>
     (\<forall>w. \<forall>c\<in>phase_records (es_workers s w). er_status c = EPending \<and> under_cap cfg c)"

lemma phase_records_simps [simp]:
  "phase_records WIdle = {}" "phase_records (WHolding cs) = set cs"
  "phase_records (WDispatching c t0 cs) = insert c (set cs)"
  by (simp_all add: phase_records_def)

lemma update_many_cap:
  assumes "update_many P f t = (b, t')" "\<forall>r\<in>set t. under_cap cfg r" "\<And>r. P r \<Longrightarrow> under_cap cfg r \<Longrightarrow> under_cap cfg (f r)"
  shows "\<forall>r\<in>set t'. under_cap cfg r"
  using assms by (auto simp: update_many_def set_update_where)

lemma finish_cap:
  assumes "finish_candidate cfg c a t = (res, t')" "\<forall>r\<in>set t. under_cap cfg r" "under_cap cfg c"
  shows "\<forall>r\<in>set t'. under_cap cfg r"
  using assms
  by (auto simp: finish_candidate_def fail_candidate_def markSent_def markDeadLetter_def recordTransientFailure_def
      planEmailRetry_def update_many_def set_update_where under_cap_def Let_def split: option.splits sum.splits if_splits)

lemma capped_step:
  assumes "email_step cfg l s s'" "capped cfg s"
  shows "capped cfg s'"
proof -
  have t: "\<forall>r\<in>set (es_table s). under_cap cfg r" using assms(2) by (simp add: capped_def)
  have w: "er_status c = EPending \<and> under_cap cfg c" if "c \<in> phase_records (es_workers s v)" for v c
    using assms(2) that by (auto simp: capped_def)
  from assms(1) show ?thesis
  proof (cases rule: email_step.cases)
    case (poll v)
    have "er_status c = EPending \<and> under_cap cfg c" if "c \<in> set (listDispatchable (es_now s) email_batchSize (es_table s))" for c
      using t in_set_takeD[OF that[unfolded listDispatchable_def]] by (auto simp: dispatchable_def)
    with poll t w show ?thesis by (auto simp: capped_def)
  next
    case (claim v c cs t')
    have "\<forall>r\<in>set t'. under_cap cfg r"
      by (rule update_many_cap[OF claim(4)[unfolded em_claim_def] t]) (simp add: under_cap_def)
    with claim w[of _ v] w show ?thesis by (auto simp: capped_def)
  next
    case (skip v c cs)
    with t w w[of _ v] show ?thesis by (auto simp: capped_def)
  next
    case (finish v c t0 cs a res t')
    have "\<forall>r\<in>set t'. under_cap cfg r" by (rule finish_cap[OF finish(5) t]) (use w[of c v] finish in simp)
    with finish w w[of _ v] show ?thesis by (cases res) (auto simp: capped_def)
  next
    case (enqueue uuid inp res t')
    with t w show ?thesis
      by (auto simp: capped_def email_enqueue_def em_append_def under_cap_def fresh_record_def
          split: option.splits sum.splits if_splits)
  next
    case (admin action rid res t')
    have "\<forall>r\<in>set t'. under_cap cfg r"
      using admin(3) t by (auto simp: admin_apply_def markCancelled_def markRetry_def update_many_def under_cap_def
          set_update_where split: option.splits sum.splits admin_action.splits)
    with admin w show ?thesis by (auto simp: capped_def)
  qed (use t w in \<open>auto simp: capped_def\<close>)
qed

text \<open>In every state that workers, operators and callers can reach, without any assumption on timing, a
  pending record has failed fewer times than the cap allows.\<close>

theorem pending_records_under_cap:
  assumes "email_reach cfg ok P s" "r \<in> set (es_table s)" "er_status r = EPending"
  shows "0 \<le> er_attemptCount r \<and> er_attemptCount r < max 1 (rt_maxAttempts cfg)"
proof -
  from assms(1) have "capped cfg s"
  proof (induction rule: email_reach.induct)
    case (start s)
    then show ?case by (simp add: capped_def)
  qed (rule capped_step)
  with assms(2,3) show ?thesis by (auto simp: capped_def under_cap_def)
qed

section \<open>Runs\<close>

definition sample_mail_input :: enqueue_input where
  "sample_mail_input = \<lparr>eq_payload = Send \<lparr>so_to = ''a@b'', so_from = None, so_subject = ''s'', so_html = None,
     so_text = None\<rparr>, eq_idempotencyKey = None\<rparr>"

definition sample_pending :: email_record where
  "sample_pending = \<lparr>er_id = ''m'', er_payload = eq_payload sample_mail_input, er_idempotencyKey = None,
     er_status = EPending, er_attemptCount = 0, er_nextAttemptAt = None, er_claimedAt = None, er_lastError = None,
     er_succeededAt = None, er_failedAt = None, er_createdAt = 0, er_updatedAt = 0\<rparr>"

definition sample_system :: "email_table \<Rightarrow> worker_phase \<Rightarrow> worker_phase \<Rightarrow> email_system" where
  "sample_system t p q = \<lparr>es_table = t, es_workers = (\<lambda>_. WIdle)(0 := p, 1 := q), es_now = 0\<rparr>"

definition sample_claimed :: email_record where
  "sample_claimed = sample_pending\<lparr>er_claimedAt := Some 0\<rparr>"

definition sample_waiting_retry :: email_record where
  "sample_waiting_retry = sample_pending\<lparr>er_attemptCount := 1, er_nextAttemptAt := Some 60000, er_lastError := Some ''x''\<rparr>"

lemmas sample_mail_defs = sample_system_def sample_pending_def sample_claimed_def sample_waiting_retry_def
  sample_mail_input_def

lemma sample_timely: "dispatch_timely (sample_system t p q)"
  if "\<forall>x\<in>{p, q}. case x of WDispatching c t0 cs \<Rightarrow> t0 = 0 | _ \<Rightarrow> True"
  using that by (auto simp: dispatch_timely_def sample_system_def STALE_CLAIM_THRESHOLD_MS_def split: if_splits)

lemma sample_listed: "listDispatchable 0 email_batchSize [sample_pending] = [sample_pending]"
  by (simp add: listDispatchable_def email_batchSize_def dispatchable_def unclaimed_def sample_pending_def)

lemma sample_claims:
  "em_claim ''m'' 0 0 [sample_pending] = (True, [sample_claimed])"
  "em_claim ''m'' 0 0 [sample_waiting_retry] = (True, [sample_waiting_retry\<lparr>er_claimedAt := Some 0\<rparr>])"
  by (simp_all add: em_claim_def update_many_def unclaimed_def sample_mail_defs)

lemma sample_enqueued: "email_reach cfg ok dispatch_timely (sample_system [sample_pending] WIdle WIdle)" if "ok LEnqueue"
proof (rule email_reach.step[OF email_reach.start])
  show "es_table (sample_system [] WIdle WIdle) = []" "dispatch_timely (sample_system [] WIdle WIdle)"
    "es_workers (sample_system [] WIdle WIdle) = (\<lambda>_. WIdle)"
    by (auto simp: sample_system_def dispatch_timely_def)
  have "email_enqueue ''m'' 0 sample_mail_input [] = (Inr sample_pending, [sample_pending])"
    by (simp add: email_enqueue_def truthy_opt_def em_append_def fresh_record_def sample_pending_def sample_mail_input_def)
  then show "email_step cfg LEnqueue (sample_system [] WIdle WIdle) (sample_system [sample_pending] WIdle WIdle)"
    using email_step.enqueue[of "''m''" "sample_system [] WIdle WIdle" sample_mail_input] by (simp add: sample_system_def)
  show "dispatch_timely (sample_system [sample_pending] WIdle WIdle)" by (rule sample_timely) simp
qed (rule that)

lemma sample_system_simps [simp]:
  "es_table (sample_system t p q) = t" "es_now (sample_system t p q) = 0"
  "es_workers (sample_system t p q) 0 = p" "es_workers (sample_system t p q) (Suc 0) = q"
  "set_worker 0 p' (sample_system t p q) = sample_system t p' q"
  "set_worker (Suc 0) q' (sample_system t p q) = sample_system t p q'"
  "(sample_system t p q)\<lparr>es_table := t'\<rparr> = sample_system t' p q"
  by (auto simp: sample_system_def set_worker_def fun_eq_iff)

lemma sample_polls:
  "email_step cfg (LWorker 0) (sample_system [sample_pending] WIdle q) (sample_system [sample_pending] (WHolding [sample_pending]) q)"
  "email_step cfg (LWorker 1) (sample_system [sample_pending] p WIdle) (sample_system [sample_pending] p (WHolding [sample_pending]))"
  using email_step.poll[of "sample_system [sample_pending] WIdle q" 0 cfg]
    email_step.poll[of "sample_system [sample_pending] p WIdle" 1 cfg] by (simp_all add: sample_listed)

lemma sample_claim_steps:
  "email_step cfg (LWorker 0) (sample_system [sample_pending] (WHolding [sample_pending]) q)
     (sample_system [sample_claimed] (WDispatching sample_pending 0 []) q)"
  "email_step cfg (LWorker 1) (sample_system [sample_pending] p (WHolding [sample_pending]))
     (sample_system [sample_claimed] p (WDispatching sample_pending 0 []))"
  "email_step cfg (LWorker 1) (sample_system [sample_waiting_retry] p (WHolding [sample_pending]))
     (sample_system [sample_waiting_retry\<lparr>er_claimedAt := Some 0\<rparr>] p (WDispatching sample_pending 0 []))"
proof -
  have i: "er_id sample_pending = ''m''" by (simp add: sample_pending_def)
  show "email_step cfg (LWorker 0) (sample_system [sample_pending] (WHolding [sample_pending]) q)
     (sample_system [sample_claimed] (WDispatching sample_pending 0 []) q)"
    using email_step.claim[of "sample_system [sample_pending] (WHolding [sample_pending]) q" 0 sample_pending "[]" "[sample_claimed]" cfg]
    by (simp add: i sample_claims)
  show "email_step cfg (LWorker 1) (sample_system [sample_pending] p (WHolding [sample_pending]))
     (sample_system [sample_claimed] p (WDispatching sample_pending 0 []))"
    using email_step.claim[of "sample_system [sample_pending] p (WHolding [sample_pending])" 1 sample_pending "[]" "[sample_claimed]" cfg]
    by (simp add: i sample_claims)
  show "email_step cfg (LWorker 1) (sample_system [sample_waiting_retry] p (WHolding [sample_pending]))
     (sample_system [sample_waiting_retry\<lparr>er_claimedAt := Some 0\<rparr>] p (WDispatching sample_pending 0 []))"
    using email_step.claim[of "sample_system [sample_waiting_retry] p (WHolding [sample_pending])" 1 sample_pending "[]"
        "[sample_waiting_retry\<lparr>er_claimedAt := Some 0\<rparr>]" cfg]
    by (simp add: i sample_claims)
qed

lemma sample_admin_steps:
  "email_step cfg (LAdmin ARetry) (sample_system [sample_claimed] p q) (sample_system [sample_pending] p q)"
  "email_step cfg (LAdmin ACancel) (sample_system [sample_claimed] p q) (sample_system [sample_pending\<lparr>er_status := ECancelled\<rparr>] p q)"
proof -
  have "admin_apply ARetry ''m'' 0 [sample_claimed] = (Inr (), [sample_pending])"
    "admin_apply ACancel ''m'' 0 [sample_claimed] = (Inr (), [sample_pending\<lparr>er_status := ECancelled\<rparr>])"
    by (simp_all add: admin_apply_def em_findById_def planOutboxAdminAction_def markRetry_def markCancelled_def
        update_many_def sample_mail_defs)
  then show "email_step cfg (LAdmin ARetry) (sample_system [sample_claimed] p q) (sample_system [sample_pending] p q)"
    "email_step cfg (LAdmin ACancel) (sample_system [sample_claimed] p q) (sample_system [sample_pending\<lparr>er_status := ECancelled\<rparr>] p q)"
    using email_step.admin[of ARetry "''m''" "sample_system [sample_claimed] p q"]
      email_step.admin[of ACancel "''m''" "sample_system [sample_claimed] p q"] by simp_all
qed

lemma sample_finish_steps:
  "email_step DEFAULT_EMAIL_OUTBOX_RETRY (LWorker 0) (sample_system [sample_claimed] (WDispatching sample_pending 0 []) q)
     (sample_system [sample_waiting_retry] (WHolding []) q)"
  "\<exists>r. er_status r = ESent \<and> er_id r = ''m'' \<and>
     email_step cfg (LWorker 0) (sample_system [sample_pending\<lparr>er_status := ECancelled\<rparr>] (WDispatching sample_pending 0 []) q)
       (sample_system [r] (WHolding []) q)"
proof -
  have "finish_candidate DEFAULT_EMAIL_OUTBOX_RETRY sample_pending (failing_attempt 0 ''x'') [sample_claimed] =
      (Inr WasRetried, [sample_waiting_retry])"
    by (simp add: finish_candidate_def failing_attempt_def fail_candidate_def classifyErrorKind_def planEmailRetry_def
        DEFAULT_EMAIL_OUTBOX_RETRY_def recordTransientFailure_def update_many_def sample_mail_defs Let_def)
  then show "email_step DEFAULT_EMAIL_OUTBOX_RETRY (LWorker 0) (sample_system [sample_claimed] (WDispatching sample_pending 0 []) q)
     (sample_system [sample_waiting_retry] (WHolding []) q)"
    using email_step.finish[of "sample_system [sample_claimed] (WDispatching sample_pending 0 []) q" 0 sample_pending 0 "[]"
        "failing_attempt 0 ''x''" DEFAULT_EMAIL_OUTBOX_RETRY "Inr WasRetried" "[sample_waiting_retry]"]
    by (simp add: failing_attempt_def)
  let ?a = "(failing_attempt 0 [])\<lparr>ea_dispatch := None\<rparr>"
  let ?r = "sample_pending\<lparr>er_status := ESent, er_succeededAt := Some 0\<rparr>"
  have "finish_candidate cfg sample_pending ?a [sample_pending\<lparr>er_status := ECancelled\<rparr>] = (Inr WasSent, [?r])"
    by (simp add: finish_candidate_def failing_attempt_def markSent_def update_many_def sample_mail_defs)
  then show "\<exists>r. er_status r = ESent \<and> er_id r = ''m'' \<and>
     email_step cfg (LWorker 0) (sample_system [sample_pending\<lparr>er_status := ECancelled\<rparr>] (WDispatching sample_pending 0 []) q)
       (sample_system [r] (WHolding []) q)"
    using email_step.finish[of "sample_system [sample_pending\<lparr>er_status := ECancelled\<rparr>] (WDispatching sample_pending 0 []) q"
        0 sample_pending 0 "[]" ?a cfg "Inr WasSent" "[?r]"]
    by (intro exI[of _ ?r]) (simp add: failing_attempt_def sample_pending_def)
qed

lemma sample_dispatching:
  "email_reach cfg ok dispatch_timely (sample_system [sample_claimed] (WDispatching sample_pending 0 []) WIdle)"
  if "\<And>w. ok (LWorker w)" "ok LEnqueue"
proof -
  have "email_reach cfg ok dispatch_timely (sample_system [sample_pending] (WHolding [sample_pending]) WIdle)"
    by (rule email_reach.step[OF sample_enqueued[of ok, OF that(2)] sample_polls(1) that(1)]) (simp add: sample_timely)
  from email_reach.step[OF this sample_claim_steps(1) that(1)] show ?thesis by (simp add: sample_timely)
qed

text \<open>An operator's retry of a record in flight frees its claim: a second worker dispatches it too.\<close>

theorem retry_in_flight_sends_twice:
  "\<exists>s. email_reach DEFAULT_EMAIL_OUTBOX_RETRY (\<lambda>l. True) dispatch_timely s \<and> dispatching s 0 ''m'' 0 \<and> dispatching s 1 ''m'' 0"
proof -
  let ?R = "email_reach DEFAULT_EMAIL_OUTBOX_RETRY (\<lambda>l. True) dispatch_timely" and ?d = "WDispatching sample_pending 0 []"
  have "?R (sample_system [sample_pending] ?d WIdle)"
    by (rule email_reach.step[OF sample_dispatching sample_admin_steps(1)]) (simp_all add: sample_timely)
  from email_reach.step[OF this sample_polls(2)] have "?R (sample_system [sample_pending] ?d (WHolding [sample_pending]))"
    by (simp add: sample_timely)
  from email_reach.step[OF this sample_claim_steps(2)] have "?R (sample_system [sample_claimed] ?d ?d)"
    by (simp add: sample_timely)
  moreover have "dispatching (sample_system [sample_claimed] ?d ?d) 0 ''m'' 0" "dispatching (sample_system [sample_claimed] ?d ?d) 1 ''m'' 0"
    by (simp_all add: dispatching_def sample_pending_def)
  ultimately show ?thesis by blast
qed

text \<open>A claim does not look at the retry time: a worker with an older batch dispatches a record that has
  just been put back for a minute.\<close>

theorem backoff_bypassed_by_old_batch:
  "\<exists>s r n. email_reach DEFAULT_EMAIL_OUTBOX_RETRY (\<lambda>l. l \<noteq> LAdmin ARetry) dispatch_timely s \<and> dispatching s 1 ''m'' 0 \<and>
     r \<in> set (es_table s) \<and> er_id r = ''m'' \<and> er_nextAttemptAt r = Some n \<and> es_now s < n"
proof -
  let ?R = "email_reach DEFAULT_EMAIL_OUTBOX_RETRY (\<lambda>l. l \<noteq> LAdmin ARetry) dispatch_timely" and ?d = "WDispatching sample_pending 0 []"
  have "?R (sample_system [sample_pending] WIdle (WHolding [sample_pending]))"
    by (rule email_reach.step[OF sample_enqueued sample_polls(2)]) (simp_all add: sample_timely)
  from email_reach.step[OF this sample_polls(1)]
  have "?R (sample_system [sample_pending] (WHolding [sample_pending]) (WHolding [sample_pending]))" by (simp add: sample_timely)
  from email_reach.step[OF this sample_claim_steps(1)]
  have "?R (sample_system [sample_claimed] ?d (WHolding [sample_pending]))" by (simp add: sample_timely)
  from email_reach.step[OF this sample_finish_steps(1)]
  have "?R (sample_system [sample_waiting_retry] (WHolding []) (WHolding [sample_pending]))" by (simp add: sample_timely)
  from email_reach.step[OF this sample_claim_steps(3)]
  have "?R (sample_system [sample_waiting_retry\<lparr>er_claimedAt := Some 0\<rparr>] (WHolding []) ?d)" by (simp add: sample_timely)
  moreover let ?s = "sample_system [sample_waiting_retry\<lparr>er_claimedAt := Some 0\<rparr>] (WHolding []) ?d"
  have "dispatching ?s 1 ''m'' 0" by (simp add: dispatching_def sample_pending_def)
  ultimately show ?thesis
    by (intro exI[of _ ?s] exI[of _ "sample_waiting_retry\<lparr>er_claimedAt := Some 0\<rparr>"] exI[of _ 60000])
      (simp add: sample_waiting_retry_def sample_pending_def)
qed

text \<open>A record cancelled while it is being dispatched ends as sent.\<close>

theorem cancelled_record_becomes_sent:
  "\<exists>s s' r r'. email_reach cfg (\<lambda>l. l \<noteq> LAdmin ARetry) dispatch_timely s \<and> email_step cfg (LWorker 0) s s' \<and>
     es_table s = [r] \<and> er_status r = ECancelled \<and> es_table s' = [r'] \<and> er_id r' = er_id r \<and> er_status r' = ESent"
proof -
  let ?s = "sample_system [sample_pending\<lparr>er_status := ECancelled\<rparr>] (WDispatching sample_pending 0 []) WIdle"
  obtain r where r: "er_status r = ESent" "er_id r = ''m''" "email_step cfg (LWorker 0) ?s (sample_system [r] (WHolding []) WIdle)"
    using sample_finish_steps(2)[of cfg WIdle] by blast
  have "email_reach cfg (\<lambda>l. l \<noteq> LAdmin ARetry) dispatch_timely ?s"
    by (rule email_reach.step[OF sample_dispatching sample_admin_steps(2)]) (simp_all add: sample_timely)
  with r show ?thesis
    by (intro exI[of _ ?s] exI[of _ "sample_system [r] (WHolding []) WIdle"] exI[of _ "sample_pending\<lparr>er_status := ECancelled\<rparr>"]
        exI[of _ r]) (simp add: sample_pending_def)
qed

section \<open>Witnesses\<close>

theorem email_tick_effect_witness:
  "\<exists>res. email_runOnce DEFAULT_EMAIL_OUTBOX_RETRY 25 0 False (\<lambda>_. failing_attempt 0 ''x'') [sample_pending] =
     (Inr res, [sample_waiting_retry]) \<and> rr_sent res + rr_retry res + rr_deadLetter res = 1"
proof -
  have l: "listDispatchable 0 25 [sample_pending] = [sample_pending]" using sample_listed by (simp add: email_batchSize_def)
  have "after_attempt DEFAULT_EMAIL_OUTBOX_RETRY (failing_attempt 0 ''x'') sample_pending = sample_waiting_retry" by code_simp
  with email_tick_effect[of "[sample_pending]" 0 "\<lambda>_. failing_attempt 0 ''x''" DEFAULT_EMAIL_OUTBOX_RETRY 25] show ?thesis
    by (simp add: l) (simp add: failing_attempt_def storage_ok_def sample_pending_def)
qed

theorem email_retry_schedule_witness:
  "er_nextAttemptAt (after_attempt DEFAULT_EMAIL_OUTBOX_RETRY (failing_attempt 9 ''x'') sample_pending) = Some 60009"
  using email_retry_schedule[of sample_pending "[9]" 1 "''x''"] by (simp add: sample_pending_def Let_def)

theorem no_double_dispatch_witness:
  "\<exists>s. dispatching s 0 ''m'' 0 \<and> \<not> dispatching s 1 ''m'' 0"
proof -
  let ?s = "sample_system [sample_claimed] (WDispatching sample_pending 0 []) WIdle"
  have "email_reach DEFAULT_EMAIL_OUTBOX_RETRY (\<lambda>l. l \<noteq> LAdmin ARetry) dispatch_timely ?s" by (rule sample_dispatching) simp_all
  from no_double_dispatch[OF this] have "dispatching ?s 0 ''m'' 0 \<longrightarrow> \<not> dispatching ?s 1 ''m'' 0"
    by (metis zero_neq_one)
  moreover have "dispatching ?s 0 ''m'' 0" by (simp add: dispatching_def sample_pending_def)
  ultimately show ?thesis by blast
qed

theorem pending_records_under_cap_witness:
  "0 \<le> er_attemptCount sample_claimed \<and> er_attemptCount sample_claimed < 5"
  using pending_records_under_cap[OF sample_dispatching[of "\<lambda>_. True" DEFAULT_EMAIL_OUTBOX_RETRY], of sample_claimed]
  by (simp add: DEFAULT_EMAIL_OUTBOX_RETRY_def) (simp add: sample_claimed_def sample_pending_def)

end
