(* ===== verification/Email_Service.thy ===== *)
theory Email_Service
  imports Email_Outbox
begin

text \<open>
  The mail service (\<open>src/core/email/email.service.ts\<close>) with the gates in front of every send: the recipient
  blocklist (\<open>recipient-blocklist.ts\<close>), the development whitelist, the legacy rate-limit adapter and the
  sliding-window limiter (\<open>recipient-rate-limiter.ts\<close>), the locale fallback (\<open>locale-fallback.ts\<close>) and the
  choice of drivers (\<open>email.module.ts\<close>).

  The transports and the renderer are arguments; the messages handed to a transport are kept in the state,
  in order.  The legacy rate limiter is an interface without an implementation in the repository: its two
  operations are arguments.
\<close>

section \<open>Sliding-window limiter\<close>

record limiter_config =
  lc_limit :: int
  lc_windowMs :: millis
  lc_maxEntries :: nat

type_synonym limiter_records = "(string \<times> millis list) list"

definition lru_get :: "'k \<Rightarrow> ('k \<times> 'v) list \<Rightarrow> 'v option \<times> ('k \<times> 'v) list" where
  "lru_get key m = (case map_get m key of
     None \<Rightarrow> (None, m)
   | Some v \<Rightarrow> (Some v, map_set key v (map_delete key m)))"

definition lru_set :: "nat \<Rightarrow> 'k \<Rightarrow> 'v \<Rightarrow> ('k \<times> 'v) list \<Rightarrow> ('k \<times> 'v) list" where
  "lru_set maxEntries key v m =
     map_set key v (if map_get m key \<noteq> None then map_delete key m
                    else if length m \<ge> maxEntries then tl m else m)"

definition normalize_email :: "string \<Rightarrow> string" where
  "normalize_email email = toLowerCase (trim email)"

record limit_decision =
  ld_allowed :: bool
  ld_count :: int
  ld_retryAt :: millis

definition limiter_consume ::
  "limiter_config \<Rightarrow> string \<Rightarrow> millis \<Rightarrow> limiter_records \<Rightarrow> limit_decision \<times> limiter_records" where
  "limiter_consume cfg email now m =
     (if lc_limit cfg \<le> 0 then (\<lparr>ld_allowed = True, ld_count = 0, ld_retryAt = 0\<rparr>, m)
      else
        let key = normalize_email email;
            cutoff = now - lc_windowMs cfg;
            (existing, m1) = lru_get key m;
            fresh = filter (\<lambda>t. t > cutoff) (nullish existing [])
        in if int (length fresh) \<ge> lc_limit cfg
           then (\<lparr>ld_allowed = False, ld_count = int (length fresh),
                   ld_retryAt = (case fresh of [] \<Rightarrow> now | oldest # _ \<Rightarrow> oldest) + lc_windowMs cfg\<rparr>,
                 lru_set (lc_maxEntries cfg) key fresh m1)
           else (\<lparr>ld_allowed = True, ld_count = int (length fresh) + 1, ld_retryAt = 0\<rparr>,
                 lru_set (lc_maxEntries cfg) key (fresh @ [now]) m1))"

definition limiter_status ::
  "limiter_config \<Rightarrow> string \<Rightarrow> millis \<Rightarrow> limiter_records \<Rightarrow> (int \<times> bool) \<times> limiter_records" where
  "limiter_status cfg email now m =
     (if lc_limit cfg \<le> 0 then ((0, True), m)
      else let (existing, m1) = lru_get (normalize_email email) m;
               fresh = filter (\<lambda>t. t > now - lc_windowMs cfg) (nullish existing [])
           in ((int (length fresh), int (length fresh) < lc_limit cfg), m1))"

section \<open>Blocklist and whitelist\<close>

record blocklist_entry =
  be_pattern :: string
  be_reason :: string

definition at_index :: "string \<Rightarrow> nat" where
  "at_index s = length (takeWhile (\<lambda>c. c \<noteq> CHR ''@'') s)"

definition canonicalAddress :: "string \<Rightarrow> string" where
  "canonicalAddress address =
     (let lower = trim (toLowerCase address)
      in if CHR ''@'' \<notin> set lower then lower
         else
           let local = take (at_index lower) lower; domain = drop (at_index lower) lower
           in takeWhile (\<lambda>c. c \<noteq> CHR ''+'') local @ domain)"

text \<open>\<open>Some reason\<close> is \<open>{ blocked: true, reason }\<close>.\<close>

fun blocklist_scan :: "string \<Rightarrow> string \<Rightarrow> blocklist_entry list \<Rightarrow> string option" where
  "blocklist_scan canonical domain [] = None"
| "blocklist_scan canonical domain (entry # rest) =
     (let pattern = trim (toLowerCase (be_pattern entry))
      in if startsWith pattern ''@'' then
           (if domain = pattern then Some (be_reason entry) else blocklist_scan canonical domain rest)
         else if canonical = canonicalAddress pattern then Some (be_reason entry)
         else blocklist_scan canonical domain rest)"

definition checkRecipientBlocklist :: "string \<Rightarrow> blocklist_entry list \<Rightarrow> string option" where
  "checkRecipientBlocklist recipient blocklist =
     (let address = trim (toLowerCase recipient)
      in if CHR ''@'' \<notin> set address then Some ''malformed-address''
         else blocklist_scan (canonicalAddress address) (drop (at_index address) address) blocklist)"

text \<open>A \<open>*\<close> of a whitelist pattern becomes \<open>.*\<close>, which stops at a line terminator; every other character
  stands for itself.\<close>

fun glob :: "string \<Rightarrow> string \<Rightarrow> bool" where
  "glob [] s = (s = [])"
| "glob (p # ps) s =
     (if p = CHR ''*'' then
        glob ps s \<or> (case s of [] \<Rightarrow> False | c # cs \<Rightarrow> c \<notin> {CHR 0x0A, CHR 0x0D} \<and> glob (p # ps) cs)
      else (case s of [] \<Rightarrow> False | c # cs \<Rightarrow> c = p \<and> glob ps cs))"

definition matchesPattern :: "string \<Rightarrow> string \<Rightarrow> bool" where
  "matchesPattern recipient pattern =
     (if pattern = recipient then True
      else if CHR ''*'' \<notin> set pattern then False
      else glob pattern recipient)"

section \<open>Locale fallback\<close>

definition normaliseLocale :: "string \<Rightarrow> string" where
  "normaliseLocale locale =
     (case split_on CHR ''-'' locale of
        [lang] \<Rightarrow> toLowerCase lang
      | lang # region # rest \<Rightarrow> join ''-'' (toLowerCase lang # toUpperCase region # rest)
      | [] \<Rightarrow> [])"

definition languageRoot :: "string \<Rightarrow> string" where
  "languageRoot locale = takeWhile (\<lambda>c. c \<noteq> CHR ''-'') locale"

definition push_locale :: "string \<Rightarrow> string list \<Rightarrow> string list" where
  "push_locale candidate chain = (if candidate \<in> set chain then chain else chain @ [candidate])"

definition resolveLocaleFallbackChain :: "string option \<Rightarrow> string \<Rightarrow> string list \<Rightarrow> string list" where
  "resolveLocaleFallbackChain userLocale defaultLocale availableLocales =
     (let available = map normaliseLocale availableLocales;
          trimmedUser = trim (nullish userLocale []);
          chain = (if trimmedUser \<noteq> [] then
              let userNormalised = normaliseLocale trimmedUser;
                  chain1 = (if userNormalised \<in> set available then push_locale userNormalised [] else []);
                  root = languageRoot userNormalised
              in if root \<noteq> userNormalised \<and> root \<in> set available then push_locale root chain1 else chain1
            else [])
      in push_locale defaultLocale chain)"

section \<open>Service\<close>

datatype mail_error =
    RecipientBlocked string
  | RecipientNotAllowed
  | RateLimited
  | RecipientRateLimited millis
  | TransactionalDriverMissing
  | OutboxNotConfigured
  | OutboxFault email_fault
  | DriverError thrown
  | RenderError thrown

datatype dispatch_mode = Direct | Outbox

record dispatch_options =
  do_mode :: dispatch_mode
  do_idempotencyKey :: "string option"

record 'l legacy_limiter =
  ll_check :: "string \<Rightarrow> 'l \<Rightarrow> bool"
  ll_record :: "string \<Rightarrow> 'l \<Rightarrow> 'l"

record 'l mail_options =
  mo_primary :: mail_transport
  mo_transactional :: "mail_transport option"
  mo_renderer :: template_renderer
  mo_defaultFrom :: string
  mo_devWhitelist :: "string list"
  mo_rateLimit :: "'l legacy_limiter option"
  mo_blocklist :: "blocklist_entry list"
  mo_recipientRateLimiter :: "limiter_config option"
  mo_defaultLocale :: "string option"
  mo_availableLocales :: "(string \<times> string list) list option"
  mo_outbox :: bool

record 'l mail_state =
  ml_records :: limiter_records
  ml_legacy :: 'l
  ml_outbox :: email_table
  ml_wire :: "email_message list"

definition assertNotBlocked :: "'l mail_options \<Rightarrow> string \<Rightarrow> mail_error option" where
  "assertNotBlocked opts recipient =
     (if mo_blocklist opts = [] then None
      else map_option RecipientBlocked (checkRecipientBlocklist recipient (mo_blocklist opts)))"

definition assertAllowed :: "'l mail_options \<Rightarrow> string \<Rightarrow> mail_error option" where
  "assertAllowed opts recipient =
     (if mo_devWhitelist opts = [] then None
      else if list_ex (matchesPattern recipient) (mo_devWhitelist opts) then None
      else Some RecipientNotAllowed)"

definition assertWithinRateLimit :: "'l mail_options \<Rightarrow> string \<Rightarrow> 'l mail_state \<Rightarrow> mail_error option" where
  "assertWithinRateLimit opts recipient s =
     (case mo_rateLimit opts of
        None \<Rightarrow> None
      | Some l \<Rightarrow> if ll_check l recipient (ml_legacy s) then None else Some RateLimited)"

definition assertWithinRecipientRateLimit ::
  "'l mail_options \<Rightarrow> string \<Rightarrow> millis \<Rightarrow> 'l mail_state \<Rightarrow> mail_error option \<times> 'l mail_state" where
  "assertWithinRecipientRateLimit opts recipient now s =
     (case mo_recipientRateLimiter opts of
        None \<Rightarrow> (None, s)
      | Some cfg \<Rightarrow>
          let (decision, m) = limiter_consume cfg recipient now (ml_records s); s' = s\<lparr>ml_records := m\<rparr>
          in if ld_allowed decision then (None, s') else (Some (RecipientRateLimited (ld_retryAt decision)), s'))"

text \<open>The four gates, in the order of \<open>send\<close> and \<open>sendTemplate\<close>.\<close>

definition mail_gates :: "'l mail_options \<Rightarrow> string \<Rightarrow> millis \<Rightarrow> 'l mail_state \<Rightarrow> mail_error option \<times> 'l mail_state" where
  "mail_gates opts recipient now s =
     (case assertNotBlocked opts recipient of Some e \<Rightarrow> (Some e, s) | None \<Rightarrow>
      case assertAllowed opts recipient of Some e \<Rightarrow> (Some e, s) | None \<Rightarrow>
      case assertWithinRateLimit opts recipient s of Some e \<Rightarrow> (Some e, s) | None \<Rightarrow>
      assertWithinRecipientRateLimit opts recipient now s)"

definition legacy_record :: "'l mail_options \<Rightarrow> string \<Rightarrow> 'l mail_state \<Rightarrow> 'l mail_state" where
  "legacy_record opts recipient s = (case mo_rateLimit opts of None \<Rightarrow> s
     | Some l \<Rightarrow> s\<lparr>ml_legacy := ll_record l recipient (ml_legacy s)\<rparr>)"

definition enqueueViaOutbox ::
  "'l mail_options \<Rightarrow> string \<Rightarrow> millis \<Rightarrow> email_payload \<Rightarrow> string option \<Rightarrow> 'l mail_state
    \<Rightarrow> (mail_error + send_result) \<times> 'l mail_state" where
  "enqueueViaOutbox opts uuid now payload idempotencyKey s =
     (if \<not> mo_outbox opts then (Inl OutboxNotConfigured, s)
      else case email_enqueue uuid now \<lparr>eq_payload = payload,
             eq_idempotencyKey = (if truthy_opt idempotencyKey then idempotencyKey else None)\<rparr> (ml_outbox s) of
        (Inl e, t) \<Rightarrow> (Inl (OutboxFault e), s\<lparr>ml_outbox := t\<rparr>)
      | (Inr r, t) \<Rightarrow> (Inr \<lparr>sr_messageId = ''outbox:'' @ er_id r, sr_driver = ''outbox''\<rparr>, s\<lparr>ml_outbox := t\<rparr>))"

definition composeMessage :: "'l mail_options \<Rightarrow> send_options \<Rightarrow> email_message" where
  "composeMessage opts o' = \<lparr>ms_to = so_to o', ms_from = nullish (so_from o') (mo_defaultFrom opts),
     ms_subject = so_subject o', ms_html = so_html o', ms_text = so_text o'\<rparr>"

definition transmit :: "email_message \<Rightarrow> thrown + send_result \<Rightarrow> 'l mail_state \<Rightarrow> (mail_error + send_result) \<times> 'l mail_state" where
  "transmit msg answer s = (case answer of Inl e \<Rightarrow> Inl (DriverError e) | Inr r \<Rightarrow> Inr r, s\<lparr>ml_wire := ml_wire s @ [msg]\<rparr>)"

text \<open>A successful send is recorded with the legacy limiter.\<close>

definition recorded :: "'l mail_options \<Rightarrow> string \<Rightarrow> (mail_error + send_result) \<times> 'l mail_state \<Rightarrow> (mail_error + send_result) \<times> 'l mail_state" where
  "recorded opts recipient rs = (case rs of
     (Inl e, s) \<Rightarrow> (Inl e, s)
   | (Inr r, s) \<Rightarrow> (Inr r, legacy_record opts recipient s))"

definition mail_send ::
  "'l mail_options \<Rightarrow> string \<Rightarrow> millis \<Rightarrow> send_options \<Rightarrow> dispatch_options option \<Rightarrow> 'l mail_state
    \<Rightarrow> (mail_error + send_result) \<times> 'l mail_state" where
  "mail_send opts uuid now o' dispatch s0 =
     (case mail_gates opts (so_to o') now s0 of
        (Some e, s) \<Rightarrow> (Inl e, s)
      | (None, s) \<Rightarrow>
          if (case dispatch of Some d \<Rightarrow> do_mode d = Outbox | None \<Rightarrow> False)
          then recorded opts (so_to o') (enqueueViaOutbox opts uuid now (Send o') (do_idempotencyKey (the dispatch)) s)
          else let message = composeMessage opts o'
               in recorded opts (so_to o') (transmit message (mt_send (mo_primary opts) message) s))"

fun render_chain :: "template_renderer \<Rightarrow> string \<Rightarrow> json \<Rightarrow> string list \<Rightarrow> thrown option \<Rightarrow> thrown + rendered_template" where
  "render_chain render template vars [] lastError =
     Inl (nullish lastError \<lparr>th_kind = None, th_message = ''unrenderable''\<rparr>)"
| "render_chain render template vars (locale # rest) lastError =
     (case render template locale vars of Inr r \<Rightarrow> Inr r | Inl e \<Rightarrow> render_chain render template vars rest (Some e))"

definition renderTemplateWithFallback :: "'l mail_options \<Rightarrow> template_options \<Rightarrow> json \<Rightarrow> thrown + rendered_template" where
  "renderTemplateWithFallback opts o' vars =
     (let defaultLocale = nullish (mo_defaultLocale opts) ''en'';
          availableForTemplate = (case mo_availableLocales opts of None \<Rightarrow> None | Some m \<Rightarrow> map_get m (tp_template o'))
      in case (tp_userLocale o', availableForTemplate) of
           (Some userLocale, Some available) \<Rightarrow>
             render_chain (mo_renderer opts) (tp_template o') vars
               (resolveLocaleFallbackChain (Some userLocale) defaultLocale available) None
         | _ \<Rightarrow> mo_renderer opts (tp_template o')
                 (nullish (tp_locale o') (nullish (tp_userLocale o') defaultLocale)) vars)"

definition mail_sendTemplate ::
  "'l mail_options \<Rightarrow> string \<Rightarrow> millis \<Rightarrow> template_options \<Rightarrow> dispatch_options option \<Rightarrow> 'l mail_state
    \<Rightarrow> (mail_error + send_result) \<times> 'l mail_state" where
  "mail_sendTemplate opts uuid now o' dispatch s0 =
     (case mail_gates opts (tp_to o') now s0 of
        (Some e, s) \<Rightarrow> (Inl e, s)
      | (None, s) \<Rightarrow>
          if (case dispatch of Some d \<Rightarrow> do_mode d = Outbox | None \<Rightarrow> False)
          then recorded opts (tp_to o') (enqueueViaOutbox opts uuid now (SendTemplate o') (do_idempotencyKey (the dispatch)) s)
          else
            let vars = nullish (tp_vars o') (JObj []); from = nullish (tp_from o') (mo_defaultFrom opts)
            in case tp_brevoTemplateId o' of
                 Some templateId \<Rightarrow>
                   (case mo_transactional opts of
                      None \<Rightarrow> (Inl TransactionalDriverMissing, s)
                    | Some driver \<Rightarrow>
                        let base = \<lparr>ms_to = tp_to o', ms_from = from, ms_subject = [], ms_html = None, ms_text = None\<rparr>
                        in recorded opts (tp_to o') (transmit base (mt_sendTemplate driver base templateId vars) s))
               | None \<Rightarrow>
                   (case renderTemplateWithFallback opts o' vars of
                      Inl e \<Rightarrow> (Inl (RenderError e), s)
                    | Inr r \<Rightarrow>
                        let message = \<lparr>ms_to = tp_to o', ms_from = from, ms_subject = rd_subject r,
                              ms_html = Some (rd_html r), ms_text = Some (rd_text r)\<rparr>
                        in recorded opts (tp_to o') (transmit message (mt_send (mo_primary opts) message) s)))"

section \<open>Driver selection\<close>

datatype driver_name = LogOnly | Smtp | Brevo

record driver_selection =
  sl_primary :: driver_name
  sl_transactional :: "driver_name option"

definition selectEmailDriver :: "bool \<Rightarrow> driver_name \<Rightarrow> string option \<Rightarrow> string option \<Rightarrow> driver_selection" where
  "selectEmailDriver enabled provider brevoKey smtpHost =
     (if \<not> enabled then \<lparr>sl_primary = LogOnly, sl_transactional = None\<rparr>
      else
        let hasBrevo = (trimmed brevoKey \<noteq> None); hasSmtpHost = (trimmed smtpHost \<noteq> None)
        in if provider = Brevo then
             (if hasBrevo then \<lparr>sl_primary = Brevo, sl_transactional = Some Brevo\<rparr>
              else if hasSmtpHost then \<lparr>sl_primary = Smtp, sl_transactional = None\<rparr>
              else \<lparr>sl_primary = LogOnly, sl_transactional = None\<rparr>)
           else if \<not> hasSmtpHost then \<lparr>sl_primary = LogOnly, sl_transactional = None\<rparr>
           else \<lparr>sl_primary = Smtp, sl_transactional = (if hasBrevo then Some Brevo else None)\<rparr>)"

end
