(* ===== verification/Email_Gates.thy ===== *)
theory Email_Gates
  imports Email_Service
begin

text \<open>
  What the gates of the mail service guarantee: the sliding window bounds what a recipient gets, mail
  leaves only past every gate, sub-addresses do not evade the blocklist, and mail queued in the outbox is
  the mail a direct call would have sent.
\<close>

section \<open>The sliding window\<close>

fun limiter_run :: "limiter_config \<Rightarrow> (string \<times> millis) list \<Rightarrow> limiter_records \<Rightarrow> (string \<times> millis \<times> bool) list" where
  "limiter_run cfg [] m = []"
| "limiter_run cfg ((email, now) # es) m =
     (case limiter_consume cfg email now m of (d, m') \<Rightarrow>
        (normalize_email email, now, ld_allowed d) # limiter_run cfg es m')"

definition passed_times :: "string \<Rightarrow> (string \<times> millis \<times> bool) list \<Rightarrow> millis list" where
  "passed_times k h = map (\<lambda>(k, t, ok). t) (filter (\<lambda>(k', t, ok). k' = k \<and> ok) h)"

definition window_count :: "millis \<Rightarrow> millis \<Rightarrow> millis list \<Rightarrow> nat" where
  "window_count w u ts = length (filter (\<lambda>t. u - w < t \<and> t \<le> u) ts)"

lemma passed_times_append: "passed_times k (h @ h') = passed_times k h @ passed_times k h'"
  by (simp add: passed_times_def)

definition limiter_inv ::
  "limiter_config \<Rightarrow> string set \<Rightarrow> millis \<Rightarrow> (string \<times> millis \<times> bool) list \<Rightarrow> limiter_records \<Rightarrow> bool" where
  "limiter_inv cfg K now h m \<longleftrightarrow> distinct (map fst m) \<and> fst ` set m \<subseteq> K \<and>
     (\<forall>k. filter (\<lambda>t. now - lc_windowMs cfg < t) (nullish (map_get m k) []) =
           filter (\<lambda>t. now - lc_windowMs cfg < t) (passed_times k h) \<and>
         (\<forall>t\<in>set (passed_times k h). t \<le> now) \<and>
         (\<forall>u. int (window_count (lc_windowMs cfg) u (passed_times k h)) \<le> lc_limit cfg))"

lemma keys_map_delete: "fst ` set (map_delete k m) = fst ` set m - {k}"
  by (auto simp: map_delete_def image_iff split_def)

lemma lru_get_facts:
  assumes "lru_get k m = (v, m')" "distinct (map fst m)"
  shows "v = map_get m k" "map_get m' = map_get m" "distinct (map fst m')" "fst ` set m' = fst ` set m"
proof -
  have mem: "k \<in> fst ` set m" if "map_get m k = Some x" for x
    using that by (metis fst_conv image_iff map_of_SomeD)
  show "v = map_get m k" "map_get m' = map_get m"
    using assms by (auto simp: lru_get_def fun_eq_iff map_get_set map_get_delete split: option.splits)
  show "distinct (map fst m')"
    using assms by (auto simp: lru_get_def distinct_map_set distinct_map_delete split: option.splits)
  show "fst ` set m' = fst ` set m"
  proof (cases "map_get m k")
    case (Some x)
    then have "m' = map_set k x (map_delete k m)" using assms(1) by (simp add: lru_get_def)
    then have "fst ` set m' = insert k (fst ` set m - {k})" by (simp only: dom_map_set keys_map_delete)
    then show ?thesis using mem [OF Some] by blast
  qed (use assms in \<open>simp add: lru_get_def\<close>)
qed

lemma lru_set_facts:
  assumes m: "distinct (map fst m)" "fst ` set m \<subseteq> K" "k \<in> K" "finite K" "card K \<le> maxEntries"
  shows "map_get (lru_set maxEntries k v m) = (map_get m)(k \<mapsto> v)"
    "distinct (map fst (lru_set maxEntries k v m))" "fst ` set (lru_set maxEntries k v m) \<subseteq> K"
proof -
  have room: "length m < maxEntries" if "map_get m k = None"
  proof -
    have "k \<notin> fst ` set m" using that by (simp add: map_of_eq_None_iff)
    then have "fst ` set m \<subset> K" using m by blast
    then have "card (fst ` set m) < card K" using m(4) by (simp add: psubset_card_mono)
    then show ?thesis using m(1,5) distinct_card [of "map fst m"] by simp
  qed
  define m2 where "m2 = (if map_get m k = None then m else map_delete k m)"
  have set: "lru_set maxEntries k v m = map_set k v m2"
    using room by (cases "map_get m k") (simp_all add: lru_set_def m2_def)
  have m2: "distinct (map fst m2)" "fst ` set m2 \<subseteq> K" "k' \<noteq> k \<Longrightarrow> map_get m2 k' = map_get m k'" for k'
    using m by (auto simp: m2_def map_get_delete distinct_map_delete keys_map_delete)
  show "map_get (lru_set maxEntries k v m) = (map_get m)(k \<mapsto> v)"
    using m2(3) by (simp add: set fun_eq_iff map_get_set)
  show "distinct (map fst (lru_set maxEntries k v m))" "fst ` set (lru_set maxEntries k v m) \<subseteq> K"
    using m2 m(3) by (simp_all add: set distinct_map_set dom_map_set)
qed


lemma filter_later: "now \<le> (now' :: millis) \<Longrightarrow> filter (\<lambda>t. now' - w < t) xs = filter (\<lambda>t. now' - w < t) (filter (\<lambda>t. now - w < t) xs)"
  by (simp, rule filter_cong) auto

lemma window_count_fresh:
  assumes "\<forall>t\<in>set ts. t \<le> now" "int (length (filter (\<lambda>t. now - w < t) ts)) < lim" "\<And>u. int (window_count w u ts) \<le> lim"
  shows "int (window_count w u (ts @ [now])) \<le> lim"
proof (cases "u - w < now \<and> now \<le> u")
  case True
  have sub: "filter (\<lambda>t. u - w < t \<and> t \<le> u) ts = filter (\<lambda>t. u - w < t \<and> t \<le> u) (filter (\<lambda>t. now - w < t) ts)"
    using True by (auto intro!: filter_cong)
  have "window_count w u ts \<le> length (filter (\<lambda>t. now - w < t) ts)"
    unfolding window_count_def by (subst sub, rule length_filter_le)
  then show ?thesis using assms(2) True by (simp add: window_count_def)
next
  case False
  then show ?thesis using assms(3) [of u] by (auto simp: window_count_def)
qed

lemma limiter_consume_cases:
  assumes inv: "limiter_inv cfg K now h m" and le: "now \<le> now'" and lim: "0 < lc_limit cfg"
    and K: "normalize_email email \<in> K" "finite K" "card K \<le> lc_maxEntries cfg"
    and c: "limiter_consume cfg email now' m = (d, m')"
    and fresh: "fresh = filter (\<lambda>t. now' - lc_windowMs cfg < t) (passed_times (normalize_email email) h)"
  shows "ld_allowed d \<longleftrightarrow> int (length fresh) < lc_limit cfg"
    "map_get m' = (map_get m)(normalize_email email \<mapsto> fresh @ (if ld_allowed d then [now'] else []))"
    "distinct (map fst m')" "fst ` set m' \<subseteq> K"
proof -
  let ?k = "normalize_email email"
  obtain existing m1 where get: "lru_get ?k m = (existing, m1)" by fastforce
  have m: "distinct (map fst m)" "fst ` set m \<subseteq> K"
    "filter (\<lambda>t. now - lc_windowMs cfg < t) (nullish (map_get m ?k) []) = filter (\<lambda>t. now - lc_windowMs cfg < t) (passed_times ?k h)"
    using inv by (simp_all add: limiter_inv_def)
  note g = lru_get_facts [OF get m(1)]
  have m1: "distinct (map fst m1)" "fst ` set m1 \<subseteq> K" using g(3,4) m(2) by simp_all
  note s = lru_set_facts [OF m1 K]
  have f: "filter (\<lambda>t. now' - lc_windowMs cfg < t) (nullish existing []) = fresh"
    using filter_later [OF le, of "lc_windowMs cfg"] m(3) g(1) fresh by metis
  have c': "(d, m') = (if int (length fresh) \<ge> lc_limit cfg
       then (\<lparr>ld_allowed = False, ld_count = int (length fresh),
               ld_retryAt = (case fresh of [] \<Rightarrow> now' | oldest # _ \<Rightarrow> oldest) + lc_windowMs cfg\<rparr>,
             lru_set (lc_maxEntries cfg) ?k fresh m1)
       else (\<lparr>ld_allowed = True, ld_count = int (length fresh) + 1, ld_retryAt = 0\<rparr>,
             lru_set (lc_maxEntries cfg) ?k (fresh @ [now']) m1))"
    using c lim unfolding limiter_consume_def Let_def get prod.case f by (simp split: if_splits)
  show "ld_allowed d \<longleftrightarrow> int (length fresh) < lc_limit cfg"
    "map_get m' = (map_get m)(?k \<mapsto> fresh @ (if ld_allowed d then [now'] else []))"
    using c' by (simp_all add: s(1) g(2) fun_eq_iff split: if_splits)
  show "distinct (map fst m')" "fst ` set m' \<subseteq> K"
    using c' s(2,3) by (simp_all split: if_splits)
qed

lemma limiter_inv_step:
  assumes inv: "limiter_inv cfg K now h m" and le: "now \<le> now'" and lim: "0 < lc_limit cfg"
    and K: "normalize_email email \<in> K" "finite K" "card K \<le> lc_maxEntries cfg"
    and c: "limiter_consume cfg email now' m = (d, m')"
  shows "limiter_inv cfg K now' (h @ [(normalize_email email, now', ld_allowed d)]) m'"
proof -
  let ?k = "normalize_email email" and ?w = "lc_windowMs cfg"
  define fresh where "fresh = filter (\<lambda>t. now' - ?w < t) (passed_times ?k h)"
  note r = limiter_consume_cases [OF inv le lim K c fresh_def]
  have old: "filter (\<lambda>t. now' - ?w < t) (nullish (map_get m k) []) = filter (\<lambda>t. now' - ?w < t) (passed_times k h)"
    and before: "\<forall>t\<in>set (passed_times k h). t \<le> now'"
    and bound: "int (window_count ?w u (passed_times k h)) \<le> lc_limit cfg" for k u
  proof -
    have i: "filter (\<lambda>t. now - ?w < t) (nullish (map_get m k) []) = filter (\<lambda>t. now - ?w < t) (passed_times k h)"
      "\<forall>t\<in>set (passed_times k h). t \<le> now" "int (window_count ?w u (passed_times k h)) \<le> lc_limit cfg"
      using inv by (simp_all add: limiter_inv_def)
    show "filter (\<lambda>t. now' - ?w < t) (nullish (map_get m k) []) = filter (\<lambda>t. now' - ?w < t) (passed_times k h)"
      using filter_later [OF le, of ?w] i(1) by metis
    show "\<forall>t\<in>set (passed_times k h). t \<le> now'" using i(2) le by fastforce
    show "int (window_count ?w u (passed_times k h)) \<le> lc_limit cfg" by (rule i(3))
  qed
  have new: "passed_times k (h @ [(?k, now', ld_allowed d)]) =
      passed_times k h @ (if k = ?k \<and> ld_allowed d then [now'] else [])" for k
    by (simp add: passed_times_def)
  have "int (window_count ?w u (passed_times k (h @ [(?k, now', ld_allowed d)]))) \<le> lc_limit cfg" for k u
  proof (cases "k = ?k \<and> ld_allowed d")
    case True
    then have "int (length (filter (\<lambda>t. now' - ?w < t) (passed_times k h))) < lc_limit cfg"
      using r(1) by (simp add: fresh_def)
    from window_count_fresh [OF before this bound] show ?thesis using True by (subst new) simp
  next
    case False
    then show ?thesis using bound [of u k] by (subst new) auto
  qed
  moreover have "filter (\<lambda>t. now' - ?w < t) (nullish (map_get m' k) []) =
      filter (\<lambda>t. now' - ?w < t) (passed_times k (h @ [(?k, now', ld_allowed d)]))" for k
    using old [of k] by (auto simp: r(2) new fresh_def nullish_def)
  ultimately show ?thesis
    using r(3,4) before by (auto simp: limiter_inv_def new)
qed

lemma limiter_inv_run:
  assumes "limiter_inv cfg K now h m" "sorted (now # map snd es)" "0 < lc_limit cfg"
    "(normalize_email \<circ> fst) ` set es \<subseteq> K" "finite K" "card K \<le> lc_maxEntries cfg"
  shows "\<exists>now' m'. limiter_inv cfg K now' (h @ limiter_run cfg es m) m'"
  using assms
proof (induction es arbitrary: now h m)
  case (Cons e es)
  obtain email now' where e: "e = (email, now')" by fastforce
  obtain d m' where c: "limiter_consume cfg email now' m = (d, m')" by fastforce
  have "limiter_inv cfg K now' (h @ [(normalize_email email, now', ld_allowed d)]) m'"
    using limiter_inv_step [OF Cons.prems(1) _ Cons.prems(3) _ Cons.prems(5,6) c] Cons.prems(2,4) e by simp
  from Cons.IH [OF this _ Cons.prems(3) _ Cons.prems(5,6)] show ?case
    using Cons.prems(2,4) c e by simp
qed auto

text \<open>C35: While no more recipients are mailed than the limiter tracks, no window of \<open>windowMs\<close> contains more
  than \<open>limit\<close> sends the limiter let through to one recipient, wherever the window is placed and however the
  address is cased or padded.\<close>

theorem limiter_window_bound:
  assumes "sorted (map snd es)" "0 < lc_limit cfg"
    "card ((normalize_email \<circ> fst) ` set es) \<le> lc_maxEntries cfg"
  shows "int (window_count (lc_windowMs cfg) u (passed_times k (limiter_run cfg es []))) \<le> lc_limit cfg"
proof (cases es)
  case (Cons e es')
  let ?K = "(normalize_email \<circ> fst) ` set es"
  have "limiter_inv cfg ?K (snd e) [] []"
    using assms(2) by (simp add: limiter_inv_def passed_times_def window_count_def nullish_def)
  from limiter_inv_run [OF this, of es] show ?thesis
    using assms Cons by (auto simp: limiter_inv_def)
qed (use assms in \<open>simp add: passed_times_def window_count_def\<close>)

theorem limiter_window_bound_witness:
  "let cfg = \<lparr>lc_limit = 2, lc_windowMs = 100, lc_maxEntries = 5\<rparr>;
       es = [(''Ada@x.io'', 0), ('' ada@x.io'', 10), (''ada@x.io'', 99), (''ada@x.io'', 105)]
   in map (snd \<circ> snd) (limiter_run cfg es []) = [True, True, False, True]
      \<and> int (window_count 100 105 (passed_times ''ada@x.io'' (limiter_run cfg es []))) \<le> 2"
  using limiter_window_bound [of "[(''Ada@x.io'', 0), ('' ada@x.io'', 10), (''ada@x.io'', 99), (''ada@x.io'', 105)]"
      "\<lparr>lc_limit = 2, lc_windowMs = 100, lc_maxEntries = 5\<rparr>" 105 "''ada@x.io''"]
  by code_simp

section \<open>Sub-addresses\<close>

lemma trim_around: "\<not> is_space c \<Longrightarrow> trim (a @ c # b) = dropWhile is_space a @ c # rev (dropWhile is_space (rev b))"
  by (cases "\<forall>x\<in>set a. is_space x") (auto simp: trim_def dropWhile_append1 dropWhile_append2 dropWhile_append3)

lemma toLower_char_low: "(of_char c' :: nat) < 65 \<Longrightarrow> toLower_char c = c' \<longleftrightarrow> c = c'"
  by (auto simp: toLower_char_def Let_def dest!: arg_cong [of _ _ "of_char :: char \<Rightarrow> nat"] split: if_splits)

lemma toLower_char_special [simp]: "toLower_char c = CHR ''@'' \<longleftrightarrow> c = CHR ''@''" "toLower_char c = CHR ''+'' \<longleftrightarrow> c = CHR ''+''"
  by (simp_all add: toLower_char_low)

lemma toLower_char_at [simp]: "toLower_char CHR ''@'' = CHR ''@''" "toLower_char CHR ''+'' = CHR ''+''"
  by simp_all

lemma at_in_lower [simp]: "CHR ''@'' \<in> set (toLowerCase s) \<longleftrightarrow> CHR ''@'' \<in> set s"
proof (induction s)
  case (Cons c s)
  have "CHR ''@'' = toLower_char c \<longleftrightarrow> CHR ''@'' = c" using toLower_char_special(1) by metis
  then show ?case using Cons by (simp only: toLowerCase_def list.map list.set insert_iff)
qed (simp add: toLowerCase_def)

lemma not_space_at [simp]: "\<not> is_space CHR ''@''" "\<not> is_space CHR ''+''"
  by (simp_all add: is_space_def)

text \<open>The address as the blocklist sees it: lower-cased, trimmed, cut at the first \<open>@\<close>.\<close>

lemma trimmed_address:
  assumes "CHR ''@'' \<notin> set l"
  shows "trim (toLowerCase (l @ CHR ''@'' # d)) =
      dropWhile is_space (toLowerCase l) @ CHR ''@'' # rev (dropWhile is_space (rev (toLowerCase d)))"
  by (simp add: toLowerCase_def trim_around)

lemma at_index_split:
  assumes "CHR ''@'' \<notin> set l"
  shows "at_index (dropWhile is_space (toLowerCase l) @ CHR ''@'' # d) = length (dropWhile is_space (toLowerCase l))"
proof -
  have "\<forall>c\<in>set (dropWhile is_space (toLowerCase l)). c \<noteq> CHR ''@''"
    using assms by (metis at_in_lower set_dropWhileD)
  then show ?thesis by (simp add: at_index_def takeWhile_append2)
qed

lemma canonicalAddress_split:
  assumes "CHR ''@'' \<notin> set l"
  shows "canonicalAddress (l @ CHR ''@'' # d) = takeWhile (\<lambda>c. c \<noteq> CHR ''+'') (dropWhile is_space (toLowerCase l))
      @ CHR ''@'' # rev (dropWhile is_space (rev (toLowerCase d)))"
  by (simp add: canonicalAddress_def trimmed_address [OF assms] at_index_split [OF assms])

lemma takeWhile_cut: "takeWhile (\<lambda>c. c \<noteq> x) (a @ x # b) = takeWhile (\<lambda>c. c \<noteq> x) a"
  by (induction a) auto

lemma local_part_cut:
  "takeWhile (\<lambda>c. c \<noteq> CHR ''+'') (dropWhile is_space (toLowerCase (l @ CHR ''+'' # tag))) =
   takeWhile (\<lambda>c. c \<noteq> CHR ''+'') (dropWhile is_space (toLowerCase l))"
  by (induction l) (simp_all add: toLowerCase_def takeWhile_cut)

lemma lower_of_dropWhile [simp]: "toLowerCase (dropWhile P (toLowerCase s)) = dropWhile P (toLowerCase s)"
  by (induction s) (simp_all add: toLowerCase_def)

lemma toLowerCase_rev: "toLowerCase (rev s) = rev (toLowerCase s)"
  by (simp add: toLowerCase_def rev_map)

lemma rtrim_lower_idem:
  "rev (dropWhile is_space (rev (toLowerCase (rev (dropWhile is_space (rev (toLowerCase d))))))) = rev (dropWhile is_space (rev (toLowerCase d)))"
proof -
  have "toLowerCase (rev (dropWhile is_space (rev (toLowerCase d)))) = rev (dropWhile is_space (rev (toLowerCase d)))"
    by (metis lower_of_dropWhile toLowerCase_rev)
  then show ?thesis by simp
qed

lemma blocklist_split:
  assumes "CHR ''@'' \<notin> set l"
  shows "checkRecipientBlocklist (l @ CHR ''@'' # d) bl =
      blocklist_scan (takeWhile (\<lambda>c. c \<noteq> CHR ''+'') (dropWhile is_space (toLowerCase l))
          @ CHR ''@'' # rev (dropWhile is_space (rev (toLowerCase d))))
        (CHR ''@'' # rev (dropWhile is_space (rev (toLowerCase d)))) bl"
proof -
  have "CHR ''@'' \<notin> set (dropWhile is_space (toLowerCase l))"
    using assms by (metis at_in_lower set_dropWhileD)
  from canonicalAddress_split [OF this] show ?thesis
    by (simp add: checkRecipientBlocklist_def trimmed_address [OF assms] at_index_split [OF assms] rtrim_lower_idem)
qed

text \<open>A sub-address \<open>local+tag@domain\<close>, in any casing, is blocked exactly when \<open>local@domain\<close> is, and for
  the same reason: no tag and no casing gets around the blocklist.\<close>

theorem subaddress_cannot_evade:
  assumes "CHR ''@'' \<notin> set l" "CHR ''@'' \<notin> set l'" "CHR ''@'' \<notin> set tag"
    "toLowerCase l' = toLowerCase l" "toLowerCase d' = toLowerCase d"
  shows "checkRecipientBlocklist (l' @ CHR ''+'' # tag @ CHR ''@'' # d') bl = checkRecipientBlocklist (l @ CHR ''@'' # d) bl"
  using blocklist_split [of "l' @ CHR ''+'' # tag" d' bl] blocklist_split [of l d bl] local_part_cut [of l' tag] assms
  by simp

theorem subaddress_cannot_evade_witness:
  "checkRecipientBlocklist ''Spam+x1@Mail.io'' [\<lparr>be_pattern = ''spam@mail.io'', be_reason = ''abuse''\<rparr>] = Some ''abuse''"
  using subaddress_cannot_evade [of "''spam''" "''Spam''" "''x1''" "''Mail.io''" "''mail.io''"
      "[\<lparr>be_pattern = ''spam@mail.io'', be_reason = ''abuse''\<rparr>]"]
  by (simp; code_simp)

section \<open>What leaves the service\<close>

definition payload_to :: "email_payload \<Rightarrow> string" where
  "payload_to p = (case p of Send o' \<Rightarrow> so_to o' | SendTemplate o' \<Rightarrow> tp_to o')"

definition mail_request ::
  "'l mail_options \<Rightarrow> string \<Rightarrow> millis \<Rightarrow> email_payload \<Rightarrow> dispatch_options option \<Rightarrow> 'l mail_state
    \<Rightarrow> (mail_error + send_result) \<times> 'l mail_state" where
  "mail_request opts uuid now p dispatch s = (case p of
     Send o' \<Rightarrow> mail_send opts uuid now o' dispatch s
   | SendTemplate o' \<Rightarrow> mail_sendTemplate opts uuid now o' dispatch s)"

text \<open>A recipient is cleared: nothing blocks it, the whitelist (when there is one) names it, and both limiters let
  it through.\<close>

definition mail_cleared :: "'l mail_options \<Rightarrow> string \<Rightarrow> millis \<Rightarrow> 'l mail_state \<Rightarrow> bool" where
  "mail_cleared opts recipient now s \<longleftrightarrow>
     (mo_blocklist opts = [] \<or> checkRecipientBlocklist recipient (mo_blocklist opts) = None)
     \<and> (mo_devWhitelist opts = [] \<or> list_ex (matchesPattern recipient) (mo_devWhitelist opts))
     \<and> (case mo_rateLimit opts of None \<Rightarrow> True | Some l \<Rightarrow> ll_check l recipient (ml_legacy s))
     \<and> (case mo_recipientRateLimiter opts of None \<Rightarrow> True
         | Some cfg \<Rightarrow> ld_allowed (fst (limiter_consume cfg recipient now (ml_records s))))"

lemma gates_cleared: "(fst (mail_gates opts recipient now s) = None) = mail_cleared opts recipient now s"
  by (auto simp: mail_gates_def mail_cleared_def assertNotBlocked_def assertAllowed_def assertWithinRateLimit_def
      assertWithinRecipientRateLimit_def Let_def split: option.splits if_splits prod.splits)

lemma gates_frame: "snd (mail_gates opts recipient now s) = s\<lparr>ml_records := ml_records (snd (mail_gates opts recipient now s))\<rparr>"
  by (simp add: mail_gates_def assertWithinRecipientRateLimit_def Let_def split: option.split prod.split)

text \<open>Mail that is not cleared is refused with an error, and nothing of it reaches a transport, the outbox or
  the legacy limiter: the only trace is in the records of the sliding window.\<close>

theorem only_cleared_mail_leaves:
  assumes "\<not> mail_cleared opts (payload_to p) now s"
  shows "\<exists>e recs. mail_request opts uuid now p dispatch s = (Inl e, s\<lparr>ml_records := recs\<rparr>)"
proof -
  obtain e where "fst (mail_gates opts (payload_to p) now s) = Some e"
    using assms by (auto simp flip: gates_cleared)
  with gates_frame [of opts "payload_to p" now s] obtain recs
    where "mail_gates opts (payload_to p) now s = (Some e, s\<lparr>ml_records := recs\<rparr>)"
    by (metis prod.collapse)
  then show ?thesis
    by (cases p) (auto simp: mail_request_def mail_send_def mail_sendTemplate_def payload_to_def)
qed

text \<open>The state after the gates of a cleared mail.\<close>

lemma cleared_gates:
  assumes "mail_cleared opts recipient now s"
  obtains recs where "mail_gates opts recipient now s = (None, s\<lparr>ml_records := recs\<rparr>)"
  using assms gates_frame [of opts recipient now s] gates_cleared [of opts recipient now s] by (metis prod.collapse)

text \<open>The templates whose queued rendering is the direct one: the worker knows neither the recipient's locale
  nor the configured default.\<close>

definition queue_faithful :: "'l mail_options \<Rightarrow> email_payload \<Rightarrow> bool" where
  "queue_faithful opts p = (case p of Send o' \<Rightarrow> True
     | SendTemplate o' \<Rightarrow> tp_brevoTemplateId o' \<noteq> None
         \<or> (tp_userLocale o' = None \<and> (tp_locale o' \<noteq> None \<or> nullish (mo_defaultLocale opts) ''en'' = ''en'')))"

lemma transmit_result: "(\<exists>s'. recorded opts recipient (transmit msg answer s) = (Inr x, s')) \<longleftrightarrow> answer = Inr x"
  by (cases answer) (simp_all add: recorded_def transmit_def)

lemma queued_rendering:
  "queue_faithful opts (SendTemplate o') \<Longrightarrow> tp_brevoTemplateId o' = None \<Longrightarrow>
   renderTemplateWithFallback opts o' vars = mo_renderer opts (tp_template o') (nullish (tp_locale o') ''en'') vars"
  by (cases "tp_locale o'") (simp_all add: queue_faithful_def renderTemplateWithFallback_def nullish_def Let_def split: option.splits)

lemma direct_mail_dispatch:
  assumes "mail_cleared opts (payload_to p) now s" "queue_faithful opts p"
  shows "(\<exists>s'. mail_request opts uuid now p None s = (Inr x, s')) \<longleftrightarrow>
     adapter_dispatch (mo_primary opts) (mo_transactional opts) (mo_renderer opts) (mo_defaultFrom opts) p = Inr x"
proof -
  obtain recs where g: "mail_gates opts (payload_to p) now s = (None, s\<lparr>ml_records := recs\<rparr>)"
    using assms(1) by (rule cleared_gates)
  show ?thesis
  proof (cases p)
    case (Send o')
    then show ?thesis using g
      by (simp add: mail_request_def mail_send_def payload_to_def transmit_result composeMessage_def adapter_dispatch_def Let_def)
  next
    case (SendTemplate o')
    note d = mail_request_def mail_sendTemplate_def payload_to_def transmit_result adapter_dispatch_def Let_def
    show ?thesis
    proof (cases "tp_brevoTemplateId o'")
      case None
      with SendTemplate assms(2) have "renderTemplateWithFallback opts o' vars =
          mo_renderer opts (tp_template o') (nullish (tp_locale o') ''en'') vars" for vars
        using queued_rendering by blast
      then show ?thesis using g SendTemplate None by (simp add: d split: sum.split)
    next
      case (Some t)
      then show ?thesis using g SendTemplate by (simp add: d split: option.split)
    qed
  qed
qed

lemma legacy_frame:
  "ml_outbox (legacy_record opts recipient s) = ml_outbox s" "ml_wire (legacy_record opts recipient s) = ml_wire s"
  by (simp_all add: legacy_record_def split: option.split)

text \<open>The record an earlier request left under the idempotency key, if there is one.\<close>

definition queued_before :: "string option \<Rightarrow> email_table \<Rightarrow> email_record option" where
  "queued_before key t = (if truthy_opt key then findByIdempotencyKey (the key) t else None)"

lemma queued_mail_outcome:
  assumes "mail_cleared opts (payload_to p) now s" "mo_outbox opts" "\<forall>r\<in>set (ml_outbox s). er_id r \<noteq> uuid"
  obtains s' where "mail_request opts uuid now p (Some \<lparr>do_mode = Outbox, do_idempotencyKey = key\<rparr>) s =
      (Inr \<lparr>sr_messageId = ''outbox:'' @ (case queued_before key (ml_outbox s) of Some old \<Rightarrow> er_id old | None \<Rightarrow> uuid), sr_driver = ''outbox''\<rparr>, s')"
    "ml_outbox s' = ml_outbox s @ (case queued_before key (ml_outbox s) of Some old \<Rightarrow> []
       | None \<Rightarrow> [fresh_record uuid now \<lparr>eq_payload = p, eq_idempotencyKey = (if truthy_opt key then key else None)\<rparr>])"
    "ml_wire s' = ml_wire s"
proof -
  obtain recs where g: "mail_gates opts (payload_to p) now s = (None, s\<lparr>ml_records := recs\<rparr>)"
    using assms(1) by (rule cleared_gates)
  let ?inp = "\<lparr>eq_payload = p, eq_idempotencyKey = (if truthy_opt key then key else None)\<rparr>"
  let ?res = "case queued_before key (ml_outbox s) of Some old \<Rightarrow> (Inr old, ml_outbox s)
    | None \<Rightarrow> (Inr (fresh_record uuid now ?inp), ml_outbox s @ [fresh_record uuid now ?inp])"
  have none: "\<not> truthy_opt None" by (simp add: truthy_opt_def)
  have "email_enqueue uuid now ?inp (ml_outbox s) = ?res"
    using assms(3) none
    by (cases "queued_before key (ml_outbox s)"; cases "truthy_opt key")
      (auto simp: email_enqueue_def em_append_def fresh_record_def list_ex_iff queued_before_def findByIdempotencyKey_def find_first_None
        dest: find_first_Some split: option.splits)
  then have "enqueueViaOutbox opts uuid now p key (s\<lparr>ml_records := recs\<rparr>) =
      (Inr \<lparr>sr_messageId = ''outbox:'' @ (case queued_before key (ml_outbox s) of Some old \<Rightarrow> er_id old | None \<Rightarrow> uuid), sr_driver = ''outbox''\<rparr>,
       s\<lparr>ml_records := recs, ml_outbox := ml_outbox s @ (case queued_before key (ml_outbox s) of Some old \<Rightarrow> [] | None \<Rightarrow> [fresh_record uuid now ?inp])\<rparr>)"
    using assms(2) by (simp add: enqueueViaOutbox_def split: option.split) (simp add: fresh_record_def)
  then show thesis
    using that g
    by (cases p) (simp_all add: mail_request_def mail_send_def mail_sendTemplate_def payload_to_def recorded_def legacy_frame)
qed

text \<open>The worker knows neither the recipient's locale nor the configured default: what it renders is the payload without the
  former, as a service without the latter would.\<close>

definition without_recipient_locale :: "email_payload \<Rightarrow> email_payload" where
  "without_recipient_locale p = (case p of Send o' \<Rightarrow> Send o' | SendTemplate o' \<Rightarrow> SendTemplate (o'\<lparr>tp_userLocale := None\<rparr>))"

lemma payload_to_unlocalised: "payload_to (without_recipient_locale p) = payload_to p"
  by (cases p) (simp_all add: payload_to_def without_recipient_locale_def)

lemma worker_view:
  "mail_cleared (opts\<lparr>mo_defaultLocale := None\<rparr>) recipient now s = mail_cleared opts recipient now s"
  "queue_faithful (opts\<lparr>mo_defaultLocale := None\<rparr>) (without_recipient_locale p)"
  "adapter_dispatch primary transactional renderer sender (without_recipient_locale p) = adapter_dispatch primary transactional renderer sender p"
proof -
  show "mail_cleared (opts\<lparr>mo_defaultLocale := None\<rparr>) recipient now s = mail_cleared opts recipient now s"
    by (simp add: mail_cleared_def)
  show "queue_faithful (opts\<lparr>mo_defaultLocale := None\<rparr>) (without_recipient_locale p)"
    by (cases p) (simp_all add: queue_faithful_def without_recipient_locale_def nullish_def)
  show "adapter_dispatch primary transactional renderer sender (without_recipient_locale p) = adapter_dispatch primary transactional renderer sender p"
    by (cases p) (simp_all add: adapter_dispatch_def without_recipient_locale_def Let_def split: option.split sum.split)
qed

text \<open>C39: Mail accepted in outbox mode becomes one pending record and nothing goes out yet; if an earlier request was queued under the
  same idempotency key, its record is answered and none is added.  When the worker dispatches the new record, it succeeds exactly as a direct
  call would have, with the same result, if that call had been given no locale of the recipient and the service no default locale;
  so for plain mail, for provider templates, and for other templates without a recipient's locale whose own locale is given or whose
  default is \<open>en\<close>, it succeeds exactly as the very call would have.  The identifier of the record is assumed to be new.\<close>

theorem queued_mail_is_direct_mail:
  assumes cleared: "mail_cleared opts (payload_to p) now s" and box: "mo_outbox opts"
    and fresh: "\<forall>r\<in>set (ml_outbox s). er_id r \<noteq> uuid"
  shows "case queued_before key (ml_outbox s) of
      Some old \<Rightarrow> (\<exists>s'. mail_request opts uuid now p (Some \<lparr>do_mode = Outbox, do_idempotencyKey = key\<rparr>) s =
           (Inr \<lparr>sr_messageId = ''outbox:'' @ er_id old, sr_driver = ''outbox''\<rparr>, s')
         \<and> ml_wire s' = ml_wire s \<and> ml_outbox s' = ml_outbox s)
    | None \<Rightarrow> (\<exists>s' r. mail_request opts uuid now p (Some \<lparr>do_mode = Outbox, do_idempotencyKey = key\<rparr>) s =
           (Inr \<lparr>sr_messageId = ''outbox:'' @ uuid, sr_driver = ''outbox''\<rparr>, s')
         \<and> ml_wire s' = ml_wire s \<and> ml_outbox s' = ml_outbox s @ [r] \<and> er_id r = uuid \<and> er_status r = EPending
         \<and> (\<forall>x. adapter_dispatch (mo_primary opts) (mo_transactional opts) (mo_renderer opts) (mo_defaultFrom opts) (er_payload r) = Inr x
               \<longleftrightarrow> (\<exists>s''. mail_request (opts\<lparr>mo_defaultLocale := None\<rparr>) uuid now (without_recipient_locale p) None s = (Inr x, s'')))
         \<and> (queue_faithful opts p \<longrightarrow>
             (\<forall>x. adapter_dispatch (mo_primary opts) (mo_transactional opts) (mo_renderer opts) (mo_defaultFrom opts) (er_payload r) = Inr x
               \<longleftrightarrow> (\<exists>s''. mail_request opts uuid now p None s = (Inr x, s'')))))"
proof -
  obtain s' where s': "mail_request opts uuid now p (Some \<lparr>do_mode = Outbox, do_idempotencyKey = key\<rparr>) s =
      (Inr \<lparr>sr_messageId = ''outbox:'' @ (case queued_before key (ml_outbox s) of Some old \<Rightarrow> er_id old | None \<Rightarrow> uuid), sr_driver = ''outbox''\<rparr>, s')"
    "ml_outbox s' = ml_outbox s @ (case queued_before key (ml_outbox s) of Some old \<Rightarrow> []
       | None \<Rightarrow> [fresh_record uuid now \<lparr>eq_payload = p, eq_idempotencyKey = (if truthy_opt key then key else None)\<rparr>])"
    "ml_wire s' = ml_wire s"
    by (rule queued_mail_outcome [OF cleared box fresh])
  show ?thesis
  proof (cases "queued_before key (ml_outbox s)")
    case None
    have "mail_cleared (opts\<lparr>mo_defaultLocale := None\<rparr>) (payload_to (without_recipient_locale p)) now s"
      using cleared by (simp add: payload_to_unlocalised worker_view(1))
    note worker = direct_mail_dispatch [OF this worker_view(2)]
    show ?thesis
      using s' worker direct_mail_dispatch [OF cleared] by (simp add: None worker_view(3)) (auto simp: fresh_record_def)
  qed (use s' in auto)
qed

text \<open>A concrete service for the two properties above.\<close>

definition demo_mail_options :: "unit mail_options" where
  "demo_mail_options = \<lparr>mo_primary = \<lparr>mt_send = (\<lambda>m. Inr \<lparr>sr_messageId = ms_to m, sr_driver = ''smtp''\<rparr>),
       mt_sendTemplate = (\<lambda>m t v. Inl \<lparr>th_kind = None, th_message = ''unsupported''\<rparr>)\<rparr>,
     mo_transactional = None, mo_renderer = (\<lambda>t l v. Inr \<lparr>rd_subject = t, rd_html = t @ l, rd_text = l\<rparr>),
     mo_defaultFrom = ''noreply@x.io'', mo_devWhitelist = [''*@x.io''], mo_rateLimit = None,
     mo_blocklist = [\<lparr>be_pattern = ''spam@x.io'', be_reason = ''abuse''\<rparr>],
     mo_recipientRateLimiter = Some \<lparr>lc_limit = 2, lc_windowMs = 100, lc_maxEntries = 5\<rparr>,
     mo_defaultLocale = None, mo_availableLocales = None, mo_outbox = True\<rparr>"

definition demo_mail_state :: "unit mail_state" where
  "demo_mail_state = \<lparr>ml_records = [], ml_legacy = (), ml_outbox = [], ml_wire = []\<rparr>"

definition demo_welcome :: email_payload where
  "demo_welcome = SendTemplate \<lparr>tp_to = ''ada@x.io'', tp_template = ''welcome'', tp_locale = None, tp_userLocale = None, tp_vars = None,
     tp_brevoTemplateId = None, tp_from = None\<rparr>"

definition demo_spam :: email_payload where
  "demo_spam = Send \<lparr>so_to = ''Spam+1@x.io'', so_from = None, so_subject = ''hi'', so_html = None, so_text = None\<rparr>"

theorem only_cleared_mail_leaves_witness:
  "\<exists>e recs. mail_request demo_mail_options ''u1'' 0 demo_spam None demo_mail_state = (Inl e, demo_mail_state\<lparr>ml_records := recs\<rparr>)"
proof (rule only_cleared_mail_leaves)
  show "\<not> mail_cleared demo_mail_options (payload_to demo_spam) 0 demo_mail_state" by code_simp
qed

theorem queued_mail_is_direct_mail_witness:
  "\<exists>s' r. mail_request demo_mail_options ''u1'' 0 demo_welcome (Some \<lparr>do_mode = Outbox, do_idempotencyKey = Some ''k''\<rparr>) demo_mail_state =
           (Inr \<lparr>sr_messageId = ''outbox:'' @ ''u1'', sr_driver = ''outbox''\<rparr>, s')
         \<and> ml_wire s' = [] \<and> ml_outbox s' = [r] \<and> er_status r = EPending
         \<and> (\<exists>s''. mail_request demo_mail_options ''u1'' 0 demo_welcome None demo_mail_state =
               (Inr \<lparr>sr_messageId = ''ada@x.io'', sr_driver = ''smtp''\<rparr>, s''))"
proof -
  have c: "mail_cleared demo_mail_options (payload_to demo_welcome) 0 demo_mail_state"
    "queue_faithful demo_mail_options demo_welcome" by code_simp+
  have "adapter_dispatch (mo_primary demo_mail_options) (mo_transactional demo_mail_options) (mo_renderer demo_mail_options)
      (mo_defaultFrom demo_mail_options) demo_welcome = Inr \<lparr>sr_messageId = ''ada@x.io'', sr_driver = ''smtp''\<rparr>"
    by (simp add: adapter_dispatch_def demo_mail_options_def demo_welcome_def)
  moreover have "queued_before (Some ''k'') (ml_outbox demo_mail_state) = None" by code_simp
  ultimately show ?thesis
    using queued_mail_is_direct_mail [OF c(1), where key = "Some ''k''" and uuid = "''u1''"] direct_mail_dispatch [OF c]
    by (auto simp: demo_mail_state_def demo_mail_options_def)
qed

end
