(* ===== verification/Field_Encryption.thy ===== *)
theory Field_Encryption
  imports Json_Codec Uuid Permissions
begin

text \<open>
  Field encryption (\<open>src/core/encryption/\<close>): the single-key service, key rotation over a chain of keys, the
  parsers of its environment variables and the blind index for equality lookups on encrypted columns.

  AES-256-GCM and HMAC-SHA256 are third-party code: they are arguments (\<open>gcm\<close>, \<open>hmac\<close>), and what the code
  relies on is stated as \<open>gcm_exact\<close>.  Random initialisation vectors are arguments.  Bytes are naturals below
  256.
\<close>

section \<open>The cipher\<close>

record gcm_cipher =
  gcm_seal :: "nat list \<Rightarrow> nat list \<Rightarrow> nat list \<Rightarrow> nat list \<times> nat list"
  gcm_open :: "nat list \<Rightarrow> nat list \<Rightarrow> nat list \<Rightarrow> nat list \<Rightarrow> nat list option"

text \<open>Sealing yields a 16-byte tag and bytes; opening accepts a tag exactly when sealing the plaintext gives that tag
  and that ciphertext.\<close>

definition bytes :: "nat list \<Rightarrow> bool" where
  "bytes bs \<longleftrightarrow> (\<forall>b\<in>set bs. b < 256)"

definition gcm_exact :: "gcm_cipher \<Rightarrow> bool" where
  "gcm_exact g \<longleftrightarrow>
     (\<forall>k iv tag ct pt. gcm_open g k iv tag ct = Some pt \<longleftrightarrow> bytes pt \<and> gcm_seal g k iv pt = (tag, ct)) \<and>
     (\<forall>k iv pt. bytes pt \<longrightarrow> length (fst (gcm_seal g k iv pt)) = 16
        \<and> bytes (fst (gcm_seal g k iv pt)) \<and> bytes (snd (gcm_seal g k iv pt)))"

section \<open>Keys\<close>

datatype enc_error =
    KekMissing
  | KekLength nat
  | Malformed
  | UnsupportedVersion string
  | TooShort
  | AuthTagMismatch
  | CiphertextMalformed
  | NoKekMatches
  | LegacyKekLength nat

definition IV_BYTES :: nat where "IV_BYTES = 12"
definition TAG_BYTES :: nat where "TAG_BYTES = 16"
definition KEK_BYTES :: nat where "KEK_BYTES = 32"
definition VERSION :: string where "VERSION = ''v1''"

text \<open>What \<open>getKek()\<close> answers.  The cached copy of the environment provider never changes the answer.\<close>

type_synonym kek_provider = "enc_error + nat list"

definition envKek :: "string option \<Rightarrow> kek_provider" where
  "envKek raw =
     (if \<not> truthy_opt raw then Inl KekMissing
      else let buf = base64url_decode (the raw)
           in if length buf \<noteq> KEK_BYTES then Inl (KekLength (length buf)) else Inr buf)"

fun parse_keks :: "string list \<Rightarrow> nat list list \<Rightarrow> enc_error + nat list list" where
  "parse_keks [] out = Inr out"
| "parse_keks (raw # rest) out =
     (let trimmed = trim raw
      in if trimmed = [] then parse_keks rest out
         else let buf = base64url_decode trimmed
              in if length buf \<noteq> KEK_BYTES then Inl (LegacyKekLength (length buf))
                 else parse_keks rest (out @ [buf]))"

definition parseLegacyKeks :: "string option \<Rightarrow> enc_error + nat list list" where
  "parseLegacyKeks inp = (if \<not> truthy_opt inp then Inr [] else parse_keks (split_on CHR '','' (the inp)) [])"

section \<open>Single-key service\<close>

definition assertKey :: "kek_provider \<Rightarrow> enc_error + nat list" where
  "assertKey kek = (case kek of Inl e \<Rightarrow> Inl e
     | Inr key \<Rightarrow> if length key \<noteq> KEK_BYTES then Inl (KekLength (length key)) else Inr key)"

definition field_encrypt :: "gcm_cipher \<Rightarrow> kek_provider \<Rightarrow> nat list \<Rightarrow> string \<Rightarrow> enc_error + string" where
  "field_encrypt g kek iv plaintext =
     (case assertKey kek of Inl e \<Rightarrow> Inl e
      | Inr key \<Rightarrow>
          let (tag, ct) = gcm_seal g key iv (utf8_encode plaintext)
          in Inr (VERSION @ '':'' @ base64url_encode (iv @ tag @ ct)))"

text \<open>The text of bytes; bytes that are no UTF-8 become replacement characters, which no sealed text contains
  and which lie outside the characters of the model.\<close>

definition utf8_text :: "nat list \<Rightarrow> string" where
  "utf8_text bs = nullish (utf8_decode bs) ''?''"

definition before_colon :: "string \<Rightarrow> string" where
  "before_colon s = takeWhile (\<lambda>c. c \<noteq> CHR '':'') s"

definition after_colon :: "string \<Rightarrow> string" where
  "after_colon s = drop (Suc (length (before_colon s))) s"

definition field_decrypt :: "gcm_cipher \<Rightarrow> kek_provider \<Rightarrow> string \<Rightarrow> enc_error + string" where
  "field_decrypt g kek inp =
     (if CHR '':'' \<notin> set inp then Inl Malformed
      else if before_colon inp \<noteq> VERSION then Inl (UnsupportedVersion (before_colon inp))
      else
        let payload = base64url_decode (after_colon inp)
        in if length payload < IV_BYTES + TAG_BYTES then Inl TooShort
           else
             let iv = take IV_BYTES payload;
                 tag = take TAG_BYTES (drop IV_BYTES payload);
                 ct = drop (IV_BYTES + TAG_BYTES) payload
             in case assertKey kek of Inl e \<Rightarrow> Inl e
                | Inr key \<Rightarrow> (case gcm_open g key iv tag ct of
                    None \<Rightarrow> Inl AuthTagMismatch
                  | Some pt \<Rightarrow> Inr (utf8_text pt)))"

section \<open>Key chain\<close>

definition isWellFormedCiphertext :: "string \<Rightarrow> bool" where
  "isWellFormedCiphertext v \<longleftrightarrow>
     CHR '':'' \<in> set v \<and> before_colon v = ''v1'' \<and> length (after_colon v) > 20"

definition multi_encrypt :: "gcm_cipher \<Rightarrow> kek_provider list \<Rightarrow> nat list \<Rightarrow> string \<Rightarrow> enc_error + string" where
  "multi_encrypt g chain iv plaintext = field_encrypt g (hd chain) iv plaintext"

text \<open>The chain is the primary key followed by the legacy keys.  The service raises no
  \<open>CiphertextMalformedError\<close> of its own, so every failure of a key moves on to the next.\<close>

fun try_keks :: "gcm_cipher \<Rightarrow> kek_provider list \<Rightarrow> string \<Rightarrow> enc_error + string" where
  "try_keks g [] c = Inl NoKekMatches"
| "try_keks g (kek # rest) c =
     (case field_decrypt g kek c of
        Inr plaintext \<Rightarrow> Inr plaintext
      | Inl e \<Rightarrow> if e = CiphertextMalformed then Inl e else try_keks g rest c)"

definition multi_decrypt :: "gcm_cipher \<Rightarrow> kek_provider list \<Rightarrow> string \<Rightarrow> enc_error + string" where
  "multi_decrypt g chain c =
     (if \<not> isWellFormedCiphertext c then Inl CiphertextMalformed else try_keks g chain c)"

text \<open>The chain \<open>PrismaService\<close> builds from \<open>FIELD_ENCRYPTION_KEK\<close> and \<open>FIELD_ENCRYPTION_LEGACY_KEKS\<close>.\<close>

definition kek_chain :: "string option \<Rightarrow> string option \<Rightarrow> enc_error + kek_provider list" where
  "kek_chain kek legacy = (case parseLegacyKeks legacy of Inl e \<Rightarrow> Inl e | Inr keks \<Rightarrow> Inr (envKek kek # map Inr keks))"

section \<open>Which fields are encrypted\<close>

definition word_char :: "char \<Rightarrow> bool" where
  "word_char c \<longleftrightarrow> (let n = of_char c :: nat in
     (65 \<le> n \<and> n \<le> 90) \<or> (97 \<le> n \<and> n \<le> 122) \<or> (48 \<le> n \<and> n \<le> 57) \<or> n = 95)"

definition letter_char :: "char \<Rightarrow> bool" where
  "letter_char c \<longleftrightarrow> (let n = of_char c :: nat in (65 \<le> n \<and> n \<le> 90) \<or> (97 \<le> n \<and> n \<le> 122))"

definition prisma_identifier :: "string \<Rightarrow> bool" where
  "prisma_identifier s = (case s of [] \<Rightarrow> False | c # cs \<Rightarrow> letter_char c \<and> list_all word_char cs)"

definition parse_pair :: "string \<Rightarrow> (string \<times> string) option" where
  "parse_pair raw =
     (let pair = trim raw; dot = length (takeWhile (\<lambda>c. c \<noteq> CHR ''.'') pair)
      in if pair = [] then None
         else if CHR ''.'' \<notin> set pair \<or> dot = 0 \<or> dot = length pair - 1 then None
         else
           let model = trim (take dot pair); field = trim (drop (Suc dot) pair)
           in if model = [] \<or> field = [] then None
              else if \<not> prisma_identifier model \<or> \<not> prisma_identifier field then None
              else Some (model, field))"

text \<open>The result is a plain object: a model named like an inherited member (\<open>constructor\<close>) finds a function
  there, whose \<open>includes\<close> is undefined, and the call throws.\<close>

fun parse_pairs :: "string list \<Rightarrow> (string \<times> string list) list \<Rightarrow> (string \<times> string list) list option" where
  "parse_pairs [] result = Some result"
| "parse_pairs (raw # rest) result =
     (case parse_pair raw of
        None \<Rightarrow> parse_pairs rest result
      | Some (model, field) \<Rightarrow>
          if map_get result model = None \<and> model \<in> set object_prototype_members then None
          else
            let fs = nullish (map_get result model) []
            in parse_pairs rest (map_set model (if field \<in> set fs then fs else fs @ [field]) result))"

definition parseFieldEncryptionMap :: "string option \<Rightarrow> (string \<times> string list) list option" where
  "parseFieldEncryptionMap inp = (if \<not> truthy_opt inp then Some [] else parse_pairs (split_on CHR '','' (the inp)) [])"

section \<open>Blind index\<close>

record blind_index =
  bi_key :: "nat list"
  bi_truncateChars :: int

definition MIN_KEY_BYTES :: nat where "MIN_KEY_BYTES = 32"
definition DEFAULT_TRUNCATE_CHARS :: int where "DEFAULT_TRUNCATE_CHARS = 32"

datatype blind_error = BlindKeyLength nat | BlindTruncate int

definition new_blind_index :: "nat list \<Rightarrow> int option \<Rightarrow> blind_error + blind_index" where
  "new_blind_index key truncateChars =
     (if length key < MIN_KEY_BYTES then Inl (BlindKeyLength (length key))
      else case truncateChars of
             Some n \<Rightarrow> if n < 8 \<or> n > 64 then Inl (BlindTruncate n) else Inr \<lparr>bi_key = key, bi_truncateChars = n\<rparr>
           | None \<Rightarrow> Inr \<lparr>bi_key = key, bi_truncateChars = DEFAULT_TRUNCATE_CHARS\<rparr>)"

definition normalise :: "string \<Rightarrow> string" where
  "normalise inp = toLowerCase (trim inp)"

text \<open>\<open>hmac key bytes\<close> is the lower-case hexadecimal digest.\<close>

definition blind_compute :: "(nat list \<Rightarrow> nat list \<Rightarrow> string) \<Rightarrow> blind_index \<Rightarrow> string option \<Rightarrow> string option" where
  "blind_compute hmac bi plaintext =
     (case plaintext of None \<Rightarrow> None
      | Some p \<Rightarrow> if normalise p = [] then None
                  else Some (slice0 (bi_truncateChars bi) (hmac (bi_key bi) (utf8_encode (normalise p)))))"

definition computeMany :: "(nat list \<Rightarrow> nat list \<Rightarrow> string) \<Rightarrow> blind_index \<Rightarrow> string option list \<Rightarrow> string option list" where
  "computeMany hmac bi plaintexts = map (blind_compute hmac bi) plaintexts"

datatype blind_plan = BlindAbsent | BlindAccepted "nat list" | BlindRejected string

definition hex_value :: "char \<Rightarrow> nat" where
  "hex_value c = (let n = of_char c in if n \<le> 57 then n - 48 else if n \<le> 70 then n - 55 else n - 87)"

fun hex_decode :: "string \<Rightarrow> nat list" where
  "hex_decode (a # b # s) = (16 * hex_value a + hex_value b) # hex_decode s"
| "hex_decode s = []"

definition sized_key :: "string \<Rightarrow> nat list \<Rightarrow> blind_plan" where
  "sized_key what buf = (if length buf < MIN_KEY_BYTES
     then BlindRejected (''BLIND_INDEX_KEY '' @ what @ '' value must decode to at least 32 bytes (got '' @ show_nat (length buf) @ '')'')
     else BlindAccepted buf)"

definition planBlindIndexFromEnv :: "string option \<Rightarrow> blind_plan" where
  "planBlindIndexFromEnv envValue =
     (if trim (nullish envValue []) = [] then BlindAbsent
      else
        let v = the envValue
        in if startsWith v ''hex:'' then
             let raw = drop 4 v
             in if raw = [] \<or> odd (length raw) \<or> \<not> list_all is_hex_ci raw
                then BlindRejected ''BLIND_INDEX_KEY hex: prefix provided but value is not a valid hex string''
                else sized_key ''hex'' (hex_decode raw)
           else if startsWith v ''b64:'' then sized_key ''b64'' (base64url_decode (drop 4 v))
           else if list_all is_hex_ci v \<and> even (length v) then sized_key ''hex'' (hex_decode v)
           else sized_key ''base64'' (base64url_decode v))"

section \<open>Encryption round trips\<close>

lemma colon_parts: "CHR '':'' \<notin> set v \<Longrightarrow> before_colon (v @ CHR '':'' # p) = v \<and> after_colon (v @ CHR '':'' # p) = p"
proof -
  assume "CHR '':'' \<notin> set v"
  then have "before_colon (v @ CHR '':'' # p) = v" by (induction v) (auto simp: before_colon_def)
  then show ?thesis by (simp add: after_colon_def)
qed

lemma version_parts [simp]:
  "before_colon (VERSION @ '':'' @ p) = VERSION" "after_colon (VERSION @ '':'' @ p) = p"
  "CHR '':'' \<in> set (VERSION @ '':'' @ p)"
  using colon_parts [of VERSION p] by (simp_all add: VERSION_def)

lemma sextets_length: "length bs \<le> length (sextets bs)"
  by (induction bs rule: sextets.induct) auto

lemma utf8_text_encode [simp]: "utf8_text (utf8_encode s) = s"
  by (simp add: utf8_text_def utf8_round_trip nullish_def)

lemma gcm_exactD:
  assumes "gcm_exact g"
  shows "gcm_open g k iv tag ct = Some pt \<longleftrightarrow> bytes pt \<and> gcm_seal g k iv pt = (tag, ct)"
    "bytes pt \<Longrightarrow> gcm_seal g k iv pt = (tag, ct) \<Longrightarrow> length tag = 16 \<and> bytes tag \<and> bytes ct"
proof -
  show "gcm_open g k iv tag ct = Some pt \<longleftrightarrow> bytes pt \<and> gcm_seal g k iv pt = (tag, ct)"
    using assms by (simp add: gcm_exact_def)
  show "length tag = 16 \<and> bytes tag \<and> bytes ct" if "bytes pt" "gcm_seal g k iv pt = (tag, ct)"
    using assms that unfolding gcm_exact_def by (metis fst_conv snd_conv)
qed

lemma bytes_utf8 [simp]: "bytes (utf8_encode s)"
  by (simp add: bytes_def utf8_bytes)

lemma bytes_append [simp]: "bytes (a @ b) \<longleftrightarrow> bytes a \<and> bytes b"
  by (auto simp: bytes_def)

lemma bytes_round_trip: "bytes bs \<Longrightarrow> base64url_decode (base64url_encode bs) = bs"
  by (simp add: bytes_def base64url_round_trip)

text \<open>What a sealed value is, and how any key reads it.\<close>

definition good_iv :: "nat list \<Rightarrow> bool" where
  "good_iv iv \<longleftrightarrow> length iv = IV_BYTES \<and> bytes iv"

lemma sealed_value:
  assumes "gcm_exact g" "good_iv iv" "length k = KEK_BYTES" "field_encrypt g (Inr k) iv pt = Inr c"
    "gcm_seal g k iv (utf8_encode pt) = (tag, ct)"
  shows "isWellFormedCiphertext c"
    "length k' = KEK_BYTES \<Longrightarrow> field_decrypt g (Inr k') c =
       (case gcm_open g k' iv tag ct of None \<Rightarrow> Inl AuthTagMismatch | Some p \<Rightarrow> Inr (utf8_text p))"
proof -
  have t: "length tag = 16" "bytes (iv @ tag @ ct)" "length iv = 12"
    using gcm_exactD(2) [OF assms(1) bytes_utf8 assms(5)] assms(2) by (auto simp: good_iv_def IV_BYTES_def)
  have c: "c = VERSION @ '':'' @ base64url_encode (iv @ tag @ ct)"
    using assms(3-5) by (simp add: field_encrypt_def assertKey_def)
  have "28 \<le> length (base64url_encode (iv @ tag @ ct))"
    using sextets_length [of "iv @ tag @ ct"] t by (simp add: base64url_encode_def)
  then show "isWellFormedCiphertext c"
    unfolding c isWellFormedCiphertext_def version_parts by (simp add: VERSION_def)
  show "field_decrypt g (Inr k') c =
       (case gcm_open g k' iv tag ct of None \<Rightarrow> Inl AuthTagMismatch | Some p \<Rightarrow> Inr (utf8_text p))"
    if "length k' = KEK_BYTES"
    unfolding c field_decrypt_def version_parts using t that
    by (simp add: bytes_round_trip assertKey_def IV_BYTES_def TAG_BYTES_def Let_def)
qed

lemma try_keks_finds:
  assumes "kek \<in> set chain" "field_decrypt g kek c = Inr pt"
    "\<And>kek'. kek' \<in> set chain \<Longrightarrow> kek' \<noteq> kek \<Longrightarrow> field_decrypt g kek' c = Inl AuthTagMismatch"
  shows "try_keks g chain c = Inr pt"
  using assms
proof (induction chain)
  case (Cons k chain)
  then show ?case by (cases "k = kek") simp_all
qed simp

text \<open>The environment variables, as an operator writes them.\<close>

lemma base64_char_plain: "n < 64 \<Longrightarrow> base64_char n \<noteq> CHR '','' \<and> \<not> is_space (base64_char n)"
proof -
  have "\<forall>n\<in>set [0..<64]. base64_char n \<noteq> CHR '','' \<and> \<not> is_space (base64_char n)" by code_simp
  then show "n < 64 \<Longrightarrow> base64_char n \<noteq> CHR '','' \<and> \<not> is_space (base64_char n)" by simp
qed

lemma trim_plain: "\<forall>c\<in>set s. \<not> is_space c \<Longrightarrow> trim s = s"
proof -
  have *: "\<forall>c\<in>set s. \<not> is_space c \<Longrightarrow> dropWhile is_space s = s" for s by (cases s) simp_all
  from this [of s] this [of "rev s"] show "\<forall>c\<in>set s. \<not> is_space c \<Longrightarrow> trim s = s" by (simp add: trim_def)
qed

lemma base64_text:
  assumes "bytes bs"
  shows "CHR '','' \<notin> set (base64url_encode bs)" "trim (base64url_encode bs) = base64url_encode bs"
  using sextets_small [OF assms [unfolded bytes_def]] base64_char_plain by (fastforce simp: base64url_encode_def intro!: trim_plain)+

definition good_key :: "nat list \<Rightarrow> bool" where
  "good_key k \<longleftrightarrow> length k = KEK_BYTES \<and> bytes k"

lemma good_key_text: "good_key k \<Longrightarrow> base64url_encode k \<noteq> []"
  using sextets_length [of k] by (auto simp: good_key_def base64url_encode_def KEK_BYTES_def)

lemma parse_keks_encode:
  "\<forall>k\<in>set ks. good_key k \<Longrightarrow> parse_keks (map base64url_encode ks) out = Inr (out @ ks)"
  by (induction ks arbitrary: out)
    (simp_all add: base64_text(2) good_key_text good_key_def bytes_round_trip Let_def)

lemma kek_chain_env:
  assumes "good_key k" "\<forall>k\<in>set ks. good_key k"
  shows "kek_chain (Some (base64url_encode k)) (Some (join '','' (map base64url_encode ks))) = Inr (map Inr (k # ks))"
proof -
  have p: "envKek (Some (base64url_encode k)) = Inr k"
    using assms(1) good_key_text [OF assms(1)] by (simp add: envKek_def truthy_opt_def good_key_def bytes_round_trip)
  have "parseLegacyKeks (Some (join '','' (map base64url_encode ks))) = Inr ks"
  proof (cases ks)
    case Nil
    then show ?thesis by (simp add: parseLegacyKeks_def truthy_opt_def)
  next
    case (Cons k' ks')
    have "split_on CHR '','' (join '','' (map base64url_encode ks)) = map base64url_encode ks"
      using assms(2) Cons base64_text(1) by (intro split_on_join) (auto simp: good_key_def)
    moreover have "join '','' (map base64url_encode ks) \<noteq> []"
      using good_key_text [of k'] assms(2) Cons by (cases ks') auto
    ultimately show ?thesis using parse_keks_encode [OF assms(2), of "[]"] by (simp add: parseLegacyKeks_def truthy_opt_def)
  qed
  with p show ?thesis by (simp add: kek_chain_def)
qed

text \<open>C24: Rotating the master key loses nothing.  A value sealed while \<open>k\<close> was the primary key is read back by every
  later configuration that still lists \<open>k\<close>, as primary or among the legacy keys, in whatever order; the keys
  of the configuration are given as the operator writes them, in base64, comma-separated.\<close>

theorem rotation_keeps_values_readable:
  assumes g: "gcm_exact g" and keys: "\<forall>k\<in>set (new # legacy). good_key k" and k: "k \<in> set (new # legacy)"
    and iv: "good_iv iv" and enc: "field_encrypt g (Inr k) iv plaintext = Inr c"
    and foreign: "\<forall>k'\<in>set (new # legacy). k' \<noteq> k \<longrightarrow>
      (case gcm_seal g k iv (utf8_encode plaintext) of (tag, ct) \<Rightarrow> gcm_open g k' iv tag ct) = None"
  shows "\<exists>chain. kek_chain (Some (base64url_encode new)) (Some (join '','' (map base64url_encode legacy))) = Inr chain
      \<and> multi_decrypt g chain c = Inr plaintext"
proof -
  obtain tag ct where s: "gcm_seal g k iv (utf8_encode plaintext) = (tag, ct)" by fastforce
  have len: "\<And>k'. k' \<in> set (new # legacy) \<Longrightarrow> length k' = KEK_BYTES" using keys by (auto simp: good_key_def)
  note v = sealed_value [OF g iv len [OF k] enc s]
  have "field_decrypt g (Inr k) c = Inr plaintext"
    using v(2) [OF len [OF k]] gcm_exactD(1) [OF g, of k iv tag ct "utf8_encode plaintext"] s by simp
  moreover have "field_decrypt g (Inr k') c = Inl AuthTagMismatch" if "k' \<in> set (new # legacy)" "k' \<noteq> k" for k'
    using v(2) [OF len [OF that(1)]] foreign that s by auto
  ultimately have "try_keks g (map Inr (new # legacy)) c = Inr plaintext"
    using k by (intro try_keks_finds [where kek = "Inr k"]) auto
  moreover have "kek_chain (Some (base64url_encode new)) (Some (join '','' (map base64url_encode legacy))) = Inr (map Inr (new # legacy))"
    using keys by (intro kek_chain_env) simp_all
  ultimately show ?thesis using v(1) by (simp add: multi_decrypt_def)
qed

lemma try_keks_Inr: "try_keks g chain c = Inr pt \<Longrightarrow> \<exists>kek\<in>set chain. field_decrypt g kek c = Inr pt"
  by (induction chain) (auto split: sum.splits if_splits)

text \<open>Only sealed values are read.  Whatever a chain decrypts is the text of a message that was sealed, with the
  vector, tag and bytes the value carries, under one of the keys of the chain: a value altered in the database
  or brought from another installation is refused.\<close>

theorem only_sealed_values_are_read:
  assumes "gcm_exact g" "multi_decrypt g (map Inr keys) c = Inr plaintext"
  shows "\<exists>k\<in>set keys. \<exists>iv tag ct bs. base64url_decode (after_colon c) = iv @ tag @ ct \<and> length iv = IV_BYTES
      \<and> length k = KEK_BYTES \<and> bytes bs \<and> gcm_seal g k iv bs = (tag, ct) \<and> plaintext = utf8_text bs"
proof -
  obtain k where k: "k \<in> set keys" "field_decrypt g (Inr k) c = Inr plaintext"
    using assms(2) try_keks_Inr by (fastforce simp: multi_decrypt_def split: if_splits)
  define payload where "payload = base64url_decode (after_colon c)"
  define iv tag ct where "iv = take IV_BYTES payload" and "tag = take TAG_BYTES (drop IV_BYTES payload)"
    and "ct = drop (IV_BYTES + TAG_BYTES) payload"
  have len: "IV_BYTES + TAG_BYTES \<le> length payload" "length k = KEK_BYTES"
    using k(2) by (auto simp: field_decrypt_def payload_def assertKey_def Let_def split: if_splits)
  obtain bs where bs: "gcm_open g k iv tag ct = Some bs" "plaintext = utf8_text bs"
    using k(2) unfolding field_decrypt_def payload_def [symmetric] Let_def iv_def tag_def ct_def
    by (auto simp: assertKey_def split: if_splits option.splits)
  have "ct = drop TAG_BYTES (drop IV_BYTES payload)" by (simp add: ct_def add.commute)
  then have "payload = iv @ tag @ ct" by (simp only: iv_def tag_def append_take_drop_id)
  moreover have "length iv = IV_BYTES" using len by (simp add: iv_def)
  moreover have "bytes bs" "gcm_seal g k iv bs = (tag, ct)" using gcm_exactD(1) [OF assms(1)] bs(1) by simp_all
  ultimately show ?thesis using k(1) len(2) bs(2) unfolding payload_def [symmetric] by metis
qed

text \<open>A value whose payload is too short for a vector and a tag, but longer than 20 characters, is not reported as
  malformed: every key is tried and the chain reports that no key matches.\<close>

lemma short_payload_not_malformed:
  assumes "20 < length p" "length (base64url_decode p) < IV_BYTES + TAG_BYTES"
  shows "multi_decrypt g (map Inr keys) (''v1:'' @ p) = Inl NoKekMatches"
proof -
  have c: "''v1:'' @ p = VERSION @ '':'' @ p" by (simp add: VERSION_def)
  have "field_decrypt g kek (''v1:'' @ p) = Inl TooShort" for kek
    unfolding c field_decrypt_def version_parts using assms(2) by simp
  then have "try_keks g chain (''v1:'' @ p) = Inl NoKekMatches" for chain by (induction chain) simp_all
  moreover have "isWellFormedCiphertext (''v1:'' @ p)"
    unfolding c isWellFormedCiphertext_def version_parts using assms(1) by (simp add: VERSION_def)
  ultimately show ?thesis by (simp add: multi_decrypt_def)
qed

text \<open>A cipher that satisfies the contract, for the examples: the tag repeats the first byte of the key.\<close>

definition sample_gcm :: gcm_cipher where
  "sample_gcm = \<lparr>gcm_seal = (\<lambda>k iv pt. (replicate 16 (hd k mod 256), pt)),
     gcm_open = (\<lambda>k iv tag ct. if tag = replicate 16 (hd k mod 256) \<and> bytes ct then Some ct else None)\<rparr>"

lemma sample_gcm_exact: "gcm_exact sample_gcm"
  by (auto simp: gcm_exact_def sample_gcm_def bytes_def)

theorem rotation_keeps_values_readable_witness:
  "\<exists>chain. kek_chain (Some (base64url_encode (replicate 32 9))) (Some (join '','' (map base64url_encode [replicate 32 8, replicate 32 7]))) = Inr chain
      \<and> multi_decrypt sample_gcm chain (''v1:'' @ base64url_encode (replicate 12 1 @ replicate 16 7 @ utf8_encode ''iban'')) = Inr ''iban''"
  by (rule rotation_keeps_values_readable [OF sample_gcm_exact, where k = "replicate 32 7" and iv = "replicate 12 1"])
    (simp_all add: good_key_def good_iv_def bytes_def KEK_BYTES_def IV_BYTES_def sample_gcm_def
      field_encrypt_def assertKey_def VERSION_def replicate_eq_replicate)

theorem only_sealed_values_are_read_witness:
  "\<exists>k\<in>set [replicate 32 9, replicate 32 7]. \<exists>iv tag ct bs.
      base64url_decode (after_colon (''v1:'' @ base64url_encode (replicate 12 1 @ replicate 16 7 @ utf8_encode ''iban''))) = iv @ tag @ ct
      \<and> length iv = IV_BYTES \<and> length k = KEK_BYTES \<and> bytes bs \<and> gcm_seal sample_gcm k iv bs = (tag, ct) \<and> ''iban'' = utf8_text bs"
proof (rule only_sealed_values_are_read [OF sample_gcm_exact])
  show "multi_decrypt sample_gcm (map Inr [replicate 32 9, replicate 32 7])
      (''v1:'' @ base64url_encode (replicate 12 1 @ replicate 16 7 @ utf8_encode ''iban'')) = Inr ''iban''"
    by code_simp
qed

end
