(* ===== verification/Data_Access.thy ===== *)
theory Data_Access
  imports Field_Encryption Output_Pipeline Pagination
begin

text \<open>
  The data access layer: the Prisma client extensions (\<open>src/core/repository/prisma-extensions.ts\<close>,
  \<open>soft-delete-extension.ts\<close>, \<open>src/core/auth/user-blind-index.extension.ts\<close>) and the client
  \<open>PrismaService.buildExtendedClient\<close> composes of them (\<open>src/core/prisma/prisma.service.ts\<close>).

  An operation is a call with a model, an operation name and an arguments object.  An extension maps the rest of
  the chain (\<open>query\<close>) to a new query function; the first extension of the chain is the outermost, as Prisma's
  \<open>$extends\<close> documents.  The Prisma engine with its database is an argument, \<open>engine\<close>, over an abstract database
  state; the audit log and the query buffer are part of the state.  Durations are not modelled.
\<close>

section \<open>Calls and state\<close>

type_synonym row = "(string \<times> js_value) list"

datatype prisma_op = OpCreate | OpCreateMany | OpUpdate | OpUpdateMany | OpUpsert | OpDelete | OpFindUnique
  | OpFindFirst | OpFindMany | OpOther string

record prisma_call =
  pc_model :: string
  pc_op :: prisma_op
  pc_args :: row

datatype audit_action = AuditCreate | AuditUpdate | AuditDelete | AuditRestore

record audit_row =
  au_tenantId :: string
  au_actorUserId :: "string option"
  au_targetModel :: string
  au_targetId :: string
  au_action :: audit_action
  au_diff :: row
  au_metadata :: "row option"

datatype data_error =
    EngineError string
  | SoftDeletePathRequired
  | CryptoError enc_error
  | AuditWriteError
  | TenantMissing
  | TenantFormat

record 'd data_state =
  ds_db :: 'd
  ds_audit :: "audit_row list"
  ds_queries :: "(string \<times> prisma_op) list"

type_synonym 'd engine = "prisma_call \<Rightarrow> 'd \<Rightarrow> (string + js_value) \<times> 'd"
type_synonym 'd prisma_query = "prisma_call \<Rightarrow> 'd data_state \<Rightarrow> (data_error + js_value) \<times> 'd data_state"

definition engine_query :: "'d engine \<Rightarrow> 'd prisma_query" where
  "engine_query engine call s =
     (case engine call (ds_db s) of
        (Inl e, db) \<Rightarrow> (Inl (EngineError e), s\<lparr>ds_db := db\<rparr>)
      | (Inr v, db) \<Rightarrow> (Inr v, s\<lparr>ds_db := db\<rparr>))"

text \<open>Property reads: an absent key is \<open>undefined\<close>; \<open>x ?? {}\<close> for an object-valued property.\<close>

definition jsprop :: "row \<Rightarrow> string \<Rightarrow> js_value" where
  "jsprop r k = nullish (map_get r k) VUndefined"

definition obj_prop :: "row \<Rightarrow> string \<Rightarrow> row" where
  "obj_prop r k = (case jsprop r k of VObj o' \<Rightarrow> o' | _ \<Rightarrow> [])"

text \<open>What the extensions read from the request and the configuration.  The resolvers read the request context twice: before the
  query (\<open>dc_tenantId\<close>, \<open>dc_userId\<close>), for the stamps, and after the \<open>await\<close> of the query (\<open>dc_late\<close>\<dots>), for the audit row.
  The driver may have lost the context by then, so the late answers are values of their own, \<open>None\<close> included.\<close>

record 'd data_config =
  dc_tenantId :: "string option"
  dc_userId :: "string option"
  dc_lateTenantId :: "string option"
  dc_lateUserId :: "string option"
  dc_lateRequestId :: "string option"
  dc_uuid :: "nat \<Rightarrow> string"
  dc_fields :: "(string \<times> string list) list"
  dc_encrypt :: "nat \<Rightarrow> string \<Rightarrow> enc_error + string"
  dc_decrypt :: "string \<Rightarrow> enc_error + string"
  dc_versioned :: "string list"
  dc_auditable :: "string list"
  dc_auditEnabled :: bool
  dc_rawSelect :: "string \<Rightarrow> string \<Rightarrow> 'd \<Rightarrow> row list option"
  dc_auditFails :: "audit_row \<Rightarrow> bool"
  dc_blind :: "(string \<Rightarrow> string option) option"

section \<open>uuidV7\<close>

definition with_id :: "('d, 'z) data_config_scheme \<Rightarrow> nat \<Rightarrow> js_value \<Rightarrow> js_value" where
  "with_id cfg i item = (case item of
     VObj o' \<Rightarrow> if jsprop o' ''id'' \<in> {VUndefined, VNull} then VObj (map_set ''id'' (VStr (dc_uuid cfg i)) o') else item
   | _ \<Rightarrow> item)"

definition uuidV7Extension :: "('d, 'z) data_config_scheme \<Rightarrow> 'd prisma_query \<Rightarrow> 'd prisma_query" where
  "uuidV7Extension cfg query call s =
     (let args = pc_args call
      in case pc_op call of
           OpCreate \<Rightarrow>
             let data = obj_prop args ''data''
             in if jsprop data ''id'' = VUndefined
                then query (call\<lparr>pc_args := map_set ''data'' (VObj (map_set ''id'' (VStr (dc_uuid cfg 0)) data)) args\<rparr>) s
                else query call s
         | OpCreateMany \<Rightarrow>
             (case jsprop args ''data'' of
                VArr items \<Rightarrow>
                  query (call\<lparr>pc_args := map_set ''data''
                    (VArr (map (\<lambda>(i, item). with_id cfg i item) (enumerate 0 items))) args\<rparr>) s
              | _ \<Rightarrow> query call s)
         | _ \<Rightarrow> query call s)"

section \<open>auditStamp\<close>

definition set_if_undefined :: "string \<Rightarrow> string \<Rightarrow> row \<Rightarrow> row" where
  "set_if_undefined k v r = (if jsprop r k = VUndefined then map_set k (VStr v) r else r)"

definition stampCreate :: "('d, 'z) data_config_scheme \<Rightarrow> row \<Rightarrow> row" where
  "stampCreate cfg data =
     (let out = (case dc_tenantId cfg of None \<Rightarrow> data | Some t \<Rightarrow> set_if_undefined ''tenantId'' t data)
      in case dc_userId cfg of
           None \<Rightarrow> out
         | Some u \<Rightarrow> set_if_undefined ''updatedBy'' u (set_if_undefined ''createdBy'' u out))"

definition stampUpdate :: "('d, 'z) data_config_scheme \<Rightarrow> row \<Rightarrow> row" where
  "stampUpdate cfg data = (case dc_userId cfg of None \<Rightarrow> data | Some u \<Rightarrow> set_if_undefined ''updatedBy'' u data)"

definition on_object :: "(row \<Rightarrow> row) \<Rightarrow> js_value \<Rightarrow> js_value" where
  "on_object f v = (case v of VObj o' \<Rightarrow> VObj (f o') | _ \<Rightarrow> v)"

definition auditStampExtension :: "('d, 'z) data_config_scheme \<Rightarrow> 'd prisma_query \<Rightarrow> 'd prisma_query" where
  "auditStampExtension cfg query call s =
     (let args = pc_args call
      in case pc_op call of
           OpCreate \<Rightarrow> query (call\<lparr>pc_args := map_set ''data'' (VObj (stampCreate cfg (obj_prop args ''data''))) args\<rparr>) s
         | OpUpdate \<Rightarrow> query (call\<lparr>pc_args := map_set ''data'' (VObj (stampUpdate cfg (obj_prop args ''data''))) args\<rparr>) s
         | OpUpsert \<Rightarrow>
             query (call\<lparr>pc_args := map_set ''update'' (on_object (stampUpdate cfg) (jsprop args ''update''))
                      (map_set ''create'' (on_object (stampCreate cfg) (jsprop args ''create'')) args)\<rparr>) s
         | _ \<Rightarrow> query call s)"

section \<open>softDelete\<close>

definition addSoftDeleteFilter :: "row \<Rightarrow> bool \<Rightarrow> row" where
  "addSoftDeleteFilter args includeDeleted =
     (if includeDeleted then args
      else if jsprop args ''where'' \<in> {VUndefined, VNull, VObj []}
      then map_set ''where'' (VObj [(''deletedAt'', VNull)]) args
      else map_set ''where'' (VObj [(''AND'', VArr [jsprop args ''where'', VObj [(''deletedAt'', VNull)]])]) args)"

definition convertDeleteToSoftDelete :: "js_value \<Rightarrow> millis \<Rightarrow> row" where
  "convertDeleteToSoftDelete wh now = [(''where'', wh), (''data'', VObj [(''deletedAt'', VDate now)])]"

definition convertRestoreToUpdate :: "js_value \<Rightarrow> row" where
  "convertRestoreToUpdate wh = [(''where'', wh), (''data'', VObj [(''deletedAt'', VNull)])]"

definition isHardDeleteRequest :: "row \<Rightarrow> bool" where
  "isHardDeleteRequest args \<longleftrightarrow> jsprop args ''hardDelete'' = VBool True"

definition softDeleteExtension :: "'d prisma_query \<Rightarrow> 'd prisma_query" where
  "softDeleteExtension query call s =
     (let args = pc_args call
      in if pc_op call \<in> {OpFindMany, OpFindFirst, OpFindUnique}
         then query (call\<lparr>pc_args := addSoftDeleteFilter args (jsprop args ''includeDeleted'' = VBool True)\<rparr>) s
         else if pc_op call = OpDelete then
           (if isHardDeleteRequest args then query (call\<lparr>pc_args := map_delete ''hardDelete'' args\<rparr>) s
            else (Inl SoftDeletePathRequired, s))
         else query call s)"

section \<open>fieldEncryption\<close>

text \<open>The \<open>i\<close>-th random vector of a call belongs to the \<open>i\<close>-th field; \<open>upsert\<close> takes two per field.\<close>

fun encrypt_fields :: "(nat \<Rightarrow> string \<Rightarrow> enc_error + string) \<Rightarrow> nat \<Rightarrow> string list \<Rightarrow> row \<Rightarrow> enc_error + row" where
  "encrypt_fields enc i [] data = Inr data"
| "encrypt_fields enc i (f # fs) data =
     (case jsprop data f of
        VStr v \<Rightarrow> (case enc i v of Inl e \<Rightarrow> Inl e | Inr c \<Rightarrow> encrypt_fields enc (Suc i) fs (map_set f (VStr c) data))
      | _ \<Rightarrow> encrypt_fields enc (Suc i) fs data)"

fun decrypt_row :: "(string \<Rightarrow> enc_error + string) \<Rightarrow> string list \<Rightarrow> row \<Rightarrow> enc_error + row" where
  "decrypt_row dec [] r = Inr r"
| "decrypt_row dec (f # fs) r =
     (case jsprop r f of
        VStr v \<Rightarrow> (case dec v of Inl e \<Rightarrow> Inl e | Inr p \<Rightarrow> decrypt_row dec fs (map_set f (VStr p) r))
      | _ \<Rightarrow> decrypt_row dec fs r)"

definition decryptFields :: "(string \<Rightarrow> enc_error + string) \<Rightarrow> string list \<Rightarrow> js_value \<Rightarrow> enc_error + js_value" where
  "decryptFields dec fs v = (case v of
     VObj r \<Rightarrow> (case decrypt_row dec fs r of Inl e \<Rightarrow> Inl e | Inr r' \<Rightarrow> Inr (VObj r'))
   | _ \<Rightarrow> Inr v)"

text \<open>A step that follows a query: applied to its result, or skipped when the query failed.\<close>

definition then_decrypt ::
  "(js_value \<Rightarrow> enc_error + js_value) \<Rightarrow> (data_error + js_value) \<times> 'd data_state \<Rightarrow> (data_error + js_value) \<times> 'd data_state" where
  "then_decrypt f rs = (case rs of
     (Inl e, s) \<Rightarrow> (Inl e, s)
   | (Inr v, s) \<Rightarrow> (case f v of Inl e \<Rightarrow> Inl (CryptoError e) | Inr v' \<Rightarrow> Inr v', s))"

definition encrypt_branch :: "(nat \<Rightarrow> string \<Rightarrow> enc_error + string) \<Rightarrow> string list \<Rightarrow> js_value \<Rightarrow> enc_error + js_value" where
  "encrypt_branch enc fs v = (case v of
     VObj o' \<Rightarrow> (case encrypt_fields enc 0 fs o' of Inl e \<Rightarrow> Inl e | Inr r \<Rightarrow> Inr (VObj r))
   | _ \<Rightarrow> Inr v)"

definition fieldEncryptionExtension :: "('d, 'z) data_config_scheme \<Rightarrow> 'd prisma_query \<Rightarrow> 'd prisma_query" where
  "fieldEncryptionExtension cfg query call s =
     (let args = pc_args call; fs = nullish (map_get (dc_fields cfg) (pc_model call)) []
      in if fs = [] then query call s
         else if pc_op call \<in> {OpCreate, OpUpdate} then
           (case jsprop args ''data'' of
              VObj data \<Rightarrow>
                (case encrypt_fields (dc_encrypt cfg) 0 fs data of
                   Inl e \<Rightarrow> (Inl (CryptoError e), s)
                 | Inr data' \<Rightarrow> query (call\<lparr>pc_args := map_set ''data'' (VObj data') args\<rparr>) s)
            | _ \<Rightarrow> query call s)
         else if pc_op call = OpUpsert then
           (case encrypt_branch (\<lambda>i. dc_encrypt cfg (2 * i)) fs (jsprop args ''create'') of
              Inl e \<Rightarrow> (Inl (CryptoError e), s)
            | Inr create \<Rightarrow>
                (case encrypt_branch (\<lambda>i. dc_encrypt cfg (2 * i + 1)) fs (jsprop args ''update'') of
                   Inl e \<Rightarrow> (Inl (CryptoError e), s)
                 | Inr update \<Rightarrow>
                     then_decrypt (decryptFields (dc_decrypt cfg) fs)
                       (query (call\<lparr>pc_args := map_set ''update'' update (map_set ''create'' create args)\<rparr>) s)))
         else if pc_op call \<in> {OpFindUnique, OpFindFirst} then
           then_decrypt (decryptFields (dc_decrypt cfg) fs) (query call s)
         else if pc_op call = OpFindMany then
           then_decrypt (\<lambda>v. case v of
               VArr rows \<Rightarrow> (case try_map (decryptFields (dc_decrypt cfg) fs) rows of Inl e \<Rightarrow> Inl e | Inr rs \<Rightarrow> Inr (VArr rs))
             | _ \<Rightarrow> Inr v) (query call s)
         else query call s)"

section \<open>versionBump, audit, queryTracker\<close>

definition versionBumpExtension :: "('d, 'z) data_config_scheme \<Rightarrow> 'd prisma_query \<Rightarrow> 'd prisma_query" where
  "versionBumpExtension cfg query call s =
     (if pc_op call = OpUpdate \<and> pc_model call \<in> set (dc_versioned cfg) then
        let data = obj_prop (pc_args call) ''data'';
            next' = (if map_get data ''version'' = None then map_set ''version'' (VObj [(''increment'', VNum 1)]) data else data)
        in query (call\<lparr>pc_args := map_set ''data'' (VObj next') (pc_args call)\<rparr>) s
      else query call s)"

definition extractTenantIdFromRow :: "js_value \<Rightarrow> string option" where
  "extractTenantIdFromRow v = (case v of
     VObj r \<Rightarrow> (case jsprop r ''tenantId'' of VStr t \<Rightarrow> if t \<noteq> [] then Some t else None | _ \<Rightarrow> None)
   | _ \<Rightarrow> None)"

text \<open>\<open>String(id ?? "")\<close> of the identifiers the schema has: strings and integers.\<close>

definition extractTargetId :: "js_value \<Rightarrow> string" where
  "extractTargetId v = (case v of
     VObj r \<Rightarrow> (case jsprop r ''id'' of VStr i \<Rightarrow> i | VNum n \<Rightarrow> show_int n | _ \<Rightarrow> [])
   | _ \<Rightarrow> [])"

definition MODEL_TABLE_MAP :: "(string \<times> string) list" where
  "MODEL_TABLE_MAP = [(''Organization'', ''organization''), (''Member'', ''member''), (''Role'', ''roles''),
     (''RolePolicy'', ''role_policies''), (''Policy'', ''policies''), (''Permission'', ''permissions''),
     (''ApiKey'', ''api_keys''), (''User'', ''users''), (''UserProfile'', ''user_profiles''), (''File'', ''files''),
     (''Folder'', ''folders''), (''WebhookEndpoint'', ''webhook_endpoints'')]"

definition CORE_AUDITABLE_MODELS :: "string list" where
  "CORE_AUDITABLE_MODELS = [''Organization'', ''Member'', ''Role'', ''RolePolicy'', ''Policy'', ''Permission'', ''ApiKey'']"

text \<open>\<open>dc_rawSelect\<close> answers the raw query; a failing query counts as no row.  Every name of the table map passes
  the check of its characters.\<close>

definition readBeforeImage :: "('d, 'z) data_config_scheme \<Rightarrow> string \<Rightarrow> row \<Rightarrow> 'd \<Rightarrow> row option" where
  "readBeforeImage cfg model wh db =
     (case map_get MODEL_TABLE_MAP model of
        None \<Rightarrow> None
      | Some tableName \<Rightarrow>
          (case jsprop wh ''id'' of
             VStr i \<Rightarrow> if i = [] then None
                      else (case dc_rawSelect cfg tableName i db of Some (r # _) \<Rightarrow> Some r | _ \<Rightarrow> None)
           | _ \<Rightarrow> None))"

definition or_else :: "'a option \<Rightarrow> 'a option \<Rightarrow> 'a option" where
  "or_else a b = (case a of Some x \<Rightarrow> Some x | None \<Rightarrow> b)"

definition emitAuditRow ::
  "('d, 'z) data_config_scheme \<Rightarrow> string \<Rightarrow> audit_action \<Rightarrow> row \<Rightarrow> string \<Rightarrow> string option \<Rightarrow> js_value
    \<Rightarrow> 'd data_state \<Rightarrow> (data_error + js_value) \<times> 'd data_state" where
  "emitAuditRow cfg model action diff targetId tenantId res s =
     (case tenantId of
        None \<Rightarrow> (Inr res, s)
      | Some t \<Rightarrow>
          let r = \<lparr>au_tenantId = t, au_actorUserId = dc_lateUserId cfg, au_targetModel = model, au_targetId = targetId,
                   au_action = action, au_diff = diff,
                   au_metadata = map_option (\<lambda>r. [(''requestId'', VStr r)]) (dc_lateRequestId cfg)\<rparr>
          in if \<not> dc_auditEnabled cfg then (Inr res, s)
             else if dc_auditFails cfg r then (Inl AuditWriteError, s)
             else (Inr res, s\<lparr>ds_audit := ds_audit s @ [r]\<rparr>))"

definition row_value :: "row option \<Rightarrow> js_value" where
  "row_value r = (case r of None \<Rightarrow> VNull | Some r \<Rightarrow> VObj r)"

definition nullish_value :: "js_value \<Rightarrow> js_value \<Rightarrow> js_value" where
  "nullish_value a b = (if a \<in> {VUndefined, VNull} then b else a)"

definition auditExtension :: "('d, 'z) data_config_scheme \<Rightarrow> 'd prisma_query \<Rightarrow> 'd prisma_query" where
  "auditExtension cfg query call s =
     (let args = pc_args call; model = pc_model call; wh = obj_prop args ''where''; data = obj_prop args ''data'';
          auditable = (model \<in> set (dc_auditable cfg));
          before = (if auditable then readBeforeImage cfg model wh (ds_db s) else None)
      in if pc_op call \<in> {OpCreate, OpUpdate, OpDelete} \<and> auditable then
           (case query call s of
              (Inl e, s') \<Rightarrow> (Inl e, s')
            | (Inr res, s') \<Rightarrow>
                (case pc_op call of
                   OpCreate \<Rightarrow>
                     let after = nullish_value res (VObj data)
                     in emitAuditRow cfg model AuditCreate [(''after'', after)] (extractTargetId res)
                          (or_else (extractTenantIdFromRow after)
                            (or_else (extractTenantIdFromRow (VObj data)) (dc_lateTenantId cfg))) res s'
                 | OpUpdate \<Rightarrow>
                     emitAuditRow cfg model (if jsprop data ''deletedAt'' = VNull then AuditRestore else AuditUpdate)
                       (case before of Some b \<Rightarrow> [(''before'', VObj b), (''after'', nullish_value res (VObj data))]
                        | None \<Rightarrow> [(''after'', VObj data)])
                       (extractTargetId res)
                       (or_else (extractTenantIdFromRow res) (or_else (extractTenantIdFromRow (row_value before))
                         (or_else (extractTenantIdFromRow (VObj wh)) (dc_lateTenantId cfg)))) res s'
                 | _ \<Rightarrow>
                     emitAuditRow cfg model AuditDelete
                       (case before of Some b \<Rightarrow> [(''before'', VObj b)] | None \<Rightarrow> [(''where'', VObj wh)])
                       (extractTargetId res)
                       (or_else (extractTenantIdFromRow (row_value before)) (or_else (extractTenantIdFromRow res)
                         (or_else (extractTenantIdFromRow (VObj wh)) (dc_lateTenantId cfg)))) res s'))
         else query call s)"

definition queryTrackerExtension :: "'d prisma_query \<Rightarrow> 'd prisma_query" where
  "queryTrackerExtension query call s =
     (case query call s of (r, s') \<Rightarrow> (r, s'\<lparr>ds_queries := ds_queries s' @ [(pc_model call, pc_op call)]\<rparr>))"

section \<open>Blind index of the user's e-mail address\<close>

definition with_email_hash :: "(string \<Rightarrow> string option) \<Rightarrow> row \<Rightarrow> row" where
  "with_email_hash compute data = (case jsprop data ''email'' of
     VStr email \<Rightarrow> (case compute email of None \<Rightarrow> data | Some h \<Rightarrow> map_set ''emailHash'' (VStr h) data)
   | _ \<Rightarrow> data)"

definition userEmailBlindIndexExtension :: "('d, 'z) data_config_scheme \<Rightarrow> 'd prisma_query \<Rightarrow> 'd prisma_query" where
  "userEmailBlindIndexExtension cfg query call s =
     (case dc_blind cfg of
        None \<Rightarrow> query call s
      | Some compute \<Rightarrow>
          let args = pc_args call
          in if pc_model call \<noteq> ''User'' then query call s
             else if pc_op call \<in> {OpCreate, OpUpdate} then
               query (call\<lparr>pc_args := map_set ''data'' (VObj (with_email_hash compute (obj_prop args ''data''))) args\<rparr>) s
             else if pc_op call = OpUpsert then
               query (call\<lparr>pc_args := map (\<lambda>(k, v). if k \<in> {''create'', ''update''} then (k, on_object (with_email_hash compute) v) else (k, v)) args\<rparr>) s
             else query call s)"

section \<open>The extended client\<close>

definition extended_client :: "('d, 'z) data_config_scheme \<Rightarrow> 'd engine \<Rightarrow> 'd prisma_query" where
  "extended_client cfg engine =
     uuidV7Extension cfg
       (auditStampExtension cfg
         (softDeleteExtension
           (fieldEncryptionExtension cfg
             (versionBumpExtension cfg
               (auditExtension cfg
                 (queryTrackerExtension
                   (userEmailBlindIndexExtension cfg (engine_query engine))))))))"

definition client_softDelete :: "('d, 'z) data_config_scheme \<Rightarrow> 'd engine \<Rightarrow> string \<Rightarrow> js_value \<Rightarrow> millis \<Rightarrow> 'd data_state \<Rightarrow> (data_error + js_value) \<times> 'd data_state" where
  "client_softDelete cfg engine model wh now =
     extended_client cfg engine \<lparr>pc_model = model, pc_op = OpUpdate, pc_args = convertDeleteToSoftDelete wh now\<rparr>"

definition client_restore :: "('d, 'z) data_config_scheme \<Rightarrow> 'd engine \<Rightarrow> string \<Rightarrow> js_value \<Rightarrow> 'd data_state \<Rightarrow> (data_error + js_value) \<times> 'd data_state" where
  "client_restore cfg engine model wh =
     extended_client cfg engine \<lparr>pc_model = model, pc_op = OpUpdate, pc_args = convertRestoreToUpdate wh\<rparr>"

text \<open>What \<open>buildExtendedClient\<close> reads from the environment for encryption and the blind index: the fields to
  encrypt (none unless the feature is on and a key is given) with the two functions, and the hash.\<close>

definition encryption_config ::
  "gcm_cipher \<Rightarrow> (nat \<Rightarrow> nat list) \<Rightarrow> string option \<Rightarrow> string option \<Rightarrow> string option \<Rightarrow> string option \<Rightarrow> ('d, 'z) data_config_scheme
    \<Rightarrow> (('d, 'z) data_config_scheme) option" where
  "encryption_config g ivs feature modelFields kek legacy cfg =
     (case parseFieldEncryptionMap modelFields of
        None \<Rightarrow> None
      | Some m \<Rightarrow>
          if feature = Some ''true'' \<and> kek \<noteq> None \<and> m \<noteq> [] then
            (case kek_chain kek legacy of
               Inl e \<Rightarrow> None
             | Inr chain \<Rightarrow> Some (cfg\<lparr>dc_fields := m, dc_encrypt := (\<lambda>i. multi_encrypt g chain (ivs i)), dc_decrypt := multi_decrypt g chain\<rparr>))
          else Some (cfg\<lparr>dc_fields := [], dc_encrypt := (\<lambda>i. Inr), dc_decrypt := Inr\<rparr>))"

definition blind_config :: "(nat list \<Rightarrow> nat list \<Rightarrow> string) \<Rightarrow> string option \<Rightarrow> ('d, 'z) data_config_scheme \<Rightarrow> ('d, 'z) data_config_scheme" where
  "blind_config hmac envValue cfg = cfg\<lparr>dc_blind :=
     (case planBlindIndexFromEnv envValue of
        BlindAccepted key \<Rightarrow> (case new_blind_index key None of
            Inr bi \<Rightarrow> Some (\<lambda>email. blind_compute hmac bi (Some email)) | Inl e \<Rightarrow> None)
      | _ \<Rightarrow> None)\<rparr>"

text \<open>\<open>EncryptionModule\<close> refuses a key it cannot use, where the client above goes on without an index.\<close>

definition resolveBlindIndex :: "blind_index option \<Rightarrow> string option \<Rightarrow> string + blind_index option" where
  "resolveBlindIndex given envValue = (case given of
     Some bi \<Rightarrow> Inr (Some bi)
   | None \<Rightarrow> (case planBlindIndexFromEnv envValue of
        BlindAbsent \<Rightarrow> Inr None
      | BlindRejected reason \<Rightarrow> Inl (''EncryptionModule: '' @ reason)
      | BlindAccepted key \<Rightarrow> (case new_blind_index key None of Inl e \<Rightarrow> Inl ''blind-index'' | Inr bi \<Rightarrow> Inr (Some bi))))"

text \<open>The lookup by address; \<open>select\<close> answers the raw query on the hash column.\<close>

definition findUserByEmail :: "(string \<Rightarrow> string option) \<Rightarrow> (string \<Rightarrow> (string \<times> string) list) \<Rightarrow> string \<Rightarrow> (string \<times> string) option" where
  "findUserByEmail compute select email = (case compute email of
     None \<Rightarrow> None
   | Some hash \<Rightarrow> (case select hash of [] \<Rightarrow> None | r # _ \<Rightarrow> Some r))"

text \<open>\<open>runWithRlsTenant\<close>: the callback runs in a transaction with the tenant set, or not at all.\<close>

definition runWithRlsTenant ::
  "string option \<Rightarrow> string option \<Rightarrow> (string \<Rightarrow> 's \<Rightarrow> (data_error + 'a) \<times> 's) \<Rightarrow> 's \<Rightarrow> (data_error + 'a) \<times> 's" where
  "runWithRlsTenant tenantId current fn s =
     (let i = nullish tenantId (nullish current [])
      in if i = [] then (Inl TenantMissing, s)
         else if \<not> uuid_shaped i then (Inl TenantFormat, s)
         else (case fn i s of (Inl e, s') \<Rightarrow> (Inl e, s) | (Inr v, s') \<Rightarrow> (Inr v, s')))"

end
