(* ===== verification/Data_Guarantees.thy ===== *)
theory Data_Guarantees
  imports Data_Access
begin

text \<open>
  What the extended client guarantees: configured fields reach the database sealed and are read back as they were
  written, every audited change leaves one row in the audit log, deleted rows stay out of reads, and new rows
  land in the tenant of the request.
\<close>

section \<open>Closed forms of the chain\<close>

lemma map_set_twice: "map_set k v (map_set k w m) = map_set k v m"
  by (induction k w m rule: map_set.induct) auto

lemma map_set_same: "map_get m k = Some v \<Longrightarrow> map_set k v m = m"
  by (induction k v m rule: map_set.induct) (auto split: if_splits)

lemma jsprop_set: "jsprop (map_set k v m) k' = (if k' = k then v else jsprop m k')"
  by (simp add: jsprop_def map_get_set nullish_def)

lemma obj_prop_set: "obj_prop (map_set k (VObj d) m) k = d"
  by (simp add: obj_prop_def jsprop_set)

definition inner_query :: "('d, 'z) data_config_scheme \<Rightarrow> 'd engine \<Rightarrow> 'd prisma_query" where
  "inner_query cfg engine = queryTrackerExtension (userEmailBlindIndexExtension cfg (engine_query engine))"

definition new_id :: "('d, 'z) data_config_scheme \<Rightarrow> row \<Rightarrow> row" where
  "new_id cfg data = (if jsprop data ''id'' = VUndefined then map_set ''id'' (VStr (dc_uuid cfg 0)) data else data)"

definition model_fields :: "('d, 'z) data_config_scheme \<Rightarrow> string \<Rightarrow> string list" where
  "model_fields cfg m = nullish (map_get (dc_fields cfg) m) []"

lemma encrypt_data:
  assumes "op \<in> {OpCreate, OpUpdate}" "jsprop args ''data'' = VObj d"
  shows "fieldEncryptionExtension cfg q \<lparr>pc_model = m, pc_op = op, pc_args = args\<rparr> s =
     (case encrypt_fields (dc_encrypt cfg) 0 (model_fields cfg m) d of
        Inl e \<Rightarrow> (Inl (CryptoError e), s)
      | Inr d' \<Rightarrow> q \<lparr>pc_model = m, pc_op = op, pc_args = map_set ''data'' (VObj d') args\<rparr> s)"
proof -
  have "map_get args ''data'' = Some (VObj d)"
    using assms(2) by (cases "map_get args ''data''") (simp_all add: jsprop_def nullish_def)
  then show ?thesis
    using assms by (auto simp: fieldEncryptionExtension_def model_fields_def Let_def map_set_same split: sum.split)
qed

lemma client_create:
  "extended_client cfg engine \<lparr>pc_model = m, pc_op = OpCreate, pc_args = args\<rparr> s =
     (case encrypt_fields (dc_encrypt cfg) 0 (model_fields cfg m) (stampCreate cfg (new_id cfg (obj_prop args ''data''))) of
        Inl e \<Rightarrow> (Inl (CryptoError e), s)
      | Inr d \<Rightarrow> auditExtension cfg (inner_query cfg engine)
          \<lparr>pc_model = m, pc_op = OpCreate, pc_args = map_set ''data'' (VObj d) args\<rparr> s)"
  by (simp add: extended_client_def uuidV7Extension_def auditStampExtension_def softDeleteExtension_def
      versionBumpExtension_def inner_query_def new_id_def Let_def obj_prop_set map_set_twice encrypt_data jsprop_set
      split: sum.split)

definition bump :: "('d, 'z) data_config_scheme \<Rightarrow> string \<Rightarrow> row \<Rightarrow> row" where
  "bump cfg m d = (if m \<in> set (dc_versioned cfg) \<and> map_get d ''version'' = None
     then map_set ''version'' (VObj [(''increment'', VNum 1)]) d else d)"

lemma client_update:
  "extended_client cfg engine \<lparr>pc_model = m, pc_op = OpUpdate, pc_args = args\<rparr> s =
     (case encrypt_fields (dc_encrypt cfg) 0 (model_fields cfg m) (stampUpdate cfg (obj_prop args ''data'')) of
        Inl e \<Rightarrow> (Inl (CryptoError e), s)
      | Inr d \<Rightarrow> auditExtension cfg (inner_query cfg engine)
          \<lparr>pc_model = m, pc_op = OpUpdate, pc_args = map_set ''data'' (VObj (bump cfg m d)) args\<rparr> s)"
  by (simp add: extended_client_def uuidV7Extension_def auditStampExtension_def softDeleteExtension_def
      versionBumpExtension_def inner_query_def bump_def Let_def obj_prop_set map_set_twice encrypt_data jsprop_set
      split: sum.split)

text \<open>The audit log and the query buffer are written beside the database: the database sees one call.\<close>

definition hashed :: "('d, 'z) data_config_scheme \<Rightarrow> string \<Rightarrow> row \<Rightarrow> row" where
  "hashed cfg m d = (case dc_blind cfg of Some compute \<Rightarrow> if m = ''User'' then with_email_hash compute d else d | None \<Rightarrow> d)"

lemma audit_frame:
  "ds_db (snd (auditExtension cfg q call s)) = ds_db (snd (q call s))"
  by (auto simp: auditExtension_def emitAuditRow_def Let_def split: sum.split prod.split option.split prisma_op.split)

lemma engine_query_db: "ds_db (snd (engine_query engine call s)) = snd (engine call (ds_db s))"
  by (simp add: engine_query_def split: prod.split sum.split)

lemma engine_query_frame: "ds_audit (snd (engine_query engine call s)) = ds_audit s"
  by (simp add: engine_query_def split: prod.split sum.split)

lemma inner_query_write:
  assumes "op \<in> {OpCreate, OpUpdate}"
  shows "ds_db (snd (inner_query cfg engine \<lparr>pc_model = m, pc_op = op, pc_args = map_set ''data'' (VObj d) args\<rparr> s)) =
     snd (engine \<lparr>pc_model = m, pc_op = op, pc_args = map_set ''data'' (VObj (hashed cfg m d)) args\<rparr> (ds_db s))"
  using assms
  by (auto simp: inner_query_def queryTrackerExtension_def userEmailBlindIndexExtension_def hashed_def Let_def
      obj_prop_set map_set_twice engine_query_db split: option.split prod.split)
    (metis engine_query_db snd_conv)+

lemma no_fields [simp]:
  "encrypt_branch enc [] v = Inr v" "decryptFields dec [] = Inr" "then_decrypt Inr rs = rs"
  by (simp_all add: encrypt_branch_def decryptFields_def then_decrypt_def fun_eq_iff split: js_value.split prod.split sum.split)

lemma client_upsert:
  assumes "args' = map_set ''update'' (on_object (stampUpdate cfg) (jsprop args ''update''))
                  (map_set ''create'' (on_object (stampCreate cfg) (jsprop args ''create'')) args)"
  shows "extended_client cfg engine \<lparr>pc_model = m, pc_op = OpUpsert, pc_args = args\<rparr> s =
     (case encrypt_branch (\<lambda>i. dc_encrypt cfg (2 * i)) (model_fields cfg m) (jsprop args' ''create'') of
        Inl e \<Rightarrow> (Inl (CryptoError e), s)
      | Inr create \<Rightarrow>
          (case encrypt_branch (\<lambda>i. dc_encrypt cfg (2 * i + 1)) (model_fields cfg m) (jsprop args' ''update'') of
             Inl e \<Rightarrow> (Inl (CryptoError e), s)
           | Inr update \<Rightarrow> then_decrypt (decryptFields (dc_decrypt cfg) (model_fields cfg m))
               (inner_query cfg engine \<lparr>pc_model = m, pc_op = OpUpsert,
                  pc_args = map_set ''update'' update (map_set ''create'' create args')\<rparr> s)))"
proof -
  have same: "map_set ''update'' (jsprop args' ''update'') (map_set ''create'' (jsprop args' ''create'') args') = args'"
    using assms by (simp add: map_set_same jsprop_set map_get_set)
  have "extended_client cfg engine \<lparr>pc_model = m, pc_op = OpUpsert, pc_args = args\<rparr> s =
      fieldEncryptionExtension cfg (versionBumpExtension cfg (auditExtension cfg (inner_query cfg engine)))
        \<lparr>pc_model = m, pc_op = OpUpsert, pc_args = args'\<rparr> s"
    by (simp add: extended_client_def uuidV7Extension_def auditStampExtension_def softDeleteExtension_def
        inner_query_def Let_def assms)
  also have "versionBumpExtension cfg (auditExtension cfg q) \<lparr>pc_model = m, pc_op = OpUpsert, pc_args = a\<rparr> s =
      q \<lparr>pc_model = m, pc_op = OpUpsert, pc_args = a\<rparr> s" for q :: "'a prisma_query" and a s
    by (simp add: versionBumpExtension_def auditExtension_def Let_def)
  ultimately show ?thesis
    by (simp add: fieldEncryptionExtension_def model_fields_def Let_def same split: sum.split)
qed

section \<open>Sealed at rest\<close>

definition sealed_at :: "(nat \<Rightarrow> string \<Rightarrow> enc_error + string) \<Rightarrow> row \<Rightarrow> string \<Rightarrow> bool" where
  "sealed_at enc d f \<longleftrightarrow> (\<forall>v. jsprop d f = VStr v \<longrightarrow> (\<exists>i p. enc i p = Inr v))"

lemma encrypt_fields_sealed:
  "encrypt_fields enc i fs d = Inr d' \<Longrightarrow> f \<in> set fs \<or> sealed_at enc d f \<Longrightarrow> sealed_at enc d' f"
proof (induction fs arbitrary: i d)
  case (Cons g fs)
  show ?case
  proof (cases "\<exists>v. jsprop d g = VStr v")
    case True
    with Cons.prems(1) obtain v c where c: "enc i v = Inr c" "encrypt_fields enc (Suc i) fs (map_set g (VStr c) d) = Inr d'"
      by (auto split: sum.splits)
    have "f \<in> set fs \<or> sealed_at enc (map_set g (VStr c) d) f"
      using Cons.prems(2) c(1) by (auto simp: sealed_at_def jsprop_set)
    with Cons.IH [OF c(2)] show ?thesis by simp
  next
    case False
    then have "encrypt_fields enc (Suc i) fs d = Inr d'" using Cons.prems(1) by (cases "jsprop d g") simp_all
    moreover have "f \<in> set fs \<or> sealed_at enc d f" using Cons.prems(2) False by (auto simp: sealed_at_def)
    ultimately show ?thesis by (rule Cons.IH)
  qed
qed simp

definition written_rows :: "prisma_call \<Rightarrow> row list" where
  "written_rows call = (if pc_op call = OpUpsert then [obj_prop (pc_args call) ''create'', obj_prop (pc_args call) ''update'']
     else [obj_prop (pc_args call) ''data''])"

lemma hashed_jsprop: "f \<noteq> ''emailHash'' \<Longrightarrow> jsprop (hashed cfg m d) f = jsprop d f"
  by (simp add: hashed_def with_email_hash_def jsprop_set split: option.split js_value.split)

lemma with_hash_jsprop: "f \<noteq> ''emailHash'' \<Longrightarrow> jsprop (with_email_hash c d) f = jsprop d f"
  by (simp add: with_email_hash_def jsprop_set split: option.split js_value.split)

lemma bump_jsprop: "sealed_at enc d f \<Longrightarrow> sealed_at enc (bump cfg m d) f"
  by (auto simp: sealed_at_def bump_def jsprop_set)

lemma sealed_write:
  assumes "op \<in> {OpCreate, OpUpdate}" "\<forall>f\<in>set fs. sealed_at enc d f" "''emailHash'' \<notin> set fs"
    "auditExtension cfg (inner_query cfg engine) \<lparr>pc_model = m, pc_op = op, pc_args = map_set ''data'' (VObj d) args\<rparr> s = (r, s')"
  shows "\<exists>call. ds_db s' = snd (engine call (ds_db s)) \<and> (\<forall>r\<in>set (written_rows call). \<forall>f\<in>set fs. sealed_at enc r f)"
proof -
  let ?call = "\<lparr>pc_model = m, pc_op = op, pc_args = map_set ''data'' (VObj (hashed cfg m d)) args\<rparr>"
  have "ds_db s' = snd (engine ?call (ds_db s))"
    using assms(1) audit_frame [of cfg "inner_query cfg engine" "\<lparr>pc_model = m, pc_op = op, pc_args = map_set ''data'' (VObj d) args\<rparr>" s]
    by (simp add: assms(4) inner_query_write)
  moreover have "\<forall>r\<in>set (written_rows ?call). \<forall>f\<in>set fs. sealed_at enc r f"
    using assms(1-3) by (auto simp: written_rows_def obj_prop_set sealed_at_def) (metis hashed_jsprop)+
  ultimately show ?thesis by blast
qed

lemma branch_sealed:
  assumes "encrypt_branch enc fs v = Inr w" "f \<in> set fs"
  shows "\<forall>r. w = VObj r \<longrightarrow> sealed_at enc r f"
  using assms encrypt_fields_sealed by (cases v) (auto simp: encrypt_branch_def split: sum.splits)

lemma then_decrypt_db: "ds_db (snd (then_decrypt f rs)) = ds_db (snd rs)"
  by (simp add: then_decrypt_def split: prod.split sum.split)

lemma tracker_frame:
  "ds_db (snd (queryTrackerExtension q call s)) = ds_db (snd (q call s))"
  "ds_audit (snd (queryTrackerExtension q call s)) = ds_audit (snd (q call s))"
  "fst (queryTrackerExtension q call s) = fst (q call s)"
  by (simp_all add: queryTrackerExtension_def split: prod.split)

text \<open>The hash companion is the only key the blind index adds to the branches of an upsert.\<close>

lemma inner_query_upsert:
  "\<exists>call. ds_db (snd (inner_query cfg engine \<lparr>pc_model = m, pc_op = OpUpsert, pc_args = args\<rparr> s)) = snd (engine call (ds_db s))
     \<and> pc_op call = OpUpsert
     \<and> (\<forall>k\<in>{''create'', ''update''}. \<forall>f. f \<noteq> ''emailHash'' \<longrightarrow> jsprop (obj_prop (pc_args call) k) f = jsprop (obj_prop args k) f)"
proof -
  have map_hash: "map_get (map (\<lambda>(k, v). if k \<in> K then (k, g v) else (k, v)) a) k =
      (if k \<in> K then map_option g (map_get a k) else map_get a k)" for K :: "string set" and g :: "js_value \<Rightarrow> js_value" and a k
    by (induction a) auto
  have obj: "jsprop (obj_prop (map (\<lambda>(k, v). if k \<in> {''create'', ''update''} then (k, on_object (with_email_hash c) v) else (k, v)) args) k) f =
      jsprop (obj_prop args k) f" if "k \<in> {''create'', ''update''}" "f \<noteq> ''emailHash''" for c k f
  proof -
    have u: "on_object (with_email_hash c) VUndefined = VUndefined" by (simp add: on_object_def)
    have "jsprop (map (\<lambda>(k, v). if k \<in> {''create'', ''update''} then (k, on_object (with_email_hash c) v) else (k, v)) args) k =
        on_object (with_email_hash c) (jsprop args k)"
      unfolding jsprop_def map_hash using that(1) u by (cases "map_get args k") (simp_all add: nullish_def)
    then show ?thesis
      using with_hash_jsprop [OF that(2)] by (simp add: obj_prop_def on_object_def split: js_value.split)
  qed
  let ?hash = "\<lambda>c. map (\<lambda>(k, v). if k \<in> {''create'', ''update''} then (k, on_object (with_email_hash c) v) else (k, v)) args"
  define args' where "args' = (case dc_blind cfg of Some c \<Rightarrow> if m = ''User'' then ?hash c else args | None \<Rightarrow> args)"
  have "ds_db (snd (inner_query cfg engine \<lparr>pc_model = m, pc_op = OpUpsert, pc_args = args\<rparr> s)) =
      snd (engine \<lparr>pc_model = m, pc_op = OpUpsert, pc_args = args'\<rparr> (ds_db s))"
    by (simp add: inner_query_def tracker_frame userEmailBlindIndexExtension_def Let_def engine_query_db args'_def split: option.split)
  moreover have "jsprop (obj_prop args' k) f = jsprop (obj_prop args k) f" if "k \<in> {''create'', ''update''}" "f \<noteq> ''emailHash''" for k f
    unfolding args'_def using obj [OF that] by (simp split: option.split)
  ultimately show ?thesis
    by (intro exI [where x = "\<lparr>pc_model = m, pc_op = OpUpsert, pc_args = args'\<rparr>"]) simp
qed

lemma branch_object_sealed:
  assumes "encrypt_branch (\<lambda>i. enc (g i)) fs v = Inr w" "f \<in> set fs"
  shows "sealed_at enc (case w of VObj o' \<Rightarrow> o' | _ \<Rightarrow> []) f"
proof (cases "\<exists>r. w = VObj r")
  case True
  then show ?thesis using branch_sealed [OF assms] unfolding sealed_at_def by fastforce
next
  case False
  then have "(case w of VObj o' \<Rightarrow> o' | _ \<Rightarrow> []) = []" by (cases w) simp_all
  then show ?thesis by (simp add: sealed_at_def jsprop_def nullish_def)
qed

lemma sealed_upsert:
  assumes fs: "model_fields cfg m = fs" and hash: "''emailHash'' \<notin> set fs"
    and run: "extended_client cfg engine \<lparr>pc_model = m, pc_op = OpUpsert, pc_args = args\<rparr> s = (r, s')"
  shows "(\<exists>e. r = Inl (CryptoError e) \<and> s' = s) \<or>
     (\<exists>call. ds_db s' = snd (engine call (ds_db s)) \<and>
        (\<forall>row\<in>set (written_rows call). \<forall>f\<in>set fs. sealed_at (dc_encrypt cfg) row f))"
proof -
  define args' where "args' = map_set ''update'' (on_object (stampUpdate cfg) (jsprop args ''update''))
      (map_set ''create'' (on_object (stampCreate cfg) (jsprop args ''create'')) args)"
  let ?c = "encrypt_branch (\<lambda>i. dc_encrypt cfg (2 * i)) fs (jsprop args' ''create'')"
  let ?u = "encrypt_branch (\<lambda>i. dc_encrypt cfg (2 * i + 1)) fs (jsprop args' ''update'')"
  note run' = run [unfolded client_upsert [OF args'_def] fs]
  show ?thesis
  proof (cases "\<exists>cr up. ?c = Inr cr \<and> ?u = Inr up")
    case True
    then obtain cr up where b: "?c = Inr cr" "?u = Inr up" by blast
    let ?args = "map_set ''update'' up (map_set ''create'' cr args')"
    from inner_query_upsert [of cfg engine m ?args s] obtain call where
      call: "ds_db (snd (inner_query cfg engine \<lparr>pc_model = m, pc_op = OpUpsert, pc_args = ?args\<rparr> s)) = snd (engine call (ds_db s))"
      "pc_op call = OpUpsert"
      "\<And>k f. k \<in> {''create'', ''update''} \<Longrightarrow> f \<noteq> ''emailHash'' \<Longrightarrow> jsprop (obj_prop (pc_args call) k) f = jsprop (obj_prop ?args k) f"
      by blast
    have "s' = snd (then_decrypt (decryptFields (dc_decrypt cfg) fs) (inner_query cfg engine \<lparr>pc_model = m, pc_op = OpUpsert, pc_args = ?args\<rparr> s))"
      using run' b by simp
    then have db: "ds_db s' = snd (engine call (ds_db s))" using call(1) by (simp add: then_decrypt_db)
    have "sealed_at (dc_encrypt cfg) (obj_prop (pc_args call) k) f" if "f \<in> set fs" "k \<in> {''create'', ''update''}" for k f
    proof -
      have "sealed_at (dc_encrypt cfg) (obj_prop ?args k) f"
        using branch_object_sealed [of "dc_encrypt cfg" "\<lambda>i. 2 * i", OF b(1) that(1)]
          branch_object_sealed [of "dc_encrypt cfg" "\<lambda>i. 2 * i + 1", OF b(2) that(1)] that(2)
        by (auto simp: obj_prop_def jsprop_set)
      moreover have "f \<noteq> ''emailHash''" using hash that(1) by blast
      ultimately show ?thesis using call(3) [OF that(2)] unfolding sealed_at_def by metis
    qed
    then show ?thesis using db call(2) by (auto simp: written_rows_def)
  next
    case False
    then show ?thesis using run' by (auto split: sum.splits)
  qed
qed

text \<open>C20: A configured field is never stored in the clear.  Whatever \<open>create\<close>, \<open>update\<close> and \<open>upsert\<close> do, the
  database is either left alone (no key) or receives one call in which every string of a configured field is
  the output of the cipher.\<close>

theorem configured_fields_are_sealed:
  assumes "op \<in> {OpCreate, OpUpdate, OpUpsert}" "map_get (dc_fields cfg) m = Some fs" "''emailHash'' \<notin> set fs"
    "extended_client cfg engine \<lparr>pc_model = m, pc_op = op, pc_args = args\<rparr> s = (r, s')"
  shows "(\<exists>e. r = Inl (CryptoError e) \<and> s' = s) \<or>
     (\<exists>call. ds_db s' = snd (engine call (ds_db s)) \<and>
        (\<forall>row\<in>set (written_rows call). \<forall>f\<in>set fs. sealed_at (dc_encrypt cfg) row f))"
proof -
  have fs: "model_fields cfg m = fs" using assms(2) by (simp add: model_fields_def nullish_def)
  have e: "f \<in> set fs \<Longrightarrow> encrypt_fields (dc_encrypt cfg) 0 fs d = Inr d' \<Longrightarrow> sealed_at (dc_encrypt cfg) d' f" for d d' f
    using encrypt_fields_sealed by blast
  consider "op = OpCreate" | "op = OpUpdate" | "op = OpUpsert" using assms(1) by blast
  then show ?thesis
  proof cases
    case 1
    show ?thesis
    proof (cases "encrypt_fields (dc_encrypt cfg) 0 fs (stampCreate cfg (new_id cfg (obj_prop args ''data'')))")
      case (Inr d)
      then have "auditExtension cfg (inner_query cfg engine) \<lparr>pc_model = m, pc_op = OpCreate, pc_args = map_set ''data'' (VObj d) args\<rparr> s = (r, s')"
        using assms(4) 1 by (simp add: client_create fs)
      from sealed_write [OF _ _ assms(3) this] show ?thesis using e [OF _ Inr] by simp
    qed (use assms(4) 1 in \<open>auto simp: client_create fs\<close>)
  next
    case 2
    show ?thesis
    proof (cases "encrypt_fields (dc_encrypt cfg) 0 fs (stampUpdate cfg (obj_prop args ''data''))")
      case (Inr d)
      then have "auditExtension cfg (inner_query cfg engine) \<lparr>pc_model = m, pc_op = OpUpdate, pc_args = map_set ''data'' (VObj (bump cfg m d)) args\<rparr> s = (r, s')"
        using assms(4) 2 by (simp add: client_update fs)
      from sealed_write [OF _ _ assms(3) this, of "dc_encrypt cfg"] show ?thesis using bump_jsprop [OF e [OF _ Inr], of _ cfg m] by blast
    qed (use assms(4) 2 in \<open>auto simp: client_update fs\<close>)
  next
    case 3
    then show ?thesis using sealed_upsert [OF fs assms(3)] assms(4) by blast
  qed
qed

text \<open>\<open>createMany\<close> is not covered: its rows are stored as they come.\<close>

lemma createMany_stores_plaintext:
  "ds_db (snd (extended_client cfg engine \<lparr>pc_model = m, pc_op = OpCreateMany, pc_args = [(''data'', VArr rows)]\<rparr> s)) =
   snd (engine \<lparr>pc_model = m, pc_op = OpCreateMany,
     pc_args = [(''data'', VArr (map (\<lambda>(i, item). with_id cfg i item) (enumerate 0 rows)))]\<rparr> (ds_db s))"
  by (simp add: extended_client_def uuidV7Extension_def auditStampExtension_def softDeleteExtension_def
      fieldEncryptionExtension_def versionBumpExtension_def auditExtension_def userEmailBlindIndexExtension_def
      tracker_frame engine_query_db jsprop_def nullish_def Let_def split: option.split)

text \<open>With \<open>User.email\<close> among the encrypted fields, the blind index hashes the ciphertext: the extension runs
  after the encryption, so a lookup by address never finds the row.\<close>

lemma blind_index_hashes_ciphertext:
  assumes "map_get (dc_fields cfg) ''User'' = Some [''email'']" "dc_blind cfg = Some compute"
    "jsprop (obj_prop args ''data'') ''email'' = VStr email" "dc_encrypt cfg 0 email = Inr c" "compute c = Some h"
  shows "\<exists>call. ds_db (snd (extended_client cfg engine \<lparr>pc_model = ''User'', pc_op = OpCreate, pc_args = args\<rparr> s)) =
      snd (engine call (ds_db s)) \<and> jsprop (obj_prop (pc_args call) ''data'') ''emailHash'' = VStr h"
proof -
  have email: "jsprop (stampCreate cfg (new_id cfg d)) ''email'' = jsprop d ''email''" for d
    by (auto simp: stampCreate_def new_id_def set_if_undefined_def jsprop_set Let_def split: option.split)
  define d where "d = map_set ''email'' (VStr c) (stampCreate cfg (new_id cfg (obj_prop args ''data'')))"
  have "encrypt_fields (dc_encrypt cfg) 0 (model_fields cfg ''User'') (stampCreate cfg (new_id cfg (obj_prop args ''data''))) = Inr d"
    using assms email by (simp add: model_fields_def nullish_def d_def)
  then have "ds_db (snd (extended_client cfg engine \<lparr>pc_model = ''User'', pc_op = OpCreate, pc_args = args\<rparr> s)) =
      snd (engine \<lparr>pc_model = ''User'', pc_op = OpCreate, pc_args = map_set ''data'' (VObj (hashed cfg ''User'' d)) args\<rparr> (ds_db s))"
    by (simp add: client_create audit_frame inner_query_write)
  moreover have "jsprop (hashed cfg ''User'' d) ''emailHash'' = VStr h"
    using assms(2,5) by (simp add: hashed_def with_email_hash_def d_def jsprop_set)
  ultimately show ?thesis by (metis obj_prop_set prisma_call.select_convs(3))
qed

section \<open>Read back as written\<close>

lemma encrypt_fields_pointwise:
  assumes "distinct fs" "encrypt_fields enc i fs d = Inr d'"
  shows "f \<notin> set fs \<Longrightarrow> jsprop d' f = jsprop d f"
    "f \<in> set fs \<Longrightarrow> (\<exists>j p c. jsprop d f = VStr p \<and> jsprop d' f = VStr c \<and> enc j p = Inr c)
       \<or> ((\<forall>p. jsprop d f \<noteq> VStr p) \<and> jsprop d' f = jsprop d f)"
  using assms
proof (induction fs arbitrary: i d)
  case (Cons g fs)
  {
    case 1
    then show ?case using Cons.IH(1) by (cases "jsprop d g") (auto simp: jsprop_set split: sum.splits)
  next
    case 2
    show ?case
    proof (cases "\<exists>v. jsprop d g = VStr v")
      case True
      with 2(3) obtain v c where c: "jsprop d g = VStr v" "enc i v = Inr c" "encrypt_fields enc (Suc i) fs (map_set g (VStr c) d) = Inr d'"
        by (auto split: sum.splits)
      show ?thesis
      proof (cases "f = g")
        case True
        then have "jsprop d' f = VStr c" using Cons.IH(1) [OF _ _ c(3)] 2(2) by (simp add: jsprop_set)
        then show ?thesis using c True by blast
      next
        case False
        then show ?thesis using Cons.IH(2) [OF _ _ c(3)] 2(1,2) by (simp add: jsprop_set)
      qed
    next
      case False
      then have "encrypt_fields enc (Suc i) fs d = Inr d'" using 2(3) by (cases "jsprop d g") simp_all
      then show ?thesis using Cons.IH [of "Suc i" d] 2(1,2) False by (cases "f = g") auto
    qed
  }
qed simp_all

lemma decrypt_row_pointwise:
  assumes "distinct fs" "\<And>f v. f \<in> set fs \<Longrightarrow> jsprop r f = VStr v \<Longrightarrow> dec v = Inr (D f)"
  shows "\<exists>r'. decrypt_row dec fs r = Inr r' \<and>
    (\<forall>f. jsprop r' f = (if f \<in> set fs \<and> (\<exists>v. jsprop r f = VStr v) then VStr (D f) else jsprop r f))"
  using assms
proof (induction fs arbitrary: r)
  case (Cons g fs)
  show ?case
  proof (cases "\<exists>v. jsprop r g = VStr v")
    case True
    then obtain v where v: "jsprop r g = VStr v" "dec v = Inr (D g)" using Cons.prems(2) by auto
    have "\<exists>r'. decrypt_row dec fs (map_set g (VStr (D g)) r) = Inr r' \<and>
      (\<forall>f. jsprop r' f = (if f \<in> set fs \<and> (\<exists>v. jsprop (map_set g (VStr (D g)) r) f = VStr v) then VStr (D f)
         else jsprop (map_set g (VStr (D g)) r) f))"
      using Cons.prems by (intro Cons.IH) (auto simp: jsprop_set split: if_splits)
    then show ?thesis using v Cons.prems(1) by (auto simp: jsprop_set)
  next
    case False
    then have "decrypt_row dec (g # fs) r = decrypt_row dec fs r" by (cases "jsprop r g") simp_all
    then show ?thesis using Cons.IH [of r] Cons.prems False by auto
  qed
qed simp

lemma parse_pairs_distinct:
  "\<forall>(m, fs)\<in>set result. distinct fs \<Longrightarrow> parse_pairs raws result = Some out \<Longrightarrow> \<forall>(m, fs)\<in>set out. distinct fs"
proof (induction raws arbitrary: result)
  case (Cons raw raws)
  show ?case
  proof (cases "parse_pair raw")
    case None
    then show ?thesis using Cons by simp
  next
    case (Some mf)
    then obtain m f where mf: "parse_pair raw = Some (m, f)" by (cases mf) simp
    let ?fs = "nullish (map_get result m) []"
    let ?new = "if f \<in> set ?fs then ?fs else ?fs @ [f]"
    have "distinct ?fs" using Cons.prems(1) by (auto simp: nullish_def split: option.split dest: map_of_SomeD)
    then have new: "distinct ?new" by simp
    have "set (map_set k v r) \<subseteq> insert (k, v) (set r)" for k v and r :: "(string \<times> string list) list"
      by (induction k v r rule: map_set.induct) auto
    then have "\<forall>(m, fs)\<in>set (map_set m ?new result). distinct fs" using Cons.prems(1) new by blast
    then show ?thesis using Cons.IH Cons.prems(2) mf by (simp add: Let_def split: if_splits)
  qed
qed simp

lemma parsed_fields_distinct:
  "parseFieldEncryptionMap inp = Some m \<Longrightarrow> map_get m model = Some fs \<Longrightarrow> distinct fs"
  using parse_pairs_distinct [of "[]"] by (fastforce simp: parseFieldEncryptionMap_def split: if_splits dest: map_of_SomeD)

lemma audit_result: "fst (auditExtension cfg q call s) = Inr v \<Longrightarrow> fst (q call s) = Inr v"
  by (auto simp: auditExtension_def emitAuditRow_def Let_def split: sum.splits prod.splits option.splits prisma_op.splits if_splits)

lemma inner_query_result:
  assumes "op \<in> {OpCreate, OpUpdate}"
    "fst (inner_query cfg engine \<lparr>pc_model = m, pc_op = op, pc_args = map_set ''data'' (VObj d) args\<rparr> s) = Inr v"
  shows "\<exists>db. engine \<lparr>pc_model = m, pc_op = op, pc_args = map_set ''data'' (VObj (hashed cfg m d)) args\<rparr> (ds_db s) = (Inr v, db)"
  using assms
  by (auto simp: inner_query_def tracker_frame userEmailBlindIndexExtension_def hashed_def Let_def
      obj_prop_set map_set_twice engine_query_def split: option.splits prod.splits sum.splits if_splits)

lemma client_findFirst:
  assumes "jsprop q ''includeDeleted'' \<noteq> VBool True"
    "engine \<lparr>pc_model = m, pc_op = OpFindFirst, pc_args = addSoftDeleteFilter q False\<rparr> (ds_db s) = (Inr v, db)"
  shows "fst (extended_client cfg engine \<lparr>pc_model = m, pc_op = OpFindFirst, pc_args = q\<rparr> s) =
     (case decryptFields (dc_decrypt cfg) (model_fields cfg m) v of Inl e \<Rightarrow> Inl (CryptoError e) | Inr v' \<Rightarrow> Inr v')"
  using assms
  by (auto simp: extended_client_def uuidV7Extension_def auditStampExtension_def softDeleteExtension_def
      fieldEncryptionExtension_def versionBumpExtension_def auditExtension_def userEmailBlindIndexExtension_def
      queryTrackerExtension_def engine_query_def then_decrypt_def model_fields_def Let_def
      split: option.split sum.split)

lemma primary_round_trip:
  assumes "gcm_exact g" "good_key k" "good_iv iv"
  shows "\<exists>c. multi_encrypt g (Inr k # rest) iv p = Inr c \<and> multi_decrypt g (Inr k # rest) c = Inr p"
proof -
  obtain tag ct where s: "gcm_seal g k iv (utf8_encode p) = (tag, ct)" by fastforce
  have k: "length k = KEK_BYTES" using assms(2) by (simp add: good_key_def)
  obtain c where c: "field_encrypt g (Inr k) iv p = Inr c" using k s by (simp add: field_encrypt_def assertKey_def)
  note v = sealed_value [OF assms(1,3) k c s]
  have "field_decrypt g (Inr k) c = Inr p"
    using v(2) [OF k] gcm_exactD(1) [OF assms(1), of k iv tag ct "utf8_encode p"] s by simp
  then show ?thesis using c v(1) by (simp add: multi_encrypt_def multi_decrypt_def)
qed

text \<open>What the database promises for a row it has just accepted under the identifier \<open>i\<close>: the query for the live row of that
  identifier returns it, with the texts it was given for the fields \<open>fs\<close>, and no text where it was given null or nothing
  (the columns have no default text).\<close>

definition by_id :: "string \<Rightarrow> row" where
  "by_id i = [(''where'', VObj [(''id'', VStr i)])]"

definition finds_created :: "'d engine \<Rightarrow> string \<Rightarrow> string list \<Rightarrow> bool" where
  "finds_created engine m fs \<longleftrightarrow>
     (\<forall>args db v db' i. engine \<lparr>pc_model = m, pc_op = OpCreate, pc_args = args\<rparr> db = (Inr v, db') \<longrightarrow>
        jsprop (obj_prop args ''data'') ''id'' = VStr i \<longrightarrow> jsprop (obj_prop args ''data'') ''deletedAt'' \<in> {VUndefined, VNull} \<longrightarrow>
        (\<exists>row db''. engine \<lparr>pc_model = m, pc_op = OpFindFirst, pc_args = addSoftDeleteFilter (by_id i) False\<rparr> db' = (Inr (VObj row), db'')
           \<and> (\<forall>f\<in>set fs. (\<forall>t. jsprop (obj_prop args ''data'') f = VStr t \<longrightarrow> jsprop row f = VStr t)
                \<and> (jsprop (obj_prop args ''data'') f \<in> {VUndefined, VNull} \<longrightarrow> (\<forall>t. jsprop row f \<noteq> VStr t)))))"

lemma set_if_undefined_keeps: "jsprop d f = VStr p \<Longrightarrow> jsprop (set_if_undefined k v d) f = VStr p"
  by (cases "f = k") (simp_all add: set_if_undefined_def jsprop_set)

lemma stamped_string: "jsprop d f = VStr p \<Longrightarrow> jsprop (stampCreate cfg (new_id cfg d)) f = VStr p"
proof -
  assume "jsprop d f = VStr p"
  then have "jsprop (new_id cfg d) f = VStr p" by (cases "f = ''id''") (simp_all add: new_id_def jsprop_set)
  then show ?thesis by (simp add: stampCreate_def Let_def set_if_undefined_keeps split: option.split)
qed

lemma encryption_on:
  assumes "encryption_config g ivs (Some ''true'') fieldsVar (Some (base64url_encode k))
      (Some (join '','' (map base64url_encode legacy))) cfg0 = Some cfg"
    "good_key k" "\<forall>k\<in>set legacy. good_key k" "model_fields cfg m = fs" "fs \<noteq> []"
  shows "distinct fs" "dc_encrypt cfg = (\<lambda>i. multi_encrypt g (Inr k # map Inr legacy) (ivs i))"
    "dc_decrypt cfg = multi_decrypt g (Inr k # map Inr legacy)"
proof -
  obtain mp where mp: "parseFieldEncryptionMap fieldsVar = Some mp" using assms(1) by (auto simp: encryption_config_def split: option.splits)
  have cfg: "cfg = cfg0\<lparr>dc_fields := mp, dc_encrypt := (\<lambda>i. multi_encrypt g (Inr k # map Inr legacy) (ivs i)),
      dc_decrypt := multi_decrypt g (Inr k # map Inr legacy)\<rparr>"
    using assms(1,4,5) mp kek_chain_env [OF assms(2,3)]
    by (auto simp: encryption_config_def model_fields_def nullish_def split: if_splits)
  show "dc_encrypt cfg = (\<lambda>i. multi_encrypt g (Inr k # map Inr legacy) (ivs i))"
    "dc_decrypt cfg = multi_decrypt g (Inr k # map Inr legacy)" by (simp_all add: cfg)
  have "map_get mp m = Some fs"
    using assms(4,5) by (cases "map_get mp m") (simp_all add: cfg model_fields_def nullish_def)
  then show "distinct fs" by (rule parsed_fields_distinct [OF mp])
qed

lemma row_reads_back:
  assumes "distinct fs" "encrypt_fields enc 0 fs d0 = Inr d"
    and inv: "\<And>i p c f. f \<in> set fs \<Longrightarrow> enc i p = Inr c \<Longrightarrow> dec c = Inr p"
    and row: "\<And>f. f \<in> set fs \<Longrightarrow> jsprop row f = jsprop d f \<or> ((\<forall>t. jsprop d f \<noteq> VStr t) \<and> (\<forall>t. jsprop row f \<noteq> VStr t))"
  shows "\<exists>row'. decrypt_row dec fs row = Inr row' \<and> (\<forall>f\<in>set fs. \<forall>p. jsprop d0 f = VStr p \<longrightarrow> jsprop row' f = VStr p)"
proof -
  define D where "D f = (case jsprop d0 f of VStr p \<Rightarrow> p | _ \<Rightarrow> [])" for f
  note enc = encrypt_fields_pointwise(2) [OF assms(1,2)]
  have dec: "dec c = Inr (D f)" if f: "f \<in> set fs" and c: "jsprop row f = VStr c" for f c
  proof -
    have "jsprop d f = VStr c" using row [OF f] c by auto
    with enc [OF f] obtain j p where "jsprop d0 f = VStr p" "enc j p = Inr c" by (metis js_value.inject(3))
    then show ?thesis using inv [OF f] by (simp add: D_def)
  qed
  obtain row' where row': "decrypt_row dec fs row = Inr row'"
    "\<And>f. jsprop row' f = (if f \<in> set fs \<and> (\<exists>v. jsprop row f = VStr v) then VStr (D f) else jsprop row f)"
    using decrypt_row_pointwise [OF assms(1), of row dec D] dec by blast
  have "jsprop row' f = VStr p" if f: "f \<in> set fs" and p: "jsprop d0 f = VStr p" for f p
  proof -
    obtain c where "jsprop d f = VStr c" using enc [OF f] p by auto
    then have "jsprop row f = VStr c" using row [OF f] by auto
    then show ?thesis using row'(2) f p by (simp add: D_def)
  qed
  with row'(1) show ?thesis by blast
qed

lemma set_if_undefined_jsprop: "jsprop (set_if_undefined k v d) f = (if f = k \<and> jsprop d k = VUndefined then VStr v else jsprop d f)"
  by (simp add: set_if_undefined_def jsprop_set)

lemma stamp_cases: "jsprop (stampCreate cfg (new_id cfg d)) f = jsprop d f \<or>
    jsprop d f = VUndefined \<and> (\<exists>t. jsprop (stampCreate cfg (new_id cfg d)) f = VStr t)"
  by (cases "dc_tenantId cfg"; cases "dc_userId cfg") (auto simp: stampCreate_def set_if_undefined_jsprop new_id_def jsprop_set Let_def)

lemma stamped_plain:
  "jsprop d f \<in> range VStr \<union> {VUndefined, VNull} \<Longrightarrow> jsprop (stampCreate cfg (new_id cfg d)) f \<in> range VStr \<union> {VUndefined, VNull}"
  using stamp_cases [of cfg d f] by auto

lemma stamped_id:
  "jsprop d ''id'' = VUndefined \<or> jsprop d ''id'' = VStr i \<Longrightarrow> jsprop (stampCreate cfg (new_id cfg d)) ''id'' =
     VStr (if jsprop d ''id'' = VUndefined then dc_uuid cfg 0 else i)"
  by (cases "dc_tenantId cfg"; cases "dc_userId cfg") (auto simp: stampCreate_def set_if_undefined_jsprop new_id_def jsprop_set Let_def)

lemma stamped_tombstone: "jsprop (stampCreate cfg (new_id cfg d)) ''deletedAt'' = jsprop d ''deletedAt''"
  by (cases "dc_tenantId cfg"; cases "dc_userId cfg") (auto simp: stampCreate_def set_if_undefined_jsprop new_id_def jsprop_set Let_def)

text \<open>The row the database is given, and what it finds afterwards.\<close>

lemma created_row:
  assumes "extended_client cfg engine \<lparr>pc_model = m, pc_op = OpCreate, pc_args = args\<rparr> s = (Inr v, s')" "model_fields cfg m = fs"
  obtains d where "encrypt_fields (dc_encrypt cfg) 0 fs (stampCreate cfg (new_id cfg (obj_prop args ''data''))) = Inr d"
    "engine \<lparr>pc_model = m, pc_op = OpCreate, pc_args = map_set ''data'' (VObj (hashed cfg m d)) args\<rparr> (ds_db s) = (Inr v, ds_db s')"
proof -
  obtain d where d: "encrypt_fields (dc_encrypt cfg) 0 fs (stampCreate cfg (new_id cfg (obj_prop args ''data''))) = Inr d"
    "auditExtension cfg (inner_query cfg engine) \<lparr>pc_model = m, pc_op = OpCreate, pc_args = map_set ''data'' (VObj d) args\<rparr> s = (Inr v, s')"
    using assms by (auto simp: client_create split: sum.splits)
  let ?call = "\<lparr>pc_model = m, pc_op = OpCreate, pc_args = map_set ''data'' (VObj d) args\<rparr>"
  from audit_result [of cfg "inner_query cfg engine" ?call s v] d(2) obtain db where
    db: "engine \<lparr>pc_model = m, pc_op = OpCreate, pc_args = map_set ''data'' (VObj (hashed cfg m d)) args\<rparr> (ds_db s) = (Inr v, db)"
    using inner_query_result [of OpCreate cfg engine m d args s v] by auto
  have "ds_db s' = db"
    using audit_frame [of cfg "inner_query cfg engine" ?call s] d(2) db inner_query_write [of OpCreate cfg engine m d args s] by simp
  with d(1) db that show thesis by blast
qed

lemma found_row:
  assumes eng: "finds_created engine m fs" and d: "encrypt_fields enc 0 fs d0 = Inr d" "distinct fs"
    and db: "engine \<lparr>pc_model = m, pc_op = OpCreate, pc_args = map_set ''data'' (VObj (hashed cfg m d)) args\<rparr> db = (Inr v, db')"
    and fs: "''emailHash'' \<notin> set fs" "''id'' \<notin> set fs" "\<forall>f\<in>set fs. jsprop d0 f \<in> range VStr \<union> {VUndefined, VNull}"
    and i: "jsprop d0 ''id'' = VStr i" "jsprop d0 ''deletedAt'' \<in> {VUndefined, VNull}"
  obtains row db'' where "engine \<lparr>pc_model = m, pc_op = OpFindFirst, pc_args = addSoftDeleteFilter (by_id i) False\<rparr> db' = (Inr (VObj row), db'')"
    "\<And>f. f \<in> set fs \<Longrightarrow> jsprop row f = jsprop d f \<or> ((\<forall>t. jsprop d f \<noteq> VStr t) \<and> (\<forall>t. jsprop row f \<noteq> VStr t))"
proof -
  let ?h = "hashed cfg m d"
  note enc = encrypt_fields_pointwise [OF d(2,1)]
  have "jsprop d ''deletedAt'' = jsprop d0 ''deletedAt''" using enc [of "''deletedAt''"] i(2) by (cases "''deletedAt'' \<in> set fs") auto
  then have "jsprop ?h ''id'' = VStr i" "jsprop ?h ''deletedAt'' \<in> {VUndefined, VNull}"
    using enc(1) [OF fs(2)] i hashed_jsprop [of "''id''" cfg m d] hashed_jsprop [of "''deletedAt''" cfg m d] by auto
  from eng [unfolded finds_created_def, rule_format, OF db, unfolded obj_prop_set, OF this] obtain row db'' where row: "engine \<lparr>pc_model = m, pc_op = OpFindFirst, pc_args = addSoftDeleteFilter (by_id i) False\<rparr> db' = (Inr (VObj row), db'')"
    and same: "\<And>f. f \<in> set fs \<Longrightarrow> (\<forall>t. jsprop ?h f = VStr t \<longrightarrow> jsprop row f = VStr t) \<and>
      (jsprop ?h f \<in> {VUndefined, VNull} \<longrightarrow> (\<forall>t. jsprop row f \<noteq> VStr t))"
    by blast
  have "jsprop row f = jsprop d f \<or> ((\<forall>t. jsprop d f \<noteq> VStr t) \<and> (\<forall>t. jsprop row f \<noteq> VStr t))" if f: "f \<in> set fs" for f
  proof -
    have "jsprop ?h f = jsprop d f" using hashed_jsprop [of f cfg m d] f fs(1) by metis
    moreover have "(\<exists>t. jsprop d f = VStr t) \<or> jsprop d f \<in> {VUndefined, VNull}" using enc(2) [OF f] fs(3) f by auto
    ultimately show ?thesis using same [OF f] by auto
  qed
  with row that show thesis by blast
qed

text \<open>C17: What is stored encrypted is read back as it was written.  With the key, the legacy keys and the field list
  configured in the environment, a live row that \<open>create\<close> accepted, its configured fields given as text, null or not at all,
  is returned by a later \<open>findFirst\<close> for its identifier (the caller's, or the one generated for it) with the original text
  in every configured field.  It relies on AES-GCM to open what it sealed and on the database to return, for the
  identifier of a row just inserted, the texts it was given.\<close>

theorem stored_fields_read_back:
  assumes cfg: "encryption_config g ivs (Some ''true'') fieldsVar (Some (base64url_encode k))
      (Some (join '','' (map base64url_encode legacy))) cfg0 = Some cfg"
    and g: "gcm_exact g" and keys: "good_key k" "\<forall>k\<in>set legacy. good_key k" and ivs: "\<forall>i. good_iv (ivs i)"
    and fs: "map_get (dc_fields cfg) m = Some fs" "''emailHash'' \<notin> set fs" "''id'' \<notin> set fs"
    and eng: "finds_created engine m fs"
    and args: "\<forall>f\<in>set fs. jsprop (obj_prop args ''data'') f \<in> range VStr \<union> {VUndefined, VNull}"
      "jsprop (obj_prop args ''data'') ''deletedAt'' \<in> {VUndefined, VNull}"
      "jsprop (obj_prop args ''data'') ''id'' = VUndefined \<or> jsprop (obj_prop args ''data'') ''id'' = VStr i"
    and create: "extended_client cfg engine \<lparr>pc_model = m, pc_op = OpCreate, pc_args = args\<rparr> s = (Inr v, s')"
  shows "\<exists>row. fst (extended_client cfg engine \<lparr>pc_model = m, pc_op = OpFindFirst,
        pc_args = by_id (if jsprop (obj_prop args ''data'') ''id'' = VUndefined then dc_uuid cfg 0 else i)\<rparr> s') = Inr (VObj row)
     \<and> (\<forall>f\<in>set fs. \<forall>p. jsprop (obj_prop args ''data'') f = VStr p \<longrightarrow> jsprop row f = VStr p)"
proof -
  let ?enc = "dc_encrypt cfg" and ?dec = "dc_decrypt cfg" and ?d0 = "stampCreate cfg (new_id cfg (obj_prop args ''data''))"
    and ?i = "if jsprop (obj_prop args ''data'') ''id'' = VUndefined then dc_uuid cfg 0 else i"
  have mf: "model_fields cfg m = fs" using fs(1) by (simp add: model_fields_def nullish_def)
  have "distinct fs" using encryption_on(1) [OF cfg keys mf] by (cases "fs = []") auto
  have on: "?dec c = Inr p" if "fs \<noteq> []" "?enc i p = Inr c" for i p c
    using that encryption_on(2,3) [OF cfg keys mf] primary_round_trip [OF g keys(1), of "ivs i" "map Inr legacy" p] ivs by auto
  obtain d where d: "encrypt_fields ?enc 0 fs ?d0 = Inr d"
    "engine \<lparr>pc_model = m, pc_op = OpCreate, pc_args = map_set ''data'' (VObj (hashed cfg m d)) args\<rparr> (ds_db s) = (Inr v, ds_db s')"
    by (rule created_row [OF create mf])
  have plain: "\<forall>f\<in>set fs. jsprop ?d0 f \<in> range VStr \<union> {VUndefined, VNull}" using args(1) stamped_plain by blast
  have live: "jsprop ?d0 ''deletedAt'' \<in> {VUndefined, VNull}" using args(2) by (simp add: stamped_tombstone)
  obtain row db'' where row: "engine \<lparr>pc_model = m, pc_op = OpFindFirst, pc_args = addSoftDeleteFilter (by_id ?i) False\<rparr> (ds_db s') = (Inr (VObj row), db'')"
    "\<And>f. f \<in> set fs \<Longrightarrow> jsprop row f = jsprop d f \<or> ((\<forall>t. jsprop d f \<noteq> VStr t) \<and> (\<forall>t. jsprop row f \<noteq> VStr t))"
    by (rule found_row [OF eng d(1) \<open>distinct fs\<close> d(2) fs(2,3) plain stamped_id [OF args(3)] live]) (rule that)
  from row_reads_back [OF \<open>distinct fs\<close> d(1) _ row(2), of ?dec] on obtain row' where
    row': "decrypt_row ?dec fs row = Inr row'" "\<forall>f\<in>set fs. \<forall>p. jsprop ?d0 f = VStr p \<longrightarrow> jsprop row' f = VStr p" by fastforce
  have "jsprop (by_id ?i) ''includeDeleted'' \<noteq> VBool True" by (simp add: by_id_def jsprop_def nullish_def)
  from client_findFirst [where cfg = cfg and engine = engine and s = s', OF this row(1)] row'
  show ?thesis using stamped_string by (simp add: mf decryptFields_def) blast
qed

section \<open>Audit\<close>

lemma inner_audit_frame: "ds_audit (snd (inner_query cfg engine call s)) = ds_audit s"
  by (simp add: inner_query_def tracker_frame userEmailBlindIndexExtension_def Let_def engine_query_frame split: option.split)

lemma client_delete:
  "extended_client cfg engine \<lparr>pc_model = m, pc_op = OpDelete, pc_args = args\<rparr> s =
     (if isHardDeleteRequest args then auditExtension cfg (inner_query cfg engine)
        \<lparr>pc_model = m, pc_op = OpDelete, pc_args = map_delete ''hardDelete'' args\<rparr> s
      else (Inl SoftDeletePathRequired, s))"
  by (simp add: extended_client_def uuidV7Extension_def auditStampExtension_def softDeleteExtension_def
      fieldEncryptionExtension_def versionBumpExtension_def inner_query_def Let_def)

definition change_action :: "prisma_op \<Rightarrow> audit_action set" where
  "change_action op = (case op of OpCreate \<Rightarrow> {AuditCreate} | OpDelete \<Rightarrow> {AuditDelete} | _ \<Rightarrow> {AuditUpdate, AuditRestore})"

text \<open>The audit row a successful change leaves: in the tenant its row or arguments name, or else in that the resolver still knows
  after the query; none if there is neither.\<close>

definition audited :: "('d, 'z) data_config_scheme \<Rightarrow> string \<Rightarrow> prisma_op \<Rightarrow> js_value \<Rightarrow> audit_row list \<Rightarrow> audit_row list \<Rightarrow> bool" where
  "audited cfg m op v log log' \<longleftrightarrow>
     (\<exists>r. log' = log @ [r] \<and> au_targetModel r = m \<and> au_targetId r = extractTargetId v \<and> au_actorUserId r = dc_lateUserId cfg
        \<and> au_action r \<in> change_action op \<and> (op \<noteq> OpDelete \<and> extractTenantIdFromRow v \<noteq> None \<longrightarrow> extractTenantIdFromRow v = Some (au_tenantId r)))
     \<or> log' = log \<and> extractTenantIdFromRow v = None \<and> dc_lateTenantId cfg = None"

lemma emit_cases:
  assumes "emitAuditRow cfg m a diff i tid v s = (res, s')" "dc_auditEnabled cfg"
  shows "tid = None \<and> res = Inr v \<and> ds_audit s' = ds_audit s
    \<or> res = Inl AuditWriteError \<and> s' = s
    \<or> (\<exists>r. res = Inr v \<and> ds_audit s' = ds_audit s @ [r] \<and> au_targetModel r = m \<and> au_targetId r = i \<and> au_actorUserId r = dc_lateUserId cfg
        \<and> au_action r = a \<and> tid = Some (au_tenantId r))"
  using assms by (auto simp: emitAuditRow_def Let_def split: option.splits if_splits)

lemma or_else_simps:
  "or_else a b = None \<longleftrightarrow> a = None \<and> b = None" "a \<noteq> None \<Longrightarrow> or_else a b = a"
  by (auto simp: or_else_def split: option.split)

text \<open>The tenant of the audit row, by operation.\<close>

definition audit_tenant :: "('d, 'z) data_config_scheme \<Rightarrow> prisma_op \<Rightarrow> js_value \<Rightarrow> string option \<Rightarrow> bool" where
  "audit_tenant cfg op v tid \<longleftrightarrow> (tid = None \<longrightarrow> extractTenantIdFromRow v = None \<and> dc_lateTenantId cfg = None)
     \<and> (op \<noteq> OpDelete \<and> extractTenantIdFromRow v \<noteq> None \<longrightarrow> tid = extractTenantIdFromRow v)"

lemma audit_emits:
  assumes "op \<in> {OpCreate, OpUpdate, OpDelete}" "m \<in> set (dc_auditable cfg)" "q \<lparr>pc_model = m, pc_op = op, pc_args = args\<rparr> s = (Inr v, qs)"
  shows "\<exists>tid a diff. auditExtension cfg q \<lparr>pc_model = m, pc_op = op, pc_args = args\<rparr> s = emitAuditRow cfg m a diff (extractTargetId v) tid v qs
    \<and> audit_tenant cfg op v tid \<and> a \<in> change_action op"
proof -
  have after: "extractTenantIdFromRow v \<noteq> None \<Longrightarrow> nullish_value v w = v" for w
    by (auto simp: nullish_value_def extractTenantIdFromRow_def)
  consider "op = OpCreate" | "op = OpUpdate" | "op = OpDelete" using assms(1) by blast
  then show ?thesis
  proof cases
    case 1
    have "audit_tenant cfg op v (or_else (extractTenantIdFromRow (nullish_value v w)) (or_else b (dc_lateTenantId cfg)))" for w b
      using after by (cases "extractTenantIdFromRow v") (auto simp: audit_tenant_def or_else_simps)
    then show ?thesis using 1 assms(2,3) by (auto simp: auditExtension_def Let_def change_action_def intro!: exI)
  next
    case 2
    have "audit_tenant cfg op v (or_else (extractTenantIdFromRow v) (or_else b (or_else c (dc_lateTenantId cfg))))" for b c
      by (auto simp: audit_tenant_def or_else_simps)
    then show ?thesis using 2 assms(2,3) by (auto simp: auditExtension_def Let_def change_action_def intro!: exI)
  next
    case 3
    have "audit_tenant cfg op v (or_else b (or_else (extractTenantIdFromRow v) (or_else c (dc_lateTenantId cfg))))" for b c
      using 3 by (auto simp: audit_tenant_def or_else_simps)
    then show ?thesis using 3 assms(2,3) by (auto simp: auditExtension_def Let_def change_action_def intro!: exI)
  qed
qed

lemma blind_call: "\<exists>call'. userEmailBlindIndexExtension cfg q call s = q call' s"
  by (cases "dc_blind cfg") (auto simp: userEmailBlindIndexExtension_def Let_def)

lemma inner_query_engine:
  assumes "inner_query cfg engine call s = (res, s')"
  shows "\<exists>call' r. engine call' (ds_db s) = (r, ds_db s') \<and> (isl r \<longleftrightarrow> isl res) \<and> res \<noteq> Inl AuditWriteError"
proof -
  obtain call' where "userEmailBlindIndexExtension cfg (engine_query engine) call s = engine_query engine call' s" using blind_call by blast
  then have "\<exists>r. engine call' (ds_db s) = (r, ds_db s') \<and> (isl r \<longleftrightarrow> isl res) \<and> res \<noteq> Inl AuditWriteError"
    using assms by (auto simp: inner_query_def queryTrackerExtension_def engine_query_def split: prod.splits sum.splits)
  then show ?thesis by blast
qed

lemma audit_one:
  assumes "op \<in> {OpCreate, OpUpdate, OpDelete}" "m \<in> set (dc_auditable cfg)" "dc_auditEnabled cfg"
    and run: "auditExtension cfg (inner_query cfg engine) \<lparr>pc_model = m, pc_op = op, pc_args = args\<rparr> s = (res, s')"
  shows "(\<forall>v. res = Inr v \<longrightarrow> audited cfg m op v (ds_audit s) (ds_audit s')) \<and> (isl res \<longrightarrow> ds_audit s' = ds_audit s) \<and>
    (res = Inl AuditWriteError \<longrightarrow> (\<exists>call v. engine call (ds_db s) = (Inr v, ds_db s')))"
proof -
  let ?call = "\<lparr>pc_model = m, pc_op = op, pc_args = args\<rparr>"
  obtain qr qs where q: "inner_query cfg engine ?call s = (qr, qs)" by fastforce
  have same: "ds_audit qs = ds_audit s" using inner_audit_frame [of cfg engine ?call s] q by simp
  obtain call r where eng: "engine call (ds_db s) = (r, ds_db qs)" "isl r \<longleftrightarrow> isl qr" "qr \<noteq> Inl AuditWriteError" using inner_query_engine [OF q] by blast
  show ?thesis
  proof (cases qr)
    case (Inl e)
    then have "res = Inl e" "s' = qs" using assms(1,2) run q by (auto simp: auditExtension_def Let_def)
    then show ?thesis using same eng(3) Inl by simp
  next
    case (Inr v)
    obtain tid a diff where e: "emitAuditRow cfg m a diff (extractTargetId v) tid v qs = (res, s')" "audit_tenant cfg op v tid" "a \<in> change_action op"
      using audit_emits [where q = "inner_query cfg engine", OF assms(1,2) q [unfolded Inr]] run by auto
    from emit_cases [OF e(1) assms(3)] show ?thesis
      using same e(2,3) eng Inr by (cases r) (auto simp: audited_def audit_tenant_def)
  qed
qed

text \<open>C32: With the audit log on, every change of an audited model that succeeds leaves exactly one row in it.  A \<open>create\<close>, \<open>update\<close> or
  hard \<open>delete\<close> appends one row naming the model, the row, the kind of change and the user the request context still knows after
  the query, in the tenant of the changed row for \<open>create\<close> and \<open>update\<close>; only if neither the row nor the context, which may be lost
  by then, names a tenant is there none.  A change that fails appends none; if it fails because the audit row cannot be written,
  the change itself stays in the database.\<close>

theorem changes_are_audited:
  assumes "op \<in> {OpCreate, OpUpdate, OpDelete}" "m \<in> set (dc_auditable cfg)" "dc_auditEnabled cfg"
    "extended_client cfg engine \<lparr>pc_model = m, pc_op = op, pc_args = args\<rparr> s = (res, s')"
  shows "(\<forall>v. res = Inr v \<longrightarrow> audited cfg m op v (ds_audit s) (ds_audit s')) \<and> (isl res \<longrightarrow> ds_audit s' = ds_audit s) \<and>
    (res = Inl AuditWriteError \<longrightarrow> (\<exists>call v. engine call (ds_db s) = (Inr v, ds_db s')))"
proof -
  consider a where "auditExtension cfg (inner_query cfg engine) \<lparr>pc_model = m, pc_op = op, pc_args = a\<rparr> s = (res, s')"
    | e where "res = Inl e" "s' = s" "e \<noteq> AuditWriteError"
    using assms(1,4) by (auto simp: client_create client_update client_delete split: sum.splits if_splits)
  then show ?thesis by cases (use audit_one [OF assms(1-3)] in auto)
qed

text \<open>\<open>upsert\<close> and the batch operations of an audited model leave no trace.\<close>

lemma upsert_escapes_audit:
  "ds_audit (snd (extended_client cfg engine \<lparr>pc_model = m, pc_op = OpUpsert, pc_args = args\<rparr> s)) = ds_audit s"
proof -
  have "ds_audit (snd (then_decrypt f rs)) = ds_audit (snd rs)" for f and rs :: "(data_error + js_value) \<times> 'a data_state"
    by (simp add: then_decrypt_def split: prod.split sum.split)
  then show ?thesis
    unfolding client_upsert [OF refl] by (simp add: inner_audit_frame split: sum.split)
qed

section \<open>Deleted rows, new rows\<close>

text \<open>A database that honours conditions: \<open>sat\<close> is its reading of a \<open>where\<close> object, of which only the equality with
  \<open>null\<close> and the conjunction matter here; \<open>findMany\<close> returns rows that satisfy it.\<close>

definition honours_where :: "'d engine \<Rightarrow> (js_value \<Rightarrow> row \<Rightarrow> bool) \<Rightarrow> bool" where
  "honours_where engine sat \<longleftrightarrow>
     (\<forall>r. sat (VObj [(''deletedAt'', VNull)]) r \<longleftrightarrow> jsprop r ''deletedAt'' = VNull) \<and>
     (\<forall>ws r. sat (VObj [(''AND'', VArr ws)]) r \<longleftrightarrow> (\<forall>w\<in>set ws. sat w r)) \<and>
     (\<forall>m args db rows db'. engine \<lparr>pc_model = m, pc_op = OpFindMany, pc_args = args\<rparr> db = (Inr (VArr rows), db') \<longrightarrow>
        (\<forall>v\<in>set rows. \<exists>r. v = VObj r \<and> sat (jsprop args ''where'') r))"

lemma soft_filter_sat:
  assumes "honours_where engine sat" "sat (jsprop (addSoftDeleteFilter args False) ''where'') r"
  shows "jsprop r ''deletedAt'' = VNull"
    "jsprop args ''where'' \<notin> {VUndefined, VNull, VObj []} \<Longrightarrow> sat (jsprop args ''where'') r"
  using assms by (auto simp: addSoftDeleteFilter_def honours_where_def jsprop_set split: if_splits)

lemma client_findMany_plain:
  assumes "model_fields cfg m = []" "jsprop args ''includeDeleted'' \<noteq> VBool True"
    "extended_client cfg engine \<lparr>pc_model = m, pc_op = OpFindMany, pc_args = args\<rparr> s = (Inr v, s')"
  shows "\<exists>db. engine \<lparr>pc_model = m, pc_op = OpFindMany, pc_args = addSoftDeleteFilter args False\<rparr> (ds_db s) = (Inr v, db)"
  using assms
  by (auto simp: extended_client_def uuidV7Extension_def auditStampExtension_def softDeleteExtension_def
      fieldEncryptionExtension_def versionBumpExtension_def auditExtension_def userEmailBlindIndexExtension_def
      queryTrackerExtension_def engine_query_def model_fields_def Let_def
      split: option.splits sum.splits prod.splits if_splits)

text \<open>Deleted rows do not come back by accident.  Unless the caller asks for them, \<open>findMany\<close> returns only rows
  without a deletion time, which also satisfy the caller's own condition; and a plain \<open>delete\<close> is refused
  before anything is touched, so that rows leave the table only through a hard delete.\<close>

theorem tombstones_stay_hidden:
  assumes "honours_where engine sat" "model_fields cfg m = []" "jsprop args ''includeDeleted'' \<noteq> VBool True"
    "extended_client cfg engine \<lparr>pc_model = m, pc_op = OpFindMany, pc_args = args\<rparr> s = (Inr (VArr rows), s')"
    "jsprop del ''hardDelete'' \<noteq> VBool True"
  shows "(\<forall>v\<in>set rows. \<exists>r. v = VObj r \<and> jsprop r ''deletedAt'' = VNull \<and>
            (jsprop args ''where'' \<in> {VUndefined, VNull, VObj []} \<or> sat (jsprop args ''where'') r))
     \<and> extended_client cfg engine \<lparr>pc_model = m, pc_op = OpDelete, pc_args = del\<rparr> s = (Inl SoftDeletePathRequired, s)"
proof -
  obtain db where db: "engine \<lparr>pc_model = m, pc_op = OpFindMany, pc_args = addSoftDeleteFilter args False\<rparr> (ds_db s) = (Inr (VArr rows), db)"
    using client_findMany_plain [OF assms(2-4)] by blast
  have "\<exists>r. v = VObj r \<and> sat (jsprop (addSoftDeleteFilter args False) ''where'') r" if "v \<in> set rows" for v
    using assms(1) db that unfolding honours_where_def by blast
  then show ?thesis
    using soft_filter_sat [OF assms(1)] assms(5) by (simp add: client_delete isHardDeleteRequest_def) blast
qed

text \<open>New rows land in the tenant and under the name of the request.  A row created without a tenant, author or
  identifier reaches the database with the tenant and user of the request and a generated identifier; values
  the caller gives are kept.\<close>

theorem created_rows_are_stamped:
  assumes "dc_tenantId cfg = Some t" "dc_userId cfg = Some u" "model_fields cfg m = []" "dc_blind cfg = None"
  shows "\<exists>d. ds_db (snd (extended_client cfg engine \<lparr>pc_model = m, pc_op = OpCreate, pc_args = args\<rparr> s)) =
       snd (engine \<lparr>pc_model = m, pc_op = OpCreate, pc_args = map_set ''data'' (VObj d) args\<rparr> (ds_db s))
     \<and> (\<forall>k. jsprop d k =
          (if jsprop (obj_prop args ''data'') k = VUndefined then
             (if k = ''id'' then VStr (dc_uuid cfg 0) else if k = ''tenantId'' then VStr t
              else if k \<in> {''createdBy'', ''updatedBy''} then VStr u else VUndefined)
           else jsprop (obj_prop args ''data'') k))"
proof -
  have "hashed cfg m d = d" for d using assms(4) by (simp add: hashed_def)
  then have "ds_db (snd (extended_client cfg engine \<lparr>pc_model = m, pc_op = OpCreate, pc_args = args\<rparr> s)) =
      snd (engine \<lparr>pc_model = m, pc_op = OpCreate, pc_args = map_set ''data'' (VObj (stampCreate cfg (new_id cfg (obj_prop args ''data'')))) args\<rparr> (ds_db s))"
    by (simp add: client_create assms(3) audit_frame inner_query_write)
  moreover have "jsprop (stampCreate cfg (new_id cfg d)) k =
      (if jsprop d k = VUndefined then
         (if k = ''id'' then VStr (dc_uuid cfg 0) else if k = ''tenantId'' then VStr t
          else if k \<in> {''createdBy'', ''updatedBy''} then VStr u else VUndefined)
       else jsprop d k)" for d k
    using assms(1,2) by (auto simp: stampCreate_def new_id_def set_if_undefined_def jsprop_set)
  ultimately show ?thesis by blast
qed

section \<open>A concrete store\<close>

fun sample_sat :: "js_value \<Rightarrow> row \<Rightarrow> bool" where
  "sample_sat (VObj [(k, VArr ws)]) r = (if k = ''AND'' then list_all (\<lambda>w. sample_sat w r) ws else False)"
| "sample_sat (VObj [(k, v)]) r = (jsprop r k = v)"
| "sample_sat w r = True"

definition with_tombstone :: "row \<Rightarrow> row" where
  "with_tombstone d = (if jsprop d ''deletedAt'' = VUndefined then map_set ''deletedAt'' VNull d else d)"

definition sample_store :: "row list engine" where
  "sample_store call db = (case pc_op call of
     OpCreate \<Rightarrow>
       (let d = with_tombstone (obj_prop (pc_args call) ''data'')
        in if list_ex (\<lambda>r. jsprop r ''id'' = jsprop d ''id'') db then (Inl ''unique'', db) else (Inr (VObj d), d # db))
   | OpFindFirst \<Rightarrow> (Inr (case filter (sample_sat (jsprop (pc_args call) ''where'')) db of [] \<Rightarrow> VNull | r # _ \<Rightarrow> VObj r), db)
   | OpFindMany \<Rightarrow> (Inr (VArr (map VObj (filter (sample_sat (jsprop (pc_args call) ''where'')) db))), db)
   | _ \<Rightarrow> (Inr VNull, db))"

definition sample_data :: "row list data_config" where
  "sample_data = \<lparr>dc_tenantId = Some ''t1'', dc_userId = Some ''u1'', dc_lateTenantId = None, dc_lateUserId = None,
     dc_lateRequestId = None, dc_uuid = (\<lambda>i. ''id''),
     dc_fields = [], dc_encrypt = (\<lambda>i. Inr), dc_decrypt = Inr, dc_versioned = [], dc_auditable = CORE_AUDITABLE_MODELS,
     dc_auditEnabled = True, dc_rawSelect = (\<lambda>t i db. None), dc_auditFails = (\<lambda>r. False), dc_blind = None\<rparr>"

definition sample_sealed :: "row list data_config" where
  "sample_sealed = sample_data\<lparr>dc_fields := [(''User'', [''note''])],
     dc_encrypt := (\<lambda>i. multi_encrypt sample_gcm [Inr (replicate 32 9)] (replicate 12 1)),
     dc_decrypt := multi_decrypt sample_gcm [Inr (replicate 32 9)]\<rparr>"

definition sample_empty :: "row list data_state" where
  "sample_empty = \<lparr>ds_db = [], ds_audit = [], ds_queries = []\<rparr>"

lemma sample_config:
  "encryption_config sample_gcm (\<lambda>i. replicate 12 1) (Some ''true'') (Some ''User.note'')
     (Some (base64url_encode (replicate 32 9))) (Some (join '','' (map base64url_encode []))) sample_data = Some sample_sealed"
proof -
  have "parseFieldEncryptionMap (Some ''User.note'') = Some [(''User'', [''note''])]" by code_simp
  moreover have "kek_chain (Some (base64url_encode (replicate 32 9))) (Some (join '','' (map base64url_encode []))) = Inr [Inr (replicate 32 9)]"
    using kek_chain_env [of "replicate 32 9" "[]"] by (simp add: good_key_def KEK_BYTES_def bytes_def)
  ultimately show ?thesis by (simp add: encryption_config_def sample_sealed_def)
qed

lemma tombstoned: "f \<noteq> ''deletedAt'' \<Longrightarrow> jsprop (with_tombstone d) f = jsprop d f"
  "jsprop d ''deletedAt'' \<in> {VUndefined, VNull} \<Longrightarrow> jsprop (with_tombstone d) ''deletedAt'' = VNull"
  by (auto simp: with_tombstone_def jsprop_set)

lemma sample_finds_created: "finds_created sample_store m fs"
  unfolding finds_created_def
proof (intro allI impI)
  fix args db v db' i
  assume create: "sample_store \<lparr>pc_model = m, pc_op = OpCreate, pc_args = args\<rparr> db = (Inr v, db')"
    and i: "jsprop (obj_prop args ''data'') ''id'' = VStr i" and live: "jsprop (obj_prop args ''data'') ''deletedAt'' \<in> {VUndefined, VNull}"
  let ?d = "with_tombstone (obj_prop args ''data'')"
  have "db' = ?d # db" using create by (auto simp: sample_store_def Let_def split: if_splits)
  moreover have "jsprop (addSoftDeleteFilter (by_id i) False) ''where'' =
      VObj [(''AND'', VArr [VObj [(''id'', VStr i)], VObj [(''deletedAt'', VNull)]])]"
    by (simp add: addSoftDeleteFilter_def by_id_def jsprop_def nullish_def)
  ultimately have "sample_store \<lparr>pc_model = m, pc_op = OpFindFirst, pc_args = addSoftDeleteFilter (by_id i) False\<rparr> db' = (Inr (VObj ?d), db')"
    using i live by (simp add: sample_store_def tombstoned)
  moreover have "(\<forall>t. jsprop (obj_prop args ''data'') f = VStr t \<longrightarrow> jsprop ?d f = VStr t) \<and>
      (jsprop (obj_prop args ''data'') f \<in> {VUndefined, VNull} \<longrightarrow> (\<forall>t. jsprop ?d f \<noteq> VStr t))" for f
    using live by (cases "f = ''deletedAt''") (auto simp: tombstoned)
  ultimately show "\<exists>row db''. sample_store \<lparr>pc_model = m, pc_op = OpFindFirst, pc_args = addSoftDeleteFilter (by_id i) False\<rparr> db' = (Inr (VObj row), db'')
      \<and> (\<forall>f\<in>set fs. (\<forall>t. jsprop (obj_prop args ''data'') f = VStr t \<longrightarrow> jsprop row f = VStr t)
           \<and> (jsprop (obj_prop args ''data'') f \<in> {VUndefined, VNull} \<longrightarrow> (\<forall>t. jsprop row f \<noteq> VStr t)))" by blast
qed

lemma sample_honours: "honours_where sample_store sample_sat"
  by (auto simp: honours_where_def sample_store_def list_all_iff)

definition sample_note :: row where
  "sample_note = [(''data'', VObj [(''name'', VStr ''Ada''), (''note'', VStr ''iban'')])]"

theorem configured_fields_are_sealed_witness:
  "\<exists>r s'. extended_client sample_sealed sample_store \<lparr>pc_model = ''User'', pc_op = OpCreate, pc_args = sample_note\<rparr> sample_empty = (r, s')
     \<and> ((\<exists>e. r = Inl (CryptoError e) \<and> s' = sample_empty) \<or>
     (\<exists>call. ds_db s' = snd (sample_store call (ds_db sample_empty)) \<and>
        (\<forall>row\<in>set (written_rows call). \<forall>f\<in>set [''note'']. sealed_at (dc_encrypt sample_sealed) row f)))"
proof -
  obtain r s' where run: "extended_client sample_sealed sample_store \<lparr>pc_model = ''User'', pc_op = OpCreate, pc_args = sample_note\<rparr> sample_empty = (r, s')"
    by fastforce
  then show ?thesis
    using configured_fields_are_sealed [where fs = "[''note'']", OF _ _ _ run] by (simp add: sample_sealed_def)
qed

text \<open>A second user, with the identifier generated for it, beside one that is in the table already.\<close>

definition sample_users :: "row list data_state" where
  "sample_users = \<lparr>ds_db = [[(''id'', VStr ''u0''), (''deletedAt'', VNull), (''note'', VStr ''other'')]], ds_audit = [], ds_queries = []\<rparr>"

theorem stored_fields_read_back_witness:
  "\<exists>v s'. extended_client sample_sealed sample_store \<lparr>pc_model = ''User'', pc_op = OpCreate, pc_args = sample_note\<rparr> sample_users = (Inr v, s')
     \<and> (\<exists>row. fst (extended_client sample_sealed sample_store \<lparr>pc_model = ''User'', pc_op = OpFindFirst, pc_args = by_id ''id''\<rparr> s') = Inr (VObj row)
        \<and> jsprop row ''note'' = VStr ''iban'')"
proof -
  have "\<not> isl (fst (extended_client sample_sealed sample_store \<lparr>pc_model = ''User'', pc_op = OpCreate, pc_args = sample_note\<rparr> sample_users))"
    by code_simp
  then obtain v s' where run: "extended_client sample_sealed sample_store \<lparr>pc_model = ''User'', pc_op = OpCreate, pc_args = sample_note\<rparr> sample_users = (Inr v, s')"
    by (metis isl_def prod.collapse sum.exhaust)
  have "jsprop (obj_prop sample_note ''data'') ''note'' = VStr ''iban''" "jsprop (obj_prop sample_note ''data'') ''id'' = VUndefined"
    "jsprop (obj_prop sample_note ''data'') ''deletedAt'' = VUndefined" "dc_uuid sample_sealed 0 = ''id''"
    by code_simp+
  then show ?thesis
    using stored_fields_read_back [OF sample_config sample_gcm_exact _ _ _ _ _ _ sample_finds_created _ _ _ run, where fs = "[''note'']"] run
    by (auto simp: good_key_def good_iv_def KEK_BYTES_def IV_BYTES_def bytes_def sample_sealed_def)
qed

text \<open>The context is lost after the query; the row names its tenant.\<close>

theorem changes_are_audited_witness:
  "\<exists>v s' r. extended_client sample_data sample_store \<lparr>pc_model = ''Role'', pc_op = OpCreate, pc_args = sample_note\<rparr> sample_empty = (Inr v, s')
     \<and> ds_audit s' = [r] \<and> au_targetModel r = ''Role'' \<and> au_tenantId r = ''t1'' \<and> au_actorUserId r = None \<and> au_action r = AuditCreate"
proof -
  have t: "map_sum id extractTenantIdFromRow (fst (extended_client sample_data sample_store
      \<lparr>pc_model = ''Role'', pc_op = OpCreate, pc_args = sample_note\<rparr> sample_empty)) = Inr (Some ''t1'')"
    by code_simp
  then obtain v s' where run: "extended_client sample_data sample_store \<lparr>pc_model = ''Role'', pc_op = OpCreate, pc_args = sample_note\<rparr> sample_empty = (Inr v, s')"
    by (metis isl_def isl_map_sum prod.collapse sum.collapse(2) sum.distinct(1))
  moreover have "''Role'' \<in> set (dc_auditable sample_data)" by code_simp
  ultimately show ?thesis
    using changes_are_audited [OF _ _ _ run] t
    by (auto simp: audited_def sample_data_def sample_empty_def change_action_def)
qed

theorem tombstones_stay_hidden_witness:
  "extended_client sample_data sample_store \<lparr>pc_model = ''User'', pc_op = OpDelete, pc_args = [(''where'', VObj [(''id'', VStr ''a'')])]\<rparr> sample_empty =
     (Inl SoftDeletePathRequired, sample_empty)"
proof -
  have "fst (extended_client sample_data sample_store \<lparr>pc_model = ''User'', pc_op = OpFindMany, pc_args = []\<rparr> sample_empty) = Inr (VArr [])"
    by code_simp
  then obtain s' where run: "extended_client sample_data sample_store \<lparr>pc_model = ''User'', pc_op = OpFindMany, pc_args = []\<rparr> sample_empty = (Inr (VArr []), s')"
    by (metis prod.collapse)
  show ?thesis
    using tombstones_stay_hidden [OF sample_honours _ _ run, of "[(''where'', VObj [(''id'', VStr ''a'')])]"]
    by (simp add: model_fields_def sample_data_def jsprop_def nullish_def)
qed

theorem created_rows_are_stamped_witness:
  "\<exists>d. ds_db (snd (extended_client sample_data sample_store \<lparr>pc_model = ''Role'', pc_op = OpCreate, pc_args = sample_note\<rparr> sample_empty)) =
       snd (sample_store \<lparr>pc_model = ''Role'', pc_op = OpCreate, pc_args = map_set ''data'' (VObj d) sample_note\<rparr> [])
     \<and> jsprop d ''tenantId'' = VStr ''t1'' \<and> jsprop d ''name'' = VStr ''Ada''"
proof -
  have "jsprop (obj_prop sample_note ''data'') ''tenantId'' = VUndefined" "jsprop (obj_prop sample_note ''data'') ''name'' = VStr ''Ada''"
    by code_simp+
  then show ?thesis
    using created_rows_are_stamped [of sample_data "''t1''" "''u1''" "''Role''" sample_store sample_note sample_empty]
    by (force simp: sample_data_def model_fields_def nullish_def sample_empty_def)
qed

end
