(* ===== verification/Repository.thy ===== *)
theory Repository
  imports Data_Access
begin

text \<open>
  Repositories and optimistic concurrency: \<open>src/core/repository/base.repository.ts\<close>, the conflict planner of
  offline clients (\<open>powersync-conflict.ts\<close>) and entity tags (\<open>src/core/concurrency/etag.ts\<close>).

  The delegate a repository wraps is a record of operations over an abstract state; SHA-256 is an argument.
\<close>

section \<open>Conflict planner\<close>

datatype conflict_outcome = ClientWins | ServerWins | PartialConflict | NoOp

record conflict_decision =
  cd_outcome :: conflict_outcome
  cd_merged :: row
  cd_rejectedFields :: "string list"

fun apply_patch :: "string list \<Rightarrow> row \<Rightarrow> row \<Rightarrow> row" where
  "apply_patch protected [] merged = merged"
| "apply_patch protected ((k, v) # patch) merged =
     apply_patch protected patch (if k \<in> set protected then merged else map_set k v merged)"

definition resolvePowerSyncConflict :: "row \<Rightarrow> millis \<Rightarrow> row \<Rightarrow> string list \<Rightarrow> conflict_decision" where
  "resolvePowerSyncConflict clientPatch clientUpdatedAt serverRow protectedFields =
     (let patchKeys = map fst clientPatch
      in if patchKeys = [] then \<lparr>cd_outcome = NoOp, cd_merged = serverRow, cd_rejectedFields = []\<rparr>
         else
           let rejectedFields = filter (\<lambda>k. k \<in> set protectedFields) patchKeys;
               serverNewer = (case jsprop serverRow ''updatedAt'' of VDate t \<Rightarrow> t > clientUpdatedAt | _ \<Rightarrow> False)
           in if serverNewer then \<lparr>cd_outcome = ServerWins, cd_merged = serverRow, cd_rejectedFields = rejectedFields\<rparr>
              else
                let merged = apply_patch protectedFields clientPatch serverRow
                in if rejectedFields \<noteq> [] then \<lparr>cd_outcome = PartialConflict, cd_merged = merged, cd_rejectedFields = rejectedFields\<rparr>
                   else \<lparr>cd_outcome = ClientWins, cd_merged = merged, cd_rejectedFields = []\<rparr>)"

section \<open>Repository\<close>

datatype delegate_error = PrismaCode string | DelegateFault string

datatype repository_error = RepositoryNotFound string | DelegateError delegate_error

record 's model_delegate =
  dg_findUnique :: "string \<Rightarrow> 's \<Rightarrow> (delegate_error + row option) \<times> 's"
  dg_findMany :: "row \<Rightarrow> 's \<Rightarrow> (delegate_error + row list) \<times> 's"
  dg_create :: "row \<Rightarrow> 's \<Rightarrow> (delegate_error + row) \<times> 's"
  dg_update :: "string \<Rightarrow> row \<Rightarrow> 's \<Rightarrow> (delegate_error + row) \<times> 's"
  dg_delete :: "string \<Rightarrow> 's \<Rightarrow> (delegate_error + row) \<times> 's"

definition isPrismaNotFoundError :: "delegate_error \<Rightarrow> bool" where
  "isPrismaNotFoundError err \<longleftrightarrow> err = PrismaCode ''P2025''"

text \<open>A failing delegate call: a missing row becomes \<open>RepositoryNotFoundError\<close>, everything else propagates.\<close>

definition or_not_found :: "string \<Rightarrow> (delegate_error + 'a) \<times> 's \<Rightarrow> (repository_error + 'a) \<times> 's" where
  "or_not_found i rs = (case rs of
     (Inl e, s) \<Rightarrow> (Inl (if isPrismaNotFoundError e then RepositoryNotFound i else DelegateError e), s)
   | (Inr v, s) \<Rightarrow> (Inr v, s))"

definition raising :: "(delegate_error + 'a) \<times> 's \<Rightarrow> (repository_error + 'a) \<times> 's" where
  "raising rs = (case rs of (Inl e, s) \<Rightarrow> (Inl (DelegateError e), s) | (Inr v, s) \<Rightarrow> (Inr v, s))"

definition repo_findById :: "'s model_delegate \<Rightarrow> string \<Rightarrow> bool \<Rightarrow> 's \<Rightarrow> (repository_error + row option) \<times> 's" where
  "repo_findById d i includeDeleted s =
     (if \<not> includeDeleted then
        (case raising (dg_findMany d [(''where'', VObj [(''id'', VStr i), (''deletedAt'', VNull)]), (''take'', VNum 1)] s) of
           (Inl e, s') \<Rightarrow> (Inl e, s')
         | (Inr rows, s') \<Rightarrow> (Inr (case rows of [] \<Rightarrow> None | r # _ \<Rightarrow> Some r), s'))
      else raising (dg_findUnique d i s))"

record list_options =
  lo_includeDeleted :: bool
  lo_orderBy :: "row option"
  lo_take :: "int option"
  lo_skip :: "int option"

definition repo_list :: "'s model_delegate \<Rightarrow> list_options \<Rightarrow> 's \<Rightarrow> (repository_error + row list) \<times> 's" where
  "repo_list d o' s = raising (dg_findMany d
     ((if lo_includeDeleted o' then [] else [(''where'', VObj [(''deletedAt'', VNull)])])
      @ (case lo_orderBy o' of None \<Rightarrow> [] | Some r \<Rightarrow> [(''orderBy'', VObj r)])
      @ (case lo_take o' of None \<Rightarrow> [] | Some n \<Rightarrow> [(''take'', VNum n)])
      @ (case lo_skip o' of None \<Rightarrow> [] | Some n \<Rightarrow> [(''skip'', VNum n)])) s)"

definition repo_create :: "'s model_delegate \<Rightarrow> row \<Rightarrow> 's \<Rightarrow> (repository_error + row) \<times> 's" where
  "repo_create d data s = raising (dg_create d data s)"

definition repo_update :: "'s model_delegate \<Rightarrow> string \<Rightarrow> row \<Rightarrow> 's \<Rightarrow> (repository_error + row) \<times> 's" where
  "repo_update d i patch s = or_not_found i (dg_update d i patch s)"

definition repo_softDelete :: "'s model_delegate \<Rightarrow> string \<Rightarrow> millis \<Rightarrow> 's \<Rightarrow> (repository_error + row) \<times> 's" where
  "repo_softDelete d i now s = repo_update d i [(''deletedAt'', VDate now)] s"

definition repo_hardDelete :: "'s model_delegate \<Rightarrow> string \<Rightarrow> 's \<Rightarrow> (repository_error + row) \<times> 's" where
  "repo_hardDelete d i s = or_not_found i (dg_delete d i s)"

record conflict_result =
  cr_outcome :: conflict_outcome
  cr_row :: row
  cr_rejectedFields :: "string list"

definition updateWithConflict ::
  "'s model_delegate \<Rightarrow> string \<Rightarrow> row \<Rightarrow> millis \<Rightarrow> string list \<Rightarrow> 's \<Rightarrow> (repository_error + conflict_result) \<times> 's" where
  "updateWithConflict d i patch clientUpdatedAt protectedFields s =
     (case raising (dg_findUnique d i s) of
        (Inl e, s1) \<Rightarrow> (Inl e, s1)
      | (Inr None, s1) \<Rightarrow> (Inl (RepositoryNotFound i), s1)
      | (Inr (Some existing), s1) \<Rightarrow>
          let decision = resolvePowerSyncConflict patch clientUpdatedAt existing protectedFields
          in if cd_outcome decision \<in> {NoOp, ServerWins}
             then (Inr \<lparr>cr_outcome = cd_outcome decision, cr_row = existing, cr_rejectedFields = cd_rejectedFields decision\<rparr>, s1)
             else (case raising (dg_update d i (cd_merged decision) s1) of
                 (Inl e, s2) \<Rightarrow> (Inl e, s2)
               | (Inr updated, s2) \<Rightarrow>
                   (Inr \<lparr>cr_outcome = cd_outcome decision, cr_row = updated, cr_rejectedFields = cd_rejectedFields decision\<rparr>, s2)))"

section \<open>Entity tags\<close>

datatype etag_error = ETagMissing | ETagPreconditionFailed string

definition computeETag :: "(string \<Rightarrow> string) \<Rightarrow> nat \<Rightarrow> string \<Rightarrow> string" where
  "computeETag sha256 version updatedAt =
     (let fingerprint = show_nat version @ ''|'' @ updatedAt; hash = take 16 (sha256 fingerprint)
      in CHR 0x22 # ''v'' @ show_nat version @ ''-'' @ hash @ [CHR 0x22])"

definition parseIfMatch :: "string option \<Rightarrow> string list" where
  "parseIfMatch header = (if \<not> truthy_opt header then []
     else filter (\<lambda>part. part \<noteq> []) (map trim (split_on CHR '','' (the header))))"

fun match_candidates :: "string \<Rightarrow> string list \<Rightarrow> etag_error + unit" where
  "match_candidates currentETag [] = Inl (ETagPreconditionFailed currentETag)"
| "match_candidates currentETag (candidate # rest) =
     (if candidate = ''*'' then Inr ()
      else if startsWith candidate ''W/'' then match_candidates currentETag rest
      else if candidate = currentETag then Inr ()
      else match_candidates currentETag rest)"

definition verifyIfMatch :: "string \<Rightarrow> string option \<Rightarrow> etag_error + unit" where
  "verifyIfMatch currentETag header =
     (if trim (nullish header []) = [] then Inl ETagMissing
      else match_candidates currentETag (parseIfMatch header))"

section \<open>Conflicts\<close>

lemma apply_patch_jsprop:
  "distinct (map fst patch) \<Longrightarrow> jsprop (apply_patch protected patch r) k =
     (if k \<in> fst ` set patch \<and> k \<notin> set protected then jsprop patch k else jsprop r k)"
proof (induction protected patch r rule: apply_patch.induct)
  case (2 protected k' v patch merged)
  then show ?case by (auto simp: jsprop_def map_get_set nullish_def)
qed simp

definition server_newer :: "row \<Rightarrow> millis \<Rightarrow> bool" where
  "server_newer r t = (case jsprop r ''updatedAt'' of VDate u \<Rightarrow> u > t | _ \<Rightarrow> False)"

text \<open>The conflict planner decides field by field.  A field is taken from the client exactly when the patch has it,
  it is not protected and the server row is not newer; every other field keeps the server's value; the fields
  refused are the protected ones of the patch, in its order, and the outcome names the case.\<close>

theorem conflict_decision_exact:
  assumes "distinct (map fst patch)"
  shows "(\<forall>k. jsprop (cd_merged (resolvePowerSyncConflict patch t serverRow protected)) k =
        (if k \<in> fst ` set patch \<and> k \<notin> set protected \<and> \<not> server_newer serverRow t then jsprop patch k else jsprop serverRow k))
    \<and> cd_rejectedFields (resolvePowerSyncConflict patch t serverRow protected) = filter (\<lambda>k. k \<in> set protected) (map fst patch)
    \<and> cd_outcome (resolvePowerSyncConflict patch t serverRow protected) =
        (if patch = [] then NoOp else if server_newer serverRow t then ServerWins
         else if \<exists>k\<in>set protected. k \<in> fst ` set patch then PartialConflict else ClientWins)"
proof -
  have n: "(case jsprop serverRow ''updatedAt'' of VDate u \<Rightarrow> u > t | _ \<Rightarrow> False) = server_newer serverRow t"
    by (simp add: server_newer_def)
  have f: "filter (\<lambda>k. k \<in> set protected) (map fst patch) = [] \<longleftrightarrow> \<not> (\<exists>k\<in>set protected. k \<in> fst ` set patch)"
    by (auto simp: filter_empty_conv)
  show ?thesis
  proof (cases "filter (\<lambda>k. k \<in> set protected) (map fst patch) = []")
    case True
    with f have "(\<exists>k\<in>set protected. k \<in> fst ` set patch) = False" by blast
    with True show ?thesis
      using assms unfolding resolvePowerSyncConflict_def Let_def n by (simp add: apply_patch_jsprop)
  next
    case False
    with f have "(\<exists>k\<in>set protected. k \<in> fst ` set patch) = True" by blast
    with False show ?thesis
      using assms unfolding resolvePowerSyncConflict_def Let_def n by (simp add: apply_patch_jsprop)
  qed
qed

theorem conflict_decision_exact_witness:
  "jsprop (cd_merged (resolvePowerSyncConflict [(''title'', VStr ''b''), (''role'', VStr ''admin'')] 10
      [(''title'', VStr ''a''), (''role'', VStr ''user''), (''updatedAt'', VDate 5)] [''role''])) ''role'' = VStr ''user''
   \<and> cd_outcome (resolvePowerSyncConflict [(''title'', VStr ''b''), (''role'', VStr ''admin'')] 10
      [(''title'', VStr ''a''), (''role'', VStr ''user''), (''updatedAt'', VDate 5)] [''role'']) = PartialConflict"
  using conflict_decision_exact [of "[(''title'', VStr ''b''), (''role'', VStr ''admin'')]" 10
      "[(''title'', VStr ''a''), (''role'', VStr ''user''), (''updatedAt'', VDate 5)]" "[''role'']"]
  by (simp add: jsprop_def nullish_def server_newer_def)

text \<open>The row read before the decision is written back whole: a change another writer makes between the read and the
  write is undone even in fields the patch does not mention.\<close>

lemma stale_fields_written_back:
  assumes "dg_findUnique d i s = (Inr (Some existing), s1)" "distinct (map fst patch)" "patch \<noteq> []"
    "\<not> server_newer existing t" "k \<notin> fst ` set patch"
  shows "\<exists>data. snd (updateWithConflict d i patch t protected s) = snd (dg_update d i data s1) \<and> jsprop data k = jsprop existing k"
proof -
  let ?d = "resolvePowerSyncConflict patch t existing protected"
  have n: "(case jsprop existing ''updatedAt'' of VDate u \<Rightarrow> u > t | _ \<Rightarrow> False) = server_newer existing t"
    by (simp add: server_newer_def)
  have "cd_outcome ?d \<notin> {NoOp, ServerWins}" "jsprop (cd_merged ?d) k = jsprop existing k"
    using assms(2-5) unfolding resolvePowerSyncConflict_def Let_def n by (auto simp: apply_patch_jsprop)
  then show ?thesis
    using assms(1)
    by (intro exI [where x = "cd_merged ?d"]) (auto simp: updateWithConflict_def raising_def Let_def split: prod.split sum.split)
qed

section \<open>Entity tags\<close>

lemma hex_plain: "is_hex_ci c \<Longrightarrow> c \<noteq> CHR '','' \<and> \<not> is_space c" "is_digit c \<Longrightarrow> c \<noteq> CHR '','' \<and> \<not> is_space c"
  by (auto simp: is_hex_ci_def is_digit_def is_space_def Let_def)

lemma plain_tag:
  assumes "\<forall>x. list_all is_hex_ci (sha x)"
  shows "\<forall>c\<in>set (computeETag sha v u). c \<noteq> CHR '','' \<and> \<not> is_space c"
proof -
  have "is_hex_ci c" if "c \<in> set (take 16 (sha x))" for c x
    using that assms in_set_takeD unfolding list_all_iff by metis
  then have "\<forall>c\<in>set (take 16 (sha x)). c \<noteq> CHR '','' \<and> \<not> is_space c" for x using hex_plain(1) by blast
  moreover have "\<forall>c\<in>set (show_nat v). c \<noteq> CHR '','' \<and> \<not> is_space c" using show_nat_digits [of v] hex_plain(2) by blast
  moreover have "\<not> is_space CHR 0x22" "\<not> is_space CHR ''v''" "\<not> is_space CHR ''-''" by (simp_all add: is_space_def)
  ultimately show ?thesis by (simp add: computeETag_def Let_def ball_Un)
qed

lemma tag_version: "computeETag sha v u = computeETag sha v' u' \<Longrightarrow> v = v'"
proof -
  have "takeWhile is_digit (drop 2 (computeETag sha v u)) = show_nat v" for v u
    using show_nat_digits [of v] by (simp add: computeETag_def Let_def takeWhile_append2 is_digit_def [of "CHR ''-''"])
  then show "computeETag sha v u = computeETag sha v' u' \<Longrightarrow> v = v'" by (metis show_nat_inj)
qed

text \<open>An entity tag guards exactly the state it was issued for.  Presented with \<open>If-Match\<close>, the tag of one state is
  accepted while the row still has that tag and refused with the current tag otherwise; any change of the
  version, whatever the hash, makes every earlier tag stale; a weak tag and an empty header are never enough.\<close>

theorem etag_guards_updates:
  assumes "\<forall>x. list_all is_hex_ci (sha x)"
  shows "verifyIfMatch (computeETag sha v' u') (Some (computeETag sha v u)) =
      (if computeETag sha v u = computeETag sha v' u' then Inr () else Inl (ETagPreconditionFailed (computeETag sha v' u')))
    \<and> (v \<noteq> v' \<longrightarrow> computeETag sha v u \<noteq> computeETag sha v' u')
    \<and> verifyIfMatch (computeETag sha v' u') (Some (''W/'' @ computeETag sha v u)) = Inl (ETagPreconditionFailed (computeETag sha v' u'))
    \<and> verifyIfMatch (computeETag sha v' u') (Some []) = Inl ETagMissing"
proof -
  have one: "parseIfMatch (Some tag) = [tag]" "trim tag = tag" if "tag \<noteq> []" "\<forall>c\<in>set tag. c \<noteq> CHR '','' \<and> \<not> is_space c" for tag
  proof -
    show t: "trim tag = tag" using that(2) by (intro trim_plain) blast
    have "CHR '','' \<notin> set tag" using that(2) by blast
    then show "parseIfMatch (Some tag) = [tag]" using that(1) t by (simp add: parseIfMatch_def truthy_opt_def split_on_no_sep)
  qed
  have hd: "\<exists>r. computeETag sha v u = CHR 0x22 # r" for v u by (simp add: computeETag_def Let_def)
  have ne: "computeETag sha v u \<noteq> []" "computeETag sha v u \<noteq> ''*''" "\<not> startsWith (computeETag sha v u) ''W/''" for v u
    using hd [of v u] by (auto simp: startsWith_def)
  have weak: "\<forall>c\<in>set (''W/'' @ computeETag sha v u). c \<noteq> CHR '','' \<and> \<not> is_space c"
    using plain_tag [OF assms, of v u] by (auto simp: is_space_def)
  have "verifyIfMatch (computeETag sha v' u') (Some (''W/'' @ computeETag sha v u)) = Inl (ETagPreconditionFailed (computeETag sha v' u'))"
    using one [OF _ weak] by (simp add: verifyIfMatch_def nullish_def startsWith_def)
  moreover have "verifyIfMatch (computeETag sha v' u') (Some (computeETag sha v u)) =
      (if computeETag sha v u = computeETag sha v' u' then Inr () else Inl (ETagPreconditionFailed (computeETag sha v' u')))"
    using one [OF ne(1) plain_tag [OF assms, of v u]] ne [of v u] by (simp add: verifyIfMatch_def nullish_def)
  ultimately show ?thesis using tag_version by (auto simp: verifyIfMatch_def nullish_def trim_def)
qed

theorem etag_guards_updates_witness:
  "verifyIfMatch (computeETag (\<lambda>x. ''ab'') 4 ''b'') (Some (computeETag (\<lambda>x. ''ab'') 3 ''a'')) =
     Inl (ETagPreconditionFailed (computeETag (\<lambda>x. ''ab'') 4 ''b''))"
  using etag_guards_updates [of "\<lambda>x. ''ab''" 4 "''b''" 3 "''a''"] by (simp add: is_hex_ci_def)

end
