(* ===== verification/Gdpr.thy ===== *)
theory Gdpr
  imports Js_Prelude
begin

text \<open>
  Erasure and export of personal data (\<open>src/core/gdpr/\<close>): the request endpoint, the grace-period planner, the daily
  erasure run with its transaction, the export jobs in memory and in the database, and the erasure planner of
  the service.

  The tables a transaction touches are lists of rows; which rows of the unordered, limited query come first is
  an argument (\<open>order\<close>), and so is which transactions fail.
\<close>

section \<open>Grace period\<close>

record pending_erasure =
  pe_id :: string
  pe_userId :: string
  pe_requestedAt :: millis
  pe_cancelledAt :: "millis option"
  pe_completedAt :: "millis option"

record erasure_candidate =
  ec_id :: string
  ec_userId :: string
  ec_requestedAt :: millis
  ec_graceExpiredAt :: millis

record grace_plan =
  gp_readyForErasure :: "erasure_candidate list"
  gp_stillInGrace :: "pending_erasure list"
  gp_skipped :: "pending_erasure list"

definition DEFAULT_GRACE_PERIOD_MS :: millis where
  "DEFAULT_GRACE_PERIOD_MS = 30 * 24 * 60 * 60 * 1000"

fun plan_records :: "millis \<Rightarrow> millis \<Rightarrow> pending_erasure list \<Rightarrow> grace_plan \<Rightarrow> grace_plan" where
  "plan_records grace now [] plan = plan"
| "plan_records grace now (r # rs) plan =
     (if pe_cancelledAt r \<noteq> None \<or> pe_completedAt r \<noteq> None
      then plan_records grace now rs (plan\<lparr>gp_skipped := gp_skipped plan @ [r]\<rparr>)
      else
        let graceExpiredAt = pe_requestedAt r + grace
        in if now \<ge> graceExpiredAt
           then plan_records grace now rs (plan\<lparr>gp_readyForErasure := gp_readyForErasure plan @
                  [\<lparr>ec_id = pe_id r, ec_userId = pe_userId r, ec_requestedAt = pe_requestedAt r, ec_graceExpiredAt = graceExpiredAt\<rparr>]\<rparr>)
           else plan_records grace now rs (plan\<lparr>gp_stillInGrace := gp_stillInGrace plan @ [r]\<rparr>))"

definition planGdprGracePeriodErasures :: "millis option \<Rightarrow> millis \<Rightarrow> pending_erasure list \<Rightarrow> string + grace_plan" where
  "planGdprGracePeriodErasures gracePeriodMs now pending =
     (let grace = nullish gracePeriodMs DEFAULT_GRACE_PERIOD_MS
      in if grace < 0 then Inl ''gdpr-grace: gracePeriodMs must be non-negative''
         else Inr (plan_records grace now pending \<lparr>gp_readyForErasure = [], gp_stillInGrace = [], gp_skipped = []\<rparr>))"

section \<open>The erasure run\<close>

record user_row =
  ur_id :: string
  ur_email :: string
  ur_emailHash :: "string option"
  ur_name :: string
  ur_emailVerified :: bool
  ur_image :: "string option"
  ur_twoFactorEnabled :: "bool option"

text \<open>\<open>ew_credentials\<close> are the rows of the five tables with credentials, each with its table and user.\<close>

record erasure_world =
  ew_users :: "user_row list"
  ew_credentials :: "(string \<times> string) list"
  ew_pending :: "pending_erasure list"

definition CREDENTIAL_TABLES :: "string list" where
  "CREDENTIAL_TABLES = [''two_factors'', ''passkeys'', ''sessions'', ''accounts'', ''api_keys'']"

definition readPendingErasures :: "(pending_erasure list \<Rightarrow> pending_erasure list) \<Rightarrow> erasure_world \<Rightarrow> pending_erasure list" where
  "readPendingErasures order w =
     take 500 (order (filter (\<lambda>r. pe_completedAt r = None \<and> pe_cancelledAt r = None) (ew_pending w)))"

definition sentinelEmail :: "string \<Rightarrow> string" where
  "sentinelEmail userId = ''[ERASED]:'' @ userId @ ''@erased.local''"

definition erased_row :: "user_row \<Rightarrow> user_row" where
  "erased_row u = u\<lparr>ur_email := sentinelEmail (ur_id u), ur_name := ''[ERASED]'', ur_emailVerified := False,
     ur_image := None, ur_twoFactorEnabled := None\<rparr>"

definition anonymiseUserInTx :: "string \<Rightarrow> erasure_world \<Rightarrow> erasure_world" where
  "anonymiseUserInTx userId w = w\<lparr>
     ew_credentials := filter (\<lambda>(table, u). \<not> (table \<in> set CREDENTIAL_TABLES \<and> u = userId)) (ew_credentials w),
     ew_users := update_where (\<lambda>u. ur_id u = userId) erased_row (ew_users w)\<rparr>"

definition markErasureCompletedInTx :: "string \<Rightarrow> millis \<Rightarrow> erasure_world \<Rightarrow> erasure_world" where
  "markErasureCompletedInTx i atMs w =
     w\<lparr>ew_pending := update_where (\<lambda>r. pe_id r = i) (\<lambda>r. r\<lparr>pe_completedAt := Some atMs\<rparr>) (ew_pending w)\<rparr>"

text \<open>One transaction: both writes or none.\<close>

definition eraseUser :: "(string \<Rightarrow> bool) \<Rightarrow> millis \<Rightarrow> erasure_candidate \<Rightarrow> erasure_world \<Rightarrow> bool \<times> erasure_world" where
  "eraseUser fails now c w =
     (if fails (ec_id c) then (False, w)
      else (True, markErasureCompletedInTx (ec_id c) now (anonymiseUserInTx (ec_userId c) w)))"

fun erase_all :: "(string \<Rightarrow> bool) \<Rightarrow> millis \<Rightarrow> erasure_candidate list \<Rightarrow> nat \<Rightarrow> erasure_world \<Rightarrow> nat \<times> erasure_world" where
  "erase_all fails now [] erased w = (erased, w)"
| "erase_all fails now (c # cs) erased w =
     (case eraseUser fails now c w of (ok, w') \<Rightarrow> erase_all fails now cs (if ok then Suc erased else erased) w')"

record tick_result =
  tr_erased :: nat
  tr_stillInGrace :: nat
  tr_skipped :: nat

definition erasure_tick ::
  "(pending_erasure list \<Rightarrow> pending_erasure list) \<Rightarrow> (string \<Rightarrow> bool) \<Rightarrow> millis option \<Rightarrow> millis \<Rightarrow> erasure_world
    \<Rightarrow> (string + tick_result) \<times> erasure_world" where
  "erasure_tick order fails gracePeriodMs now w =
     (case planGdprGracePeriodErasures gracePeriodMs now (readPendingErasures order w) of
        Inl e \<Rightarrow> (Inl e, w)
      | Inr plan \<Rightarrow> (case erase_all fails now (gp_readyForErasure plan) 0 w of (n, w') \<Rightarrow>
          (Inr \<lparr>tr_erased = n, tr_stillInGrace = length (gp_stillInGrace plan), tr_skipped = length (gp_skipped plan)\<rparr>, w')))"

section \<open>The request endpoint\<close>

definition oldest_active :: "string \<Rightarrow> pending_erasure list \<Rightarrow> pending_erasure option" where
  "oldest_active userId t =
     (case sort_by (\<lambda>a b. pe_requestedAt a \<le> pe_requestedAt b)
        (filter (\<lambda>r. pe_userId r = userId \<and> pe_completedAt r = None \<and> pe_cancelledAt r = None) t) of
        [] \<Rightarrow> None | r # _ \<Rightarrow> Some r)"

text \<open>\<open>DELETE /me/account\<close>; \<open>None\<close> is a request without a user, which is refused.\<close>

definition deleteAccount :: "string \<Rightarrow> millis \<Rightarrow> string option \<Rightarrow> erasure_world \<Rightarrow> millis option \<times> erasure_world" where
  "deleteAccount uuid now user w =
     (case user of
        None \<Rightarrow> (None, w)
      | Some userId \<Rightarrow>
          (case oldest_active userId (ew_pending w) of
             Some r \<Rightarrow> (Some (pe_requestedAt r), w)
           | None \<Rightarrow> (Some now, w\<lparr>ew_pending := ew_pending w @
               [\<lparr>pe_id = uuid, pe_userId = userId, pe_requestedAt = now, pe_cancelledAt = None, pe_completedAt = None\<rparr>]\<rparr>)))"

section \<open>Export jobs\<close>

datatype export_status = ExportPending | ExportRunning | ExportCompleted | ExportFailed

record export_job =
  ej_id :: string
  ej_userId :: string
  ej_tenantId :: "string option"
  ej_status :: export_status
  ej_requestedAt :: millis
  ej_completedAt :: "millis option"
  ej_payload :: "json option"
  ej_error :: "string option"

text \<open>The registry keeps jobs in a map with the time each leaves it, or in a table.\<close>

record export_registry =
  xr_usePrisma :: bool
  xr_jobs :: "(string \<times> export_job) list"
  xr_evictions :: "(string \<times> millis) list"
  xr_table :: "export_job list"

definition STALE_JOB_AGE_MS :: millis where "STALE_JOB_AGE_MS = 2 * 60 * 60 * 1000"
definition EVICTION_MS :: millis where "EVICTION_MS = 24 * 60 * 60 * 1000"

definition new_job :: "string \<Rightarrow> millis \<Rightarrow> string \<Rightarrow> string option \<Rightarrow> export_job" where
  "new_job uuid now userId tenantId = \<lparr>ej_id = uuid, ej_userId = userId, ej_tenantId = tenantId, ej_status = ExportPending,
     ej_requestedAt = now, ej_completedAt = None, ej_payload = None, ej_error = None\<rparr>"

definition export_enqueue :: "string \<Rightarrow> millis \<Rightarrow> string \<Rightarrow> string option \<Rightarrow> export_registry \<Rightarrow> export_job \<times> export_registry" where
  "export_enqueue uuid now userId tenantId x =
     (let job = new_job uuid now userId tenantId
      in if xr_usePrisma x then (job, x\<lparr>xr_table := xr_table x @ [job]\<rparr>)
         else (job, x\<lparr>xr_jobs := map_set uuid job (xr_jobs x)\<rparr>))"

definition export_get :: "string \<Rightarrow> export_registry \<Rightarrow> export_job option" where
  "export_get i x = (if xr_usePrisma x then find_first (\<lambda>j. ej_id j = i) (xr_table x) else map_get (xr_jobs x) i)"

definition write_job :: "string \<Rightarrow> export_job \<Rightarrow> export_registry \<Rightarrow> export_registry" where
  "write_job i job x =
     (if xr_usePrisma x then x\<lparr>xr_table := update_where (\<lambda>j. ej_id j = i) (\<lambda>_. job) (xr_table x)\<rparr>
      else x\<lparr>xr_jobs := map_set i job (xr_jobs x)\<rparr>)"

definition evict_later :: "string \<Rightarrow> millis \<Rightarrow> export_registry \<Rightarrow> export_registry" where
  "evict_later i now x = (if xr_usePrisma x then x else x\<lparr>xr_evictions := xr_evictions x @ [(i, now + EVICTION_MS)]\<rparr>)"

definition terminal :: "export_status \<Rightarrow> bool" where
  "terminal st \<longleftrightarrow> st = ExportCompleted \<or> st = ExportFailed"

text \<open>\<open>False\<close> is \<open>GdprExportJobNotFoundError\<close>.\<close>

definition export_start :: "string \<Rightarrow> export_registry \<Rightarrow> bool \<times> export_registry" where
  "export_start i x = (case export_get i x of
     None \<Rightarrow> (False, x)
   | Some job \<Rightarrow> if ej_status job \<noteq> ExportPending then (True, x)
                  else (True, write_job i (job\<lparr>ej_status := ExportRunning\<rparr>) x))"

definition export_complete :: "string \<Rightarrow> json \<Rightarrow> millis \<Rightarrow> export_registry \<Rightarrow> bool \<times> export_registry" where
  "export_complete i payload now x = (case export_get i x of
     None \<Rightarrow> (False, x)
   | Some job \<Rightarrow> if terminal (ej_status job) then (True, x)
                  else (True, evict_later i now (write_job i
                    (job\<lparr>ej_status := ExportCompleted, ej_completedAt := Some now, ej_payload := Some payload\<rparr>) x)))"

definition export_fail :: "string \<Rightarrow> string \<Rightarrow> millis \<Rightarrow> export_registry \<Rightarrow> bool \<times> export_registry" where
  "export_fail i message now x = (case export_get i x of
     None \<Rightarrow> (False, x)
   | Some job \<Rightarrow> if terminal (ej_status job) then (True, x)
                  else (True, evict_later i now (write_job i
                    (job\<lparr>ej_status := ExportFailed, ej_completedAt := Some now, ej_error := Some message\<rparr>) x)))"

definition export_listForUser :: "string \<Rightarrow> export_registry \<Rightarrow> export_job list" where
  "export_listForUser userId x =
     (if xr_usePrisma x then sort_by (\<lambda>a b. ej_requestedAt b \<le> ej_requestedAt a) (filter (\<lambda>j. ej_userId j = userId) (xr_table x))
      else filter (\<lambda>j. ej_userId j = userId) (map snd (xr_jobs x)))"

definition stale :: "millis \<Rightarrow> export_job \<Rightarrow> bool" where
  "stale now job \<longleftrightarrow> \<not> terminal (ej_status job) \<and> ej_requestedAt job < now - STALE_JOB_AGE_MS"

definition sweepStaleJobs :: "millis \<Rightarrow> export_registry \<Rightarrow> export_registry" where
  "sweepStaleJobs now x = x\<lparr>
     xr_jobs := map (\<lambda>(i, job). (i, if stale now job then job\<lparr>ej_status := ExportFailed, ej_completedAt := Some now,
        ej_error := Some ''job timed out''\<rparr> else job)) (xr_jobs x),
     xr_evictions := xr_evictions x @ map (\<lambda>(i, job). (ej_id job, now + EVICTION_MS)) (filter (\<lambda>(i, job). stale now job) (xr_jobs x))\<rparr>"

text \<open>The eviction timers that are due at \<open>now\<close> fire.\<close>

definition fire_evictions :: "millis \<Rightarrow> export_registry \<Rightarrow> export_registry" where
  "fire_evictions now x = x\<lparr>
     xr_jobs := foldr map_delete (map fst (filter (\<lambda>(i, t). t \<le> now) (xr_evictions x))) (xr_jobs x),
     xr_evictions := filter (\<lambda>(i, t). \<not> t \<le> now) (xr_evictions x)\<rparr>"

datatype export_error = AuthRequired | ExportNotFound | ExportForbidden

definition buildGdprExport :: "string \<Rightarrow> string option \<Rightarrow> millis \<Rightarrow> json" where
  "buildGdprExport userId tenantId now = JObj [(''kind'', JStr ''gdpr-export''), (''version'', JNum 1),
     (''exportedAt'', JStr (toISOString now)),
     (''user'', JObj [(''id'', JStr userId), (''tenantId'', case tenantId of None \<Rightarrow> JNull | Some t \<Rightarrow> JStr t)]),
     (''relatedResources'', JObj [])]"

definition exportStatus :: "string option \<Rightarrow> string \<Rightarrow> export_registry \<Rightarrow> export_error + export_job" where
  "exportStatus user i x = (case user of
     None \<Rightarrow> Inl AuthRequired
   | Some u \<Rightarrow> (case export_get i x of
        None \<Rightarrow> Inl ExportNotFound
      | Some job \<Rightarrow> if ej_userId job \<noteq> u then Inl ExportForbidden else Inr job))"

text \<open>\<open>GET /me/export\<close> enqueues and answers at once; \<open>runExport\<close> follows in the background.\<close>

definition export_request :: "string option \<Rightarrow> string option \<Rightarrow> string \<Rightarrow> millis \<Rightarrow> export_registry \<Rightarrow> (export_error + export_job) \<times> export_registry" where
  "export_request user tenantId uuid now x = (case user of
     None \<Rightarrow> (Inl AuthRequired, x)
   | Some u \<Rightarrow> (case export_enqueue uuid now u tenantId x of (job, x') \<Rightarrow> (Inr job, x')))"

text \<open>\<open>runExport\<close>: the error of a vanished job makes \<open>fail\<close> throw as well, which is logged.\<close>

definition runExport :: "string \<Rightarrow> string \<Rightarrow> string option \<Rightarrow> millis \<Rightarrow> export_registry \<Rightarrow> export_registry" where
  "runExport i userId tenantId now x = (case export_start i x of
     (False, x1) \<Rightarrow> snd (export_fail i ''not found'' now x1)
   | (True, x1) \<Rightarrow> (case export_complete i (buildGdprExport userId tenantId now) now x1 of
        (False, x2) \<Rightarrow> snd (export_fail i ''not found'' now x2)
      | (True, x2) \<Rightarrow> x2))"

section \<open>Erasure planner of the service\<close>

datatype erasure_mode = HardDelete | Anonymise
datatype pii_strategy = PiiHash | PiiNull | PiiMask

record pii_field =
  pf_name :: string
  pf_strategy :: pii_strategy

datatype erasure_operation = GdprDelete string | GdprUpdate string "(string \<times> string option) list"

definition resolveAnonymisationSecret :: "string option \<Rightarrow> string option \<Rightarrow> string" where
  "resolveAnonymisationSecret gdprSecret authSecret = nullish gdprSecret (nullish authSecret ''gdpr-fallback-no-secret-configured'')"

definition pii_substitute :: "pii_field \<Rightarrow> string \<Rightarrow> string option" where
  "pii_substitute f hashSlice = (case pf_strategy f of
     PiiHash \<Rightarrow> Some (if pf_name f = ''email'' then ''anon-'' @ hashSlice @ ''@anonymous.invalid'' else ''anon-'' @ hashSlice)
   | PiiNull \<Rightarrow> None
   | PiiMask \<Rightarrow> Some ''***'')"

definition planGdprErasure ::
  "(string \<Rightarrow> string \<Rightarrow> string) \<Rightarrow> string \<Rightarrow> string \<Rightarrow> erasure_mode \<Rightarrow> pii_field list \<Rightarrow> string + erasure_operation list" where
  "planGdprErasure hmac secret userId mode piiFields =
     (if userId = [] then Inl ''gdpr: userId must be a non-empty string''
      else case mode of
        HardDelete \<Rightarrow> Inr [GdprDelete userId]
      | Anonymise \<Rightarrow>
          if piiFields = [] then Inl ''gdpr: piiFields must contain at least one entry for anonymise mode''
          else let hashSlice = take 16 (hmac secret userId)
               in Inr [GdprUpdate userId (fold (\<lambda>f m. map_set (pf_name f) (pii_substitute f hashSlice) m) piiFields [])])"

end
