(* ===== verification/Gdpr_Lifecycle.thy ===== *)
theory Gdpr_Lifecycle
  imports Gdpr "HOL-Library.Multiset"
begin

text \<open>
  Nobody is erased before the grace period of their own request has passed, everybody due is erased by the next run,
  repeated requests are one request, and export jobs only move forward and are shown only to their owner.
\<close>

section \<open>One run\<close>

definition open_request :: "pending_erasure \<Rightarrow> bool" where
  "open_request r \<longleftrightarrow> pe_completedAt r = None \<and> pe_cancelledAt r = None"

definition candidate_of :: "millis \<Rightarrow> pending_erasure \<Rightarrow> erasure_candidate" where
  "candidate_of grace r = \<lparr>ec_id = pe_id r, ec_userId = pe_userId r, ec_requestedAt = pe_requestedAt r,
     ec_graceExpiredAt = pe_requestedAt r + grace\<rparr>"

lemma plan_records_ready:
  "gp_readyForErasure (plan_records grace now rs plan) =
     gp_readyForErasure plan @ map (candidate_of grace) (filter (\<lambda>r. open_request r \<and> pe_requestedAt r + grace \<le> now) rs)"
  by (induction rs arbitrary: plan) (auto simp: open_request_def candidate_of_def Let_def)

definition due :: "(pending_erasure list \<Rightarrow> pending_erasure list) \<Rightarrow> millis \<Rightarrow> erasure_world \<Rightarrow> pending_erasure list" where
  "due order now w = filter (\<lambda>r. open_request r \<and> pe_requestedAt r + DEFAULT_GRACE_PERIOD_MS \<le> now) (readPendingErasures order w)"

lemma erased_row_idem [simp]: "erased_row (erased_row u) = erased_row u"
  by (simp add: erased_row_def)

lemma erased_row_id [simp]: "ur_id (erased_row u) = ur_id u"
  by (simp add: erased_row_def)

lemma erase_all_effect:
  assumes "ok = filter (\<lambda>c. \<not> fails (ec_id c)) cs"
  shows "snd (erase_all fails now cs n w) = w\<lparr>
      ew_credentials := filter (\<lambda>(t, u). \<not> (t \<in> set CREDENTIAL_TABLES \<and> u \<in> ec_userId ` set ok)) (ew_credentials w),
      ew_users := update_where (\<lambda>u. ur_id u \<in> ec_userId ` set ok) erased_row (ew_users w),
      ew_pending := update_where (\<lambda>r. pe_id r \<in> ec_id ` set ok) (\<lambda>r. r\<lparr>pe_completedAt := Some now\<rparr>) (ew_pending w)\<rparr>"
  using assms
proof (induction cs arbitrary: n w ok)
  case Nil
  then show ?case by (simp add: update_where_none split_def)
next
  case (Cons c cs)
  let ?ok = "filter (\<lambda>c. \<not> fails (ec_id c)) cs"
  show ?case
  proof (cases "fails (ec_id c)")
    case True
    then show ?thesis using Cons by (simp add: eraseUser_def)
  next
    case False
    let ?w = "markErasureCompletedInTx (ec_id c) now (anonymiseUserInTx (ec_userId c) w)"
    have users: "update_where (\<lambda>u. ur_id u \<in> ec_userId ` set ?ok) erased_row (ew_users ?w) =
        update_where (\<lambda>u. ur_id u \<in> insert (ec_userId c) (ec_userId ` set ?ok)) erased_row (ew_users w)"
      by (simp add: markErasureCompletedInTx_def anonymiseUserInTx_def update_where_def)
    have pend: "update_where (\<lambda>r. pe_id r \<in> ec_id ` set ?ok) (\<lambda>r. r\<lparr>pe_completedAt := Some now\<rparr>) (ew_pending ?w) =
        update_where (\<lambda>r. pe_id r \<in> insert (ec_id c) (ec_id ` set ?ok)) (\<lambda>r. r\<lparr>pe_completedAt := Some now\<rparr>) (ew_pending w)"
      by (simp add: markErasureCompletedInTx_def anonymiseUserInTx_def update_where_def)
    have creds: "filter (\<lambda>(t, u). \<not> (t \<in> set CREDENTIAL_TABLES \<and> u \<in> ec_userId ` set ?ok)) (ew_credentials ?w) =
        filter (\<lambda>(t, u). \<not> (t \<in> set CREDENTIAL_TABLES \<and> u \<in> insert (ec_userId c) (ec_userId ` set ?ok))) (ew_credentials w)"
      by (auto simp: markErasureCompletedInTx_def anonymiseUserInTx_def intro!: filter_cong)
    have "snd (erase_all fails now (c # cs) n w) = snd (erase_all fails now cs (Suc n) ?w)"
      using False by (simp add: eraseUser_def)
    also have "\<dots> = ?w\<lparr>
      ew_credentials := filter (\<lambda>(t, u). \<not> (t \<in> set CREDENTIAL_TABLES \<and> u \<in> ec_userId ` set ?ok)) (ew_credentials ?w),
      ew_users := update_where (\<lambda>u. ur_id u \<in> ec_userId ` set ?ok) erased_row (ew_users ?w),
      ew_pending := update_where (\<lambda>r. pe_id r \<in> ec_id ` set ?ok) (\<lambda>r. r\<lparr>pe_completedAt := Some now\<rparr>) (ew_pending ?w)\<rparr>"
      using Cons.IH [OF refl] .
    also have "\<dots> = w\<lparr>
      ew_credentials := filter (\<lambda>(t, u). \<not> (t \<in> set CREDENTIAL_TABLES \<and> u \<in> insert (ec_userId c) (ec_userId ` set ?ok))) (ew_credentials w),
      ew_users := update_where (\<lambda>u. ur_id u \<in> insert (ec_userId c) (ec_userId ` set ?ok)) erased_row (ew_users w),
      ew_pending := update_where (\<lambda>r. pe_id r \<in> insert (ec_id c) (ec_id ` set ?ok)) (\<lambda>r. r\<lparr>pe_completedAt := Some now\<rparr>) (ew_pending w)\<rparr>"
      unfolding creds users pend by (simp add: markErasureCompletedInTx_def anonymiseUserInTx_def)
    finally show ?thesis using False Cons.prems by simp
  qed
qed

lemma erasure_tick_effect:
  assumes "ok = filter (\<lambda>r. \<not> fails (pe_id r)) (due order now w)"
  shows "snd (erasure_tick order fails None now w) = w\<lparr>
      ew_credentials := filter (\<lambda>(t, u). \<not> (t \<in> set CREDENTIAL_TABLES \<and> u \<in> pe_userId ` set ok)) (ew_credentials w),
      ew_users := update_where (\<lambda>u. ur_id u \<in> pe_userId ` set ok) erased_row (ew_users w),
      ew_pending := update_where (\<lambda>r. pe_id r \<in> pe_id ` set ok) (\<lambda>r. r\<lparr>pe_completedAt := Some now\<rparr>) (ew_pending w)\<rparr>"
proof -
  let ?cs = "map (candidate_of DEFAULT_GRACE_PERIOD_MS) (due order now w)"
  have ok: "filter (\<lambda>c. \<not> fails (ec_id c)) ?cs = map (candidate_of DEFAULT_GRACE_PERIOD_MS) ok"
    using assms by (simp add: filter_map candidate_of_def comp_def)
  have im: "ec_userId ` set (map (candidate_of g) ok) = pe_userId ` set ok" "ec_id ` set (map (candidate_of g) ok) = pe_id ` set ok" for g
    by (force simp: candidate_of_def)+
  have "snd (erasure_tick order fails None now w) = snd (erase_all fails now ?cs 0 w)"
    by (simp add: erasure_tick_def planGdprGracePeriodErasures_def DEFAULT_GRACE_PERIOD_MS_def nullish_def plan_records_ready due_def
        split: prod.split)
  then show ?thesis using erase_all_effect [OF ok [symmetric]] by (simp only: im)
qed

section \<open>Any sequence of requests and runs\<close>

text \<open>\<open>erasure_reach users creds R w\<close>: the world \<open>w\<close> is reached from the given users and credentials by requests,
  collected in \<open>R\<close> with their times, and daily runs whose query may return the rows in any order.\<close>

inductive erasure_reach :: "user_row list \<Rightarrow> (string \<times> string) list \<Rightarrow> (string \<times> millis) set \<Rightarrow> erasure_world \<Rightarrow> bool"
  for users creds where
  start: "erasure_reach users creds {} \<lparr>ew_users = users, ew_credentials = creds, ew_pending = []\<rparr>"
| request: "erasure_reach users creds R w \<Longrightarrow> uuid \<notin> pe_id ` set (ew_pending w) \<Longrightarrow>
    erasure_reach users creds (insert (u, now) R) (snd (deleteAccount uuid now (Some u) w))"
| run: "erasure_reach users creds R w \<Longrightarrow> \<forall>rs. set (order rs) = set rs \<Longrightarrow>
    erasure_reach users creds R (snd (erasure_tick order fails None now w))"

definition erased_in :: "erasure_world \<Rightarrow> string \<Rightarrow> bool" where
  "erased_in w i \<longleftrightarrow> (\<exists>r\<in>set (ew_pending w). pe_userId r = i \<and> pe_completedAt r \<noteq> None)"

definition erasure_inv :: "user_row list \<Rightarrow> (string \<times> string) list \<Rightarrow> (string \<times> millis) set \<Rightarrow> erasure_world \<Rightarrow> bool" where
  "erasure_inv users creds R w \<longleftrightarrow>
     ew_users w = map (\<lambda>u. if erased_in w (ur_id u) then erased_row u else u) users
   \<and> ew_credentials w = filter (\<lambda>(t, u). \<not> (t \<in> set CREDENTIAL_TABLES \<and> erased_in w u)) creds
   \<and> distinct (map pe_id (ew_pending w))
   \<and> (\<forall>r\<in>set (ew_pending w). (pe_userId r, pe_requestedAt r) \<in> R \<and> pe_cancelledAt r = None
        \<and> (\<forall>c. pe_completedAt r = Some c \<longrightarrow> pe_requestedAt r + DEFAULT_GRACE_PERIOD_MS \<le> c))
   \<and> distinct (map pe_userId (filter open_request (ew_pending w)))"

lemma oldest_active_None:
  "oldest_active u t = None \<longleftrightarrow> u \<notin> pe_userId ` set (filter open_request t)"
proof -
  have "sort_by le xs = [] \<longleftrightarrow> xs = []" for le :: "pending_erasure \<Rightarrow> pending_erasure \<Rightarrow> bool" and xs
    by (metis length_0_conv length_sort_by)
  then have "oldest_active u t = None \<longleftrightarrow>
      filter (\<lambda>r. pe_userId r = u \<and> pe_completedAt r = None \<and> pe_cancelledAt r = None) t = []"
    unfolding oldest_active_def by (metis (no_types, lifting) list.case_eq_if option.distinct(1))
  then show ?thesis by (auto simp: filter_empty_conv open_request_def)
qed

lemma request_inv:
  assumes "erasure_inv users creds R w" "uuid \<notin> pe_id ` set (ew_pending w)"
  shows "erasure_inv users creds (insert (u, now) R) (snd (deleteAccount uuid now (Some u) w))"
proof (cases "oldest_active u (ew_pending w)")
  case None
  let ?w = "snd (deleteAccount uuid now (Some u) w)"
  have w: "?w = w\<lparr>ew_pending := ew_pending w @ [\<lparr>pe_id = uuid, pe_userId = u, pe_requestedAt = now, pe_cancelledAt = None, pe_completedAt = None\<rparr>]\<rparr>"
    using None by (simp add: deleteAccount_def)
  have "erased_in ?w = erased_in w" by (auto simp: erased_in_def w fun_eq_iff)
  then show ?thesis
    using assms None by (auto simp: erasure_inv_def w oldest_active_None open_request_def)
next
  case (Some r)
  then show ?thesis using assms(1) by (auto simp: deleteAccount_def erasure_inv_def)
qed

lemma due_in: "\<forall>rs. set (order rs) = set rs \<Longrightarrow> r \<in> set (due order now w) \<Longrightarrow>
    r \<in> set (ew_pending w) \<and> open_request r \<and> pe_requestedAt r + DEFAULT_GRACE_PERIOD_MS \<le> now"
  by (auto simp: due_def readPendingErasures_def dest!: in_set_takeD)

lemma ex_marked: "A \<subseteq> P \<Longrightarrow> (\<exists>r\<in>P. g r = i \<and> (r \<in> A \<or> Q r)) \<longleftrightarrow> (\<exists>r\<in>P. g r = i \<and> Q r) \<or> i \<in> g ` A"
  by auto

lemma run_inv:
  assumes inv: "erasure_inv users creds R w" and order: "\<forall>rs. set (order rs) = set rs"
  shows "erasure_inv users creds R (snd (erasure_tick order fails None now w))"
proof -
  define ok where "ok = filter (\<lambda>r. \<not> fails (pe_id r)) (due order now w)"
  define f where "f r = (if r \<in> set ok then r\<lparr>pe_completedAt := Some now\<rparr> else r)" for r :: pending_erasure
  let ?w = "snd (erasure_tick order fails None now w)"
  note eff = erasure_tick_effect [OF ok_def]
  have ok: "r \<in> set (ew_pending w)" "open_request r" "pe_requestedAt r + DEFAULT_GRACE_PERIOD_MS \<le> now" if "r \<in> set ok" for r
    using that due_in [OF order] by (auto simp: ok_def)
  have ids: "distinct (map pe_id (ew_pending w))" using inv by (simp add: erasure_inv_def)
  have pend: "ew_pending ?w = map f (ew_pending w)"
    using ids ok(1) by (auto simp: eff update_where_def f_def distinct_map inj_on_def)
  have same: "pe_id \<circ> f = pe_id" by (auto simp: f_def)
  have er: "erased_in ?w i \<longleftrightarrow> erased_in w i \<or> i \<in> pe_userId ` set ok" for i
  proof -
    have f: "pe_userId (f r) = pe_userId r" "pe_completedAt (f r) \<noteq> None \<longleftrightarrow> r \<in> set ok \<or> pe_completedAt r \<noteq> None" for r
      by (simp_all add: f_def)
    have sub: "set ok \<subseteq> set (ew_pending w)" using ok(1) by blast
    have "erased_in ?w i \<longleftrightarrow> (\<exists>r\<in>set (ew_pending w). pe_userId r = i \<and> (r \<in> set ok \<or> pe_completedAt r \<noteq> None))"
      unfolding erased_in_def pend set_map bex_simps f ..
    then show ?thesis unfolding ex_marked [OF sub] by (simp only: erased_in_def)
  qed
  have facts: "filter open_request (map f rs) = filter (\<lambda>r. r \<notin> set ok) (filter open_request rs)" for rs
    by (induction rs) (auto simp: f_def open_request_def)
  have act: "distinct (map pe_userId (filter open_request (ew_pending ?w)))"
    unfolding pend facts by (rule distinct_map_filter) (use inv in \<open>simp add: erasure_inv_def\<close>)
  have "ew_users ?w = map (\<lambda>u. if erased_in ?w (ur_id u) then erased_row u else u) users"
    unfolding er unfolding eff using inv by (simp add: update_where_def erasure_inv_def)
  moreover have "ew_credentials ?w = filter (\<lambda>(t, u). \<not> (t \<in> set CREDENTIAL_TABLES \<and> erased_in ?w u)) creds"
    unfolding er unfolding eff using inv by (auto simp: erasure_inv_def intro!: filter_cong)
  moreover have "\<forall>r\<in>set (ew_pending ?w). (pe_userId r, pe_requestedAt r) \<in> R \<and> pe_cancelledAt r = None
        \<and> (\<forall>c. pe_completedAt r = Some c \<longrightarrow> pe_requestedAt r + DEFAULT_GRACE_PERIOD_MS \<le> c)"
    using inv ok(3) by (auto simp: pend f_def erasure_inv_def)
  ultimately show ?thesis using act ids by (simp add: erasure_inv_def pend same)
qed

lemma reach_inv: "erasure_reach users creds R w \<Longrightarrow> erasure_inv users creds R w"
proof (induction rule: erasure_reach.induct)
  case start
  then show ?case by (simp add: erasure_inv_def erased_in_def split_def)
next
  case (request R w uuid u now)
  then show ?case by (intro request_inv)
next
  case (run R w order fails now)
  then show ?case by (intro run_inv)
qed

text \<open>C15: Nobody is erased early, and nothing else is touched.  Whatever requests were made and however often the run
  was started, on whatever clock and in whatever order it read the rows, exactly the users with a completed
  request are in their erased form and have lost their credentials, and each of them had asked for it at least
  30 days before.\<close>

theorem erased_only_after_grace:
  assumes "erasure_reach users creds R w"
  shows "ew_users w = map (\<lambda>u. if erased_in w (ur_id u) then erased_row u else u) users
   \<and> ew_credentials w = filter (\<lambda>(t, u). \<not> (t \<in> set CREDENTIAL_TABLES \<and> erased_in w u)) creds
   \<and> (\<forall>i. erased_in w i \<longrightarrow> (\<exists>r\<in>set (ew_pending w). \<exists>c. pe_userId r = i \<and> pe_completedAt r = Some c
         \<and> (i, pe_requestedAt r) \<in> R \<and> pe_requestedAt r + 30 * 24 * 60 * 60 * 1000 \<le> c))"
proof -
  have inv: "erasure_inv users creds R w" using assms by (rule reach_inv)
  then have "\<exists>r\<in>set (ew_pending w). \<exists>c. pe_userId r = i \<and> pe_completedAt r = Some c
      \<and> (i, pe_requestedAt r) \<in> R \<and> pe_requestedAt r + 30 * 24 * 60 * 60 * 1000 \<le> c" if "erased_in w i" for i
    using that unfolding erased_in_def erasure_inv_def DEFAULT_GRACE_PERIOD_MS_def by fastforce
  with inv show ?thesis by (simp add: erasure_inv_def)
qed

text \<open>C26: Everybody due is erased by the next run.  While at most 500 requests are open, a run at or after the end of
  the grace period whose transaction for the request succeeds leaves the user in the erased form, without
  credentials, and the request completed.\<close>

theorem due_request_is_carried_out:
  assumes reach: "erasure_reach users creds R w" and order: "\<forall>rs. mset (order rs) = mset rs"
    and few: "length (filter open_request (ew_pending w)) \<le> 500"
    and r: "r \<in> set (ew_pending w)" "open_request r" "pe_requestedAt r + DEFAULT_GRACE_PERIOD_MS \<le> now" "\<not> fails (pe_id r)"
    and w': "w' = snd (erasure_tick order fails None now w)"
  shows "erased_in w' (pe_userId r)
    \<and> (\<forall>u\<in>set (ew_users w'). ur_id u = pe_userId r \<longrightarrow> erased_row u = u)
    \<and> (\<forall>t\<in>set CREDENTIAL_TABLES. (t, pe_userId r) \<notin> set (ew_credentials w'))
    \<and> r\<lparr>pe_completedAt := Some now\<rparr> \<in> set (ew_pending w')"
proof -
  have o: "set (order rs) = set rs" "length (order rs) = length rs" for rs
    using order by (metis mset_eq_setD, metis mset_eq_length)
  have act: "open_request = (\<lambda>r. pe_completedAt r = None \<and> pe_cancelledAt r = None)" by (simp add: open_request_def fun_eq_iff)
  have "set (readPendingErasures order w) = set (filter open_request (ew_pending w))"
    using few o unfolding act by (simp add: readPendingErasures_def)
  then have "r \<in> set (due order now w)" using r by (simp add: due_def)
  then have ok: "r \<in> set (filter (\<lambda>r. \<not> fails (pe_id r)) (due order now w))" using r(4) by simp
  have "erasure_reach users creds R w'" unfolding w' using reach o(1) by (intro erasure_reach.run) blast+
  then have inv: "erasure_inv users creds R w'" by (rule reach_inv)
  have pend: "r\<lparr>pe_completedAt := Some now\<rparr> \<in> set (ew_pending w')"
    unfolding w' erasure_tick_effect [OF refl] using r(1) ok by (force simp: set_update_where)
  then have er: "erased_in w' (pe_userId r)" unfolding erased_in_def by (intro bexI [OF _ pend]) simp
  then show ?thesis using inv pend by (auto simp: erasure_inv_def)
qed

lemma open_request_unique: "distinct (map pe_userId (filter open_request t)) \<Longrightarrow> length (filter (\<lambda>r. open_request r \<and> pe_userId r = u) t) \<le> 1"
proof -
  have *: "length (filter (\<lambda>r. pe_userId r = u) rs) \<le> 1" if "distinct (map pe_userId rs)" for rs
    using that by (induction rs) (auto simp: filter_empty_conv image_iff)
  show "distinct (map pe_userId (filter open_request t)) \<Longrightarrow> ?thesis" using * [of "filter open_request t"] by (simp add: conj_commute)
qed

text \<open>Asking again changes nothing.  A user has at most one open request; a second request answers with the time
  of the first and leaves the table as it is.\<close>

theorem repeated_request_is_one_request:
  assumes "erasure_reach users creds R w" "deleteAccount uuid now (Some u) w = (ans, w1)"
  shows "length (filter (\<lambda>r. open_request r \<and> pe_userId r = u) (ew_pending w1)) = 1
    \<and> deleteAccount uuid' now' (Some u) w1 = (ans, w1)"
proof -
  have d: "distinct (map pe_userId (filter open_request (ew_pending w)))"
    using reach_inv [OF assms(1)] by (simp add: erasure_inv_def)
  have open_eq: "(\<lambda>r. pe_userId r = u \<and> pe_completedAt r = None \<and> pe_cancelledAt r = None) = (\<lambda>r. open_request r \<and> pe_userId r = u)"
    by (auto simp: open_request_def fun_eq_iff)
  show ?thesis
  proof (cases "oldest_active u (ew_pending w)")
    case None
    define new where "new = \<lparr>pe_id = uuid, pe_userId = u, pe_requestedAt = now, pe_cancelledAt = None, pe_completedAt = None\<rparr>"
    have "filter (\<lambda>r. open_request r \<and> pe_userId r = u) (ew_pending w) = []"
      using None by (auto simp: oldest_active_None filter_empty_conv)
    moreover have "w1 = w\<lparr>ew_pending := ew_pending w @ [new]\<rparr>" "ans = Some now" using None assms(2) by (auto simp: deleteAccount_def new_def)
    moreover have "open_request new" "pe_userId new = u" "pe_requestedAt new = now" by (simp_all add: new_def open_request_def)
    ultimately show ?thesis by (simp add: deleteAccount_def oldest_active_def open_eq)
  next
    case (Some r)
    then have w1: "w1 = w" "ans = Some (pe_requestedAt r)" using assms(2) by (auto simp: deleteAccount_def)
    have "filter (\<lambda>r. open_request r \<and> pe_userId r = u) (ew_pending w) \<noteq> []"
      using Some oldest_active_None [of u "ew_pending w"] by (auto simp: filter_empty_conv)
    then have "length (filter (\<lambda>r. open_request r \<and> pe_userId r = u) (ew_pending w)) = 1"
      using open_request_unique [OF d, of u] by (cases "filter (\<lambda>r. open_request r \<and> pe_userId r = u) (ew_pending w)") auto
    then show ?thesis using Some w1 by (simp add: deleteAccount_def)
  qed
qed

text \<open>The hash of the former address survives the erasure, so that the address can still be confirmed by anyone with
  the index key.\<close>

lemma email_hash_survives: "ur_emailHash (erased_row u) = ur_emailHash u"
  by (simp add: erased_row_def)

text \<open>More open requests than the query returns can keep a due one waiting: the query has no order.\<close>

lemma run_can_starve:
  assumes "length young = 500" "\<forall>r\<in>set young. open_request r \<and> \<not> pe_requestedAt r + DEFAULT_GRACE_PERIOD_MS \<le> now"
    "ew_pending w = young @ [old]" "open_request old"
  shows "snd (erasure_tick id (\<lambda>i. False) None now w) = w"
proof -
  have act: "(\<lambda>r. pe_completedAt r = None \<and> pe_cancelledAt r = None) = open_request" by (simp add: open_request_def fun_eq_iff)
  have "filter open_request young = young" using assms(2) by simp
  then have "readPendingErasures id w = young" using assms(1,3,4) by (simp add: readPendingErasures_def act)
  then have "due id now w = []" using assms(2) by (simp add: due_def filter_empty_conv)
  then show ?thesis by (subst erasure_tick_effect [OF refl]) (simp add: update_where_none split_def)
qed

section \<open>Export jobs\<close>

text \<open>What the registry needs of the place it keeps its jobs in.\<close>

locale job_store =
  fixes lookup :: "string \<Rightarrow> 's \<Rightarrow> export_job option"
    and store :: "string \<Rightarrow> export_job \<Rightarrow> 's \<Rightarrow> 's"
    and valid :: "'s \<Rightarrow> bool"
  assumes lookup_id: "valid x \<Longrightarrow> lookup i x = Some job \<Longrightarrow> ej_id job = i"
    and lookup_store: "valid x \<Longrightarrow> lookup i x \<noteq> None \<Longrightarrow> ej_id job = i \<Longrightarrow> lookup j (store i job x) = (if j = i then Some job else lookup j x)"
    and valid_store: "valid x \<Longrightarrow> lookup i x \<noteq> None \<Longrightarrow> ej_id job = i \<Longrightarrow> valid (store i job x)"
begin

lemma store_modified:
  assumes "valid x" "lookup i x = Some job" "\<And>j. ej_id (f j) = ej_id j"
  shows "lookup j (store i (f job) x) = (if j = i then Some (f job) else lookup j x)" "valid (store i (f job) x)"
  using assms lookup_id [OF assms(1,2)] by (simp_all add: lookup_store valid_store)

end

definition jobs_valid :: "(string \<times> export_job) list \<Rightarrow> bool" where
  "jobs_valid m \<longleftrightarrow> distinct (map fst m) \<and> (\<forall>(i, job)\<in>set m. ej_id job = i)"

lemma set_map_set_cases: "set (map_set k v m) \<subseteq> insert (k, v) (set m)"
  by (induction k v m rule: map_set.induct) auto

interpretation memory_jobs: job_store "\<lambda>i m. map_get m i" map_set jobs_valid
proof
  show "ej_id job = i" if "jobs_valid x" "map_get x i = Some job" for x i job
    using that by (auto simp: jobs_valid_def dest!: map_of_SomeD)
  show "map_get (map_set i job x) j = (if j = i then Some job else map_get x j)" for x i job j by (rule map_get_set)
  show "jobs_valid (map_set i job x)" if "jobs_valid x" "ej_id job = i" for x i job
    using that set_map_set_cases [of i job x] by (auto simp: jobs_valid_def distinct_map_set)
qed

interpretation table_jobs: job_store "\<lambda>i. find_first (\<lambda>j. ej_id j = i)"
  "\<lambda>i job. update_where (\<lambda>j. ej_id j = i) (\<lambda>_. job)" "\<lambda>t. distinct (map ej_id t)"
proof
  show "ej_id job = i" if "find_first (\<lambda>j. ej_id j = i) x = Some job" for x i job
    using find_first_Some [OF that] by blast
  show "find_first (\<lambda>j'. ej_id j' = j) (update_where (\<lambda>j. ej_id j = i) (\<lambda>_. job) x) =
      (if j = i then Some job else find_first (\<lambda>j'. ej_id j' = j) x)"
    if "find_first (\<lambda>j. ej_id j = i) x \<noteq> None" "ej_id job = i" for x i job j
  proof -
    have "j \<noteq> i \<Longrightarrow> find_first (\<lambda>j'. ej_id j' = j) (update_where (\<lambda>j. ej_id j = i) (\<lambda>_. job) y) = find_first (\<lambda>j'. ej_id j' = j) y" for y
      using that(2) by (induction y) auto
    moreover have "find_first (\<lambda>j'. ej_id j' = i) (update_where (\<lambda>j. ej_id j = i) (\<lambda>_. job) x) = Some job"
      using that by (induction x) auto
    ultimately show ?thesis by simp
  qed
  show "distinct (map ej_id (update_where (\<lambda>j. ej_id j = i) (\<lambda>_. job) x))"
    if "distinct (map ej_id x)" "ej_id job = i" for x i job
    using that map_update_where_frame [of "\<lambda>j. ej_id j = i" ej_id "\<lambda>_. job" x] by simp
qed

definition registry_valid :: "export_registry \<Rightarrow> bool" where
  "registry_valid x \<longleftrightarrow> jobs_valid (xr_jobs x) \<and> distinct (map ej_id (xr_table x))"

lemma registry_write:
  assumes "registry_valid x" "export_get i x = Some job" "\<And>j. ej_id (f j) = ej_id j"
  shows "export_get j (write_job i (f job) x) = (if j = i then Some (f job) else export_get j x)"
    "registry_valid (write_job i (f job) x)"
  using assms memory_jobs.store_modified [of "xr_jobs x" i job f] table_jobs.store_modified [of "xr_table x" i job f]
  by (auto simp: export_get_def write_job_def registry_valid_def)

lemma evict_later_frame: "export_get j (evict_later i now x) = export_get j x" "registry_valid (evict_later i now x) = registry_valid x"
  by (simp_all add: evict_later_def export_get_def registry_valid_def)

datatype export_event =
    XEnqueue string millis string "string option"
  | XStart string
  | XComplete string json millis
  | XFail string string millis
  | XSweep millis
  | XEvict millis

fun export_step :: "export_event \<Rightarrow> export_registry \<Rightarrow> export_registry" where
  "export_step (XEnqueue uuid now u t) x = snd (export_enqueue uuid now u t x)"
| "export_step (XStart i) x = snd (export_start i x)"
| "export_step (XComplete i p now) x = snd (export_complete i p now x)"
| "export_step (XFail i msg now) x = snd (export_fail i msg now x)"
| "export_step (XSweep now) x = sweepStaleJobs now x"
| "export_step (XEvict now) x = fire_evictions now x"

text \<open>What may become of a job: it stays, it starts, or it ends; once it has ended nothing about it changes.\<close>

definition moves_to :: "export_job \<Rightarrow> export_job \<Rightarrow> bool" where
  "moves_to a b \<longleftrightarrow> ej_id b = ej_id a \<and> ej_userId b = ej_userId a \<and> ej_tenantId b = ej_tenantId a \<and> ej_requestedAt b = ej_requestedAt a
     \<and> (if terminal (ej_status a) then b = a
        else b = a \<or> terminal (ej_status b) \<and> ej_completedAt b \<noteq> None \<or> ej_status a = ExportPending \<and> ej_status b = ExportRunning)"

lemma moves_refl: "moves_to a a"
  by (simp add: moves_to_def)

lemma start_moves:
  assumes "registry_valid x" "export_get j x = Some job"
  shows "\<exists>job'. export_get j (snd (export_start i x)) = Some job' \<and> moves_to job job'" "registry_valid (snd (export_start i x))"
proof -
  have "(\<exists>job'. export_get j (snd (export_start i x)) = Some job' \<and> moves_to job job') \<and> registry_valid (snd (export_start i x))"
  proof (cases "export_get i x")
    case (Some a)
    note w = registry_write [OF assms(1) Some, of "\<lambda>j. j\<lparr>ej_status := ExportRunning\<rparr>"]
    show ?thesis using Some assms w by (cases "i = j") (auto simp: export_start_def moves_to_def terminal_def)
  qed (use assms in \<open>simp add: export_start_def moves_refl\<close>)
  then show "\<exists>job'. export_get j (snd (export_start i x)) = Some job' \<and> moves_to job job'" "registry_valid (snd (export_start i x))" by simp_all
qed

lemma finish_moves:
  assumes "registry_valid x" "export_get j x = Some job"
    "\<And>a. ej_id (f a) = ej_id a" "\<And>a. \<not> terminal (ej_status a) \<Longrightarrow> moves_to a (f a)"
    and step: "snd s = (case export_get i x of None \<Rightarrow> x
        | Some a \<Rightarrow> if terminal (ej_status a) then x else evict_later i now (write_job i (f a) x))"
  shows "\<exists>job'. export_get j (snd s) = Some job' \<and> moves_to job job'" "registry_valid (snd s)"
proof -
  have "(\<exists>job'. export_get j (snd s) = Some job' \<and> moves_to job job') \<and> registry_valid (snd s)"
  proof (cases "export_get i x")
    case (Some a)
    note w = registry_write [OF assms(1) Some, of f, OF assms(3)]
    show ?thesis using Some assms(1,2,4) step w
      by (cases "i = j") (auto simp: evict_later_frame moves_refl)
  qed (use assms step in \<open>simp add: moves_refl\<close>)
  then show "\<exists>job'. export_get j (snd s) = Some job' \<and> moves_to job job'" "registry_valid (snd s)" by simp_all
qed

lemma sweep_moves:
  assumes "registry_valid x" "export_get j x = Some job"
  shows "\<exists>job'. export_get j (sweepStaleJobs now x) = Some job' \<and> moves_to job job'" "registry_valid (sweepStaleJobs now x)"
proof -
  let ?g = "\<lambda>job. if stale now job then job\<lparr>ej_status := ExportFailed, ej_completedAt := Some now, ej_error := Some ''job timed out''\<rparr> else job"
  have get: "map_get (map (\<lambda>(i, job). (i, ?g job)) m) k = map_option ?g (map_get m k)" for m k
    by (induction m) auto
  have "jobs_valid (map (\<lambda>(i, job). (i, ?g job)) m)" if "jobs_valid m" for m
    using that by (auto simp: jobs_valid_def comp_def case_prod_unfold)
  then show "registry_valid (sweepStaleJobs now x)" using assms(1) by (simp add: registry_valid_def sweepStaleJobs_def)
  show "\<exists>job'. export_get j (sweepStaleJobs now x) = Some job' \<and> moves_to job job'"
  proof (cases "xr_usePrisma x")
    case False
    have "moves_to job (?g job)" by (auto simp: moves_to_def stale_def terminal_def)
    then show ?thesis using assms(2) False by (simp add: export_get_def sweepStaleJobs_def get)
  qed (use assms(2) in \<open>simp add: export_get_def sweepStaleJobs_def moves_refl\<close>)
qed

lemma evict_moves:
  assumes "registry_valid x" "export_get j x = Some job"
  shows "export_get j (fire_evictions now x) \<in> {None, Some job}" "registry_valid (fire_evictions now x)"
proof -
  have get: "map_get (foldr map_delete ks m) k = (if k \<in> set ks then None else map_get m k)" for ks and m :: "(string \<times> export_job) list" and k
    by (induction ks) (auto simp: map_get_delete)
  have "jobs_valid (foldr map_delete ks m)" if "jobs_valid m" for ks m
    using that by (induction ks) (auto simp: jobs_valid_def map_delete_def distinct_filter_fst)
  then show "registry_valid (fire_evictions now x)" using assms(1) by (simp add: registry_valid_def fire_evictions_def)
  show "export_get j (fire_evictions now x) \<in> {None, Some job}"
    using assms(2) by (simp add: export_get_def fire_evictions_def get split: if_splits)
qed

lemma enqueue_moves:
  assumes "registry_valid x" "export_get j x = Some job" "export_get uuid x = None"
  shows "export_get j (snd (export_enqueue uuid now u t x)) = Some job" "registry_valid (snd (export_enqueue uuid now u t x))"
proof -
  have ne: "j \<noteq> uuid" using assms by auto
  show "export_get j (snd (export_enqueue uuid now u t x)) = Some job"
    using assms(2) ne by (auto simp: export_enqueue_def export_get_def Let_def map_get_set find_first_append)
  have "jobs_valid (map_set uuid (new_job uuid now u t) (xr_jobs x))"
    using assms(1) set_map_set_cases [of uuid "new_job uuid now u t" "xr_jobs x"]
    by (auto simp: registry_valid_def jobs_valid_def distinct_map_set new_job_def)
  then show "registry_valid (snd (export_enqueue uuid now u t x))"
    using assms(1,3) by (auto simp: export_enqueue_def registry_valid_def Let_def export_get_def find_first_None new_job_def)
qed

text \<open>Export jobs only move forward, in memory and in the database alike.  Through any event a job keeps its owner
  and its identity; it waits, starts or ends, a job that has ended never changes again, and it can only vanish
  from memory when its time there is over.\<close>

theorem export_jobs_move_forward:
  assumes "registry_valid x" "export_get j x = Some job" "\<forall>uuid now u t. e = XEnqueue uuid now u t \<longrightarrow> export_get uuid x = None"
  shows "registry_valid (export_step e x) \<and>
    (case export_get j (export_step e x) of Some job' \<Rightarrow> moves_to job job' | None \<Rightarrow> (\<exists>now. e = XEvict now))"
proof (cases e)
  case (XEnqueue uuid now u t)
  then show ?thesis using enqueue_moves [OF assms(1,2)] assms(3) by (simp add: moves_refl)
next
  case (XStart i)
  then show ?thesis using start_moves [OF assms(1,2), of i] by auto
next
  case (XComplete i p now)
  have "snd (export_complete i p now x) = (case export_get i x of None \<Rightarrow> x | Some a \<Rightarrow> if terminal (ej_status a) then x
      else evict_later i now (write_job i (a\<lparr>ej_status := ExportCompleted, ej_completedAt := Some now, ej_payload := Some p\<rparr>) x))"
    by (simp add: export_complete_def split: option.split)
  from finish_moves [OF assms(1,2) _ _ this] show ?thesis using XComplete by (force simp: moves_to_def terminal_def)
next
  case (XFail i msg now)
  have "snd (export_fail i msg now x) = (case export_get i x of None \<Rightarrow> x | Some a \<Rightarrow> if terminal (ej_status a) then x
      else evict_later i now (write_job i (a\<lparr>ej_status := ExportFailed, ej_completedAt := Some now, ej_error := Some msg\<rparr>) x))"
    by (simp add: export_fail_def split: option.split)
  from finish_moves [OF assms(1,2) _ _ this] show ?thesis using XFail by (force simp: moves_to_def terminal_def)
next
  case (XSweep now)
  then show ?thesis using sweep_moves [OF assms(1,2), of now] by auto
next
  case (XEvict now)
  then show ?thesis using evict_moves [OF assms(1,2), of now] by (auto simp: moves_refl)
qed

text \<open>With the database in use the sweep finds nothing to do: stuck jobs stay as they are.\<close>

lemma sweep_ignores_database: "xr_usePrisma x \<Longrightarrow> xr_jobs x = [] \<Longrightarrow> sweepStaleJobs now x = x"
  by (simp add: sweepStaleJobs_def)

section \<open>Examples\<close>

definition sample_user :: user_row where
  "sample_user = \<lparr>ur_id = ''u1'', ur_email = ''ada@x.io'', ur_emailHash = Some ''9f'', ur_name = ''Ada'', ur_emailVerified = True,
     ur_image = None, ur_twoFactorEnabled = None\<rparr>"

definition sample_requested :: erasure_world where
  "sample_requested = \<lparr>ew_users = [sample_user], ew_credentials = [(''sessions'', ''u1'')],
     ew_pending = [\<lparr>pe_id = ''p1'', pe_userId = ''u1'', pe_requestedAt = 1000, pe_cancelledAt = None, pe_completedAt = None\<rparr>]\<rparr>"

lemma sample_requested_reach: "erasure_reach [sample_user] [(''sessions'', ''u1'')] {(''u1'', 1000)} sample_requested"
proof -
  let ?w = "\<lparr>ew_users = [sample_user], ew_credentials = [(''sessions'', ''u1'')], ew_pending = []\<rparr>"
  have "erasure_reach [sample_user] [(''sessions'', ''u1'')] (insert (''u1'', 1000) {}) (snd (deleteAccount ''p1'' 1000 (Some ''u1'') ?w))"
    by (rule erasure_reach.request [OF erasure_reach.start]) simp
  then show ?thesis by (simp add: deleteAccount_def oldest_active_def sample_requested_def)
qed

theorem erased_only_after_grace_witness:
  "ew_users sample_requested = map (\<lambda>u. if erased_in sample_requested (ur_id u) then erased_row u else u) [sample_user]"
  using erased_only_after_grace [OF sample_requested_reach] by blast

theorem due_request_is_carried_out_witness:
  "let w' = snd (erasure_tick rev (\<lambda>i. False) None (1000 + DEFAULT_GRACE_PERIOD_MS) sample_requested)
   in erased_in w' ''u1'' \<and> (''sessions'', ''u1'') \<notin> set (ew_credentials w')"
proof -
  let ?r = "\<lparr>pe_id = ''p1'', pe_userId = ''u1'', pe_requestedAt = 1000, pe_cancelledAt = None, pe_completedAt = None\<rparr>"
  let ?w = "snd (erasure_tick rev (\<lambda>i. False) None (1000 + DEFAULT_GRACE_PERIOD_MS) sample_requested)"
  have "erased_in ?w (pe_userId ?r) \<and> (\<forall>u\<in>set (ew_users ?w). ur_id u = pe_userId ?r \<longrightarrow> erased_row u = u)
    \<and> (\<forall>t\<in>set CREDENTIAL_TABLES. (t, pe_userId ?r) \<notin> set (ew_credentials ?w)) \<and> ?r\<lparr>pe_completedAt := Some (1000 + DEFAULT_GRACE_PERIOD_MS)\<rparr> \<in> set (ew_pending ?w)"
    by (rule due_request_is_carried_out [OF sample_requested_reach _ _ _ _ _ _ refl]) (simp_all add: sample_requested_def open_request_def)
  then show ?thesis by (simp add: CREDENTIAL_TABLES_def)
qed

theorem repeated_request_is_one_request_witness:
  "deleteAccount ''p9'' 5000 (Some ''u1'') sample_requested = (Some 1000, sample_requested)"
proof -
  have "deleteAccount ''p2'' 2000 (Some ''u1'') sample_requested = (Some 1000, sample_requested)" by code_simp
  from repeated_request_is_one_request [OF sample_requested_reach this] show ?thesis by blast
qed

definition sample_registry :: export_registry where
  "sample_registry = \<lparr>xr_usePrisma = False, xr_jobs = [(''j1'', (new_job ''j1'' 0 ''u1'' None)\<lparr>ej_status := ExportFailed\<rparr>)], xr_evictions = [], xr_table = []\<rparr>"

theorem export_jobs_move_forward_witness:
  "registry_valid (export_step (XComplete ''j1'' JNull 7) sample_registry) \<and>
   (case export_get ''j1'' (export_step (XComplete ''j1'' JNull 7) sample_registry) of
      Some job' \<Rightarrow> moves_to ((new_job ''j1'' 0 ''u1'' None)\<lparr>ej_status := ExportFailed\<rparr>) job' | None \<Rightarrow> (\<exists>now. XComplete ''j1'' JNull 7 = XEvict now))"
  by (rule export_jobs_move_forward) (simp_all add: sample_registry_def registry_valid_def jobs_valid_def new_job_def export_get_def)

end
