(* ===== verification/Zip_Archive.thy ===== *)
theory Zip_Archive
  imports Json_Codec "HOL-Library.Word"
begin

text \<open>
  The ZIP writer of the bulk download (\<open>src/core/files/zip-builder.ts\<close>): the CRC-32 table and checksum on
  32-bit words, the archive written field by field into a buffer of the precomputed size, and the
  names of the entries.  A reader of the format, working from the end of the archive as extractors do, gives
  back every file; the checksum notices every change of a single byte.
\<close>

unbundle bit_operations_syntax

section \<open>The checksum\<close>

definition crc_shift :: "32 word \<Rightarrow> 32 word" where
  "crc_shift c = (if c AND 1 \<noteq> 0 then 0xedb88320 XOR drop_bit 1 c else drop_bit 1 c)"

definition CRC_TABLE :: "32 word list" where
  "CRC_TABLE = map (\<lambda>n. (crc_shift ^^ 8) (of_nat n)) [0..<256]"

text \<open>\<open>CRC_TABLE[idx] ?? 0\<close>.\<close>

definition crc_entry :: "nat \<Rightarrow> 32 word" where
  "crc_entry idx = (if idx < length CRC_TABLE then CRC_TABLE ! idx else 0)"

fun crc_loop :: "32 word \<Rightarrow> 8 word list \<Rightarrow> 32 word" where
  "crc_loop crc [] = crc"
| "crc_loop crc (byte # bytes) =
     (let idx = unat ((crc XOR ucast byte) AND 0xff)
      in crc_loop (drop_bit 8 crc XOR crc_entry idx) bytes)"

definition crc32 :: "8 word list \<Rightarrow> 32 word" where
  "crc32 bytes = crc_loop 0xffffffff bytes XOR 0xffffffff"

section \<open>The archive\<close>

type_synonym buffer = "8 word list"

datatype zip_error = RangeError

record zip_entry =
  ze_filename :: string
  ze_bytes :: buffer

record zip_plan =
  zp_filename :: string
  zp_filenameBytes :: buffer
  zp_bytes :: buffer
  zp_crc32 :: "32 word"
  zp_localHeaderOffset :: nat

definition SIG_LFH :: nat where "SIG_LFH = 0x04034b50"
definition SIG_CDH :: nat where "SIG_CDH = 0x02014b50"
definition SIG_EOCD :: nat where "SIG_EOCD = 0x06054b50"
definition ZIP_VERSION :: nat where "ZIP_VERSION = 20"
definition FLAG_UTF8 :: nat where "FLAG_UTF8 = 0x0800"
definition METHOD_STORED :: nat where "METHOD_STORED = 0"

definition dosTime :: nat where
  "dosTime = 0"

definition dosDate :: nat where
  "dosDate = or (or (push_bit 9 0) (push_bit 5 1)) 1"

text \<open>The value is stored modulo \<open>2^(8 * width)\<close>, least significant byte first; writing past the end of
  the buffer throws.\<close>

fun little_endian :: "nat \<Rightarrow> nat \<Rightarrow> buffer" where
  "little_endian 0 v = []"
| "little_endian (Suc w) v = of_nat v # little_endian w (v div 256)"

definition buffer_set :: "nat \<Rightarrow> buffer \<Rightarrow> buffer \<Rightarrow> zip_error + buffer" where
  "buffer_set offset bs buf =
     (if offset + length bs > length buf then Inl RangeError
      else Inr (take offset buf @ bs @ drop (offset + length bs) buf))"

definition writeUInt32LE :: "nat \<Rightarrow> nat \<Rightarrow> buffer \<Rightarrow> zip_error + buffer" where
  "writeUInt32LE offset value = buffer_set offset (little_endian 4 value)"

definition writeUInt16LE :: "nat \<Rightarrow> nat \<Rightarrow> buffer \<Rightarrow> zip_error + buffer" where
  "writeUInt16LE offset value = buffer_set offset (little_endian 2 value)"

text \<open>A sequence of statements, each of which may throw.\<close>

fun run_writes :: "(buffer \<Rightarrow> zip_error + buffer) list \<Rightarrow> buffer \<Rightarrow> zip_error + buffer" where
  "run_writes [] buf = Inr buf"
| "run_writes (w # ws) buf = (case w buf of Inl e \<Rightarrow> Inl e | Inr buf' \<Rightarrow> run_writes ws buf')"

definition encode_name :: "string \<Rightarrow> buffer" where
  "encode_name s = map of_nat (utf8_encode s)"

fun zip_plans :: "nat \<Rightarrow> zip_entry list \<Rightarrow> zip_plan list" where
  "zip_plans runningOffset [] = []"
| "zip_plans runningOffset (entry # rest) =
     (let filenameBytes = encode_name (ze_filename entry);
          lfhSize = 30 + length filenameBytes + length (ze_bytes entry)
      in \<lparr>zp_filename = ze_filename entry, zp_filenameBytes = filenameBytes, zp_bytes = ze_bytes entry,
          zp_crc32 = crc32 (ze_bytes entry), zp_localHeaderOffset = runningOffset\<rparr>
         # zip_plans (runningOffset + lfhSize) rest)"

fun write_locals :: "zip_plan list \<Rightarrow> nat \<Rightarrow> buffer \<Rightarrow> zip_error + (nat \<times> buffer)" where
  "write_locals [] cursor buf = Inr (cursor, buf)"
| "write_locals (plan # rest) cursor buf =
     (case run_writes
        [writeUInt32LE cursor SIG_LFH,
         writeUInt16LE (cursor + 4) ZIP_VERSION,
         writeUInt16LE (cursor + 6) FLAG_UTF8,
         writeUInt16LE (cursor + 8) METHOD_STORED,
         writeUInt16LE (cursor + 10) dosTime,
         writeUInt16LE (cursor + 12) dosDate,
         writeUInt32LE (cursor + 14) (unat (zp_crc32 plan)),
         writeUInt32LE (cursor + 18) (length (zp_bytes plan)),
         writeUInt32LE (cursor + 22) (length (zp_bytes plan)),
         writeUInt16LE (cursor + 26) (length (zp_filenameBytes plan)),
         writeUInt16LE (cursor + 28) 0,
         buffer_set (cursor + 30) (zp_filenameBytes plan),
         buffer_set (cursor + 30 + length (zp_filenameBytes plan)) (zp_bytes plan)] buf of
        Inl e \<Rightarrow> Inl e
      | Inr buf' \<Rightarrow> write_locals rest (cursor + 30 + length (zp_filenameBytes plan) + length (zp_bytes plan)) buf')"

fun write_directory :: "zip_plan list \<Rightarrow> nat \<Rightarrow> buffer \<Rightarrow> zip_error + (nat \<times> buffer)" where
  "write_directory [] cursor buf = Inr (cursor, buf)"
| "write_directory (plan # rest) cursor buf =
     (case run_writes
        [writeUInt32LE cursor SIG_CDH,
         writeUInt16LE (cursor + 4) ZIP_VERSION,
         writeUInt16LE (cursor + 6) ZIP_VERSION,
         writeUInt16LE (cursor + 8) FLAG_UTF8,
         writeUInt16LE (cursor + 10) METHOD_STORED,
         writeUInt16LE (cursor + 12) dosTime,
         writeUInt16LE (cursor + 14) dosDate,
         writeUInt32LE (cursor + 16) (unat (zp_crc32 plan)),
         writeUInt32LE (cursor + 20) (length (zp_bytes plan)),
         writeUInt32LE (cursor + 24) (length (zp_bytes plan)),
         writeUInt16LE (cursor + 28) (length (zp_filenameBytes plan)),
         writeUInt16LE (cursor + 30) 0,
         writeUInt16LE (cursor + 32) 0,
         writeUInt16LE (cursor + 34) 0,
         writeUInt16LE (cursor + 36) 0,
         writeUInt32LE (cursor + 38) 0,
         writeUInt32LE (cursor + 42) (zp_localHeaderOffset plan),
         buffer_set (cursor + 46) (zp_filenameBytes plan)] buf of
        Inl e \<Rightarrow> Inl e
      | Inr buf' \<Rightarrow> write_directory rest (cursor + 46 + length (zp_filenameBytes plan)) buf')"

definition buildZipArchive :: "zip_entry list \<Rightarrow> zip_error + buffer" where
  "buildZipArchive entries =
     (let plans = zip_plans 0 entries;
          localTotal = sum_list (map (\<lambda>e. 30 + length (encode_name (ze_filename e)) + length (ze_bytes e)) entries);
          cdSize = sum_list (map (\<lambda>plan. 46 + length (zp_filenameBytes plan)) plans);
          total = localTotal + cdSize + 22
      in case write_locals plans 0 (replicate total 0) of
           Inl e \<Rightarrow> Inl e
         | Inr (cdStart, buf) \<Rightarrow>
             (case write_directory plans cdStart buf of
                Inl e \<Rightarrow> Inl e
              | Inr (cursor, buf') \<Rightarrow> run_writes
                  [writeUInt32LE cursor SIG_EOCD,
                   writeUInt16LE (cursor + 4) 0,
                   writeUInt16LE (cursor + 6) 0,
                   writeUInt16LE (cursor + 8) (length plans),
                   writeUInt16LE (cursor + 10) (length plans),
                   writeUInt32LE (cursor + 12) cdSize,
                   writeUInt32LE (cursor + 16) cdStart,
                   writeUInt16LE (cursor + 20) 0] buf'))"

section \<open>Entry names\<close>

definition is_slash :: "char \<Rightarrow> bool" where
  "is_slash c \<longleftrightarrow> c = CHR ''/'' \<or> c = CHR 0x5C"

definition is_letter :: "char \<Rightarrow> bool" where
  "is_letter c = (let n = of_char c :: nat in 65 \<le> n \<and> n \<le> 90 \<or> 97 \<le> n \<and> n \<le> 122)"

text \<open>\<open>split(/[/\\]/)\<close>.\<close>

definition split_slashes :: "string \<Rightarrow> string list" where
  "split_slashes s = split_on (CHR ''/'') (map (\<lambda>c. if is_slash c then CHR ''/'' else c) s)"

definition strip_drive :: "string \<Rightarrow> string" where
  "strip_drive s = (case s of
     a # b # c # rest \<Rightarrow> if is_letter a \<and> b = CHR '':'' \<and> is_slash c then rest else s
   | _ \<Rightarrow> s)"

definition safeZipFilename :: "string \<Rightarrow> string" where
  "safeZipFilename input =
     (let out = map (\<lambda>c. if (of_char c :: nat) \<le> 0x1f then CHR ''_'' else c) input;
          out = strip_drive (dropWhile is_slash out);
          out = join ''/'' (filter (\<lambda>segment. segment \<noteq> [] \<and> segment \<noteq> ''..'' \<and> segment \<noteq> ''.'') (split_slashes out))
      in if length out > 0 then out else ''file'')"

section \<open>The table computes the shift register\<close>

lemma crc_shift_bit: "crc_shift c = (if bit c 0 then 0xedb88320 XOR drop_bit 1 c else drop_bit 1 c)"
  by (simp add: crc_shift_def and_one_eq bit_0 mod2_eq_if)

lemma crc_shift_xor: "crc_shift (a XOR b) = crc_shift a XOR crc_shift b"
proof -
  have bit0: "bit (a XOR b) 0 = (bit a 0 \<noteq> bit b 0)" by (simp add: bit_xor_iff)
  show ?thesis unfolding crc_shift_bit bit0 drop_bit_xor
    by (auto simp: xor.left_commute xor.assoc xor.commute)
qed

lemma crc_shift_pow_xor: "(crc_shift ^^ k) (a XOR b) = (crc_shift ^^ k) a XOR (crc_shift ^^ k) b"
  by (induction k) (simp_all add: crc_shift_xor)

lemma crc_shift_pow_high: "\<forall>i<k. \<not> bit x i \<Longrightarrow> (crc_shift ^^ k) x = drop_bit k x"
proof (induction k)
  case (Suc k)
  then have "(crc_shift ^^ Suc k) x = crc_shift (drop_bit k x)" by simp
  also have "\<dots> = drop_bit (Suc k) x" using Suc.prems by (simp add: crc_shift_bit bit_drop_bit_eq)
  finally show ?case .
qed simp

lemma low_byte_mask: "(0xff :: 32 word) = mask 8"
  by (simp add: mask_eq_exp_minus_1)

lemma low_byte_less: "unat ((y :: 32 word) AND 0xff) < 256"
proof -
  have "unat (y AND 0xff) = take_bit 8 (unat y)"
    by (simp only: low_byte_mask take_bit_eq_mask [symmetric] unsigned_take_bit_eq)
  then show ?thesis by (simp add: take_bit_eq_mod)
qed

lemma crc_entry_low: "crc_entry (unat (y AND 0xff)) = (crc_shift ^^ 8) (y AND 0xff)"
  using low_byte_less [of y] by (simp add: crc_entry_def CRC_TABLE_def)

lemma crc_step: "drop_bit 8 crc XOR crc_entry (unat ((crc XOR ucast (byte :: 8 word)) AND 0xff)) = (crc_shift ^^ 8) (crc XOR ucast byte)"
proof -
  let ?y = "crc XOR ucast byte :: 32 word"
  have split: "?y = (?y AND mask 8) XOR (?y AND NOT (mask 8))"
    by (rule bit_word_eqI) (auto simp: bit_and_iff bit_xor_iff bit_not_iff)
  have "\<forall>i<8. \<not> bit (?y AND NOT (mask 8)) i" by (auto simp: bit_and_iff bit_not_iff bit_mask_iff)
  then have "(crc_shift ^^ 8) (?y AND NOT (mask 8)) = drop_bit 8 (?y AND NOT (mask 8))" by (rule crc_shift_pow_high)
  also have "\<dots> = drop_bit 8 crc"
    by (rule bit_word_eqI) (auto simp: bit_and_iff bit_xor_iff bit_not_iff bit_drop_bit_eq bit_mask_iff bit_ucast_iff
        dest: bit_imp_le_length)
  finally have "(crc_shift ^^ 8) ?y = (crc_shift ^^ 8) (?y AND mask 8) XOR drop_bit 8 crc"
    by (metis split crc_shift_pow_xor)
  then show ?thesis by (simp only: crc_entry_low low_byte_mask [symmetric] xor.commute)
qed

lemma crc_shift_inj: "crc_shift a = crc_shift b \<longleftrightarrow> a = b"
proof
  assume eq: "crc_shift a = crc_shift b"
  have top: "bit (crc_shift c) 31 \<longleftrightarrow> bit c 0" for c
    by (auto simp: crc_shift_bit bit_simps dest: bit_imp_le_length)
  from eq have low: "bit a 0 \<longleftrightarrow> bit b 0" by (metis top)
  then have "drop_bit 1 a = drop_bit 1 b"
    using eq by (auto simp: crc_shift_bit split: if_splits dest: arg_cong [where f = "\<lambda>c. 0xedb88320 XOR c"])
  then have "bit a (Suc n) = bit b (Suc n)" for n
    by (metis bit_drop_bit_eq comp_apply plus_1_eq_Suc)
  with low show "a = b" by (intro bit_eqI) (metis not0_implies_Suc)
qed simp

lemma crc_shift_pow_inj: "(crc_shift ^^ k) a = (crc_shift ^^ k) b \<longleftrightarrow> a = b"
  by (induction k) (simp_all add: crc_shift_inj)

lemma crc_loop_Cons: "crc_loop c (b # bs) = crc_loop ((crc_shift ^^ 8) (c XOR ucast b)) bs"
  by (simp only: crc_loop.simps Let_def crc_step)

definition crc_reference :: "8 word list \<Rightarrow> 32 word" where
  "crc_reference bytes = foldl (\<lambda>crc byte. (crc_shift ^^ 8) (crc XOR ucast byte)) 0xffffffff bytes XOR 0xffffffff"

lemma crc_loop_reference:
  "crc_loop crc bytes = foldl (\<lambda>crc byte. (crc_shift ^^ 8) (crc XOR ucast byte)) crc bytes"
  by (induction bytes arbitrary: crc) (simp_all only: crc_loop.simps(1) crc_loop_Cons foldl.simps)

lemma xor_cancel: "(c :: 'a :: len word) XOR e = d XOR e \<longleftrightarrow> c = d" "e XOR c = e XOR d \<longleftrightarrow> c = d"
  by (metis xor.assoc xor.right_neutral xor_self_eq, metis xor.assoc xor.left_neutral xor_self_eq)

lemma crc_loop_inj: "crc_loop c bytes = crc_loop d bytes \<longleftrightarrow> c = d"
  by (induction bytes arbitrary: c d) (simp_all only: crc_loop.simps(1) crc_loop_Cons crc_shift_pow_inj xor_cancel)

lemma crc_loop_append: "crc_loop c (xs @ ys) = crc_loop (crc_loop c xs) ys"
  by (induction xs arbitrary: c) (simp_all add: Let_def)

lemma crc_single_byte: "crc32 (xs @ a # ys) = crc32 (xs @ b # ys) \<longleftrightarrow> a = b"
proof -
  have "bit c i \<longleftrightarrow> i < 8 \<and> bit (ucast c :: 32 word) i" for c :: "8 word" and i
    by (auto simp: bit_ucast_iff dest: bit_imp_le_length)
  then have "ucast a = (ucast b :: 32 word) \<longleftrightarrow> a = b" by (metis bit_eqI)
  then show ?thesis
    by (simp only: crc32_def crc_loop_append crc_loop_Cons crc_loop_inj crc_shift_pow_inj xor_cancel)
qed

section \<open>The layout of the archive\<close>

lemma length_little_endian [simp]: "length (little_endian w v) = w"
  by (induction w arbitrary: v) simp_all

text \<open>Consecutive writes fill the buffer from the cursor on.\<close>

fun writes_at :: "nat \<Rightarrow> buffer list \<Rightarrow> (buffer \<Rightarrow> zip_error + buffer) list" where
  "writes_at off [] = []"
| "writes_at off (b # bs) = buffer_set off b # writes_at (off + length b) bs"

lemma run_writes_at:
  "length (concat bs) \<le> length rest \<Longrightarrow>
   run_writes (writes_at (length d) bs) (d @ rest) = Inr (d @ concat bs @ drop (length (concat bs)) rest)"
proof (induction bs arbitrary: d rest)
  case (Cons b bs)
  have "run_writes (writes_at (length (d @ b)) bs) ((d @ b) @ drop (length b) rest) =
      Inr ((d @ b) @ concat bs @ drop (length (concat bs)) (drop (length b) rest))"
    by (rule Cons.IH) (use Cons.prems in simp)
  then show ?case using Cons.prems by (simp add: buffer_set_def add.commute)
qed simp

definition local_header :: "zip_plan \<Rightarrow> buffer list" where
  "local_header plan =
     [little_endian 4 SIG_LFH, little_endian 2 ZIP_VERSION, little_endian 2 FLAG_UTF8, little_endian 2 METHOD_STORED,
      little_endian 2 dosTime, little_endian 2 dosDate, little_endian 4 (unat (zp_crc32 plan)),
      little_endian 4 (length (zp_bytes plan)), little_endian 4 (length (zp_bytes plan)),
      little_endian 2 (length (zp_filenameBytes plan)), little_endian 2 0, zp_filenameBytes plan, zp_bytes plan]"

definition directory_header :: "zip_plan \<Rightarrow> buffer list" where
  "directory_header plan =
     [little_endian 4 SIG_CDH, little_endian 2 ZIP_VERSION, little_endian 2 ZIP_VERSION, little_endian 2 FLAG_UTF8,
      little_endian 2 METHOD_STORED, little_endian 2 dosTime, little_endian 2 dosDate,
      little_endian 4 (unat (zp_crc32 plan)), little_endian 4 (length (zp_bytes plan)),
      little_endian 4 (length (zp_bytes plan)), little_endian 2 (length (zp_filenameBytes plan)), little_endian 2 0,
      little_endian 2 0, little_endian 2 0, little_endian 2 0, little_endian 4 0,
      little_endian 4 (zp_localHeaderOffset plan), zp_filenameBytes plan]"

definition end_record :: "nat \<Rightarrow> nat \<Rightarrow> nat \<Rightarrow> buffer list" where
  "end_record count cdSize cdStart =
     [little_endian 4 SIG_EOCD, little_endian 2 0, little_endian 2 0, little_endian 2 count, little_endian 2 count,
      little_endian 4 cdSize, little_endian 4 cdStart, little_endian 2 0]"

definition local_bytes :: "zip_plan \<Rightarrow> buffer" where
  "local_bytes plan = concat (local_header plan)"

definition directory_bytes :: "zip_plan \<Rightarrow> buffer" where
  "directory_bytes plan = concat (directory_header plan)"

lemma length_local_bytes: "length (local_bytes plan) = 30 + length (zp_filenameBytes plan) + length (zp_bytes plan)"
  by (simp add: local_bytes_def local_header_def)

lemma length_directory_bytes: "length (directory_bytes plan) = 46 + length (zp_filenameBytes plan)"
  by (simp add: directory_bytes_def directory_header_def)

lemma write_locals_layout:
  "sum_list (map (\<lambda>plan. length (local_bytes plan)) plans) \<le> length rest \<Longrightarrow>
   write_locals plans (length d) (d @ rest) =
     Inr (length d + length (concat (map local_bytes plans)),
       d @ concat (map local_bytes plans) @ drop (length (concat (map local_bytes plans))) rest)"
proof (induction plans arbitrary: d rest)
  case (Cons plan plans)
  have "run_writes (writes_at (length d) (local_header plan)) (d @ rest) =
      Inr ((d @ local_bytes plan) @ drop (length (local_bytes plan)) rest)"
    using run_writes_at [of "local_header plan" rest d] Cons.prems by (simp add: local_bytes_def)
  moreover have "write_locals plans (length (d @ local_bytes plan)) ((d @ local_bytes plan) @ drop (length (local_bytes plan)) rest) =
     Inr (length (d @ local_bytes plan) + length (concat (map local_bytes plans)),
       (d @ local_bytes plan) @ concat (map local_bytes plans) @
         drop (length (concat (map local_bytes plans))) (drop (length (local_bytes plan)) rest))"
    by (rule Cons.IH) (use Cons.prems in simp)
  ultimately show ?case
    by (simp add: local_header_def writeUInt32LE_def writeUInt16LE_def add.assoc length_local_bytes add.commute add.left_commute)
qed simp

lemma write_directory_layout:
  "sum_list (map (\<lambda>plan. length (directory_bytes plan)) plans) \<le> length rest \<Longrightarrow>
   write_directory plans (length d) (d @ rest) =
     Inr (length d + length (concat (map directory_bytes plans)),
       d @ concat (map directory_bytes plans) @ drop (length (concat (map directory_bytes plans))) rest)"
proof (induction plans arbitrary: d rest)
  case (Cons plan plans)
  have "run_writes (writes_at (length d) (directory_header plan)) (d @ rest) =
      Inr ((d @ directory_bytes plan) @ drop (length (directory_bytes plan)) rest)"
    using run_writes_at [of "directory_header plan" rest d] Cons.prems by (simp add: directory_bytes_def)
  moreover have "write_directory plans (length (d @ directory_bytes plan)) ((d @ directory_bytes plan) @ drop (length (directory_bytes plan)) rest) =
     Inr (length (d @ directory_bytes plan) + length (concat (map directory_bytes plans)),
       (d @ directory_bytes plan) @ concat (map directory_bytes plans) @
         drop (length (concat (map directory_bytes plans))) (drop (length (directory_bytes plan)) rest))"
    by (rule Cons.IH) (use Cons.prems in simp)
  ultimately show ?case
    by (simp add: directory_header_def writeUInt32LE_def writeUInt16LE_def add.assoc length_directory_bytes add.commute add.left_commute)
qed simp

lemma zip_plans_frame:
  "map zp_filenameBytes (zip_plans off es) = map (\<lambda>e. encode_name (ze_filename e)) es"
  "map zp_bytes (zip_plans off es) = map ze_bytes es"
  "length (zip_plans off es) = length es"
  by (induction es arbitrary: off) (simp_all add: Let_def)

lemma sum_local_bytes:
  "length (concat (map local_bytes (zip_plans off es))) =
     sum_list (map (\<lambda>e. 30 + length (encode_name (ze_filename e)) + length (ze_bytes e)) es)"
  by (induction es arbitrary: off) (simp_all add: Let_def length_local_bytes)

lemma sum_directory_bytes:
  "length (concat (map directory_bytes plans)) = sum_list (map (\<lambda>plan. 46 + length (zp_filenameBytes plan)) plans)"
  by (induction plans) (simp_all add: length_directory_bytes)

definition zip_layout :: "zip_entry list \<Rightarrow> buffer" where
  "zip_layout entries =
     (let plans = zip_plans 0 entries; locals = concat (map local_bytes plans); dir = concat (map directory_bytes plans)
      in locals @ dir @ concat (end_record (length entries) (length dir) (length locals)))"

lemma buildZipArchive_layout: "buildZipArchive entries = Inr (zip_layout entries)"
proof -
  define plans where "plans = zip_plans 0 entries"
  define locals where "locals = concat (map local_bytes plans)"
  define dir where "dir = concat (map directory_bytes plans)"
  define rest where "rest = replicate (length locals + length dir + 22) (0 :: 8 word)"
  have locals: "write_locals plans 0 rest = Inr (length locals, locals @ drop (length locals) rest)"
    using write_locals_layout [of plans rest "[]"] by (simp add: locals_def rest_def length_concat comp_def)
  have dir: "write_directory plans (length locals) (locals @ drop (length locals) rest) =
      Inr (length locals + length dir, locals @ dir @ drop (length dir) (drop (length locals) rest))"
    using write_directory_layout [of plans "drop (length locals) rest" locals]
    by (simp add: dir_def rest_def length_concat comp_def)
  have fin: "run_writes (writes_at (length (locals @ dir)) (end_record (length plans) (length dir) (length locals)))
      ((locals @ dir) @ drop (length dir) (drop (length locals) rest)) =
      Inr ((locals @ dir) @ concat (end_record (length plans) (length dir) (length locals)))"
    by (subst run_writes_at) (simp_all add: end_record_def rest_def)
  have layout: "zip_layout entries = (locals @ dir) @ concat (end_record (length plans) (length dir) (length locals))"
    by (simp add: zip_layout_def Let_def plans_def locals_def dir_def zip_plans_frame)
  have tail: "run_writes
      [writeUInt32LE (length locals + length dir) SIG_EOCD, writeUInt16LE (length locals + length dir + 4) 0,
       writeUInt16LE (length locals + length dir + 6) 0, writeUInt16LE (length locals + length dir + 8) (length plans),
       writeUInt16LE (length locals + length dir + 10) (length plans),
       writeUInt32LE (length locals + length dir + 12) (length dir),
       writeUInt32LE (length locals + length dir + 16) (length locals), writeUInt16LE (length locals + length dir + 20) 0]
      (locals @ dir @ drop (length dir) (drop (length locals) rest)) = Inr (zip_layout entries)"
    using fin unfolding layout by (simp add: end_record_def writeUInt32LE_def writeUInt16LE_def add.assoc add.commute add.left_commute del: run_writes.simps)
  have sums: "sum_list (map (\<lambda>e. 30 + length (encode_name (ze_filename e)) + length (ze_bytes e)) entries) = length locals"
    "sum_list (map (\<lambda>plan. 46 + length (zp_filenameBytes plan)) plans) = length dir"
    by (simp_all only: locals_def dir_def plans_def sum_local_bytes sum_directory_bytes)
  show ?thesis
    unfolding buildZipArchive_def Let_def plans_def [symmetric] sums rest_def [symmetric] locals
    by (simp only: sum.case prod.case dir tail)
qed

section \<open>Reading the archive\<close>

fun number_of :: "buffer \<Rightarrow> nat" where
  "number_of [] = 0"
| "number_of (b # bs) = unat b + 256 * number_of bs"

definition field :: "nat \<Rightarrow> nat \<Rightarrow> buffer \<Rightarrow> nat" where
  "field w pos a = number_of (take w (drop pos a))"

text \<open>One directory entry: its name and the content its local header leads to, if the checksum is right.\<close>

definition read_entry :: "nat \<Rightarrow> buffer \<Rightarrow> (string \<times> buffer) option" where
  "read_entry pos a =
     (let at = field 4 (pos + 42) a;
          start = at + 30 + field 2 (at + 26) a + field 2 (at + 28) a;
          content = take (field 4 (pos + 20) a) (drop start a)
      in if field 4 pos a \<noteq> SIG_CDH \<or> field 4 at a \<noteq> SIG_LFH \<or> field 2 (pos + 10) a \<noteq> METHOD_STORED
           \<or> field 4 (pos + 16) a \<noteq> unat (crc32 content) then None
         else map_option (\<lambda>name. (name, content)) (utf8_decode (map unat (take (field 2 (pos + 28) a) (drop (pos + 46) a)))))"

fun read_directory :: "nat \<Rightarrow> nat \<Rightarrow> buffer \<Rightarrow> (string \<times> buffer) list option" where
  "read_directory 0 pos a = Some []"
| "read_directory (Suc n) pos a =
     (case read_entry pos a of
        None \<Rightarrow> None
      | Some e \<Rightarrow> map_option ((#) e)
          (read_directory n (pos + 46 + field 2 (pos + 28) a + field 2 (pos + 30) a + field 2 (pos + 32) a) a))"

definition unzip :: "buffer \<Rightarrow> (string \<times> buffer) list option" where
  "unzip a =
     (let pos = length a - 22
      in if length a < 22 \<or> field 4 pos a \<noteq> SIG_EOCD then None
         else read_directory (field 2 (pos + 10) a) (field 4 (pos + 16) a) a)"

lemma number_of_little_endian: "number_of (little_endian w v) = v mod 256 ^ w"
proof (induction w arbitrary: v)
  case (Suc w)
  have "unat (of_nat v :: 8 word) = v mod 256" by (simp add: unat_of_nat take_bit_eq_mod)
  then show ?case by (simp add: Suc.IH mod_mult2_eq add.commute)
qed simp

lemma field_shift: "field w (length d + k) (d @ a) = field w k a"
  by (simp add: field_def)

lemma field_here: "w = length bs \<Longrightarrow> field w 0 (bs @ a) = number_of bs"
  by (simp add: field_def)

lemma field_next: "length bs \<le> k \<Longrightarrow> field w k (bs @ a) = field w (k - length bs) a"
  by (simp add: field_def)

lemma directory_fields:
  fixes plan post
  defines "a \<equiv> directory_bytes plan @ post"
  shows "field 4 0 a = SIG_CDH" "field 2 10 a = METHOD_STORED" "field 4 16 a = unat (zp_crc32 plan)"
    "field 4 20 a = length (zp_bytes plan) mod 2 ^ 32" "field 2 28 a = length (zp_filenameBytes plan) mod 2 ^ 16"
    "field 2 30 a = 0" "field 2 32 a = 0" "field 4 42 a = zp_localHeaderOffset plan mod 2 ^ 32"
    "drop 46 a = zp_filenameBytes plan @ post"
proof -
  have "unat (zp_crc32 plan) mod 4294967296 = unat (zp_crc32 plan)"
    using unsigned_less [of "zp_crc32 plan", where 'a = nat] by simp
  then show "field 4 16 a = unat (zp_crc32 plan)"
    by (simp add: a_def directory_bytes_def directory_header_def field_next field_here number_of_little_endian)
qed (simp_all add: a_def directory_bytes_def directory_header_def field_next field_here number_of_little_endian
    SIG_CDH_def METHOD_STORED_def)

lemma local_fields:
  fixes plan post
  defines "a \<equiv> local_bytes plan @ post"
  shows "field 4 0 a = SIG_LFH" "field 2 26 a = length (zp_filenameBytes plan) mod 2 ^ 16" "field 2 28 a = 0"
    "drop (30 + length (zp_filenameBytes plan)) a = zp_bytes plan @ post"
  by (simp_all add: a_def local_bytes_def local_header_def field_next field_here number_of_little_endian SIG_LFH_def)

lemma decode_name: "utf8_decode (map unat (encode_name s)) = Some s"
proof -
  have "map unat (encode_name s) = utf8_encode s"
    unfolding encode_name_def by (simp add: map_idI unat_of_nat take_bit_eq_mod utf8_bytes)
  then show ?thesis by (simp only: utf8_round_trip)
qed

lemma read_entry_written:
  assumes a: "a = pre @ local_bytes plan @ mid @ directory_bytes plan @ post"
    and offset: "zp_localHeaderOffset plan = length pre"
    and pos: "pos = length (pre @ local_bytes plan @ mid)"
    and plan: "zp_filenameBytes plan = encode_name name" "zp_crc32 plan = crc32 (zp_bytes plan)"
    and bounds: "length a < 2 ^ 32" "length (encode_name name) < 2 ^ 16"
  shows "read_entry pos a = Some (name, zp_bytes plan)"
    "pos + 46 + field 2 (pos + 28) a + field 2 (pos + 30) a + field 2 (pos + 32) a = length (pre @ local_bytes plan @ mid @ directory_bytes plan)"
proof -
  have dir: "field w (pos + k) a = field w k (directory_bytes plan @ post)" for w k
    using field_shift [of w "pre @ local_bytes plan @ mid" k "directory_bytes plan @ post"] by (simp add: a pos)
  have loc: "field w (length pre + k) a = field w k (local_bytes plan @ mid @ directory_bytes plan @ post)" for w k
    unfolding a by (rule field_shift)
  have sizes: "length pre < 2 ^ 32" "length (zp_bytes plan) < 2 ^ 32" "length (zp_filenameBytes plan) < 2 ^ 16"
    using bounds plan(1) by (simp_all add: a length_local_bytes)
  note fields = directory_fields [of plan post] local_fields [of plan "mid @ directory_bytes plan @ post"]
  have name: "take (length (zp_filenameBytes plan)) (drop (pos + 46) a) = zp_filenameBytes plan"
  proof -
    have "drop (pos + 46) a = drop 46 (directory_bytes plan @ post)" by (simp add: a pos)
    then show ?thesis by (simp only: fields) simp
  qed
  have content: "take (length (zp_bytes plan)) (drop (length pre + 30 + length (zp_filenameBytes plan)) a) = zp_bytes plan"
  proof -
    have "drop (length pre + 30 + length (zp_filenameBytes plan)) a =
        drop (30 + length (zp_filenameBytes plan)) (local_bytes plan @ mid @ directory_bytes plan @ post)"
      by (simp add: a)
    then show ?thesis by (simp only: fields) simp
  qed
  show "read_entry pos a = Some (name, zp_bytes plan)"
    using sizes dir [of _ 0] loc [of _ 0] name content plan
    by (simp add: read_entry_def Let_def dir loc fields offset decode_name)
  show "pos + 46 + field 2 (pos + 28) a + field 2 (pos + 30) a + field 2 (pos + 32) a =
      length (pre @ local_bytes plan @ mid @ directory_bytes plan)"
    unfolding dir fields using sizes by (simp add: pos length_directory_bytes)
qed

lemma zip_plans_split:
  assumes "zip_plans off es = pd @ plan # pt"
  shows "zp_localHeaderOffset plan = off + length (concat (map local_bytes pd))"
    "zp_crc32 plan = crc32 (zp_bytes plan)" "zp_filenameBytes plan = encode_name (zp_filename plan)"
  using assms
proof (induction es arbitrary: off pd)
  case (Cons e es)
  { case 1 then show ?case using Cons.IH(1) by (cases pd) (fastforce simp: Let_def length_local_bytes)+ }
  { case 2 then show ?case using Cons.IH(2) by (cases pd) (auto simp: Let_def) }
  { case 3 then show ?case using Cons.IH(3) by (cases pd) (auto simp: Let_def) }
qed simp_all

lemma zip_plans_files: "map (\<lambda>p. (zp_filename p, zp_bytes p)) (zip_plans off es) = map (\<lambda>e. (ze_filename e, ze_bytes e)) es"
  by (induction es arbitrary: off) (simp_all add: Let_def)

lemma read_directory_written:
  assumes a: "a = concat (map local_bytes plans) @ concat (map directory_bytes plans) @ post"
    and plans: "plans = zip_plans 0 es" "plans = pd @ pt"
    and bounds: "length a < 2 ^ 32" "\<forall>p\<in>set plans. length (zp_filenameBytes p) < 2 ^ 16"
    and n: "n \<le> length pt"
  shows "read_directory n (length (concat (map local_bytes plans)) + length (concat (map directory_bytes pd))) a =
    Some (take n (map (\<lambda>p. (zp_filename p, zp_bytes p)) pt))"
  using plans(2) n
proof (induction n arbitrary: pd pt)
  case (Suc n)
  then obtain plan pt' where pt: "pt = plan # pt'" by (cases pt) auto
  note split = zip_plans_split [of 0 es pd plan pt', folded plans(1), OF Suc.prems(1) [unfolded pt], simplified]
  define pos where "pos = length (concat (map local_bytes plans)) + length (concat (map directory_bytes pd))"
  have entry: "read_entry pos a = Some (zp_filename plan, zp_bytes plan)"
    "pos + 46 + field 2 (pos + 28) a + field 2 (pos + 30) a + field 2 (pos + 32) a = pos + length (directory_bytes plan)"
    using read_entry_written [of a "concat (map local_bytes pd)" plan
        "concat (map local_bytes pt') @ concat (map directory_bytes pd)" "concat (map directory_bytes pt') @ post" pos
        "zp_filename plan"] split bounds a Suc.prems(1)
    by (simp_all add: pt pos_def)
  have "read_directory n (length (concat (map local_bytes plans)) + length (concat (map directory_bytes (pd @ [plan])))) a =
      Some (take n (map (\<lambda>p. (zp_filename p, zp_bytes p)) pt'))"
    by (rule Suc.IH) (use Suc.prems pt in simp_all)
  moreover have "read_directory (Suc n) pos a =
      map_option ((#) (zp_filename plan, zp_bytes plan)) (read_directory n (pos + length (directory_bytes plan)) a)"
    unfolding read_directory.simps entry by simp
  ultimately show ?case by (simp add: pos_def pt add.assoc)
qed simp

lemma end_fields:
  fixes n c s
  defines "a \<equiv> concat (end_record n c s)"
  shows "length a = 22" "field 4 0 a = SIG_EOCD" "field 2 10 a = n mod 2 ^ 16" "field 4 16 a = s mod 2 ^ 32"
  by (simp_all add: a_def end_record_def field_next field_here number_of_little_endian SIG_EOCD_def)

lemma unzip_layout:
  assumes "length (zip_layout es) < 2 ^ 32" "\<forall>e\<in>set es. length (encode_name (ze_filename e)) < 2 ^ 16"
  shows "unzip (zip_layout es) = Some (take (length es mod 2 ^ 16) (map (\<lambda>e. (ze_filename e, ze_bytes e)) es))"
proof -
  define plans where "plans = zip_plans 0 es"
  define locals where "locals = concat (map local_bytes plans)"
  define dir where "dir = concat (map directory_bytes plans)"
  define a where "a = zip_layout es"
  define eocd where "eocd = concat (end_record (length es) (length dir) (length locals))"
  have a: "a = locals @ dir @ eocd"
    by (simp add: a_def zip_layout_def Let_def plans_def locals_def dir_def eocd_def)
  note fields = end_fields [of "length es" "length dir" "length locals", folded eocd_def]
  have pos: "length a - 22 = length (locals @ dir)" by (simp add: a fields)
  have at: "field w (length (locals @ dir) + k) a = field w k eocd" for w k
    using field_shift [of w "locals @ dir" k eocd] by (simp add: a)
  have names: "\<forall>p\<in>set plans. length (zp_filenameBytes p) < 2 ^ 16"
  proof -
    have "zp_filenameBytes ` set plans = (\<lambda>e. encode_name (ze_filename e)) ` set es"
      using arg_cong [OF zip_plans_frame(1) [of 0 es], of set] unfolding plans_def set_map .
    then show ?thesis using assms(2) by (metis (no_types, lifting) image_iff)
  qed
  have "length locals < 2 ^ 32" using assms(1) by (simp add: a_def [symmetric] a)
  then have "unzip a = read_directory (length es mod 2 ^ 16) (length locals) a"
    unfolding unzip_def Let_def pos at using at [of 4 0] fields by (simp add: a)
  also have "\<dots> = Some (take (length es mod 2 ^ 16) (map (\<lambda>p. (zp_filename p, zp_bytes p)) plans))"
  proof -
    have "length a < 2 ^ 32" using assms(1) by (simp only: a_def)
    moreover have "length es mod 2 ^ 16 \<le> length plans" unfolding plans_def zip_plans_frame by simp
    ultimately show ?thesis
      using read_directory_written [of a plans eocd es "[]" plans "length es mod 2 ^ 16",
          OF a [unfolded locals_def dir_def] plans_def _ _ names]
      unfolding locals_def by simp
  qed
  finally show ?thesis by (simp add: a_def plans_def zip_plans_files)
qed

section \<open>What the writer guarantees\<close>

lemma length_zip_layout:
  "length (zip_layout es) = (\<Sum>e\<leftarrow>es. 76 + 2 * length (encode_name (ze_filename e)) + length (ze_bytes e)) + 22"
proof -
  have dir: "length (concat (map directory_bytes (zip_plans off es))) = (\<Sum>e\<leftarrow>es. 46 + length (encode_name (ze_filename e)))"
    for off es by (induction es arbitrary: off) (simp_all add: Let_def length_directory_bytes)
  have "(\<Sum>e\<leftarrow>es. 30 + length (encode_name (ze_filename e)) + length (ze_bytes e)) + (\<Sum>e\<leftarrow>es. 46 + length (encode_name (ze_filename e))) =
      (\<Sum>e\<leftarrow>es. 76 + 2 * length (encode_name (ze_filename e)) + length (ze_bytes e))"
    by (induction es) simp_all
  then show ?thesis
    unfolding zip_layout_def Let_def length_append sum_local_bytes dir end_fields(1) by simp
qed

definition sample_files :: "zip_entry list" where
  "sample_files = [\<lparr>ze_filename = ''a.txt'', ze_bytes = [1, 2, 3]\<rparr>, \<lparr>ze_filename = ''b/c'', ze_bytes = []\<rparr>]"

text \<open>C18: An archive that is written can be read.  The writer never runs past its buffer, and an extractor that starts at
  the end record finds the files in order, each with its name and its bytes, as long as names are shorter than
  \<open>2^16\<close> bytes and the archive is shorter than \<open>2^32\<close>.  The counters have 16 bits: of \<open>2^16\<close> or more
  files only as many as the remainder are found.\<close>

theorem zip_reads_back:
  assumes "\<forall>e\<in>set entries. length (encode_name (ze_filename e)) < 2 ^ 16"
    and "(\<Sum>e\<leftarrow>entries. 76 + 2 * length (encode_name (ze_filename e)) + length (ze_bytes e)) + 22 < 2 ^ 32"
  shows "\<exists>archive. buildZipArchive entries = Inr archive \<and>
    unzip archive = Some (take (length entries mod 2 ^ 16) (map (\<lambda>e. (ze_filename e, ze_bytes e)) entries))"
proof (intro exI conjI)
  show "buildZipArchive entries = Inr (zip_layout entries)" by (rule buildZipArchive_layout)
  show "unzip (zip_layout entries) = Some (take (length entries mod 2 ^ 16) (map (\<lambda>e. (ze_filename e, ze_bytes e)) entries))"
    by (rule unzip_layout [OF _ assms(1)]) (use assms(2) in \<open>simp only: length_zip_layout\<close>)
qed

theorem zip_reads_back_witness:
  "\<exists>archive. buildZipArchive sample_files = Inr archive \<and> unzip archive = Some [(''a.txt'', [1, 2, 3]), (''b/c'', [])]"
proof -
  have "\<forall>e\<in>set sample_files. length (encode_name (ze_filename e)) < 2 ^ 16"
    "(\<Sum>e\<leftarrow>sample_files. 76 + 2 * length (encode_name (ze_filename e)) + length (ze_bytes e)) + 22 < 2 ^ 32"
    by (simp_all add: sample_files_def encode_name_def utf8_encode_def utf8_char_def Let_def)
  from zip_reads_back [OF this] show ?thesis by (simp add: sample_files_def)
qed

text \<open>The checksum is the CRC-32 register: one table lookup per byte computes what eight shifts of the register
  compute, and two contents that differ in one byte never have the same checksum.\<close>

theorem crc_is_register:
  "crc32 bytes = crc_reference bytes \<and> (crc32 (xs @ a # ys) = crc32 (xs @ b # ys) \<longleftrightarrow> a = b)"
  unfolding crc_reference_def crc_single_byte by (simp only: crc32_def crc_loop_reference simp_thms)

lemma slashes_gone:
  assumes "seg \<in> set (split_slashes s)"
  shows "CHR ''/'' \<notin> set seg" "CHR 0x5C \<notin> set seg" "set seg \<subseteq> insert (CHR ''/'') (set s)"
  using assms split_on_parts [of seg "CHR ''/''" "map (\<lambda>c. if is_slash c then CHR ''/'' else c) s"]
  by (auto simp: split_slashes_def is_slash_def split: if_splits)

lemma strip_drive_subset: "set (strip_drive s) \<subseteq> set s"
  by (auto simp: strip_drive_def split: list.splits if_splits)

definition plain_path :: "string \<Rightarrow> bool" where
  "plain_path s \<longleftrightarrow> s \<noteq> [] \<and> (\<forall>c\<in>set s. 0x1f < (of_char c :: nat) \<and> c \<noteq> CHR 0x5C)
     \<and> list_all (\<lambda>seg. seg \<notin> {[], ''..'', ''.''}) (split_on (CHR ''/'') s)"

text \<open>No entry name leaves the directory it is extracted into: it is not empty, it has no backslash and no control
  character, it does not begin with a slash, and none of its segments is empty, \<open>.\<close> or \<open>..\<close>.\<close>

theorem entry_names_are_plain: "plain_path (safeZipFilename input)"
proof -
  define out where "out = strip_drive (dropWhile is_slash (map (\<lambda>c. if (of_char c :: nat) \<le> 0x1f then CHR ''_'' else c) input))"
  define segs where "segs = filter (\<lambda>seg. seg \<noteq> [] \<and> seg \<noteq> ''..'' \<and> seg \<noteq> ''.'') (split_slashes out)"
  have name: "safeZipFilename input = (if segs = [] then ''file'' else join ''/'' segs)"
  proof (cases segs)
    case (Cons seg rest)
    then have "seg \<in> set segs" by simp
    then have "seg \<noteq> []" by (simp add: segs_def)
    then have "join ''/'' segs \<noteq> []" unfolding Cons by (cases rest) simp_all
    then show ?thesis unfolding safeZipFilename_def Let_def out_def [symmetric] segs_def [symmetric] using Cons by simp
  qed (simp add: safeZipFilename_def Let_def out_def [symmetric] segs_def [symmetric])
  have "set out \<subseteq> set (map (\<lambda>c. if (of_char c :: nat) \<le> 0x1f then CHR ''_'' else c) input)"
    unfolding out_def using strip_drive_subset set_dropWhileD by fast
  then have control: "0x1f < (of_char c :: nat)" if "c \<in> set out" for c
    using that by (auto split: if_splits)
  show ?thesis
  proof (cases "segs = []")
    case True
    then show ?thesis unfolding name by (simp add: plain_path_def) 
  next
    case False
    have segs: "CHR ''/'' \<notin> set seg \<and> CHR 0x5C \<notin> set seg \<and> set seg \<subseteq> insert (CHR ''/'') (set out) \<and> seg \<notin> {[], ''..'', ''.''}"
      if "seg \<in> set segs" for seg
      using that slashes_gone [of seg out] by (simp add: segs_def)
    have split: "split_on (CHR ''/'') (join ''/'' segs) = segs" by (rule split_on_join) (use False segs in auto)
    have chars: "c = CHR ''/'' \<or> (\<exists>seg\<in>set segs. c \<in> set seg)" if "c \<in> set (join ''/'' segs)" for c
      using that by (induction "''/'' :: string" segs rule: join.induct) auto
    have "join ''/'' segs \<noteq> []" using False segs [of "[]"] split by (cases "join ''/'' segs") auto
    moreover have "0x1f < (of_char c :: nat) \<and> c \<noteq> CHR 0x5C" if "c \<in> set (join ''/'' segs)" for c
      using chars [OF that] segs control by fastforce
    ultimately show ?thesis
      using False segs by (simp add: name plain_path_def split list_all_iff)
  qed
qed

text \<open>A second drive letter survives: the drive pattern is removed once.\<close>

theorem second_drive_letter_survives: "safeZipFilename ''C:/D:/x'' = ''D:/x''"
  by code_simp

end
