(* ===== verification/File_Storage.thy ===== *)
theory File_Storage
  imports Zip_Archive
begin

text \<open>
  Where the bytes of files live: the key layout (\<open>src/core/files/storage-path.ts\<close>), the storage contract
  with its memory adapter (\<open>storage-adapter.ts\<close>), the adapter on the local file system with its defence against
  path traversal (\<open>local-storage-adapter.ts\<close>), and the adapter on the blob table (\<open>postgres-storage-adapter.ts\<close>,
  \<open>postgres-file-blob-operations.ts\<close>).  The locale \<open>blob_store\<close> is the contract; all three adapters
  satisfy it on the keys the server builds.
\<close>

section \<open>Keys\<close>

datatype path_error = TenantRequired | FileIdRequired | FilenameRequired | FilenameEmpty

text \<open>\<open>[\p{L}\p{N}._-]\<close>.\<close>

definition key_safe :: "char \<Rightarrow> bool" where
  "key_safe c = (let n = of_char c :: nat in
     is_letter c \<or> is_digit c \<or> c = CHR ''.'' \<or> c = CHR ''_'' \<or> c = CHR ''-''
     \<or> n \<in> {0xAA, 0xB2, 0xB3, 0xB5, 0xB9, 0xBA} \<or> 0xBC \<le> n \<and> n \<le> 0xBE
     \<or> 0xC0 \<le> n \<and> n \<noteq> 0xD7 \<and> n \<noteq> 0xF7)"

definition sanitiseFilename :: "string \<Rightarrow> path_error + string" where
  "sanitiseFilename input =
     (if \<not> truthy input then Inl FilenameRequired
      else let segments = filter (\<lambda>seg. length seg > 0 \<and> seg \<noteq> ''..'')
             (split_on (CHR ''/'') (map (\<lambda>c. if c = CHR 0x5C then CHR ''/'' else c) input));
               joined = join ''-'' segments;
               safe = map (\<lambda>c. if key_safe c then c else CHR ''-'') joined
           in if \<not> truthy safe then Inl FilenameEmpty else Inr safe)"

definition ROOT_SEGMENT :: string where
  "ROOT_SEGMENT = ''_root''"

definition resolveStoragePath :: "string \<Rightarrow> string option \<Rightarrow> string \<Rightarrow> string \<Rightarrow> path_error + string" where
  "resolveStoragePath tenantId folderId fileId filename =
     (if \<not> truthy tenantId then Inl TenantRequired
      else if \<not> truthy fileId then Inl FileIdRequired
      else if \<not> truthy filename then Inl FilenameRequired
      else case sanitiseFilename filename of
             Inl e \<Rightarrow> Inl e
           | Inr cleanFilename \<Rightarrow>
               Inr (tenantId @ ''/'' @ nullish folderId ROOT_SEGMENT @ ''/'' @ fileId @ ''-'' @ cleanFilename))"

section \<open>The memory adapter\<close>

datatype store_error = KeyRequired | PathTraversal string | ObjectNotFound string | FileSystem string

record object_metadata =
  om_key :: string
  om_sizeBytes :: nat
  om_mimeType :: string

record stored_object =
  so_body :: buffer
  so_mimeType :: string

type_synonym memory_store = "(string \<times> stored_object) list"

definition memory_put :: "string \<Rightarrow> buffer \<Rightarrow> string \<Rightarrow> memory_store \<Rightarrow> (store_error + object_metadata) \<times> memory_store" where
  "memory_put key body mimeType s =
     (if \<not> truthy key then (Inl KeyRequired, s)
      else (Inr \<lparr>om_key = key, om_sizeBytes = length body, om_mimeType = mimeType\<rparr>,
            map_set key \<lparr>so_body = body, so_mimeType = mimeType\<rparr> s))"

definition memory_get :: "string \<Rightarrow> memory_store \<Rightarrow> store_error + buffer" where
  "memory_get key s = (case map_get s key of None \<Rightarrow> Inl (ObjectNotFound key) | Some entry \<Rightarrow> Inr (so_body entry))"

definition memory_delete :: "string \<Rightarrow> memory_store \<Rightarrow> (store_error + bool) \<times> memory_store" where
  "memory_delete key s = (Inr (map_get s key \<noteq> None), map_delete key s)"

definition memory_exists :: "string \<Rightarrow> memory_store \<Rightarrow> bool" where
  "memory_exists key s \<longleftrightarrow> map_get s key \<noteq> None"

definition memory_list :: "string \<Rightarrow> memory_store \<Rightarrow> string list" where
  "memory_list pre s = sort_by js_le (filter (\<lambda>key. startsWith key pre) (map_keys s))"

section \<open>The adapter on the blob table\<close>

record blob_row =
  br_tenantId :: string
  br_key :: string
  br_body :: buffer
  br_mimeType :: string
  br_sizeBytes :: nat

text \<open>\<open>tenant\<close> is the tenant the operations were bound to; the table has one row per tenant and key.\<close>

definition is_blob :: "string \<Rightarrow> string \<Rightarrow> blob_row \<Rightarrow> bool" where
  "is_blob tenant key r \<longleftrightarrow> br_tenantId r = tenant \<and> br_key r = key"

definition blob_upsert :: "string \<Rightarrow> string \<Rightarrow> buffer \<Rightarrow> string \<Rightarrow> blob_row list \<Rightarrow> blob_row list" where
  "blob_upsert tenant key body mimeType t =
     (if find_first (is_blob tenant key) t \<noteq> None
      then update_where (is_blob tenant key) (\<lambda>r. r\<lparr>br_body := body, br_mimeType := mimeType, br_sizeBytes := length body\<rparr>) t
      else t @ [\<lparr>br_tenantId = tenant, br_key = key, br_body = body, br_mimeType = mimeType, br_sizeBytes = length body\<rparr>])"

definition findByKey :: "string \<Rightarrow> string \<Rightarrow> blob_row list \<Rightarrow> stored_object option" where
  "findByKey tenant key t =
     map_option (\<lambda>r. \<lparr>so_body = br_body r, so_mimeType = br_mimeType r\<rparr>) (find_first (is_blob tenant key) t)"

text \<open>Deleting a missing row raises \<open>P2025\<close>, which is answered with \<open>false\<close>.\<close>

definition deleteByKey :: "string \<Rightarrow> string \<Rightarrow> blob_row list \<Rightarrow> bool \<times> blob_row list" where
  "deleteByKey tenant key t =
     (if find_first (is_blob tenant key) t = None then (False, t)
      else (True, filter (\<lambda>r. \<not> is_blob tenant key r) t))"

definition existsByKey :: "string \<Rightarrow> string \<Rightarrow> blob_row list \<Rightarrow> bool" where
  "existsByKey tenant key t \<longleftrightarrow> find_first (is_blob tenant key) t \<noteq> None"

definition listKeys :: "string \<Rightarrow> string \<Rightarrow> blob_row list \<Rightarrow> string list" where
  "listKeys tenant pre t = sort_by js_le (map br_key (filter (\<lambda>r. br_tenantId r = tenant \<and> startsWith (br_key r) pre) t))"

definition postgres_put :: "string \<Rightarrow> string \<Rightarrow> buffer \<Rightarrow> string \<Rightarrow> blob_row list \<Rightarrow> (store_error + object_metadata) \<times> blob_row list" where
  "postgres_put tenant key body mimeType t =
     (if \<not> truthy key then (Inl KeyRequired, t)
      else (Inr \<lparr>om_key = key, om_sizeBytes = length body, om_mimeType = mimeType\<rparr>, blob_upsert tenant key body mimeType t))"

definition postgres_get :: "string \<Rightarrow> string \<Rightarrow> blob_row list \<Rightarrow> store_error + buffer" where
  "postgres_get tenant key t = (case findByKey tenant key t of None \<Rightarrow> Inl (ObjectNotFound key) | Some row \<Rightarrow> Inr (so_body row))"

definition postgres_delete :: "string \<Rightarrow> string \<Rightarrow> blob_row list \<Rightarrow> (store_error + bool) \<times> blob_row list" where
  "postgres_delete tenant key t = (let (removed, t') = deleteByKey tenant key t in (Inr removed, t'))"

definition postgres_list :: "string \<Rightarrow> string \<Rightarrow> blob_row list \<Rightarrow> string list" where
  "postgres_list tenant pre t = sort_by js_le (listKeys tenant pre t)"

section \<open>The adapter on the file system\<close>

text \<open>Node's \<open>path\<close> on POSIX.  \<open>acc\<close> holds the segments kept so far, the last one first.\<close>

fun normalize_segments :: "bool \<Rightarrow> string list \<Rightarrow> string list \<Rightarrow> string list" where
  "normalize_segments up acc [] = rev acc"
| "normalize_segments up acc (seg # segs) =
     (if seg = [] \<or> seg = ''.'' then normalize_segments up acc segs
      else if seg = ''..'' then
        (if acc \<noteq> [] \<and> hd acc \<noteq> ''..'' then normalize_segments up (tl acc) segs
         else if up then normalize_segments up (seg # acc) segs
         else normalize_segments up acc segs)
      else normalize_segments up (seg # acc) segs)"

definition normalize :: "string \<Rightarrow> string" where
  "normalize p =
     (if p = [] then ''.''
      else let isAbsolute = hd p = CHR ''/''; trailing = last p = CHR ''/'';
               path = join ''/'' (normalize_segments (\<not> isAbsolute) [] (split_on (CHR ''/'') p))
           in if path = [] then (if isAbsolute then ''/'' else if trailing then ''./'' else ''.'')
              else let path = (if trailing then path @ ''/'' else path)
                   in if isAbsolute then ''/'' @ path else path)"

text \<open>An absolute normalised path is its list of segments.\<close>

definition resolve :: "string list \<Rightarrow> string \<Rightarrow> string list" where
  "resolve root p = (if startsWith p ''/'' then normalize_segments False [] (split_on (CHR ''/'') p)
     else normalize_segments False [] (root @ split_on (CHR ''/'') p))"

fun relative_segments :: "string list \<Rightarrow> string list \<Rightarrow> string list" where
  "relative_segments (f # fs) (t # ts) =
     (if f = t then relative_segments fs ts else replicate (length (f # fs)) ''..'' @ t # ts)"
| "relative_segments fs ts = replicate (length fs) ''..'' @ ts"

definition resolveSafe :: "string list \<Rightarrow> string \<Rightarrow> store_error + string list" where
  "resolveSafe root key =
     (if \<not> truthy key then Inl KeyRequired
      else let normalized = normalize key
           in if startsWith normalized ''..'' \<or> str_includes normalized ''../'' \<or> startsWith normalized ''/''
              then Inl (PathTraversal key)
              else let resolved = resolve root normalized; rel = join ''/'' (relative_segments root resolved)
                   in if startsWith rel ''..'' \<or> rel = ''..'' \<or> startsWith rel ''../'' then Inl (PathTraversal key)
                      else Inr resolved)"

definition metaPath :: "string list \<Rightarrow> string list" where
  "metaPath filePath = butlast filePath @ [last filePath @ ''.meta.json'']"

text \<open>Files and directories by path; what the calls of \<open>node:fs\<close> do to them.\<close>

record file_system =
  fs_files :: "(string list \<times> buffer) list"
  fs_dirs :: "string list list"

definition existsSync :: "string list \<Rightarrow> file_system \<Rightarrow> bool" where
  "existsSync p fs \<longleftrightarrow> map_get (fs_files fs) p \<noteq> None \<or> p \<in> set (fs_dirs fs)"

definition mkdir :: "string list \<Rightarrow> file_system \<Rightarrow> store_error + file_system" where
  "mkdir p fs =
     (let parents = map (\<lambda>n. take n p) [0..<Suc (length p)]
      in if list_ex (\<lambda>q. map_get (fs_files fs) q \<noteq> None) parents then Inl (FileSystem ''ENOTDIR'')
         else Inr (fs\<lparr>fs_dirs := fs_dirs fs @ filter (\<lambda>q. q \<notin> set (fs_dirs fs)) parents\<rparr>))"

definition writeFile :: "string list \<Rightarrow> buffer \<Rightarrow> file_system \<Rightarrow> store_error + file_system" where
  "writeFile p body fs =
     (if p \<in> set (fs_dirs fs) then Inl (FileSystem ''EISDIR'')
      else if butlast p \<notin> set (fs_dirs fs) then Inl (FileSystem ''ENOENT'')
      else Inr (fs\<lparr>fs_files := map_set p body (fs_files fs)\<rparr>))"

definition readFile :: "string list \<Rightarrow> file_system \<Rightarrow> store_error + buffer" where
  "readFile p fs =
     (if p \<in> set (fs_dirs fs) then Inl (FileSystem ''EISDIR'')
      else case map_get (fs_files fs) p of None \<Rightarrow> Inl (FileSystem ''ENOENT'') | Some body \<Rightarrow> Inr body)"

definition rm_force :: "string list \<Rightarrow> file_system \<Rightarrow> store_error + file_system" where
  "rm_force p fs =
     (if p \<in> set (fs_dirs fs) then Inl (FileSystem ''EISDIR'') else Inr (fs\<lparr>fs_files := map_delete p (fs_files fs)\<rparr>))"

definition sidecar :: "string \<Rightarrow> buffer" where
  "sidecar mimeType = map of_nat (utf8_encode (stringify (JObj [(''mimeType'', JStr mimeType)])))"

definition local_put :: "string list \<Rightarrow> string \<Rightarrow> buffer \<Rightarrow> string \<Rightarrow> file_system \<Rightarrow> (store_error + object_metadata) \<times> file_system" where
  "local_put root key body mimeType fs =
     (case resolveSafe root key of
        Inl e \<Rightarrow> (Inl e, fs)
      | Inr filePath \<Rightarrow>
          (case mkdir (butlast filePath) fs of
             Inl e \<Rightarrow> (Inl e, fs)
           | Inr fs1 \<Rightarrow>
               (case writeFile filePath body fs1 of
                  Inl e \<Rightarrow> (Inl e, fs1)
                | Inr fs2 \<Rightarrow>
                    (case writeFile (metaPath filePath) (sidecar mimeType) fs2 of
                       Inl e \<Rightarrow> (Inl e, fs2)
                     | Inr fs3 \<Rightarrow> (Inr \<lparr>om_key = key, om_sizeBytes = length body, om_mimeType = mimeType\<rparr>, fs3)))))"

definition local_get :: "string list \<Rightarrow> string \<Rightarrow> file_system \<Rightarrow> store_error + buffer" where
  "local_get root key fs =
     (case resolveSafe root key of
        Inl e \<Rightarrow> Inl e
      | Inr filePath \<Rightarrow> if \<not> existsSync filePath fs then Inl (ObjectNotFound key) else readFile filePath fs)"

definition local_delete :: "string list \<Rightarrow> string \<Rightarrow> file_system \<Rightarrow> (store_error + bool) \<times> file_system" where
  "local_delete root key fs =
     (case resolveSafe root key of
        Inl e \<Rightarrow> (Inl e, fs)
      | Inr filePath \<Rightarrow>
          if \<not> existsSync filePath fs then (Inr False, fs)
          else (case rm_force filePath fs of
                  Inl e \<Rightarrow> (Inl e, fs)
                | Inr fs1 \<Rightarrow> (case rm_force (metaPath filePath) fs1 of Inl e \<Rightarrow> (Inl e, fs1) | Inr fs2 \<Rightarrow> (Inr True, fs2))))"

definition local_exists :: "string list \<Rightarrow> string \<Rightarrow> file_system \<Rightarrow> bool" where
  "local_exists root key fs = (case resolveSafe root key of Inl e \<Rightarrow> False | Inr filePath \<Rightarrow> existsSync filePath fs)"

text \<open>The walk lists every file below the root; the sort makes the order of \<open>readdir\<close> irrelevant.\<close>

definition walk_keys :: "string list \<Rightarrow> file_system \<Rightarrow> string list" where
  "walk_keys root fs =
     map (\<lambda>p. join ''/'' (relative_segments root p)) (filter (\<lambda>p. startsWith p root) (map fst (fs_files fs)))"

definition local_list :: "string list \<Rightarrow> string \<Rightarrow> file_system \<Rightarrow> string list" where
  "local_list root pre fs =
     sort_by js_le (filter (\<lambda>key. \<not> endsWith key ''.meta.json'') (filter (\<lambda>key. startsWith key pre) (walk_keys root fs)))"

section \<open>Paths stay below the root\<close>

definition plain_segment :: "string \<Rightarrow> bool" where
  "plain_segment seg \<longleftrightarrow> seg \<notin> {[], ''.'', ''..''}"

lemma normalize_plain: "list_all plain_segment segs \<Longrightarrow> normalize_segments up acc segs = rev acc @ segs"
  by (induction segs arbitrary: acc) (simp_all add: plain_segment_def)

text \<open>A normalised path goes up first and then only down.\<close>

lemma normalize_shape:
  assumes "rev acc = replicate n ''..'' @ ds" "list_all plain_segment ds" "up \<or> n = 0"
    "normalize_segments up acc segs = res"
  shows "\<exists>m es. res = replicate m ''..'' @ es \<and> list_all plain_segment es \<and> (up \<or> m = 0)"
  using assms
proof (induction segs arbitrary: acc n ds)
  case Nil
  then show ?case by (intro exI [of _ n] exI [of _ ds]) auto
next
  case (Cons seg segs)
  consider "seg = [] \<or> seg = ''.''" | "seg = ''..''" "ds \<noteq> []" | "seg = ''..''" "ds = []" | "plain_segment seg"
    by (auto simp: plain_segment_def)
  then show ?case
  proof cases
    case 1
    then show ?thesis using Cons.prems Cons.IH [OF Cons.prems(1-3)] by simp
  next
    case 2
    then obtain ds' d where ds: "ds = ds' @ [d]" using rev_exhaust by blast
    with Cons.prems(1) have acc: "acc = d # rev (replicate n ''..'' @ ds')" by (metis append_assoc rev_rev_ident rev_append rev_singleton_conv append_Cons append_Nil rev.simps(2))
    have "d \<noteq> ''..''" using Cons.prems(2) by (simp add: ds plain_segment_def)
    then show ?thesis using 2 Cons.prems(2-4) Cons.IH [of "tl acc" n ds'] by (simp add: acc ds)
  next
    case 3
    then have acc: "acc = replicate n ''..''" using Cons.prems(1) by (metis append_Nil2 rev_replicate rev_rev_ident)
    show ?thesis
    proof (cases up)
      case True
      then show ?thesis using 3 Cons.prems(4) Cons.IH [of "''..'' # acc" "Suc n" "[]"]
        by (cases n) (simp_all add: acc replicate_append_same)
    next
      case False
      then show ?thesis using 3 Cons.prems Cons.IH [of acc n "[]"] by (simp add: acc)
    qed
  next
    case 4
    then show ?thesis using Cons.prems Cons.IH [of "seg # acc" n "ds @ [seg]"] by (simp add: plain_segment_def)
  qed
qed

lemma normalize_subset: "set (normalize_segments up acc segs) \<subseteq> set acc \<union> set segs"
proof (induction segs arbitrary: acc)
  case (Cons seg segs)
  have "set (tl acc) \<subseteq> set acc" by (cases acc) auto
  then show ?case using Cons.IH [of "tl acc"] Cons.IH [of acc] Cons.IH [of "seg # acc"] by auto
qed simp

lemma normalize_junk:
  "list_all plain_segment segs \<Longrightarrow> list_all (\<lambda>j. j \<in> {[], ''.''}) junk \<Longrightarrow> normalize_segments up [] (segs @ junk) = segs"
proof -
  have junk: "list_all (\<lambda>j. j \<in> {[], ''.''}) junk \<Longrightarrow> normalize_segments up acc junk = rev acc" for acc
    by (induction junk) auto
  show "list_all plain_segment segs \<Longrightarrow> list_all (\<lambda>j. j \<in> {[], ''.''}) junk \<Longrightarrow> normalize_segments up [] (segs @ junk) = segs"
  proof -
    have "normalize_segments up acc (segs @ junk) = rev acc @ segs"
      if "list_all plain_segment segs" "list_all (\<lambda>j. j \<in> {[], ''.''}) junk" for acc
      using that by (induction segs arbitrary: acc) (simp_all add: plain_segment_def junk)
    then show "list_all plain_segment segs \<Longrightarrow> list_all (\<lambda>j. j \<in> {[], ''.''}) junk \<Longrightarrow> normalize_segments up [] (segs @ junk) = segs"
      by simp
  qed
qed

lemma join_snoc_empty: "es \<noteq> [] \<Longrightarrow> join [c] es @ [c] = join [c] (es @ [[]])"
  by (induction "[c]" es rule: join.induct) auto

lemma join_starts: "startsWith (join sep (x # xs)) x"
  by (cases xs) (auto simp: startsWith_iff)

lemma normalized_key:
  assumes "key \<noteq> []" "\<not> startsWith (normalize key) ''/''" "\<not> startsWith (normalize key) ''..''"
  obtains es junk where "list_all plain_segment es" "\<forall>seg\<in>set es. CHR ''/'' \<notin> set seg"
    "split_on (CHR ''/'') (normalize key) = es @ junk" "list_all (\<lambda>j. j \<in> {[], ''.''}) junk"
proof -
  let ?split = "split_on (CHR ''/'')"
  define ns where "ns = normalize_segments True [] (?split key)"
  have relative: "hd key \<noteq> CHR ''/''"
  proof
    assume "hd key = CHR ''/''"
    then have "startsWith (normalize key) ''/''" using assms(1) by (auto simp: normalize_def Let_def startsWith_def)
    then show False using assms(2) by simp
  qed
  have ns: "normalize key = (if join ''/'' ns = [] then (if last key = CHR ''/'' then ''./'' else ''.'')
      else if last key = CHR ''/'' then join ''/'' ns @ ''/'' else join ''/'' ns)"
    using assms(1) relative by (simp add: normalize_def Let_def ns_def)
  obtain m es where shape: "ns = replicate m ''..'' @ es" "list_all plain_segment es"
    using normalize_shape [of "[]" 0 "[]" True "?split key" ns] by (auto simp: ns_def)
  have "m = 0"
  proof (rule ccontr)
    assume "m \<noteq> 0"
    then obtain m' where "ns = ''..'' # replicate m' ''..'' @ es" using shape(1) by (cases m) auto
    then have dots: "startsWith (join ''/'' ns) ''..''" using join_starts by metis
    then have "join ''/'' ns \<noteq> []" by (auto simp: startsWith_iff)
    with dots have "startsWith (normalize key) ''..''" by (auto simp: ns startsWith_iff)
    then show False using assms(3) by simp
  qed
  with shape have es: "ns = es" by simp
  have slash: "\<forall>seg\<in>set es. CHR ''/'' \<notin> set seg"
    using normalize_subset [of True "[]" "?split key"] by (auto simp: es [symmetric] ns_def dest: split_on_parts)
  show ?thesis
  proof (cases "es = []")
    case True
    have "?split (normalize key) = [] @ (if last key = CHR ''/'' then [''.'', []] else [''.''])"
      by (simp add: ns es True)
    then show ?thesis by (intro that [of "[]" "if last key = CHR ''/'' then [''.'', []] else [''.'']"]) simp_all
  next
    case False
    then have "join ''/'' es \<noteq> []" using shape(2) by (cases es; cases "tl es") (auto simp: plain_segment_def)
    then have "normalize key = join ''/'' (es @ (if last key = CHR ''/'' then [[]] else []))"
      using False by (simp add: ns es join_snoc_empty)
    then have "?split (normalize key) = es @ (if last key = CHR ''/'' then [[]] else [])"
      using split_on_join [of "es @ (if last key = CHR ''/'' then [[]] else [])" "CHR ''/''"] False slash by auto
    then show ?thesis by (intro that [of es "if last key = CHR ''/'' then [[]] else []"]) (simp_all add: shape(2) slash)
  qed
qed

lemma relative_below [simp]: "relative_segments root (root @ segs) = segs"
  by (induction root) simp_all

lemma resolve_below:
  assumes "resolveSafe root key = Inr p" "list_all plain_segment root"
  shows "\<exists>segs. p = root @ segs \<and> list_all plain_segment segs \<and> (\<forall>seg\<in>set segs. CHR ''/'' \<notin> set seg)"
proof -
  have key: "key \<noteq> []" "\<not> startsWith (normalize key) ''/''" "\<not> startsWith (normalize key) ''..''"
    and p: "p = resolve root (normalize key)"
    using assms(1) by (auto simp: resolveSafe_def Let_def split: if_splits)
  from normalized_key [OF key] obtain es junk where es: "list_all plain_segment es" "\<forall>seg\<in>set es. CHR ''/'' \<notin> set seg"
    "split_on (CHR ''/'') (normalize key) = es @ junk" "list_all (\<lambda>j. j \<in> {[], ''.''}) junk" .
  have "p = root @ es"
    using key(2) es(1,4) assms(2) normalize_junk [of "root @ es" junk False] by (simp add: p resolve_def es(3))
  with es show ?thesis by blast
qed

section \<open>The keys the server builds\<close>

definition key_depth :: "string \<Rightarrow> nat" where
  "key_depth seg = (if seg = ''_tus'' then 2 else if seg = ''_quarantine'' then 4 else 3)"

definition key_segments :: "string \<Rightarrow> string list" where
  "key_segments k = split_on (CHR ''/'') k"

definition clean_key :: "string \<Rightarrow> bool" where
  "clean_key k \<longleftrightarrow> list_all plain_segment (key_segments k) \<and> \<not> startsWith k ''..'' \<and> \<not> str_includes k ''../''"

definition storage_key :: "string \<Rightarrow> bool" where
  "storage_key k \<longleftrightarrow>
     clean_key k \<and> length (key_segments k) = key_depth (hd (key_segments k)) \<and> \<not> endsWith k ''.meta.json''"

lemma key_segments_slash: "seg \<in> set (key_segments k) \<Longrightarrow> CHR ''/'' \<notin> set seg"
  unfolding key_segments_def by (drule split_on_parts) simp

lemma key_segments_inj: "key_segments k = key_segments k' \<longleftrightarrow> k = k'"
  by (metis key_segments_def join_split_on)

lemma clean_key_ne: "clean_key k \<Longrightarrow> k \<noteq> []"
  by (auto simp: clean_key_def key_segments_def plain_segment_def)

lemma storage_key_ne: "storage_key k \<Longrightarrow> k \<noteq> []"
  by (simp add: storage_key_def clean_key_ne)

lemma normalize_clean_key:
  assumes "clean_key k"
  shows "normalize k = k"
proof -
  have segs: "list_all plain_segment (key_segments k)" using assms by (simp add: clean_key_def)
  have k: "join ''/'' (key_segments k) = k" by (simp add: key_segments_def join_split_on)
  have ne: "k \<noteq> []" using assms by (rule clean_key_ne)
  have hd: "hd k \<noteq> CHR ''/''"
  proof
    assume "hd k = CHR ''/''"
    then have "[] \<in> set (key_segments k)" using ne by (cases k) (auto simp: key_segments_def)
    then show False using segs by (auto simp: list_all_iff plain_segment_def)
  qed
  have last: "last k \<noteq> CHR ''/''"
  proof
    assume "last k = CHR ''/''"
    then obtain r where "k = r @ ''/''" using ne by (metis append_butlast_last_id)
    then have "k = join ''/'' (split_on (CHR ''/'') r @ [[]])"
      using join_snoc_empty [of "split_on (CHR ''/'') r" "CHR ''/''"] by (simp add: join_split_on)
    moreover have "\<forall>w\<in>set (split_on (CHR ''/'') r @ [[]]). CHR ''/'' \<notin> set w" by (auto dest: split_on_parts)
    ultimately have "key_segments k = split_on (CHR ''/'') r @ [[]]"
      using split_on_join [of "split_on (CHR ''/'') r @ [[]]" "CHR ''/''"] by (simp add: key_segments_def)
    then show False using segs by (simp add: plain_segment_def)
  qed
  show ?thesis
    using ne hd last normalize_plain [OF segs, of True "[]"] k unfolding normalize_def Let_def key_segments_def by simp
qed

lemma resolve_clean_key:
  assumes "clean_key k" "list_all plain_segment root"
  shows "resolveSafe root k = Inr (root @ key_segments k)"
proof -
  have segs: "list_all plain_segment (root @ key_segments k)" and k: "join ''/'' (key_segments k) = k"
    using assms by (simp_all add: clean_key_def key_segments_def join_split_on)
  have "k \<noteq> []" using assms(1) by (rule clean_key_ne)
  moreover have "\<not> startsWith k ''/''"
  proof
    assume "startsWith k ''/''"
    then have "[] \<in> set (key_segments k)" by (auto simp: startsWith_iff key_segments_def)
    then show False using segs by (auto simp: list_all_iff plain_segment_def)
  qed
  moreover have "\<not> startsWith k ''..''" "\<not> str_includes k ''../''" using assms(1) by (simp_all add: clean_key_def)
  moreover have "resolve root k = root @ key_segments k"
    using calculation(2) normalize_plain [OF segs, of False "[]"] by (simp add: resolve_def key_segments_def)
  ultimately show ?thesis
    by (auto simp: resolveSafe_def Let_def normalize_clean_key [OF assms(1)] k startsWith_iff)
qed

section \<open>The storage contract\<close>

locale blob_store =
  fixes put :: "string \<Rightarrow> buffer \<Rightarrow> string \<Rightarrow> 's \<Rightarrow> (store_error + object_metadata) \<times> 's"
    and get :: "string \<Rightarrow> 's \<Rightarrow> store_error + buffer"
    and delete :: "string \<Rightarrow> 's \<Rightarrow> (store_error + bool) \<times> 's"
    and keys :: "string \<Rightarrow> 's \<Rightarrow> string list"
    and inv :: "'s \<Rightarrow> bool"
  assumes put_total: "storage_key k \<Longrightarrow> inv s \<Longrightarrow>
      fst (put k body mime s) = Inr \<lparr>om_key = k, om_sizeBytes = length body, om_mimeType = mime\<rparr> \<and> inv (snd (put k body mime s))"
    and get_put: "storage_key k \<Longrightarrow> storage_key k' \<Longrightarrow> inv s \<Longrightarrow>
      get k' (snd (put k body mime s)) = (if k' = k then Inr body else get k' s)"
    and delete_total: "storage_key k \<Longrightarrow> inv s \<Longrightarrow> fst (delete k s) = Inr (\<not> isl (get k s)) \<and> inv (snd (delete k s))"
    and get_delete: "storage_key k \<Longrightarrow> storage_key k' \<Longrightarrow> inv s \<Longrightarrow>
      get k' (snd (delete k s)) = (if k' = k then Inl (ObjectNotFound k) else get k' s)"
    and get_error: "storage_key k \<Longrightarrow> inv s \<Longrightarrow> get k s = Inl e \<Longrightarrow> e = ObjectNotFound k"
    and keys_iff: "storage_key k \<Longrightarrow> inv s \<Longrightarrow> k \<in> set (keys pre s) \<longleftrightarrow> startsWith k pre \<and> \<not> isl (get k s)"

section \<open>The memory adapter keeps the contract\<close>

lemma map_get_in: "k \<in> fst ` set m \<longleftrightarrow> map_get m k \<noteq> None"
  by (metis map_of_eq_None_iff)

interpretation memory: blob_store memory_put memory_get memory_delete memory_list "\<lambda>s. True"
proof unfold_locales
  fix k k' body mime e pre and s :: memory_store
  assume k: "storage_key k"
  then have ne: "k \<noteq> []" by (rule storage_key_ne)
  then show "fst (memory_put k body mime s) = Inr \<lparr>om_key = k, om_sizeBytes = length body, om_mimeType = mime\<rparr> \<and> True"
    by (simp add: memory_put_def)
  show "memory_get k' (snd (memory_put k body mime s)) = (if k' = k then Inr body else memory_get k' s)"
    using ne by (simp add: memory_put_def memory_get_def map_get_set)
  show "fst (memory_delete k s) = Inr (\<not> isl (memory_get k s)) \<and> True"
    by (simp add: memory_delete_def memory_get_def split: option.split)
  show "memory_get k' (snd (memory_delete k s)) = (if k' = k then Inl (ObjectNotFound k) else memory_get k' s)"
    by (simp add: memory_delete_def memory_get_def map_get_delete)
  show "memory_get k s = Inl e \<Longrightarrow> e = ObjectNotFound k"
    by (simp add: memory_get_def split: option.splits)
  show "k \<in> set (memory_list pre s) \<longleftrightarrow> startsWith k pre \<and> \<not> isl (memory_get k s)"
    by (auto simp: memory_list_def map_keys_def memory_get_def map_get_in split: option.split)
qed

section \<open>The blob table keeps the contract\<close>

lemma find_blob_upsert:
  "find_first (is_blob tenant k') (blob_upsert tenant k body mime t) =
     (if k' = k then Some (case find_first (is_blob tenant k) t of
         Some r \<Rightarrow> r\<lparr>br_body := body, br_mimeType := mime, br_sizeBytes := length body\<rparr>
       | None \<Rightarrow> \<lparr>br_tenantId = tenant, br_key = k, br_body = body, br_mimeType = mime, br_sizeBytes = length body\<rparr>)
      else find_first (is_blob tenant k') t)"
proof -
  have update: "find_first (is_blob tenant k') (update_where (is_blob tenant k) f t) =
      (if k' = k then map_option f (find_first (is_blob tenant k) t) else find_first (is_blob tenant k') t)"
    if "\<And>r. br_tenantId (f r) = br_tenantId r \<and> br_key (f r) = br_key r" for f
    using that by (induction t) (auto simp: is_blob_def [abs_def])
  show ?thesis
    using update [of "\<lambda>r. r\<lparr>br_body := body, br_mimeType := mime, br_sizeBytes := length body\<rparr>"]
    by (auto simp: blob_upsert_def find_first_append is_blob_def split: option.split)
qed

lemma find_blob_delete:
  "find_first (is_blob tenant k') (filter (\<lambda>r. \<not> is_blob tenant k r) t) =
     (if k' = k then None else find_first (is_blob tenant k') t)"
  by (induction t) (auto simp: is_blob_def [abs_def])

interpretation postgres: blob_store "postgres_put tenant" "postgres_get tenant" "postgres_delete tenant" "postgres_list tenant" "\<lambda>s. True"
  for tenant
proof unfold_locales
  fix k k' body mime e pre and t :: "blob_row list"
  assume k: "storage_key k"
  then have ne: "k \<noteq> []" by (rule storage_key_ne)
  then show "fst (postgres_put tenant k body mime t) = Inr \<lparr>om_key = k, om_sizeBytes = length body, om_mimeType = mime\<rparr> \<and> True"
    by (simp add: postgres_put_def)
  show "postgres_get tenant k' (snd (postgres_put tenant k body mime t)) = (if k' = k then Inr body else postgres_get tenant k' t)"
    using ne by (simp add: postgres_put_def postgres_get_def findByKey_def find_blob_upsert split: option.split)
  show "fst (postgres_delete tenant k t) = Inr (\<not> isl (postgres_get tenant k t)) \<and> True"
    by (simp add: postgres_delete_def deleteByKey_def postgres_get_def findByKey_def split: option.split)
  show "postgres_get tenant k' (snd (postgres_delete tenant k t)) = (if k' = k then Inl (ObjectNotFound k) else postgres_get tenant k' t)"
    by (auto simp: postgres_delete_def deleteByKey_def postgres_get_def findByKey_def find_blob_delete)
  show "postgres_get tenant k t = Inl e \<Longrightarrow> e = ObjectNotFound k"
    by (simp add: postgres_get_def split: option.splits)
  have "find_first (is_blob tenant k) t \<noteq> None \<longleftrightarrow> (\<exists>r\<in>set t. is_blob tenant k r)"
    by (metis find_first_None)
  then show "k \<in> set (postgres_list tenant pre t) \<longleftrightarrow> startsWith k pre \<and> \<not> isl (postgres_get tenant k t)"
    by (auto simp: postgres_list_def listKeys_def postgres_get_def findByKey_def is_blob_def split: option.split)
qed

section \<open>The file system keeps the contract\<close>

text \<open>Below the root there are only files at the depth of their kind of key, and directories above them.\<close>

definition local_inv :: "string list \<Rightarrow> file_system \<Rightarrow> bool" where
  "local_inv root fs \<longleftrightarrow> list_all plain_segment root
     \<and> (\<forall>n\<le>length root. map_get (fs_files fs) (take n root) = None)
     \<and> (\<forall>segs. map_get (fs_files fs) (root @ segs) \<noteq> None \<longrightarrow>
          segs \<noteq> [] \<and> length segs = key_depth (hd segs) \<and> (\<forall>seg\<in>set segs. CHR ''/'' \<notin> set seg))
     \<and> (\<forall>segs. root @ segs \<in> set (fs_dirs fs) \<longrightarrow> segs = [] \<or> length segs < key_depth (hd segs))"

definition meta_segments :: "string list \<Rightarrow> string list" where
  "meta_segments segs = butlast segs @ [last segs @ ''.meta.json'']"

lemma metaPath_below: "segs \<noteq> [] \<Longrightarrow> metaPath (root @ segs) = root @ meta_segments segs"
  by (simp add: metaPath_def meta_segments_def butlast_append)

lemma key_depth_ge: "2 \<le> key_depth seg"
  by (simp add: key_depth_def)

lemma storage_key_segments:
  assumes "storage_key k"
  shows "key_segments k \<noteq> []" "length (key_segments k) = key_depth (hd (key_segments k))" "2 \<le> length (key_segments k)"
  using assms key_depth_ge by (auto simp: storage_key_def key_segments_def)

lemma meta_segments_shape:
  assumes "2 \<le> length segs"
  shows "hd (meta_segments segs) = hd segs" "length (meta_segments segs) = length segs" "butlast (meta_segments segs) = butlast segs"
  using assms by (cases segs; cases "tl segs"; simp add: meta_segments_def)+

lemma meta_not_key:
  assumes "storage_key k"
  shows "meta_segments segs \<noteq> key_segments k"
proof
  assume "meta_segments segs = key_segments k"
  then have "k = join ''/'' (butlast segs @ [last segs @ ''.meta.json''])"
    by (metis key_segments_def join_split_on meta_segments_def)
  moreover have "endsWith (join sep (xs @ [x @ e])) e" for sep xs and x e :: string
  proof (induction sep xs rule: join.induct)
    case (3 sep a b cs)
    then show ?case by (auto simp: endsWith_iff)
  qed (auto simp: endsWith_iff)
  ultimately show False using assms by (simp add: storage_key_def)
qed

lemma local_inv_key:
  assumes "local_inv root fs" "storage_key k"
  shows "root @ key_segments k \<notin> set (fs_dirs fs)"
    "resolveSafe root k = Inr (root @ key_segments k)"
    "existsSync (root @ key_segments k) fs \<longleftrightarrow> map_get (fs_files fs) (root @ key_segments k) \<noteq> None"
proof -
  show dir: "root @ key_segments k \<notin> set (fs_dirs fs)"
    using assms storage_key_segments [OF assms(2)] unfolding local_inv_def by fastforce
  show "resolveSafe root k = Inr (root @ key_segments k)"
    using assms by (intro resolve_clean_key) (simp_all add: local_inv_def storage_key_def)
  show "existsSync (root @ key_segments k) fs \<longleftrightarrow> map_get (fs_files fs) (root @ key_segments k) \<noteq> None"
    using dir by (simp add: existsSync_def)
qed

lemma local_get_view:
  assumes "local_inv root fs" "storage_key k"
  shows "local_get root k fs = (case map_get (fs_files fs) (root @ key_segments k) of
     None \<Rightarrow> Inl (ObjectNotFound k) | Some body \<Rightarrow> Inr body)"
  using local_inv_key [OF assms] by (simp add: local_get_def readFile_def split: option.split)

text \<open>No file is in the way of the directories of a key.\<close>

lemma parents_free:
  assumes inv: "local_inv root fs" and k: "storage_key k" and q: "q = take n (root @ butlast (key_segments k))"
  shows "map_get (fs_files fs) q = None"
proof (cases "n \<le> length root")
  case True
  then show ?thesis using inv by (simp add: q local_inv_def)
next
  case False
  define segs where "segs = take (n - length root) (butlast (key_segments k))"
  have q: "q = root @ segs" using False by (simp add: q segs_def)
  have len: "length segs < length (key_segments k)"
    using storage_key_segments(3) [OF k] by (simp add: segs_def)
  have hd: "hd segs = hd (key_segments k)" if "segs \<noteq> []"
    using that storage_key_segments(3) [OF k] by (cases "key_segments k") (auto simp: segs_def take_Cons' split: if_splits)
  show ?thesis
  proof (rule ccontr)
    assume "map_get (fs_files fs) q \<noteq> None"
    then have "segs \<noteq> []" "length segs = key_depth (hd segs)" using inv unfolding q local_inv_def by blast+
    then show False using len hd storage_key_segments(2) [OF k] by simp
  qed
qed

lemma new_dirs_above:
  assumes k: "storage_key k" and d: "root @ segs = take n (root @ butlast (key_segments k))"
  shows "segs = [] \<or> length segs < key_depth (hd segs)"
proof -
  have segs: "segs = take (n - length root) (butlast (key_segments k))"
  proof (cases "n \<le> length root")
    case True
    then have "length (root @ segs) \<le> length root" unfolding d by simp
    then show ?thesis using True by simp
  qed (use d in simp)
  then have "length segs < length (key_segments k)" using storage_key_segments(3) [OF k] by simp
  moreover have "hd segs = hd (key_segments k)" if "segs \<noteq> []"
    using that segs storage_key_segments(3) [OF k] by (cases "key_segments k") (auto simp: take_Cons' split: if_splits)
  ultimately show ?thesis using storage_key_segments(2) [OF k] by (cases "segs = []") simp_all
qed

lemma mkdir_key:
  assumes inv: "local_inv root fs" and k: "storage_key k"
  obtains fs1 where "mkdir (root @ butlast (key_segments k)) fs = Inr fs1" "local_inv root fs1"
    "fs_files fs1 = fs_files fs" "root @ butlast (key_segments k) \<in> set (fs_dirs fs1)"
proof -
  define parents where "parents = map (\<lambda>n. take n (root @ butlast (key_segments k))) [0..<Suc (length (root @ butlast (key_segments k)))]"
  define fs1 where "fs1 = fs\<lparr>fs_dirs := fs_dirs fs @ filter (\<lambda>q. q \<notin> set (fs_dirs fs)) parents\<rparr>"
  have "\<not> list_ex (\<lambda>q. map_get (fs_files fs) q \<noteq> None) parents"
    using parents_free [OF inv k refl] by (auto simp: parents_def list_ex_iff simp del: upt_Suc take_append)
  then have "mkdir (root @ butlast (key_segments k)) fs = Inr fs1"
    unfolding mkdir_def Let_def parents_def [symmetric] fs1_def by simp
  moreover have "segs = [] \<or> length segs < key_depth (hd segs)" if "root @ segs \<in> set (fs_dirs fs1)" for segs
  proof -
    have "root @ segs \<in> set (fs_dirs fs) \<or> root @ segs \<in> set parents" using that by (auto simp: fs1_def)
    then show ?thesis
    proof
      assume "root @ segs \<in> set parents"
      then obtain n where "root @ segs = take n (root @ butlast (key_segments k))" unfolding parents_def by (auto simp del: upt_Suc take_append)
      then show ?thesis by (rule new_dirs_above [OF k])
    qed (use inv in \<open>simp add: local_inv_def\<close>)
  qed
  then have "local_inv root fs1" using inv by (auto simp: local_inv_def fs1_def)
  moreover have "root @ butlast (key_segments k) \<in> set parents"
    unfolding parents_def by simp
  then have "root @ butlast (key_segments k) \<in> set (fs_dirs fs1)" by (auto simp: fs1_def)
  moreover have "fs_files fs1 = fs_files fs" by (simp add: fs1_def)
  ultimately show ?thesis using that by blast
qed

lemma write_file:
  fixes body :: buffer
  assumes inv: "local_inv root fs" and segs: "2 \<le> length segs" "length segs = key_depth (hd segs)" "\<forall>seg\<in>set segs. CHR ''/'' \<notin> set seg"
    and parent: "root @ butlast segs \<in> set (fs_dirs fs)"
  defines "fs' \<equiv> fs\<lparr>fs_files := map_set (root @ segs) body (fs_files fs)\<rparr>"
  shows "writeFile (root @ segs) body fs = Inr fs'" "local_inv root fs'"
proof -
  have ne: "segs \<noteq> []" using segs(1) by auto
  have "root @ segs \<notin> set (fs_dirs fs)" using inv segs ne unfolding local_inv_def by fastforce
  then show "writeFile (root @ segs) body fs = Inr fs'"
    using parent ne by (simp add: writeFile_def butlast_append fs'_def)
  have "take n root \<noteq> root @ segs" for n
    using ne by (metis append_eq_conv_conj append_take_drop_id length_append length_greater_0_conv length_take linorder_not_less
        min.cobounded1 add_cancel_right_right add_less_same_cancel1 le_add1 less_add_same_cancel1)
  then show "local_inv root fs'"
    using inv segs ne unfolding local_inv_def fs'_def by (simp add: map_get_set)
qed

lemma local_put_effect:
  assumes inv: "local_inv root fs" and k: "storage_key k"
  shows "\<exists>fs'. local_put root k body mime fs = (Inr \<lparr>om_key = k, om_sizeBytes = length body, om_mimeType = mime\<rparr>, fs')
    \<and> local_inv root fs' \<and> fs_files fs' = map_set (root @ meta_segments (key_segments k)) (sidecar mime)
        (map_set (root @ key_segments k) body (fs_files fs))"
proof -
  define segs where "segs = key_segments k"
  note shape = storage_key_segments [OF k, folded segs_def]
  note meta = meta_segments_shape [OF shape(3)]
  have slash: "\<forall>seg\<in>set segs. CHR ''/'' \<notin> set seg" using key_segments_slash by (simp add: segs_def)
  have meta_slash: "\<forall>seg\<in>set (meta_segments segs). CHR ''/'' \<notin> set seg"
    using slash shape(1) by (auto simp: meta_segments_def dest: in_set_butlastD)
  obtain fs1 where fs1: "mkdir (root @ butlast segs) fs = Inr fs1" "local_inv root fs1" "fs_files fs1 = fs_files fs"
    "root @ butlast segs \<in> set (fs_dirs fs1)"
    using mkdir_key [OF inv k] unfolding segs_def by blast
  define fs2 where "fs2 = fs1\<lparr>fs_files := map_set (root @ segs) body (fs_files fs1)\<rparr>"
  have fs2: "writeFile (root @ segs) body fs1 = Inr fs2" "local_inv root fs2"
    using write_file [OF fs1(2) shape(3,2) slash fs1(4)] unfolding fs2_def by blast+
  define fs3 where "fs3 = fs2\<lparr>fs_files := map_set (root @ meta_segments segs) (sidecar mime) (fs_files fs2)\<rparr>"
  have fs3: "writeFile (root @ meta_segments segs) (sidecar mime) fs2 = Inr fs3" "local_inv root fs3"
    using write_file [OF fs2(2), of "meta_segments segs"] shape meta meta_slash fs1(4) unfolding fs3_def
    by (simp_all add: fs2_def)
  have "local_put root k body mime fs = (Inr \<lparr>om_key = k, om_sizeBytes = length body, om_mimeType = mime\<rparr>, fs3)"
    using local_inv_key(2) [OF inv k] fs1(1) fs2(1) fs3(1) shape(1)
    by (simp add: local_put_def segs_def [symmetric] butlast_append metaPath_below)
  then show ?thesis using fs3(2) fs1(3) by (simp add: fs3_def fs2_def segs_def)
qed

lemma local_delete_effect:
  assumes inv: "local_inv root fs" and k: "storage_key k"
  shows "\<exists>fs'. local_delete root k fs = (Inr (map_get (fs_files fs) (root @ key_segments k) \<noteq> None), fs') \<and> local_inv root fs'
    \<and> (fs_files fs' = map_delete (root @ meta_segments (key_segments k)) (map_delete (root @ key_segments k) (fs_files fs))
       \<or> map_get (fs_files fs) (root @ key_segments k) = None \<and> fs' = fs)"
proof (cases "map_get (fs_files fs) (root @ key_segments k) = None")
  case True
  then show ?thesis using local_inv_key [OF inv k] inv by (simp add: local_delete_def)
next
  case False
  note shape = storage_key_segments [OF k]
  note meta = meta_segments_shape [OF shape(3)]
  have "meta_segments (key_segments k) \<noteq> []" by (simp add: meta_segments_def)
  then have "root @ meta_segments (key_segments k) \<notin> set (fs_dirs fs)"
    using inv shape meta unfolding local_inv_def by fastforce
  then have "local_delete root k fs = (Inr True, fs\<lparr>fs_files :=
      map_delete (root @ meta_segments (key_segments k)) (map_delete (root @ key_segments k) (fs_files fs))\<rparr>)"
    using local_inv_key [OF inv k] False shape(1) by (simp add: local_delete_def rm_force_def metaPath_below)
  moreover have "local_inv root (fs\<lparr>fs_files := map_delete p (map_delete q (fs_files fs))\<rparr>)" for p q
    using inv by (simp add: local_inv_def map_get_delete)
  ultimately show ?thesis using False by simp
qed

lemma local_list_keys:
  assumes inv: "local_inv root fs" and k: "storage_key k"
  shows "k \<in> set (local_list root pre fs) \<longleftrightarrow> startsWith k pre \<and> map_get (fs_files fs) (root @ key_segments k) \<noteq> None"
proof -
  have "k \<in> set (walk_keys root fs) \<longleftrightarrow> map_get (fs_files fs) (root @ key_segments k) \<noteq> None"
  proof
    assume "k \<in> set (walk_keys root fs)"
    then obtain p where p: "p \<in> fst ` set (fs_files fs)" "startsWith p root" "k = join ''/'' (relative_segments root p)"
      unfolding walk_keys_def by force
    then obtain segs where segs: "p = root @ segs" by (auto simp: startsWith_iff)
    with p have stored: "root @ segs \<in> fst ` set (fs_files fs)" and k_eq: "k = join ''/'' segs" by simp_all
    from stored have "map_get (fs_files fs) (root @ segs) \<noteq> None" unfolding map_get_in .
    moreover from this have "segs \<noteq> []" "\<forall>seg\<in>set segs. CHR ''/'' \<notin> set seg" using inv by (auto simp: local_inv_def)
    then have "key_segments k = segs" unfolding k_eq key_segments_def by (rule split_on_join)
    ultimately show "map_get (fs_files fs) (root @ key_segments k) \<noteq> None" by simp
  next
    assume "map_get (fs_files fs) (root @ key_segments k) \<noteq> None"
    then have "root @ key_segments k \<in> fst ` set (fs_files fs)" unfolding map_get_in .
    then have "join ''/'' (relative_segments root (root @ key_segments k)) \<in> set (walk_keys root fs)"
      unfolding walk_keys_def set_map set_filter by (intro imageI) (auto simp: startsWith_iff)
    then show "k \<in> set (walk_keys root fs)" by (simp add: key_segments_def join_split_on)
  qed
  then show ?thesis using k by (auto simp: local_list_def storage_key_def)
qed

interpretation local_fs: blob_store "local_put root" "local_get root" "local_delete root" "local_list root" "local_inv root"
  for root
proof unfold_locales
  fix k k' body mime e pre and s :: file_system
  assume k: "storage_key k" and inv: "local_inv root s"
  note put = local_put_effect [OF inv k, of body mime] and del = local_delete_effect [OF inv k]
  have meta: "root @ meta_segments (key_segments k) \<noteq> root @ key_segments j" if "storage_key j" for j
    using meta_not_key [OF that] by simp
  show "fst (local_put root k body mime s) = Inr \<lparr>om_key = k, om_sizeBytes = length body, om_mimeType = mime\<rparr>
      \<and> local_inv root (snd (local_put root k body mime s))"
    using put by auto
  show "fst (local_delete root k s) = Inr (\<not> isl (local_get root k s)) \<and> local_inv root (snd (local_delete root k s))"
    using del local_get_view [OF inv k] by (auto split: option.split)
  show "local_get root k s = Inl e \<Longrightarrow> e = ObjectNotFound k"
    by (simp add: local_get_view [OF inv k] split: option.splits)
  show "k \<in> set (local_list root pre s) \<longleftrightarrow> startsWith k pre \<and> \<not> isl (local_get root k s)"
    by (simp add: local_list_keys [OF inv k] local_get_view [OF inv k] split: option.split)
  assume k': "storage_key k'"
  from put obtain fs' where fs': "snd (local_put root k body mime s) = fs'" "local_inv root fs'"
    "fs_files fs' = map_set (root @ meta_segments (key_segments k)) (sidecar mime) (map_set (root @ key_segments k) body (fs_files s))"
    by auto
  show "local_get root k' (snd (local_put root k body mime s)) = (if k' = k then Inr body else local_get root k' s)"
    using meta [OF k'] by (simp add: fs'(1,3) local_get_view [OF fs'(2) k'] local_get_view [OF inv k'] map_get_set key_segments_inj)
  from del obtain fs'' where del': "snd (local_delete root k s) = fs''" "local_inv root fs''"
    "fs_files fs'' = map_delete (root @ meta_segments (key_segments k)) (map_delete (root @ key_segments k) (fs_files s))
       \<or> map_get (fs_files s) (root @ key_segments k) = None \<and> fs'' = s"
    by auto
  show "local_get root k' (snd (local_delete root k s)) = (if k' = k then Inl (ObjectNotFound k) else local_get root k' s)"
    using del'(3) meta [OF k']
    by (auto simp: del'(1) local_get_view [OF del'(2) k'] local_get_view [OF inv k'] map_get_delete key_segments_inj)
qed

section \<open>What the storage guarantees\<close>

text \<open>A history of writes and deletions, run on a store and on a map.\<close>

datatype store_op = StorePut string buffer string | StoreDelete string

fun op_key :: "store_op \<Rightarrow> string" where
  "op_key (StorePut k body mime) = k"
| "op_key (StoreDelete k) = k"

fun run_store ::
  "(string \<Rightarrow> buffer \<Rightarrow> string \<Rightarrow> 's \<Rightarrow> (store_error + object_metadata) \<times> 's) \<Rightarrow>
   (string \<Rightarrow> 's \<Rightarrow> (store_error + bool) \<times> 's) \<Rightarrow> store_op list \<Rightarrow> 's \<Rightarrow> 's" where
  "run_store put del [] s = s"
| "run_store put del (StorePut k body mime # ops) s = run_store put del ops (snd (put k body mime s))"
| "run_store put del (StoreDelete k # ops) s = run_store put del ops (snd (del k s))"

fun run_map :: "store_op list \<Rightarrow> (string \<rightharpoonup> buffer) \<Rightarrow> (string \<rightharpoonup> buffer)" where
  "run_map [] m = m"
| "run_map (StorePut k body mime # ops) m = run_map ops (m(k \<mapsto> body))"
| "run_map (StoreDelete k # ops) m = run_map ops (m(k := None))"

definition answer :: "string \<Rightarrow> buffer option \<Rightarrow> store_error + buffer" where
  "answer k v = (case v of None \<Rightarrow> Inl (ObjectNotFound k) | Some body \<Rightarrow> Inr body)"

context blob_store
begin

lemma run_refines:
  assumes "list_all (\<lambda>c. storage_key (op_key c)) ops" "inv s" "\<And>j. storage_key j \<Longrightarrow> get j s = answer j (m j)" "storage_key k"
  shows "get k (run_store put delete ops s) = answer k (run_map ops m k)"
  using assms(1-3)
proof (induction ops arbitrary: s m)
  case Nil
  then show ?case using assms(4) by simp
next
  case (Cons c ops)
  show ?case
  proof (cases c)
    case (StorePut j body mime)
    then have j: "storage_key j" and ops: "list_all (\<lambda>c. storage_key (op_key c)) ops" using Cons.prems(1) by simp_all
    have "get k (run_store put delete ops (snd (put j body mime s))) = answer k (run_map ops (m(j \<mapsto> body)) k)"
      by (rule Cons.IH [OF ops]) (use j put_total get_put Cons.prems(2,3) in \<open>simp_all add: answer_def\<close>)
    then show ?thesis by (simp add: StorePut)
  next
    case (StoreDelete j)
    then have j: "storage_key j" and ops: "list_all (\<lambda>c. storage_key (op_key c)) ops" using Cons.prems(1) by simp_all
    have "get k (run_store put delete ops (snd (delete j s))) = answer k (run_map ops (m(j := None)) k)"
      by (rule Cons.IH [OF ops]) (use j delete_total get_delete Cons.prems(2,3) in \<open>simp_all add: answer_def\<close>)
    then show ?thesis by (simp add: StoreDelete)
  qed
qed

end

definition fresh_files :: "string list \<Rightarrow> file_system" where
  "fresh_files root = \<lparr>fs_files = [], fs_dirs = [root]\<rparr>"

lemma fresh_files_inv: "list_all plain_segment root \<Longrightarrow> local_inv root (fresh_files root)"
  by (simp add: local_inv_def fresh_files_def)

definition sample_ops :: "store_op list" where
  "sample_ops = [StorePut ''t/_root/f-a.png'' [1, 2] ''image/png'', StorePut ''_tus/u'' [] ''a/b'', StoreDelete ''_tus/u'',
     StorePut ''t/_root/f-a.png'' [3] ''image/png'']"

text \<open>C11: The three backends are interchangeable.  After any history of writes and deletions under the keys the server builds,
  reading gives on the memory adapter, on the blob table of any tenant and on the file system the answer of a map
  from keys to contents: the bytes last written, or the error for a key that was never written or is deleted.\<close>

theorem adapters_are_maps:
  assumes "list_all (\<lambda>c. storage_key (op_key c)) ops" and "storage_key k" and "list_all plain_segment root"
  shows "memory_get k (run_store memory_put memory_delete ops []) = answer k (run_map ops Map.empty k)
    \<and> postgres_get tenant k (run_store (postgres_put tenant) (postgres_delete tenant) ops []) = answer k (run_map ops Map.empty k)
    \<and> local_get root k (run_store (local_put root) (local_delete root) ops (fresh_files root)) = answer k (run_map ops Map.empty k)"
proof (intro conjI)
  show "memory_get k (run_store memory_put memory_delete ops []) = answer k (run_map ops Map.empty k)"
    by (rule memory.run_refines [OF assms(1) _ _ assms(2)]) (simp_all add: memory_get_def answer_def)
  show "postgres_get tenant k (run_store (postgres_put tenant) (postgres_delete tenant) ops []) = answer k (run_map ops Map.empty k)"
    by (rule postgres.run_refines [OF assms(1) _ _ assms(2)]) (simp_all add: postgres_get_def findByKey_def answer_def)
  show "local_get root k (run_store (local_put root) (local_delete root) ops (fresh_files root)) = answer k (run_map ops Map.empty k)"
    by (rule local_fs.run_refines [OF assms(1) fresh_files_inv [OF assms(3)] _ assms(2)])
      (simp add: local_get_view [OF fresh_files_inv [OF assms(3)]] answer_def, simp add: fresh_files_def)
qed

theorem adapters_are_maps_witness:
  "local_get [''srv'', ''data''] ''t/_root/f-a.png''
     (run_store (local_put [''srv'', ''data'']) (local_delete [''srv'', ''data'']) sample_ops (fresh_files [''srv'', ''data''])) = Inr [3]"
proof -
  have "list_all (\<lambda>c. storage_key (op_key c)) sample_ops" "storage_key ''t/_root/f-a.png''"
    "list_all plain_segment [''srv'', ''data'']"
    by code_simp+
  from adapters_are_maps [OF this, of "''tenant''"] show ?thesis by (simp add: sample_ops_def answer_def)
qed

lemma mkdir_files: "mkdir q fs = Inr fs1 \<Longrightarrow> fs_files fs1 = fs_files fs \<and> set (fs_dirs fs) \<subseteq> set (fs_dirs fs1)"
  by (auto simp: mkdir_def Let_def split: if_splits)

lemma writeFile_other: "writeFile q body fs = Inr fs1 \<Longrightarrow> p \<noteq> q \<Longrightarrow> map_get (fs_files fs1) p = map_get (fs_files fs) p"
  by (auto simp: writeFile_def map_get_set split: if_splits)

lemma rm_other: "rm_force q fs = Inr fs1 \<Longrightarrow> p \<noteq> q \<Longrightarrow> map_get (fs_files fs1) p = map_get (fs_files fs) p"
  by (auto simp: rm_force_def map_get_delete split: if_splits)

lemma put_elsewhere:
  assumes "resolveSafe root key = Inr q" "p \<noteq> q" "p \<noteq> metaPath q"
  shows "map_get (fs_files (snd (local_put root key body mime fs))) p = map_get (fs_files fs) p"
  using assms
  by (simp add: local_put_def split: sum.split) (metis mkdir_files writeFile_other)

lemma delete_elsewhere:
  assumes "resolveSafe root key = Inr q" "p \<noteq> q" "p \<noteq> metaPath q"
  shows "map_get (fs_files (snd (local_delete root key fs))) p = map_get (fs_files fs) p"
  using assms
  by (simp add: local_delete_def split: sum.split) (metis rm_other)

text \<open>C12: No key leaves the storage directory.  Whatever key a caller passes, with dot segments, slashes or an absolute path, once
  the root directory exists neither writing nor deleting touches a file that is not strictly below it.\<close>

theorem local_stays_below_root:
  assumes root: "list_all plain_segment root" "root \<in> set (fs_dirs fs)" and outside: "\<not> (startsWith p root \<and> p \<noteq> root)"
  shows "map_get (fs_files (snd (local_put root key body mime fs))) p = map_get (fs_files fs) p
    \<and> map_get (fs_files (snd (local_delete root key fs))) p = map_get (fs_files fs) p"
proof (cases "resolveSafe root key")
  case (Inl e)
  then show ?thesis by (simp add: local_put_def local_delete_def)
next
  case (Inr q)
  then obtain segs where q: "q = root @ segs" using resolve_below root(1) by blast
  show ?thesis
  proof (cases "segs = []")
    case True
    have blocked: "writeFile root b fs1 = Inl (FileSystem ''EISDIR'')" "fs_files fs1 = fs_files fs"
      if "mkdir (butlast root) fs = Inr fs1" for b fs1
      using mkdir_files [OF that] root(2) by (auto simp: writeFile_def)
    show ?thesis
    proof (cases "mkdir (butlast root) fs")
      case (Inr fs1)
      then show ?thesis using \<open>resolveSafe root key = Inr q\<close> root(2) blocked [OF Inr]
        by (simp add: local_put_def local_delete_def q True rm_force_def)
    qed (use \<open>resolveSafe root key = Inr q\<close> root(2) in \<open>simp add: local_put_def local_delete_def q True rm_force_def\<close>)
  next
    case False
    have "p \<noteq> q" "p \<noteq> metaPath q"
      using outside False by (auto simp: q metaPath_below meta_segments_def startsWith_iff)
    then show ?thesis using put_elsewhere [OF Inr] delete_elsewhere [OF Inr] by blast
  qed
qed

theorem local_stays_below_root_witness:
  "map_get (fs_files (snd (local_delete [''srv'', ''data''] ''a/../../etc/passwd''
     \<lparr>fs_files = [([''srv'', ''etc'', ''passwd''], [7])], fs_dirs = [[''srv'', ''data'']]\<rparr>))) [''srv'', ''etc'', ''passwd''] = Some [7]"
proof -
  let ?fs = "\<lparr>fs_files = [([''srv'', ''etc'', ''passwd''], [7])], fs_dirs = [[''srv'', ''data'']]\<rparr>"
  have "list_all plain_segment [''srv'', ''data'']" by code_simp
  then show ?thesis
    using local_stays_below_root [of "[''srv'', ''data'']" ?fs "[''srv'', ''etc'', ''passwd'']" "''a/../../etc/passwd''"]
    by (simp add: startsWith_def)
qed

section \<open>What the key layout guarantees\<close>

definition id_segment :: "string \<Rightarrow> bool" where
  "id_segment s \<longleftrightarrow> s \<noteq> [] \<and> CHR ''/'' \<notin> set s \<and> CHR ''.'' \<notin> set s"

lemma split_on_two: "split_on c (x @ c # y) = split_on c x @ split_on c y"
proof (induction x)
  case (Cons d x)
  then show ?case by (cases "split_on c x") auto
qed simp

lemma last_in_last_segment: "x \<noteq> [] \<Longrightarrow> last x \<noteq> c \<Longrightarrow> last x \<in> set (last (split_on c x))"
proof (induction x)
  case (Cons d x)
  then show ?case by (cases x; cases "split_on c x") (auto split: if_splits list.splits)
qed simp

lemma dots_before_slash:
  assumes "str_includes k ''../''"
  shows "\<exists>seg\<in>set (butlast (key_segments k)). CHR ''.'' \<in> set seg"
proof -
  obtain a b where "k = (a @ ''..'') @ CHR ''/'' # b" using assms by (auto simp: str_includes_iff)
  then have segs: "key_segments k = split_on (CHR ''/'') (a @ ''..'') @ split_on (CHR ''/'') b"
    unfolding key_segments_def by (simp only: split_on_two)
  have "CHR ''.'' \<in> set (last (split_on (CHR ''/'') (a @ ''..'')))"
    using last_in_last_segment [of "a @ ''..''" "CHR ''/''"] by simp
  moreover have "last (split_on (CHR ''/'') (a @ ''..'')) \<in> set (butlast (key_segments k))"
    unfolding segs by (simp add: butlast_append)
  ultimately show ?thesis by blast
qed

lemma sanitised_name:
  assumes "sanitiseFilename filename = Inr clean"
  shows "clean \<noteq> []" "CHR ''/'' \<notin> set clean"
proof -
  have "\<not> key_safe (CHR ''/'')" by code_simp
  then show "clean \<noteq> []" "CHR ''/'' \<notin> set clean"
    using assms by (auto simp: sanitiseFilename_def Let_def split: if_splits)
qed

lemma sanitise_error:
  assumes "sanitiseFilename filename = Inl e" "filename \<noteq> []"
  shows "e = FilenameEmpty
    \<and> list_all (\<lambda>seg. seg \<in> {[], ''..''}) (split_on (CHR ''/'') (map (\<lambda>c. if c = CHR 0x5C then CHR ''/'' else c) filename))"
proof -
  define segs where "segs = filter (\<lambda>seg. length seg > 0 \<and> seg \<noteq> ''..'')
    (split_on (CHR ''/'') (map (\<lambda>c. if c = CHR 0x5C then CHR ''/'' else c) filename))"
  have e: "e = FilenameEmpty" and "join ''-'' segs = []"
    using assms unfolding sanitiseFilename_def Let_def segs_def [symmetric] by (simp_all split: if_splits)
  moreover have "seg \<noteq> []" if "seg \<in> set segs" for seg using that by (auto simp: segs_def)
  ultimately have "segs = []" by (cases segs; cases "tl segs") auto
  with e show ?thesis unfolding segs_def by (auto simp: filter_empty_conv list_all_iff)
qed

text \<open>C36: A file stays in the directory of its tenant and folder.  For identifiers without slashes and dots, every file name
  gives a key of three segments, the tenant, the folder and a name that begins with the file's identifier, and the local
  adapter resolves it to exactly these segments below its root; the only names refused are made of
  separators and \<open>..\<close> alone.\<close>

theorem storage_path_confined:
  assumes ids: "id_segment tenantId" "id_segment fileId" "id_segment (nullish folderId ROOT_SEGMENT)"
    and "filename \<noteq> []" and root: "list_all plain_segment root"
  shows "case resolveStoragePath tenantId folderId fileId filename of
      Inl e \<Rightarrow> e = FilenameEmpty
        \<and> list_all (\<lambda>seg. seg \<in> {[], ''..''}) (split_on (CHR ''/'') (map (\<lambda>c. if c = CHR 0x5C then CHR ''/'' else c) filename))
    | Inr key \<Rightarrow> \<exists>clean. key_segments key = [tenantId, nullish folderId ROOT_SEGMENT, fileId @ ''-'' @ clean]
        \<and> resolveSafe root key = Inr (root @ key_segments key)"
proof (cases "sanitiseFilename filename")
  case (Inl e)
  then show ?thesis using sanitise_error [OF Inl] assms by (simp add: resolveStoragePath_def id_segment_def)
next
  case (Inr clean)
  note clean = sanitised_name [OF Inr]
  let ?folder = "nullish folderId ROOT_SEGMENT"
  define key where "key = tenantId @ ''/'' @ ?folder @ ''/'' @ fileId @ ''-'' @ clean"
  have segs: "key_segments key = [tenantId, ?folder, fileId @ ''-'' @ clean]"
    using ids clean unfolding key_def key_segments_def
    by (simp add: split_on_append_sep split_on_no_sep id_segment_def)
  have "plain_segment s" if "id_segment s" for s
    using that by (auto simp: id_segment_def plain_segment_def)
  moreover have "plain_segment (fileId @ ''-'' @ clean)"
    using ids(2) clean(1) by (cases fileId) (auto simp: id_segment_def plain_segment_def)
  moreover have "\<not> startsWith key ''..''"
    using ids(1) by (cases tenantId) (auto simp: key_def id_segment_def startsWith_def)
  moreover have "\<not> str_includes key ''../''"
    using dots_before_slash [of key] ids by (auto simp: segs id_segment_def)
  ultimately have "clean_key key" using ids by (simp add: clean_key_def segs)
  then have "resolveSafe root key = Inr (root @ key_segments key)" using root by (rule resolve_clean_key)
  moreover have "resolveStoragePath tenantId folderId fileId filename = Inr key"
    using Inr assms(4) ids by (simp add: resolveStoragePath_def key_def id_segment_def)
  ultimately show ?thesis using segs by simp
qed

theorem storage_path_confined_witness:
  "\<exists>clean. key_segments ''t1/_root/f1-a-etc-passwd'' = [''t1'', ''_root'', ''f1'' @ ''-'' @ clean]
     \<and> resolveSafe [''srv''] ''t1/_root/f1-a-etc-passwd'' = Inr ([''srv''] @ key_segments ''t1/_root/f1-a-etc-passwd'')"
proof -
  have "resolveStoragePath ''t1'' None ''f1'' ''a/../../etc/passwd'' = Inr ''t1/_root/f1-a-etc-passwd''"
    "id_segment ''t1''" "id_segment ''f1''" "id_segment (nullish None ROOT_SEGMENT)" "list_all plain_segment [''srv'']"
    by code_simp+
  then show ?thesis using storage_path_confined [of "''t1''" "''f1''" None "''a/../../etc/passwd''" "[''srv'']"] by (simp add: ROOT_SEGMENT_def)
qed

text \<open>The folder is not checked: a folder \<open>../t2/_root\<close> puts the bytes of tenant \<open>t1\<close> into the directory of
  tenant \<open>t2\<close>.\<close>

theorem folder_escapes_tenant:
  "map_sum id (resolveSafe [''srv'']) (resolveStoragePath ''t1'' (Some ''../t2/_root'') ''f1'' ''a.txt'')
     = Inr (Inr [''srv'', ''t2'', ''_root'', ''f1-a.txt''])"
  by code_simp

text \<open>On a fresh server, where the root does not exist yet, the key \<open>.\<close> turns the root into a file and writes its
  sidecar beside it.\<close>

theorem dot_key_replaces_root:
  "map fst (fs_files (snd (local_put [''srv'', ''data''] ''.'' [1] ''a/b'' \<lparr>fs_files = [], fs_dirs = [[], [''srv'']]\<rparr>)))
     = [[''srv'', ''data''], [''srv'', ''data.meta.json'']]"
  by code_simp

end
