(* ===== verification/Upload_Screening.thy ===== *)
theory Upload_Screening
  imports File_Storage
begin

text \<open>
  What uploads are checked against: the magic-byte sniffer (\<open>src/core/files/magic-byte-sniffer.ts\<close>), the list of allowed
  types (\<open>tus-file-type-validation.ts\<close>), and the virus scan: the wire protocol of ClamAV
  (\<open>clamav-protocol.ts\<close>), the scanner (\<open>clamav-scanner.ts\<close>) and what follows from its verdict (\<open>file-scanner.ts\<close>).
\<close>

section \<open>Decoding text\<close>

text \<open>\<open>TextDecoder("utf-8", { fatal: false })\<close>: a malformed sequence becomes U+FFFD, a leading byte-order mark is dropped.
  A lead byte fixes how many bytes follow, the bounds of the first of them, and its own bits.\<close>

definition utf8_lead :: "nat \<Rightarrow> (nat \<times> nat \<times> nat \<times> nat) option" where
  "utf8_lead b =
     (if 0xC2 \<le> b \<and> b \<le> 0xDF then Some (1, 0x80, 0xBF, b - 0xC0)
      else if b = 0xE0 then Some (2, 0xA0, 0xBF, 0)
      else if b = 0xED then Some (2, 0x80, 0x9F, 0xD)
      else if 0xE1 \<le> b \<and> b \<le> 0xEF then Some (2, 0x80, 0xBF, b - 0xE0)
      else if b = 0xF0 then Some (3, 0x90, 0xBF, 0)
      else if b = 0xF4 then Some (3, 0x80, 0x8F, 4)
      else if 0xF1 \<le> b \<and> b \<le> 0xF3 then Some (3, 0x80, 0xBF, b - 0xF0)
      else None)"

text \<open>The continuation bytes; the second component is what is left to read.\<close>

fun utf8_tail :: "nat \<Rightarrow> nat \<Rightarrow> nat \<Rightarrow> nat \<Rightarrow> nat list \<Rightarrow> nat \<times> nat list" where
  "utf8_tail 0 lo hi cp bs = (cp, bs)"
| "utf8_tail (Suc n) lo hi cp [] = (0xFFFD, [])"
| "utf8_tail (Suc n) lo hi cp (b # bs) =
     (if lo \<le> b \<and> b \<le> hi then utf8_tail n 0x80 0xBF (cp * 64 + (b - 0x80)) bs else (0xFFFD, b # bs))"

lemma utf8_tail_length: "length (snd (utf8_tail n lo hi cp bs)) \<le> length bs"
  by (induction n lo hi cp bs rule: utf8_tail.induct) auto

function decode_lossy :: "nat list \<Rightarrow> nat list" where
  "decode_lossy [] = []"
| "decode_lossy (b # bs) =
     (if b < 0x80 then b # decode_lossy bs
      else case utf8_lead b of
             None \<Rightarrow> 0xFFFD # decode_lossy bs
           | Some (n, lo, hi, bits) \<Rightarrow> fst (utf8_tail n lo hi bits bs) # decode_lossy (snd (utf8_tail n lo hi bits bs)))"
  by pat_completeness auto
termination by (relation "measure length") (simp_all add: le_imp_less_Suc utf8_tail_length)

definition text_decode :: "buffer \<Rightarrow> nat list" where
  "text_decode bytes =
     (let cps = decode_lossy (map unat bytes) in if cps \<noteq> [] \<and> hd cps = 0xFEFF then tl cps else cps)"

text \<open>White space and line terminators of JavaScript: what \<open>trim\<close> removes and \<open>\s\<close> matches.\<close>

definition js_space :: "nat \<Rightarrow> bool" where
  "js_space n \<longleftrightarrow> 9 \<le> n \<and> n \<le> 13 \<or> 0x2000 \<le> n \<and> n \<le> 0x200A
     \<or> n \<in> {0x20, 0xA0, 0x1680, 0x2028, 0x2029, 0x202F, 0x205F, 0x3000, 0xFEFF}"

definition trim_text :: "nat list \<Rightarrow> nat list" where
  "trim_text t = rev (dropWhile js_space (rev (dropWhile js_space t)))"

section \<open>The sniffer\<close>

record magic_signature =
  sg_name :: string
  sg_mime :: string
  sg_bytes :: "nat option list"
  sg_offset :: "nat option"

definition magic :: "string \<Rightarrow> string \<Rightarrow> nat option list \<Rightarrow> magic_signature" where
  "magic name mime bytes = \<lparr>sg_name = name, sg_mime = mime, sg_bytes = bytes, sg_offset = None\<rparr>"

definition SIGNATURES :: "magic_signature list" where
  "SIGNATURES =
     [magic ''png'' ''image/png'' (map Some [0x89, 0x50, 0x4e, 0x47, 0x0d, 0x0a, 0x1a, 0x0a]),
      magic ''jpeg'' ''image/jpeg'' (map Some [0xff, 0xd8, 0xff]),
      magic ''gif87a'' ''image/gif'' (map Some [0x47, 0x49, 0x46, 0x38, 0x37, 0x61]),
      magic ''gif89a'' ''image/gif'' (map Some [0x47, 0x49, 0x46, 0x38, 0x39, 0x61]),
      magic ''webp'' ''image/webp''
        (map Some [0x52, 0x49, 0x46, 0x46] @ [None, None, None, None] @ map Some [0x57, 0x45, 0x42, 0x50]),
      magic ''pdf'' ''application/pdf'' (map Some [0x25, 0x50, 0x44, 0x46, 0x2d]),
      magic ''zip'' ''application/zip'' (map Some [0x50, 0x4b, 0x03, 0x04]),
      magic ''mp4'' ''video/mp4''
        ([None, None, None, None] @ map Some [0x66, 0x74, 0x79, 0x70, 0x69, 0x73, 0x6f, 0x6d]),
      magic ''mp4-mp42'' ''video/mp4''
        ([None, None, None, None] @ map Some [0x66, 0x74, 0x79, 0x70, 0x6d, 0x70, 0x34, 0x32]),
      magic ''webm'' ''video/webm'' (map Some [0x1a, 0x45, 0xdf, 0xa3]),
      magic ''avif'' ''image/avif''
        ([None, None, None, None] @ map Some [0x66, 0x74, 0x79, 0x70, 0x61, 0x76, 0x69, 0x66])]"

definition codes :: "string \<Rightarrow> nat list" where
  "codes s = map of_char s"

definition fold_case :: "nat \<Rightarrow> nat" where
  "fold_case n = (if 65 \<le> n \<and> n \<le> 90 then n + 32 else n)"

text \<open>\<open>/^<svg[\s>]/i\<close>, and the same tag anywhere in the rest.\<close>

definition svg_tag :: "nat list \<Rightarrow> bool" where
  "svg_tag t \<longleftrightarrow> map fold_case (take 4 t) = codes ''<svg'' \<and> 4 < length t \<and> (js_space (t ! 4) \<or> t ! 4 = 62)"

fun svg_tag_within :: "nat list \<Rightarrow> bool" where
  "svg_tag_within [] = False"
| "svg_tag_within (c # t) = (svg_tag (c # t) \<or> svg_tag_within t)"

definition svg_text :: "nat list \<Rightarrow> bool" where
  "svg_text t \<longleftrightarrow> map fold_case (take 5 t) = codes ''<?xml'' \<and> svg_tag_within (drop 5 t) \<or> svg_tag t"

definition signature_matches :: "magic_signature \<Rightarrow> buffer \<Rightarrow> bool" where
  "signature_matches sig bytes =
     (let offset = nullish (sg_offset sig) 0
      in length bytes \<ge> offset + length (sg_bytes sig)
         \<and> list_all (\<lambda>(expected, b). case expected of None \<Rightarrow> True | Some v \<Rightarrow> unat b = v) (zip (sg_bytes sig) (drop offset bytes)))"

definition sniffs_as_svg :: "buffer \<Rightarrow> bool" where
  "sniffs_as_svg bytes = svg_text (trim_text (text_decode (take 256 bytes)))"

text \<open>\<open>Some (mimeType, format)\<close>, or \<open>None\<close> for two nulls.\<close>

definition sniffMagicBytes :: "buffer \<Rightarrow> (string \<times> string) option" where
  "sniffMagicBytes bytes =
     (if length bytes = 0 then None
      else if sniffs_as_svg bytes then Some (''image/svg+xml'', ''svg'')
      else map_option (\<lambda>sig. (sg_mime sig, sg_name sig)) (find_first (\<lambda>sig. signature_matches sig bytes) SIGNATURES))"

record mime_match =
  mm_ok :: bool
  mm_sniffed :: "string option"
  mm_claimed :: string

definition checkSniffedMimeMatchesClaim :: "buffer \<Rightarrow> string \<Rightarrow> mime_match" where
  "checkSniffedMimeMatchesClaim bytes claimed =
     (case map_option fst (sniffMagicBytes bytes) of
        None \<Rightarrow> \<lparr>mm_ok = True, mm_sniffed = None, mm_claimed = claimed\<rparr>
      | Some sniffed \<Rightarrow>
          \<lparr>mm_ok = (trim (hd (split_on (CHR '';'') (toLowerCase claimed))) = toLowerCase sniffed),
           mm_sniffed = Some sniffed, mm_claimed = claimed\<rparr>)"

section \<open>Allowed types\<close>

definition mime_char :: "char \<Rightarrow> bool" where
  "mime_char c \<longleftrightarrow> is_letter c \<or> is_digit c \<or> c \<in> set ''!#$%&*+-.^_`|~'' \<or> c = CHR 0x27"

text \<open>\<open>MIME_RE\<close>: two non-empty runs of these characters around a slash.\<close>

definition mime_parts :: "string \<Rightarrow> (string \<times> string) option" where
  "mime_parts s = (case split_on (CHR ''/'') s of
     [a, b] \<Rightarrow> if a \<noteq> [] \<and> b \<noteq> [] \<and> list_all mime_char a \<and> list_all mime_char b then Some (a, b) else None
   | _ \<Rightarrow> None)"

definition entry_allows :: "string \<times> string \<Rightarrow> string \<Rightarrow> bool" where
  "entry_allows input entry = (case mime_parts (toLowerCase entry) of
     None \<Rightarrow> False
   | Some (allowType, allowSub) \<Rightarrow>
       (allowType = ''*'' \<or> allowType = fst input) \<and> (allowSub = ''*'' \<or> allowSub = snd input))"

definition isMimeTypeAllowed :: "string \<Rightarrow> string list \<Rightarrow> bool" where
  "isMimeTypeAllowed mimeType allowlist =
     (if allowlist = [] then True
      else if \<not> truthy mimeType then False
      else case mime_parts (toLowerCase mimeType) of
             None \<Rightarrow> False
           | Some input \<Rightarrow> list_ex (entry_allows input) allowlist)"

definition validateUploadFileType :: "string \<Rightarrow> string list \<Rightarrow> string + string" where
  "validateUploadFileType mimeType allowlist = (if \<not> isMimeTypeAllowed mimeType allowlist then Inl mimeType else Inr mimeType)"

section \<open>The virus scan\<close>

datatype scan_verdict = Clean | Infected | Indeterminate

datatype scan_disposition = Keep | Quarantine | Reject

datatype indeterminate_policy = RejectIndeterminate | KeepIndeterminate

definition planScanDisposition :: "scan_verdict \<Rightarrow> indeterminate_policy option \<Rightarrow> scan_disposition" where
  "planScanDisposition verdict policy = (case verdict of
     Clean \<Rightarrow> Keep
   | Infected \<Rightarrow> Quarantine
   | Indeterminate \<Rightarrow> if policy = Some RejectIndeterminate then Reject else Keep)"

definition MAX_CHUNK :: nat where
  "MAX_CHUNK = 64 * 1024"

definition big_endian :: "nat \<Rightarrow> buffer" where
  "big_endian v = rev (little_endian 4 v)"

function clamav_chunks :: "buffer \<Rightarrow> buffer list" where
  "clamav_chunks body =
     (if body = [] then []
      else let slice = take MAX_CHUNK body in (big_endian (length slice) @ slice) # clamav_chunks (drop MAX_CHUNK body))"
  by auto
termination by (relation "measure length") (simp_all add: MAX_CHUNK_def)

declare clamav_chunks.simps [simp del]

record clamav_frames =
  cf_command :: buffer
  cf_chunks :: "buffer list"
  cf_terminator :: buffer

definition buildClamavInstreamFrames :: "buffer \<Rightarrow> clamav_frames" where
  "buildClamavInstreamFrames body =
     \<lparr>cf_command = encode_name (''zINSTREAM'' @ [CHR 0x00]), cf_chunks = clamav_chunks body, cf_terminator = big_endian 0\<rparr>"

text \<open>\<open>/^(.+?)\s+FOUND$/\<close>: the shortest non-empty text before white space and the word.\<close>

definition found_name :: "string \<Rightarrow> string option" where
  "found_name body =
     (if \<not> endsWith body ''FOUND'' then None
      else let r = take (length body - 5) body;
               core = rev (dropWhile is_space (rev r));
               name = (if core = [] then take 1 r else core)
           in if name \<noteq> [] \<and> length name < length r \<and> list_all (\<lambda>c. c \<noteq> CHR 0x0A \<and> c \<noteq> CHR 0x0D) name
              then Some name else None)"

definition parseClamavReply :: "string \<Rightarrow> scan_verdict \<times> string option" where
  "parseClamavReply reply =
     (let trimmed = trim (rev (dropWhile (\<lambda>c. c = CHR 0x00) (rev reply)))
      in if \<not> truthy trimmed then (Indeterminate, None)
         else let body = (if startsWith trimmed ''stream:'' then dropWhile is_space (drop 7 trimmed) else trimmed)
              in if endsWith body '' OK'' \<or> body = ''OK'' then (Clean, None)
                 else case found_name body of
                        Some name \<Rightarrow> (Infected, Some name)
                      | None \<Rightarrow> (Indeterminate, None))"

text \<open>\<open>send\<close> is the exchange with the daemon: the reply, or a socket error.\<close>

definition clamav_scan :: "(buffer \<Rightarrow> string + string) \<Rightarrow> buffer \<Rightarrow> scan_verdict \<times> string option" where
  "clamav_scan send body = (case send body of
     Inl err \<Rightarrow> (Indeterminate, None)
   | Inr reply \<Rightarrow>
       (case parseClamavReply reply of
          (Infected, threatName) \<Rightarrow> (Infected, threatName)
        | (Indeterminate, _) \<Rightarrow> (Indeterminate, None)
        | (Clean, _) \<Rightarrow> (Clean, None)))"

definition noop_scan :: "buffer \<Rightarrow> scan_verdict \<times> string option" where
  "noop_scan body = (Clean, None)"

section \<open>What the checks guarantee\<close>

lemmas svg_simps = sniffs_as_svg_def text_decode_def svg_text_def trim_text_def js_space_def svg_tag_def codes_def
  fold_case_def utf8_lead_def

text \<open>Two patterns that fix different bytes at one position never match the same bytes.\<close>

definition conflict :: "magic_signature \<Rightarrow> magic_signature \<Rightarrow> bool" where
  "conflict s t \<longleftrightarrow> list_ex (\<lambda>(a, b). a \<noteq> None \<and> b \<noteq> None \<and> a \<noteq> b) (zip (sg_bytes s) (sg_bytes t))"

lemma conflict_excludes:
  assumes "conflict s t" "sg_offset s = None" "sg_offset t = None" "signature_matches s bytes"
  shows "\<not> signature_matches t bytes"
proof
  assume t: "signature_matches t bytes"
  from assms(1) obtain a b where ab: "(a, b) \<in> set (zip (sg_bytes s) (sg_bytes t))" "a \<noteq> None" "b \<noteq> None" "a \<noteq> b"
    by (auto simp: conflict_def list_ex_iff)
  then obtain i where "i < length (sg_bytes s)" "i < length (sg_bytes t)" "sg_bytes s ! i = a" "sg_bytes t ! i = b"
    by (auto simp: in_set_zip)
  with ab obtain x y where i: "i < length (sg_bytes s)" "i < length (sg_bytes t)"
    "sg_bytes s ! i = Some x" "sg_bytes t ! i = Some y" "x \<noteq> y" by fastforce
  have at: "unat (bytes ! i) = v"
    if "signature_matches u bytes" "sg_offset u = None" "i < length (sg_bytes u)" "sg_bytes u ! i = Some v" for u v
    using that by (fastforce simp: signature_matches_def Let_def list_all_length)
  show False using at [OF assms(4,2) i(1,3)] at [OF t assms(3) i(2,4)] i(5) by simp
qed

text \<open>The JPEG, ZIP and WebM signatures end before the brand of an MP4 or AVIF file begins, so one file can carry both.\<close>

definition short_signature :: "magic_signature \<Rightarrow> bool" where
  "short_signature s \<longleftrightarrow> sg_name s \<in> {''jpeg'', ''zip'', ''webm''}"

definition brand_signature :: "magic_signature \<Rightarrow> bool" where
  "brand_signature s \<longleftrightarrow> sg_name s \<in> {''mp4'', ''mp4-mp42'', ''avif''}"

definition polyglot :: "buffer \<Rightarrow> bool" where
  "polyglot bytes \<longleftrightarrow> list_ex (\<lambda>s. short_signature s \<and> signature_matches s bytes) SIGNATURES
     \<and> list_ex (\<lambda>s. brand_signature s \<and> signature_matches s bytes) SIGNATURES"

lemma signatures_conflict:
  "list_all (\<lambda>s. sg_offset s = None \<and> list_all (\<lambda>t. sg_mime s = sg_mime t \<or> conflict s t
     \<or> short_signature s \<and> brand_signature t \<or> brand_signature s \<and> short_signature t) SIGNATURES) SIGNATURES"
  by code_simp

text \<open>Which type a file has does not depend on the order of the signature table.  For bytes that do not read as SVG, and are no
  polyglot of a JPEG, ZIP or WebM head with an MP4 or AVIF brand, the sniffer answers a type exactly when some
  signature of that type matches.\<close>

theorem sniffer_is_order_free:
  assumes "bytes \<noteq> []" and "\<not> sniffs_as_svg bytes" and "\<not> polyglot bytes"
  shows "map_option fst (sniffMagicBytes bytes) = Some m \<longleftrightarrow> (\<exists>sig\<in>set SIGNATURES. sg_mime sig = m \<and> signature_matches sig bytes)"
proof -
  have sniff: "map_option fst (sniffMagicBytes bytes) = map_option sg_mime (find_first (\<lambda>sig. signature_matches sig bytes) SIGNATURES)"
    using assms by (simp add: sniffMagicBytes_def option.map_comp comp_def)
  have same: "sg_mime s = sg_mime t"
    if "s \<in> set SIGNATURES" "t \<in> set SIGNATURES" "signature_matches s bytes" "signature_matches t bytes" for s t
  proof -
    have "sg_offset s = None" "sg_offset t = None" "sg_mime s = sg_mime t \<or> conflict s t
       \<or> short_signature s \<and> brand_signature t \<or> brand_signature s \<and> short_signature t"
      using signatures_conflict that(1,2) unfolding list_all_iff by blast+
    then show ?thesis using that conflict_excludes assms(3) unfolding polyglot_def list_ex_iff by blast
  qed
  show ?thesis
  proof (cases "find_first (\<lambda>sig. signature_matches sig bytes) SIGNATURES")
    case None
    then show ?thesis using find_first_None [of "\<lambda>sig. signature_matches sig bytes" SIGNATURES] unfolding sniff by auto
  next
    case (Some s)
    then show ?thesis using find_first_Some [OF Some] same unfolding sniff by auto
  qed
qed

theorem sniffer_is_order_free_witness:
  "map_option fst (sniffMagicBytes [0, 0, 0, 28, 0x66, 0x74, 0x79, 0x70, 0x61, 0x76, 0x69, 0x66, 0]) = Some ''image/avif''"
proof -
  have "([0, 0, 0, 28, 0x66, 0x74, 0x79, 0x70, 0x61, 0x76, 0x69, 0x66, 0] :: buffer) \<noteq> []" by simp
  moreover have "\<not> sniffs_as_svg [0, 0, 0, 28, 0x66, 0x74, 0x79, 0x70, 0x61, 0x76, 0x69, 0x66, 0]"
    by (simp add: svg_simps)
  moreover have "\<exists>sig\<in>set SIGNATURES. sg_mime sig = ''image/avif'' \<and>
       signature_matches sig [0, 0, 0, 28, 0x66, 0x74, 0x79, 0x70, 0x61, 0x76, 0x69, 0x66, 0]"
    by (simp add: SIGNATURES_def magic_def signature_matches_def)
  moreover have "\<not> polyglot [0, 0, 0, 28, 0x66, 0x74, 0x79, 0x70, 0x61, 0x76, 0x69, 0x66, 0]"
    by (simp add: polyglot_def short_signature_def SIGNATURES_def magic_def signature_matches_def)
  ultimately show ?thesis using sniffer_is_order_free by blast
qed

text \<open>An executable (here its DOS header) has no signature, so it passes as any image.\<close>

theorem executable_passes_as_image:
  "mm_ok (checkSniffedMimeMatchesClaim [0x4D, 0x5A, 0x90, 0, 3, 0, 0, 0, 4, 0, 0, 0, 0xFF, 0xFF, 0, 0] ''image/png'')"
  by (simp add: checkSniffedMimeMatchesClaim_def sniffMagicBytes_def svg_simps SIGNATURES_def magic_def signature_matches_def)

text \<open>How the daemon reads a stream: sizes and chunks up to a chunk of size zero.\<close>

function read_instream :: "buffer \<Rightarrow> buffer option" where
  "read_instream bs =
     (if length bs < 4 then None
      else let n = number_of (rev (take 4 bs))
           in if n = 0 then Some []
              else map_option ((@) (take n (drop 4 bs))) (read_instream (drop (4 + n) bs)))"
  by auto
termination by (relation "measure length") auto

declare read_instream.simps [simp del]

lemma big_endian_size:
  assumes "n < 2 ^ 32"
  shows "length (big_endian n) = 4" "number_of (rev (big_endian n)) = n"
  using assms number_of_little_endian [of 4 n] by (simp_all add: big_endian_def)

lemma read_instream_frame:
  "length h = 4 \<Longrightarrow> number_of (rev h) = n \<Longrightarrow> 0 < n \<Longrightarrow> length c = n \<Longrightarrow>
   read_instream (h @ c @ rest) = map_option ((@) c) (read_instream rest)"
  by (simp add: read_instream.simps [of "h @ c @ rest"] Let_def)

text \<open>The scanner sees exactly the uploaded bytes.  Read back as the daemon reads it, the stream of chunks is the body, whatever its length,
  and no chunk is longer than 64 KiB.\<close>

theorem scan_stream_is_body:
  "read_instream (concat (cf_chunks (buildClamavInstreamFrames body)) @ cf_terminator (buildClamavInstreamFrames body)) = Some body
   \<and> list_all (\<lambda>chunk. length chunk \<le> 4 + MAX_CHUNK) (cf_chunks (buildClamavInstreamFrames body))"
proof -
  have "read_instream (concat (clamav_chunks body) @ big_endian 0) = Some body
     \<and> list_all (\<lambda>chunk. length chunk \<le> 4 + MAX_CHUNK) (clamav_chunks body)"
  proof (induction body rule: clamav_chunks.induct)
    case (1 body)
    show ?case
    proof (cases "body = []")
      case True
      then show ?thesis using big_endian_size [of 0] by (simp add: clamav_chunks.simps read_instream.simps)
    next
      case False
      define n where "n = length (take MAX_CHUNK body)"
      have n: "n < 2 ^ 32" "0 < n" "n \<le> MAX_CHUNK" using False by (simp_all add: n_def MAX_CHUNK_def)
      note size = big_endian_size [OF n(1)]
      have chunks: "clamav_chunks body = (big_endian n @ take MAX_CHUNK body) # clamav_chunks (drop MAX_CHUNK body)"
        using False by (simp add: clamav_chunks.simps [of body] Let_def n_def)
      have "read_instream (big_endian n @ take MAX_CHUNK body @ rest) = map_option ((@) (take MAX_CHUNK body)) (read_instream rest)" for rest
        by (rule read_instream_frame [OF size n(2)]) (simp add: n_def)
      then show ?thesis using "1.IH" [OF False] size n(3) unfolding chunks by (simp add: n_def)
    qed
  qed
  then show ?thesis by (simp add: buildClamavInstreamFrames_def)
qed

lemma includes_part: "str_includes b x \<Longrightarrow> str_includes (a @ b @ c) x"
  by (metis append_assoc str_includes_iff)

lemma trim_part: "\<exists>a c. s = a @ trim s @ c"
proof -
  have "s = takeWhile is_space s @ dropWhile is_space s" by simp
  also have "dropWhile is_space s = rev (dropWhile is_space (rev (dropWhile is_space s))) @ rev (takeWhile is_space (rev (dropWhile is_space s)))"
    by (metis rev_append rev_rev_ident takeWhile_dropWhile_id)
  finally show ?thesis unfolding trim_def by blast
qed

lemma clean_reply:
  assumes "fst (parseClamavReply reply) = Clean"
  shows "str_includes reply ''OK''"
proof -
  define cut where "cut = rev (dropWhile (\<lambda>c. c = CHR 0x00) (rev reply))"
  define body where "body = (if startsWith (trim cut) ''stream:'' then dropWhile is_space (drop 7 (trim cut)) else trim cut)"
  have "endsWith body '' OK'' \<or> body = ''OK''"
    using assms unfolding parseClamavReply_def Let_def cut_def [symmetric] body_def [symmetric]
    by (auto split: if_splits option.splits)
  then have "str_includes body ''OK''"
  proof
    assume "endsWith body '' OK''"
    then obtain r where "body = r @ '' OK''" by (auto simp: endsWith_iff)
    then have "body = (r @ '' '') @ ''OK'' @ []" by simp
    then show ?thesis unfolding str_includes_iff by blast
  next
    assume "body = ''OK''"
    then have "body = [] @ ''OK'' @ []" by simp
    then show ?thesis unfolding str_includes_iff by blast
  qed
  moreover have part: "\<exists>a c. trim cut = a @ body @ c"
  proof (cases "startsWith (trim cut) ''stream:''")
    case True
    then have body: "body = dropWhile is_space (drop 7 (trim cut))" by (simp add: body_def)
    have "trim cut = (take 7 (trim cut) @ takeWhile is_space (drop 7 (trim cut))) @ body @ []" unfolding body by simp
    then show ?thesis by blast
  next
    case False
    then have "trim cut = [] @ body @ []" by (simp add: body_def)
    then show ?thesis by blast
  qed
  ultimately have "str_includes (trim cut) ''OK''" using includes_part by metis
  then have cut: "str_includes cut ''OK''" using trim_part [of cut] includes_part by metis
  have "\<exists>c. reply = cut @ c"
    unfolding cut_def by (metis rev_append rev_rev_ident takeWhile_dropWhile_id)
  then show ?thesis using includes_part [OF cut, of "[]"] by auto
qed

text \<open>C33: An infected file is not kept and a failing scanner does not clear a file.  The reply \<open>stream: <name> FOUND\<close> leads to
  quarantine under every policy, with the name of the threat; a file is cleared only by a reply that ends in \<open>OK\<close>; a
  socket error or an error reply rejects the file if the policy says so.\<close>

theorem scan_verdicts_are_safe:
  assumes "name \<noteq> []" and "list_all (\<lambda>c. \<not> is_space c) name"
  shows "clamav_scan (\<lambda>_. Inr (''stream: '' @ name @ '' FOUND'' @ [CHR 0x00])) body = (Infected, Some name)
    \<and> planScanDisposition Infected policy = Quarantine
    \<and> (fst (clamav_scan send body) = Clean \<longrightarrow> (\<exists>reply. send body = Inr reply \<and> str_includes reply ''OK''))
    \<and> planScanDisposition (fst (clamav_scan (\<lambda>_. Inl err) body)) (Some RejectIndeterminate) = Reject"
proof (intro conjI impI)
  have last: "\<not> is_space (last name)" using assms by (simp add: list_all_iff)
  have trimmed: "trim (''stream: '' @ name @ '' FOUND'') = ''stream: '' @ name @ '' FOUND''"
    by (simp add: trim_def is_space_def)
  have body: "dropWhile is_space ('' '' @ name @ '' FOUND'') = name @ '' FOUND''"
    using assms by (cases name) (simp_all add: is_space_def)
  have core: "rev (dropWhile is_space (rev (name @ '' ''))) = name"
    using last assms(1) by (cases name rule: rev_cases) (simp_all add: is_space_def)
  have lines: "list_all (\<lambda>c. c \<noteq> CHR 0x0A \<and> c \<noteq> CHR 0x0D) name"
    using assms(2) by (auto simp: list_all_iff is_space_def)
  have found: "found_name (name @ '' FOUND'') = Some name"
  proof -
    have "endsWith (name @ '' FOUND'') ''FOUND''" by (auto simp: endsWith_iff)
    moreover have "take (length (name @ '' FOUND'') - 5) (name @ '' FOUND'') = name @ '' ''" by simp
    ultimately show ?thesis unfolding found_name_def Let_def using assms(1) core lines by (simp del: rev_append take_append)
  qed
  have not_ok: "\<not> endsWith (name @ '' FOUND'') '' OK''" "name @ '' FOUND'' \<noteq> ''OK''"
    by (simp_all add: endsWith_def append_eq_Cons_conv)
  show "clamav_scan (\<lambda>_. Inr (''stream: '' @ name @ '' FOUND'' @ [CHR 0x00])) body = (Infected, Some name)"
    using trimmed body found not_ok by (simp add: clamav_scan_def parseClamavReply_def startsWith_def)
  show "planScanDisposition Infected policy = Quarantine" by (simp add: planScanDisposition_def)
  show "planScanDisposition (fst (clamav_scan (\<lambda>_. Inl err) body)) (Some RejectIndeterminate) = Reject"
    by (simp add: clamav_scan_def planScanDisposition_def)
  assume "fst (clamav_scan send body) = Clean"
  then obtain reply where "send body = Inr reply" "fst (parseClamavReply reply) = Clean"
    by (auto simp: clamav_scan_def split: sum.splits prod.splits scan_verdict.splits)
  then show "\<exists>reply. send body = Inr reply \<and> str_includes reply ''OK''" using clean_reply by blast
qed

theorem scan_verdicts_are_safe_witness:
  "clamav_scan (\<lambda>_. Inr (''stream: '' @ ''Eicar-Signature'' @ '' FOUND'' @ [CHR 0x00])) [1] = (Infected, Some ''Eicar-Signature'')"
proof -
  have "''Eicar-Signature'' \<noteq> []" "list_all (\<lambda>c. \<not> is_space c) ''Eicar-Signature''" by code_simp+
  from scan_verdicts_are_safe [OF this, of "[1]" None "\<lambda>_. Inl ''down''" "''down''"] show ?thesis by blast
qed

end
