(* ===== verification/File_Sharing.thy ===== *)
theory File_Sharing
  imports Upload_Screening Permission_Service
begin

text \<open>
  Links that carry their own permission: share links (\<open>src/core/files/share-link.ts\<close>), the secret they are signed with
  (\<open>share-link-secret.ts\<close>, \<open>resolveShareLinkSecret\<close> of \<open>files.module.ts\<close>), and the signed URLs of the storage adapters
  (\<open>signed-url-token.ts\<close>).  \<open>hmac secret message\<close> is the HMAC-SHA256 digest.  Times are whole milliseconds
  below \<open>2^53\<close>.
\<close>

section \<open>Share links\<close>

datatype share_error = InvalidShareLink string | ExpiredShareLink

record share_link =
  sk_fileId :: string
  sk_tenantId :: string
  sk_expiresAtMs :: millis

definition share_payload :: "string \<Rightarrow> string \<Rightarrow> millis \<Rightarrow> string" where
  "share_payload fileId tenantId expiresAtMs = fileId @ ''.'' @ tenantId @ ''.'' @ show_int expiresAtMs"

definition computeSignature :: "(string \<Rightarrow> string \<Rightarrow> nat list) \<Rightarrow> string \<Rightarrow> string \<Rightarrow> string" where
  "computeSignature hmac payload secret = base64url_encode (hmac secret payload)"

definition signShareLink :: "(string \<Rightarrow> string \<Rightarrow> nat list) \<Rightarrow> share_link \<Rightarrow> string \<Rightarrow> share_error + string" where
  "signShareLink hmac input secret =
     (if sk_fileId input = [] then Inl (InvalidShareLink ''fileId is required'')
      else if sk_tenantId input = [] then Inl (InvalidShareLink ''tenantId is required'')
      else if secret = [] then Inl (InvalidShareLink ''secret is required'')
      else if sk_expiresAtMs input \<le> 0 then Inl (InvalidShareLink ''expiresAtMs must be a positive number'')
      else let payload = share_payload (sk_fileId input) (sk_tenantId input) (sk_expiresAtMs input)
           in Inr (payload @ ''.'' @ computeSignature hmac payload secret))"

text \<open>\<open>timingSafeEqual\<close> on the UTF-8 bytes, behind the comparison of the lengths.\<close>

definition timing_safe_equal :: "string \<Rightarrow> string \<Rightarrow> bool" where
  "timing_safe_equal a b \<longleftrightarrow> length (utf8_encode a) = length (utf8_encode b) \<and> utf8_encode a = utf8_encode b"

definition verifyShareLink :: "(string \<Rightarrow> string \<Rightarrow> nat list) \<Rightarrow> string \<Rightarrow> string \<Rightarrow> millis \<Rightarrow> share_error + share_link" where
  "verifyShareLink hmac token secret nowMs =
     (case split_on (CHR ''.'') token of
        [fileId, tenantId, expiresAtRaw, sig] \<Rightarrow>
          if \<not> truthy fileId \<or> \<not> truthy tenantId \<or> \<not> truthy expiresAtRaw \<or> \<not> truthy sig
          then Inl (InvalidShareLink ''token has empty segment(s)'')
          else (case parseInt expiresAtRaw of
                  None \<Rightarrow> Inl (InvalidShareLink ''expiresAt segment is not numeric'')
                | Some expiresAtMs \<Rightarrow>
                    if \<not> timing_safe_equal sig (computeSignature hmac (share_payload fileId tenantId expiresAtMs) secret)
                    then Inl (InvalidShareLink ''signature mismatch'')
                    else if nowMs \<ge> expiresAtMs then Inl ExpiredShareLink
                    else Inr \<lparr>sk_fileId = fileId, sk_tenantId = tenantId, sk_expiresAtMs = expiresAtMs\<rparr>)
      | _ \<Rightarrow> Inl (InvalidShareLink ''token must have 4 dot-separated segments''))"

section \<open>The secret\<close>

definition isShareLinkSecretValid :: "string option \<Rightarrow> string option \<Rightarrow> bool" where
  "isShareLinkSecretValid nodeEnv secret =
     (if nodeEnv \<noteq> Some ''production'' then True else (case secret of None \<Rightarrow> False | Some s \<Rightarrow> length s \<ge> 32))"

text \<open>\<open>None\<close> is the internal server error.\<close>

definition resolveShareLinkSecret :: "string option \<Rightarrow> string option \<Rightarrow> string option" where
  "resolveShareLinkSecret nodeEnv configured =
     (let secret = nullish configured ''dev-share-link-secret''
      in if \<not> isShareLinkSecretValid nodeEnv configured then None else Some secret)"

section \<open>Signed URLs\<close>

definition resolveSignSecret :: "string option \<Rightarrow> string option \<Rightarrow> string option" where
  "resolveSignSecret shareLinkSecret authSecret = (case shareLinkSecret of Some s \<Rightarrow> Some s | None \<Rightarrow> authSecret)"

text \<open>\<open>digest("hex").slice(0, 32)\<close>.\<close>

definition hex_digest :: "nat list \<Rightarrow> string" where
  "hex_digest bs = concat (map (\<lambda>b. [hex_digit (b div 16), hex_digit (b mod 16)]) bs)"

definition signUrlToken :: "(string \<Rightarrow> string \<Rightarrow> nat list) \<Rightarrow> string \<Rightarrow> int \<Rightarrow> string \<Rightarrow> string" where
  "signUrlToken hmac key expires secret = take 32 (hex_digest (hmac secret (key @ ''.'' @ show_int expires)))"

definition verifySignUrlToken ::
  "(string \<Rightarrow> string \<Rightarrow> nat list) \<Rightarrow> string \<Rightarrow> int \<Rightarrow> string option \<Rightarrow> string option \<Rightarrow> bool" where
  "verifySignUrlToken hmac key expires sig secret =
     (if \<not> truthy_opt secret then True
      else if \<not> truthy_opt sig then False
      else timing_safe_equal (the sig) (signUrlToken hmac key expires (the secret)))"

definition encodePathKey :: "string \<Rightarrow> string" where
  "encodePathKey key = join ''/'' (map encodeURIComponent (split_on (CHR ''/'') key))"

text \<open>\<open>signUrl\<close> of the local adapter; \<open>now\<close> is the clock in whole seconds.\<close>

datatype sign_url_error = TtlNotPositive int | SignStore store_error

definition local_signUrl ::
  "(string \<Rightarrow> string \<Rightarrow> nat list) \<Rightarrow> string option \<Rightarrow> string list \<Rightarrow> string \<Rightarrow> string \<Rightarrow> int \<Rightarrow> int \<Rightarrow> file_system
    \<Rightarrow> sign_url_error + string" where
  "local_signUrl hmac secret root baseUrl key ttlSeconds now fs =
     (if ttlSeconds \<le> 0 then Inl (TtlNotPositive ttlSeconds)
      else case resolveSafe root key of
             Inl e \<Rightarrow> Inl (SignStore e)
           | Inr filePath \<Rightarrow>
               if \<not> existsSync filePath fs then Inl (SignStore (ObjectNotFound key))
               else let expires = now + ttlSeconds;
                        sigParam = (if truthy_opt secret then ''&sig='' @ signUrlToken hmac key expires (the secret) else [])
                    in Inr (baseUrl @ ''/'' @ encodePathKey key @ ''?expires='' @ show_int expires @ sigParam))"

definition postgres_signUrl ::
  "(string \<Rightarrow> string \<Rightarrow> nat list) \<Rightarrow> string option \<Rightarrow> string \<Rightarrow> string \<Rightarrow> string \<Rightarrow> int \<Rightarrow> int \<Rightarrow> blob_row list
    \<Rightarrow> sign_url_error + string" where
  "postgres_signUrl hmac secret tenant baseUrl key ttlSeconds now t =
     (if ttlSeconds \<le> 0 then Inl (TtlNotPositive ttlSeconds)
      else if \<not> existsByKey tenant key t then Inl (SignStore (ObjectNotFound key))
      else let expires = now + ttlSeconds;
               sigParam = (if truthy_opt secret then ''&sig='' @ signUrlToken hmac key expires (the secret) else [])
           in Inr (baseUrl @ ''/'' @ encodePathKey key @ ''?expires='' @ show_int expires @ sigParam))"

section \<open>What a link proves\<close>

lemma utf8_inj: "utf8_encode a = utf8_encode b \<longleftrightarrow> a = b"
  by (metis option.inject utf8_round_trip)

lemma timing_safe_equal_iff [simp]: "timing_safe_equal a b \<longleftrightarrow> a = b"
  by (auto simp: timing_safe_equal_def utf8_inj)

definition digest_bytes :: "(string \<Rightarrow> string \<Rightarrow> nat list) \<Rightarrow> bool" where
  "digest_bytes hmac \<longleftrightarrow> (\<forall>k m. hmac k m \<noteq> [] \<and> (\<forall>b\<in>set (hmac k m). b < 256))"

lemma base64url_no_dot:
  assumes "\<forall>b\<in>set bs. b < 256"
  shows "CHR ''.'' \<notin> set (base64url_encode bs)"
proof -
  have "base64_char n \<noteq> CHR ''.''" if "n < 64" for n
    using base64_char_val [OF that] by (auto simp: base64_val_def)
  then show ?thesis using sextets_small [OF assms] unfolding base64url_encode_def set_map by (metis imageE)
qed

lemma base64url_inj:
  assumes "\<forall>b\<in>set bs. b < 256" "\<forall>b\<in>set cs. b < 256"
  shows "base64url_encode bs = base64url_encode cs \<longleftrightarrow> bs = cs"
  by (metis assms base64url_round_trip)

lemma base64url_ne: "bs \<noteq> [] \<Longrightarrow> base64url_encode bs \<noteq> []"
  by (cases bs rule: sextets.cases) (simp_all add: base64url_encode_def)

lemma show_nat_plain:
  "dropWhile is_space (show_nat n) = show_nat n" "takeWhile is_digit (show_nat n) = show_nat n"
  "hd (show_nat n) \<noteq> CHR ''-''" "hd (show_nat n) \<noteq> CHR ''+''" "CHR ''.'' \<notin> set (show_nat n)"
proof -
  have digits: "is_digit c" if "c \<in> set (show_nat n)" for c using that show_nat_digits by blast
  have "\<not> is_space (hd (show_nat n))" using hd_show_nat [of n] by (auto simp: is_digit_def is_space_def Let_def)
  then show "dropWhile is_space (show_nat n) = show_nat n" by (cases "show_nat n") simp_all
  show "takeWhile is_digit (show_nat n) = show_nat n" using digits by (simp add: takeWhile_eq_all_conv)
  show "hd (show_nat n) \<noteq> CHR ''-''" "hd (show_nat n) \<noteq> CHR ''+''"
    using hd_show_nat [of n] by (auto simp: is_digit_def)
  show "CHR ''.'' \<notin> set (show_nat n)" using digits [of "CHR ''.''"] by (auto simp: is_digit_def)
qed

lemma parse_expiry: "0 < e \<Longrightarrow> parseInt (show_int e) = Some e"
  by (simp add: parseInt_def show_int_def show_nat_plain Let_def del: show_nat.simps)

lemma show_int_no_dot: "CHR ''.'' \<notin> set (show_int e)"
  by (simp add: show_int_def show_nat_plain del: show_nat.simps)

lemma show_int_inj: "show_int a = show_int b \<longleftrightarrow> a = b"
proof
  assume "show_int a = show_int b"
  then show "a = b"
    using show_nat_plain(3) [of "nat a"] show_nat_plain(3) [of "nat b"] show_nat_inj [of "nat a" "nat b"] show_nat_inj [of "nat (- a)" "nat (- b)"]
    by (auto simp: show_int_def split: if_splits) (metis list.sel(1))+
qed simp

lemma share_payload_inj:
  assumes "CHR ''.'' \<notin> set f" "CHR ''.'' \<notin> set t" "CHR ''.'' \<notin> set f'" "CHR ''.'' \<notin> set t'"
  shows "share_payload f t e = share_payload f' t' e' \<longleftrightarrow> f = f' \<and> t = t' \<and> e = e'"
  using assms by (auto simp: share_payload_def append_sep_inj show_int_inj)

lemma split_token:
  assumes "CHR ''.'' \<notin> set f" "CHR ''.'' \<notin> set t" "CHR ''.'' \<notin> set g"
  shows "split_on (CHR ''.'') (share_payload f t e @ ''.'' @ g) = [f, t, show_int e, g]"
  using assms show_int_no_dot by (simp add: share_payload_def split_on_append_sep split_on_no_sep)

lemma verify_accepts:
  assumes "verifyShareLink hmac token secret now = Inr l"
  obtains raw where "split_on (CHR ''.'') token =
      [sk_fileId l, sk_tenantId l, raw, computeSignature hmac (share_payload (sk_fileId l) (sk_tenantId l) (sk_expiresAtMs l)) secret]"
    "parseInt raw = Some (sk_expiresAtMs l)" "now < sk_expiresAtMs l"
  using assms unfolding verifyShareLink_def
  by (auto split: list.splits option.splits if_splits)

lemma share_token_verifies:
  assumes hmac: "digest_bytes hmac"
    and link: "sk_fileId l \<noteq> []" "CHR ''.'' \<notin> set (sk_fileId l)" "sk_tenantId l \<noteq> []" "CHR ''.'' \<notin> set (sk_tenantId l)"
      "0 < sk_expiresAtMs l" "secret \<noteq> []"
  shows "\<exists>token. signShareLink hmac l secret = Inr token
    \<and> last (split_on (CHR ''.'') token) = computeSignature hmac (share_payload (sk_fileId l) (sk_tenantId l) (sk_expiresAtMs l)) secret
    \<and> (\<forall>now. verifyShareLink hmac token secret now = (if now < sk_expiresAtMs l then Inr l else Inl ExpiredShareLink))"
proof -
  let ?sig = "computeSignature hmac (share_payload (sk_fileId l) (sk_tenantId l) (sk_expiresAtMs l)) secret"
  have sig: "CHR ''.'' \<notin> set ?sig" "?sig \<noteq> []"
    using hmac by (simp_all add: computeSignature_def base64url_no_dot base64url_ne digest_bytes_def)
  define token where "token = share_payload (sk_fileId l) (sk_tenantId l) (sk_expiresAtMs l) @ ''.'' @ ?sig"
  have split: "split_on (CHR ''.'') token = [sk_fileId l, sk_tenantId l, show_int (sk_expiresAtMs l), ?sig]"
    unfolding token_def by (rule split_token [OF link(2,4) sig(1)])
  have "signShareLink hmac l secret = Inr token"
    using link by (simp add: signShareLink_def token_def Let_def)
  moreover have "verifyShareLink hmac token secret now = (if now < sk_expiresAtMs l then Inr l else Inl ExpiredShareLink)" for now
    using link sig(2) show_int_ne by (simp add: verifyShareLink_def split parse_expiry)
  ultimately show ?thesis by (intro exI [of _ token]) (simp add: split)
qed

text \<open>A digest for the witnesses: the message behind a marker byte.\<close>

definition sample_digest :: "string \<Rightarrow> string \<Rightarrow> nat list" where
  "sample_digest secret message = 0 # map of_char message"

lemma sample_digest_ok: "digest_bytes sample_digest"
  using of_char_less by (auto simp: digest_bytes_def sample_digest_def)

definition sample_link :: share_link where
  "sample_link = \<lparr>sk_fileId = ''f1'', sk_tenantId = ''t1'', sk_expiresAtMs = 5000\<rparr>"

text \<open>C28: A share link opens what it was issued for, until it expires, and nothing else.  The issued token verifies to its file,
  tenant and expiry at every earlier time and is reported as expired from then on; and whatever token
  carries the signature of an issued link, with whatever other segments, is accepted only as that link and only before
  its expiry, unless its message collides with that of the link under the keyed digest.\<close>

theorem share_link_is_authentic:
  assumes hmac: "digest_bytes hmac"
    and link: "sk_fileId l \<noteq> []" "CHR ''.'' \<notin> set (sk_fileId l)" "sk_tenantId l \<noteq> []" "CHR ''.'' \<notin> set (sk_tenantId l)"
      "0 < sk_expiresAtMs l" "secret \<noteq> []"
  shows "\<exists>token. signShareLink hmac l secret = Inr token
    \<and> verifyShareLink hmac token secret now = (if now < sk_expiresAtMs l then Inr l else Inl ExpiredShareLink)
    \<and> (\<forall>forged l'. last (split_on (CHR ''.'') forged) = last (split_on (CHR ''.'') token)
         \<and> verifyShareLink hmac forged secret now = Inr l' \<longrightarrow>
           l' = l \<and> now < sk_expiresAtMs l
         \<or> share_payload (sk_fileId l') (sk_tenantId l') (sk_expiresAtMs l') \<noteq> share_payload (sk_fileId l) (sk_tenantId l) (sk_expiresAtMs l)
           \<and> hmac secret (share_payload (sk_fileId l') (sk_tenantId l') (sk_expiresAtMs l'))
             = hmac secret (share_payload (sk_fileId l) (sk_tenantId l) (sk_expiresAtMs l)))"
proof -
  let ?payload = "\<lambda>l. share_payload (sk_fileId l) (sk_tenantId l) (sk_expiresAtMs l)"
  let ?sig = "\<lambda>l. computeSignature hmac (share_payload (sk_fileId l) (sk_tenantId l) (sk_expiresAtMs l)) secret"
  have bytes: "\<forall>b\<in>set (hmac secret m). b < 256" for m using hmac by (simp add: digest_bytes_def)
  obtain token where token: "signShareLink hmac l secret = Inr token" "last (split_on (CHR ''.'') token) = ?sig l"
    "\<And>now. verifyShareLink hmac token secret now = (if now < sk_expiresAtMs l then Inr l else Inl ExpiredShareLink)"
    using share_token_verifies [OF hmac link] by blast
  moreover have "l' = l \<and> now < sk_expiresAtMs l \<or> ?payload l' \<noteq> ?payload l \<and> hmac secret (?payload l') = hmac secret (?payload l)"
    if forged: "last (split_on (CHR ''.'') forged) = last (split_on (CHR ''.'') token)" "verifyShareLink hmac forged secret now = Inr l'"
    for forged l'
  proof -
    obtain raw where raw: "split_on (CHR ''.'') forged = [sk_fileId l', sk_tenantId l', raw, ?sig l']" "now < sk_expiresAtMs l'"
      using verify_accepts [OF forged(2)] by blast
    have dots: "CHR ''.'' \<notin> set (sk_fileId l')" "CHR ''.'' \<notin> set (sk_tenantId l')"
      using split_on_parts [of _ "CHR ''.''" forged] raw(1) by auto
    have "?sig l' = ?sig l" using forged(1) by (simp add: raw(1) token(2))
    then have digests: "hmac secret (?payload l') = hmac secret (?payload l)"
      by (simp add: computeSignature_def base64url_inj bytes)
    have "l' = l" if "?payload l' = ?payload l" using share_payload_inj [OF dots link(2,4)] that by simp
    then show ?thesis using raw(2) digests by blast
  qed
  ultimately show ?thesis by blast
qed

theorem share_link_is_authentic_witness:
  "\<exists>token. signShareLink sample_digest sample_link ''secret'' = Inr token
     \<and> verifyShareLink sample_digest token ''secret'' 4999 = Inr sample_link"
proof -
  have "sk_fileId sample_link \<noteq> []" "CHR ''.'' \<notin> set (sk_fileId sample_link)" "sk_tenantId sample_link \<noteq> []"
    "CHR ''.'' \<notin> set (sk_tenantId sample_link)" "0 < sk_expiresAtMs sample_link" "''secret'' \<noteq> []"
    by (simp_all add: sample_link_def)
  from share_link_is_authentic [OF sample_digest_ok this, of 4999]
  obtain token where "signShareLink sample_digest sample_link ''secret'' = Inr token"
    "verifyShareLink sample_digest token ''secret'' 4999 = (if 4999 < sk_expiresAtMs sample_link then Inr sample_link else Inl ExpiredShareLink)"
    by blast
  then show ?thesis by (simp add: sample_link_def)
qed

lemma url_message_inj:
  "key @ ''.'' @ show_int expires = key' @ ''.'' @ show_int expires' \<longleftrightarrow> key = key' \<and> expires = expires'"
proof
  assume "key @ ''.'' @ show_int expires = key' @ ''.'' @ show_int expires'"
  then have "rev (key @ ''.'' @ show_int expires) = rev (key' @ ''.'' @ show_int expires')" by (rule arg_cong)
  then have "rev (show_int expires) @ CHR ''.'' # rev key = rev (show_int expires') @ CHR ''.'' # rev key'" by simp
  then have "rev (show_int expires) = rev (show_int expires') \<and> rev key = rev key'"
    using append_sep_inj [of "CHR ''.''" "rev (show_int expires)" "rev (show_int expires')"] show_int_no_dot by simp
  then show "key = key' \<and> expires = expires'" by (simp add: show_int_inj)
qed simp

text \<open>The signature of a URL binds its key and its whole-number expiry: unless the truncated digests of the two messages
  collide, the signature issued for one key and expiry verifies for no other key or expiry; a URL without a
  signature is refused while a secret is configured, and every URL is accepted while none is.\<close>

theorem signed_url_binds_key_and_expiry:
  assumes "secret \<noteq> []" and "hmac secret (key @ ''.'' @ show_int expires) \<noteq> []"
    and "signUrlToken hmac key' expires' secret = signUrlToken hmac key expires secret \<longrightarrow>
      key' @ ''.'' @ show_int expires' = key @ ''.'' @ show_int expires"
  shows "(verifySignUrlToken hmac key' expires' (Some (signUrlToken hmac key expires secret)) (Some secret) \<longleftrightarrow> key' = key \<and> expires' = expires)
    \<and> \<not> verifySignUrlToken hmac key' expires' None (Some secret) \<and> verifySignUrlToken hmac key' expires' sig None"
proof -
  have "signUrlToken hmac key expires secret \<noteq> []"
    using assms(2) by (cases "hmac secret (key @ ''.'' @ show_int expires)") (simp_all add: signUrlToken_def hex_digest_def)
  then show ?thesis
    using assms(1,3) url_message_inj [of key' expires' key expires] by (auto simp: verifySignUrlToken_def truthy_opt_def)
qed

theorem signed_url_binds_key_and_expiry_witness:
  "verifySignUrlToken sample_digest ''a/b'' 9 (Some (signUrlToken sample_digest ''a/b'' 9 ''s'')) (Some ''s'')
   \<and> \<not> verifySignUrlToken sample_digest ''a/b'' 10 (Some (signUrlToken sample_digest ''a/b'' 9 ''s'')) (Some ''s'')"
proof -
  have hyps: "''s'' \<noteq> []" "sample_digest ''s'' (''a/b'' @ ''.'' @ show_int 9) \<noteq> []" by (simp_all add: sample_digest_def)
  have "signUrlToken sample_digest ''a/b'' 10 ''s'' \<noteq> signUrlToken sample_digest ''a/b'' 9 ''s''" by code_simp
  then show ?thesis
    using signed_url_binds_key_and_expiry [where hmac = sample_digest and secret = "''s''" and key = "''a/b''"
          and expires = 9 and key' = "''a/b''" and expires' = 9] hyps
      signed_url_binds_key_and_expiry [where hmac = sample_digest and secret = "''s''" and key = "''a/b''"
          and expires = 9 and key' = "''a/b''" and expires' = 10] by simp
qed

end
