(* ===== verification/File_Service.thy ===== *)
theory File_Service
  imports File_Sharing Request_Pipeline
begin

text \<open>
  Files and folders: the services (\<open>src/core/files/file.service.ts\<close>, \<open>folder.service.ts\<close>), their Prisma storage under
  row-level security (\<open>file-storage.prisma.ts\<close>), the upload pipeline and the routes (\<open>files.module.ts\<close>).  A record of the
  type \<open>file_service\<close> holds what the module binds at boot; \<open>tenant\<close> is the tenant of the request.  The policy of the \<open>files\<close> table
  (\<open>tenant_id = current_setting('app.tenant_id')\<close>) is what \<open>rls\<close> models, for a database role the policy applies to.
\<close>

section \<open>Records\<close>

datatype visibility = PRIVATE | PUBLIC

record file_columns =
  fc_id :: string
  fc_tenantId :: string
  fc_folderId :: "string option"
  fc_filename :: string
  fc_mimeType :: string
  fc_sizeBytes :: nat
  fc_sha256 :: string
  fc_storageDriver :: string
  fc_storageKey :: string
  fc_uploaderId :: string

record file_record = file_columns +
  fr_visibility :: visibility
  fr_scanVerdict :: "scan_verdict option"
  fr_scanThreatName :: "string option"

record file_row = file_columns +
  fw_visibility :: visibility
  fw_deletedAt :: "millis option"

datatype file_error = FileNotFound string | FileBadRequest string | FileServerError | FileContext reject | FileStore store_error
  | FilePath path_error | FileScanRejected scan_verdict "string option" | ScannerFailed string | FileDatabase | FileZip zip_error
  | FileShare share_error

text \<open>The columns written for a record; \<open>visibility\<close> has the default of the schema.\<close>

definition file_toRow :: "file_record \<Rightarrow> file_row" where
  "file_toRow r =
     \<lparr>fc_id = fc_id r, fc_tenantId = fc_tenantId r, fc_folderId = fc_folderId r, fc_filename = fc_filename r,
      fc_mimeType = fc_mimeType r, fc_sizeBytes = fc_sizeBytes r, fc_sha256 = fc_sha256 r,
      fc_storageDriver = fc_storageDriver r, fc_storageKey = fc_storageKey r, fc_uploaderId = fc_uploaderId r,
      fw_visibility = PRIVATE, fw_deletedAt = None\<rparr>"

definition file_fromRow :: "file_row \<Rightarrow> file_record" where
  "file_fromRow w =
     \<lparr>fc_id = fc_id w, fc_tenantId = fc_tenantId w, fc_folderId = fc_folderId w, fc_filename = fc_filename w,
      fc_mimeType = fc_mimeType w, fc_sizeBytes = fc_sizeBytes w, fc_sha256 = fc_sha256 w,
      fc_storageDriver = fc_storageDriver w, fc_storageKey = fc_storageKey w, fc_uploaderId = fc_uploaderId w,
      fr_visibility = fw_visibility w, fr_scanVerdict = None, fr_scanThreatName = None\<rparr>"

section \<open>The table\<close>

text \<open>\<open>runWithRlsTenant\<close> uses the explicit tenant, or that of the request, and refuses anything but a UUID.\<close>

definition rls_tenant :: "string option \<Rightarrow> string option \<Rightarrow> file_error + string" where
  "rls_tenant tenant explicit =
     (case (case explicit of Some t \<Rightarrow> Some t | None \<Rightarrow> tenant) of
        None \<Rightarrow> Inl FileServerError
      | Some t \<Rightarrow> if \<not> truthy t then Inl FileServerError else if \<not> is_uuid t then Inl FileServerError else Inr t)"

definition rls :: "string \<Rightarrow> file_row list \<Rightarrow> file_row list" where
  "rls t rows = filter (\<lambda>w. fc_tenantId w = t) rows"

text \<open>\<open>accepts\<close> is the verdict of the table's constraints on a new row.\<close>

definition file_insert ::
  "(file_row \<Rightarrow> file_row list \<Rightarrow> bool) \<Rightarrow> file_record \<Rightarrow> file_row list \<Rightarrow> (file_error + file_record) \<times> file_row list" where
  "file_insert accepts r rows =
     (case rls_tenant None (Some (fc_tenantId r)) of
        Inl e \<Rightarrow> (Inl e, rows)
      | Inr t \<Rightarrow> if accepts (file_toRow r) rows then (Inr (file_fromRow (file_toRow r)), rows @ [file_toRow r]) else (Inl FileDatabase, rows))"

definition scanById :: "string option \<Rightarrow> string \<Rightarrow> file_row list \<Rightarrow> file_row option" where
  "scanById tenant i rows = (case rls_tenant tenant None of Inl e \<Rightarrow> None | Inr t \<Rightarrow> find_first (\<lambda>w. fc_id w = i) (rls t rows))"

definition live_row :: "file_row option \<Rightarrow> file_row option" where
  "live_row w = (case w of None \<Rightarrow> None | Some w \<Rightarrow> if fw_deletedAt w \<noteq> None then None else Some w)"

definition file_findById :: "string option \<Rightarrow> string \<Rightarrow> file_row list \<Rightarrow> file_record option" where
  "file_findById tenant i rows = map_option file_fromRow (live_row (scanById tenant i rows))"

definition findByIdInTenant :: "string \<Rightarrow> string \<Rightarrow> file_row list \<Rightarrow> file_record option" where
  "findByIdInTenant tenantId i rows = (case rls_tenant None (Some tenantId) of
     Inl e \<Rightarrow> None
   | Inr t \<Rightarrow> map_option file_fromRow (live_row (find_first (\<lambda>w. fc_id w = i \<and> fc_tenantId w = tenantId) (rls t rows))))"

definition listByFolder :: "string \<Rightarrow> string option \<Rightarrow> file_row list \<Rightarrow> file_error + file_record list" where
  "listByFolder tenantId folderId rows = (case rls_tenant None (Some tenantId) of
     Inl e \<Rightarrow> Inl e
   | Inr t \<Rightarrow> Inr (map file_fromRow (filter (\<lambda>w. fc_tenantId w = tenantId \<and> fc_folderId w = folderId \<and> fw_deletedAt w = None) (rls t rows))))"

text \<open>\<open>patch\<close> changes the columns of the patch; the row is updated where it is visible.\<close>

definition file_update ::
  "string option \<Rightarrow> string \<Rightarrow> (file_row \<Rightarrow> file_row) \<Rightarrow> file_row list \<Rightarrow> file_record option \<times> file_row list" where
  "file_update tenant i patch rows = (case live_row (scanById tenant i rows) of
     None \<Rightarrow> (None, rows)
   | Some w \<Rightarrow> (Some (file_fromRow (patch w)), update_where (\<lambda>v. fc_id v = i \<and> fc_tenantId v = fc_tenantId w) patch rows))"

definition file_delete :: "string option \<Rightarrow> millis \<Rightarrow> string \<Rightarrow> file_row list \<Rightarrow> bool \<times> file_row list" where
  "file_delete tenant now i rows = (case live_row (scanById tenant i rows) of
     None \<Rightarrow> (False, rows)
   | Some w \<Rightarrow> (True, update_where (\<lambda>v. fc_id v = i \<and> fc_tenantId v = fc_tenantId w) (\<lambda>v. v\<lparr>fw_deletedAt := Some now\<rparr>) rows))"

section \<open>The service\<close>

record 's file_service =
  sv_put :: "string \<Rightarrow> buffer \<Rightarrow> string \<Rightarrow> 's \<Rightarrow> (store_error + object_metadata) \<times> 's"
  sv_get :: "string \<Rightarrow> 's \<Rightarrow> store_error + buffer"
  sv_driver :: string
  sv_scanner :: "(buffer \<Rightarrow> string + scan_verdict \<times> string option) option"
  sv_policy :: "indeterminate_policy option"
  sv_strictMime :: bool
  sv_accepts :: "file_row \<Rightarrow> file_row list \<Rightarrow> bool"
  sv_sha256 :: "buffer \<Rightarrow> string"

record 's file_world =
  wd_rows :: "file_row list"
  wd_store :: 's

text \<open>The body of \<open>POST /files\<close>: an object that is spread into the record, behind the defaults and before the tenant.\<close>

record create_body =
  cb_id :: "string option"
  cb_folderId :: "string option"
  cb_filename :: string
  cb_mimeType :: string
  cb_sizeBytes :: nat
  cb_sha256 :: string
  cb_storageDriver :: string
  cb_storageKey :: string
  cb_uploaderId :: string

definition file_create :: "'s file_service \<Rightarrow> string \<Rightarrow> string \<Rightarrow> create_body \<Rightarrow> 's file_world \<Rightarrow> (file_error + file_record) \<times> 's file_world" where
  "file_create sv uuid tenantId body wd =
     (let r = \<lparr>fc_id = nullish (cb_id body) uuid, fc_tenantId = tenantId, fc_folderId = cb_folderId body,
               fc_filename = cb_filename body, fc_mimeType = cb_mimeType body, fc_sizeBytes = cb_sizeBytes body,
               fc_sha256 = cb_sha256 body, fc_storageDriver = cb_storageDriver body, fc_storageKey = cb_storageKey body,
               fc_uploaderId = cb_uploaderId body, fr_visibility = PRIVATE, fr_scanVerdict = None, fr_scanThreatName = None\<rparr>;
          (res, rows) = file_insert (sv_accepts sv) r (wd_rows wd)
      in (res, wd\<lparr>wd_rows := rows\<rparr>))"

definition file_rename :: "string option \<Rightarrow> string \<Rightarrow> string \<Rightarrow> 's file_world \<Rightarrow> (file_error + file_record) \<times> 's file_world" where
  "file_rename tenant i filename wd =
     (let (res, rows) = file_update tenant i (\<lambda>w. w\<lparr>fc_filename := filename\<rparr>) (wd_rows wd)
      in (case res of None \<Rightarrow> Inl (FileNotFound i) | Some r \<Rightarrow> Inr r, wd\<lparr>wd_rows := rows\<rparr>))"

definition file_setVisibility :: "string option \<Rightarrow> string \<Rightarrow> visibility \<Rightarrow> 's file_world \<Rightarrow> (file_error + file_record) \<times> 's file_world" where
  "file_setVisibility tenant i v wd =
     (let (res, rows) = file_update tenant i (\<lambda>w. w\<lparr>fw_visibility := v\<rparr>) (wd_rows wd)
      in (case res of None \<Rightarrow> Inl (FileNotFound i) | Some r \<Rightarrow> Inr r, wd\<lparr>wd_rows := rows\<rparr>))"

definition file_remove :: "string option \<Rightarrow> millis \<Rightarrow> string \<Rightarrow> 's file_world \<Rightarrow> (file_error + unit) \<times> 's file_world" where
  "file_remove tenant now i wd =
     (let (removed, rows) = file_delete tenant now i (wd_rows wd)
      in (if removed then Inr () else Inl (FileNotFound i), wd\<lparr>wd_rows := rows\<rparr>))"

record upload_input =
  ui_tenantId :: string
  ui_folderId :: "string option"
  ui_filename :: string
  ui_mimeType :: string
  ui_uploaderId :: string
  ui_bytes :: buffer

definition scan_upload :: "'s file_service \<Rightarrow> buffer \<Rightarrow> file_error + (scan_verdict \<times> string option) option \<times> scan_disposition" where
  "scan_upload sv bytes = (case sv_scanner sv of
     None \<Rightarrow> Inr (None, Keep)
   | Some scan \<Rightarrow>
       (case scan bytes of
          Inl err \<Rightarrow> Inl (ScannerFailed err)
        | Inr (verdict, threatName) \<Rightarrow>
            (let disposition = planScanDisposition verdict (sv_policy sv)
             in if disposition = Reject then Inl (FileScanRejected verdict threatName)
                else Inr (Some (verdict, threatName), disposition))))"

definition uploadAndCreate :: "'s file_service \<Rightarrow> string \<Rightarrow> upload_input \<Rightarrow> 's file_world \<Rightarrow> (file_error + file_record) \<times> 's file_world" where
  "uploadAndCreate sv fileId input wd =
     (if sv_strictMime sv \<and> \<not> mm_ok (checkSniffedMimeMatchesClaim (take 256 (ui_bytes input)) (ui_mimeType input))
      then (Inl (FileBadRequest ''upload rejected: claimed mime does not match''), wd)
      else case scan_upload sv (ui_bytes input) of
        Inl e \<Rightarrow> (Inl e, wd)
      | Inr (scanned, disposition) \<Rightarrow>
          (case resolveStoragePath (ui_tenantId input) (ui_folderId input) fileId (ui_filename input) of
             Inl e \<Rightarrow> (Inl (FilePath e), wd)
           | Inr cleanKey \<Rightarrow>
               (let storageKey = (if disposition = Quarantine then ''_quarantine/'' @ cleanKey else cleanKey)
                in case sv_put sv storageKey (ui_bytes input) (ui_mimeType input) (wd_store wd) of
                     (Inl e, store) \<Rightarrow> (Inl (FileStore e), wd\<lparr>wd_store := store\<rparr>)
                   | (Inr _, store) \<Rightarrow>
                       (let r = \<lparr>fc_id = fileId, fc_tenantId = ui_tenantId input, fc_folderId = ui_folderId input,
                                 fc_filename = ui_filename input, fc_mimeType = ui_mimeType input,
                                 fc_sizeBytes = length (ui_bytes input), fc_sha256 = sv_sha256 sv (ui_bytes input),
                                 fc_storageDriver = sv_driver sv, fc_storageKey = storageKey,
                                 fc_uploaderId = ui_uploaderId input, fr_visibility = PRIVATE,
                                 fr_scanVerdict = map_option fst scanned, fr_scanThreatName = Option.bind (Option.bind scanned snd) (\<lambda>s. if truthy s then Some s else None)\<rparr>;
                            (res, rows) = file_insert (sv_accepts sv) r (wd_rows wd)
                        in (map_sum (\<lambda>e. e) (\<lambda>_. r) res, wd\<lparr>wd_rows := rows, wd_store := store\<rparr>)))))"

section \<open>The routes\<close>

definition with_tenant :: "string option \<Rightarrow> (string \<Rightarrow> (file_error + 'a) \<times> 'w) \<Rightarrow> 'w \<Rightarrow> (file_error + 'a) \<times> 'w" where
  "with_tenant tenant f wd = (case requireTenantContext tenant of Inl e \<Rightarrow> (Inl (FileContext e), wd) | Inr t \<Rightarrow> f t)"

text \<open>An empty or absent query value means the root folder.\<close>

definition list_files :: "string option \<Rightarrow> string option \<Rightarrow> 's file_world \<Rightarrow> (file_error + file_record list) \<times> 's file_world" where
  "list_files tenant folderId wd = with_tenant tenant (\<lambda>t.
     (listByFolder t (if folderId = Some [] then None else folderId) (wd_rows wd), wd)) wd"

definition get_file :: "string option \<Rightarrow> string \<Rightarrow> 's file_world \<Rightarrow> (file_error + file_record) \<times> 's file_world" where
  "get_file tenant i wd = (case file_findById tenant i (wd_rows wd) of
     None \<Rightarrow> (Inl (FileNotFound i), wd) | Some r \<Rightarrow> (Inr r, wd))"

text \<open>The single-shot upload; \<open>contents\<close> is the base64 text.\<close>

record upload_body =
  ub_folderId :: "string option"
  ub_filename :: string
  ub_mimeType :: "string option"
  ub_uploaderId :: string
  ub_contents :: string

definition upload_file :: "'s file_service \<Rightarrow> string \<Rightarrow> string option \<Rightarrow> upload_body \<Rightarrow> 's file_world \<Rightarrow> (file_error + file_record) \<times> 's file_world" where
  "upload_file sv fileId tenant body wd = with_tenant tenant (\<lambda>t.
     if \<not> truthy (ub_uploaderId body) then (Inl (FileBadRequest ''uploaderId required''), wd)
     else if \<not> truthy (ub_filename body) then (Inl (FileBadRequest ''filename required''), wd)
     else if \<not> truthy (ub_contents body) then (Inl (FileBadRequest ''contentsBase64 required''), wd)
     else uploadAndCreate sv fileId
       \<lparr>ui_tenantId = t, ui_folderId = ub_folderId body, ui_filename = ub_filename body,
        ui_mimeType = nullish (ub_mimeType body) ''application/octet-stream'', ui_uploaderId = ub_uploaderId body,
        ui_bytes = map of_nat (base64url_decode (ub_contents body))\<rparr> wd) wd"

definition create_file :: "'s file_service \<Rightarrow> string \<Rightarrow> string option \<Rightarrow> create_body \<Rightarrow> 's file_world \<Rightarrow> (file_error + file_record) \<times> 's file_world" where
  "create_file sv uuid tenant body wd = with_tenant tenant (\<lambda>t. file_create sv uuid t body wd) wd"

definition set_visibility :: "string option \<Rightarrow> string \<Rightarrow> json option \<Rightarrow> 's file_world \<Rightarrow> (file_error + file_record) \<times> 's file_world" where
  "set_visibility tenant i value wd =
     (if value = Some (JStr ''PRIVATE'') then file_setVisibility tenant i PRIVATE wd
      else if value = Some (JStr ''PUBLIC'') then file_setVisibility tenant i PUBLIC wd
      else (Inl (FileBadRequest ''visibility must be PRIVATE or PUBLIC''), wd))"

fun zip_entries :: "'s file_service \<Rightarrow> string option \<Rightarrow> 's file_world \<Rightarrow> string list \<Rightarrow> file_error + zip_entry list" where
  "zip_entries sv tenant wd [] = Inr []"
| "zip_entries sv tenant wd (i # ids) =
     (case file_findById tenant i (wd_rows wd) of
        None \<Rightarrow> Inl (FileNotFound i)
      | Some r \<Rightarrow>
          (case sv_get sv (fc_storageKey r) (wd_store wd) of
             Inl e \<Rightarrow> Inl (FileStore e)
           | Inr bytes \<Rightarrow> map_sum (\<lambda>e. e) ((#) \<lparr>ze_filename = safeZipFilename (fc_filename r), ze_bytes = bytes\<rparr>)
               (zip_entries sv tenant wd ids)))"

definition string_ids :: "json list \<Rightarrow> string list" where
  "string_ids vs = List.map_filter (\<lambda>v. case v of JStr s \<Rightarrow> if length s > 0 then Some s else None | _ \<Rightarrow> None) vs"

definition downloadZip :: "'s file_service \<Rightarrow> string option \<Rightarrow> json option \<Rightarrow> 's file_world \<Rightarrow> (file_error + buffer) \<times> 's file_world" where
  "downloadZip sv tenant body wd = (case body of
     Some (JArr vs) \<Rightarrow>
       (let ids = string_ids vs
        in if ids = [] then (Inl (FileBadRequest ''body.ids must contain at least one id''), wd)
           else case zip_entries sv tenant wd ids of
                  Inl e \<Rightarrow> (Inl e, wd)
                | Inr entries \<Rightarrow> (map_sum FileZip (\<lambda>archive. archive) (buildZipArchive entries), wd))
   | _ \<Rightarrow> (Inl (FileBadRequest ''body.ids (string[]) is required''), wd))"

definition remove_file :: "string option \<Rightarrow> millis \<Rightarrow> string \<Rightarrow> 's file_world \<Rightarrow> (file_error + bool) \<times> 's file_world" where
  "remove_file tenant now i wd = (case file_remove tenant now i wd of
     (Inl e, wd') \<Rightarrow> (Inl e, wd') | (Inr _, wd') \<Rightarrow> (Inr True, wd'))"

text \<open>\<open>env\<close> are \<open>NODE_ENV\<close> and \<open>FILE_SHARE_LINK_SECRET\<close>; the result is the token and its expiry.\<close>

definition issueShareLink ::
  "(string \<Rightarrow> string \<Rightarrow> nat list) \<Rightarrow> string option \<times> string option \<Rightarrow> millis \<Rightarrow> string option \<Rightarrow> string \<Rightarrow> int option \<Rightarrow> 's file_world
     \<Rightarrow> (file_error + string \<times> millis) \<times> 's file_world" where
  "issueShareLink hmac env now tenant i ttlSeconds wd =
     (case file_findById tenant i (wd_rows wd) of
        None \<Rightarrow> (Inl (FileNotFound i), wd)
      | Some r \<Rightarrow>
          (let ttl = min (max 60 (nullish ttlSeconds 86400)) (7 * 86400);
               expiresAtMs = now + ttl * 1000
           in case resolveShareLinkSecret (fst env) (snd env) of
                None \<Rightarrow> (Inl FileServerError, wd)
              | Some secret \<Rightarrow>
                  (map_sum FileShare (\<lambda>token. (token, expiresAtMs))
                     (signShareLink hmac \<lparr>sk_fileId = i, sk_tenantId = fc_tenantId r, sk_expiresAtMs = expiresAtMs\<rparr> secret), wd)))"

definition fetchByShareToken ::
  "(string \<Rightarrow> string \<Rightarrow> nat list) \<Rightarrow> string option \<times> string option \<Rightarrow> millis \<Rightarrow> string \<Rightarrow> 's file_world
     \<Rightarrow> (file_error + file_record) \<times> 's file_world" where
  "fetchByShareToken hmac env now token wd =
     (case resolveShareLinkSecret (fst env) (snd env) of
        None \<Rightarrow> (Inl FileServerError, wd)
      | Some secret \<Rightarrow>
          (case verifyShareLink hmac token secret now of
             Inl ExpiredShareLink \<Rightarrow> (Inl (FileNotFound ''share link expired''), wd)
           | Inl (InvalidShareLink _) \<Rightarrow> (Inl (FileBadRequest ''invalid or expired share link''), wd)
           | Inr l \<Rightarrow>
               (case findByIdInTenant (sk_tenantId l) (sk_fileId l) (wd_rows wd) of
                  None \<Rightarrow> (Inl (FileNotFound ''file not found''), wd)
                | Some r \<Rightarrow> (Inr r, wd))))"

section \<open>Folders\<close>

record folder_row =
  fo_id :: string
  fo_tenantId :: string
  fo_parentId :: "string option"
  fo_name :: string
  fo_deletedAt :: "millis option"

definition folder_insert :: "string \<Rightarrow> string \<Rightarrow> string option \<Rightarrow> string \<Rightarrow> folder_row list \<Rightarrow> (file_error + folder_row) \<times> folder_row list" where
  "folder_insert uuid tenantId parentId name rows = (case rls_tenant None (Some tenantId) of
     Inl e \<Rightarrow> (Inl e, rows)
   | Inr t \<Rightarrow> (let row = \<lparr>fo_id = uuid, fo_tenantId = tenantId, fo_parentId = parentId, fo_name = name, fo_deletedAt = None\<rparr>
               in (Inr row, rows @ [row])))"

definition folder_listByParent :: "string \<Rightarrow> string option \<Rightarrow> folder_row list \<Rightarrow> file_error + folder_row list" where
  "folder_listByParent tenantId parentId rows = (case rls_tenant None (Some tenantId) of
     Inl e \<Rightarrow> Inl e
   | Inr t \<Rightarrow> Inr (filter (\<lambda>w. fo_tenantId w = tenantId \<and> fo_parentId w = parentId \<and> fo_deletedAt w = None) rows))"

text \<open>\<open>scanById\<close> of the folder storage: without the in-memory transaction of the tests it answers null.\<close>

definition folder_scanById :: "folder_row list option \<Rightarrow> string \<Rightarrow> folder_row option" where
  "folder_scanById test_tx i = (case test_tx of Some rows \<Rightarrow> find_first (\<lambda>w. fo_id w = i) rows | None \<Rightarrow> None)"

definition folder_live :: "folder_row option \<Rightarrow> folder_row option" where
  "folder_live w = (case w of None \<Rightarrow> None | Some w \<Rightarrow> if fo_deletedAt w \<noteq> None then None else Some w)"

definition folder_rename :: "folder_row list option \<Rightarrow> string \<Rightarrow> string \<Rightarrow> folder_row list \<Rightarrow> (file_error + folder_row) \<times> folder_row list" where
  "folder_rename test_tx i name rows = (case folder_live (folder_scanById test_tx i) of
     None \<Rightarrow> (Inl (FileNotFound i), rows)
   | Some w \<Rightarrow> (Inr (w\<lparr>fo_name := name\<rparr>), update_where (\<lambda>v. fo_id v = i) (\<lambda>v. v\<lparr>fo_name := name\<rparr>) rows))"

definition folder_remove :: "folder_row list option \<Rightarrow> millis \<Rightarrow> string \<Rightarrow> folder_row list \<Rightarrow> (file_error + unit) \<times> folder_row list" where
  "folder_remove test_tx now i rows = (case folder_live (folder_scanById test_tx i) of
     None \<Rightarrow> (Inl (FileNotFound i), rows)
   | Some w \<Rightarrow> (Inr (), update_where (\<lambda>v. fo_id v = i) (\<lambda>v. v\<lparr>fo_deletedAt := Some now\<rparr>) rows))"

text \<open>The folder routes.\<close>

definition list_folders :: "string option \<Rightarrow> string option \<Rightarrow> folder_row list \<Rightarrow> (file_error + folder_row list) \<times> folder_row list" where
  "list_folders tenant parentId rows = with_tenant tenant (\<lambda>t.
     (folder_listByParent t (if parentId = Some [] then None else parentId) rows, rows)) rows"

definition create_folder ::
  "string \<Rightarrow> string option \<Rightarrow> string option \<Rightarrow> string \<Rightarrow> folder_row list \<Rightarrow> (file_error + folder_row) \<times> folder_row list" where
  "create_folder uuid tenant parentId name rows = with_tenant tenant (\<lambda>t. folder_insert uuid t parentId name rows) rows"

definition delete_folder :: "folder_row list option \<Rightarrow> millis \<Rightarrow> string \<Rightarrow> folder_row list \<Rightarrow> (file_error + bool) \<times> folder_row list" where
  "delete_folder test_tx now i rows = (case folder_remove test_tx now i rows of
     (Inl e, rows') \<Rightarrow> (Inl e, rows') | (Inr _, rows') \<Rightarrow> (Inr True, rows'))"

end
