(* ===== verification/File_Guarantees.thy ===== *)
theory File_Guarantees
  imports File_Service
begin

text \<open>
  What the file routes guarantee: an uploaded file comes back from the archive download under its safe name with its
  bytes, no route touches or shows another tenant's records, and a share link shows its file until it expires.
  The last section holds what the routes do not guarantee: records with a storage key of the caller's choice, infected
  files, and folders.
\<close>

section \<open>Keys of uploads\<close>

lemma uuid_segment:
  assumes "is_uuid v"
  shows "id_segment v" "v \<noteq> ''_tus''" "v \<noteq> ''_quarantine''"
proof -
  have len: "length v = 36" using assms by (simp add: is_uuid_def)
  have chars: "is_hex_ci (v ! i) \<or> v ! i = CHR ''-''" if "i < 36" for i
  proof -
    have run: "is_hex_ci (v ! (m + j))" if "hex_run k (take k (drop m v))" "j < k" "m + k \<le> 36" for m k j
      using that len by (auto simp: hex_run_def list_all_length)
    have runs: "hex_run 8 (take 8 (drop 0 v))" "hex_run 4 (take 4 (drop 9 v))" "hex_run 4 (take 4 (drop 14 v))"
      "hex_run 4 (take 4 (drop 19 v))" "hex_run 12 (take 12 (drop 24 v))"
      using assms len by (simp_all add: is_uuid_def)
    have dashes: "v ! 8 = CHR ''-''" "v ! 13 = CHR ''-''" "v ! 18 = CHR ''-''" "v ! 23 = CHR ''-''"
      using assms by (simp_all add: is_uuid_def)
    have "i < 8 \<or> i = 8 \<or> 9 \<le> i \<and> i < 13 \<or> i = 13 \<or> 14 \<le> i \<and> i < 18 \<or> i = 18 \<or> 19 \<le> i \<and> i < 23 \<or> i = 23 \<or> 24 \<le> i"
      by arith
    moreover have "i < 8 \<Longrightarrow> is_hex_ci (v ! i)" using run [OF runs(1), of i] by simp
    moreover have "9 \<le> i \<and> i < 13 \<Longrightarrow> is_hex_ci (v ! i)" using run [OF runs(2), of "i - 9"] by (simp add: less_diff_conv2)
    moreover have "14 \<le> i \<and> i < 18 \<Longrightarrow> is_hex_ci (v ! i)" using run [OF runs(3), of "i - 14"] by (simp add: less_diff_conv2)
    moreover have "19 \<le> i \<and> i < 23 \<Longrightarrow> is_hex_ci (v ! i)" using run [OF runs(4), of "i - 19"] by (simp add: less_diff_conv2)
    moreover have "24 \<le> i \<Longrightarrow> is_hex_ci (v ! i)" using that run [OF runs(5), of "i - 24"] by (simp add: less_diff_conv2)
    ultimately show ?thesis using dashes by blast
  qed
  have "is_hex_ci c \<or> c = CHR ''-''" if "c \<in> set v" for c
    using that chars len by (metis in_set_conv_nth)
  moreover have "\<not> is_hex_ci (CHR ''/'')" "\<not> is_hex_ci (CHR ''.'')" "\<not> is_hex_ci (CHR ''_'')" by code_simp+
  ultimately have "CHR ''/'' \<notin> set v" "CHR ''.'' \<notin> set v" "CHR ''_'' \<notin> set v" by auto
  then show "id_segment v" "v \<noteq> ''_tus''" "v \<noteq> ''_quarantine''" using len by (auto simp: id_segment_def)
qed

lemma endsWith_after_dash: "endsWith (a @ CHR ''-'' # c) x \<Longrightarrow> CHR ''-'' \<notin> set x \<Longrightarrow> endsWith c x"
  by (auto simp: endsWith_iff append_eq_append_conv2 Cons_eq_append_conv)

lemma built_key:
  assumes segs: "key_segments key = pre @ [fileId @ ''-'' @ clean]" and plain: "list_all id_segment pre" "id_segment fileId" "pre \<noteq> []"
    and depth: "key_depth (hd pre) = Suc (length pre)" and name: "\<not> endsWith clean ''.meta.json''"
  shows "storage_key key"
proof -
  have key: "key = join ''/'' (key_segments key)" by (simp add: key_segments_def join_split_on)
  have plain_segs: "list_all plain_segment (key_segments key)"
    using plain by (cases fileId) (auto simp: segs list_all_iff id_segment_def plain_segment_def)
  have "\<not> str_includes key ''../''"
  proof
    assume "str_includes key ''../''"
    from dots_before_slash [OF this] show False using plain(1) by (auto simp: segs list_all_iff id_segment_def butlast_append)
  qed
  moreover have "\<not> startsWith key ''..''"
  proof
    assume "startsWith key ''..''"
    moreover obtain p ps where pre: "pre = p # ps" using plain(3) by (cases pre) auto
    moreover have "startsWith key p" using join_starts [of "''/''" p] key by (metis pre segs append_Cons)
    ultimately show False using plain(1) by (cases p) (auto simp: startsWith_iff id_segment_def)
  qed
  moreover have "\<not> endsWith key ''.meta.json''"
  proof
    assume "endsWith key ''.meta.json''"
    moreover obtain a where "key = a @ CHR ''-'' # clean"
    proof -
      have "\<exists>a. join ''/'' (xs @ [x]) = a @ x" for xs and x :: string
      proof (induction xs rule: induct_list012)
        case (3 y z zs)
        then show ?case by (metis append_Cons append_assoc join.simps(3))
      qed auto
      then show ?thesis using that key by (metis segs append_Cons append_Nil append_assoc)
    qed
    ultimately show False using endsWith_after_dash name by fastforce
  qed
  moreover have "length (key_segments key) = key_depth (hd (key_segments key))" using depth plain(3) by (simp add: segs)
  ultimately show ?thesis using plain_segs by (simp add: storage_key_def clean_key_def)
qed

lemma resolved_key:
  assumes "resolveStoragePath t folder fileId filename = Inr key" "id_segment t" "id_segment fileId" "id_segment (nullish folder ROOT_SEGMENT)"
    "t \<noteq> ''_tus''" "t \<noteq> ''_quarantine''" "\<forall>clean. sanitiseFilename filename = Inr clean \<longrightarrow> \<not> endsWith clean ''.meta.json''"
  shows "storage_key key" "storage_key (''_quarantine/'' @ key)"
proof -
  obtain clean where clean: "sanitiseFilename filename = Inr clean"
    and key: "key = t @ ''/'' @ nullish folder ROOT_SEGMENT @ ''/'' @ fileId @ ''-'' @ clean"
    using assms(1) by (auto simp: resolveStoragePath_def split: if_splits sum.splits)
  have segs: "key_segments key = [t, nullish folder ROOT_SEGMENT, fileId @ ''-'' @ clean]"
    using assms(2-4) sanitised_name [OF clean] unfolding key key_segments_def
    by (simp add: split_on_append_sep split_on_no_sep id_segment_def)
  have quarantine: "key_segments (''_quarantine/'' @ key) = ''_quarantine'' # key_segments key"
    unfolding key_segments_def using split_on_append_sep [of "CHR ''/''" "''_quarantine''" key] by simp
  show "storage_key key"
    by (rule built_key [of key "[t, nullish folder ROOT_SEGMENT]" fileId clean]) (use assms segs clean in \<open>simp_all add: key_depth_def\<close>)
  show "storage_key (''_quarantine/'' @ key)"
    by (rule built_key [of _ "[''_quarantine'', t, nullish folder ROOT_SEGMENT]" fileId clean])
      (use assms segs clean quarantine in \<open>simp_all add: key_depth_def id_segment_def\<close>)
qed

section \<open>Uploads\<close>

lemma upload_effect:
  assumes "uploadAndCreate sv fileId input wd = (Inr r, wd')"
  obtains key cleanKey where
    "resolveStoragePath (ui_tenantId input) (ui_folderId input) fileId (ui_filename input) = Inr cleanKey"
    "key = cleanKey \<or> key = ''_quarantine/'' @ cleanKey"
    "fc_storageKey r = key" "fc_id r = fileId" "fc_tenantId r = ui_tenantId input" "fc_filename r = ui_filename input"
    "wd_rows wd' = wd_rows wd @ [file_toRow r]"
    "wd_store wd' = snd (sv_put sv key (ui_bytes input) (ui_mimeType input) (wd_store wd))"
    "is_uuid (ui_tenantId input)"
  using assms
  by (auto simp: uploadAndCreate_def file_insert_def rls_tenant_def Let_def file_toRow_def
      split: if_splits sum.splits prod.splits)

lemma find_uploaded:
  assumes "is_uuid t" "fc_tenantId r = t" "fc_id r = i" "i \<notin> fc_id ` set rows"
  shows "file_findById (Some t) i (rows @ [file_toRow r]) = Some (file_fromRow (file_toRow r))"
proof -
  have t: "t \<noteq> []" using assms(1) by (auto simp: is_uuid_def)
  have "find_first (\<lambda>w. fc_id w = i) (rls t rows) = None"
    using assms(4) by (auto simp: find_first_None rls_def)
  then show ?thesis
    using t assms by (simp add: file_findById_def scanById_def rls_tenant_def rls_def find_first_append live_row_def file_toRow_def)
qed

lemma zip_one:
  assumes "file_findById (Some t) i (wd_rows wd) = Some r" "sv_get sv (fc_storageKey r) (wd_store wd) = Inr bytes" "i \<noteq> []"
    and size: "length (encode_name (safeZipFilename (fc_filename r))) < 2 ^ 16"
      "76 + 2 * length (encode_name (safeZipFilename (fc_filename r))) + length bytes + 22 < 2 ^ 32"
  shows "\<exists>archive. fst (downloadZip sv (Some t) (Some (JArr [JStr i])) wd) = Inr archive
    \<and> unzip archive = Some [(safeZipFilename (fc_filename r), bytes)]"
proof -
  let ?entries = "[\<lparr>ze_filename = safeZipFilename (fc_filename r), ze_bytes = bytes\<rparr>]"
  have "unzip (zip_layout ?entries) = Some (take (length ?entries mod 2 ^ 16) (map (\<lambda>e. (ze_filename e, ze_bytes e)) ?entries))"
    by (rule unzip_layout) (use size in \<open>simp_all add: length_zip_layout\<close>)
  moreover have "string_ids [JStr i] = [i]" using assms(3) by (simp add: string_ids_def List.map_filter_simps)
  ultimately show ?thesis
    using assms(1,2) by (simp add: downloadZip_def buildZipArchive_layout)
qed

context blob_store
begin

lemma uploaded_bytes:
  assumes "uploadAndCreate sv fileId input wd = (Inr r, wd')" "sv_put sv = put" "inv (wd_store wd)"
    and ids: "is_uuid fileId" "id_segment (nullish (ui_folderId input) ROOT_SEGMENT)"
    and name: "\<forall>clean. sanitiseFilename (ui_filename input) = Inr clean \<longrightarrow> \<not> endsWith clean ''.meta.json''"
  shows "get (fc_storageKey r) (wd_store wd') = Inr (ui_bytes input)"
proof -
  obtain key cleanKey where key: "resolveStoragePath (ui_tenantId input) (ui_folderId input) fileId (ui_filename input) = Inr cleanKey"
    "key = cleanKey \<or> key = ''_quarantine/'' @ cleanKey" "fc_storageKey r = key"
    "wd_store wd' = snd (sv_put sv key (ui_bytes input) (ui_mimeType input) (wd_store wd))" "is_uuid (ui_tenantId input)"
    using upload_effect [OF assms(1)] by metis
  note keys = resolved_key [OF key(1) uuid_segment(1) [OF key(5)] uuid_segment(1) [OF ids(1)] ids(2) uuid_segment(2,3) [OF key(5)] name]
  have "storage_key key" using key(2) keys by blast
  then show ?thesis using get_put [of key key] assms(2,3) key(3,4) by simp
qed

lemma upload_download:
  assumes upload: "uploadAndCreate sv fileId input wd = (Inr r, wd')" "sv_put sv = put" "sv_get sv = get" "inv (wd_store wd)"
    and ids: "is_uuid fileId" "fileId \<notin> fc_id ` set (wd_rows wd)" "id_segment (nullish (ui_folderId input) ROOT_SEGMENT)"
    and name: "\<forall>clean. sanitiseFilename (ui_filename input) = Inr clean \<longrightarrow> \<not> endsWith clean ''.meta.json''"
    and size: "length (encode_name (safeZipFilename (ui_filename input))) < 2 ^ 16" "length (ui_bytes input) < 2 ^ 31"
  shows "\<exists>archive. fst (downloadZip sv (Some (ui_tenantId input)) (Some (JArr [JStr fileId])) wd') = Inr archive
    \<and> unzip archive = Some [(safeZipFilename (ui_filename input), ui_bytes input)]"
proof -
  have bytes: "sv_get sv (fc_storageKey r) (wd_store wd') = Inr (ui_bytes input)"
    using uploaded_bytes [OF upload(1,2,4) ids(1,3) name] upload(3) by simp
  obtain key where r: "fc_storageKey r = key" "fc_id r = fileId" "fc_tenantId r = ui_tenantId input" "fc_filename r = ui_filename input"
    "wd_rows wd' = wd_rows wd @ [file_toRow r]" "is_uuid (ui_tenantId input)"
    using upload_effect [OF upload(1)] by metis
  have "file_findById (Some (ui_tenantId input)) fileId (wd_rows wd') = Some (file_fromRow (file_toRow r))"
    unfolding r(5) by (rule find_uploaded [OF r(6,3,2) ids(2)])
  moreover have "fc_storageKey (file_fromRow (file_toRow r)) = fc_storageKey r" "fc_filename (file_fromRow (file_toRow r)) = ui_filename input"
    by (simp_all add: file_fromRow_def file_toRow_def r(4))
  moreover have "fileId \<noteq> []" using ids(1) by (auto simp: is_uuid_def)
  ultimately show ?thesis
    using zip_one [of "ui_tenantId input" fileId wd' "file_fromRow (file_toRow r)" sv "ui_bytes input"] bytes size by simp
qed

end

definition sample_uuid :: "char \<Rightarrow> string" where
  "sample_uuid c = ''01890000-0000-7000-8000-00000000000'' @ [c]"

lemma sample_uuid_ok: "is_uuid (sample_uuid (CHR ''1''))" "is_uuid (sample_uuid (CHR ''2''))" "is_uuid (sample_uuid (CHR ''3''))"
  by code_simp+

definition sample_upload :: upload_input where
  "sample_upload = \<lparr>ui_tenantId = sample_uuid (CHR ''1''), ui_folderId = None, ui_filename = ''../a.txt'', ui_mimeType = ''text/plain'',
     ui_uploaderId = sample_uuid (CHR ''3''), ui_bytes = [104, 105]\<rparr>"

definition local_service :: "string list \<Rightarrow> (buffer \<Rightarrow> string + scan_verdict \<times> string option) option \<Rightarrow> file_system file_service" where
  "local_service root scanner = \<lparr>sv_put = local_put root, sv_get = local_get root, sv_driver = ''local'', sv_scanner = scanner,
     sv_policy = None, sv_strictMime = False, sv_accepts = (\<lambda>w rows. True), sv_sha256 = (\<lambda>bytes. ''digest'')\<rparr>"

definition empty_world :: "string list \<Rightarrow> file_system file_world" where
  "empty_world root = \<lparr>wd_rows = [], wd_store = fresh_files root\<rparr>"

text \<open>C6: What is uploaded comes back.  After a successful upload to the file system under a fresh identifier, the archive download of that
  identifier in the uploader's tenant succeeds, and an extractor finds in it exactly one file, with the
  safe form of its name and the uploaded bytes.\<close>

theorem uploaded_file_comes_back:
  assumes "uploadAndCreate sv fileId input wd = (Inr r, wd')" "sv_put sv = local_put root" "sv_get sv = local_get root"
      "local_inv root (wd_store wd)"
    and "is_uuid fileId" "fileId \<notin> fc_id ` set (wd_rows wd)" "id_segment (nullish (ui_folderId input) ROOT_SEGMENT)"
    and "\<forall>clean. sanitiseFilename (ui_filename input) = Inr clean \<longrightarrow> \<not> endsWith clean ''.meta.json''"
    and "length (encode_name (safeZipFilename (ui_filename input))) < 2 ^ 16" "length (ui_bytes input) < 2 ^ 31"
  shows "\<exists>archive. fst (downloadZip sv (Some (ui_tenantId input)) (Some (JArr [JStr fileId])) wd') = Inr archive
    \<and> unzip archive = Some [(safeZipFilename (ui_filename input), ui_bytes input)]"
  using assms by (rule local_fs.upload_download)

definition sample_uploaded :: "(file_error + file_record) \<times> file_system file_world" where
  "sample_uploaded = uploadAndCreate (local_service [''srv''] None) (sample_uuid (CHR ''2'')) sample_upload (empty_world [''srv''])"

lemma sample_uploaded_ok: "\<not> isl (fst sample_uploaded)"
  by code_simp

lemma sample_upload_facts:
  "\<exists>r. uploadAndCreate (local_service [''srv''] None) (sample_uuid (CHR ''2'')) sample_upload (empty_world [''srv'']) = (Inr r, snd sample_uploaded)"
  "local_inv [''srv''] (wd_store (empty_world [''srv'']))" "id_segment (nullish (ui_folderId sample_upload) ROOT_SEGMENT)"
  "sanitiseFilename (ui_filename sample_upload) = Inr ''a.txt''" "safeZipFilename (ui_filename sample_upload) = ''a.txt''"
  "\<not> endsWith ''a.txt'' ''.meta.json''" "length (encode_name ''a.txt'') = 5"
  "ui_tenantId sample_upload = sample_uuid (CHR ''1'')" "ui_bytes sample_upload = [104, 105]"
proof -
  show "\<exists>r. uploadAndCreate (local_service [''srv''] None) (sample_uuid (CHR ''2'')) sample_upload (empty_world [''srv'']) = (Inr r, snd sample_uploaded)"
    using sample_uploaded_ok unfolding sample_uploaded_def by (metis isl_def prod.collapse sum.exhaust_sel)
  show "local_inv [''srv''] (wd_store (empty_world [''srv'']))"
    unfolding empty_world_def by (simp add: fresh_files_inv plain_segment_def)
  show "id_segment (nullish (ui_folderId sample_upload) ROOT_SEGMENT)" "sanitiseFilename (ui_filename sample_upload) = Inr ''a.txt''"
    "safeZipFilename (ui_filename sample_upload) = ''a.txt''" "\<not> endsWith ''a.txt'' ''.meta.json''" "length (encode_name ''a.txt'') = 5"
    by code_simp+
  show "ui_tenantId sample_upload = sample_uuid (CHR ''1'')" "ui_bytes sample_upload = [104, 105]"
    by (simp_all add: sample_upload_def)
qed

theorem uploaded_file_comes_back_witness:
  "\<exists>archive. fst (downloadZip (local_service [''srv''] None) (Some (sample_uuid (CHR ''1'')))
       (Some (JArr [JStr (sample_uuid (CHR ''2''))])) (snd sample_uploaded)) = Inr archive
     \<and> unzip archive = Some [(''a.txt'', [104, 105])]"
proof -
  obtain r where up: "uploadAndCreate (local_service [''srv''] None) (sample_uuid (CHR ''2'')) sample_upload (empty_world [''srv'']) =
      (Inr r, snd sample_uploaded)" using sample_upload_facts(1) by blast
  show ?thesis
    using uploaded_file_comes_back [OF up _ _ _ sample_uuid_ok(2), of "[''srv'']"] sample_upload_facts(2-)
    by (simp add: local_service_def empty_world_def)
qed

lemma sample_archived:
  "\<exists>archive. fst (downloadZip (local_service [''srv''] None) (Some (sample_uuid (CHR ''1'')))
     (Some (JArr [JStr (sample_uuid (CHR ''2''))])) (snd sample_uploaded)) = Inr archive"
proof -
  obtain r where up: "uploadAndCreate (local_service [''srv''] None) (sample_uuid (CHR ''2'')) sample_upload (empty_world [''srv'']) =
      (Inr r, snd sample_uploaded)" using sample_upload_facts(1) by blast
  show ?thesis
    using local_fs.upload_download [OF up _ _ _ sample_uuid_ok(2), of "[''srv'']"] sample_upload_facts(2-)
    by (auto simp: local_service_def empty_world_def)
qed

section \<open>Tenants\<close>

text \<open>The nine routes of the file controller, with everything they answer.  The context holds HMAC-SHA256, the two environment
  variables of the share-link secret and the clock.\<close>

datatype file_request = ListFiles "string option" | GetFile string | UploadFile string upload_body | CreateFile string create_body
  | SetVisibility string "json option" | DownloadZip "json option" | RemoveFile string | IssueShareLink string "int option"
  | FetchShared string

datatype file_response = Records "file_record list" | Archive buffer | Removed bool | ShareToken string millis

record file_context =
  fx_hmac :: "string \<Rightarrow> string \<Rightarrow> nat list"
  fx_env :: "string option \<times> string option"
  fx_now :: millis

definition respond :: "('a \<Rightarrow> file_response) \<Rightarrow> (file_error + 'a) \<times> 'w \<Rightarrow> (file_error + file_response) \<times> 'w" where
  "respond f = map_prod (map_sum id f) id"

fun serve_file ::
  "file_context \<Rightarrow> 's file_service \<Rightarrow> string option \<Rightarrow> file_request \<Rightarrow> 's file_world \<Rightarrow> (file_error + file_response) \<times> 's file_world" where
  "serve_file cx sv tenant (ListFiles folder) wd = respond Records (list_files tenant folder wd)"
| "serve_file cx sv tenant (GetFile i) wd = respond (\<lambda>r. Records [r]) (get_file tenant i wd)"
| "serve_file cx sv tenant (UploadFile uuid body) wd = respond (\<lambda>r. Records [r]) (upload_file sv uuid tenant body wd)"
| "serve_file cx sv tenant (CreateFile uuid body) wd = respond (\<lambda>r. Records [r]) (create_file sv uuid tenant body wd)"
| "serve_file cx sv tenant (SetVisibility i v) wd = respond (\<lambda>r. Records [r]) (set_visibility tenant i v wd)"
| "serve_file cx sv tenant (DownloadZip body) wd = respond Archive (downloadZip sv tenant body wd)"
| "serve_file cx sv tenant (RemoveFile i) wd = respond Removed (remove_file tenant (fx_now cx) i wd)"
| "serve_file cx sv tenant (IssueShareLink i ttl) wd =
     respond (\<lambda>(token, e). ShareToken token e) (issueShareLink (fx_hmac cx) (fx_env cx) (fx_now cx) tenant i ttl wd)"
| "serve_file cx sv tenant (FetchShared token) wd =
     respond (\<lambda>r. Records [r]) (fetchByShareToken (fx_hmac cx) (fx_env cx) (fx_now cx) token wd)"

text \<open>The rows of the request's tenant, those of the others, and the record of a live row.\<close>

definition own :: "string option \<Rightarrow> file_row list \<Rightarrow> file_row list" where
  "own tenant rows = filter (\<lambda>w. Some (fc_tenantId w) = tenant) rows"

definition foreign :: "string option \<Rightarrow> file_row list \<Rightarrow> file_row list" where
  "foreign tenant rows = filter (\<lambda>w. Some (fc_tenantId w) \<noteq> tenant) rows"

definition live_record :: "string option \<Rightarrow> string \<Rightarrow> file_row list \<Rightarrow> file_record \<Rightarrow> bool" where
  "live_record tenant i rows r \<longleftrightarrow> (\<exists>w\<in>set (own tenant rows). fc_id w = i \<and> fw_deletedAt w = None \<and> r = file_fromRow w)"

text \<open>What a response may show.  The archive consists of the named live files of the tenant with the bytes behind their storage keys;
  a removal and a share link concern a live file of the tenant; the public share route shows the live file its token was signed for.\<close>

definition zipped :: "'s file_service \<Rightarrow> string option \<Rightarrow> 's file_world \<Rightarrow> string \<Rightarrow> zip_entry \<Rightarrow> bool" where
  "zipped sv tenant wd i e \<longleftrightarrow> (\<exists>r. live_record tenant i (wd_rows wd) r \<and> ze_filename e = safeZipFilename (fc_filename r) \<and>
     sv_get sv (fc_storageKey r) (wd_store wd) = Inr (ze_bytes e))"

definition shows_own :: "file_context \<Rightarrow> 's file_service \<Rightarrow> string option \<Rightarrow> file_request \<Rightarrow> 's file_world \<Rightarrow> file_response \<Rightarrow> bool" where
  "shows_own cx sv tenant req wd resp =
     (case resp of
        Archive archive \<Rightarrow> (\<exists>vs entries. req = DownloadZip (Some (JArr vs)) \<and>
          list_all2 (zipped sv tenant wd) (string_ids vs) entries \<and> buildZipArchive entries = Inr archive)
      | Removed b \<Rightarrow> b \<and> (\<exists>i r. req = RemoveFile i \<and> live_record tenant i (wd_rows wd) r)
      | ShareToken token e \<Rightarrow> (\<exists>i ttl r t secret. req = IssueShareLink i ttl \<and> live_record tenant i (wd_rows wd) r \<and> tenant = Some t \<and>
          resolveShareLinkSecret (fst (fx_env cx)) (snd (fx_env cx)) = Some secret \<and>
          signShareLink (fx_hmac cx) \<lparr>sk_fileId = i, sk_tenantId = t, sk_expiresAtMs = e\<rparr> secret = Inr token)
      | Records rs \<Rightarrow>
          (case req of
             FetchShared token \<Rightarrow> (\<exists>r secret l. rs = [r] \<and> resolveShareLinkSecret (fst (fx_env cx)) (snd (fx_env cx)) = Some secret \<and>
               verifyShareLink (fx_hmac cx) token secret (fx_now cx) = Inr l \<and> live_record (Some (sk_tenantId l)) (sk_fileId l) (wd_rows wd) r)
           | _ \<Rightarrow> \<forall>r\<in>set rs. Some (fc_tenantId r) = tenant))"

definition confined ::
  "file_context \<Rightarrow> 's file_service \<Rightarrow> string option \<Rightarrow> file_request \<Rightarrow> 's file_world \<Rightarrow> (file_error + file_response) \<times> 's file_world \<Rightarrow> bool" where
  "confined cx sv tenant req wd out \<longleftrightarrow> foreign tenant (wd_rows (snd out)) = foreign tenant (wd_rows wd)
     \<and> (\<forall>resp. fst out = Inr resp \<longrightarrow> shows_own cx sv tenant req wd resp)"

lemma rls_tenant_None: "rls_tenant tenant None = Inr t \<Longrightarrow> tenant = Some t"
  by (auto simp: rls_tenant_def split: option.splits if_splits)

lemma rls_own: "rls t rows = own (Some t) rows" "own tenant (own tenant rows) = own tenant rows"
  by (simp_all add: rls_def own_def)

lemma scan_cases: "scanById tenant i rows = (case rls_tenant tenant None of Inl e \<Rightarrow> None | Inr t \<Rightarrow> find_first (\<lambda>w. fc_id w = i) (own tenant rows))"
  by (auto simp: scanById_def rls_own split: sum.split dest: rls_tenant_None)

lemma scan_live: "scanById tenant i rows = Some w \<Longrightarrow> w \<in> set (own tenant rows) \<and> fc_id w = i"
  by (auto simp: scan_cases split: sum.splits dest!: find_first_Some)

lemma scan_own: "scanById tenant i rows = Some w \<Longrightarrow> Some (fc_tenantId w) = tenant"
  using scan_live by (fastforce simp: own_def)

lemma live_row_Some: "live_row w = Some v \<longleftrightarrow> w = Some v \<and> fw_deletedAt v = None"
  by (cases w) (auto simp: live_row_def)

lemma findById_live: "file_findById tenant i rows = Some r \<Longrightarrow> live_record tenant i rows r"
  by (auto simp: file_findById_def live_row_Some live_record_def dest!: scan_live)

lemma live_record_own: "live_record tenant i rows r \<Longrightarrow> Some (fc_tenantId r) = tenant \<and> fc_id r = i"
  by (auto simp: live_record_def own_def file_fromRow_def)

lemma findById_own: "file_findById tenant i rows = Some r \<Longrightarrow> Some (fc_tenantId r) = tenant"
  using findById_live live_record_own by blast

lemma update_foreign:
  assumes "Some t = tenant" "\<And>v. fc_tenantId (f v) = fc_tenantId v"
  shows "foreign tenant (update_where (\<lambda>v. fc_id v = i \<and> fc_tenantId v = t) f rows) = foreign tenant rows"
  using assms by (induction rows) (auto simp: foreign_def)

lemma file_update_own:
  assumes "\<And>v. fc_tenantId (patch v) = fc_tenantId v"
  shows "foreign tenant (snd (file_update tenant i patch rows)) = foreign tenant rows"
    "fst (file_update tenant i patch rows) = Some r \<Longrightarrow> Some (fc_tenantId r) = tenant"
  using assms
  by (auto simp: file_update_def live_row_Some file_fromRow_def scan_own intro!: update_foreign split: option.splits)

lemma file_delete_own:
  "foreign tenant (snd (file_delete tenant now i rows)) = foreign tenant rows"
  "fst (file_delete tenant now i rows) \<Longrightarrow> \<exists>r. live_record tenant i rows r"
proof -
  show "foreign tenant (snd (file_delete tenant now i rows)) = foreign tenant rows"
    by (auto simp: file_delete_def live_row_Some scan_own intro!: update_foreign split: option.splits)
  show "fst (file_delete tenant now i rows) \<Longrightarrow> \<exists>r. live_record tenant i rows r"
    by (auto simp: file_delete_def live_row_Some live_record_def split: option.splits dest!: scan_live)
qed

lemma file_insert_own:
  "foreign (Some (fc_tenantId r)) (snd (file_insert accepts r rows)) = foreign (Some (fc_tenantId r)) rows"
  "fst (file_insert accepts r rows) = Inr r' \<Longrightarrow> fc_tenantId r' = fc_tenantId r"
  by (auto simp: file_insert_def foreign_def file_toRow_def file_fromRow_def split: sum.splits if_splits)

lemma with_tenant_cases:
  assumes "\<And>e. P (Inl e, wd)" "\<And>t. tenant = Some t \<Longrightarrow> P (f t)"
  shows "P (with_tenant tenant f wd)"
proof (cases "requireTenantContext tenant")
  case (Inr t)
  then have "tenant = Some t" by (auto simp: requireTenantContext_def split: option.splits if_splits)
  then show ?thesis using Inr assms(2) by (simp add: with_tenant_def)
qed (use assms(1) in \<open>simp add: with_tenant_def\<close>)

lemma upload_own:
  "foreign (Some (ui_tenantId input)) (wd_rows (snd (uploadAndCreate sv i input wd))) = foreign (Some (ui_tenantId input)) (wd_rows wd)"
  "fst (uploadAndCreate sv i input wd) = Inr r \<Longrightarrow> fc_tenantId r = ui_tenantId input"
proof -
  show "fst (uploadAndCreate sv i input wd) = Inr r \<Longrightarrow> fc_tenantId r = ui_tenantId input"
    using upload_effect [of sv i input wd r "snd (uploadAndCreate sv i input wd)"] by (metis prod.collapse)
  show "foreign (Some (ui_tenantId input)) (wd_rows (snd (uploadAndCreate sv i input wd))) = foreign (Some (ui_tenantId input)) (wd_rows wd)"
    by (auto simp: uploadAndCreate_def file_insert_def foreign_def file_toRow_def Let_def split: if_splits sum.splits prod.splits)
qed

text \<open>One lemma per kind of response, then the routes.\<close>

lemma confined_respond:
  assumes "foreign tenant (wd_rows (snd out)) = foreign tenant (wd_rows wd)"
    "\<And>v. fst out = Inr v \<Longrightarrow> shows_own cx sv tenant req wd (f v)"
  shows "confined cx sv tenant req wd (respond f out)"
  using assms by (cases out; cases "fst out") (auto simp: confined_def respond_def)

lemma confined_record:
  assumes "foreign tenant (wd_rows (snd out)) = foreign tenant (wd_rows wd)"
    "\<And>r. fst out = Inr r \<Longrightarrow> Some (fc_tenantId r) = tenant" "\<nexists>token. req = FetchShared token"
  shows "confined cx sv tenant req wd (respond (\<lambda>r. Records [r]) out)"
  using assms by (intro confined_respond) (auto simp: shows_own_def split: file_request.splits)

lemma confined_refused: "confined cx sv tenant req wd (respond f (Inl e, wd))"
  by (simp add: confined_def respond_def)

lemma with_tenant_confined:
  assumes "\<And>t. tenant = Some t \<Longrightarrow> confined cx sv tenant req wd (respond g (f t))"
  shows "confined cx sv tenant req wd (respond g (with_tenant tenant f wd))"
  using assms by (intro with_tenant_cases [where P = "\<lambda>out. confined cx sv tenant req wd (respond g out)"] confined_refused)

lemma list_confined: "confined cx sv tenant (ListFiles folder) wd (respond Records (list_files tenant folder wd))"
  unfolding list_files_def
  by (intro with_tenant_confined confined_respond)
    (auto simp: shows_own_def listByFolder_def file_fromRow_def split: sum.splits)

lemma upload_confined: "confined cx sv tenant (UploadFile uuid body) wd (respond (\<lambda>r. Records [r]) (upload_file sv uuid tenant body wd))"
  unfolding upload_file_def
proof (intro with_tenant_confined)
  fix t assume "tenant = Some t"
  then have "confined cx sv tenant (UploadFile uuid body) wd (respond (\<lambda>r. Records [r]) (uploadAndCreate sv uuid input wd))"
    if "ui_tenantId input = t" for input
    using that upload_own [where input = input and sv = sv and i = uuid and wd = wd] by (intro confined_record) auto
  then show "confined cx sv tenant (UploadFile uuid body) wd (respond (\<lambda>r. Records [r])
      (if \<not> truthy (ub_uploaderId body) then (Inl (FileBadRequest ''uploaderId required''), wd)
       else if \<not> truthy (ub_filename body) then (Inl (FileBadRequest ''filename required''), wd)
       else if \<not> truthy (ub_contents body) then (Inl (FileBadRequest ''contentsBase64 required''), wd)
       else uploadAndCreate sv uuid
         \<lparr>ui_tenantId = t, ui_folderId = ub_folderId body, ui_filename = ub_filename body,
          ui_mimeType = nullish (ub_mimeType body) ''application/octet-stream'', ui_uploaderId = ub_uploaderId body,
          ui_bytes = map of_nat (base64url_decode (ub_contents body))\<rparr> wd))"
    by (simp add: confined_refused)
qed

lemma create_confined: "confined cx sv tenant (CreateFile uuid body) wd (respond (\<lambda>r. Records [r]) (create_file sv uuid tenant body wd))"
  unfolding create_file_def
proof (intro with_tenant_confined)
  fix t assume t: "tenant = Some t"
  define r where "r = \<lparr>fc_id = nullish (cb_id body) uuid, fc_tenantId = t, fc_folderId = cb_folderId body,
    fc_filename = cb_filename body, fc_mimeType = cb_mimeType body, fc_sizeBytes = cb_sizeBytes body,
    fc_sha256 = cb_sha256 body, fc_storageDriver = cb_storageDriver body, fc_storageKey = cb_storageKey body,
    fc_uploaderId = cb_uploaderId body, fr_visibility = PRIVATE, fr_scanVerdict = None, fr_scanThreatName = None\<rparr>"
  have r: "fc_tenantId r = t" by (simp add: r_def)
  have "file_create sv uuid t body wd = (fst (file_insert (sv_accepts sv) r (wd_rows wd)),
      wd\<lparr>wd_rows := snd (file_insert (sv_accepts sv) r (wd_rows wd))\<rparr>)"
    by (simp add: file_create_def Let_def split_beta r_def)
  then show "confined cx sv tenant (CreateFile uuid body) wd (respond (\<lambda>r. Records [r]) (file_create sv uuid t body wd))"
    using file_insert_own [where r = r] r t by (intro confined_record) auto
qed

lemma visibility_confined: "confined cx sv tenant (SetVisibility i v) wd (respond (\<lambda>r. Records [r]) (set_visibility tenant i v wd))"
proof -
  have "foreign tenant (wd_rows (snd (file_setVisibility tenant i b wd))) = foreign tenant (wd_rows wd)"
    "fst (file_setVisibility tenant i b wd) = Inr r \<Longrightarrow> Some (fc_tenantId r) = tenant" for b r
    using file_update_own [of "\<lambda>w. w\<lparr>fw_visibility := b\<rparr>" tenant i "wd_rows wd"]
    by (auto simp: file_setVisibility_def split_beta split: option.splits)
  then show ?thesis by (intro confined_record) (auto simp: set_visibility_def split: if_splits)
qed

lemma map_sum_Inr: "map_sum f g x = Inr y \<longleftrightarrow> (\<exists>z. x = Inr z \<and> y = g z)"
  by (cases x) auto

lemma zip_entries_zipped: "zip_entries sv tenant wd ids = Inr entries \<Longrightarrow> list_all2 (zipped sv tenant wd) ids entries"
proof (induction ids arbitrary: entries)
  case (Cons i ids)
  obtain r bytes es where "file_findById tenant i (wd_rows wd) = Some r" "sv_get sv (fc_storageKey r) (wd_store wd) = Inr bytes"
    "zip_entries sv tenant wd ids = Inr es" "entries = \<lparr>ze_filename = safeZipFilename (fc_filename r), ze_bytes = bytes\<rparr> # es"
    using Cons.prems by (auto split: option.splits sum.splits simp: map_sum_Inr)
  with Cons.IH findById_live show ?case by (fastforce simp: zipped_def)
qed simp

lemma zip_confined: "confined cx sv tenant (DownloadZip body) wd (respond Archive (downloadZip sv tenant body wd))"
proof (rule confined_respond)
  show "foreign tenant (wd_rows (snd (downloadZip sv tenant body wd))) = foreign tenant (wd_rows wd)"
    by (simp add: downloadZip_def Let_def split: option.split json.split sum.split)
  fix archive assume "fst (downloadZip sv tenant body wd) = Inr archive"
  then obtain vs entries where "body = Some (JArr vs)" "zip_entries sv tenant wd (string_ids vs) = Inr entries"
    "buildZipArchive entries = Inr archive"
    by (auto simp: downloadZip_def Let_def map_sum_Inr split: option.splits json.splits sum.splits if_splits)
  then show "shows_own cx sv tenant (DownloadZip body) wd (Archive archive)"
    using zip_entries_zipped [of sv tenant wd "string_ids vs" entries] by (auto simp: shows_own_def)
qed

lemma remove_confined: "confined cx sv tenant (RemoveFile i) wd (respond Removed (remove_file tenant now i wd))"
proof (rule confined_respond)
  show "foreign tenant (wd_rows (snd (remove_file tenant now i wd))) = foreign tenant (wd_rows wd)"
    using file_delete_own(1) [of tenant now i "wd_rows wd"]
    by (auto simp: remove_file_def file_remove_def split_beta split: prod.split sum.split)
  fix b assume "fst (remove_file tenant now i wd) = Inr b"
  then have "b" "fst (file_delete tenant now i (wd_rows wd))"
    by (auto simp: remove_file_def file_remove_def split_beta split: if_splits)
  then show "shows_own cx sv tenant (RemoveFile i) wd (Removed b)"
    using file_delete_own(2) by (fastforce simp: shows_own_def)
qed

lemma share_confined: "confined cx sv tenant (IssueShareLink i ttl) wd (respond (\<lambda>(token, e). ShareToken token e)
    (issueShareLink (fx_hmac cx) (fx_env cx) (fx_now cx) tenant i ttl wd))"
proof (rule confined_respond)
  let ?out = "issueShareLink (fx_hmac cx) (fx_env cx) (fx_now cx) tenant i ttl wd"
  show "foreign tenant (wd_rows (snd ?out)) = foreign tenant (wd_rows wd)"
    by (auto simp: issueShareLink_def Let_def split: option.split)
  fix v assume v: "fst ?out = Inr v"
  obtain token e where te: "v = (token, e)" by (cases v)
  obtain r secret where r: "file_findById tenant i (wd_rows wd) = Some r"
    and s: "resolveShareLinkSecret (fst (fx_env cx)) (snd (fx_env cx)) = Some secret"
    and sign: "signShareLink (fx_hmac cx) \<lparr>sk_fileId = i, sk_tenantId = fc_tenantId r, sk_expiresAtMs = e\<rparr> secret = Inr token"
    using v by (auto simp: te issueShareLink_def Let_def map_sum_Inr split: option.splits)
  have "tenant = Some (fc_tenantId r)" using findById_own [OF r] by simp
  then show "shows_own cx sv tenant (IssueShareLink i ttl) wd (case v of (token, e) \<Rightarrow> ShareToken token e)"
    unfolding te shows_own_def using findById_live [OF r] s sign by auto
qed

lemma shared_confined: "confined cx sv tenant (FetchShared token) wd (respond (\<lambda>r. Records [r])
    (fetchByShareToken (fx_hmac cx) (fx_env cx) (fx_now cx) token wd))"
proof (rule confined_respond)
  let ?out = "fetchByShareToken (fx_hmac cx) (fx_env cx) (fx_now cx) token wd"
  show "foreign tenant (wd_rows (snd ?out)) = foreign tenant (wd_rows wd)"
    by (auto simp: fetchByShareToken_def split: option.split sum.split share_error.split)
  fix r assume "fst ?out = Inr r"
  then obtain secret l where s: "resolveShareLinkSecret (fst (fx_env cx)) (snd (fx_env cx)) = Some secret"
    "verifyShareLink (fx_hmac cx) token secret (fx_now cx) = Inr l" "findByIdInTenant (sk_tenantId l) (sk_fileId l) (wd_rows wd) = Some r"
    by (auto simp: fetchByShareToken_def split: option.splits sum.splits share_error.splits)
  then have "live_record (Some (sk_tenantId l)) (sk_fileId l) (wd_rows wd) r"
    by (auto simp: findByIdInTenant_def live_row_Some live_record_def own_def rls_def split: sum.splits dest!: find_first_Some)
  with s show "shows_own cx sv tenant (FetchShared token) wd (Records [r])" by (auto simp: shows_own_def)
qed

lemma serve_confined: "confined cx sv tenant req wd (serve_file cx sv tenant req wd)"
proof (cases req)
  case (GetFile i)
  have "confined cx sv tenant (GetFile i) wd (respond (\<lambda>r. Records [r]) (get_file tenant i wd))"
    by (intro confined_record) (auto simp: get_file_def findById_own split: option.splits)
  then show ?thesis by (simp add: GetFile)
qed (simp_all add: list_confined upload_confined create_confined visibility_confined zip_confined remove_confined share_confined
    shared_confined)

text \<open>The routes that insert nothing answer from the tenant's own rows alone.\<close>

definition inserts_nothing :: "file_request \<Rightarrow> bool" where
  "inserts_nothing req \<longleftrightarrow> (case req of UploadFile _ _ \<Rightarrow> False | CreateFile _ _ \<Rightarrow> False | FetchShared _ \<Rightarrow> False | _ \<Rightarrow> True)"

definition only_own :: "string option \<Rightarrow> 's file_world \<Rightarrow> 's file_world" where
  "only_own tenant wd = wd\<lparr>wd_rows := own tenant (wd_rows wd)\<rparr>"

lemma only_own_reads:
  "file_findById tenant i (own tenant rows) = file_findById tenant i rows"
  "fst (file_update tenant i patch (own tenant rows)) = fst (file_update tenant i patch rows)"
  "fst (file_delete tenant now i (own tenant rows)) = fst (file_delete tenant now i rows)"
  "listByFolder t folder (own (Some t) rows) = listByFolder t folder rows"
  by (simp_all add: file_findById_def file_update_def file_delete_def listByFolder_def scan_cases rls_own
      rls_tenant_def split: option.split)

lemma only_own_entries: "zip_entries sv tenant (only_own tenant wd) ids = zip_entries sv tenant wd ids"
  by (induction ids) (simp_all add: only_own_def only_own_reads split: option.split sum.split)

lemma only_own_respond: "fst out = fst out' \<Longrightarrow> fst (respond f out) = fst (respond f out')"
  by (simp add: respond_def)

lemma serve_from_own:
  assumes "inserts_nothing req"
  shows "fst (serve_file cx sv tenant req (only_own tenant wd)) = fst (serve_file cx sv tenant req wd)"
proof (cases req)
  case (ListFiles folder)
  have "fst (list_files tenant folder (only_own tenant wd)) = fst (list_files tenant folder wd)"
  proof (cases "requireTenantContext tenant")
    case (Inr t)
    then have t: "tenant = Some t" by (auto simp: requireTenantContext_def split: option.splits if_splits)
    show ?thesis using only_own_reads(4) by (simp add: list_files_def with_tenant_def Inr [unfolded t] only_own_def t)
  qed (simp add: list_files_def with_tenant_def)
  then show ?thesis unfolding ListFiles serve_file.simps by (rule only_own_respond)
next
  case (GetFile i)
  show ?thesis unfolding GetFile serve_file.simps
    by (intro only_own_respond) (simp add: get_file_def only_own_reads only_own_def split: option.split)
next
  case (SetVisibility i v)
  have "fst (file_setVisibility tenant i b (only_own tenant wd)) = fst (file_setVisibility tenant i b wd)" for b
    by (simp add: file_setVisibility_def only_own_def only_own_reads split_beta)
  then show ?thesis unfolding SetVisibility serve_file.simps by (intro only_own_respond) (simp add: set_visibility_def)
next
  case (DownloadZip body)
  have "fst (downloadZip sv tenant body (only_own tenant wd)) = fst (downloadZip sv tenant body wd)"
    by (simp add: downloadZip_def only_own_entries Let_def split: option.split json.split sum.split)
  then show ?thesis unfolding DownloadZip serve_file.simps by (rule only_own_respond)
next
  case (RemoveFile i)
  have "fst (file_remove tenant now i (only_own tenant wd)) = fst (file_remove tenant now i wd)" for now
    by (simp add: file_remove_def only_own_def only_own_reads split_beta)
  then have "fst (remove_file tenant now i (only_own tenant wd)) = fst (remove_file tenant now i wd)" for now
    unfolding remove_file_def by (simp split: prod.split sum.split) (metis fst_conv sum.inject sum.distinct(1))
  then show ?thesis unfolding RemoveFile serve_file.simps by (intro only_own_respond)
next
  case (IssueShareLink i ttl)
  show ?thesis unfolding IssueShareLink serve_file.simps
    by (intro only_own_respond) (simp add: issueShareLink_def only_own_reads only_own_def Let_def split: option.split)
qed (use assms in \<open>simp_all add: inserts_nothing_def\<close>)

text \<open>C7: No file route crosses the tenant of the request.  Whatever the request asks for and whatever its body says, the rows
  of all other tenants stay as they are, and what the caller is shown concerns the tenant of the request: every record belongs to it,
  the archive consists of its live files named in the body with the bytes stored under their keys, and a removal and a share link
  are of one of its live files.  The one exception is the public share route, which shows the live file of the tenant a valid
  token names.  Routes that insert nothing answer as if the table held the tenant's own rows only.\<close>

theorem file_routes_are_confined:
  assumes "serve_file cx sv tenant req wd = (res, wd')"
  shows "foreign tenant (wd_rows wd') = foreign tenant (wd_rows wd)
    \<and> (\<forall>resp. res = Inr resp \<longrightarrow> shows_own cx sv tenant req wd resp)
    \<and> (inserts_nothing req \<longrightarrow> fst (serve_file cx sv tenant req (only_own tenant wd)) = res)"
  using serve_confined [of cx sv tenant req wd] serve_from_own [of req cx sv tenant wd] assms by (simp add: confined_def)

text \<open>The archive download of the file uploaded above, in its own tenant and in another one.\<close>

definition sample_context :: file_context where
  "sample_context = \<lparr>fx_hmac = (\<lambda>k m. []), fx_env = (None, None), fx_now = 0\<rparr>"

definition sample_zip :: "string \<Rightarrow> (file_error + file_response) \<times> file_system file_world" where
  "sample_zip tenant = serve_file sample_context (local_service [''srv''] None) (Some tenant)
     (DownloadZip (Some (JArr [JStr (sample_uuid (CHR ''2''))]))) (snd sample_uploaded)"

theorem file_routes_are_confined_witness:
  "(\<exists>archive entries. fst (sample_zip (sample_uuid (CHR ''1''))) = Inr (Archive archive) \<and> length entries = 1 \<and>
     buildZipArchive entries = Inr archive) \<and> isl (fst (sample_zip (sample_uuid (CHR ''3''))))"
proof
  obtain archive where a: "fst (sample_zip (sample_uuid (CHR ''1''))) = Inr (Archive archive)"
    using sample_archived by (auto simp: sample_zip_def respond_def)
  from file_routes_are_confined [of sample_context "local_service [''srv''] None" "Some (sample_uuid (CHR ''1''))"
      "DownloadZip (Some (JArr [JStr (sample_uuid (CHR ''2''))]))" "snd sample_uploaded", folded sample_zip_def, OF prod.collapse [symmetric]] a
  obtain entries where e: "list_all2 (zipped (local_service [''srv''] None) (Some (sample_uuid (CHR ''1''))) (snd sample_uploaded))
      (string_ids [JStr (sample_uuid (CHR ''2''))]) entries" "buildZipArchive entries = Inr archive"
    by (auto simp: shows_own_def)
  have "length (string_ids [JStr (sample_uuid (CHR ''2''))]) = 1" by code_simp
  with e a show "\<exists>archive entries. fst (sample_zip (sample_uuid (CHR ''1''))) = Inr (Archive archive) \<and> length entries = 1 \<and>
      buildZipArchive entries = Inr archive" by (metis list_all2_lengthD)
  show "isl (fst (sample_zip (sample_uuid (CHR ''3''))))" by code_simp
qed

end
