(* ===== verification/File_Access.thy ===== *)
theory File_Access
  imports File_Guarantees
begin

text \<open>
  Who reaches the bytes of a file: the life of a share link through its two routes, and the ways around the tenant of a file
  that the routes leave open (a storage key of the caller's choice, infected uploads, objects of removed files, folders).
\<close>

section \<open>The life of a share link\<close>

lemma find_first_filter: "find_first P (filter Q xs) = find_first (\<lambda>x. Q x \<and> P x) xs"
  by (induction xs) auto

lemma findById_tenant:
  assumes "file_findById tenant i rows = Some r"
  shows "tenant = Some (fc_tenantId r)" "is_uuid (fc_tenantId r)" "findByIdInTenant (fc_tenantId r) i rows = Some r"
proof -
  obtain t where t: "rls_tenant tenant None = Inr t" "map_option file_fromRow (live_row (find_first (\<lambda>w. fc_id w = i) (rls t rows))) = Some r"
    using assms by (auto simp: file_findById_def scanById_def live_row_def split: sum.splits)
  have tenant: "tenant = Some t" by (rule rls_tenant_None [OF t(1)])
  then have r: "fc_tenantId r = t" using findById_own [OF assms] by simp
  then show "tenant = Some (fc_tenantId r)" "is_uuid (fc_tenantId r)"
    using t(1) tenant by (auto simp: rls_tenant_def split: if_splits)
  have "find_first (\<lambda>w. fc_id w = i \<and> fc_tenantId w = t) (rls t rows) = find_first (\<lambda>w. fc_id w = i) (rls t rows)"
    by (simp add: rls_def find_first_filter conj_ac)
  then show "findByIdInTenant (fc_tenantId r) i rows = Some r"
    using t tenant r by (simp add: findByIdInTenant_def rls_tenant_def)
qed

text \<open>C10: A share link shows the file it was issued for, and expires.  Whoever can see a live file gets a token for it, at least
  a minute and at most a week long whatever lifetime is asked for; until that moment the public route answers
  with the same record, without any tenant of its own, and from then on it answers that the link has expired.\<close>

theorem shared_file_is_fetched:
  assumes hmac: "digest_bytes hmac" and secret: "resolveShareLinkSecret (fst env) (snd env) = Some secret" "secret \<noteq> []"
    and found: "file_findById tenant i (wd_rows wd) = Some r" "is_uuid i" and now: "0 \<le> now"
  shows "\<exists>token expiry. issueShareLink hmac env now tenant i ttl wd = (Inr (token, expiry), wd)
    \<and> now + 60 * 1000 \<le> expiry \<and> expiry \<le> now + 7 * 86400 * 1000
    \<and> (\<forall>later. fetchByShareToken hmac env later token wd =
         (if later < expiry then Inr r else Inl (FileNotFound ''share link expired''), wd))"
proof -
  define expiry where "expiry = now + min (max 60 (nullish ttl 86400)) (7 * 86400) * 1000"
  have expiry: "now + 60 * 1000 \<le> expiry" "expiry \<le> now + 7 * 86400 * 1000" by (simp_all add: expiry_def)
  let ?l = "\<lparr>sk_fileId = i, sk_tenantId = fc_tenantId r, sk_expiresAtMs = expiry\<rparr>"
  note r = findById_tenant [OF found(1)]
  have segs: "id_segment i" "id_segment (fc_tenantId r)" using uuid_segment(1) found(2) r(2) by blast+
  have "\<exists>token. signShareLink hmac ?l secret = Inr token
    \<and> last (split_on (CHR ''.'') token) = computeSignature hmac (share_payload (sk_fileId ?l) (sk_tenantId ?l) (sk_expiresAtMs ?l)) secret
    \<and> (\<forall>now. verifyShareLink hmac token secret now = (if now < sk_expiresAtMs ?l then Inr ?l else Inl ExpiredShareLink))"
    by (rule share_token_verifies) (use hmac segs now expiry secret in \<open>auto simp: id_segment_def\<close>)
  then obtain token where token: "signShareLink hmac ?l secret = Inr token"
    "\<And>now. verifyShareLink hmac token secret now = (if now < expiry then Inr ?l else Inl ExpiredShareLink)" by auto
  have "issueShareLink hmac env now tenant i ttl wd = (Inr (token, expiry), wd)"
    using found(1) secret(1) token(1) by (simp add: issueShareLink_def Let_def expiry_def)
  moreover have "fetchByShareToken hmac env later token wd =
      (if later < expiry then Inr r else Inl (FileNotFound ''share link expired''), wd)" for later
    using secret(1) token(2) r(3) by (simp add: fetchByShareToken_def)
  ultimately show ?thesis using expiry by blast
qed

theorem shared_file_is_fetched_witness:
  "\<exists>r token expiry. issueShareLink sample_digest (None, None) 1000 (Some (sample_uuid (CHR ''1''))) (sample_uuid (CHR ''2'')) (Some 5) (snd sample_uploaded)
       = (Inr (token, expiry), snd sample_uploaded)
     \<and> fst (fetchByShareToken sample_digest (None, None) 1000 token (snd sample_uploaded)) = Inr r
     \<and> fc_filename r = ''../a.txt''"
proof -
  have found: "map_option fc_filename (file_findById (Some (sample_uuid (CHR ''1''))) (sample_uuid (CHR ''2'')) (wd_rows (snd sample_uploaded)))
      = Some ''../a.txt''" by code_simp
  then obtain r where r: "file_findById (Some (sample_uuid (CHR ''1''))) (sample_uuid (CHR ''2'')) (wd_rows (snd sample_uploaded)) = Some r"
    "fc_filename r = ''../a.txt''" by auto
  have "resolveShareLinkSecret (fst (None, None)) (snd (None, None)) = Some ''dev-share-link-secret''"
    by (simp add: resolveShareLinkSecret_def isShareLinkSecretValid_def)
  from shared_file_is_fetched [OF sample_digest_ok this _ r(1) sample_uuid_ok(2), of 1000 "Some 5"] obtain token expiry where
    "issueShareLink sample_digest (None, None) 1000 (Some (sample_uuid (CHR ''1''))) (sample_uuid (CHR ''2'')) (Some 5) (snd sample_uploaded)
       = (Inr (token, expiry), snd sample_uploaded)"
    "1000 + 60 * 1000 \<le> expiry"
    "\<forall>later. fetchByShareToken sample_digest (None, None) later token (snd sample_uploaded) =
         (if later < expiry then Inr r else Inl (FileNotFound ''share link expired''), snd sample_uploaded)" by auto
  then show ?thesis using r(2) by (intro exI conjI) auto
qed

section \<open>Ways around the tenant\<close>

text \<open>The body of \<open>POST /files\<close> names the storage key.  Whoever may create a record reads any object of the store
  whose key they know, through the archive download of their own tenant.\<close>

theorem client_key_reads_any_object:
  assumes "sv_get sv key (wd_store wd) = Inr bytes" and "is_uuid t" "is_uuid i" "i \<notin> fc_id ` set (wd_rows wd)"
    and "\<And>row rows. sv_accepts sv row rows" and "cb_id body = Some i" "cb_storageKey body = key" "cb_filename body = ''x''"
    and "length bytes < 2 ^ 31"
  shows "\<exists>archive. fst (downloadZip sv (Some t) (Some (JArr [JStr i])) (snd (create_file sv uuid (Some t) body wd))) = Inr archive
    \<and> unzip archive = Some [(''x'', bytes)]"
proof -
  let ?wd = "snd (create_file sv uuid (Some t) body wd)"
  define r where "r = \<lparr>fc_id = i, fc_tenantId = t, fc_folderId = cb_folderId body,
    fc_filename = cb_filename body, fc_mimeType = cb_mimeType body, fc_sizeBytes = cb_sizeBytes body,
    fc_sha256 = cb_sha256 body, fc_storageDriver = cb_storageDriver body, fc_storageKey = cb_storageKey body,
    fc_uploaderId = cb_uploaderId body, fr_visibility = PRIVATE, fr_scanVerdict = None, fr_scanThreatName = None\<rparr>"
  have t: "t \<noteq> []" "i \<noteq> []" using assms(2,3) by (auto simp: is_uuid_def)
  have wd: "?wd = wd\<lparr>wd_rows := wd_rows wd @ [file_toRow r]\<rparr>"
    using assms(2,5,6) t by (simp add: create_file_def with_tenant_def requireTenantContext_def file_create_def file_insert_def
        rls_tenant_def Let_def r_def file_toRow_def)
  have "file_findById (Some t) i (wd_rows ?wd) = Some (file_fromRow (file_toRow r))"
    unfolding wd by (simp, rule find_uploaded) (use assms(2,4) in \<open>simp_all add: r_def\<close>)
  moreover have "fc_storageKey (file_fromRow (file_toRow r)) = key" "fc_filename (file_fromRow (file_toRow r)) = ''x''"
    using assms(7,8) by (simp_all add: file_fromRow_def file_toRow_def r_def)
  moreover have "safeZipFilename ''x'' = ''x''" "length (encode_name ''x'') = 1" by code_simp+
  moreover have "wd_store ?wd = wd_store wd" by (simp add: wd)
  ultimately show ?thesis
    using zip_one [of t i ?wd "file_fromRow (file_toRow r)" sv bytes] t assms(1,9) by simp
qed

text \<open>A file the scanner found infected is stored under the quarantine prefix, but its record keeps no verdict and the archive download
  serves it like any other.\<close>

theorem infected_file_is_served:
  assumes "uploadAndCreate (local_service root (Some (\<lambda>_. Inr (Infected, threat)))) fileId input wd = (Inr r, wd')"
    and "local_inv root (wd_store wd)" "is_uuid fileId" "fileId \<notin> fc_id ` set (wd_rows wd)" "id_segment (nullish (ui_folderId input) ROOT_SEGMENT)"
    and "\<forall>clean. sanitiseFilename (ui_filename input) = Inr clean \<longrightarrow> \<not> endsWith clean ''.meta.json''"
    and "length (encode_name (safeZipFilename (ui_filename input))) < 2 ^ 16" "length (ui_bytes input) < 2 ^ 31"
  shows "fr_scanVerdict r = Some Infected \<and> startsWith (fc_storageKey r) ''_quarantine/''
    \<and> map_option fr_scanVerdict (file_findById (Some (ui_tenantId input)) fileId (wd_rows wd')) = Some None
    \<and> (\<exists>archive. fst (downloadZip (local_service root None) (Some (ui_tenantId input)) (Some (JArr [JStr fileId])) wd') = Inr archive
         \<and> unzip archive = Some [(safeZipFilename (ui_filename input), ui_bytes input)])"
proof -
  let ?sv = "local_service root (Some (\<lambda>_. Inr (Infected, threat)))"
  have sv: "sv_put ?sv = local_put root" "sv_get ?sv = local_get root" "sv_get (local_service root None) = local_get root"
    by (simp_all add: local_service_def)
  have "fr_scanVerdict r = Some Infected \<and> startsWith (fc_storageKey r) ''_quarantine/''"
    using assms(1) by (auto simp: uploadAndCreate_def scan_upload_def local_service_def planScanDisposition_def startsWith_iff Let_def map_sum_Inr
        split: if_splits sum.splits prod.splits)
  moreover have "file_findById (Some (ui_tenantId input)) fileId (wd_rows wd') = Some (file_fromRow (file_toRow r))"
    using upload_effect [OF assms(1)] find_uploaded [where rows = "wd_rows wd"] assms(4) by metis
  moreover have "\<exists>archive. fst (downloadZip ?sv (Some (ui_tenantId input)) (Some (JArr [JStr fileId])) wd') = Inr archive
      \<and> unzip archive = Some [(safeZipFilename (ui_filename input), ui_bytes input)]"
    by (rule local_fs.upload_download [OF assms(1) sv(1,2) assms(2-8)])
  moreover have entries: "zip_entries ?sv tenant w ids = zip_entries (local_service root None) tenant w ids" for tenant ids w
    by (induction ids) (simp_all add: sv split: option.split sum.split)
  have "downloadZip ?sv tenant body w = downloadZip (local_service root None) tenant body w" for tenant body w
    unfolding downloadZip_def entries ..
  ultimately show ?thesis by (simp add: file_fromRow_def)
qed

text \<open>Removing a file marks its row and leaves its object in the store.\<close>

theorem removal_keeps_bytes:
  assumes "file_findById tenant i (wd_rows wd) = Some r" "sv_get sv (fc_storageKey r) (wd_store wd) = Inr bytes"
  shows "fst (remove_file tenant now i wd) = Inr True
    \<and> sv_get sv (fc_storageKey r) (wd_store (snd (remove_file tenant now i wd))) = Inr bytes"
  using assms by (auto simp: remove_file_def file_remove_def file_delete_def file_findById_def split: option.splits)

text \<open>Outside the tests no folder is ever found by its identifier: a folder that was just created is listed, but the route that
  deletes it answers that it does not exist.\<close>

theorem folders_cannot_be_removed:
  assumes "is_uuid t"
  shows "\<exists>folder rows'. create_folder uuid (Some t) parentId name rows = (Inr folder, rows')
    \<and> (\<exists>listed. fst (list_folders (Some t) (if parentId = Some [] then None else parentId) rows') = Inr listed
         \<and> (parentId \<noteq> Some [] \<longrightarrow> folder \<in> set listed))
    \<and> delete_folder None now (fo_id folder) rows' = (Inl (FileNotFound (fo_id folder)), rows')"
proof -
  have "t \<noteq> []" using assms by (auto simp: is_uuid_def)
  then show ?thesis
    using assms by (auto simp: create_folder_def list_folders_def delete_folder_def with_tenant_def requireTenantContext_def folder_insert_def
        folder_listByParent_def rls_tenant_def Let_def folder_remove_def folder_scanById_def folder_live_def)
qed

end
