(* ===== verification/Resumable_Uploads.thy ===== *)
theory Resumable_Uploads
  imports File_Guarantees
begin

text \<open>
  Resumable uploads: the data store that the TUS server keeps its uploads in
  (\<open>src/core/files/storage-adapter-data-store.ts\<close>), the hook that turns a finished upload into a file
  (\<open>tus-finish-hook.ts\<close>), and the upload sessions of \<open>upload-session.ts\<close>.  The protocol itself is the server package; its calls
  into the data store are the events here.
\<close>

section \<open>The data store\<close>

text \<open>The adapter the data store was built on.\<close>

record 's tus_storage =
  ts_put :: "string \<Rightarrow> buffer \<Rightarrow> string \<Rightarrow> 's \<Rightarrow> (store_error + object_metadata) \<times> 's"
  ts_get :: "string \<Rightarrow> 's \<Rightarrow> store_error + buffer"
  ts_delete :: "string \<Rightarrow> 's \<Rightarrow> (store_error + bool) \<times> 's"
  ts_list :: "string \<Rightarrow> 's \<Rightarrow> string list"

type_synonym tus_metadata = "(string \<times> string option) list"

record tus_upload =
  tu_id :: string
  tu_size :: "int option"
  tu_offset :: int
  tu_metadata :: "tus_metadata option"

datatype tus_error = TusStore store_error | OffsetMismatch nat nat | MetaInvalid | TusFile file_error | TusPath path_error

definition metaKey :: "string \<Rightarrow> string" where
  "metaKey i = ''_tus/'' @ i @ ''.meta''"

definition bodyKey :: "string \<Rightarrow> string" where
  "bodyKey i = ''_tus/'' @ i"

definition encodeJson :: "json \<Rightarrow> buffer" where
  "encodeJson v = map of_nat (utf8_encode (stringify v))"

definition metadata_json :: "tus_metadata option \<Rightarrow> json" where
  "metadata_json m = (case m of None \<Rightarrow> JNull
     | Some es \<Rightarrow> JObj (map (\<lambda>(k, v). (k, case v of None \<Rightarrow> JNull | Some s \<Rightarrow> JStr s)) es))"

text \<open>The object of \<open>UploadMetadata\<close> as its members.\<close>

definition upload_meta :: "int option \<Rightarrow> int \<Rightarrow> tus_metadata option \<Rightarrow> string \<Rightarrow> (string \<times> json) list" where
  "upload_meta uploadSize offset metadata creation =
     [(''size'', case uploadSize of None \<Rightarrow> JNull | Some n \<Rightarrow> JNum n), (''offset'', JNum offset),
      (''metadata'', metadata_json metadata), (''creation_date'', JStr creation)]"

definition default_mime :: string where
  "default_mime = ''application/octet-stream''"

definition tus_create :: "'s tus_storage \<Rightarrow> millis \<Rightarrow> tus_upload \<Rightarrow> 's \<Rightarrow> (tus_error + tus_upload) \<times> 's" where
  "tus_create ds now u s =
     (case ts_put ds (metaKey (tu_id u))
          (encodeJson (JObj (upload_meta (tu_size u) 0 (tu_metadata u) (toISOString now)))) ''application/json'' s of
        (Inl e, s1) \<Rightarrow> (Inl (TusStore e), s1)
      | (Inr _, s1) \<Rightarrow>
          (let filetype = Option.bind (tu_metadata u) (\<lambda>m. Option.bind (map_get m ''filetype'') id)
           in case ts_put ds (bodyKey (tu_id u)) [] (nullish filetype default_mime) s1 of
                (Inl e, s2) \<Rightarrow> (Inl (TusStore e), s2)
              | (Inr _, s2) \<Rightarrow> (Inr u, s2)))"

text \<open>What the data store wrote parses to an object; anything else ends the call with an exception.\<close>

definition readMeta :: "'s tus_storage \<Rightarrow> string \<Rightarrow> 's \<Rightarrow> tus_error + (string \<times> json) list" where
  "readMeta ds i s =
     (case ts_get ds (metaKey i) s of
        Inl e \<Rightarrow> Inl (TusStore e)
      | Inr bytes \<Rightarrow>
          (case Option.bind (utf8_decode (map unat bytes)) json_parse of
             Some (JObj es) \<Rightarrow> Inr es
           | _ \<Rightarrow> Inl MetaInvalid))"

definition writeMeta :: "'s tus_storage \<Rightarrow> string \<Rightarrow> (string \<times> json) list \<Rightarrow> 's \<Rightarrow> (tus_error + unit) \<times> 's" where
  "writeMeta ds i meta s =
     (case ts_put ds (metaKey i) (encodeJson (JObj meta)) ''application/json'' s of
        (Inl e, s') \<Rightarrow> (Inl (TusStore e), s') | (Inr _, s') \<Rightarrow> (Inr (), s'))"

text \<open>\<open>meta.metadata?.["filetype"]\<close>.\<close>

definition meta_filetype :: "(string \<times> json) list \<Rightarrow> string option" where
  "meta_filetype meta = (case map_get meta ''metadata'' of
     Some (JObj es) \<Rightarrow> (case map_get es ''filetype'' of Some (JStr s) \<Rightarrow> Some s | _ \<Rightarrow> None)
   | _ \<Rightarrow> None)"

definition collectStream :: "buffer list \<Rightarrow> buffer" where
  "collectStream chunks = concat chunks"

definition tus_write :: "'s tus_storage \<Rightarrow> buffer list \<Rightarrow> string \<Rightarrow> nat \<Rightarrow> 's \<Rightarrow> (tus_error + nat) \<times> 's" where
  "tus_write ds stream i offset s =
     (case ts_get ds (bodyKey i) s of
        Inl e \<Rightarrow> (Inl (TusStore e), s)
      | Inr existing \<Rightarrow>
          if length existing \<noteq> offset then (Inl (OffsetMismatch (length existing) offset), s)
          else let merged = existing @ collectStream stream
               in case readMeta ds i s of
                    Inl e \<Rightarrow> (Inl e, s)
                  | Inr meta \<Rightarrow>
                      (case ts_put ds (bodyKey i) merged (nullish (meta_filetype meta) default_mime) s of
                         (Inl e, s1) \<Rightarrow> (Inl (TusStore e), s1)
                       | (Inr _, s1) \<Rightarrow>
                           (let newOffset = length merged
                            in case writeMeta ds i (map_set ''offset'' (JNum (int newOffset)) meta) s1 of
                                 (Inl e, s2) \<Rightarrow> (Inl e, s2) | (Inr _, s2) \<Rightarrow> (Inr newOffset, s2))))"

text \<open>The server reads the stored numbers and strings back.\<close>

definition meta_metadata :: "(string \<times> json) list \<Rightarrow> tus_metadata option" where
  "meta_metadata meta = (case map_get meta ''metadata'' of
     Some (JObj es) \<Rightarrow> Some (map (\<lambda>(k, v). (k, case v of JStr s \<Rightarrow> Some s | _ \<Rightarrow> None)) es)
   | _ \<Rightarrow> None)"

definition getUpload :: "'s tus_storage \<Rightarrow> string \<Rightarrow> 's \<Rightarrow> tus_error + tus_upload" where
  "getUpload ds i s =
     (case readMeta ds i s of
        Inl e \<Rightarrow> Inl e
      | Inr meta \<Rightarrow> Inr \<lparr>tu_id = i,
          tu_size = (case map_get meta ''size'' of Some (JNum n) \<Rightarrow> Some n | _ \<Rightarrow> None),
          tu_offset = (case map_get meta ''offset'' of Some (JNum n) \<Rightarrow> n | _ \<Rightarrow> 0),
          tu_metadata = meta_metadata meta\<rparr>)"

definition declareUploadLength :: "'s tus_storage \<Rightarrow> string \<Rightarrow> int \<Rightarrow> 's \<Rightarrow> (tus_error + unit) \<times> 's" where
  "declareUploadLength ds i uploadLength s =
     (case readMeta ds i s of
        Inl e \<Rightarrow> (Inl e, s)
      | Inr meta \<Rightarrow> writeMeta ds i (map_set ''size'' (JNum uploadLength) meta) s)"

text \<open>Both deletions are started; the first error is the result.\<close>

definition tus_remove :: "'s tus_storage \<Rightarrow> string \<Rightarrow> 's \<Rightarrow> (tus_error + unit) \<times> 's" where
  "tus_remove ds i s =
     (let (r1, s1) = ts_delete ds (bodyKey i) s; (r2, s2) = ts_delete ds (metaKey i) s1
      in (case (r1, r2) of (Inl e, _) \<Rightarrow> Inl (TusStore e) | (_, Inl e) \<Rightarrow> Inl (TusStore e) | _ \<Rightarrow> Inr (), s2))"

text \<open>\<open>parse_date\<close> is \<open>Date.parse\<close>; an upload whose metadata or removal fails is left to the next sweep.\<close>

fun sweep_uploads :: "'s tus_storage \<Rightarrow> (string \<Rightarrow> millis option) \<Rightarrow> millis \<Rightarrow> string list \<Rightarrow> 's \<Rightarrow> nat \<times> 's" where
  "sweep_uploads ds parse_date cutoff [] s = (0, s)"
| "sweep_uploads ds parse_date cutoff (key # keys) s =
     (let i = take (length key - 5 - 5) (drop 5 key);
          created = (case readMeta ds i s of Inl e \<Rightarrow> None
            | Inr meta \<Rightarrow> (case map_get meta ''creation_date'' of Some (JStr d) \<Rightarrow> parse_date d | _ \<Rightarrow> None));
          (gone, s1) = (if (case created of None \<Rightarrow> False | Some c \<Rightarrow> c < cutoff)
                        then (case tus_remove ds i s of (Inl e, s1) \<Rightarrow> (0, s1) | (Inr _, s1) \<Rightarrow> (1, s1)) else (0, s));
          (more, s2) = sweep_uploads ds parse_date cutoff keys s1
      in (gone + more, s2))"

definition deleteExpired :: "'s tus_storage \<Rightarrow> (string \<Rightarrow> millis option) \<Rightarrow> int \<Rightarrow> millis \<Rightarrow> 's \<Rightarrow> nat \<times> 's" where
  "deleteExpired ds parse_date expirationMs now s =
     (if expirationMs \<le> 0 then (0, s)
      else sweep_uploads ds parse_date (now - expirationMs)
        (filter (\<lambda>k. endsWith k ''.meta'') (ts_list ds ''_tus/'' s)) s)"

section \<open>The finish hook\<close>

text \<open>\<open>auth\<close> is \<open>None\<close> where Better-Auth is not configured; else it is what \<open>getSession\<close> says of the request: an error,
  no session, or the active organization of the session.\<close>

datatype tus_result = TusStatus nat | TusHeaders string string

definition meta_string :: "tus_metadata option \<Rightarrow> string \<Rightarrow> string \<Rightarrow> string" where
  "meta_string metadata k dflt = nullish (Option.bind (Option.bind metadata (\<lambda>m. map_get m k)) id) dflt"

definition tus_tenant_check :: "(string + string option option) option \<Rightarrow> string \<Rightarrow> nat option" where
  "tus_tenant_check auth metaTenantId = (case auth of
     None \<Rightarrow> None
   | Some session \<Rightarrow>
       if \<not> truthy metaTenantId then Some 400
       else (case session of
               Inl err \<Rightarrow> Some 401
             | Inr None \<Rightarrow> Some 401
             | Inr (Some org) \<Rightarrow>
                 (let sessionTenantId = nullish org []
                  in if \<not> truthy sessionTenantId \<or> sessionTenantId \<noteq> metaTenantId then Some 403 else None)))"

text \<open>The bytes go to the final key, the record to the table, and the staged upload is removed.\<close>

definition promote_upload ::
  "'s file_service \<Rightarrow> 's tus_storage \<Rightarrow> string \<Rightarrow> file_record \<Rightarrow> buffer \<Rightarrow> 's file_world \<Rightarrow> (tus_error + tus_result) \<times> 's file_world" where
  "promote_upload sv ds i r bytes wd =
     (case sv_put sv (fc_storageKey r) bytes (fc_mimeType r) (wd_store wd) of
        (Inl e, s1) \<Rightarrow> (Inl (TusStore e), wd\<lparr>wd_store := s1\<rparr>)
      | (Inr _, s1) \<Rightarrow>
          (case file_insert (sv_accepts sv) r (wd_rows wd) of
             (Inl e, rows) \<Rightarrow> (Inl (TusFile e), wd\<lparr>wd_rows := rows, wd_store := s1\<rparr>)
           | (Inr _, rows) \<Rightarrow>
               (case tus_remove ds i s1 of
                  (Inl e, s2) \<Rightarrow> (Inl e, wd\<lparr>wd_rows := rows, wd_store := s2\<rparr>)
                | (Inr _, s2) \<Rightarrow>
                    (Inr (TusHeaders (fc_id r) (fc_storageKey r)), wd\<lparr>wd_rows := rows, wd_store := s2\<rparr>))))"

definition onUploadFinish ::
  "'s file_service \<Rightarrow> 's tus_storage \<Rightarrow> (string + string option option) option \<Rightarrow> string \<Rightarrow> tus_upload \<Rightarrow> 's file_world
     \<Rightarrow> (tus_error + tus_result) \<times> 's file_world" where
  "onUploadFinish sv ds auth fileId upload wd =
     (let filename = meta_string (tu_metadata upload) ''filename'' (tu_id upload);
          mimeType = meta_string (tu_metadata upload) ''filetype'' default_mime;
          tenantId = meta_string (tu_metadata upload) ''tenantId'' [];
          uploaderId = meta_string (tu_metadata upload) ''uploaderId'' [];
          folderId = Option.bind (Option.bind (tu_metadata upload) (\<lambda>m. map_get m ''folderId'')) id
      in case tus_tenant_check auth tenantId of
           Some status \<Rightarrow> (Inr (TusStatus status), wd)
         | None \<Rightarrow>
             (case ts_get ds (bodyKey (tu_id upload)) (wd_store wd) of
                Inl e \<Rightarrow> (Inl (TusStore e), wd)
              | Inr bytes \<Rightarrow>
                  if \<not> mm_ok (checkSniffedMimeMatchesClaim (take 256 bytes) mimeType) then (Inr (TusStatus 415), wd)
                  else (case resolveStoragePath tenantId folderId fileId filename of
                          Inl e \<Rightarrow> (Inl (TusPath e), wd)
                        | Inr storageKey \<Rightarrow>
                            promote_upload sv ds (tu_id upload)
                              \<lparr>fc_id = fileId, fc_tenantId = tenantId, fc_folderId = folderId, fc_filename = filename,
                               fc_mimeType = mimeType, fc_sizeBytes = length bytes, fc_sha256 = sv_sha256 sv bytes,
                               fc_storageDriver = sv_driver sv, fc_storageKey = storageKey, fc_uploaderId = uploaderId,
                               fr_visibility = PRIVATE, fr_scanVerdict = None, fr_scanThreatName = None\<rparr> bytes wd)))"

section \<open>Staged uploads\<close>

lemma staged_keys:
  assumes "id_segment i"
  shows "storage_key (metaKey i)" "storage_key (bodyKey i)" "metaKey i \<noteq> bodyKey i"
proof -
  have split: "split_on (CHR ''/'') (''_tus/'' @ x) = ''_tus'' # split_on (CHR ''/'') x" for x
    using split_on_append_sep [of "CHR ''/''" "''_tus''" x] by simp
  have i: "CHR ''/'' \<notin> set i" "CHR ''.'' \<notin> set i" "i \<noteq> []" using assms by (simp_all add: id_segment_def)
  have segs: "key_segments (metaKey i) = [''_tus'', i @ ''.meta'']" "key_segments (bodyKey i) = [''_tus'', i]"
    using i by (simp_all add: key_segments_def metaKey_def bodyKey_def split split_on_no_sep)
  have plain: "plain_segment i" "plain_segment (i @ ''.meta'')" using i by (auto simp: plain_segment_def)
  have ends: "\<not> endsWith (metaKey i) ''.meta.json''" "\<not> endsWith (bodyKey i) ''.meta.json''"
  proof -
    show "\<not> endsWith (metaKey i) ''.meta.json''"
    proof
      assume "endsWith (metaKey i) ''.meta.json''"
      then obtain a where "metaKey i = a @ ''.meta.json''" by (auto simp: endsWith_iff)
      then have "last (metaKey i) = last (a @ ''.meta.json'')" by (rule arg_cong)
      then show False by (simp add: metaKey_def)
    qed
    have "CHR ''.'' \<notin> set (bodyKey i)" using i by (simp add: bodyKey_def)
    then show "\<not> endsWith (bodyKey i) ''.meta.json''" by (auto simp: endsWith_iff)
  qed
  have key: "storage_key k" if k: "key_segments k = [''_tus'', x]" "plain_segment x" "\<not> endsWith k ''.meta.json''" "k = ''_tus/'' @ y" for k x y
  proof -
    have "plain_segment ''_tus''" by (simp add: plain_segment_def)
    moreover have "\<not> startsWith k ''..''" unfolding k(4) by (simp add: startsWith_iff)
    moreover have "\<not> str_includes k ''../''" using dots_before_slash [of k] k(1) by auto
    ultimately show ?thesis using k(1-3) by (simp add: storage_key_def clean_key_def key_depth_def)
  qed
  show "storage_key (metaKey i)" by (rule key [OF segs(1) plain(2) ends(1)]) (simp add: metaKey_def)
  show "storage_key (bodyKey i)" by (rule key [OF segs(2) plain(1) ends(2)]) (simp add: bodyKey_def)
  show "metaKey i \<noteq> bodyKey i" by (simp add: metaKey_def bodyKey_def)
qed

definition meta_valid :: "(string \<times> json) list \<Rightarrow> bool" where
  "meta_valid es \<longleftrightarrow> distinct (map fst es) \<and> members_ok es"

lemma read_encoded:
  assumes "meta_valid es"
  shows "Option.bind (utf8_decode (map unat (encodeJson (JObj es)))) json_parse = Some (JObj es)"
proof -
  have bytes: "map unat (map of_nat bs :: buffer) = bs" if "\<forall>b\<in>set bs. b < 256" for bs
    using that by (simp add: map_idI unat_of_nat)
  have "map unat (encodeJson (JObj es)) = utf8_encode (stringify (JObj es))"
    unfolding encodeJson_def by (rule bytes) (use utf8_bytes in blast)
  then show ?thesis
    using assms by (simp add: utf8_round_trip parse_stringify meta_valid_def del: stringify.simps)
qed

lemma meta_valid_set: "meta_valid es \<Longrightarrow> json_ok v \<Longrightarrow> meta_valid (map_set k v es)"
proof -
  assume es: "meta_valid es" and v: "json_ok v"
  have "members_ok es \<Longrightarrow> members_ok (map_set k v es)" using v by (induction es) (auto split: prod.splits)
  then show ?thesis using es by (simp add: meta_valid_def distinct_map_set)
qed

lemma upload_meta_valid:
  assumes "case metadata of None \<Rightarrow> True | Some m \<Rightarrow> distinct (map fst m)"
  shows "meta_valid (upload_meta uploadSize offset metadata creation)"
proof -
  have "members_ok (map (\<lambda>(k, v). (k, case v of None \<Rightarrow> JNull | Some s \<Rightarrow> JStr s)) m)" for m :: tus_metadata
    by (induction m) (auto split: option.split)
  moreover have "map fst (map (\<lambda>(k, v). (k, case v of None \<Rightarrow> JNull | Some s \<Rightarrow> JStr s)) m) = map fst m" for m :: tus_metadata
    by (induction m) auto
  ultimately show ?thesis
    using assms by (auto simp: meta_valid_def upload_meta_def metadata_json_def simp del: map_map split: option.splits)
qed

text \<open>A client that sends each chunk at the offset the server answered.\<close>

fun send_chunks :: "'s tus_storage \<Rightarrow> string \<Rightarrow> nat \<Rightarrow> buffer list list \<Rightarrow> 's \<Rightarrow> (tus_error + nat) \<times> 's" where
  "send_chunks ds i offset [] s = (Inr offset, s)"
| "send_chunks ds i offset (c # cs) s = (case tus_write ds c i offset s of
     (Inl e, s') \<Rightarrow> (Inl e, s') | (Inr n, s') \<Rightarrow> send_chunks ds i n cs s')"

context blob_store
begin

definition storage_of :: "'s tus_storage" where
  "storage_of = \<lparr>ts_put = put, ts_get = get, ts_delete = delete, ts_list = keys\<rparr>"

definition staged :: "string \<Rightarrow> (string \<times> json) list \<Rightarrow> buffer \<Rightarrow> 's \<Rightarrow> bool" where
  "staged i es body s \<longleftrightarrow> inv s \<and> get (metaKey i) s = Inr (encodeJson (JObj es)) \<and> get (bodyKey i) s = Inr body \<and> meta_valid es
     \<and> map_get es ''offset'' = Some (JNum (int (length body)))"

definition elsewhere :: "string \<Rightarrow> 's \<Rightarrow> 's \<Rightarrow> bool" where
  "elsewhere i s s' \<longleftrightarrow> (\<forall>k. storage_key k \<and> k \<noteq> metaKey i \<and> k \<noteq> bodyKey i \<longrightarrow> get k s' = get k s)"

lemma storage_of_simps [simp]:
  "ts_put storage_of = put" "ts_get storage_of = get" "ts_delete storage_of = delete" "ts_list storage_of = keys"
  by (simp_all add: storage_of_def)

lemma put_cases:
  assumes "storage_key k" "inv s"
  obtains s' where "put k body mime s = (Inr \<lparr>om_key = k, om_sizeBytes = length body, om_mimeType = mime\<rparr>, s')" "inv s'"
    "\<And>k'. storage_key k' \<Longrightarrow> get k' s' = (if k' = k then Inr body else get k' s)"
  using put_total [OF assms, of body mime] get_put [OF assms(1) _ assms(2), of _ body mime] by (metis prod.collapse)

lemma delete_cases:
  assumes "storage_key k" "inv s"
  obtains r s' where "delete k s = (Inr r, s')" "inv s'"
    "\<And>k'. storage_key k' \<Longrightarrow> get k' s' = (if k' = k then Inl (ObjectNotFound k) else get k' s)"
  using delete_total [OF assms] get_delete [OF assms(1) _ assms(2)] by (metis prod.collapse)

lemma create_stages:
  assumes "id_segment (tu_id u)" "inv s" "case tu_metadata u of None \<Rightarrow> True | Some m \<Rightarrow> distinct (map fst m)"
  shows "\<exists>s'. tus_create storage_of now u s = (Inr u, s')
    \<and> staged (tu_id u) (upload_meta (tu_size u) 0 (tu_metadata u) (toISOString now)) [] s' \<and> elsewhere (tu_id u) s s'"
proof -
  note k = staged_keys [OF assms(1)]
  let ?es = "upload_meta (tu_size u) 0 (tu_metadata u) (toISOString now)"
  obtain s1 where s1: "\<exists>m. put (metaKey (tu_id u)) (encodeJson (JObj ?es)) ''application/json'' s = (Inr m, s1)" "inv s1"
    "\<And>k'. storage_key k' \<Longrightarrow> get k' s1 = (if k' = metaKey (tu_id u) then Inr (encodeJson (JObj ?es)) else get k' s)"
    using put_cases [OF k(1) assms(2)] by metis
  obtain s2 where s2: "\<exists>m. put (bodyKey (tu_id u)) [] (nullish (Option.bind (tu_metadata u) (\<lambda>m. Option.bind (map_get m ''filetype'') id)) default_mime) s1
      = (Inr m, s2)" "inv s2" "\<And>k'. storage_key k' \<Longrightarrow> get k' s2 = (if k' = bodyKey (tu_id u) then Inr [] else get k' s1)"
    using put_cases [OF k(2) s1(2)] by metis
  have "staged (tu_id u) ?es [] s2" "elsewhere (tu_id u) s s2"
    using k s1 s2 upload_meta_valid [OF assms(3)] by (simp_all add: staged_def elsewhere_def upload_meta_def)
  moreover have "tus_create storage_of now u s = (Inr u, s2)"
    using s1(1) s2(1) by (auto simp: tus_create_def)
  ultimately show ?thesis by blast
qed

lemma read_staged: "staged i es body s \<Longrightarrow> readMeta storage_of i s = Inr es"
  by (simp add: readMeta_def staged_def read_encoded)

lemma write_staged:
  assumes "id_segment i" "staged i es body s"
  shows "offset \<noteq> length body \<Longrightarrow> tus_write storage_of stream i offset s = (Inl (OffsetMismatch (length body) offset), s)"
    and "\<exists>s'. tus_write storage_of stream i (length body) s = (Inr (length (body @ concat stream)), s')
      \<and> staged i (map_set ''offset'' (JNum (int (length (body @ concat stream)))) es) (body @ concat stream) s' \<and> elsewhere i s s'"
proof -
  note k = staged_keys [OF assms(1)]
  have st: "inv s" "get (bodyKey i) s = Inr body" "meta_valid es" using assms(2) by (simp_all add: staged_def)
  show "offset \<noteq> length body \<Longrightarrow> tus_write storage_of stream i offset s = (Inl (OffsetMismatch (length body) offset), s)"
    using st by (simp add: tus_write_def)
  let ?body = "body @ concat stream" and ?es = "map_set ''offset'' (JNum (int (length (body @ concat stream)))) es"
  obtain s1 where s1: "\<exists>m. put (bodyKey i) ?body (nullish (meta_filetype es) default_mime) s = (Inr m, s1)" "inv s1"
    "\<And>k'. storage_key k' \<Longrightarrow> get k' s1 = (if k' = bodyKey i then Inr ?body else get k' s)"
    using put_cases [OF k(2) st(1)] by metis
  obtain s2 where s2: "\<exists>m. put (metaKey i) (encodeJson (JObj ?es)) ''application/json'' s1 = (Inr m, s2)" "inv s2"
    "\<And>k'. storage_key k' \<Longrightarrow> get k' s2 = (if k' = metaKey i then Inr (encodeJson (JObj ?es)) else get k' s1)"
    using put_cases [OF k(1) s1(2)] by metis
  have "tus_write storage_of stream i (length body) s = (Inr (length ?body), s2)"
    using s1(1) s2(1) st read_staged [OF assms(2)] by (auto simp: tus_write_def collectStream_def writeMeta_def Let_def)
  moreover have "staged i ?es ?body s2" "elsewhere i s s2"
    using k s1 s2 st meta_valid_set [OF st(3)] by (simp_all add: staged_def elsewhere_def map_get_set)
  ultimately show "\<exists>s'. tus_write storage_of stream i (length body) s = (Inr (length ?body), s') \<and> staged i ?es ?body s' \<and> elsewhere i s s'"
    by blast
qed

lemma elsewhere_trans: "elsewhere i s s' \<Longrightarrow> elsewhere i s' s'' \<Longrightarrow> elsewhere i s s''"
  by (simp add: elsewhere_def)

lemma send_staged:
  assumes "id_segment i" "staged i es body s"
  shows "\<exists>s' es'. send_chunks storage_of i (length body) cs s = (Inr (length (body @ concat (concat cs))), s')
    \<and> staged i es' (body @ concat (concat cs)) s' \<and> elsewhere i s s'"
  using assms(2)
proof (induction cs arbitrary: es body s)
  case Nil
  then show ?case by (auto simp: elsewhere_def)
next
  case (Cons c cs)
  obtain s1 where s1: "tus_write storage_of c i (length body) s = (Inr (length (body @ concat c)), s1)"
    "staged i (map_set ''offset'' (JNum (int (length (body @ concat c)))) es) (body @ concat c) s1" "elsewhere i s s1"
    using write_staged(2) [OF assms(1) Cons.prems, of c] by blast
  obtain s2 es2 where s2: "send_chunks storage_of i (length (body @ concat c)) cs s1 = (Inr (length ((body @ concat c) @ concat (concat cs))), s2)"
    "staged i es2 ((body @ concat c) @ concat (concat cs)) s2" "elsewhere i s1 s2"
    using Cons.IH [OF s1(2)] by blast
  show ?case using s1(1) s2(1,2) elsewhere_trans [OF s1(3) s2(3)] by auto
qed

lemma remove_staged:
  assumes "id_segment i" "inv s"
  shows "\<exists>s'. tus_remove storage_of i s = (Inr (), s') \<and> inv s' \<and> elsewhere i s s'
    \<and> get (bodyKey i) s' = Inl (ObjectNotFound (bodyKey i)) \<and> get (metaKey i) s' = Inl (ObjectNotFound (metaKey i))"
proof -
  note k = staged_keys [OF assms(1)]
  obtain r1 s1 where s1: "delete (bodyKey i) s = (Inr r1, s1)" "inv s1"
    "\<And>k'. storage_key k' \<Longrightarrow> get k' s1 = (if k' = bodyKey i then Inl (ObjectNotFound (bodyKey i)) else get k' s)"
    using delete_cases [OF k(2) assms(2)] by metis
  obtain r2 s2 where s2: "delete (metaKey i) s1 = (Inr r2, s2)" "inv s2"
    "\<And>k'. storage_key k' \<Longrightarrow> get k' s2 = (if k' = metaKey i then Inl (ObjectNotFound (metaKey i)) else get k' s1)"
    using delete_cases [OF k(1) s1(2)] by metis
  have "tus_remove storage_of i s = (Inr (), s2)" using s1(1) s2(1) by (simp add: tus_remove_def)
  then show ?thesis using k s1 s2 by (simp add: elsewhere_def)
qed

lemma upload_assembles:
  assumes u: "id_segment (tu_id u)" "inv s" "case tu_metadata u of None \<Rightarrow> True | Some m \<Rightarrow> distinct (map fst m)"
    and run: "tus_create storage_of now u s = (r0, s0)" "send_chunks storage_of (tu_id u) 0 cs s0 = (r1, s1)"
  shows "r1 = Inr (length (concat (concat cs)))" "\<exists>es. staged (tu_id u) es (concat (concat cs)) s1" "elsewhere (tu_id u) s s1"
proof -
  have s0: "staged (tu_id u) (upload_meta (tu_size u) 0 (tu_metadata u) (toISOString now)) [] s0" "elsewhere (tu_id u) s s0"
    using create_stages [OF u, of now] run(1) by auto
  obtain es where "send_chunks storage_of (tu_id u) 0 cs s0 = (Inr (length (concat (concat cs))), s1)"
    "staged (tu_id u) es (concat (concat cs)) s1" "elsewhere (tu_id u) s0 s1"
    using send_staged [OF u(1) s0(1), of cs] run(2) by auto
  then show "r1 = Inr (length (concat (concat cs)))" "\<exists>es. staged (tu_id u) es (concat (concat cs)) s1" "elsewhere (tu_id u) s s1"
    using run(2) elsewhere_trans [OF s0(2)] by auto
qed

end

section \<open>What a resumable upload gives\<close>

definition local_tus :: "string list \<Rightarrow> file_system tus_storage" where
  "local_tus root = \<lparr>ts_put = local_put root, ts_get = local_get root, ts_delete = local_delete root, ts_list = local_list root\<rparr>"

lemma local_tus_storage: "local_fs.storage_of root = local_tus root"
  by (simp add: local_fs.storage_of_def local_tus_def)

text \<open>C40: Chunks add up to the upload.  Whatever chunks are sent, each at the offset the server answered, the data store accepts all of
  them, holds their concatenation, and reports its length as the offset; a chunk at any other offset is refused
  and leaves the store as it is.\<close>

theorem tus_uploads_assemble:
  assumes "id_segment (tu_id u)" "local_inv root s" "case tu_metadata u of None \<Rightarrow> True | Some m \<Rightarrow> distinct (map fst m)"
    and "tus_create (local_tus root) now u s = (r0, s0)" "send_chunks (local_tus root) (tu_id u) 0 cs s0 = (r1, s1)"
  shows "r1 = Inr (length (concat (concat cs))) \<and> local_get root (bodyKey (tu_id u)) s1 = Inr (concat (concat cs))
    \<and> map_sum id tu_offset (getUpload (local_tus root) (tu_id u) s1) = Inr (int (length (concat (concat cs))))
    \<and> (offset \<noteq> length (concat (concat cs)) \<longrightarrow>
        tus_write (local_tus root) stream (tu_id u) offset s1 = (Inl (OffsetMismatch (length (concat (concat cs))) offset), s1))"
proof -
  note run = local_fs.upload_assembles [OF assms(1-3), unfolded local_tus_storage, OF assms(4,5)]
  obtain es where es: "local_fs.staged root (tu_id u) es (concat (concat cs)) s1" using run(2) by blast
  have "local_get root (bodyKey (tu_id u)) s1 = Inr (concat (concat cs))" "map_get es ''offset'' = Some (JNum (int (length (concat (concat cs)))))"
    using es by (simp_all add: local_fs.staged_def)
  then show ?thesis
    using run(1) local_fs.write_staged(1) [OF assms(1) es, unfolded local_tus_storage] local_fs.read_staged [OF es, unfolded local_tus_storage]
    by (simp add: getUpload_def)
qed

definition sample_staged :: tus_upload where
  "sample_staged = \<lparr>tu_id = ''abc'', tu_size = Some 3, tu_offset = 0,
     tu_metadata = Some [(''tenantId'', Some (sample_uuid (CHR ''1''))), (''filename'', Some ''a.txt''), (''folderId'', None)]\<rparr>"

lemma sample_staged_ok:
  "id_segment (tu_id sample_staged)" "case tu_metadata sample_staged of None \<Rightarrow> True | Some m \<Rightarrow> distinct (map fst m)"
  by (simp_all add: sample_staged_def id_segment_def)

theorem tus_uploads_assemble_witness:
  "\<exists>s0 s1. snd (tus_create (local_tus [''srv'']) 0 sample_staged (fresh_files [''srv''])) = s0
     \<and> send_chunks (local_tus [''srv'']) ''abc'' 0 [[[104], [105]], [[33]]] s0 = (Inr 3, s1)
     \<and> local_get [''srv''] (bodyKey ''abc'') s1 = Inr [104, 105, 33]
     \<and> tus_write (local_tus [''srv'']) [[1]] ''abc'' 2 s1 = (Inl (OffsetMismatch 3 2), s1)"
proof -
  obtain r0 s0 r1 s1 where run: "tus_create (local_tus [''srv'']) 0 sample_staged (fresh_files [''srv'']) = (r0, s0)"
    "send_chunks (local_tus [''srv'']) (tu_id sample_staged) 0 [[[104], [105]], [[33]]] s0 = (r1, s1)" by fastforce
  have "local_inv [''srv''] (fresh_files [''srv''])" by (simp add: fresh_files_inv plain_segment_def)
  from tus_uploads_assemble [OF sample_staged_ok(1) this sample_staged_ok(2) run, of 2 "[[1]]"] run show ?thesis
    by (simp add: sample_staged_def)
qed

text \<open>The hook appends at most one record, of the tenant of the metadata.\<close>

lemma promote_effect:
  assumes "promote_upload sv ds i r bytes wd = (res, wd')"
  obtains (failed) e where "res = Inl e" "wd_rows wd' = wd_rows wd"
  | (inserted) s1 where "is_uuid (fc_tenantId r)" "s1 = snd (sv_put sv (fc_storageKey r) bytes (fc_mimeType r) (wd_store wd))"
      "wd_rows wd' = wd_rows wd @ [file_toRow r]" "wd_store wd' = snd (tus_remove ds i s1)"
      "res = map_sum id (\<lambda>_. TusHeaders (fc_id r) (fc_storageKey r)) (fst (tus_remove ds i s1))"
proof -
  obtain x s1 where put: "sv_put sv (fc_storageKey r) bytes (fc_mimeType r) (wd_store wd) = (x, s1)" by fastforce
  obtain y rows where ins: "file_insert (sv_accepts sv) r (wd_rows wd) = (y, rows)" by fastforce
  obtain z s2 where rem: "tus_remove ds i s1 = (z, s2)" by fastforce
  have insert: "isl y \<and> rows = wd_rows wd \<or> \<not> isl y \<and> rows = wd_rows wd @ [file_toRow r] \<and> is_uuid (fc_tenantId r)"
    using ins by (auto simp: file_insert_def rls_tenant_def split: sum.splits if_splits)
  note run = assms [unfolded promote_upload_def]
  consider e where "x = Inl e" | m e where "x = Inr m" "y = Inl e" | m r' where "x = Inr m" "y = Inr r'"
    by (cases x; cases y) auto
  then show thesis
  proof cases
    case 1
    then show thesis using run put by (intro failed [of "TusStore e"]) auto
  next
    case 2
    then show thesis using run put ins insert by (intro failed [of "TusFile e"]) auto
  next
    case 3
    then have "res = map_sum id (\<lambda>_. TusHeaders (fc_id r) (fc_storageKey r)) z \<and> wd_rows wd' = rows \<and> wd_store wd' = s2"
      using run put ins rem by (cases z) auto
    then show thesis using 3 insert put rem by (intro inserted [of s1]) auto
  qed
qed

lemma finish_effect:
  assumes "onUploadFinish sv ds auth fileId u wd = (res, wd')"
  obtains (refused) status where "res = Inr (TusStatus status)" "wd' = wd"
  | (failed) e where "res = Inl e" "wd_rows wd' = wd_rows wd"
  | (inserted) r bytes s1 where "tus_tenant_check auth (fc_tenantId r) = None" "fc_tenantId r = meta_string (tu_metadata u) ''tenantId'' []"
      "is_uuid (fc_tenantId r)" "fc_id r = fileId" "fc_filename r = meta_string (tu_metadata u) ''filename'' (tu_id u)"
      "resolveStoragePath (fc_tenantId r) (Option.bind (Option.bind (tu_metadata u) (\<lambda>m. map_get m ''folderId'')) id) fileId (fc_filename r)
        = Inr (fc_storageKey r)"
      "ts_get ds (bodyKey (tu_id u)) (wd_store wd) = Inr bytes"
      "s1 = snd (sv_put sv (fc_storageKey r) bytes (fc_mimeType r) (wd_store wd))"
      "wd_rows wd' = wd_rows wd @ [file_toRow r]" "wd_store wd' = snd (tus_remove ds (tu_id u) s1)"
      "res = map_sum id (\<lambda>_. TusHeaders fileId (fc_storageKey r)) (fst (tus_remove ds (tu_id u) s1))"
proof -
  let ?t = "meta_string (tu_metadata u) ''tenantId'' []" and ?name = "meta_string (tu_metadata u) ''filename'' (tu_id u)"
  let ?folder = "Option.bind (Option.bind (tu_metadata u) (\<lambda>m. map_get m ''folderId'')) id"
  let ?mime = "meta_string (tu_metadata u) ''filetype'' default_mime"
  let ?stops = "(\<exists>status. res = Inr (TusStatus status) \<and> wd' = wd) \<or> (\<exists>e. res = Inl e \<and> wd_rows wd' = wd_rows wd)"
  show thesis
  proof (cases ?stops)
    case False
    obtain r bytes where r: "tus_tenant_check auth ?t = None" "ts_get ds (bodyKey (tu_id u)) (wd_store wd) = Inr bytes"
      "resolveStoragePath ?t ?folder fileId ?name = Inr (fc_storageKey r)" "fc_tenantId r = ?t" "fc_id r = fileId" "fc_filename r = ?name"
      "promote_upload sv ds (tu_id u) r bytes wd = (res, wd')"
      using assms [unfolded onUploadFinish_def Let_def] False that
      by (fastforce split: option.splits sum.splits if_splits)
    from r(7) show thesis
    proof (cases rule: promote_effect)
      case (inserted s1)
      then show thesis using r that(3) [of r bytes s1] by simp
    qed (use False in blast)
  qed (use that(1,2) in blast)
qed

definition session_tenant :: "string + string option option \<Rightarrow> string option" where
  "session_tenant session = (case session of Inr (Some org) \<Rightarrow> org | _ \<Rightarrow> None)"

lemma tenant_check_passes: "tus_tenant_check (Some session) t = None \<Longrightarrow> session_tenant session = Some t"
  by (auto simp: tus_tenant_check_def session_tenant_def Let_def nullish_def split: if_splits sum.splits option.splits)

text \<open>C21: A finished upload becomes a file only in the tenant of its session.  With Better-Auth configured, the hook never
  touches a record outside the active organization of the session that finishes the upload, whatever tenant
  the metadata name; a success is one new record of that organization, and an answer with an error status changes nothing.\<close>

theorem tus_finish_is_confined:
  assumes "onUploadFinish sv ds (Some session) fileId u wd = (res, wd')"
  shows "foreign (session_tenant session) (wd_rows wd') = foreign (session_tenant session) (wd_rows wd)
    \<and> (\<forall>f k. res = Inr (TusHeaders f k) \<longrightarrow> (\<exists>row. wd_rows wd' = wd_rows wd @ [row] \<and> session_tenant session = Some (fc_tenantId row)
          \<and> meta_string (tu_metadata u) ''tenantId'' [] = fc_tenantId row \<and> fc_id row = f \<and> fc_storageKey row = k))
    \<and> (\<forall>status. res = Inr (TusStatus status) \<longrightarrow> wd' = wd)"
  using assms
proof (cases rule: finish_effect)
  case (inserted r bytes s1)
  have "session_tenant session = Some (fc_tenantId r)" by (rule tenant_check_passes) (rule inserted(1))
  then show ?thesis
    using inserted(2,4,9,11) by (cases "fst (tus_remove ds (tu_id u) s1)") (auto simp: foreign_def file_toRow_def)
qed (auto simp: foreign_def)

lemma final_key_not_staged:
  assumes "id_segment i" "storage_key k" "hd (key_segments k) \<noteq> ''_tus''"
  shows "k \<noteq> bodyKey i" "k \<noteq> metaKey i"
proof -
  have "key_segments (bodyKey i) = ''_tus'' # key_segments i" "key_segments (metaKey i) = ''_tus'' # key_segments (i @ ''.meta'')"
    unfolding key_segments_def bodyKey_def metaKey_def
    using split_on_append_sep [of "CHR ''/''" "''_tus''"] by simp_all
  then show "k \<noteq> bodyKey i" "k \<noteq> metaKey i" using assms(3) by auto
qed

lemma resolved_head:
  assumes "resolveStoragePath t folder fileId filename = Inr key" "id_segment t"
  shows "hd (key_segments key) = t"
proof -
  obtain rest where "key = t @ ''/'' @ rest" using assms(1) by (auto simp: resolveStoragePath_def split: if_splits sum.splits)
  then show ?thesis using assms(2) by (simp add: key_segments_def split_on_append_sep id_segment_def)
qed

context blob_store
begin

lemma finish_download:
  assumes st: "staged (tu_id u) es body (wd_store wd)" "id_segment (tu_id u)"
    and finish: "onUploadFinish sv storage_of auth fileId u wd = (Inr (TusHeaders f k), wd')" "sv_put sv = put" "sv_get sv = get"
    and ids: "is_uuid fileId" "fileId \<notin> fc_id ` set (wd_rows wd)"
      "id_segment (nullish (Option.bind (Option.bind (tu_metadata u) (\<lambda>m. map_get m ''folderId'')) id) ROOT_SEGMENT)"
    and name: "name = meta_string (tu_metadata u) ''filename'' (tu_id u)"
      "\<forall>clean. sanitiseFilename name = Inr clean \<longrightarrow> \<not> endsWith clean ''.meta.json''"
    and size: "length (encode_name (safeZipFilename name)) < 2 ^ 16" "length body < 2 ^ 31"
  shows "\<exists>archive. fst (downloadZip sv (Some (meta_string (tu_metadata u) ''tenantId'' [])) (Some (JArr [JStr fileId])) wd') = Inr archive
      \<and> unzip archive = Some [(safeZipFilename name, body)]"
    and "get (bodyKey (tu_id u)) (wd_store wd') = Inl (ObjectNotFound (bodyKey (tu_id u)))"
proof -
  let ?t = "meta_string (tu_metadata u) ''tenantId'' []"
  from finish(1) obtain r bytes s1 where r: "fc_tenantId r = ?t" "is_uuid (fc_tenantId r)" "fc_id r = fileId" "fc_filename r = name"
      "resolveStoragePath (fc_tenantId r) (Option.bind (Option.bind (tu_metadata u) (\<lambda>m. map_get m ''folderId'')) id) fileId (fc_filename r)
        = Inr (fc_storageKey r)"
      "get (bodyKey (tu_id u)) (wd_store wd) = Inr bytes" "s1 = snd (sv_put sv (fc_storageKey r) bytes (fc_mimeType r) (wd_store wd))"
      "wd_rows wd' = wd_rows wd @ [file_toRow r]" "wd_store wd' = snd (tus_remove storage_of (tu_id u) s1)"
  proof (cases rule: finish_effect)
    case (inserted r bytes s1)
    then show thesis using that [of r bytes s1] by (simp add: name(1))
  qed simp_all
  have body: "bytes = body" using st(1) r(6) by (simp add: staged_def)
  note key = resolved_key(1) [OF r(5) uuid_segment(1) [OF r(2)] uuid_segment(1) [OF ids(1)] ids(3) uuid_segment(2,3) [OF r(2)]
      name(2) [folded r(4)]]
  have head: "hd (key_segments (fc_storageKey r)) \<noteq> ''_tus''"
    using resolved_head [OF r(5) uuid_segment(1) [OF r(2)]] uuid_segment(2) [OF r(2)] by simp
  have s1: "inv s1" "get (fc_storageKey r) s1 = Inr body"
    using put_total [OF key, of "wd_store wd" bytes "fc_mimeType r"] get_put [OF key key, of "wd_store wd" bytes "fc_mimeType r"]
      st(1) r(7) finish(2) body by (simp_all add: staged_def)
  obtain s2 where s2: "tus_remove storage_of (tu_id u) s1 = (Inr (), s2)" "elsewhere (tu_id u) s1 s2"
    "get (bodyKey (tu_id u)) s2 = Inl (ObjectNotFound (bodyKey (tu_id u)))"
    using remove_staged [OF st(2) s1(1)] by blast
  have stored: "wd_store wd' = s2" using r(9) s2(1) by simp
  show "get (bodyKey (tu_id u)) (wd_store wd') = Inl (ObjectNotFound (bodyKey (tu_id u)))" by (simp add: stored s2(3))
  have "sv_get sv (fc_storageKey r) (wd_store wd') = Inr body"
    using s2(2) s1(2) key final_key_not_staged [OF st(2) key head] by (simp add: stored finish(3) elsewhere_def)
  moreover have "file_findById (Some ?t) fileId (wd_rows wd') = Some (file_fromRow (file_toRow r))"
    unfolding r(8) r(1) [symmetric] by (rule find_uploaded [OF r(2) refl r(3) ids(2)])
  moreover have "fc_storageKey (file_fromRow (file_toRow r)) = fc_storageKey r" "fc_filename (file_fromRow (file_toRow r)) = name"
    by (simp_all add: file_fromRow_def file_toRow_def r(4))
  moreover have "fileId \<noteq> []" using ids(1) by (auto simp: is_uuid_def)
  ultimately show "\<exists>archive. fst (downloadZip sv (Some ?t) (Some (JArr [JStr fileId])) wd') = Inr archive
      \<and> unzip archive = Some [(safeZipFilename name, body)]"
    using zip_one [of ?t fileId wd' "file_fromRow (file_toRow r)" sv body] size by simp
qed

lemma finish_succeeds:
  assumes st: "staged (tu_id u) es body (wd_store wd)" "id_segment (tu_id u)" and sv: "sv_put sv = put" "\<And>row rows. sv_accepts sv row rows"
    and t: "t = meta_string (tu_metadata u) ''tenantId'' []" "is_uuid t" "tus_tenant_check auth t = None"
    and ids: "is_uuid fileId" "id_segment (nullish (Option.bind (Option.bind (tu_metadata u) (\<lambda>m. map_get m ''folderId'')) id) ROOT_SEGMENT)"
    and name: "name = meta_string (tu_metadata u) ''filename'' (tu_id u)" "sanitiseFilename name = Inr clean" "\<not> endsWith clean ''.meta.json''"
    and sniffed: "mm_ok (checkSniffedMimeMatchesClaim (take 256 body) (meta_string (tu_metadata u) ''filetype'' default_mime))"
  shows "\<exists>k. fst (onUploadFinish sv storage_of auth fileId u wd) = Inr (TusHeaders fileId k)"
proof -
  let ?folder = "Option.bind (Option.bind (tu_metadata u) (\<lambda>m. map_get m ''folderId'')) id"
  obtain key where key: "resolveStoragePath t ?folder fileId name = Inr key"
  proof -
    have "t \<noteq> []" "fileId \<noteq> []" "name \<noteq> []" using t(2) ids(1) name(2) by (auto simp: is_uuid_def sanitiseFilename_def)
    then show ?thesis using that name(2) by (simp add: resolveStoragePath_def)
  qed
  have "storage_key key"
    by (rule resolved_key(1) [OF key uuid_segment(1) [OF t(2)] uuid_segment(1) [OF ids(1)] ids(2) uuid_segment(2,3) [OF t(2)]]) (use name in simp)
  then obtain s1 where s1: "\<exists>m. put key body (meta_string (tu_metadata u) ''filetype'' default_mime) (wd_store wd) = (Inr m, s1)" "inv s1"
    using put_cases st(1) unfolding staged_def by metis
  obtain s2 where s2: "tus_remove storage_of (tu_id u) s1 = (Inr (), s2)" using remove_staged [OF st(2) s1(2)] by blast
  have body: "get (bodyKey (tu_id u)) (wd_store wd) = Inr body" using st(1) by (simp add: staged_def)
  have "t \<noteq> []" using t(2) by (auto simp: is_uuid_def)
  then show ?thesis
    using t(2,3) key s1(1) s2 sniffed sv body unfolding onUploadFinish_def Let_def t(1) [symmetric] name(1) [symmetric]
    by (auto simp: promote_upload_def file_insert_def rls_tenant_def)
qed

end

text \<open>C13: A resumable upload comes back.  Create an upload on the file system, send its chunks, finish it in its tenant: the hook answers
  with the file identifier, the archive download of that identifier in the tenant gives one file with the safe form of
  its name and the concatenation of the chunks, and the staged copy is gone.\<close>

theorem resumable_upload_comes_back:
  assumes "id_segment (tu_id u)" "local_inv root (wd_store wd)" "case tu_metadata u of None \<Rightarrow> True | Some m \<Rightarrow> distinct (map fst m)"
    and "tus_create (local_tus root) now u (wd_store wd) = (r0, s0)" "send_chunks (local_tus root) (tu_id u) 0 cs s0 = (r1, s1)"
    and "sv_put sv = local_put root" "sv_get sv = local_get root" "\<And>row rows. sv_accepts sv row rows"
    and "t = meta_string (tu_metadata u) ''tenantId'' []" "is_uuid t" "tus_tenant_check auth t = None"
    and "is_uuid fileId" "fileId \<notin> fc_id ` set (wd_rows wd)"
      "id_segment (nullish (Option.bind (Option.bind (tu_metadata u) (\<lambda>m. map_get m ''folderId'')) id) ROOT_SEGMENT)"
    and "name = meta_string (tu_metadata u) ''filename'' (tu_id u)" "sanitiseFilename name = Inr clean" "\<not> endsWith clean ''.meta.json''"
    and "mm_ok (checkSniffedMimeMatchesClaim (take 256 (concat (concat cs))) (meta_string (tu_metadata u) ''filetype'' default_mime))"
    and "length (encode_name (safeZipFilename name)) < 2 ^ 16" "length (concat (concat cs)) < 2 ^ 31"
  shows "\<exists>k wd'. onUploadFinish sv (local_tus root) auth fileId u (wd\<lparr>wd_store := s1\<rparr>) = (Inr (TusHeaders fileId k), wd')
    \<and> (\<exists>archive. fst (downloadZip sv (Some t) (Some (JArr [JStr fileId])) wd') = Inr archive
        \<and> unzip archive = Some [(safeZipFilename name, concat (concat cs))])
    \<and> local_get root (bodyKey (tu_id u)) (wd_store wd') = Inl (ObjectNotFound (bodyKey (tu_id u)))"
proof -
  let ?wd = "wd\<lparr>wd_store := s1\<rparr>"
  obtain es where es: "local_fs.staged root (tu_id u) es (concat (concat cs)) (wd_store ?wd)"
    using local_fs.upload_assembles(2) [OF assms(1-3), unfolded local_tus_storage, OF assms(4,5)] by auto
  obtain k wd' where run: "onUploadFinish sv (local_tus root) auth fileId u ?wd = (Inr (TusHeaders fileId k), wd')"
    using local_fs.finish_succeeds [OF es assms(1,6,8-12,14-18), unfolded local_tus_storage] by (metis prod.collapse)
  have "fileId \<notin> fc_id ` set (wd_rows ?wd)" "\<forall>c. sanitiseFilename name = Inr c \<longrightarrow> \<not> endsWith c ''.meta.json''"
    using assms(13,16,17) by simp_all
  then show ?thesis
    using run local_fs.finish_download [OF es assms(1), unfolded local_tus_storage, OF run assms(6,7,12) _ assms(14,15) _ assms(19,20)] assms(9) by simp
qed

definition sample_sent :: file_system where
  "sample_sent = snd (send_chunks (local_tus [''srv'']) ''abc'' 0 [[[104], [105]], [[33]]]
     (snd (tus_create (local_tus [''srv'']) 0 sample_staged (fresh_files [''srv'']))))"

definition sample_login :: "string + string option option" where
  "sample_login = Inr (Some (Some (sample_uuid (CHR ''1''))))"

text \<open>The two calls before the hook, for the sample upload.\<close>

lemma sample_names:
  "meta_string (tu_metadata sample_staged) ''filename'' (tu_id sample_staged) = ''a.txt''"
  "meta_string (tu_metadata sample_staged) ''tenantId'' [] = sample_uuid (CHR ''1'')"
  "sanitiseFilename ''a.txt'' = Inr ''a.txt''" "safeZipFilename ''a.txt'' = ''a.txt''" "\<not> endsWith ''a.txt'' ''.meta.json''"
  "length (encode_name ''a.txt'') = 5"
  "id_segment (nullish (Option.bind (Option.bind (tu_metadata sample_staged) (\<lambda>m. map_get m ''folderId'')) id) ROOT_SEGMENT)"
  "tus_tenant_check (Some sample_login) (sample_uuid (CHR ''1'')) = None"
  by code_simp+

lemma sample_sniffed:
  "mm_ok (checkSniffedMimeMatchesClaim (take 256 [104, 105, 33]) (meta_string (tu_metadata sample_staged) ''filetype'' default_mime))"
proof -
  have "meta_string (tu_metadata sample_staged) ''filetype'' default_mime = ''application/octet-stream''" by code_simp
  then show ?thesis
    by (simp add: checkSniffedMimeMatchesClaim_def sniffMagicBytes_def svg_simps SIGNATURES_def magic_def signature_matches_def)
qed

theorem resumable_upload_comes_back_witness:
  "\<exists>k wd' archive. onUploadFinish (local_service [''srv''] None) (local_tus [''srv'']) (Some sample_login) (sample_uuid (CHR ''2'')) sample_staged
       \<lparr>wd_rows = [], wd_store = sample_sent\<rparr> = (Inr (TusHeaders (sample_uuid (CHR ''2'')) k), wd')
     \<and> fst (downloadZip (local_service [''srv''] None) (Some (sample_uuid (CHR ''1''))) (Some (JArr [JStr (sample_uuid (CHR ''2''))])) wd') = Inr archive
     \<and> unzip archive = Some [(''a.txt'', [104, 105, 33])]"
proof -
  let ?wd = "\<lparr>wd_rows = [], wd_store = fresh_files [''srv'']\<rparr> :: file_system file_world"
  obtain r0 s0 where create: "tus_create (local_tus [''srv'']) 0 sample_staged (wd_store ?wd) = (r0, s0)" by fastforce
  obtain r1 s1 where send: "send_chunks (local_tus [''srv'']) (tu_id sample_staged) 0 [[[104], [105]], [[33]]] s0 = (r1, s1)" by fastforce
  have sent: "sample_sent = s1" using create send by (simp add: sample_sent_def sample_staged_def)
  have inv: "local_inv [''srv''] (wd_store ?wd)" by (simp add: fresh_files_inv plain_segment_def)
  have sv: "sv_put (local_service [''srv''] None) = local_put [''srv'']" "sv_get (local_service [''srv''] None) = local_get [''srv'']"
    "\<And>row rows. sv_accepts (local_service [''srv''] None) row rows" by (simp_all add: local_service_def)
  have "\<exists>k wd'. onUploadFinish (local_service [''srv''] None) (local_tus [''srv'']) (Some sample_login) (sample_uuid (CHR ''2'')) sample_staged
      (?wd\<lparr>wd_store := s1\<rparr>) = (Inr (TusHeaders (sample_uuid (CHR ''2'')) k), wd')
    \<and> (\<exists>archive. fst (downloadZip (local_service [''srv''] None) (Some (sample_uuid (CHR ''1''))) (Some (JArr [JStr (sample_uuid (CHR ''2''))])) wd') = Inr archive
        \<and> unzip archive = Some [(safeZipFilename ''a.txt'', concat (concat [[[104], [105]], [[33]]]))])
    \<and> local_get [''srv''] (bodyKey (tu_id sample_staged)) (wd_store wd') = Inl (ObjectNotFound (bodyKey (tu_id sample_staged)))"
    by (rule resumable_upload_comes_back [OF sample_staged_ok(1) inv sample_staged_ok(2) create send sv sample_names(2) [symmetric] sample_uuid_ok(1)
        sample_names(8) sample_uuid_ok(2) _ sample_names(7) sample_names(1) [symmetric] sample_names(3,5)]) (use sample_names sample_sniffed in simp_all)
  then show ?thesis by (auto simp: sent sample_names(4))
qed

theorem tus_finish_is_confined_witness:
  "foreign (Some (sample_uuid (CHR ''1''))) (wd_rows (snd (onUploadFinish (local_service [''srv''] None) (local_tus [''srv'']) (Some sample_login)
     (sample_uuid (CHR ''2'')) sample_staged \<lparr>wd_rows = [], wd_store = sample_sent\<rparr>))) = []"
proof -
  obtain res wd' where run: "onUploadFinish (local_service [''srv''] None) (local_tus [''srv'']) (Some sample_login)
      (sample_uuid (CHR ''2'')) sample_staged \<lparr>wd_rows = [], wd_store = sample_sent\<rparr> = (res, wd')" by fastforce
  have "session_tenant sample_login = Some (sample_uuid (CHR ''1''))" by (simp add: session_tenant_def sample_login_def)
  then show ?thesis using tus_finish_is_confined [OF run] by (simp add: run foreign_def)
qed

text \<open>The finish hook never scans: whatever the scanner of the file service says of the bytes, the result is the same.\<close>

theorem tus_uploads_are_not_scanned:
  "onUploadFinish (sv\<lparr>sv_scanner := scanner\<rparr>) ds auth fileId u wd = onUploadFinish sv ds auth fileId u wd"
proof -
  have sel: "sv_put (sv\<lparr>sv_scanner := scanner\<rparr>) = sv_put sv" "sv_accepts (sv\<lparr>sv_scanner := scanner\<rparr>) = sv_accepts sv"
    "sv_sha256 (sv\<lparr>sv_scanner := scanner\<rparr>) = sv_sha256 sv" "sv_driver (sv\<lparr>sv_scanner := scanner\<rparr>) = sv_driver sv" by simp_all
  show ?thesis unfolding onUploadFinish_def promote_upload_def sel ..
qed

end
