(* ===== verification/Upload_Sessions.thy ===== *)
theory Upload_Sessions
  imports Js_Prelude
begin

text \<open>
  The upload sessions of \<open>src/core/files/upload-session.ts\<close>: a state machine per upload over a storage that is awaited between
  reading a session and writing it back.  The storage is the map of the tests (\<open>tests/stories/tus-upload-session.story.test.ts\<close>).
  A step relation lets any number of calls overlap.
\<close>

section \<open>Sessions and their operations\<close>

datatype upload_status = Pending | Partial | Complete

record upload_session =
  us_id :: string
  us_uploadLength :: int
  us_offset :: int
  us_mimeType :: string
  us_status :: upload_status

datatype session_error = LengthNotPositive int | UploadTooLarge int | SessionNotFound string | SessionComplete string
  | SessionOffsetMismatch int int

type_synonym session_map = "(string \<times> upload_session) list"

text \<open>What \<open>update\<close> writes over the stored session.\<close>

record session_patch =
  sp_offset :: int
  sp_status :: upload_status

definition session_update :: "string \<Rightarrow> session_patch \<Rightarrow> session_map \<Rightarrow> upload_session option \<times> session_map" where
  "session_update i p st = (case map_get st i of
     None \<Rightarrow> (None, st)
   | Some s \<Rightarrow> (let s' = s\<lparr>us_offset := sp_offset p, us_status := sp_status p\<rparr> in (Some s', map_set i s' st)))"

definition session_delete :: "string \<Rightarrow> session_map \<Rightarrow> bool \<times> session_map" where
  "session_delete i st = (map_get st i \<noteq> None, map_delete i st)"

definition session_create :: "int \<Rightarrow> string \<Rightarrow> int \<Rightarrow> string \<Rightarrow> session_map \<Rightarrow> (session_error + upload_session) \<times> session_map" where
  "session_create maxUploadBytes uuid uploadLength mimeType st =
     (if uploadLength \<le> 0 then (Inl (LengthNotPositive uploadLength), st)
      else if uploadLength > maxUploadBytes then (Inl (UploadTooLarge maxUploadBytes), st)
      else let s = \<lparr>us_id = uuid, us_uploadLength = uploadLength, us_offset = 0, us_mimeType = mimeType, us_status = Pending\<rparr>
           in (Inr s, map_set uuid s st))"

text \<open>\<open>appendChunk\<close> up to its second \<open>await\<close>: what it reads, checks and is about to write.\<close>

definition append_check :: "string \<Rightarrow> int \<Rightarrow> nat \<Rightarrow> session_map \<Rightarrow> session_error + session_patch" where
  "append_check i offset chunkLength st = (case map_get st i of
     None \<Rightarrow> Inl (SessionNotFound i)
   | Some s \<Rightarrow>
       if us_status s = Complete then Inl (SessionComplete i)
       else if offset \<noteq> us_offset s then Inl (SessionOffsetMismatch (us_offset s) offset)
       else let newOffset = us_offset s + int chunkLength
            in if newOffset > us_uploadLength s then Inl (UploadTooLarge (us_uploadLength s))
               else Inr \<lparr>sp_offset = newOffset, sp_status = (if newOffset = us_uploadLength s then Complete else Partial)\<rparr>)"

definition append_write :: "string \<Rightarrow> session_patch \<Rightarrow> session_map \<Rightarrow> (session_error + upload_session) \<times> session_map" where
  "append_write i p st = (case session_update i p st of
     (None, st') \<Rightarrow> (Inl (SessionNotFound i), st') | (Some s, st') \<Rightarrow> (Inr s, st'))"

definition appendChunk :: "string \<Rightarrow> int \<Rightarrow> nat \<Rightarrow> session_map \<Rightarrow> (session_error + upload_session) \<times> session_map" where
  "appendChunk i offset chunkLength st = (case append_check i offset chunkLength st of
     Inl e \<Rightarrow> (Inl e, st) | Inr p \<Rightarrow> append_write i p st)"

definition session_get :: "string \<Rightarrow> session_map \<Rightarrow> session_error + upload_session" where
  "session_get i st = (case map_get st i of None \<Rightarrow> Inl (SessionNotFound i) | Some s \<Rightarrow> Inr s)"

section \<open>Overlapping calls\<close>

text \<open>\<open>up_calls\<close> are the calls of \<open>appendChunk\<close> that have read and checked their session and not yet written it;
  \<open>up_issued\<close> the identifiers drawn so far.\<close>

record upload_system =
  up_store :: session_map
  up_calls :: "(string \<times> session_patch) list"
  up_issued :: "string set"

inductive up_step :: "int \<Rightarrow> upload_system \<Rightarrow> upload_system \<Rightarrow> bool" for limit :: int where
  up_create: "uuid \<notin> up_issued y \<Longrightarrow>
    up_step limit y (y\<lparr>up_store := snd (session_create limit uuid uploadLength mimeType (up_store y)), up_issued := insert uuid (up_issued y)\<rparr>)"
| up_check: "append_check i offset n (up_store y) = Inr p \<Longrightarrow> up_step limit y (y\<lparr>up_calls := (i, p) # up_calls y\<rparr>)"
| up_write: "up_calls y = before @ (i, p) # after \<Longrightarrow>
    up_step limit y (y\<lparr>up_store := snd (append_write i p (up_store y)), up_calls := before @ after\<rparr>)"
| up_abort: "up_step limit y (y\<lparr>up_store := snd (session_delete i (up_store y))\<rparr>)"

inductive up_reach :: "int \<Rightarrow> upload_system \<Rightarrow> bool" for limit :: int where
  up_start: "up_reach limit \<lparr>up_store = [], up_calls = [], up_issued = {}\<rparr>"
| up_next: "up_reach limit y \<Longrightarrow> up_step limit y z \<Longrightarrow> up_reach limit z"

definition patch_ok :: "int \<Rightarrow> session_patch \<Rightarrow> bool" where
  "patch_ok len p \<longleftrightarrow> 0 \<le> sp_offset p \<and> sp_offset p \<le> len \<and> sp_status p \<noteq> Pending \<and> (sp_status p = Complete \<longleftrightarrow> sp_offset p = len)"

definition session_ok :: "int \<Rightarrow> string \<Rightarrow> upload_session \<Rightarrow> bool" where
  "session_ok limit i s \<longleftrightarrow> us_id s = i \<and> 0 < us_uploadLength s \<and> us_uploadLength s \<le> limit \<and> 0 \<le> us_offset s \<and> us_offset s \<le> us_uploadLength s
     \<and> (us_status s = Complete \<longleftrightarrow> us_offset s = us_uploadLength s) \<and> (us_status s = Pending \<longrightarrow> us_offset s = 0)"

definition up_inv :: "int \<Rightarrow> upload_system \<Rightarrow> bool" where
  "up_inv limit y \<longleftrightarrow>
     (\<forall>i s. map_get (up_store y) i = Some s \<longrightarrow> session_ok limit i s \<and> i \<in> up_issued y)
   \<and> (\<forall>(i, p)\<in>set (up_calls y). i \<in> up_issued y \<and> (\<forall>s. map_get (up_store y) i = Some s \<longrightarrow> patch_ok (us_uploadLength s) p))"

lemma create_store:
  "map_get (snd (session_create limit uuid len mime st)) i =
     (if i = uuid \<and> 0 < len \<and> len \<le> limit
      then Some \<lparr>us_id = uuid, us_uploadLength = len, us_offset = 0, us_mimeType = mime, us_status = Pending\<rparr> else map_get st i)"
  by (auto simp: session_create_def Let_def map_get_set)

lemma write_store:
  "map_get (snd (append_write i p st)) j =
     (if j = i then map_option (\<lambda>s. s\<lparr>us_offset := sp_offset p, us_status := sp_status p\<rparr>) (map_get st i) else map_get st j)"
  by (auto simp: append_write_def session_update_def Let_def map_get_set split: option.split)

lemma check_patch:
  assumes "append_check i offset n st = Inr p" "\<And>s. map_get st i = Some s \<Longrightarrow> session_ok limit i s"
  obtains s where "map_get st i = Some s" "patch_ok (us_uploadLength s) p"
proof -
  obtain s where s: "map_get st i = Some s" "us_offset s + int n \<le> us_uploadLength s"
    "p = \<lparr>sp_offset = us_offset s + int n, sp_status = (if us_offset s + int n = us_uploadLength s then Complete else Partial)\<rparr>"
    using assms(1) by (simp add: append_check_def Let_def split: option.splits if_splits)
  then show thesis using that [of s] assms(2) [OF s(1)] by (simp add: session_ok_def patch_ok_def)
qed

lemma write_ok: "session_ok limit i s \<Longrightarrow> patch_ok (us_uploadLength s) p \<Longrightarrow>
    session_ok limit i (s\<lparr>us_offset := sp_offset p, us_status := sp_status p\<rparr>)"
  by (simp add: session_ok_def patch_ok_def)

lemma up_inv_step:
  assumes "up_step limit y z" "up_inv limit y"
  shows "up_inv limit z"
  using assms
proof (cases rule: up_step.cases)
  case (up_create uuid len mime)
  have stores: "session_ok limit i s \<and> i \<in> up_issued z" if "map_get (up_store z) i = Some s" for i s
  proof (cases "i = uuid \<and> 0 < len \<and> len \<le> limit")
    case True
    then show ?thesis using that unfolding up_create(1) by (auto simp: create_store session_ok_def)
  next
    case False
    then have "map_get (up_store y) i = Some s" using that unfolding up_create(1) by (simp add: create_store split: if_splits)
    then show ?thesis using assms(2) by (simp add: up_inv_def up_create(1))
  qed
  have calls: "i \<in> up_issued z \<and> (\<forall>s. map_get (up_store z) i = Some s \<longrightarrow> patch_ok (us_uploadLength s) p)" if "(i, p) \<in> set (up_calls z)" for i p
  proof -
    have "i \<in> up_issued y" "\<forall>s. map_get (up_store y) i = Some s \<longrightarrow> patch_ok (us_uploadLength s) p"
      using that assms(2) by (auto simp: up_inv_def up_create(1))
    moreover from this(1) have "i \<noteq> uuid" using up_create(2) by blast
    ultimately show ?thesis by (simp add: up_create(1) create_store)
  qed
  show ?thesis unfolding up_inv_def using stores calls by blast
next
  case (up_check i offset n p)
  have "session_ok limit i s" if "map_get (up_store y) i = Some s" for s using that assms(2) unfolding up_inv_def by blast
  from check_patch [OF up_check(2) this] obtain s where s: "map_get (up_store y) i = Some s" "patch_ok (us_uploadLength s) p" by blast
  have "i \<in> up_issued y" using s(1) assms(2) unfolding up_inv_def by blast
  then show ?thesis using s assms(2) unfolding up_inv_def up_check(1) by simp
next
  case (up_write before i p after)
  have calls: "(i, p) \<in> set (up_calls y)" "set (before @ after) \<subseteq> set (up_calls y)" using up_write(2) by auto
  then have "\<forall>s. map_get (up_store y) i = Some s \<longrightarrow> patch_ok (us_uploadLength s) p" using assms(2) unfolding up_inv_def by blast
  then have stores: "session_ok limit j s \<and> j \<in> up_issued z" if "map_get (up_store z) j = Some s" for j s
    using that assms(2) write_ok by (auto simp: up_inv_def up_write(1) write_store split: if_splits)
  have "i' \<in> up_issued z \<and> (\<forall>s. map_get (up_store z) i' = Some s \<longrightarrow> patch_ok (us_uploadLength s) p')" if "(i', p') \<in> set (up_calls z)" for i' p'
  proof -
    have "(i', p') \<in> set (up_calls y)" using that calls(2) by (auto simp: up_write(1))
    then have "i' \<in> up_issued y" "\<forall>s. map_get (up_store y) i' = Some s \<longrightarrow> patch_ok (us_uploadLength s) p'"
      using assms(2) unfolding up_inv_def by blast+
    then show ?thesis by (auto simp: up_write(1) write_store)
  qed
  then show ?thesis using stores unfolding up_inv_def by blast
next
  case (up_abort i)
  then show ?thesis using assms(2) by (auto simp: up_inv_def session_delete_def map_get_delete split: if_splits)
qed

lemma up_reach_inv: "up_reach limit y \<Longrightarrow> up_inv limit y"
  by (induction rule: up_reach.induct) (auto simp: up_inv_step, simp add: up_inv_def)

text \<open>Upload sessions stay consistent under any overlap of calls: every stored session has a positive length within the limit, an
  offset between zero and the length, is complete exactly when the offset has reached the length, and is pending only
  before the first byte.\<close>

theorem upload_sessions_consistent:
  assumes "up_reach limit y" "map_get (up_store y) i = Some s"
  shows "us_id s = i \<and> 0 < us_uploadLength s \<and> us_uploadLength s \<le> limit \<and> 0 \<le> us_offset s \<and> us_offset s \<le> us_uploadLength s
    \<and> (us_status s = Complete \<longleftrightarrow> us_offset s = us_uploadLength s) \<and> (us_status s = Pending \<longrightarrow> us_offset s = 0)"
  using up_reach_inv [OF assms(1)] assms(2) by (auto simp: up_inv_def session_ok_def)

section \<open>What overlapping calls can do\<close>

definition sample_session_map :: "nat list \<Rightarrow> session_map" where
  "sample_session_map ns = [(''s'', \<lparr>us_id = ''s'', us_uploadLength = 10, us_offset = int (sum_list ns), us_mimeType = ''text/plain'',
     us_status = (if ns = [] then Pending else if sum_list ns = 10 then Complete else Partial)\<rparr>)]"

lemma sample_created: "up_reach 10 \<lparr>up_store = sample_session_map [], up_calls = [], up_issued = {''s''}\<rparr>"
proof -
  have "up_step 10 \<lparr>up_store = [], up_calls = [], up_issued = {}\<rparr> \<lparr>up_store = sample_session_map [], up_calls = [], up_issued = {''s''}\<rparr>"
    using up_create [of "''s''" "\<lparr>up_store = [], up_calls = [], up_issued = {}\<rparr>" 10 10 "''text/plain''"]
    by (simp add: session_create_def sample_session_map_def Let_def)
  then show ?thesis by (rule up_next [OF up_start])
qed

theorem upload_sessions_consistent_witness:
  "up_reach 10 \<lparr>up_store = sample_session_map [], up_calls = [], up_issued = {''s''}\<rparr> \<and> us_status (snd (hd (sample_session_map []))) = Pending"
proof -
  have "map_get (up_store \<lparr>up_store = sample_session_map [], up_calls = [], up_issued = {''s''}\<rparr>) ''s'' = Some (snd (hd (sample_session_map [])))"
    by (simp add: sample_session_map_def)
  from upload_sessions_consistent [OF sample_created this] show ?thesis
    using sample_created by (simp add: sample_session_map_def)
qed

text \<open>Two calls that both read the session before either writes it are both accepted at one offset: the second write moves a complete
  session back to an earlier offset.\<close>

theorem overlapping_append_reopens_session:
  "\<exists>y z. up_reach 10 y \<and> us_status (the (map_get (up_store y) ''s'')) = Complete
     \<and> up_step 10 y z \<and> us_status (the (map_get (up_store z) ''s'')) = Partial \<and> us_offset (the (map_get (up_store z) ''s'')) = 4"
proof -
  let ?y0 = "\<lparr>up_store = sample_session_map [], up_calls = [], up_issued = {''s''}\<rparr>"
  let ?full = "\<lparr>sp_offset = 10, sp_status = Complete\<rparr>" and ?short = "\<lparr>sp_offset = 4, sp_status = Partial\<rparr>"
  let ?y2 = "?y0\<lparr>up_calls := [(''s'', ?short), (''s'', ?full)]\<rparr>"
  have "up_step 10 ?y0 (?y0\<lparr>up_calls := [(''s'', ?full)]\<rparr>)"
    using up_check [of "''s''" 0 10 ?y0 ?full 10] by (simp add: append_check_def sample_session_map_def Let_def)
  moreover have "up_step 10 (?y0\<lparr>up_calls := [(''s'', ?full)]\<rparr>) ?y2"
    using up_check [of "''s''" 0 4 "?y0\<lparr>up_calls := [(''s'', ?full)]\<rparr>" ?short 10] by (simp add: append_check_def sample_session_map_def Let_def)
  moreover have "up_step 10 ?y2 (?y0\<lparr>up_store := sample_session_map [10], up_calls := [(''s'', ?short)]\<rparr>)"
    using up_write [of ?y2 "[(''s'', ?short)]" "''s''" ?full "[]" 10]
    by (simp add: append_write_def session_update_def sample_session_map_def Let_def)
  ultimately have "up_reach 10 (?y0\<lparr>up_store := sample_session_map [10], up_calls := [(''s'', ?short)]\<rparr>)"
    using sample_created up_next by blast
  moreover have "up_step 10 (?y0\<lparr>up_store := sample_session_map [10], up_calls := [(''s'', ?short)]\<rparr>) (?y0\<lparr>up_store := sample_session_map [4]\<rparr>)"
    using up_write [of "?y0\<lparr>up_store := sample_session_map [10], up_calls := [(''s'', ?short)]\<rparr>" "[]" "''s''" ?short "[]" 10]
    by (simp add: append_write_def session_update_def sample_session_map_def Let_def)
  ultimately show ?thesis by (intro exI conjI) (assumption, simp add: sample_session_map_def, assumption, simp_all add: sample_session_map_def)
qed

end
