(* ===== verification/Realtime.thy ===== *)
theory Realtime
  imports Ability_Rules
begin

text \<open>
  The realtime layer (\<open>src/core/realtime/\<close>): channel names and the permission to subscribe, the gateway with its rooms
  (\<open>realtime.module.ts\<close>), the state the inspector shows (\<open>inspector-state.ts\<close>), the masking of payloads, and the bridge from the outbox.
  Socket.IO keeps the rooms; here a room is a name on a connected socket.  The private room of a socket, named by its
  identifier, is left out: identifiers hold no colon and are not guessable.  \<open>can\<close> is the evaluator of CASL.
\<close>

section \<open>Channels\<close>

record channel =
  ch_subject :: string
  ch_scope :: string
  ch_id :: string

text \<open>\<open>/^([^:]+):([^:]+):([^:]+)$/\<close>; \<open>None\<close> is the exception.\<close>

definition parseChannelName :: "string \<Rightarrow> channel option" where
  "parseChannelName name = (case split_on (CHR '':'') name of
     [subject, scope, i] \<Rightarrow> if subject \<noteq> [] \<and> scope \<noteq> [] \<and> i \<noteq> []
       then Some \<lparr>ch_subject = subject, ch_scope = scope, ch_id = i\<rparr> else None
   | _ \<Rightarrow> None)"

definition canSubscribeToChannel :: "can_fn \<Rightarrow> ability \<Rightarrow> channel \<Rightarrow> bool" where
  "canSubscribeToChannel can ability ch =
     (if ch_scope ch = ''tenant'' then can ability ''read'' (Instance (ch_subject ch) [(''tenantId'', JStr (ch_id ch))])
      else can ability ''read'' (SubjectType (ch_subject ch)))"

section \<open>The inspector\<close>

record socket_entry =
  se_id :: string
  se_userId :: string
  se_tenantId :: string
  se_connectedAtMs :: millis
  se_channels :: "string list"
  se_lastPingMs :: "int option"
  se_bytesSent :: int
  se_bytesReceived :: int
  se_userAgent :: "string option"

record inspector_event =
  ie_channel :: string
  ie_eventType :: string
  ie_payload :: json
  ie_recipientCount :: nat
  ie_latencyMs :: int
  ie_occurredAt :: string
  ie_occurredAtMs :: millis

record inspector_state =
  in_sockets :: "(string \<times> socket_entry) list"
  in_events :: "inspector_event list"

text \<open>\<open>add\<close> and \<open>delete\<close> of a JavaScript \<open>Set\<close>.\<close>

definition set_add :: "'a \<Rightarrow> 'a list \<Rightarrow> 'a list" where
  "set_add x xs = (if x \<in> set xs then xs else xs @ [x])"

definition set_delete :: "'a \<Rightarrow> 'a list \<Rightarrow> 'a list" where
  "set_delete x xs = filter (\<lambda>y. y \<noteq> x) xs"

definition recordConnect :: "millis \<Rightarrow> string \<Rightarrow> string \<Rightarrow> string \<Rightarrow> string option \<Rightarrow> inspector_state \<Rightarrow> inspector_state" where
  "recordConnect now sid userId tenantId userAgent st = st\<lparr>in_sockets := map_set sid
     \<lparr>se_id = sid, se_userId = userId, se_tenantId = tenantId, se_connectedAtMs = now, se_channels = [], se_lastPingMs = None,
      se_bytesSent = 0, se_bytesReceived = 0, se_userAgent = userAgent\<rparr> (in_sockets st)\<rparr>"

definition recordDisconnect :: "string \<Rightarrow> inspector_state \<Rightarrow> inspector_state" where
  "recordDisconnect sid st = st\<lparr>in_sockets := map_delete sid (in_sockets st)\<rparr>"

definition on_socket :: "string \<Rightarrow> (socket_entry \<Rightarrow> socket_entry) \<Rightarrow> inspector_state \<Rightarrow> inspector_state" where
  "on_socket sid f st = (case map_get (in_sockets st) sid of
     None \<Rightarrow> st | Some sock \<Rightarrow> st\<lparr>in_sockets := map_set sid (f sock) (in_sockets st)\<rparr>)"

definition recordPing :: "string \<Rightarrow> int \<Rightarrow> inspector_state \<Rightarrow> inspector_state" where
  "recordPing sid latencyMs = on_socket sid (\<lambda>sock. sock\<lparr>se_lastPingMs := Some latencyMs\<rparr>)"

definition recordBytes :: "string \<Rightarrow> int option \<Rightarrow> int option \<Rightarrow> inspector_state \<Rightarrow> inspector_state" where
  "recordBytes sid sent received = on_socket sid (\<lambda>sock.
     sock\<lparr>se_bytesSent := se_bytesSent sock + nullish sent 0, se_bytesReceived := se_bytesReceived sock + nullish received 0\<rparr>)"

definition recordSubscribe :: "string \<Rightarrow> string \<Rightarrow> inspector_state \<Rightarrow> inspector_state" where
  "recordSubscribe sid ch = on_socket sid (\<lambda>sock. sock\<lparr>se_channels := set_add ch (se_channels sock)\<rparr>)"

definition recordUnsubscribe :: "string \<Rightarrow> string \<Rightarrow> inspector_state \<Rightarrow> inspector_state" where
  "recordUnsubscribe sid ch = on_socket sid (\<lambda>sock. sock\<lparr>se_channels := set_delete ch (se_channels sock)\<rparr>)"

definition recordEvent ::
  "nat \<Rightarrow> millis \<Rightarrow> string \<Rightarrow> string \<Rightarrow> json \<Rightarrow> nat \<Rightarrow> int \<Rightarrow> inspector_state \<Rightarrow> inspector_event \<times> inspector_state" where
  "recordEvent maxEvents now ch eventType payload recipientCount latencyMs st =
     (let snapshot = \<lparr>ie_channel = ch, ie_eventType = eventType, ie_payload = payload, ie_recipientCount = recipientCount,
            ie_latencyMs = latencyMs, ie_occurredAt = toISOString now, ie_occurredAtMs = now\<rparr>
      in (snapshot, st\<lparr>in_events := take maxEvents (snapshot # in_events st)\<rparr>))"

definition DEFAULT_MAX_EVENTS :: nat where
  "DEFAULT_MAX_EVENTS = 500"

definition ONE_HOUR_MS :: int where
  "ONE_HOUR_MS = 60 * 60 * 1000"

definition FIVE_SECONDS_MS :: int where
  "FIVE_SECONDS_MS = 5000"

text \<open>The subscribers per channel, in the order of the sockets.\<close>

definition add_subscriber :: "string \<Rightarrow> string \<Rightarrow> (string \<times> string list) list \<Rightarrow> (string \<times> string list) list" where
  "add_subscriber sid ch m = map_set ch (set_add sid (nullish (map_get m ch) [])) m"

definition channel_subscribers :: "inspector_state \<Rightarrow> (string \<times> string list) list" where
  "channel_subscribers st =
     fold (\<lambda>(k, sock) m. fold (add_subscriber (se_id sock)) (se_channels sock) m) (in_sockets st) []"

definition recent_events :: "millis \<Rightarrow> inspector_state \<Rightarrow> inspector_event list" where
  "recent_events now st = filter (\<lambda>e. \<not> ie_occurredAtMs e < now - ONE_HOUR_MS) (in_events st)"

definition channel_latencies :: "millis \<Rightarrow> inspector_state \<Rightarrow> (string \<times> int list) list" where
  "channel_latencies now st =
     fold (\<lambda>e m. map_set (ie_channel e) (nullish (map_get m (ie_channel e)) [] @ [ie_latencyMs e]) m) (recent_events now st) []"

text \<open>\<open>Math.floor(0.95 * n)\<close> is \<open>95 n div 100\<close> for the at most 500 values of the ring buffer.\<close>

definition percentile95 :: "int list \<Rightarrow> int" where
  "percentile95 values = (if values = [] then 0
     else let sorted = sort_by (\<le>) values; idx = min (length sorted - 1) (95 * length sorted div 100) in sorted ! idx)"

record channel_snapshot =
  cs_name :: string
  cs_subscriberIds :: "string list"
  cs_subscriberCount :: nat
  cs_eventsLastHour :: nat
  cs_p95LatencyMs :: int

text \<open>\<open>locale_le\<close> is \<open>localeCompare\<close>.\<close>

definition snapshotChannels :: "(string \<Rightarrow> string \<Rightarrow> bool) \<Rightarrow> millis \<Rightarrow> inspector_state \<Rightarrow> channel_snapshot list" where
  "snapshotChannels locale_le now st =
     (let subscribers = channel_subscribers st; latencies = channel_latencies now st;
          names = fold set_add (map_keys latencies) (map_keys subscribers);
          row = (\<lambda>name. let subs = nullish (map_get subscribers name) []; lat = nullish (map_get latencies name) []
                 in \<lparr>cs_name = name, cs_subscriberIds = subs, cs_subscriberCount = length subs, cs_eventsLastHour = length lat,
                     cs_p95LatencyMs = percentile95 lat\<rparr>)
      in sort_by (\<lambda>a b. cs_subscriberCount b < cs_subscriberCount a
                    \<or> cs_subscriberCount b = cs_subscriberCount a \<and> locale_le (cs_name a) (cs_name b)) (map row names))"

text \<open>The rate is this count divided by five.\<close>

definition events_in_five_seconds :: "millis \<Rightarrow> inspector_state \<Rightarrow> nat" where
  "events_in_five_seconds now st = length (filter (\<lambda>e. ie_occurredAtMs e \<ge> now - FIVE_SECONDS_MS) (in_events st))"

definition eventsForSocket :: "string \<Rightarrow> inspector_state \<Rightarrow> inspector_event list" where
  "eventsForSocket sid st = (case map_get (in_sockets st) sid of
     None \<Rightarrow> [] | Some sock \<Rightarrow> filter (\<lambda>e. ie_channel e \<in> set (se_channels sock)) (in_events st))"

section \<open>Masking\<close>

definition PII_KEYS :: "string list" where
  "PII_KEYS = [''email'', ''password'', ''token'', ''secret'', ''authorization'', ''phone'', ''ssn'', ''creditcard'', ''credit_card'',
     ''ssn_last4'']"

text \<open>\<open>dots\<close> is the ellipsis U+2026, which is no \<open>char\<close> here.\<close>

definition truncate :: "string \<Rightarrow> nat \<Rightarrow> string \<Rightarrow> string" where
  "truncate dots limit input = (if length input \<le> limit then input else take limit input @ dots)"

fun mask :: "string \<Rightarrow> nat \<Rightarrow> json \<Rightarrow> json" where
  "mask dots limit JNull = JNull"
| "mask dots limit (JBool b) = JBool b"
| "mask dots limit (JNum n) = JNum n"
| "mask dots limit (JStr s) = JStr (truncate dots limit s)"
| "mask dots limit (JArr vs) = JArr (map (mask dots limit) vs)"
| "mask dots limit (JObj es) = JObj (map (\<lambda>(k, v). (k, if toLowerCase k \<in> set PII_KEYS then JStr ''[redacted]'' else mask dots limit v)) es)"

definition DEFAULT_TRUNCATE_AT :: nat where
  "DEFAULT_TRUNCATE_AT = 200"

definition maskPayload :: "string \<Rightarrow> json \<Rightarrow> json" where
  "maskPayload dots payload = mask dots DEFAULT_TRUNCATE_AT payload"

section \<open>The gateway\<close>

text \<open>What the gateway is built with: the evaluator, the order of names, the ellipsis.\<close>

record gateway_config =
  gc_can :: can_fn
  gc_locale_le :: "string \<Rightarrow> string \<Rightarrow> bool"
  gc_dots :: string

record gateway_socket =
  gs_ability :: "ability option"
  gs_rooms :: "string list"

record gateway =
  gw_sockets :: "(string \<times> gateway_socket) list"
  gw_inspector :: inspector_state

text \<open>How the handshake of a socket ended: Better-Auth is not configured; it found no session or failed; or it gave the user, the
  active organization and the ability, where the permission service answered.\<close>

datatype handshake = NoAuth | NoSession | Session string "string option" "ability option"

definition acceptConnection :: "millis \<Rightarrow> string \<Rightarrow> string \<Rightarrow> string \<Rightarrow> ability option \<Rightarrow> gateway \<Rightarrow> gateway" where
  "acceptConnection now sid userId tenantId ability gw =
     gw\<lparr>gw_sockets := map_set sid \<lparr>gs_ability = ability, gs_rooms = []\<rparr> (gw_sockets gw),
        gw_inspector := recordConnect now sid userId tenantId None (gw_inspector gw)\<rparr>"

fun handleConnection :: "millis \<Rightarrow> string \<Rightarrow> handshake \<Rightarrow> gateway \<Rightarrow> gateway" where
  "handleConnection now sid NoAuth gw = acceptConnection now sid ''anonymous'' ''anonymous'' None gw"
| "handleConnection now sid NoSession gw = gw"
| "handleConnection now sid (Session userId org ability) gw = acceptConnection now sid userId (nullish org []) ability gw"

text \<open>The listeners of a connected socket; \<open>value\<close> is what the client sent.\<close>

definition subscribe_allowed :: "can_fn \<Rightarrow> gateway_socket \<Rightarrow> string \<Rightarrow> bool" where
  "subscribe_allowed can sock ch = (case gs_ability sock of
     None \<Rightarrow> False
   | Some ability \<Rightarrow> (case parseChannelName ch of None \<Rightarrow> False | Some c \<Rightarrow> canSubscribeToChannel can ability c))"

definition on_subscribe :: "gateway_config \<Rightarrow> string \<Rightarrow> json \<Rightarrow> gateway \<Rightarrow> gateway" where
  "on_subscribe cfg sid value gw = (case (value, map_get (gw_sockets gw) sid) of
     (JStr ch, Some sock) \<Rightarrow>
       if \<not> truthy ch then gw
       else if \<not> subscribe_allowed (gc_can cfg) sock ch then gw
       else gw\<lparr>gw_sockets := map_set sid (sock\<lparr>gs_rooms := set_add ch (gs_rooms sock)\<rparr>) (gw_sockets gw),
               gw_inspector := recordSubscribe sid ch (gw_inspector gw)\<rparr>
   | _ \<Rightarrow> gw)"

definition on_unsubscribe :: "string \<Rightarrow> json \<Rightarrow> gateway \<Rightarrow> gateway" where
  "on_unsubscribe sid value gw = (case (value, map_get (gw_sockets gw) sid) of
     (JStr ch, Some sock) \<Rightarrow>
       if \<not> truthy ch then gw
       else gw\<lparr>gw_sockets := map_set sid (sock\<lparr>gs_rooms := set_delete ch (gs_rooms sock)\<rparr>) (gw_sockets gw),
               gw_inspector := recordUnsubscribe sid ch (gw_inspector gw)\<rparr>
   | _ \<Rightarrow> gw)"

definition handleDisconnect :: "string \<Rightarrow> gateway \<Rightarrow> gateway" where
  "handleDisconnect sid gw = gw\<lparr>gw_sockets := map_delete sid (gw_sockets gw), gw_inspector := recordDisconnect sid (gw_inspector gw)\<rparr>"

definition subscriberCount :: "gateway_config \<Rightarrow> millis \<Rightarrow> string \<Rightarrow> gateway \<Rightarrow> nat" where
  "subscriberCount cfg now ch gw =
     (case find_first (\<lambda>c. cs_name c = ch) (snapshotChannels (gc_locale_le cfg) now (gw_inspector gw)) of
        None \<Rightarrow> 0 | Some c \<Rightarrow> cs_subscriberCount c)"

text \<open>A delivery is a socket, an event and a payload.\<close>

type_synonym room_delivery = "string \<times> string \<times> json"

definition broadcast :: "gateway_config \<Rightarrow> millis \<Rightarrow> string \<Rightarrow> string \<Rightarrow> json \<Rightarrow> gateway \<Rightarrow> room_delivery list \<times> gateway" where
  "broadcast cfg now ch event payload gw =
     (let deliveries = map (\<lambda>(sid, sock). (sid, event, payload)) (filter (\<lambda>(sid, sock). ch \<in> set (gs_rooms sock)) (gw_sockets gw));
          (recorded, st) = recordEvent DEFAULT_MAX_EVENTS now ch event (maskPayload (gc_dots cfg) payload)
            (subscriberCount cfg now ch gw) 0 (gw_inspector gw)
      in (deliveries, gw\<lparr>gw_inspector := st\<rparr>))"

text \<open>With the Redis adapter several instances share the rooms: \<open>server.to(channel).emit\<close> on the instance \<open>k\<close> reaches the
  members on all of them, while only the instance itself records the event, with its own subscribers.  Without the adapter
  there is one instance.\<close>

definition cluster_broadcast ::
  "gateway_config \<Rightarrow> millis \<Rightarrow> string \<Rightarrow> string \<Rightarrow> json \<Rightarrow> nat \<Rightarrow> gateway list \<Rightarrow> room_delivery list \<times> gateway list" where
  "cluster_broadcast cfg now ch event payload k gws =
     (concat (map (\<lambda>gw. fst (broadcast cfg now ch event payload gw)) gws),
      gws[k := snd (broadcast cfg now ch event payload (gws ! k))])"

definition broadcastGlobal :: "gateway_config \<Rightarrow> millis \<Rightarrow> string \<Rightarrow> json \<Rightarrow> gateway \<Rightarrow> room_delivery list \<times> gateway" where
  "broadcastGlobal cfg now event payload gw =
     (let deliveries = map (\<lambda>(sid, sock). (sid, event, payload)) (gw_sockets gw);
          (recorded, st) = recordEvent DEFAULT_MAX_EVENTS now ''*'' event (maskPayload (gc_dots cfg) payload)
            (length (in_sockets (gw_inspector gw))) 0 (gw_inspector gw)
      in (deliveries, gw\<lparr>gw_inspector := st\<rparr>))"

definition hasSocket :: "string \<Rightarrow> gateway \<Rightarrow> bool" where
  "hasSocket sid gw \<longleftrightarrow> list_ex (\<lambda>(k, sock). se_id sock = sid) (in_sockets (gw_inspector gw))"

definition disconnectSocket :: "string \<Rightarrow> gateway \<Rightarrow> bool \<times> gateway" where
  "disconnectSocket sid gw = (if \<not> hasSocket sid gw then (False, gw) else (True, handleDisconnect sid gw))"

definition sendToSocket :: "string \<Rightarrow> string \<Rightarrow> json \<Rightarrow> gateway \<Rightarrow> bool \<times> room_delivery list" where
  "sendToSocket sid event payload gw =
     (if \<not> hasSocket sid gw then (False, [])
      else (True, if map_get (gw_sockets gw) sid \<noteq> None then [(sid, event, payload)] else []))"

section \<open>From the outbox to the rooms\<close>

datatype realtime_scope = TenantScope string | UserScope string | GlobalScope

datatype outbox_record = Broadcast string json realtime_scope | OtherRecord string

record emission =
  em_channel :: string
  em_payload :: json
  em_room :: "string option"

fun roomFor :: "realtime_scope \<Rightarrow> string option" where
  "roomFor (TenantScope tenantId) = Some (''tenant:'' @ tenantId)"
| "roomFor (UserScope userId) = Some (''user:'' @ userId)"
| "roomFor GlobalScope = None"

text \<open>\<open>Inl ()\<close> is the error for an empty channel, \<open>Inr None\<close> an entry of another kind.\<close>

fun planRealtimeEmission :: "outbox_record \<Rightarrow> unit + emission option" where
  "planRealtimeEmission (OtherRecord kind) = Inr None"
| "planRealtimeEmission (Broadcast ch payload scope) =
     (if \<not> truthy ch \<or> trim ch = [] then Inl () else Inr (Some \<lparr>em_channel = ch, em_payload = payload, em_room = roomFor scope\<rparr>))"

text \<open>A malformed entry is dropped with a warning.\<close>

definition realtime_dispatch :: "gateway_config \<Rightarrow> millis \<Rightarrow> outbox_record \<Rightarrow> gateway \<Rightarrow> room_delivery list \<times> gateway" where
  "realtime_dispatch cfg now entry gw = (case planRealtimeEmission entry of
     Inl _ \<Rightarrow> ([], gw)
   | Inr None \<Rightarrow> ([], gw)
   | Inr (Some e) \<Rightarrow> (case em_room e of
       None \<Rightarrow> broadcastGlobal cfg now (em_channel e) (em_payload e) gw
     | Some room \<Rightarrow> broadcast cfg now room (em_channel e) (em_payload e) gw))"

end
