(* ===== verification/Realtime_Access.thy ===== *)
theory Realtime_Access
  imports Realtime
begin

text \<open>
  What the realtime layer guarantees: rooms hold only sockets whose ability allows the channel, the inspector shows the rooms as
  they are, tenant channels stay in their tenant; and what it does not: item channels are checked by type alone, and the
  rooms the outbox sends to cannot be joined.
\<close>

section \<open>Reachable gateways\<close>

datatype gateway_event = Connect string handshake | Subscribe string json | Unsubscribe string json | Disconnect string
  | AdminDisconnect string | BroadcastTo string string json | FromOutbox outbox_record

fun gateway_step :: "gateway_config \<Rightarrow> millis \<Rightarrow> gateway_event \<Rightarrow> gateway \<Rightarrow> gateway" where
  "gateway_step cfg now (Connect sid h) gw = handleConnection now sid h gw"
| "gateway_step cfg now (Subscribe sid v) gw = on_subscribe cfg sid v gw"
| "gateway_step cfg now (Unsubscribe sid v) gw = on_unsubscribe sid v gw"
| "gateway_step cfg now (Disconnect sid) gw = handleDisconnect sid gw"
| "gateway_step cfg now (AdminDisconnect sid) gw = snd (disconnectSocket sid gw)"
| "gateway_step cfg now (BroadcastTo ch event payload) gw = snd (broadcast cfg now ch event payload gw)"
| "gateway_step cfg now (FromOutbox r) gw = snd (realtime_dispatch cfg now r gw)"

text \<open>Socket.IO gives a connecting socket an identifier that no connected socket has.\<close>

fun fresh_event :: "gateway_event \<Rightarrow> gateway \<Rightarrow> bool" where
  "fresh_event (Connect sid h) gw = (sid \<notin> fst ` set (gw_sockets gw))"
| "fresh_event _ gw = True"

definition empty_gateway :: gateway where
  "empty_gateway = \<lparr>gw_sockets = [], gw_inspector = \<lparr>in_sockets = [], in_events = []\<rparr>\<rparr>"

inductive gw_reach :: "gateway_config \<Rightarrow> gateway \<Rightarrow> bool" for cfg :: gateway_config where
  gw_start: "gw_reach cfg empty_gateway"
| gw_next: "gw_reach cfg gw \<Longrightarrow> fresh_event ev gw \<Longrightarrow> gw_reach cfg (gateway_step cfg now ev gw)"

text \<open>One connected socket and its entry in the inspector.\<close>

definition socket_ok :: "can_fn \<Rightarrow> string \<times> gateway_socket \<Rightarrow> string \<times> socket_entry \<Rightarrow> bool" where
  "socket_ok can x y \<longleftrightarrow> fst y = fst x \<and> se_id (snd y) = fst x \<and> se_channels (snd y) = gs_rooms (snd x) \<and> distinct (gs_rooms (snd x))
     \<and> (\<forall>room\<in>set (gs_rooms (snd x)). subscribe_allowed can (snd x) room)"

definition gw_inv :: "gateway_config \<Rightarrow> gateway \<Rightarrow> bool" where
  "gw_inv cfg gw \<longleftrightarrow> distinct (map fst (gw_sockets gw)) \<and> list_all2 (socket_ok (gc_can cfg)) (gw_sockets gw) (in_sockets (gw_inspector gw))
     \<and> length (in_events (gw_inspector gw)) \<le> DEFAULT_MAX_EVENTS"

lemma socket_keys: "list_all2 (socket_ok can) xs ys \<Longrightarrow> map fst ys = map fst xs"
  by (induction rule: list_all2_induct) (auto simp: socket_ok_def)

lemma sockets_set:
  assumes "list_all2 (socket_ok can) xs ys" "socket_ok can (sid, sock) (sid, e)"
  shows "list_all2 (socket_ok can) (map_set sid sock xs) (map_set sid e ys)"
  using assms(1)
proof (induction rule: list_all2_induct)
  case (Cons x xs y ys)
  have "fst y = fst x" using Cons(1) by (simp add: socket_ok_def)
  then show ?case using Cons assms(2) by (cases x; cases y) auto
qed (simp add: assms(2))

lemma sockets_delete:
  "list_all2 (socket_ok can) xs ys \<Longrightarrow> list_all2 (socket_ok can) (map_delete sid xs) (map_delete sid ys)"
proof (induction rule: list_all2_induct)
  case (Cons x xs y ys)
  have "fst y = fst x" using Cons(1) by (simp add: socket_ok_def)
  then show ?case using Cons by (cases x; cases y) (auto simp: map_delete_def)
qed (simp add: map_delete_def)

lemma sockets_get:
  assumes "list_all2 (socket_ok can) xs ys" "map_get xs sid = Some sock"
  obtains e where "map_get ys sid = Some e" "socket_ok can (sid, sock) (sid, e)"
  using assms
proof (induction arbitrary: thesis rule: list_all2_induct)
  case (Cons x xs y ys)
  have "fst y = fst x" using Cons(1) by (simp add: socket_ok_def)
  then show ?case using Cons by (cases x; cases y) (auto split: if_splits)
qed simp

lemma distinct_keys_set: "distinct (map fst xs) \<Longrightarrow> distinct (map fst (map_set k v xs))"
  by (rule distinct_map_set)

lemma gw_inv_change:
  assumes "gw_inv cfg gw" "map_get (gw_sockets gw) sid = Some sock"
    and "\<And>e. socket_ok (gc_can cfg) (sid, sock) (sid, e) \<Longrightarrow> socket_ok (gc_can cfg) (sid, sock') (sid, f e)"
  shows "gw_inv cfg (gw\<lparr>gw_sockets := map_set sid sock' (gw_sockets gw), gw_inspector := on_socket sid f (gw_inspector gw)\<rparr>)"
proof -
  obtain e where e: "map_get (in_sockets (gw_inspector gw)) sid = Some e" "socket_ok (gc_can cfg) (sid, sock) (sid, e)"
    using assms(1,2) sockets_get unfolding gw_inv_def by metis
  then show ?thesis
    using assms(1,3) by (simp add: gw_inv_def on_socket_def sockets_set distinct_keys_set)
qed

lemma gw_inv_event:
  "gw_inv cfg gw \<Longrightarrow> gw_inv cfg (gw\<lparr>gw_inspector := snd (recordEvent DEFAULT_MAX_EVENTS now ch ev p n l (gw_inspector gw))\<rparr>)"
  by (simp add: gw_inv_def recordEvent_def Let_def)

lemma gw_inv_accept:
  assumes "gw_inv cfg gw" "sid \<notin> fst ` set (gw_sockets gw)"
  shows "gw_inv cfg (acceptConnection now sid userId tenantId ability gw)"
proof -
  let ?e = "\<lparr>se_id = sid, se_userId = userId, se_tenantId = tenantId, se_connectedAtMs = now, se_channels = [], se_lastPingMs = None,
    se_bytesSent = 0, se_bytesReceived = 0, se_userAgent = None\<rparr>"
  have "socket_ok (gc_can cfg) (sid, \<lparr>gs_ability = ability, gs_rooms = []\<rparr>) (sid, ?e)" by (simp add: socket_ok_def)
  then show ?thesis using assms by (simp add: gw_inv_def acceptConnection_def recordConnect_def sockets_set distinct_keys_set)
qed

lemma gw_inv_broadcasts:
  assumes "gw_inv cfg gw"
  shows "gw_inv cfg (snd (broadcast cfg now ch event payload gw))" "gw_inv cfg (snd (broadcastGlobal cfg now event payload gw))"
  using gw_inv_event [OF assms] by (simp_all add: broadcast_def broadcastGlobal_def Let_def split_beta)

lemma gw_inv_disconnect: "gw_inv cfg gw \<Longrightarrow> gw_inv cfg (handleDisconnect sid gw)"
  by (simp add: gw_inv_def handleDisconnect_def recordDisconnect_def sockets_delete distinct_map_delete)

lemma gw_inv_subscribe:
  assumes "gw_inv cfg gw"
  shows "gw_inv cfg (on_subscribe cfg sid value gw)" "gw_inv cfg (on_unsubscribe sid value gw)"
proof -
  have "gw_inv cfg (gw\<lparr>gw_sockets := map_set sid (sock\<lparr>gs_rooms := set_add ch (gs_rooms sock)\<rparr>) (gw_sockets gw),
      gw_inspector := recordSubscribe sid ch (gw_inspector gw)\<rparr>)"
    if "map_get (gw_sockets gw) sid = Some sock" "subscribe_allowed (gc_can cfg) sock ch" for sock ch
    unfolding recordSubscribe_def
    by (rule gw_inv_change [OF assms that(1)]) (use that(2) in \<open>auto simp: socket_ok_def set_add_def subscribe_allowed_def\<close>)
  then show "gw_inv cfg (on_subscribe cfg sid value gw)"
    using assms by (simp add: on_subscribe_def split: json.split option.split)
  have "gw_inv cfg (gw\<lparr>gw_sockets := map_set sid (sock\<lparr>gs_rooms := set_delete ch (gs_rooms sock)\<rparr>) (gw_sockets gw),
      gw_inspector := recordUnsubscribe sid ch (gw_inspector gw)\<rparr>)"
    if "map_get (gw_sockets gw) sid = Some sock" for sock ch
    unfolding recordUnsubscribe_def
    by (rule gw_inv_change [OF assms that]) (auto simp: socket_ok_def set_delete_def subscribe_allowed_def)
  then show "gw_inv cfg (on_unsubscribe sid value gw)"
    using assms by (simp add: on_unsubscribe_def split: json.split option.split)
qed

lemma gw_inv_step:
  assumes "gw_inv cfg gw" "fresh_event ev gw"
  shows "gw_inv cfg (gateway_step cfg now ev gw)"
proof (cases ev)
  case (Connect sid h)
  then show ?thesis using assms gw_inv_accept by (cases h) simp_all
next
  case (FromOutbox r)
  then show ?thesis using assms(1) gw_inv_broadcasts by (auto simp: realtime_dispatch_def split: sum.split option.split)
qed (use assms(1) gw_inv_subscribe gw_inv_disconnect gw_inv_broadcasts in \<open>simp_all add: disconnectSocket_def\<close>)

lemma gw_reach_inv: "gw_reach cfg gw \<Longrightarrow> gw_inv cfg gw"
  by (induction rule: gw_reach.induct) (simp add: gw_inv_def empty_gateway_def, rule gw_inv_step)

section \<open>The inspector shows the rooms\<close>

lemma set_add_twice: "set_add x (set_add x xs) = set_add x xs"
  by (simp add: set_add_def)

lemma get_added:
  "map_get (add_subscriber sid c m) ch = (if ch = c then Some (set_add sid (nullish (map_get m c) [])) else map_get m ch)"
  by (simp add: add_subscriber_def map_get_set)

lemma add_subscribers:
  "map_get (fold (add_subscriber sid) chs m) ch =
     (if ch \<in> set chs then Some (set_add sid (nullish (map_get m ch) [])) else map_get m ch)"
proof (induction chs arbitrary: m)
  case (Cons c chs)
  show ?case by (simp add: Cons.IH get_added set_add_twice)
qed simp

lemma subscribers_of:
  assumes "distinct (map (\<lambda>p. se_id (snd p)) socks)"
  shows "map_get (fold (\<lambda>(k, sock) m. fold (add_subscriber (se_id sock)) (se_channels sock) m) socks []) ch =
    (let ids = map (\<lambda>p. se_id (snd p)) (filter (\<lambda>p. ch \<in> set (se_channels (snd p))) socks) in if ids = [] then None else Some ids)"
  using assms
proof (induction socks rule: rev_induct)
  case (snoc p socks)
  then show ?case by (cases p) (auto simp: add_subscribers set_add_def Let_def)
qed simp

lemma set_fold_add: "set (fold set_add xs ys) = set ys \<union> set xs"
  by (induction xs arbitrary: ys) (auto simp: set_add_def)

lemma map_keys_get: "k \<in> set (map_keys m) \<longleftrightarrow> map_get m k \<noteq> None"
  by (auto simp: map_keys_def map_of_eq_None_iff image_iff)

lemma counted_subscribers:
  "subscriberCount cfg now ch gw = length (nullish (map_get (channel_subscribers (gw_inspector gw)) ch) [])"
proof -
  let ?st = "gw_inspector gw"
  let ?subs = "channel_subscribers ?st" and ?lat = "channel_latencies now ?st"
  define row where "row = (\<lambda>name. let subs = nullish (map_get ?subs name) []; lat = nullish (map_get ?lat name) []
    in \<lparr>cs_name = name, cs_subscriberIds = subs, cs_subscriberCount = length subs, cs_eventsLastHour = length lat,
        cs_p95LatencyMs = percentile95 lat\<rparr>)"
  have row: "cs_name (row n) = n" "cs_subscriberCount (row n) = length (nullish (map_get ?subs n) [])" for n
    by (simp_all add: row_def Let_def)
  let ?names = "fold set_add (map_keys ?lat) (map_keys ?subs)"
  have rows: "set (snapshotChannels (gc_locale_le cfg) now ?st) = row ` set ?names"
    by (simp add: snapshotChannels_def Let_def set_sort_by row_def)
  show ?thesis
  proof (cases "find_first (\<lambda>c. cs_name c = ch) (snapshotChannels (gc_locale_le cfg) now ?st)")
    case None
    then have "ch \<notin> set ?names" using rows row(1) by (auto simp: find_first_None)
    then have "map_get ?subs ch = None" by (auto simp: set_fold_add map_keys_get)
    then show ?thesis by (simp add: subscriberCount_def None)
  next
    case (Some c)
    then have "c = row ch" using find_first_Some rows row(1) by fastforce
    then show ?thesis by (simp add: subscriberCount_def Some row(2))
  qed
qed

lemma room_members:
  assumes "list_all2 (socket_ok can) xs ys"
  shows "map (\<lambda>p. se_id (snd p)) (filter (\<lambda>p. ch \<in> set (se_channels (snd p))) ys) = map fst (filter (\<lambda>(sid, sock). ch \<in> set (gs_rooms sock)) xs)"
    "map (\<lambda>p. se_id (snd p)) ys = map fst xs"
  using assms by (induction rule: list_all2_induct) (auto simp: socket_ok_def)

lemma counted_members:
  assumes "gw_inv cfg gw"
  shows "subscriberCount cfg now ch gw = length (filter (\<lambda>(sid, sock). ch \<in> set (gs_rooms sock)) (gw_sockets gw))"
proof -
  have socks: "list_all2 (socket_ok (gc_can cfg)) (gw_sockets gw) (in_sockets (gw_inspector gw))" "distinct (map fst (gw_sockets gw))"
    using assms by (simp_all add: gw_inv_def)
  then have "distinct (map (\<lambda>p. se_id (snd p)) (in_sockets (gw_inspector gw)))" by (simp add: room_members(2))
  from subscribers_of [OF this, of ch] show ?thesis
    using room_members(1) [OF socks(1), of ch]
    by (simp add: counted_subscribers channel_subscribers_def Let_def split: if_splits)
qed

lemma broadcasts_reach:
  assumes "gw_reach cfg gw" "(sid, e, p) \<in> set (fst (broadcast cfg now ch event payload gw))"
  obtains sock ability c where "e = event" "p = payload" "map_get (gw_sockets gw) sid = Some sock" "gs_ability sock = Some ability"
    "parseChannelName ch = Some c" "canSubscribeToChannel (gc_can cfg) ability c"
proof -
  have inv: "gw_inv cfg gw" by (rule gw_reach_inv) (rule assms(1))
  obtain sock where sock: "(sid, sock) \<in> set (gw_sockets gw)" "ch \<in> set (gs_rooms sock)" "e = event" "p = payload"
    using assms(2) by (auto simp: broadcast_def Let_def split_beta)
  then have get: "map_get (gw_sockets gw) sid = Some sock" using inv by (simp add: gw_inv_def)
  have socks: "list_all2 (socket_ok (gc_can cfg)) (gw_sockets gw) (in_sockets (gw_inspector gw))" using inv by (simp add: gw_inv_def)
  obtain en where "map_get (in_sockets (gw_inspector gw)) sid = Some en" "socket_ok (gc_can cfg) (sid, sock) (sid, en)"
    by (rule sockets_get [OF socks get])
  then have "subscribe_allowed (gc_can cfg) sock ch" using sock(2) by (simp add: socket_ok_def)
  then show thesis using that get sock(3,4) by (auto simp: subscribe_allowed_def split: option.splits)
qed

lemma broadcast_counts:
  assumes "gw_reach cfg gw"
  shows "ie_recipientCount (hd (in_events (gw_inspector (snd (broadcast cfg now ch event payload gw))))) =
      length (fst (broadcast cfg now ch event payload gw))"
    "length (in_events (gw_inspector (snd (broadcast cfg now ch event payload gw)))) \<le> 500"
proof -
  have inv: "gw_inv cfg gw" by (rule gw_reach_inv) (rule assms)
  have "fst (broadcast cfg now ch event payload gw) =
      map (\<lambda>(sid, sock). (sid, event, payload)) (filter (\<lambda>(sid, sock). ch \<in> set (gs_rooms sock)) (gw_sockets gw))"
    by (simp add: broadcast_def Let_def split_beta)
  moreover have "ie_recipientCount (hd (in_events (gw_inspector (snd (broadcast cfg now ch event payload gw))))) = subscriberCount cfg now ch gw"
    by (auto simp: broadcast_def recordEvent_def Let_def DEFAULT_MAX_EVENTS_def)
  ultimately show "ie_recipientCount (hd (in_events (gw_inspector (snd (broadcast cfg now ch event payload gw))))) =
      length (fst (broadcast cfg now ch event payload gw))"
    by (simp add: counted_members [OF inv])
  show "length (in_events (gw_inspector (snd (broadcast cfg now ch event payload gw)))) \<le> 500"
    using gw_inv_broadcasts(1) [OF inv, of now ch event payload] by (simp add: gw_inv_def DEFAULT_MAX_EVENTS_def)
qed

lemma broadcast_members:
  "(sid, sock) \<in> set (gw_sockets gw) \<Longrightarrow> ch \<in> set (gs_rooms sock) \<Longrightarrow> (sid, event, payload) \<in> set (fst (broadcast cfg now ch event payload gw))"
  by (force simp: broadcast_def Let_def split_beta)

lemma length_member: "x \<in> set xs \<Longrightarrow> length (f x) \<le> length (concat (map f xs))"
  by (induction xs) auto

text \<open>C8: A broadcast reaches exactly the members of the room, and every one of them may read the channel.  Whatever the reachable
  states of the instances that share the rooms, every member on any of them receives it, whoever receives it holds an ability that
  allows subscribing to the channel of that name, so no anonymous connection does, and the instance that sends records the number
  of its own recipients: all of them when there is one instance, possibly fewer when there are more.\<close>

theorem broadcasts_are_permitted:
  assumes "\<forall>gw\<in>set gws. gw_reach cfg gw" "k < length gws" "cluster_broadcast cfg now ch event payload k gws = (deliveries, gws')"
  shows "(\<forall>gw\<in>set gws. \<forall>(sid, sock)\<in>set (gw_sockets gw). ch \<in> set (gs_rooms sock) \<longrightarrow> (sid, event, payload) \<in> set deliveries)
    \<and> (\<forall>(sid, e, p)\<in>set deliveries. e = event \<and> p = payload
      \<and> (\<exists>gw\<in>set gws. \<exists>sock ability c. map_get (gw_sockets gw) sid = Some sock \<and> gs_ability sock = Some ability
           \<and> parseChannelName ch = Some c \<and> canSubscribeToChannel (gc_can cfg) ability c))
    \<and> ie_recipientCount (hd (in_events (gw_inspector (gws' ! k)))) \<le> length deliveries
    \<and> (length gws = 1 \<longrightarrow> ie_recipientCount (hd (in_events (gw_inspector (gws' ! k)))) = length deliveries)
    \<and> length (in_events (gw_inspector (gws' ! k))) \<le> 500"
proof -
  let ?out = "broadcast cfg now ch event payload"
  have d: "deliveries = concat (map (\<lambda>gw. fst (?out gw)) gws)" "gws' ! k = snd (?out (gws ! k))"
    using assms(2,3) by (auto simp: cluster_broadcast_def)
  have k: "gws ! k \<in> set gws" "gw_reach cfg (gws ! k)" using assms(1,2) by auto
  have "(sid, event, payload) \<in> set deliveries" if "gw \<in> set gws" "(sid, sock) \<in> set (gw_sockets gw)" "ch \<in> set (gs_rooms sock)" for gw sid sock
    using broadcast_members [OF that(2,3), of event payload cfg now] that(1) by (simp add: d(1)) blast
  moreover have "e = event \<and> p = payload
      \<and> (\<exists>gw\<in>set gws. \<exists>sock ability c. map_get (gw_sockets gw) sid = Some sock \<and> gs_ability sock = Some ability
           \<and> parseChannelName ch = Some c \<and> canSubscribeToChannel (gc_can cfg) ability c)"
    if del: "(sid, e, p) \<in> set deliveries" for sid e p
  proof -
    obtain gw where gw: "gw \<in> set gws" "(sid, e, p) \<in> set (fst (?out gw))" using del by (auto simp: d(1))
    have "gw_reach cfg gw" using assms(1) gw(1) by blast
    then show ?thesis by (rule broadcasts_reach [OF _ gw(2)]) (use gw(1) in blast)
  qed
  moreover have "length (fst (?out (gws ! k))) \<le> length deliveries"
    unfolding d(1) using length_member [OF k(1), of "\<lambda>gw. fst (?out gw)"] by simp
  moreover have "length gws = 1 \<longrightarrow> fst (?out (gws ! k)) = deliveries" using assms(2) by (auto simp: d(1) length_Suc_conv)
  ultimately show ?thesis unfolding d(2) using broadcast_counts [OF k(2), of now ch event payload] by fastforce
qed

text \<open>A gateway with one member of the tenant \<open>t1\<close>, subscribed to a channel.\<close>

definition sample_gateway_config :: gateway_config where
  "sample_gateway_config = \<lparr>gc_can = reference_can, gc_locale_le = js_le, gc_dots = ''...''\<rparr>"

definition joined_gateway :: "string \<Rightarrow> gateway" where
  "joined_gateway ch = gateway_step sample_gateway_config 1 (Subscribe ''s1'' (JStr ch))
     (gateway_step sample_gateway_config 0 (Connect ''s1'' (Session ''u1'' (Some ''t1'') (Some (buildAbility member_rules)))) empty_gateway)"

lemma joined_reach: "gw_reach sample_gateway_config (joined_gateway ch)"
  unfolding joined_gateway_def by (intro gw_next gw_start) (simp_all add: empty_gateway_def)

lemma joined_sockets:
  assumes "subscribe_allowed reference_can \<lparr>gs_ability = Some (buildAbility member_rules), gs_rooms = []\<rparr> ch" "ch \<noteq> []"
  shows "gw_sockets (joined_gateway ch) = [(''s1'', \<lparr>gs_ability = Some (buildAbility member_rules), gs_rooms = [ch]\<rparr>)]"
  using assms by (simp add: joined_gateway_def sample_gateway_config_def empty_gateway_def acceptConnection_def on_subscribe_def set_add_def)

lemma joined_broadcast:
  assumes "subscribe_allowed reference_can \<lparr>gs_ability = Some (buildAbility member_rules), gs_rooms = []\<rparr> ch" "ch \<noteq> []"
  shows "fst (broadcast sample_gateway_config 2 ch event payload (joined_gateway ch)) = [(''s1'', event, payload)]"
  by (simp add: broadcast_def joined_sockets [OF assms] Let_def split_beta)

theorem broadcasts_are_permitted_witness:
  "\<exists>gws'. cluster_broadcast sample_gateway_config 2 ''File:tenant:t1'' ''changed'' JNull 0 [joined_gateway ''File:tenant:t1''] =
      ([(''s1'', ''changed'', JNull)], gws')
     \<and> ie_recipientCount (hd (in_events (gw_inspector (gws' ! 0)))) = 1"
proof -
  have "subscribe_allowed reference_can \<lparr>gs_ability = Some (buildAbility member_rules), gs_rooms = []\<rparr> ''File:tenant:t1''" by code_simp
  from joined_broadcast [OF this, of "''changed''" JNull] obtain gws' where
    run: "cluster_broadcast sample_gateway_config 2 ''File:tenant:t1'' ''changed'' JNull 0 [joined_gateway ''File:tenant:t1''] =
      ([(''s1'', ''changed'', JNull)], gws')" by (simp add: cluster_broadcast_def)
  from broadcasts_are_permitted [OF _ _ run] show ?thesis using run by (simp add: joined_reach)
qed

section \<open>Tenant channels\<close>

text \<open>C16: Tenant channels stay in the tenant.  A socket whose ability was built for a user in a tenant, from the rows of the database, is
  in a tenant-scoped room only of that very tenant, unless the role of the user there was explicitly granted reading the
  subject.\<close>

theorem tenant_rooms_are_confined:
  assumes "gw_reach cfg gw" "casl (gc_can cfg) matches"
    and "map_get (gw_sockets gw) sid = Some sock" "gs_ability sock = Some (buildAbility rules)"
    and "resolveDbRules (findRulesForUser opts db u t) \<lparr>rc_userId = u, rc_now = n, rc_tenantId = Some t\<rparr> = Inr rules"
    and "room \<in> set (gs_rooms sock)" "parseChannelName room = Some c" "ch_scope c = ''tenant''"
  shows "is_member db u t \<and>
    (ch_id c = t \<or> (\<exists>m\<in>set (db_members db). mb_userId m = u \<and> mb_organizationId m = t \<and> explicit_grant db m t ''read'' (ch_subject c)))"
proof -
  have socks: "list_all2 (socket_ok (gc_can cfg)) (gw_sockets gw) (in_sockets (gw_inspector gw))"
    using gw_reach_inv [OF assms(1)] by (simp add: gw_inv_def)
  obtain e where "map_get (in_sockets (gw_inspector gw)) sid = Some e" "socket_ok (gc_can cfg) (sid, sock) (sid, e)"
    by (rule sockets_get [OF socks assms(3)])
  then have "subscribe_allowed (gc_can cfg) sock room" using assms(6) by (simp add: socket_ok_def)
  then have "gc_can cfg (buildAbility rules) ''read'' (Instance (ch_subject c) [(''tenantId'', JStr (ch_id c))])"
    using assms(4,7,8) by (simp add: subscribe_allowed_def canSubscribeToChannel_def)
  from confined_access [OF assms(2,5) this] show ?thesis by (simp add: field_is_def)
qed

theorem tenant_rooms_are_confined_witness:
  "''File:tenant:t1'' \<in> set (gs_rooms (snd (hd (gw_sockets (joined_gateway ''File:tenant:t1''))))) \<and> is_member sample_db ''u1'' ''t1''"
proof -
  have allowed: "subscribe_allowed reference_can \<lparr>gs_ability = Some (buildAbility member_rules), gs_rooms = []\<rparr> ''File:tenant:t1''" by code_simp
  have sockets: "gw_sockets (joined_gateway ''File:tenant:t1'') =
      [(''s1'', \<lparr>gs_ability = Some (buildAbility member_rules), gs_rooms = [''File:tenant:t1'']\<rparr>)]"
    by (rule joined_sockets [OF allowed]) simp
  have parsed: "parseChannelName ''File:tenant:t1'' = Some \<lparr>ch_subject = ''File'', ch_scope = ''tenant'', ch_id = ''t1''\<rparr>" by code_simp
  have casl: "casl (gc_can sample_gateway_config) reference_match" using reference.casl_axioms by (simp add: sample_gateway_config_def)
  have "is_member sample_db ''u1'' ''t1''"
    using tenant_rooms_are_confined [OF joined_reach casl _ _ member_rules_resolve _ parsed, of "''File:tenant:t1''" "''s1''"] sockets by simp
  then show ?thesis by (simp add: sockets)
qed

section \<open>What the checks leave open\<close>

lemma split_three:
  "CHR '':'' \<notin> set a \<Longrightarrow> CHR '':'' \<notin> set b \<Longrightarrow> CHR '':'' \<notin> set c \<Longrightarrow> split_on (CHR '':'') (a @ '':'' @ b @ '':'' @ c) = [a, b, c]"
  by (simp add: split_on_append_sep split_on_no_sep)

text \<open>A channel of another scope is checked by its subject type alone: any member of a tenant may join the channel of any record of
  any tenant, and receives what is broadcast there.\<close>

theorem item_channels_cross_tenants:
  assumes "i \<noteq> []" "CHR '':'' \<notin> set i"
  shows "gw_reach sample_gateway_config (joined_gateway (''File:item:'' @ i))
    \<and> fst (broadcast sample_gateway_config 2 (''File:item:'' @ i) event payload (joined_gateway (''File:item:'' @ i))) = [(''s1'', event, payload)]"
proof -
  have "parseChannelName (''File:item:'' @ i) = Some \<lparr>ch_subject = ''File'', ch_scope = ''item'', ch_id = i\<rparr>"
    using split_three [of "''File''" "''item''" i] assms by (simp add: parseChannelName_def)
  moreover have "reference_can (buildAbility member_rules) ''read'' (SubjectType ''File'')" by code_simp
  ultimately have "subscribe_allowed reference_can \<lparr>gs_ability = Some (buildAbility member_rules), gs_rooms = []\<rparr> (''File:item:'' @ i)"
    by (simp add: subscribe_allowed_def canSubscribeToChannel_def)
  then show ?thesis using joined_broadcast joined_reach by simp
qed

text \<open>The outbox sends tenant and user broadcasts to rooms with two segments, and a room needs three to be joined: in no
  reachable state does such a broadcast reach anybody.\<close>

theorem scoped_outbox_broadcasts_reach_nobody:
  assumes "gw_reach cfg gw" "CHR '':'' \<notin> set i"
  shows "fst (realtime_dispatch cfg now (Broadcast ch payload (TenantScope i)) gw) = []"
    and "fst (realtime_dispatch cfg now (Broadcast ch payload (UserScope i)) gw) = []"
proof -
  have "fst (broadcast cfg now (scope @ '':'' @ i) ch payload gw) = []" if scope: "CHR '':'' \<notin> set scope" for scope
  proof -
    have none: "parseChannelName (scope @ '':'' @ i) = None"
      using scope assms(2) by (simp add: parseChannelName_def split_on_append_sep split_on_no_sep)
    have False if "(sid, e, p) \<in> set (fst (broadcast cfg now (scope @ '':'' @ i) ch payload gw))" for sid e p
      by (rule broadcasts_reach [OF assms(1) that]) (use none in simp)
    then show ?thesis by (metis list.set_intros(1) neq_Nil_conv surj_pair)
  qed
  from this [of "''tenant''"] this [of "''user''"]
  show "fst (realtime_dispatch cfg now (Broadcast ch payload (TenantScope i)) gw) = []"
    "fst (realtime_dispatch cfg now (Broadcast ch payload (UserScope i)) gw) = []"
    by (simp_all add: realtime_dispatch_def)
qed

end
