(* ===== verification/Spec2Isabelle.thy ===== *)
theory Spec2Isabelle
  imports Outbox_Delivery Idempotency_Concurrency Fingerprint Throttler_Limits Rate_Limit_Config
    Job_Lifecycle Webhook_Delivery Webhook_Cutoff Uuid Permission_Service Request_Paths Api_Key_Lifecycle Request_Isolation
    Output_Secrecy Email_Listing Email_Delivery Email_Gates Data_Guarantees Repository Gdpr_Lifecycle File_Access Resumable_Uploads Upload_Sessions
    Realtime_Access
begin

text \<open>
  A verification library for the server core of nest-base (\<open>src/src/core\<close>), a multi-tenant NestJS backend.
  The TypeScript code is translated into HOL functions over explicit states; this theory imports every part and
  says how they belong together.

  \<^bold>\<open>The program.\<close>  A request passes a fixed chain of layers: a test hatch, the session, the API key, the ability
  (the caller's permission rules, built from database rows and cached), the portal gate, the guard of the route, and
  an interceptor that pins the tenant the data access runs under.  Handlers reach the database through a Prisma client
  with a chain of extensions (identifiers, tenant, blind index, encryption, soft delete, audit, query buffer), and what
  they return leaves through the output pipeline.  Beside the requests run the workers: the transactional
  outbox, the job queue, webhook delivery, the e-mail outbox, cron jobs for cleanup, and the erasure of accounts.

  \<^bold>\<open>Foundations.\<close>
  \<^item> \<^theory_text>\<open>Js_Prelude\<close>: what the sources use of JavaScript: strings, \<open>parseInt\<close>, stable sorting, \<open>Map\<close> with
    insertion order, JSON values, dates, and the rows of a table with \<open>update_where\<close>.
  \<^item> \<^theory_text>\<open>Json_Codec\<close>: \<open>JSON.stringify\<close>/\<open>JSON.parse\<close>, UTF-8 and base64url, each with its round trip.
  \<^item> \<^theory_text>\<open>Uuid\<close>: \<open>uuid/uuid-v7.ts\<close> on 8-bit words; shape, recognition and time order of the identifiers.

  \<^bold>\<open>Who may do what.\<close>
  \<^item> \<^theory_text>\<open>Permissions\<close>, \<^theory_text>\<open>Ability_Rules\<close>: \<open>permissions/db-rule-resolver.ts\<close>, \<open>casl-ability.ts\<close>,
    \<open>member-role-rules.ts\<close>, the API-key scopes and the tester.  The locale \<open>casl\<close> is the contract with the CASL library;
    it is interpreted on a reference evaluator.  Access stays inside the tenant and a key never gives more than
    its owner has.
  \<^item> \<^theory_text>\<open>Permission_Service\<close>: the cache of \<open>permission.service.ts\<close>, with overlapping loads as a step relation; answers
    are never older than the time to live.  What that means for a membership that has been removed is part of
    \<open>gated_handler_needs_membership\<close> in \<^theory_text>\<open>Request_Isolation\<close>.
  \<^item> \<^theory_text>\<open>Request_Paths\<close>, \<^theory_text>\<open>Request_Pipeline\<close>, \<^theory_text>\<open>Request_Isolation\<close>: path classification, the middlewares of
    \<open>auth/\<close>, \<open>permissions/\<close>, \<open>hub/\<close> and \<open>multi-tenancy/\<close>, composed as \<open>app/app.module.ts\<close> composes them.  The tenant of
    the data access is the tenant the ability was built for.
  \<^item> \<^theory_text>\<open>Api_Keys\<close>, \<^theory_text>\<open>Api_Key_Lifecycle\<close>: \<open>auth/api-keys/\<close>; the locale \<open>key_store\<close> is the contract of a storage,
    interpreted on the memory and on the Prisma storage.

  \<^bold>\<open>Data.\<close>
  \<^item> \<^theory_text>\<open>Field_Encryption\<close>: \<open>encryption/\<close>; formats, key chain and rotation, envelope keys, blind index.
  \<^item> \<^theory_text>\<open>Data_Access\<close>, \<^theory_text>\<open>Data_Guarantees\<close>: \<open>repository/prisma-extensions.ts\<close> and its soft-delete extension, in
    the order \<open>prisma/prisma.service.ts\<close> applies them.  The request context is read before the query for the stamps and after it,
    where it may be lost, for the audit row.
  \<^item> \<^theory_text>\<open>Repository\<close>: \<open>repository/base.repository.ts\<close>, the conflict planner and \<open>concurrency/etag.ts\<close>.
  \<^item> \<^theory_text>\<open>Pagination\<close>: \<open>pagination/cursor.ts\<close>; a client that follows the cursors sees every row once.
  \<^item> \<^theory_text>\<open>Output_Pipeline\<close>, \<^theory_text>\<open>Output_Secrecy\<close>: \<open>output-pipeline/\<close>; secret names never leave, field rules decide the view.
  \<^item> \<^theory_text>\<open>Gdpr\<close>, \<^theory_text>\<open>Gdpr_Lifecycle\<close>: \<open>gdpr/\<close>; erasure only after the grace period, export jobs (locale \<open>job_store\<close>).

  \<^bold>\<open>Files\<close> (\<open>files/\<close>).
  \<^item> \<^theory_text>\<open>File_Storage\<close>: keys and adapters; the locale \<open>blob_store\<close> is their contract, interpreted on the memory, Postgres
    and file-system adapters, and no key leaves the root.  \<^theory_text>\<open>Zip_Archive\<close>: the archive writer, read back by an extractor.
  \<^item> \<^theory_text>\<open>Upload_Screening\<close>: the MIME sniffer, the ClamAV protocol, what a verdict decides.
  \<^item> \<^theory_text>\<open>File_Sharing\<close>: share links and signed URLs.  \<^theory_text>\<open>File_Service\<close>: records, storage under row-level security, routes.
  \<^item> \<^theory_text>\<open>File_Guarantees\<close>, \<^theory_text>\<open>File_Access\<close>: an upload comes back, none of the nine routes crosses the tenant, a share link lives
    from its issue to its expiry, and which accesses the routes do leave open.
  \<^item> \<^theory_text>\<open>Resumable_Uploads\<close>, \<^theory_text>\<open>Upload_Sessions\<close>: the TUS data store over a storage adapter, the hook that turns a finished upload into a
    file, and the sessions of \<open>upload-session.ts\<close>; chunks assemble, a finished upload comes back, and the hook stays in the tenant.

  \<^bold>\<open>Realtime\<close> (\<open>realtime/\<close>).
  \<^item> \<^theory_text>\<open>Realtime\<close>, \<^theory_text>\<open>Realtime_Access\<close>: the gateway with its inspector, channel names and permissions, masking, and the bridge from the
    outbox.  Reachable states over connects, subscriptions, broadcasts and disconnects; broadcasts reach permitted sockets only, on one
    instance or on several that share the rooms (\<open>cluster_broadcast\<close>), and tenant rooms stay in the tenant.

  \<^bold>\<open>Work that is not done in the request.\<close>
  \<^item> \<^theory_text>\<open>Outbox\<close>, \<^theory_text>\<open>Outbox_Delivery\<close>: \<open>outbox/\<close>, on the memory and the Postgres storage; claims under arbitrary
    interleavings, what a tick does when storage calls reject, which failed entries come back.
  \<^item> \<^theory_text>\<open>Idempotency\<close>, \<^theory_text>\<open>Idempotency_Concurrency\<close>, \<^theory_text>\<open>Fingerprint\<close>: \<open>idempotency/\<close>; the handler runs once per key, a
    replay is the recorded answer, equal fingerprints are equal requests.
  \<^item> \<^theory_text>\<open>Throttler\<close>, \<^theory_text>\<open>Throttler_Limits\<close>, \<^theory_text>\<open>Rate_Limit_Config\<close>: \<open>throttler/\<close>; the windows, the Postgres backend, the
    operators' configuration and its decision log.
  \<^item> \<^theory_text>\<open>Job_Queue\<close>, \<^theory_text>\<open>Job_Lifecycle\<close>: \<open>jobs/job-queue.ts\<close> and the dashboards over it; first in first out, and
    when \<open>drain\<close> returns, for handlers that enqueue jobs or never settle.
  \<^item> \<^theory_text>\<open>Webhooks\<close>, \<^theory_text>\<open>Webhook_Delivery\<close>, \<^theory_text>\<open>Webhook_Cutoff\<close>: \<open>webhooks/\<close>; signatures, fan-out, retries and the cut-off of failing
    endpoints.  A delivery reads the endpoint, awaits the POST and then writes; deliveries overlap in a step relation, which shows
    when the cut-off comes in time and how overlapping failures are lost.
  \<^item> \<^theory_text>\<open>Email_Outbox\<close>, \<^theory_text>\<open>Email_Delivery\<close>, \<^theory_text>\<open>Email_Listing\<close>: the outbox of \<open>email/\<close> with any number of workers.
  \<^item> \<^theory_text>\<open>Email_Service\<close>, \<^theory_text>\<open>Email_Gates\<close>: \<open>email.service.ts\<close> with its blocklist, rate limiter and bot guard.

  \<^bold>\<open>Interleavings.\<close>  JavaScript runs between two \<open>await\<close>s without interruption, and a statement of the database is
  atomic.  Each model step is such a stretch: where one process or several can overlap (idempotency, the permission
  cache, the outboxes, the job queue, webhook deliveries, upload sessions, gateway events), a step relation or an event list runs them in any order and the invariants are proved by
  induction over it.  Where no overlap matters a handler is one function.

  \<^bold>\<open>Parameters.\<close>  Code outside the repository is an argument of the definitions: CASL, Better-Auth,
  Argon2, HMAC, AES-GCM, the query engine behind Prisma, \<open>localeCompare\<close>, templates, DNS, the transport of mail
  and webhooks, Socket.IO with its adapter, the TUS server, and every clock and random value.  What a property needs of them is a named hypothesis
  (\<open>casl\<close>, \<open>gcm_exact\<close>, \<open>good_randomness\<close>, \<open>honours_where\<close>, \<open>finds_created\<close>, \<open>digest_bytes\<close>), and its witness instantiates them.

  \<^bold>\<open>Fuel.\<close>  Fuel bounds three recursions: \<open>drain\<close> of the job queue, for which \<open>work_left\<close> is shown to be enough
  when the handlers wind down (three rounds per unit of weight of the waiting jobs, the rest of the current one and the outstanding ticks), and no
  amount when they do not; the cursor walks of \<open>decision_walk\<close> and \<open>listing_walk\<close>, enough with more than one unit
  per row; and \<open>json_parse\<close>, which gives itself twice the length of the text plus one, enough for every text
  \<open>stringify\<close> prints.  Every other recursion is structural or has its termination proved.

  \<^bold>\<open>Integers.\<close>  JavaScript numbers that count or measure time are \<open>int\<close> or \<open>nat\<close>: the values stay far below \<open>2^53\<close>.  Bytes
  and bit operations are on words.  Characters are the 256 of \<open>char\<close>, the code points below 256.

  \<^bold>\<open>Not modelled.\<close>  The developer portal and its React pages (\<open>dx/\<close>), branding and the e-mail builder, as user
  interface; OpenAPI and validation schemas, module wiring, bootstrap, health and metrics, as configuration of
  frameworks; the BullMQ adapter, Redis and S3 adapters, as calls into their services; the TUS protocol package and the transport between instances; image transformation and its variant cache; Better-Auth itself, whose code
  is not part of the repository.
\<close>

end
